(* ===== verification/Prelude.thy ===== *)
theory Prelude
  imports Complex_Main "HOL-Library.Sublist"
begin

text \<open>
  The vocabulary every component shares: results of code that may raise (a sum, \<open>Inl\<close> the
  error), Python and Polars floats (\<open>fl\<close>: exact reals with the IEEE special values; rounding is
  not modelled), and list lemmas about prefixes, neighbours and sortedness that the component
  theories use again and again.
\<close>

section \<open>Results\<close>

named_theorems res_simps "unfolding and splitting of results"

definition bind_res :: "'e + 'a \<Rightarrow> ('a \<Rightarrow> 'e + 'b) \<Rightarrow> 'e + 'b" where
  "bind_res m f = (case m of Inl e \<Rightarrow> Inl e | Inr x \<Rightarrow> f x)"

lemma bind_res_Inl [simp, res_simps]: "bind_res (Inl e) f = Inl e"
  by (simp add: bind_res_def)

lemma bind_res_Inr [simp, res_simps]: "bind_res (Inr x) f = f x"
  by (simp add: bind_res_def)

lemma bind_res_eq_Inr [res_simps]:
  "bind_res m f = Inr y \<longleftrightarrow> (\<exists>x. m = Inr x \<and> f x = Inr y)"
  by (cases m) auto

lemma bind_res_eq_Inl [res_simps]:
  "bind_res m f = Inl e \<longleftrightarrow> m = Inl e \<or> (\<exists>x. m = Inr x \<and> f x = Inl e)"
  by (cases m) auto

lemma bind_res_cong [fundef_cong]:
  assumes "m = m'" and "\<And>x. m' = Inr x \<Longrightarrow> f x = f' x"
  shows "bind_res m f = bind_res m' f'"
  using assms by (cases m') auto

lemma bind_resE:
  assumes "bind_res m f = Inr y"
  obtains x where "m = Inr x" "f x = Inr y"
  using assms by (cases m) auto

text \<open>A guard that raises: \<open>if bad: raise e\<close>.\<close>

definition raise_if :: "bool \<Rightarrow> 'e \<Rightarrow> 'e + unit" where
  "raise_if bad e = (if bad then Inl e else Inr ())"

lemma raise_if_simps [simp, res_simps]:
  "raise_if bad e = Inr u \<longleftrightarrow> \<not> bad"
  "raise_if bad e = Inl e' \<longleftrightarrow> bad \<and> e' = e"
  by (auto simp: raise_if_def)

fun map_res :: "('a \<Rightarrow> 'e + 'b) \<Rightarrow> 'a list \<Rightarrow> 'e + 'b list" where
  "map_res f [] = Inr []"
| "map_res f (x # xs) = bind_res (f x) (\<lambda>y. bind_res (map_res f xs) (\<lambda>ys. Inr (y # ys)))"

lemma map_res_eq_Inr: "map_res f xs = Inr ys \<longleftrightarrow> list_all2 (\<lambda>x y. f x = Inr y) xs ys"
proof (induction xs arbitrary: ys)
  case Nil
  then show ?case by auto
next
  case (Cons x xs)
  then show ?case by (cases ys) (auto simp: res_simps)
qed

lemma map_res_total: "(\<And>x. x \<in> set xs \<Longrightarrow> f x = Inr (g x)) \<Longrightarrow> map_res f xs = Inr (map g xs)"
  by (induction xs) auto

section \<open>Floats\<close>

text \<open>
  A Python float or Polars Float64: a finite value or one of the IEEE special values. Finite
  values are exact reals. The order is Polars' total order, in which NaN is above every number.
\<close>

datatype fl = Fin real | PInf | NInf | NaN

fun is_finite :: "fl \<Rightarrow> bool" where
  "is_finite (Fin _) = True"
| "is_finite _ = False"

fun is_infinite :: "fl \<Rightarrow> bool" where
  "is_infinite PInf = True"
| "is_infinite NInf = True"
| "is_infinite _ = False"

fun fin_val :: "fl \<Rightarrow> real" where
  "fin_val (Fin x) = x"
| "fin_val _ = 0"

fun fl_neg :: "fl \<Rightarrow> fl" where
  "fl_neg (Fin x) = Fin (- x)"
| "fl_neg PInf = NInf"
| "fl_neg NInf = PInf"
| "fl_neg NaN = NaN"

fun fl_abs :: "fl \<Rightarrow> fl" where
  "fl_abs (Fin x) = Fin \<bar>x\<bar>"
| "fl_abs PInf = PInf"
| "fl_abs NInf = PInf"
| "fl_abs NaN = NaN"

fun fl_sub :: "fl \<Rightarrow> fl \<Rightarrow> fl" where
  "fl_sub (Fin x) (Fin y) = Fin (x - y)"
| "fl_sub NaN _ = NaN"
| "fl_sub _ NaN = NaN"
| "fl_sub PInf PInf = NaN"
| "fl_sub NInf NInf = NaN"
| "fl_sub PInf _ = PInf"
| "fl_sub NInf _ = NInf"
| "fl_sub (Fin _) PInf = NInf"
| "fl_sub (Fin _) NInf = PInf"

definition fl_add :: "fl \<Rightarrow> fl \<Rightarrow> fl" where
  "fl_add x y = fl_sub x (fl_neg y)"

fun fl_div :: "fl \<Rightarrow> fl \<Rightarrow> fl" where
  "fl_div (Fin x) (Fin y) = (if y \<noteq> 0 then Fin (x / y) else if x > 0 then PInf
                             else if x < 0 then NInf else NaN)"
| "fl_div NaN _ = NaN"
| "fl_div _ NaN = NaN"
| "fl_div (Fin _) _ = Fin 0"
| "fl_div PInf (Fin y) = (if y \<ge> 0 then PInf else NInf)"
| "fl_div NInf (Fin y) = (if y \<ge> 0 then NInf else PInf)"
| "fl_div _ _ = NaN"

instantiation fl :: linorder
begin

fun less_eq_fl :: "fl \<Rightarrow> fl \<Rightarrow> bool" where
  "less_eq_fl (Fin x) (Fin y) = (x \<le> y)"
| "less_eq_fl NInf y = True"
| "less_eq_fl x NaN = True"
| "less_eq_fl (Fin x) PInf = True"
| "less_eq_fl PInf PInf = True"
| "less_eq_fl _ _ = False"

definition less_fl :: "fl \<Rightarrow> fl \<Rightarrow> bool" where
  "less_fl x y = (x \<le> y \<and> \<not> y \<le> x)"

instance
proof
  fix x y z :: fl
  show "x < y \<longleftrightarrow> x \<le> y \<and> \<not> y \<le> x" by (simp add: less_fl_def)
  show "x \<le> x" by (cases x) auto
  show "x \<le> y \<Longrightarrow> y \<le> z \<Longrightarrow> x \<le> z" by (cases x; cases y; cases z) auto
  show "x \<le> y \<Longrightarrow> y \<le> x \<Longrightarrow> x = y" by (cases x; cases y) auto
  show "x \<le> y \<or> y \<le> x" by (cases x; cases y) auto
qed

end

lemma less_fl_simps [simp]:
  "Fin x < Fin y \<longleftrightarrow> x < y"
  "Fin x < PInf" "\<not> PInf < Fin x" "NInf < Fin x" "\<not> Fin x < NInf" "NInf < PInf" "\<not> PInf < NInf"
  "Fin x < NaN" "PInf < NaN" "NInf < NaN" "\<not> NaN < v"
  "\<not> PInf \<le> Fin x" "\<not> Fin x \<le> NInf" "\<not> PInf \<le> NInf"
  by (auto simp: less_fl_def) (cases v; simp)

lemma is_finite_iff: "is_finite v \<longleftrightarrow> (\<exists>x. v = Fin x)"
  by (cases v) auto

text \<open>A JSON value; an object is its members in order.\<close>

datatype json =
    JNull
  | JBool bool
  | JInt int
  | JNum fl
  | JStr string
  | JList "json list"
  | JObj "(string \<times> json) list"

section \<open>Loops forward\<close>

text \<open>
  A \<open>for\<close> loop that keeps some state and appends one output per row. The output at a row depends
  on the rows up to it only, which the locale \<open>causal\<close> states for any function of a series.
\<close>

fun scan :: "('s \<Rightarrow> 'a \<Rightarrow> 's \<times> 'b) \<Rightarrow> 's \<Rightarrow> 'a list \<Rightarrow> 'b list" where
  "scan f s [] = []"
| "scan f s (x # xs) = snd (f s x) # scan f (fst (f s x)) xs"

definition scan_state :: "('s \<Rightarrow> 'a \<Rightarrow> 's \<times> 'b) \<Rightarrow> 's \<Rightarrow> 'a list \<Rightarrow> nat \<Rightarrow> 's" where
  "scan_state f s xs i = foldl (\<lambda>s x. fst (f s x)) s (take i xs)"

lemma scan_state_0 [simp]: "scan_state f s xs 0 = s"
  by (simp add: scan_state_def)

lemma scan_state_Suc: "i < length xs \<Longrightarrow> scan_state f s xs (Suc i) = fst (f (scan_state f s xs i) (xs ! i))"
  by (simp add: scan_state_def take_Suc_conv_app_nth)

lemma length_scan [simp]: "length (scan f s xs) = length xs"
  by (induction f s xs rule: scan.induct) auto

lemma take_scan: "take n (scan f s xs) = scan f s (take n xs)"
  by (induction f s xs arbitrary: n rule: scan.induct) (auto simp: take_Cons split: nat.split)

lemma nth_scan: "i < length xs \<Longrightarrow> scan f s xs ! i = snd (f (scan_state f s xs i) (xs ! i))"
proof (induction f s xs arbitrary: i rule: scan.induct)
  case (2 f s x xs)
  then show ?case by (cases i) (auto simp: scan_state_def)
qed simp

lemma set_scan:
  assumes "\<And>s x. x \<in> set xs \<Longrightarrow> P s \<Longrightarrow> P (fst (f s x)) \<and> Q (snd (f s x))" "P s"
  shows "\<forall>y \<in> set (scan f s xs). Q y"
  using assms by (induction f s xs rule: scan.induct) auto

locale causal =
  fixes f :: "'a list \<Rightarrow> 'b list"
  assumes out_length [simp]: "length (f xs) = length xs"
    and out_take: "take n (f xs) = f (take n xs)"
begin

lemma same_prefix: "take n xs = take n ys \<Longrightarrow> take n (f xs) = take n (f ys)"
  by (simp add: out_take)

lemma nth_prefix: "i < length xs \<Longrightarrow> f xs ! i = f (take (Suc i) xs) ! i"
  by (metis lessI nth_take out_take)

end

lemma causal_scan: "causal (scan f s)"
  by unfold_locales (simp_all add: take_scan)

lemma causal_map: "causal (map g)"
  by unfold_locales (simp_all add: take_map)

lemma causal_comp: "causal f \<Longrightarrow> causal g \<Longrightarrow> causal (g \<circ> f)"
  by (simp add: causal_def)

lemma causal_id: "causal (\<lambda>xs. xs)"
  by unfold_locales simp_all

section \<open>Bisection\<close>

text \<open>
  \<open>bisect_left\<close> of the standard library with a key that is a predicate (\<open>P i\<close>, the key of the item
  at \<open>i\<close>, searched for \<open>True\<close>): the loop over \<open>lo\<close> and \<open>hi\<close>.
\<close>

function bisect :: "(nat \<Rightarrow> bool) \<Rightarrow> nat \<Rightarrow> nat \<Rightarrow> nat" where
  "bisect P lo hi = (if lo < hi then
     (let mid = (lo + hi) div 2 in if P mid then bisect P lo mid else bisect P (mid + 1) hi)
     else lo)"
  by pat_completeness auto
termination by (relation "measure (\<lambda>(P, lo, hi). hi - lo)") auto

declare bisect.simps [simp del]

lemma bisect_le: "lo \<le> hi \<Longrightarrow> bisect P lo hi \<le> hi"
proof (induction P lo hi rule: bisect.induct)
  case (1 P lo hi)
  have "bisect P lo ((lo + hi) div 2) \<le> hi" if "lo < hi" "P ((lo + hi) div 2)"
  proof -
    have "bisect P lo ((lo + hi) div 2) \<le> (lo + hi) div 2"
      by (rule 1(1)[OF that(1) refl that(2)]) (use that(1) in simp)
    also have "\<dots> \<le> hi" using that(1) by linarith
    finally show ?thesis .
  qed
  moreover have "bisect P ((lo + hi) div 2 + 1) hi \<le> hi" if "lo < hi" "\<not> P ((lo + hi) div 2)"
    by (rule 1(2)[OF that(1) refl that(2)]) (use that(1) in simp)
  ultimately show ?case using 1(3) by (subst bisect.simps) (simp add: Let_def)
qed

lemma bisect_spec:
  assumes "lo \<le> hi" "\<And>i j. lo \<le> i \<Longrightarrow> i \<le> j \<Longrightarrow> j < hi \<Longrightarrow> P i \<Longrightarrow> P j"
  shows "lo \<le> bisect P lo hi \<and> bisect P lo hi \<le> hi \<and> (\<forall>i. lo \<le> i \<and> i < bisect P lo hi \<longrightarrow> \<not> P i) \<and>
     (\<forall>i. bisect P lo hi \<le> i \<and> i < hi \<longrightarrow> P i)"
  using assms
proof (induction P lo hi rule: bisect.induct)
  case (1 P lo hi)
  define mid where "mid = (lo + hi) div 2"
  note mono = 1(4)
  show ?case
  proof (cases "lo < hi")
    case False
    then show ?thesis using 1(3) by (auto simp: bisect.simps)
  next
    case True
    then have m: "lo \<le> mid" "mid < hi" by (auto simp: mid_def)
    show ?thesis
    proof (cases "P mid")
      case low: True
      have IH: "lo \<le> bisect P lo mid \<and> bisect P lo mid \<le> mid \<and>
          (\<forall>i. lo \<le> i \<and> i < bisect P lo mid \<longrightarrow> \<not> P i) \<and> (\<forall>i. bisect P lo mid \<le> i \<and> i < mid \<longrightarrow> P i)"
        by (rule 1(1)[OF True mid_def low m(1)]) (meson m(2) mono less_trans)
      moreover have "P i" if "mid \<le> i" "i < hi" for i using mono[OF m(1) that low] .
      ultimately have "\<forall>i. bisect P lo mid \<le> i \<and> i < hi \<longrightarrow> P i" by (meson not_le)
      moreover have "bisect P lo hi = bisect P lo mid"
        using True low by (subst bisect.simps) (simp add: mid_def Let_def)
      ultimately show ?thesis using IH m by auto
    next
      case high: False
      have IH: "mid + 1 \<le> bisect P (mid + 1) hi \<and> bisect P (mid + 1) hi \<le> hi \<and>
          (\<forall>i. mid + 1 \<le> i \<and> i < bisect P (mid + 1) hi \<longrightarrow> \<not> P i) \<and>
          (\<forall>i. bisect P (mid + 1) hi \<le> i \<and> i < hi \<longrightarrow> P i)"
      proof (rule 1(2)[OF True mid_def high])
        show "mid + 1 \<le> hi" using m by simp
        show "P j" if "mid + 1 \<le> i" "i \<le> j" "j < hi" "P i" for i j
          using mono[of i j] that m(1) by simp
      qed
      have "\<not> P i" if "lo \<le> i" "i < bisect P (mid + 1) hi" for i
      proof (cases "i \<le> mid")
        case True
        then show ?thesis using mono[OF that(1) True m(2)] high by blast
      next
        case False
        then show ?thesis using IH that(2) by simp
      qed
      then have "\<forall>i. lo \<le> i \<and> i < bisect P (mid + 1) hi \<longrightarrow> \<not> P i" by blast
      moreover have "bisect P lo hi = bisect P (mid + 1) hi"
        using True high by (subst bisect.simps) (simp add: mid_def Let_def)
      ultimately show ?thesis using IH m by auto
    qed
  qed
qed

lemma bisect_from_0:
  assumes "\<And>i j. i \<le> j \<Longrightarrow> j < n \<Longrightarrow> P i \<Longrightarrow> P j"
  shows "bisect P 0 n \<le> n" "i < bisect P 0 n \<Longrightarrow> \<not> P i" "bisect P 0 n \<le> i \<Longrightarrow> i < n \<Longrightarrow> P i"
proof -
  have "0 \<le> bisect P 0 n \<and> bisect P 0 n \<le> n \<and> (\<forall>i. 0 \<le> i \<and> i < bisect P 0 n \<longrightarrow> \<not> P i) \<and>
     (\<forall>i. bisect P 0 n \<le> i \<and> i < n \<longrightarrow> P i)"
    by (rule bisect_spec[OF le0]) (use assms in blast)
  then show "bisect P 0 n \<le> n" "i < bisect P 0 n \<Longrightarrow> \<not> P i" "bisect P 0 n \<le> i \<Longrightarrow> i < n \<Longrightarrow> P i"
    using le0 by blast+
qed

section \<open>Lists\<close>

named_theorems list_simps "prefixes, neighbours and updates of lists"

lemma take_nth_eq:
  assumes "take n xs = take n ys" "i < n" "i < length xs" "i < length ys"
  shows "xs ! i = ys ! i"
  using assms by (metis nth_take)

lemma sorted_wrt_nth_mono:
  assumes "sorted_wrt (<) (xs :: int list)" "i \<le> j" "j < length xs"
  shows "xs ! i \<le> xs ! j"
  using assms by (cases "i = j") (auto simp: sorted_wrt_iff_nth_less intro: less_imp_le)

lemma strict_sorted_adjacent:
  "sorted_wrt (<) (xs :: 'a :: preorder list) \<longleftrightarrow> (\<forall>i. Suc i < length xs \<longrightarrow> xs ! i < xs ! Suc i)"
proof (induction xs)
  case Nil
  then show ?case by simp
next
  case (Cons x xs)
  show ?case
  proof (cases xs)
    case Nil
    then show ?thesis by simp
  next
    case (Cons y ys)
    have "sorted_wrt (<) (x # xs) \<longleftrightarrow> x < y \<and> sorted_wrt (<) xs"
      using Cons by (auto intro: less_trans)
    also have "\<dots> \<longleftrightarrow> (\<forall>i. Suc i < length (x # xs) \<longrightarrow> (x # xs) ! i < (x # xs) ! Suc i)"
    proof
      assume a: "x < y \<and> sorted_wrt (<) xs"
      show "\<forall>i. Suc i < length (x # xs) \<longrightarrow> (x # xs) ! i < (x # xs) ! Suc i"
      proof (intro allI impI)
        fix i assume "Suc i < length (x # xs)"
        then show "(x # xs) ! i < (x # xs) ! Suc i"
          using a Cons.IH Cons by (cases i) auto
      qed
    next
      assume a: "\<forall>i. Suc i < length (x # xs) \<longrightarrow> (x # xs) ! i < (x # xs) ! Suc i"
      have "x < y" using a[rule_format, of 0] Cons by simp
      moreover have "\<forall>i. Suc i < length xs \<longrightarrow> xs ! i < xs ! Suc i"
      proof (intro allI impI)
        fix i assume "Suc i < length xs"
        then show "xs ! i < xs ! Suc i" using a[rule_format, of "Suc i"] by simp
      qed
      ultimately show "x < y \<and> sorted_wrt (<) xs" using Cons.IH by blast
    qed
    finally show ?thesis .
  qed
qed

text \<open>The distinct values in the order they first appear (\<open>group_by\<close> with \<open>maintain_order\<close>).\<close>

definition first_seen :: "'a list \<Rightarrow> 'a list" where
  "first_seen xs = rev (remdups (rev xs))"

lemma set_first_seen [simp]: "set (first_seen xs) = set xs"
  by (simp add: first_seen_def)

lemma distinct_first_seen [simp]: "distinct (first_seen xs)"
  by (simp add: first_seen_def)

lemma sorted_wrt_remdups: "sorted_wrt P xs \<Longrightarrow> sorted_wrt P (remdups xs)"
  by (induction xs) auto

lemma sorted_first_seen:
  assumes "sorted (xs :: 'a :: linorder list)"
  shows "sorted_wrt (<) (first_seen xs)"
proof -
  have "sorted_wrt (\<lambda>x y. y \<le> x) (rev xs)" using assms by (simp add: sorted_wrt_rev)
  from sorted_wrt_remdups[OF this] have "sorted (first_seen xs)"
    by (simp add: first_seen_def sorted_wrt_rev)
  then show ?thesis by (simp add: strict_sorted_iff)
qed

end
