(* ===== verification/Frames.thy ===== *)
theory Frames
  imports Prelude "HOL-Library.Multiset"
begin

text \<open>
  The Polars frames and series the code reads, as far as the code looks at them: a series is a
  column type and its cells, a frame is a list of named columns of one height. Only what the
  sources use is here: the schema questions (\<open>is_integer\<close>, \<open>is_numeric\<close>, text), the strict casts to
  Int64 and Float64 and column lookup.
\<close>

section \<open>Column types and cells\<close>

datatype dtype =
    DInt nat bool \<comment> \<open>bits, signed\<close>
  | DFloat nat
  | DString
  | DCategorical
  | DBool
  | DOther string

datatype cell = Null | VInt int | VFlt fl | VStr string | VBool bool

fun is_integer :: "dtype \<Rightarrow> bool" where
  "is_integer (DInt _ _) = True"
| "is_integer _ = False"

fun is_float :: "dtype \<Rightarrow> bool" where
  "is_float (DFloat _) = True"
| "is_float _ = False"

definition is_numeric :: "dtype \<Rightarrow> bool" where
  "is_numeric d = (is_integer d \<or> is_float d)"

definition is_text :: "dtype \<Rightarrow> bool" where
  "is_text d = (d = DString \<or> d = DCategorical)"

definition int64_min :: int where "int64_min = - (2 ^ 63)"
definition int64_max :: int where "int64_max = 2 ^ 63 - 1"

definition in_int64 :: "int \<Rightarrow> bool" where
  "in_int64 i = (int64_min \<le> i \<and> i \<le> int64_max)"

text \<open>An Int64 difference wraps around. \<open>rising64\<close> is what a check of \<open>diff() <= 0\<close> lets pass; while
  the values lie less than 2^63 apart nothing wraps and it means that they rise.\<close>

definition wrap64 :: "int \<Rightarrow> int" where
  "wrap64 i = (i + 2 ^ 63) mod 2 ^ 64 - 2 ^ 63"

definition rising64 :: "int list \<Rightarrow> bool" where
  "rising64 ts = (\<forall>j. Suc j < length ts \<longrightarrow> 0 < wrap64 (ts ! Suc j - ts ! j))"

definition in_span :: "int list \<Rightarrow> bool" where
  "in_span ts = (\<forall>a \<in> set ts. \<forall>b \<in> set ts. b - a < 2 ^ 63)"

lemma wrap64_id: "- (2 ^ 63) \<le> i \<Longrightarrow> i < 2 ^ 63 \<Longrightarrow> wrap64 i = i"
  by (simp add: wrap64_def)

lemma rising64_iff:
  assumes "in_span ts"
  shows "rising64 ts \<longleftrightarrow> sorted_wrt (<) ts"
proof -
  have "wrap64 (ts ! Suc j - ts ! j) = ts ! Suc j - ts ! j" if "Suc j < length ts" for j
  proof -
    have "ts ! j \<in> set ts" "ts ! Suc j \<in> set ts" using that by simp_all
    then have "ts ! Suc j - ts ! j < 2 ^ 63" "ts ! j - ts ! Suc j < 2 ^ 63"
      using assms unfolding in_span_def by blast+
    then show ?thesis by (intro wrap64_id) simp_all
  qed
  then show ?thesis unfolding rising64_def strict_sorted_adjacent by auto
qed

lemma in_span_from_epoch:
  assumes "\<forall>t \<in> set ts. 0 \<le> t \<and> t < 2 ^ 63"
  shows "in_span ts"
  unfolding in_span_def
proof (intro ballI)
  fix a b assume "a \<in> set ts" "b \<in> set ts"
  then have "0 \<le> a" "b < 2 ^ 63" using assms by blast+
  then show "b - a < 2 ^ 63" by linarith
qed

record series =
  s_dtype :: dtype
  s_cells :: "cell list"

type_synonym frame = "(string \<times> series) list"

definition columns :: "frame \<Rightarrow> string list" where
  "columns f = map fst f"

definition column :: "frame \<Rightarrow> string \<Rightarrow> series option" where
  "column f name = map_of f name"

text \<open>A lookup the code only makes once it knows the column is there.\<close>

definition the_column :: "frame \<Rightarrow> string \<Rightarrow> series" where
  "the_column f name = (case column f name of
      Some s \<Rightarrow> s | None \<Rightarrow> \<lparr>s_dtype = DOther ''missing'', s_cells = []\<rparr>)"

definition height :: "frame \<Rightarrow> nat" where
  "height f = (case f of [] \<Rightarrow> 0 | (_, s) # _ \<Rightarrow> length (s_cells s))"

text \<open>All columns of a frame are equally long, and their names differ.\<close>

definition wf_frame :: "frame \<Rightarrow> bool" where
  "wf_frame f = (distinct (columns f) \<and> list_all (\<lambda>(_, s). length (s_cells s) = height f) f)"

lemma wf_frame_column_length:
  assumes "wf_frame f" "column f name = Some s"
  shows "length (s_cells s) = height f"
  using assms by (auto simp: wf_frame_def column_def list_all_iff dest!: map_of_SomeD)

lemma the_column_Some [simp]: "column f name = Some s \<Longrightarrow> the_column f name = s"
  by (simp add: the_column_def)

lemma column_in_columns: "name \<in> set (columns f) \<longleftrightarrow> (\<exists>s. column f name = Some s)"
  unfolding columns_def column_def set_map
  by (metis domD domI dom_map_of_conv_image_fst)

lemma the_column_length:
  "wf_frame f \<Longrightarrow> name \<in> set (columns f) \<Longrightarrow> length (s_cells (the_column f name)) = height f"
  using wf_frame_column_length by (auto simp: column_in_columns)

section \<open>Casts\<close>

text \<open>An integer cell as Python reads it; \<open>None\<close> is a missing value.\<close>

fun int_cell :: "cell \<Rightarrow> int option" where
  "int_cell (VInt i) = Some i"
| "int_cell _ = None"

text \<open>The strict cast to Int64 fails when a value does not fit.\<close>

definition cast_int64 :: "cell list \<Rightarrow> int option list option" where
  "cast_int64 cs = (let is = map int_cell cs in
     if list_all (\<lambda>i. case i of None \<Rightarrow> True | Some v \<Rightarrow> in_int64 v) is then Some is else None)"

text \<open>The cast to Float64 of a numeric column; an integer becomes the float of its value.\<close>

fun float_cell :: "cell \<Rightarrow> fl option" where
  "float_cell (VInt i) = Some (Fin (of_int i))"
| "float_cell (VFlt v) = Some v"
| "float_cell _ = None"

definition cast_float64 :: "cell list \<Rightarrow> fl option list" where
  "cast_float64 cs = map float_cell cs"

lemma length_cast_float64 [simp]: "length (cast_float64 cs) = length cs"
  by (simp add: cast_float64_def)

lemma length_cast_int64: "cast_int64 cs = Some is \<Longrightarrow> length is = length cs"
  by (auto simp: cast_int64_def Let_def split: if_splits)

section \<open>Rows\<close>

definition pick :: "'a list \<Rightarrow> nat list \<Rightarrow> 'a list" where
  "pick xs idx = map (\<lambda>i. xs ! i) idx"

text \<open>The rows with the given numbers, in that order.\<close>

definition pick_rows :: "nat list \<Rightarrow> frame \<Rightarrow> frame" where
  "pick_rows idx f = map (\<lambda>(name, s). (name, s\<lparr>s_cells := pick (s_cells s) idx\<rparr>)) f"

text \<open>\<open>with_columns\<close> with one column: it takes the place of the column of its name, or comes last.\<close>

definition with_column :: "string \<Rightarrow> series \<Rightarrow> frame \<Rightarrow> frame" where
  "with_column name s f =
     (if name \<in> set (columns f) then map (\<lambda>(n, t). (n, if n = name then s else t)) f
      else f @ [(name, s)])"

definition int64_series :: "int list \<Rightarrow> series" where
  "int64_series xs = \<lparr>s_dtype = DInt 64 True, s_cells = map VInt xs\<rparr>"

definition cell_int :: "cell \<Rightarrow> int" where
  "cell_int c = (case int_cell c of Some i \<Rightarrow> i | None \<Rightarrow> 0)"

text \<open>The values of an integer column without missing ones.\<close>

definition int_values :: "frame \<Rightarrow> string \<Rightarrow> int list" where
  "int_values f name = map cell_int (s_cells (the_column f name))"

text \<open>The row numbers in ascending order of a key; equal keys keep their order.\<close>

definition sorted_rows :: "int list \<Rightarrow> nat list" where
  "sorted_rows ks = sort_key (\<lambda>i. ks ! i) [0..<length ks]"

lemma column_with_column: "column (with_column name s f) n = (if n = name then Some s else column f n)"
proof (cases "name \<in> set (columns f)")
  case True
  have "map_of (map (\<lambda>(n, t). (n, if n = name then s else t)) f) n =
      (if n = name \<and> n \<in> set (columns f) then Some s else map_of f n)"
    by (induction f) (auto simp: columns_def image_iff split: if_splits)
  then show ?thesis using True by (simp add: with_column_def column_def)
next
  case False
  then have "map_of f name = None" by (simp add: columns_def map_of_eq_None_iff)
  then show ?thesis using False by (auto simp: with_column_def column_def map_add_def split: option.split)
qed

lemma columns_with_column:
  "columns (with_column name s f) = (if name \<in> set (columns f) then columns f else columns f @ [name])"
  by (auto simp: with_column_def columns_def)

lemma columns_pick_rows [simp]: "columns (pick_rows idx f) = columns f"
  by (auto simp: pick_rows_def columns_def)

lemma column_pick_rows:
  "column (pick_rows idx f) n = map_option (\<lambda>s. s\<lparr>s_cells := pick (s_cells s) idx\<rparr>) (column f n)"
  by (induction f) (auto simp: pick_rows_def column_def)

lemma int_values_with_column [simp]: "int_values (with_column n (int64_series xs) f) n = xs"
  by (simp add: int_values_def the_column_def column_with_column int64_series_def cell_int_def comp_def)

lemma int_values_pick_rows:
  "column f n = Some s \<Longrightarrow> \<forall>i \<in> set idx. i < length (s_cells s) \<Longrightarrow>
   int_values (pick_rows idx f) n = pick (int_values f n) idx"
  by (simp add: int_values_def the_column_def column_pick_rows pick_def)

lemma set_sorted_rows [simp]: "set (sorted_rows ks) = {..<length ks}"
  by (auto simp: sorted_rows_def)

lemma length_sorted_rows [simp]: "length (sorted_rows ks) = length ks"
  by (simp add: sorted_rows_def)

lemma pick_sorted_rows: "pick ks (sorted_rows ks) = sort ks"
proof -
  have "mset (map ((!) ks) (sorted_rows ks)) = mset (map ((!) ks) [0..<length ks])"
    unfolding sorted_rows_def mset_map mset_sort ..
  then have "mset (pick ks (sorted_rows ks)) = mset ks" by (simp add: pick_def map_nth)
  moreover have "sorted (pick ks (sorted_rows ks))"
    by (simp add: pick_def sorted_rows_def)
  ultimately show ?thesis by (metis properties_for_sort)
qed

section \<open>Frames stay rectangular\<close>

lemma wf_frameI:
  "distinct (columns f) \<Longrightarrow> (\<And>name s. (name, s) \<in> set f \<Longrightarrow> length (s_cells s) = n) \<Longrightarrow> wf_frame f"
  by (cases f) (auto simp: wf_frame_def height_def list_all_iff)

lemma wf_frame_length: "wf_frame f \<Longrightarrow> (name, s) \<in> set f \<Longrightarrow> length (s_cells s) = height f"
  by (auto simp: wf_frame_def list_all_iff)

lemma wf_frame_distinct: "wf_frame f \<Longrightarrow> distinct (columns f)"
  by (simp add: wf_frame_def)

lemma wf_frame_with_column:
  assumes "wf_frame f" "length (s_cells s) = height f"
  shows "wf_frame (with_column name s f)"
proof (rule wf_frameI)
  show "distinct (columns (with_column name s f))"
    using wf_frame_distinct[OF assms(1)] by (simp add: columns_with_column)
  show "length (s_cells t) = height f" if "(n, t) \<in> set (with_column name s f)" for n t
    using that assms wf_frame_length[OF assms(1)] by (auto simp: with_column_def split: if_splits)
qed

lemma wf_frame_pick_rows:
  assumes "wf_frame f"
  shows "wf_frame (pick_rows idx f)"
proof (rule wf_frameI)
  show "distinct (columns (pick_rows idx f))" using wf_frame_distinct[OF assms] by simp
  show "length (s_cells s) = length idx" if "(n, s) \<in> set (pick_rows idx f)" for n s
    using that by (auto simp: pick_rows_def pick_def)
qed

lemma wf_frame_snoc:
  assumes "wf_frame f" "f \<noteq> []" "length (s_cells s) = height f" "name \<notin> set (columns f)"
  shows "wf_frame (f @ [(name, s)])"
proof (rule wf_frameI)
  show "distinct (columns (f @ [(name, s)]))"
    using wf_frame_distinct[OF assms(1)] assms(4) by (simp add: columns_def)
  show "length (s_cells t) = height f" if "(n, t) \<in> set (f @ [(name, s)])" for n t
    using that assms(3) wf_frame_length[OF assms(1)] by auto
qed

lemma height_pick_rows: "f \<noteq> [] \<Longrightarrow> height (pick_rows idx f) = length idx"
  by (cases f) (auto simp: pick_rows_def height_def pick_def)

end
