(* ===== verification/EngineInputs.thy ===== *)
theory EngineInputs
  imports Frames
begin

text \<open>
  \<open>engine/inputs.py\<close>: the check of the input frame and its columns as the lists the loop runs
  over. \<open>read_input_frame\<close> is \<open>read\<close>, \<open>check_columns\<close> and \<open>check_rows\<close> are the two checks, and the
  seven rules of \<open>_RULES\<close> are the constructors of \<open>engine_rule\<close>, in their order.
\<close>

section \<open>The checked input\<close>

record candles =
  c_ts :: "int list"
  c_opens :: "real list"
  c_highs :: "real list"
  c_lows :: "real list"
  c_closes :: "real list"
  c_signals :: "int list"

datatype engine_rule =
    MissingTs
  | TsNotAfterPrevious
  | BadPrice
  | NonPositivePrice
  | BadSignal
  | SignalBeyondOne
  | FractionalSignal

definition engine_rules :: "engine_rule list" where
  "engine_rules = [MissingTs, TsNotAfterPrevious, BadPrice, NonPositivePrice, BadSignal,
     SignalBeyondOne, FractionalSignal]"

text \<open>A broken rule, how many rows break it and the first one.\<close>

type_synonym row_problem = "engine_rule \<times> nat \<times> nat"

datatype column_problem = TsNotInteger dtype | NotANumber string dtype

datatype engine_error =
    NoColumn "string list"
  | WrongColumns "column_problem list"
  | BadRows "row_problem list"
  | CastFailed \<comment> \<open>Polars refuses the cast of \<open>ts\<close> to Int64\<close>

definition engine_columns :: "string list" where
  "engine_columns = [''ts'', ''open'', ''high'', ''low'', ''close'', ''signal'']"

definition engine_prices :: "string list" where
  "engine_prices = [''open'', ''high'', ''low'', ''close'']"

section \<open>Columns\<close>

definition missing_columns :: "frame \<Rightarrow> string list" where
  "missing_columns f = filter (\<lambda>name. name \<notin> set (columns f)) engine_columns"

definition column_problems :: "frame \<Rightarrow> column_problem list" where
  "column_problems f =
     (if is_integer (s_dtype (the_column f ''ts'')) then []
      else [TsNotInteger (s_dtype (the_column f ''ts''))]) @
     map (\<lambda>name. NotANumber name (s_dtype (the_column f name)))
       (filter (\<lambda>name. \<not> is_numeric (s_dtype (the_column f name))) (engine_prices @ [''signal'']))"

definition check_columns :: "frame \<Rightarrow> engine_error + unit" where
  "check_columns f =
     bind_res (raise_if (missing_columns f \<noteq> []) (NoColumn (missing_columns f)))
       (\<lambda>_. raise_if (column_problems f \<noteq> []) (WrongColumns (column_problems f)))"

section \<open>Rows\<close>

record checked =
  d_ts :: "int option list"
  d_open :: "fl option list"
  d_high :: "fl option list"
  d_low :: "fl option list"
  d_close :: "fl option list"
  d_signal :: "fl option list"

definition d_prices :: "checked \<Rightarrow> nat \<Rightarrow> fl option list" where
  "d_prices d i = [d_open d ! i, d_high d ! i, d_low d ! i, d_close d ! i]"

text \<open>\<open>is_finite().not_().fill_null(True)\<close>\<close>

definition missing_or_non_finite :: "fl option \<Rightarrow> bool" where
  "missing_or_non_finite v = (case v of None \<Rightarrow> True | Some x \<Rightarrow> \<not> is_finite x)"

definition finite_and :: "(real \<Rightarrow> bool) \<Rightarrow> fl option \<Rightarrow> bool" where
  "finite_and p v = (case v of Some (Fin x) \<Rightarrow> p x | _ \<Rightarrow> False)"

text \<open>Whether row \<open>i\<close> breaks a rule; a null condition flags no row.\<close>

fun breaks :: "checked \<Rightarrow> engine_rule \<Rightarrow> nat \<Rightarrow> bool" where
  "breaks d MissingTs i = (d_ts d ! i = None)"
| "breaks d TsNotAfterPrevious i =
     (case i of 0 \<Rightarrow> False
      | Suc j \<Rightarrow> (case (d_ts d ! j, d_ts d ! i) of (Some a, Some b) \<Rightarrow> wrap64 (b - a) \<le> 0 | _ \<Rightarrow> False))"
| "breaks d BadPrice i = list_ex missing_or_non_finite (d_prices d i)"
| "breaks d NonPositivePrice i = list_ex (finite_and (\<lambda>x. x \<le> 0)) (d_prices d i)"
| "breaks d BadSignal i = missing_or_non_finite (d_signal d ! i)"
| "breaks d SignalBeyondOne i = finite_and (\<lambda>x. \<bar>x\<bar> > 1) (d_signal d ! i)"
| "breaks d FractionalSignal i = finite_and (\<lambda>x. \<bar>x\<bar> < 1 \<and> x \<noteq> 0) (d_signal d ! i)"

definition bad_rows :: "checked \<Rightarrow> engine_rule \<Rightarrow> nat list" where
  "bad_rows d r = filter (breaks d r) [0..<length (d_ts d)]"

definition row_problems :: "checked \<Rightarrow> row_problem list" where
  "row_problems d = map (\<lambda>r. (r, length (bad_rows d r), hd (bad_rows d r)))
     (filter (\<lambda>r. bad_rows d r \<noteq> []) engine_rules)"

definition check_rows :: "checked \<Rightarrow> engine_error + unit" where
  "check_rows d = raise_if (row_problems d \<noteq> []) (BadRows (row_problems d))"

text \<open>The cells of checked columns as plain Python values.\<close>

definition price_of :: "fl option \<Rightarrow> real" where
  "price_of v = (case v of Some (Fin x) \<Rightarrow> x | _ \<Rightarrow> 0)"

text \<open>The cast to Int8 of a checked signal: it is -1, 0 or 1.\<close>

definition signal_of :: "fl option \<Rightarrow> int" where
  "signal_of v = \<lfloor>price_of v\<rfloor>"

definition ts_of :: "int option \<Rightarrow> int" where
  "ts_of v = (case v of Some i \<Rightarrow> i | None \<Rightarrow> 0)"

definition read_input_frame :: "frame \<Rightarrow> engine_error + candles" where
  "read_input_frame f =
     bind_res (check_columns f) (\<lambda>_.
     case cast_int64 (s_cells (the_column f ''ts'')) of
       None \<Rightarrow> Inl CastFailed
     | Some ts \<Rightarrow>
         (let floats = (\<lambda>name. cast_float64 (s_cells (the_column f name)));
              d = \<lparr>d_ts = ts, d_open = floats ''open'', d_high = floats ''high'',
                   d_low = floats ''low'', d_close = floats ''close'',
                   d_signal = floats ''signal''\<rparr>
          in bind_res (check_rows d) (\<lambda>_. Inr
               \<lparr>c_ts = map ts_of (d_ts d), c_opens = map price_of (d_open d),
                c_highs = map price_of (d_high d), c_lows = map price_of (d_low d),
                c_closes = map price_of (d_close d), c_signals = map signal_of (d_signal d)\<rparr>)))"

section \<open>What a checked input satisfies\<close>

text \<open>What the loop is given: the contract of \<open>docs/engine.md\<close> (Input), the order of \<open>ts\<close> as the
  check sees it.\<close>

definition wf_candles :: "candles \<Rightarrow> bool" where
  "wf_candles c = (
     length (c_opens c) = length (c_ts c) \<and> length (c_highs c) = length (c_ts c) \<and>
     length (c_lows c) = length (c_ts c) \<and> length (c_closes c) = length (c_ts c) \<and>
     length (c_signals c) = length (c_ts c) \<and>
     rising64 (c_ts c) \<and>
     list_all (\<lambda>p. p > 0) (c_opens c @ c_highs c @ c_lows c @ c_closes c) \<and>
     list_all (\<lambda>s. s = -1 \<or> s = 0 \<or> s = 1) (c_signals c))"

definition wf_checked :: "checked \<Rightarrow> bool" where
  "wf_checked d = (length (d_open d) = length (d_ts d) \<and> length (d_high d) = length (d_ts d) \<and>
     length (d_low d) = length (d_ts d) \<and> length (d_close d) = length (d_ts d) \<and>
     length (d_signal d) = length (d_ts d))"

lemma check_rows_Inr:
  "check_rows d = Inr u \<longleftrightarrow> (\<forall>r. \<forall>i < length (d_ts d). \<not> breaks d r i)"
proof -
  have "check_rows d = Inr u \<longleftrightarrow> (\<forall>r \<in> set engine_rules. bad_rows d r = [])"
    by (auto simp: check_rows_def row_problems_def filter_empty_conv)
  also have "set engine_rules = UNIV"
    using engine_rule.exhaust by (auto simp: engine_rules_def)
  finally show ?thesis by (auto simp: bad_rows_def filter_empty_conv)
qed

lemma price_ok:
  assumes "\<not> breaks d BadPrice i" "\<not> breaks d NonPositivePrice i" "v \<in> set (d_prices d i)"
  shows "price_of v > 0"
  using assms
  by (auto simp: list_ex_iff missing_or_non_finite_def finite_and_def price_of_def
      split: option.splits fl.splits)

lemma signal_ok:
  assumes "\<not> breaks d BadSignal i" "\<not> breaks d SignalBeyondOne i" "\<not> breaks d FractionalSignal i"
  shows "signal_of (d_signal d ! i) \<in> {-1, 0, 1} \<and> d_signal d ! i = Some (Fin (of_int (signal_of (d_signal d ! i))))"
proof -
  from assms(1) obtain x where x: "d_signal d ! i = Some (Fin x)"
    by (auto simp: missing_or_non_finite_def is_finite_iff split: option.splits)
  with assms have "x = 0 \<or> x = 1 \<or> x = -1"
    by (auto simp: finite_and_def abs_real_def split: if_splits)
  then show ?thesis by (auto simp: x signal_of_def price_of_def floor_eq_iff)
qed

lemma checked_ts_rising:
  assumes ok: "\<forall>r. \<forall>i < length (d_ts d). \<not> breaks d r i"
  shows "rising64 (map ts_of (d_ts d))"
  unfolding rising64_def
proof (intro allI impI)
  fix i assume i: "Suc i < length (map ts_of (d_ts d))"
  then have "d_ts d ! i \<noteq> None" "d_ts d ! Suc i \<noteq> None" "\<not> breaks d TsNotAfterPrevious (Suc i)"
    using ok[rule_format, of i MissingTs] ok[rule_format, of "Suc i" MissingTs]
      ok[rule_format, of "Suc i" TsNotAfterPrevious] by auto
  then show "0 < wrap64 (map ts_of (d_ts d) ! Suc i - map ts_of (d_ts d) ! i)"
    using i by (auto simp: ts_of_def)
qed

lemma wf_checked_candles:
  assumes ok: "\<forall>r. \<forall>i < length (d_ts d). \<not> breaks d r i" and wf: "wf_checked d"
  shows "wf_candles \<lparr>c_ts = map ts_of (d_ts d), c_opens = map price_of (d_open d),
                c_highs = map price_of (d_high d), c_lows = map price_of (d_low d),
                c_closes = map price_of (d_close d), c_signals = map signal_of (d_signal d)\<rparr>"
proof -
  have prices: "\<forall>i < length (d_ts d). \<forall>v \<in> set (d_prices d i). price_of v > 0"
    using ok price_ok by blast
  then have "list_all (\<lambda>p. p > 0) (map price_of (d_open d))"
      "list_all (\<lambda>p. p > 0) (map price_of (d_high d))"
      "list_all (\<lambda>p. p > 0) (map price_of (d_low d))"
      "list_all (\<lambda>p. p > 0) (map price_of (d_close d))"
    using wf by (simp_all add: list_all_length wf_checked_def d_prices_def)
  moreover have "list_all (\<lambda>s. s = -1 \<or> s = 0 \<or> s = 1) (map signal_of (d_signal d))"
  proof -
    have "\<forall>i < length (d_ts d). signal_of (d_signal d ! i) \<in> {-1, 0, 1}"
      using ok signal_ok by blast
    then show ?thesis using wf by (simp add: list_all_length wf_checked_def)
  qed
  ultimately show ?thesis
    using checked_ts_rising[OF ok] wf by (simp add: wf_candles_def wf_checked_def)
qed

lemma read_input_frame_wf:
  assumes read: "read_input_frame f = Inr c" and f: "wf_frame f"
  shows "wf_candles c"
proof -
  from read have cols: "check_columns f = Inr ()"
    by (auto simp: read_input_frame_def res_simps)
  then have there: "set engine_columns \<subseteq> set (columns f)"
    by (auto simp: check_columns_def res_simps missing_columns_def filter_empty_conv)
  from read obtain ts where ts: "cast_int64 (s_cells (the_column f ''ts'')) = Some ts"
    by (auto simp: read_input_frame_def res_simps split: option.splits)
  define fl where "fl = (\<lambda>name. cast_float64 (s_cells (the_column f name)))"
  define d where "d = \<lparr>d_ts = ts, d_open = fl ''open'', d_high = fl ''high'',
    d_low = fl ''low'', d_close = fl ''close'', d_signal = fl ''signal''\<rparr>"
  have c: "check_rows d = Inr ()" "c = \<lparr>c_ts = map ts_of (d_ts d), c_opens = map price_of (d_open d),
                c_highs = map price_of (d_high d), c_lows = map price_of (d_low d),
                c_closes = map price_of (d_close d), c_signals = map signal_of (d_signal d)\<rparr>"
    using read ts cols by (auto simp: read_input_frame_def res_simps d_def fl_def Let_def)
  have "wf_checked d"
    using there the_column_length[OF f] length_cast_int64[OF ts]
    by (simp add: wf_checked_def d_def fl_def engine_columns_def)
  with c show ?thesis using wf_checked_candles check_rows_Inr by metis
qed

end
