(* ===== verification/EngineLoop.thy ===== *)
theory EngineLoop
  imports EngineInputs
begin

text \<open>
  \<open>engine/settings.py\<close> and \<open>engine/loop.py\<close>: the settings of a run and the loop, one pass over the
  candles with at most one position. The attributes \<open>Loop.__init__\<close> sets once are \<open>env\<close>, the ones
  the methods assign are \<open>loop\<close>, the local variables of \<open>Loop.run\<close> are \<open>run_state\<close>; every method is
  a definition that returns the changed \<open>loop\<close> or the exception it raises. The only exception a
  checked input leaves possible is the division by an entry price of 0.
\<close>

section \<open>Settings\<close>

datatype fill = NextOpen | SignalClose

record settings =
  st_fill :: fill
  st_stop_loss :: "real option"
  st_drawdown_stop :: "real option"
  st_fee_bps :: real
  st_slippage_bps :: real

datatype settings_error = BadStopLoss | BadDrawdownStop | BadFee | BadSlippage

text \<open>The field checks of the Pydantic model: \<open>gt=0, lt=1\<close> and \<open>ge=0, allow_inf_nan=False\<close>.\<close>

definition fraction_field :: "settings_error \<Rightarrow> fl option \<Rightarrow> settings_error + real option" where
  "fraction_field e v = (case v of
      None \<Rightarrow> Inr None
    | Some (Fin x) \<Rightarrow> if 0 < x \<and> x < 1 then Inr (Some x) else Inl e
    | Some _ \<Rightarrow> Inl e)"

definition bps_field :: "settings_error \<Rightarrow> fl \<Rightarrow> settings_error + real" where
  "bps_field e v = (case v of Fin x \<Rightarrow> if 0 \<le> x then Inr x else Inl e | _ \<Rightarrow> Inl e)"

definition make_settings ::
    "fill \<Rightarrow> fl option \<Rightarrow> fl option \<Rightarrow> fl \<Rightarrow> fl \<Rightarrow> settings_error + settings" where
  "make_settings fill stop_loss drawdown_stop fee_bps slippage_bps =
     bind_res (fraction_field BadStopLoss stop_loss) (\<lambda>sl.
     bind_res (fraction_field BadDrawdownStop drawdown_stop) (\<lambda>ds.
     bind_res (bps_field BadFee fee_bps) (\<lambda>fee.
     bind_res (bps_field BadSlippage slippage_bps) (\<lambda>slip.
     Inr \<lparr>st_fill = fill, st_stop_loss = sl, st_drawdown_stop = ds, st_fee_bps = fee,
          st_slippage_bps = slip\<rparr>))))"

definition wf_settings :: "settings \<Rightarrow> bool" where
  "wf_settings s = (
     (case st_stop_loss s of None \<Rightarrow> True | Some x \<Rightarrow> 0 < x \<and> x < 1) \<and>
     (case st_drawdown_stop s of None \<Rightarrow> True | Some x \<Rightarrow> 0 < x \<and> x < 1) \<and>
     0 \<le> st_fee_bps s \<and> 0 \<le> st_slippage_bps s)"

lemma make_settings_wf: "make_settings fi sl ds fee slip = Inr s \<Longrightarrow> wf_settings s"
  by (auto simp: make_settings_def res_simps wf_settings_def fraction_field_def bps_field_def
      split: option.splits fl.splits if_splits)

section \<open>The state of the loop\<close>

datatype exit_reason = RSignal | RStop | RGap | REnd | RRuin | RDrawdown

record trade =
  t_signal_ts :: int
  t_open_ts :: int
  t_close_ts :: int
  t_side :: int
  t_open_price :: real
  t_close_price :: real
  t_stop_price :: "real option"
  t_reason :: exit_reason
  t_return :: real
  t_fees :: real
  t_slippage_cost :: real

record env =
  e_candles :: candles
  e_next_open :: bool
  e_stop_loss :: "real option"
  e_drawdown_stop :: "real option"
  e_fee :: real
  e_slippage :: real

record loop =
  capital :: real
  peak :: real
  halted :: bool
  side :: int
  signal_row :: nat
  entry_row :: nat
  entry_quote :: real
  entry_price :: real
  stop :: "real option"
  trades :: "trade list"
  position :: "real list"
  equity :: "real list"

datatype py_error = ZeroDivisionError | OverflowError

definition bps :: real where "bps = 1 / 10000"

definition loop_env :: "candles \<Rightarrow> settings \<Rightarrow> env" where
  "loop_env c s = \<lparr>e_candles = c, e_next_open = (st_fill s = NextOpen),
     e_stop_loss = st_stop_loss s, e_drawdown_stop = st_drawdown_stop s,
     e_fee = st_fee_bps s * bps, e_slippage = st_slippage_bps s * bps\<rparr>"

definition loop_init :: loop where
  "loop_init = \<lparr>capital = 1, peak = 1, halted = False, side = 0, signal_row = 0, entry_row = 0,
     entry_quote = 0, entry_price = 0, stop = None, trades = [], position = [], equity = []\<rparr>"

section \<open>The methods\<close>

definition ruin :: "loop \<Rightarrow> loop" where
  "ruin l = l\<lparr>capital := 0, halted := True\<rparr>"

definition loop_open :: "env \<Rightarrow> nat \<Rightarrow> nat \<Rightarrow> real \<Rightarrow> int \<Rightarrow> loop \<Rightarrow> loop" where
  "loop_open e row srow price sd l =
     (let entry = price * (1 + of_int sd * e_slippage e);
          l = l\<lparr>side := sd, signal_row := srow, entry_row := row, entry_quote := price,
                entry_price := entry\<rparr>
      in case e_stop_loss e of
           None \<Rightarrow> l
         | Some s \<Rightarrow> l\<lparr>stop := Some (entry * (1 - of_int sd * s))\<rparr>)"

definition closing_trade :: "env \<Rightarrow> nat \<Rightarrow> real \<Rightarrow> exit_reason \<Rightarrow> loop \<Rightarrow> trade" where
  "closing_trade e row price reason l =
     (let sd = of_int (side l);
          exit_price = price * (1 - sd * e_slippage e);
          growth = exit_price / entry_price l;
          fees = e_fee e * (1 + growth);
          result = sd * (growth - 1) - fees;
          cost = sd * (price / entry_quote l - growth);
          ts = c_ts (e_candles e)
      in \<lparr>t_signal_ts = ts ! signal_row l, t_open_ts = ts ! entry_row l, t_close_ts = ts ! row,
          t_side = side l, t_open_price = entry_price l, t_close_price = exit_price,
          t_stop_price = stop l, t_reason = reason, t_return = result, t_fees = fees,
          t_slippage_cost = cost\<rparr>)"

definition loop_close :: "env \<Rightarrow> nat \<Rightarrow> real \<Rightarrow> exit_reason \<Rightarrow> loop \<Rightarrow> py_error + loop" where
  "loop_close e row price reason l =
     (if entry_price l = 0 \<or> entry_quote l = 0 then Inl ZeroDivisionError
      else let t = closing_trade e row price reason l;
               l = l\<lparr>trades := trades l @ [t], side := 0, stop := None\<rparr>
           in Inr (if t_return t \<le> -1 then ruin l
                   else l\<lparr>capital := capital l * (1 + t_return t)\<rparr>))"

definition beyond :: "loop \<Rightarrow> real \<Rightarrow> real \<Rightarrow> bool" where
  "beyond l price level = (if side l > 0 then price \<le> level else price \<ge> level)"

definition check_stop :: "env \<Rightarrow> nat \<Rightarrow> real \<Rightarrow> loop \<Rightarrow> py_error + loop" where
  "check_stop e row level l =
     (let c = e_candles e in
      if row > entry_row l \<and> beyond l (c_opens c ! row) level then
        loop_close e row (c_opens c ! row) RGap l
      else if beyond l (if side l > 0 then c_lows c ! row else c_highs c ! row) level then
        loop_close e row level RStop l
      else Inr l)"

definition drawn_down :: "env \<Rightarrow> loop \<Rightarrow> real \<Rightarrow> bool" where
  "drawn_down e l eq =
     (case e_drawdown_stop e of None \<Rightarrow> False | Some d \<Rightarrow> eq \<le> peak l * (1 - d))"

definition loop_fill ::
    "env \<Rightarrow> nat \<Rightarrow> nat \<Rightarrow> real \<Rightarrow> int \<Rightarrow> bool \<Rightarrow> loop \<Rightarrow> py_error + loop" where
  "loop_fill e row srow price signal may_open l =
     bind_res (if side l \<noteq> 0 \<and> side l \<noteq> signal then loop_close e row price RSignal l else Inr l)
       (\<lambda>l. if \<not> e_next_open e \<and> drawn_down e l (capital l) then Inr l
             else if signal \<noteq> 0 \<and> side l = 0 \<and> may_open \<and> \<not> halted l
             then Inr (loop_open e row srow price signal l)
             else Inr l)"

definition last_row :: "env \<Rightarrow> nat" where
  "last_row e = length (c_ts (e_candles e)) - 1"

definition decide :: "env \<Rightarrow> nat \<Rightarrow> int \<Rightarrow> loop \<Rightarrow> py_error + (int option \<times> loop)" where
  "decide e row signal l =
     (if e_next_open e then Inr (Some signal, l)
      else bind_res
             (loop_fill e row row (c_closes (e_candles e) ! row) signal (row < last_row e) l)
             (\<lambda>l. Inr (None, l)))"

definition record_row :: "real \<Rightarrow> loop \<Rightarrow> loop" where
  "record_row eq l = l\<lparr>position := position l @ [of_int (side l)], equity := equity l @ [eq]\<rparr>"

definition mark :: "env \<Rightarrow> nat \<Rightarrow> loop \<Rightarrow> py_error + loop" where
  "mark e row l =
     (if side l = 0 then Inr (record_row (capital l) l)
      else if entry_price l = 0 then Inl ZeroDivisionError
      else let close = c_closes (e_candles e) ! row;
               eq = capital l * (1 + of_int (side l) * (close / entry_price l - 1) - e_fee e)
           in if eq \<le> 0 then
                bind_res (loop_close e row close RRuin l) (\<lambda>l. Inr (record_row 0 (ruin l)))
              else Inr (record_row eq l))"

definition check_drawdown :: "env \<Rightarrow> nat \<Rightarrow> loop \<Rightarrow> py_error + loop" where
  "check_drawdown e row l =
     (let eq = equity l ! row;
          l = l\<lparr>peak := max (peak l) eq\<rparr>
      in if drawn_down e l eq then
           bind_res
             (if side l \<noteq> 0 then
                bind_res (loop_close e row (c_closes (e_candles e) ! row) RDrawdown l)
                  (\<lambda>l. Inr (l\<lparr>position := (position l)[row := 0],
                              equity := (equity l)[row := capital l]\<rparr>))
              else Inr l)
             (\<lambda>l. Inr (l\<lparr>halted := True\<rparr>))
         else Inr l)"

section \<open>The run\<close>

record run_state =
  r_loop :: loop
  r_pending :: "int option"
  r_previous :: int

definition fill_pending :: "env \<Rightarrow> nat \<Rightarrow> run_state \<Rightarrow> py_error + loop" where
  "fill_pending e row st = (case r_pending st of
      None \<Rightarrow> Inr (r_loop st)
    | Some order \<Rightarrow>
        loop_fill e row (row - 1) (c_opens (e_candles e) ! row) order True (r_loop st))"

definition iteration :: "env \<Rightarrow> nat \<Rightarrow> int \<Rightarrow> run_state \<Rightarrow> py_error + run_state" where
  "iteration e row signal st =
     (if halted (r_loop st) then
        Inr (st\<lparr>r_loop := (r_loop st)\<lparr>position := position (r_loop st) @ [0],
                  equity := equity (r_loop st) @ [capital (r_loop st)]\<rparr>\<rparr>)
      else
        bind_res (fill_pending e row st) (\<lambda>l.
        bind_res (case stop l of None \<Rightarrow> Inr l | Some level \<Rightarrow> check_stop e row level l) (\<lambda>l.
        bind_res (if signal \<noteq> r_previous st then decide e row signal l else Inr (None, l))
          (\<lambda>(pending, l).
        bind_res (mark e row l) (\<lambda>l.
        bind_res (if \<not> halted l then check_drawdown e row l else Inr l) (\<lambda>l.
        Inr \<lparr>r_loop = l, r_pending = pending, r_previous = signal\<rparr>))))))"

fun iterate :: "env \<Rightarrow> nat \<Rightarrow> int list \<Rightarrow> run_state \<Rightarrow> py_error + run_state" where
  "iterate e row [] st = Inr st"
| "iterate e row (s # ss) st = bind_res (iteration e row s st) (iterate e (Suc row) ss)"

definition run_init :: "env \<Rightarrow> run_state" where
  "run_init e = \<lparr>r_loop = loop_init, r_pending = None,
     r_previous = (case c_signals (e_candles e) of [] \<Rightarrow> 0 | s # _ \<Rightarrow> s)\<rparr>"

definition finish :: "env \<Rightarrow> loop \<Rightarrow> py_error + loop" where
  "finish e l =
     (if side l \<noteq> 0 then
        bind_res (loop_close e (last_row e) (c_closes (e_candles e) ! last_row e) REnd l)
          (\<lambda>l. Inr (l\<lparr>position := (position l)[last_row e := 0],
                      equity := (equity l)[last_row e := capital l]\<rparr>))
      else Inr l)"

definition loop_run :: "env \<Rightarrow> py_error + loop" where
  "loop_run e = bind_res (iterate e 0 (c_signals (e_candles e)) (run_init e))
     (\<lambda>st. finish e (r_loop st))"

end
