(* ===== verification/EngineEvents.thy ===== *)
theory EngineEvents
  imports EngineLoop
begin

text \<open>
  The loop as a state machine. \<open>event e r l l'\<close> is one elementary change at row \<open>r\<close>: a position
  opens or closes (with the reason and the price the rules allow), the run halts, or only the
  recorded series or the peak change. Each method of the loop is a sequence of such events, so
  every state of a run is \<open>reachable\<close>, and an invariant of the events is an invariant of the code.
\<close>

section \<open>Events\<close>

definition wf_env :: "env \<Rightarrow> bool" where
  "wf_env e = (wf_candles (e_candles e) \<and> 0 \<le> e_fee e \<and> 0 \<le> e_slippage e \<and>
     (case e_stop_loss e of None \<Rightarrow> True | Some s \<Rightarrow> 0 < s \<and> s < 1) \<and>
     (case e_drawdown_stop e of None \<Rightarrow> True | Some d \<Rightarrow> 0 < d \<and> d < 1))"

lemma loop_env_wf: "wf_candles c \<Longrightarrow> wf_settings s \<Longrightarrow> wf_env (loop_env c s)"
  by (simp add: wf_env_def loop_env_def wf_settings_def bps_def)

abbreviation rows :: "env \<Rightarrow> nat" where
  "rows e \<equiv> length (c_ts (e_candles e))"

lemma wf_envD:
  assumes "wf_env e"
  shows "length (c_opens (e_candles e)) = rows e" "length (c_highs (e_candles e)) = rows e"
    "length (c_lows (e_candles e)) = rows e" "length (c_closes (e_candles e)) = rows e"
    "length (c_signals (e_candles e)) = rows e"
    "list_all (\<lambda>p. p > 0) (c_opens (e_candles e))" "list_all (\<lambda>p. p > 0) (c_highs (e_candles e))"
    "list_all (\<lambda>p. p > 0) (c_lows (e_candles e))" "list_all (\<lambda>p. p > 0) (c_closes (e_candles e))"
    "list_all (\<lambda>s. s = -1 \<or> s = 0 \<or> s = 1) (c_signals (e_candles e))"
    "rising64 (c_ts (e_candles e))" "0 \<le> e_fee e" "0 \<le> e_slippage e"
  using assms by (simp_all add: wf_env_def wf_candles_def)

lemma wf_env_stop_loss: "wf_env e \<Longrightarrow> e_stop_loss e = Some s \<Longrightarrow> 0 < s \<and> s < 1"
  by (simp add: wf_env_def)

lemma wf_env_drawdown_stop: "wf_env e \<Longrightarrow> e_drawdown_stop e = Some s \<Longrightarrow> 0 < s \<and> s < 1"
  by (simp add: wf_env_def)

lemma wf_env_prices:
  assumes "wf_env e" "r < rows e"
  shows "c_opens (e_candles e) ! r > 0" "c_highs (e_candles e) ! r > 0"
    "c_lows (e_candles e) ! r > 0" "c_closes (e_candles e) ! r > 0"
  using wf_envD[OF assms(1)] assms(2) by (simp_all add: list_all_length)

lemma wf_env_signal: "wf_env e \<Longrightarrow> s \<in> set (c_signals (e_candles e)) \<Longrightarrow> s \<in> {-1, 0, 1}"
  using wf_envD(10)[of e] by (auto simp: list_all_iff)

text \<open>The price a decision fills at on row \<open>r\<close> (rule 2).\<close>

definition fill_price :: "env \<Rightarrow> nat \<Rightarrow> real" where
  "fill_price e r = (if e_next_open e then c_opens (e_candles e) ! r
                     else c_closes (e_candles e) ! r)"

text \<open>
  A decision is a change of the signal (rule 1); it fills on its own row or on the next one (rule 2).
\<close>

definition signal_at :: "env \<Rightarrow> nat \<Rightarrow> int" where
  "signal_at e r = c_signals (e_candles e) ! r"

definition decision :: "env \<Rightarrow> nat \<Rightarrow> bool" where
  "decision e s = (0 < s \<and> s < length (c_signals (e_candles e)) \<and> signal_at e s \<noteq> signal_at e (s - 1))"

definition fills_on :: "env \<Rightarrow> nat \<Rightarrow> nat \<Rightarrow> bool" where
  "fills_on e s r = (r = (if e_next_open e then Suc s else s))"

text \<open>What a capital is worth while its position is open, marked at the close of row \<open>r\<close> (rule 7), the
  highest of the equities recorded so far, at least 1, and the level of the drawdown stop (rule 9).\<close>

definition worth :: "env \<Rightarrow> nat \<Rightarrow> real \<Rightarrow> int \<Rightarrow> real \<Rightarrow> real" where
  "worth e r c sd entry = c * (1 + of_int sd * (c_closes (e_candles e) ! r / entry - 1) - e_fee e)"

definition peak_of :: "real list \<Rightarrow> real" where
  "peak_of xs = foldl max 1 xs"

lemma peak_of_Nil [simp]: "peak_of [] = 1"
  by (simp add: peak_of_def)

lemma peak_of_snoc [simp]: "peak_of (xs @ [x]) = max (peak_of xs) x"
  by (simp add: peak_of_def)

lemma peak_of_ge_1: "peak_of xs \<ge> 1"
  by (induction xs rule: rev_induct) auto

definition at_stop_level :: "env \<Rightarrow> real list \<Rightarrow> real \<Rightarrow> bool" where
  "at_stop_level e qs q = (case e_drawdown_stop e of None \<Rightarrow> False
     | Some d \<Rightarrow> q \<le> peak_of qs * (1 - d))"

lemma drawn_down_level: "peak l = peak_of qs \<Longrightarrow> drawn_down e l q = at_stop_level e qs q"
  by (simp add: drawn_down_def at_stop_level_def split: option.split)

text \<open>The price before slippage and the occasion of an exit, by its reason (rules 2, 4, 6, 8, 9).\<close>

definition exit_ok :: "env \<Rightarrow> nat \<Rightarrow> real \<Rightarrow> exit_reason \<Rightarrow> loop \<Rightarrow> bool" where
  "exit_ok e r price reason l = (case reason of
      RSignal \<Rightarrow> price = fill_price e r \<and>
        (\<exists>d. decision e d \<and> fills_on e d r \<and> signal_at e d \<noteq> side l)
    | RGap \<Rightarrow> price = c_opens (e_candles e) ! r \<and> entry_row l < r \<and>
        (\<exists>level. stop l = Some level \<and> beyond l price level)
    | RStop \<Rightarrow> stop l = Some price \<and> (e_next_open e \<or> entry_row l < r) \<and>
        beyond l (if side l > 0 then c_lows (e_candles e) ! r else c_highs (e_candles e) ! r) price
    | REnd \<Rightarrow> price = c_closes (e_candles e) ! r \<and> r = last_row e
    | RRuin \<Rightarrow> price = c_closes (e_candles e) ! r \<and> worth e r (capital l) (side l) (entry_price l) \<le> 0
    | RDrawdown \<Rightarrow> price = c_closes (e_candles e) ! r \<and>
        (let q = worth e r (capital l) (side l) (entry_price l)
         in 0 < q \<and> at_stop_level e (take r (equity l) @ [q]) q))"

inductive event :: "env \<Rightarrow> nat \<Rightarrow> loop \<Rightarrow> loop \<Rightarrow> bool" for e r where
  ev_open: "side l = 0 \<Longrightarrow> \<not> halted l \<Longrightarrow> sd \<in> {-1, 1} \<Longrightarrow> decision e s \<Longrightarrow> sd = signal_at e s \<Longrightarrow>
     fills_on e s r \<Longrightarrow> e_next_open e \<or> \<not> at_stop_level e (take r (equity l)) (capital l) \<Longrightarrow>
     event e r l (loop_open e r s (fill_price e r) sd l)"
| ev_close: "side l \<noteq> 0 \<Longrightarrow> reason \<noteq> RRuin \<Longrightarrow> exit_ok e r price reason l \<Longrightarrow>
     loop_close e r price reason l = Inr l' \<Longrightarrow> event e r l l'"
| ev_ruin: "side l \<noteq> 0 \<Longrightarrow> exit_ok e r price RRuin l \<Longrightarrow>
     loop_close e r price RRuin l = Inr l' \<Longrightarrow> event e r l (ruin l')"
| ev_halt: "side l = 0 \<Longrightarrow> e_drawdown_stop e \<noteq> None \<Longrightarrow> event e r l (l\<lparr>halted := True\<rparr>)"
| ev_series: "take r q = take r (equity l) \<Longrightarrow> event e r l (l\<lparr>position := p, equity := q\<rparr>)"
| ev_peak: "event e r l (l\<lparr>peak := k\<rparr>)"

abbreviation events :: "env \<Rightarrow> nat \<Rightarrow> loop \<Rightarrow> loop \<Rightarrow> bool" where
  "events e r \<equiv> (event e r)\<^sup>*\<^sup>*"

inductive reachable :: "env \<Rightarrow> nat \<Rightarrow> loop \<Rightarrow> bool" for e where
  reach_init: "reachable e 0 loop_init"
| reach_event: "reachable e r l \<Longrightarrow> event e r l l' \<Longrightarrow> reachable e r l'"
| reach_next: "reachable e r l \<Longrightarrow> reachable e (Suc r) l"

text \<open>
  An invariant of the loop: it holds before the first candle, every event keeps it, and moving to
  the next row does. It then holds in every state of a run.
\<close>

locale loop_invariant =
  fixes e :: env and I :: "nat \<Rightarrow> loop \<Rightarrow> bool"
  assumes inv_init: "I 0 loop_init"
    and inv_event: "reachable e r l \<Longrightarrow> I r l \<Longrightarrow> event e r l l' \<Longrightarrow> I r l'"
    and inv_next: "reachable e r l \<Longrightarrow> I r l \<Longrightarrow> I (Suc r) l"
begin

lemma in_reachable: "reachable e r l \<Longrightarrow> I r l"
  by (induction rule: reachable.induct) (auto intro: inv_init inv_event inv_next)

end

text \<open>The states a row starts from: nothing has happened on it yet.\<close>

definition row_start :: "env \<Rightarrow> nat \<Rightarrow> loop \<Rightarrow> bool" where
  "row_start e r l = (case r of 0 \<Rightarrow> l = loop_init | Suc r' \<Rightarrow> reachable e r' l)"

lemma row_start_reachable: "row_start e r l \<Longrightarrow> reachable e r l"
  by (cases r) (auto simp: row_start_def intro: reachable.intros)

lemma reachable_events: "events e r l l' \<Longrightarrow> reachable e r l \<Longrightarrow> reachable e r l'"
  by (induction rule: rtranclp_induct) (auto intro: reach_event)

section \<open>The methods are sequences of events\<close>

lemma stop_loss_entry_free [simp]:
  "side (loop_open e r s p sd l) = sd" "halted (loop_open e r s p sd l) = halted l"
  "entry_row (loop_open e r s p sd l) = r" "signal_row (loop_open e r s p sd l) = s"
  "entry_quote (loop_open e r s p sd l) = p" "trades (loop_open e r s p sd l) = trades l"
  "entry_price (loop_open e r s p sd l) = p * (1 + of_int sd * e_slippage e)"
  "capital (loop_open e r s p sd l) = capital l" "peak (loop_open e r s p sd l) = peak l"
  "position (loop_open e r s p sd l) = position l" "equity (loop_open e r s p sd l) = equity l"
  by (auto simp: loop_open_def Let_def split: option.splits)

lemma stop_loop_open:
  "stop l = None \<Longrightarrow> stop (loop_open e r s p sd l) =
     map_option (\<lambda>x. p * (1 + of_int sd * e_slippage e) * (1 - of_int sd * x)) (e_stop_loss e)"
  by (auto simp: loop_open_def Let_def split: option.splits)

lemma loop_closeD:
  assumes "loop_close e r p reason l = Inr l'"
  shows "side l' = 0" "stop l' = None" "trades l' = trades l @ [closing_trade e r p reason l]"
    "peak l' = peak l" "position l' = position l" "equity l' = equity l"
  using assms by (auto simp: loop_close_def Let_def ruin_def split: if_splits)

lemma loop_close_capital:
  assumes "loop_close e r p reason l = Inr l'"
  shows "capital l' = (if t_return (closing_trade e r p reason l) \<le> -1 then 0
           else capital l * (1 + t_return (closing_trade e r p reason l)))"
    and "halted l' = (halted l \<or> t_return (closing_trade e r p reason l) \<le> -1)"
  using assms by (auto simp: loop_close_def Let_def ruin_def split: if_splits)

lemma close_events:
  assumes "loop_close e r p reason l = Inr l'" "side l \<noteq> 0" "reason \<noteq> RRuin"
    and "exit_ok e r p reason l"
  shows "events e r l l'"
  using assms by (intro r_into_rtranclp ev_close)

lemma loop_fill_events:
  assumes "loop_fill e r s p sd may l = Inr l'" "p = fill_price e r" "fills_on e s r"
    and "decision e s" "sd = signal_at e s" "sd \<in> {-1, 0, 1}" "peak l = peak_of (take r (equity l))"
  shows "events e r l l'"
proof -
  from assms(1) obtain m where
    m: "(if side l \<noteq> 0 \<and> side l \<noteq> sd then loop_close e r p RSignal l else Inr l) = Inr m"
    and l': "l' = m \<or> (sd \<noteq> 0 \<and> side m = 0 \<and> \<not> halted m \<and> l' = loop_open e r s p sd m \<and>
      (e_next_open e \<or> \<not> drawn_down e m (capital m)))"
    by (auto simp: loop_fill_def res_simps split: if_splits)
  have "exit_ok e r p RSignal l" if "side l \<noteq> sd"
    using assms(2-5) that by (auto simp: exit_ok_def)
  then have "events e r l m"
    using m close_events[of e r p RSignal l m] by (auto split: if_splits)
  moreover have same: "peak m = peak l" "equity m = equity l"
    using m by (auto dest: loop_closeD split: if_splits)
  have "events e r m l'"
    using l'
  proof
    assume "sd \<noteq> 0 \<and> side m = 0 \<and> \<not> halted m \<and> l' = loop_open e r s p sd m \<and>
      (e_next_open e \<or> \<not> drawn_down e m (capital m))"
    then show ?thesis using assms(2-7) same drawn_down_level[of m "take r (equity m)" e "capital m"]
      by (auto intro!: r_into_rtranclp ev_open)
  qed simp
  ultimately show ?thesis by simp
qed

lemma check_stop_events:
  assumes "check_stop e r level l = Inr l'" "stop l = Some level" "side l \<noteq> 0"
    and "e_next_open e \<or> entry_row l < r"
  shows "events e r l l'"
proof -
  consider (none) "l' = l"
    | (gap) "entry_row l < r" "beyond l (c_opens (e_candles e) ! r) level"
        "loop_close e r (c_opens (e_candles e) ! r) RGap l = Inr l'"
    | (stop) "beyond l (if side l > 0 then c_lows (e_candles e) ! r else c_highs (e_candles e) ! r) level"
        "loop_close e r level RStop l = Inr l'"
    using assms(1) by (auto simp: check_stop_def Let_def split: if_splits)
  then show ?thesis
  proof cases
    case gap
    then show ?thesis using assms by (intro close_events[OF gap(3)]) (auto simp: exit_ok_def)
  next
    case stop
    then show ?thesis using assms by (intro close_events[OF stop(2)]) (auto simp: exit_ok_def)
  qed simp
qed

lemma record_row_events: "length (equity l) = r \<Longrightarrow> events e r l (record_row q l)"
  unfolding record_row_def by (intro r_into_rtranclp ev_series) simp

text \<open>The mark of a row, by what it does: it records the equity, or closes a worthless position.\<close>

lemma markE:
  assumes "mark e r l = Inr l'"
  obtains (flat) "side l = 0" "l' = record_row (capital l) l"
    | (ruined) m where "side l \<noteq> 0" "worth e r (capital l) (side l) (entry_price l) \<le> 0"
        "loop_close e r (c_closes (e_candles e) ! r) RRuin l = Inr m" "l' = record_row 0 (ruin m)"
    | (held) "side l \<noteq> 0" "0 < worth e r (capital l) (side l) (entry_price l)"
        "l' = record_row (worth e r (capital l) (side l) (entry_price l)) l"
  using assms by (auto simp: mark_def Let_def res_simps worth_def not_le split: if_splits)

lemma mark_events:
  assumes "mark e r l = Inr l'" "length (equity l) = r"
  shows "events e r l l'"
  using assms(1)
proof (cases rule: markE)
  case (ruined m)
  then have "event e r l (ruin m)" by (intro ev_ruin) (auto simp: exit_ok_def)
  moreover have "length (equity (ruin m)) = r" using loop_closeD[OF ruined(3)] assms(2) by (simp add: ruin_def)
  ultimately show ?thesis using ruined by (metis converse_rtranclp_into_rtranclp record_row_events)
qed (use assms(2) in \<open>simp_all add: record_row_events\<close>)

text \<open>A state in which a row was just marked.\<close>

definition just_marked :: "env \<Rightarrow> nat \<Rightarrow> loop \<Rightarrow> bool" where
  "just_marked e r l = (length (equity l) = Suc r \<and> peak l = peak_of (take r (equity l)) \<and>
     (side l \<noteq> 0 \<longrightarrow> 0 < equity l ! r \<and> equity l ! r = worth e r (capital l) (side l) (entry_price l)))"

lemma mark_marked:
  assumes "mark e r l = Inr l'" "length (equity l) = r" "peak l = peak_of (equity l)"
  shows "just_marked e r l'"
  using assms(1)
proof (cases rule: markE)
  case (ruined m)
  then show ?thesis using loop_closeD[OF ruined(3)] assms by (simp add: just_marked_def record_row_def ruin_def)
qed (use assms in \<open>auto simp: just_marked_def record_row_def\<close>)

lemma peak_update_ops [simp]:
  "closing_trade e r p reason (l\<lparr>peak := k\<rparr>) = closing_trade e r p reason l"
  "exit_ok e r p reason (l\<lparr>peak := k\<rparr>) = exit_ok e r p reason l"
  by (auto simp: closing_trade_def exit_ok_def beyond_def split: exit_reason.splits)

lemma drawn_down_on: "drawn_down e l q \<Longrightarrow> e_drawdown_stop e \<noteq> None"
  by (auto simp: drawn_down_def split: option.splits)

lemma check_drawdown_events:
  assumes "check_drawdown e r l = Inr l'" "just_marked e r l"
  shows "events e r l l'"
proof -
  define k where "k = max (peak l) (equity l ! r)"
  have step: "event e r l (l\<lparr>peak := k\<rparr>)" by (rule ev_peak)
  consider "l' = l\<lparr>peak := k\<rparr>"
    | "side l = 0" "l' = l\<lparr>peak := k, halted := True\<rparr>" "e_drawdown_stop e \<noteq> None"
    | m p q where "side l \<noteq> 0" "l' = m\<lparr>position := p, equity := q, halted := True\<rparr>"
        "loop_close e r (c_closes (e_candles e) ! r) RDrawdown (l\<lparr>peak := k\<rparr>) = Inr m"
        "e_drawdown_stop e \<noteq> None" "q = (equity m)[r := capital m]"
        "drawn_down e (l\<lparr>peak := k\<rparr>) (equity l ! r)"
  proof (cases "drawn_down e (l\<lparr>peak := k\<rparr>) (equity l ! r)")
    case False
    then show ?thesis using assms that(1) by (simp add: check_drawdown_def Let_def k_def)
  next
    case True
    note on = drawn_down_on[OF True]
    show ?thesis
    proof (cases "side l = 0")
      case flat: True
      then show ?thesis using assms True that(2)[OF flat _ on]
        by (simp add: check_drawdown_def Let_def k_def)
    next
      case held: False
      then obtain m where "loop_close e r (c_closes (e_candles e) ! r) RDrawdown (l\<lparr>peak := k\<rparr>) = Inr m"
          "l' = m\<lparr>position := (position m)[r := 0], equity := (equity m)[r := capital m], halted := True\<rparr>"
        using assms True by (auto simp: check_drawdown_def Let_def k_def res_simps)
      then show ?thesis using that(3)[OF held _ _ on _ True] by blast
    qed
  qed
  then show ?thesis
  proof cases
    case 1
    then show ?thesis using step by auto
  next
    case 2
    then have "event e r (l\<lparr>peak := k\<rparr>) l'" using ev_halt[of "l\<lparr>peak := k\<rparr>" e r] by simp
    with step show ?thesis by (metis converse_rtranclp_into_rtranclp r_into_rtranclp)
  next
    case 3
    have snoc: "take r (equity l) @ [equity l ! r] = take (Suc r) (equity l)"
      using assms(2) by (simp add: just_marked_def take_Suc_conv_app_nth del: take_all)
    have "at_stop_level e (take (Suc r) (equity l)) (equity l ! r)"
      using 3(6) assms(2) unfolding snoc[symmetric]
      by (subst drawn_down_level[symmetric, where l = "l\<lparr>peak := k\<rparr>"]) (simp_all add: k_def just_marked_def)
    then have "exit_ok e r (c_closes (e_candles e) ! r) RDrawdown (l\<lparr>peak := k\<rparr>)"
      using 3(1) assms(2) snoc by (simp add: exit_ok_def just_marked_def Let_def)
    then have "event e r (l\<lparr>peak := k\<rparr>) m"
      using 3 by (intro ev_close[where reason = RDrawdown]) auto
    moreover have "event e r m (m\<lparr>position := p, equity := q\<rparr>)"
      by (rule ev_series) (simp add: 3(5))
    moreover have "event e r (m\<lparr>position := p, equity := q\<rparr>) l'"
      using 3 ev_halt[of "m\<lparr>position := p, equity := q\<rparr>" e r] loop_closeD(1)[OF 3(3)] by simp
    ultimately show ?thesis
      using step by (meson converse_rtranclp_into_rtranclp r_into_rtranclp)
  qed
qed

section \<open>A row and a run are sequences of events\<close>

text \<open>The local variables of \<open>run\<close>: an order waits only with \<open>next_open\<close>, from the row before.\<close>

definition pending_ok :: "env \<Rightarrow> nat \<Rightarrow> run_state \<Rightarrow> bool" where
  "pending_ok e r st = (case r_pending st of None \<Rightarrow> True
     | Some s \<Rightarrow> e_next_open e \<and> 0 < r \<and> s \<in> {-1, 0, 1} \<and> decision e (r - 1) \<and> s = signal_at e (r - 1))"

definition stop_ok :: "loop \<Rightarrow> bool" where
  "stop_ok l = (side l = 0 \<longrightarrow> stop l = None)"

lemma event_stop_ok: "event e r l l' \<Longrightarrow> stop_ok l \<Longrightarrow> stop_ok l'"
  by (induction rule: event.induct) (auto simp: stop_ok_def ruin_def dest: loop_closeD)

interpretation stop_set: loop_invariant e "\<lambda>_. stop_ok" for e
proof
  show "stop_ok loop_init" by (simp add: stop_ok_def loop_init_def)
qed (auto intro: event_stop_ok)

lemmas reachable_stop_ok = stop_set.in_reachable

definition entry_before :: "nat \<Rightarrow> loop \<Rightarrow> bool" where
  "entry_before r l = (side l \<noteq> 0 \<longrightarrow> entry_row l \<le> r \<and> signal_row l \<le> entry_row l)"

lemma event_entry_before: "event e r l l' \<Longrightarrow> entry_before r l \<Longrightarrow> entry_before r l'"
  by (induction rule: event.induct) (auto simp: entry_before_def ruin_def fills_on_def dest: loop_closeD split: if_splits)

lemma entry_before_mono: "entry_before r l \<Longrightarrow> entry_before (Suc r) l"
  by (auto simp: entry_before_def)

interpretation entry_bound: loop_invariant e entry_before for e
proof
  show "entry_before 0 loop_init" by (simp add: entry_before_def loop_init_def)
qed (auto intro: event_entry_before entry_before_mono)

lemmas reachable_entry_before = entry_bound.in_reachable

lemma row_start_entry_before:
  assumes "row_start e r l" "side l \<noteq> 0"
  shows "entry_row l < r"
  using assms reachable_entry_before[of e "r - 1" l]
  by (cases r) (auto simp: row_start_def loop_init_def entry_before_def)

lemma fill_pending_events:
  assumes "fill_pending e r st = Inr l" "pending_ok e r st"
    and "peak (r_loop st) = peak_of (take r (equity (r_loop st)))"
  shows "events e r (r_loop st) l"
proof (cases "r_pending st")
  case None
  then show ?thesis using assms by (simp add: fill_pending_def)
next
  case (Some s)
  then have "e_next_open e" "0 < r" "s \<in> {-1, 0, 1}" "decision e (r - 1)" "s = signal_at e (r - 1)"
    using assms by (auto simp: pending_ok_def)
  then show ?thesis using assms(1,3) Some
    by (intro loop_fill_events[where s = "r - 1" and sd = s])
      (auto simp: fill_pending_def fill_price_def fills_on_def)
qed

lemma fill_pending_no_order: "r_pending st = None \<Longrightarrow> fill_pending e r st = Inr (r_loop st)"
  by (simp add: fill_pending_def)

lemma decide_events:
  assumes "decide e r s l = Inr (pending, l')" "s \<in> {-1, 0, 1}" "decision e r" "s = signal_at e r"
    and "peak l = peak_of (take r (equity l))"
  shows "events e r l l'" "pending = None \<or> e_next_open e \<and> pending = Some s"
proof -
  show "pending = None \<or> e_next_open e \<and> pending = Some s"
    using assms(1) by (auto simp: decide_def res_simps split: if_splits)
  show "events e r l l'"
  proof (cases "e_next_open e")
    case True
    then show ?thesis using assms(1) by (simp add: decide_def)
  next
    case False
    then have "loop_fill e r r (c_closes (e_candles e) ! r) s (r < last_row e) l = Inr l'"
      using assms(1) by (auto simp: decide_def res_simps)
    then show ?thesis using assms(2-5) False
      by (intro loop_fill_events[where s = r and sd = s]) (auto simp: fill_price_def fills_on_def)
  qed
qed

definition check_level :: "env \<Rightarrow> nat \<Rightarrow> loop \<Rightarrow> py_error + loop" where
  "check_level e r l = (case stop l of None \<Rightarrow> Inr l | Some level \<Rightarrow> check_stop e r level l)"

lemma check_level_events:
  assumes "check_level e r l = Inr l'" "reachable e r l" "e_next_open e \<or> (side l \<noteq> 0 \<longrightarrow> entry_row l < r)"
  shows "events e r l l'"
proof (cases "stop l")
  case None
  then show ?thesis using assms by (simp add: check_level_def)
next
  case (Some level)
  then have "side l \<noteq> 0" using reachable_stop_ok[OF assms(2)] by (auto simp: stop_ok_def)
  then show ?thesis using assms Some check_stop_events by (auto simp: check_level_def)
qed

text \<open>The parts of one iteration, as the source orders them.\<close>

lemma iterationE:
  assumes "iteration e r s st = Inr st'" "\<not> halted (r_loop st)"
  obtains l1 l2 l3 l4 pending where
    "fill_pending e r st = Inr l1" "check_level e r l1 = Inr l2"
    "(if s \<noteq> r_previous st then decide e r s l2 else Inr (None, l2)) = Inr (pending, l3)"
    "mark e r l3 = Inr l4"
    "(if halted l4 then Inr l4 else check_drawdown e r l4) = Inr (r_loop st')"
    "r_pending st' = pending" "r_previous st' = s"
proof -
  from assms obtain l1 l2 pl l4 l5 where
    1: "fill_pending e r st = Inr l1" "check_level e r l1 = Inr l2"
    "(if s \<noteq> r_previous st then decide e r s l2 else Inr (None, l2)) = Inr pl"
    "mark e r (snd pl) = Inr l4"
    "(if \<not> halted l4 then check_drawdown e r l4 else Inr l4) = Inr l5"
    "st' = \<lparr>r_loop = l5, r_pending = fst pl, r_previous = s\<rparr>"
    unfolding iteration_def check_level_def
    by (auto elim!: bind_resE split: prod.splits)
  then show ?thesis using that[of l1 l2 "fst pl" "snd pl" l4] by (cases pl) (auto split: if_splits)
qed

text \<open>The recorded series and the peak change only at the end of a row.\<close>

lemma loop_fill_series:
  assumes "loop_fill e r s p sd may l = Inr l'"
  shows "position l' = position l" "equity l' = equity l" "peak l' = peak l"
  using assms by (auto simp: loop_fill_def res_simps dest: loop_closeD split: if_splits)

lemma fill_pending_series:
  assumes "fill_pending e r st = Inr l"
  shows "position l = position (r_loop st)" "equity l = equity (r_loop st)" "peak l = peak (r_loop st)"
  using assms loop_fill_series by (auto simp: fill_pending_def split: option.splits)

lemma check_level_series:
  assumes "check_level e r l = Inr l'"
  shows "position l' = position l" "equity l' = equity l" "peak l' = peak l"
  using assms
  by (auto simp: check_level_def check_stop_def Let_def dest: loop_closeD split: option.splits if_splits)

lemma decide_series:
  assumes "decide e r s l = Inr (pending, l')"
  shows "position l' = position l" "equity l' = equity l" "peak l' = peak l"
  using assms loop_fill_series by (auto simp: decide_def res_simps split: if_splits)

text \<open>
  The signals still to come, and the state the loop starts a row in: the rows before are recorded,
  and unless the run is halted the peak is theirs and \<open>previous\<close> is the signal of the row before.
\<close>

definition row_signal :: "env \<Rightarrow> nat \<Rightarrow> int \<Rightarrow> bool" where
  "row_signal e r s = (s \<in> {-1, 0, 1} \<and> r < length (c_signals (e_candles e)) \<and> s = signal_at e r)"

definition next_signals :: "env \<Rightarrow> nat \<Rightarrow> int list \<Rightarrow> bool" where
  "next_signals e r ss = (set ss \<subseteq> {-1, 0, 1} \<and> prefix ss (drop r (c_signals (e_candles e))))"

lemma next_signals_Cons:
  assumes "next_signals e r (s # ss)"
  shows "row_signal e r s" "next_signals e (Suc r) ss"
proof -
  obtain us where us: "drop r (c_signals (e_candles e)) = s # ss @ us"
    using assms by (auto simp: next_signals_def prefix_def)
  then have r: "r < length (c_signals (e_candles e))" by (metis drop_all list.distinct(1) not_le)
  with us have "signal_at e r = s" "drop (Suc r) (c_signals (e_candles e)) = ss @ us"
    by (simp_all add: signal_at_def flip: Cons_nth_drop_Suc)
  then show "row_signal e r s" "next_signals e (Suc r) ss"
    using assms r by (simp_all add: row_signal_def next_signals_def)
qed

definition state_ok :: "env \<Rightarrow> nat \<Rightarrow> run_state \<Rightarrow> bool" where
  "state_ok e r st = (row_start e r (r_loop st) \<and> length (equity (r_loop st)) = r \<and>
     (\<not> halted (r_loop st) \<longrightarrow> pending_ok e r st \<and> peak (r_loop st) = peak_of (equity (r_loop st)) \<and>
       (r < length (c_signals (e_candles e)) \<longrightarrow> r_previous st = signal_at e (r - 1))))"

lemma state_ok_reachable: "state_ok e r st \<Longrightarrow> reachable e r (r_loop st)"
  by (simp add: state_ok_def row_start_reachable)

lemma state_ok_pending_events:
  assumes "state_ok e r st" "\<not> halted (r_loop st)" "fill_pending e r st = Inr l"
  shows "events e r (r_loop st) l"
  using assms fill_pending_events by (simp add: state_ok_def)

lemma iteration_level_ok:
  assumes "state_ok e r st" "\<not> halted (r_loop st)" "fill_pending e r st = Inr l"
  shows "reachable e r l" "e_next_open e \<or> (side l \<noteq> 0 \<longrightarrow> entry_row l < r)"
proof -
  show "reachable e r l"
    using assms state_ok_pending_events reachable_events state_ok_reachable by metis
  show "e_next_open e \<or> (side l \<noteq> 0 \<longrightarrow> entry_row l < r)"
  proof (cases "e_next_open e")
    case False
    then have "r_pending st = None"
      using assms by (auto simp: state_ok_def pending_ok_def split: option.splits)
    then show ?thesis
      using assms row_start_entry_before by (auto simp: fill_pending_no_order state_ok_def)
  qed simp
qed

text \<open>Only a change of the signal is decided on, so what is decided is a \<open>decision\<close>.\<close>

lemma decided_events:
  assumes "(if s \<noteq> r_previous st then decide e r s l else Inr (None, l)) = Inr (pending, l')"
    and "state_ok e r st" "\<not> halted (r_loop st)" "row_signal e r s"
    and "equity l = equity (r_loop st)" "peak l = peak (r_loop st)"
  shows "events e r l l'"
    "pending = None \<or> e_next_open e \<and> pending = Some s \<and> decision e r \<and> s = signal_at e r"
    "equity l' = equity l" "peak l' = peak l"
proof -
  have s: "s \<in> {-1, 0, 1}" "s = signal_at e r" "r < length (c_signals (e_candles e))"
    using assms(4) unfolding row_signal_def by blast+
  have prev: "r_previous st = signal_at e (r - 1)" "peak l = peak_of (take r (equity l))"
    using assms(2,3,5,6) s(3) by (simp_all add: state_ok_def)
  have dec: "decision e r" if "s \<noteq> r_previous st"
    using that prev(1) s by (cases r) (auto simp: decision_def)
  have "events e r l l' \<and> (pending = None \<or> e_next_open e \<and> pending = Some s \<and> decision e r)
      \<and> equity l' = equity l \<and> peak l' = peak l"
  proof (cases "s \<noteq> r_previous st")
    case True
    then have d: "decide e r s l = Inr (pending, l')" using assms(1) by simp
    show ?thesis
      using decide_events[OF d s(1) dec[OF True] s(2) prev(2)] decide_series[OF d] dec[OF True] by blast
  qed (use assms(1) in auto)
  then show "events e r l l'"
    "pending = None \<or> e_next_open e \<and> pending = Some s \<and> decision e r \<and> s = signal_at e r"
    "equity l' = equity l" "peak l' = peak l" using s(2) by blast+
qed

lemma check_drawdown_series:
  assumes "check_drawdown e r l = Inr l'"
  shows "length (equity l') = length (equity l)"
    "\<not> halted l' \<Longrightarrow> equity l' = equity l \<and> peak l' = max (peak l) (equity l ! r)"
  using assms loop_closeD(6)
  by (auto simp: check_drawdown_def Let_def res_simps split: if_splits)

text \<open>One row, part by part: every state in it is reachable, and the series grow at its end.\<close>

lemma iteration_parts:
  assumes "iteration e r s st = Inr st'" "state_ok e r st" "row_signal e r s" "\<not> halted (r_loop st)"
  obtains l1 l2 l3 l4 pending where
    "fill_pending e r st = Inr l1" "check_level e r l1 = Inr l2"
    "(if s \<noteq> r_previous st then decide e r s l2 else Inr (None, l2)) = Inr (pending, l3)"
    "mark e r l3 = Inr l4"
    "(if halted l4 then Inr l4 else check_drawdown e r l4) = Inr (r_loop st')"
    "r_pending st' = pending" "r_previous st' = s"
    "reachable e r l1" "reachable e r l3" "events e r (r_loop st) l3"
    "position l3 = position (r_loop st)" "equity l3 = equity (r_loop st)" "peak l3 = peak (r_loop st)"
    "events e r l3 l4" "just_marked e r l4"
    "pending = None \<or> e_next_open e \<and> pending = Some s \<and> decision e r \<and> s = signal_at e r"
proof -
  obtain l1 l2 l3 l4 pending where s: "fill_pending e r st = Inr l1" "check_level e r l1 = Inr l2"
    "(if s \<noteq> r_previous st then decide e r s l2 else Inr (None, l2)) = Inr (pending, l3)"
    "mark e r l3 = Inr l4"
    "(if halted l4 then Inr l4 else check_drawdown e r l4) = Inr (r_loop st')"
    "r_pending st' = pending" "r_previous st' = s"
    by (rule iterationE[OF assms(1,4)])
  have same: "position l2 = position (r_loop st)" "equity l2 = equity (r_loop st)" "peak l2 = peak (r_loop st)"
    using fill_pending_series[OF s(1)] check_level_series[OF s(2)] by simp_all
  note ok = iteration_level_ok[OF assms(2,4) s(1)]
    and d = decided_events[OF s(3) assms(2,4,3) same(2,3)]
  have "position l3 = position l2" using s(3) decide_series(1) by (auto split: if_splits)
  with same d(3,4) have same3: "position l3 = position (r_loop st)" "equity l3 = equity (r_loop st)"
    "peak l3 = peak (r_loop st)" by simp_all
  have len: "length (equity l3) = r" "peak l3 = peak_of (equity l3)"
    using assms(2,4) same3 by (simp_all add: state_ok_def)
  have ev: "events e r (r_loop st) l3"
    using state_ok_pending_events[OF assms(2,4) s(1)] check_level_events[OF s(2) ok] d(1) by simp
  have "reachable e r l3" using ev state_ok_reachable[OF assms(2)] by (rule reachable_events)
  then show ?thesis
    using that[OF s ok(1) _ ev same3 mark_events[OF s(4) len(1)] mark_marked[OF s(4) len] d(2)] by blast
qed

lemma halted_iteration:
  "iteration e r s st = Inr st' \<Longrightarrow> halted (r_loop st) \<Longrightarrow> st' = st\<lparr>r_loop := (r_loop st)\<lparr>
     position := position (r_loop st) @ [0], equity := equity (r_loop st) @ [capital (r_loop st)]\<rparr>\<rparr>"
  by (simp add: iteration_def)

lemma iteration_events:
  assumes "iteration e r s st = Inr st'" "state_ok e r st" "row_signal e r s"
  shows "events e r (r_loop st) (r_loop st')" "state_ok e (Suc r) st'"
proof -
  have "events e r (r_loop st) (r_loop st') \<and> state_ok e (Suc r) st'"
  proof (cases "halted (r_loop st)")
    case True
    note st' = halted_iteration[OF assms(1) True]
    have "length (equity (r_loop st)) = r" using assms(2) by (simp add: state_ok_def)
    then have "events e r (r_loop st) (r_loop st')" unfolding st' by (auto intro!: r_into_rtranclp ev_series)
    moreover from this have "reachable e r (r_loop st')"
      using state_ok_reachable[OF assms(2)] by (rule reachable_events)
    ultimately show ?thesis using True assms(2) unfolding st' by (simp add: state_ok_def row_start_def)
  next
    case False
    from assms False show ?thesis
    proof (cases rule: iteration_parts)
      case (1 l1 l2 l3 l4 pending)
      note fin = 1(5) and m = 1(15)
      have dd: "check_drawdown e r l4 = Inr (r_loop st')" if "\<not> halted l4" using fin that by simp
      have "events e r l4 (r_loop st')"
        using fin check_drawdown_events[OF _ m] by (auto split: if_splits)
      with 1(10,14) have ev: "events e r (r_loop st) (r_loop st')" by simp
      have len: "length (equity (r_loop st')) = Suc r"
        using fin m check_drawdown_series(1) by (auto simp: just_marked_def split: if_splits)
      have "peak (r_loop st') = peak_of (equity (r_loop st'))" if "\<not> halted (r_loop st')"
      proof -
        have h4: "\<not> halted l4" using fin that by auto
        from check_drawdown_series(2)[OF dd[OF h4] that] have
          "equity (r_loop st') = equity l4" "peak (r_loop st') = max (peak l4) (equity l4 ! r)" by auto
        moreover have "equity l4 = take r (equity l4) @ [equity l4 ! r]"
          using m by (metis lessI just_marked_def take_Suc_conv_app_nth take_all_iff order_refl)
        then have "peak_of (equity l4) = max (peak_of (take r (equity l4))) (equity l4 ! r)"
          by (metis peak_of_snoc)
        ultimately show ?thesis using m by (simp add: just_marked_def)
      qed
      moreover have "pending_ok e (Suc r) st'"
        using 1(6,16) assms(3) by (auto simp: pending_ok_def row_signal_def split: option.splits)
      moreover have "signal_at e r = r_previous st'" using 1(7) assms(3) unfolding row_signal_def by metis
      moreover have "reachable e r (r_loop st')"
        using ev state_ok_reachable[OF assms(2)] by (rule reachable_events)
      ultimately show ?thesis using ev len by (simp add: state_ok_def row_start_def)
    qed
  qed
  then show "events e r (r_loop st) (r_loop st')" "state_ok e (Suc r) st'" by auto
qed

lemmas iteration_state_ok = iteration_events(2)

lemma iterate_state_ok:
  "iterate e r ss st = Inr st' \<Longrightarrow> state_ok e r st \<Longrightarrow> next_signals e r ss \<Longrightarrow>
   state_ok e (r + length ss) st'"
proof (induction ss arbitrary: r st)
  case Nil
  then show ?case by simp
next
  case (Cons s ss)
  then obtain st1 where "iteration e r s st = Inr st1" "iterate e (Suc r) ss st1 = Inr st'"
    by (auto simp: res_simps)
  then show ?case
    using Cons iteration_state_ok[of e r s st st1] next_signals_Cons[OF Cons.prems(3)] by force
qed

lemma run_init_ok: "state_ok e 0 (run_init e)"
  by (auto simp: state_ok_def row_start_def pending_ok_def run_init_def loop_init_def signal_at_def
      split: list.split)

lemma wf_env_signals: "wf_env e \<Longrightarrow> set (c_signals (e_candles e)) \<subseteq> {-1, 0, 1}"
  using wf_env_signal by blast

lemma wf_env_next: "wf_env e \<Longrightarrow> next_signals e 0 (c_signals (e_candles e))"
  by (simp add: next_signals_def wf_env_signals)

lemma finish_events: "finish e l = Inr l' \<Longrightarrow> events e (last_row e) l l'"
proof (cases "side l = 0")
  case False
  assume "finish e l = Inr l'"
  then obtain m where m: "loop_close e (last_row e) (c_closes (e_candles e) ! last_row e) REnd l = Inr m"
      "l' = m\<lparr>position := (position m)[last_row e := 0],
        equity := (equity m)[last_row e := capital m]\<rparr>"
    using False by (auto simp: finish_def res_simps)
  have "events e (last_row e) l m"
    using False by (intro close_events[OF m(1)]) (auto simp: exit_ok_def)
  then show ?thesis unfolding m(2) by (rule rtranclp.rtrancl_into_rtrancl) (simp add: ev_series)
qed (simp add: finish_def)

theorem loop_run_reachable:
  assumes "loop_run e = Inr l" "wf_env e"
  shows "reachable e (last_row e) l"
proof -
  from assms(1) obtain st where st: "iterate e 0 (c_signals (e_candles e)) (run_init e) = Inr st"
      "finish e (r_loop st) = Inr l"
    by (auto simp: loop_run_def res_simps)
  have "state_ok e (rows e) st"
    using iterate_state_ok[OF st(1) run_init_ok wf_env_next[OF assms(2)]] wf_envD(5)[OF assms(2)]
    by simp
  then have "reachable e (last_row e) (r_loop st)"
    by (cases "rows e") (auto simp: state_ok_def row_start_def last_row_def intro: reach_init)
  then show ?thesis using finish_events[OF st(2)] reachable_events by blast
qed

context loop_invariant
begin

lemma in_result: "loop_run e = Inr l \<Longrightarrow> wf_env e \<Longrightarrow> I (last_row e) l"
  by (rule in_reachable) (rule loop_run_reachable)

end

end
