(* ===== verification/EngineInvariants.thy ===== *)
theory EngineInvariants
  imports EngineEvents
begin

text \<open>
  The invariants of the loop, each an instance of \<open>loop_invariant\<close>: what an open position
  remembers, the capital as the account of the closed trades, and every trade as the rules of
  \<open>docs/engine.md\<close> make it. The last section shows that with a slippage below 100% no run raises.
\<close>

section \<open>The open position\<close>

definition position_ok :: "env \<Rightarrow> loop \<Rightarrow> bool" where
  "position_ok e l = (side l \<in> {-1, 0, 1} \<and> (if side l = 0 then stop l = None else
     \<not> halted l \<and> entry_row l = (if e_next_open e then Suc (signal_row l) else signal_row l) \<and>
     entry_quote l = fill_price e (entry_row l) \<and>
     entry_price l = entry_quote l * (1 + of_int (side l) * e_slippage e) \<and>
     decision e (signal_row l) \<and> side l = signal_at e (signal_row l) \<and>
     stop l = map_option (\<lambda>x. entry_price l * (1 - of_int (side l) * x)) (e_stop_loss e)))"

lemma event_position_ok: "event e r l l' \<Longrightarrow> position_ok e l \<Longrightarrow> position_ok e l'"
  by (induction rule: event.induct)
    (auto simp: position_ok_def ruin_def fills_on_def stop_loop_open dest: loop_closeD split: if_splits)

text \<open>With \<open>signal_close\<close> no position opens from a capital at the level of the drawdown stop.\<close>

definition opened_above :: "env \<Rightarrow> nat \<Rightarrow> loop \<Rightarrow> bool" where
  "opened_above e r l = (side l \<noteq> 0 \<and> \<not> e_next_open e \<longrightarrow>
     entry_row l \<le> r \<and> \<not> at_stop_level e (take (entry_row l) (equity l)) (capital l))"

lemma take_of_take: "take r xs = take r ys \<Longrightarrow> k \<le> r \<Longrightarrow> take k xs = take k ys"
  by (metis min.absorb1 take_take)

lemma event_opened_above: "event e r l l' \<Longrightarrow> opened_above e r l \<Longrightarrow> opened_above e r l'"
proof (induction rule: event.induct)
  case (ev_series q l p)
  then show ?case using take_of_take[OF ev_series(1), of "entry_row l"] by (auto simp: opened_above_def)
qed (auto simp: opened_above_def ruin_def dest: loop_closeD)

lemma opened_above_next: "opened_above e r l \<Longrightarrow> opened_above e (Suc r) l"
  by (auto simp: opened_above_def)

interpretation opened_fact: loop_invariant e "opened_above e" for e
proof
  show "opened_above e 0 loop_init" by (simp add: opened_above_def loop_init_def)
qed (auto intro: event_opened_above opened_above_next)

lemmas reachable_opened_above = opened_fact.in_reachable

interpretation open_position: loop_invariant e "\<lambda>_. position_ok e" for e
proof
  show "position_ok e loop_init" by (simp add: position_ok_def loop_init_def)
qed (auto intro: event_position_ok)

lemmas reachable_position_ok = open_position.in_reachable

lemma open_position_facts:
  assumes "reachable e r l" "side l \<noteq> 0"
  shows "side l \<in> {-1, 1}" "\<not> halted l" "entry_quote l = fill_price e (entry_row l)"
    "entry_price l = entry_quote l * (1 + of_int (side l) * e_slippage e)"
    "entry_row l \<le> r" "signal_row l \<le> entry_row l"
    "entry_row l = (if e_next_open e then Suc (signal_row l) else signal_row l)"
    "stop l = map_option (\<lambda>x. entry_price l * (1 - of_int (side l) * x)) (e_stop_loss e)"
    "decision e (signal_row l)" "side l = signal_at e (signal_row l)"
  using reachable_position_ok[OF assms(1)] reachable_entry_before[OF assms(1)] assms(2)
  by (auto simp: position_ok_def entry_before_def)

lemma fill_price_pos: "wf_env e \<Longrightarrow> r < rows e \<Longrightarrow> fill_price e r > 0"
  by (simp add: fill_price_def wf_env_prices)

lemma slipped_pos:
  assumes "sd \<in> {-1, 1 :: int}" "0 \<le> s" "s < (1 :: real)"
  shows "1 + of_int sd * s > 0" "1 - of_int sd * s > 0"
  using assms by auto

lemma open_position_prices:
  assumes "reachable e r l" "side l \<noteq> 0" "wf_env e" "r < rows e" "e_slippage e < 1"
  shows "entry_quote l > 0" "entry_price l > 0"
proof -
  note f = open_position_facts[OF assms(1,2)]
  show q: "entry_quote l > 0" using f assms by (simp add: fill_price_pos)
  show "entry_price l > 0"
    using f(1,4) q slipped_pos[of "side l" "e_slippage e"] wf_envD(13)[OF assms(3)] assms(5) by simp
qed

section \<open>The capital is the account of the closed trades\<close>

definition ledger :: "trade list \<Rightarrow> real" where
  "ledger ts = foldl (\<lambda>c t. if t_return t \<le> -1 \<or> t_reason t = RRuin then 0
                            else c * (1 + t_return t)) 1 ts"

lemma ledger_Nil [simp]: "ledger [] = 1"
  by (simp add: ledger_def)

lemma ledger_snoc [simp]: "ledger (ts @ [t]) =
    (if t_return t \<le> -1 \<or> t_reason t = RRuin then 0 else ledger ts * (1 + t_return t))"
  by (simp add: ledger_def)

definition capital_ok :: "loop \<Rightarrow> bool" where
  "capital_ok l = (capital l = ledger (trades l) \<and> (\<not> halted l \<longrightarrow> capital l > 0) \<and> capital l \<ge> 0)"

lemma t_reason_closing [simp]: "t_reason (closing_trade e r p reason l) = reason"
  by (simp add: closing_trade_def Let_def)

lemma event_capital_ok:
  assumes "event e r l l'" "capital_ok l" "side l \<noteq> 0 \<longrightarrow> \<not> halted l"
  shows "capital_ok l'"
  using assms
proof (induction rule: event.induct)
  case (ev_close l reason price l')
  let ?t = "closing_trade e r price reason l"
  have "trades l' = trades l @ [?t]" using ev_close loop_closeD by metis
  moreover note loop_close_capital[OF ev_close(4)]
  ultimately show ?case using ev_close
    by (cases "t_return ?t \<le> -1") (auto simp: capital_ok_def)
next
  case (ev_ruin l price l')
  have "trades l' = trades l @ [closing_trade e r price RRuin l]" using ev_ruin loop_closeD by metis
  then show ?case by (simp add: capital_ok_def ruin_def)
qed (auto simp: capital_ok_def)

interpretation account: loop_invariant e "\<lambda>_. capital_ok" for e
proof
  show "capital_ok loop_init" by (simp add: capital_ok_def loop_init_def)
qed (auto intro: event_capital_ok dest: open_position_facts)

lemmas reachable_capital_ok = account.in_reachable

section \<open>Every trade follows the rules\<close>

definition reached :: "int \<Rightarrow> real \<Rightarrow> real \<Rightarrow> bool" where
  "reached sd price level = (if sd > 0 then price \<le> level else price \<ge> level)"

lemma beyond_reached: "beyond l price level = reached (side l) price level"
  by (simp add: beyond_def reached_def)

text \<open>
  One trade as the rules describe it, given the trades before it and the recorded equity, from the
  candle \<open>s\<close> of its decision, the candle \<open>en\<close> of its entry and the candle \<open>ex\<close> of its exit: the
  signal changed on \<open>s\<close> and the side is the new signal, the entry fills at the next open or the
  signal's close, slippage moves both legs against the trade, the stop level comes from the entry
  price, the exit happens on the occasion its reason names and at its price, and the return is the
  price change less the fees. A \<open>signal\<close> exit fills a later change of the signal away from the
  side, a \<open>ruin\<close> exit a position marked at or below 0, a \<open>drawdown\<close> exit one whose mark is at or
  below the level under the highest equity so far.
\<close>

definition trade_rules ::
    "env \<Rightarrow> trade list \<Rightarrow> real list \<Rightarrow> nat \<Rightarrow> nat \<Rightarrow> nat \<Rightarrow> real \<Rightarrow> trade \<Rightarrow> bool" where
  "trade_rules e before eqs s en ex price t = (
     s \<le> en \<and> en \<le> ex \<and> en = (if e_next_open e then Suc s else s) \<and>
     t_signal_ts t = c_ts (e_candles e) ! s \<and> t_open_ts t = c_ts (e_candles e) ! en \<and>
     t_close_ts t = c_ts (e_candles e) ! ex \<and> t_side t \<in> {-1, 1} \<and>
     0 < s \<and> t_side t = c_signals (e_candles e) ! s \<and>
     c_signals (e_candles e) ! (s - 1) \<noteq> c_signals (e_candles e) ! s \<and>
     (e_next_open e \<or> \<not> at_stop_level e (take en eqs) (ledger before)) \<and>
     t_open_price t = fill_price e en * (1 + of_int (t_side t) * e_slippage e) \<and>
     t_close_price t = price * (1 - of_int (t_side t) * e_slippage e) \<and>
     t_stop_price t = map_option (\<lambda>x. t_open_price t * (1 - of_int (t_side t) * x)) (e_stop_loss e) \<and>
     (let marked = worth e ex (ledger before) (t_side t) (t_open_price t) in
      case t_reason t of
        RSignal \<Rightarrow> price = fill_price e ex \<and> (\<exists>d. s < d \<and> ex = (if e_next_open e then Suc d else d) \<and>
          c_signals (e_candles e) ! d \<noteq> t_side t \<and>
          c_signals (e_candles e) ! (d - 1) \<noteq> c_signals (e_candles e) ! d)
      | RGap \<Rightarrow> en < ex \<and> price = c_opens (e_candles e) ! ex \<and>
          (\<exists>level. t_stop_price t = Some level \<and> reached (t_side t) price level)
      | RStop \<Rightarrow> (e_next_open e \<or> en < ex) \<and> t_stop_price t = Some price \<and>
          reached (t_side t) (if t_side t > 0 then c_lows (e_candles e) ! ex
                              else c_highs (e_candles e) ! ex) price
      | REnd \<Rightarrow> ex = last_row e \<and> price = c_closes (e_candles e) ! ex
      | RRuin \<Rightarrow> price = c_closes (e_candles e) ! ex \<and> marked \<le> 0
      | RDrawdown \<Rightarrow> price = c_closes (e_candles e) ! ex \<and> 0 < marked \<and>
          at_stop_level e (take ex eqs @ [marked]) marked) \<and>
     t_fees t = e_fee e * (1 + t_close_price t / t_open_price t) \<and>
     t_return t = of_int (t_side t) * (t_close_price t / t_open_price t - 1) - t_fees t \<and>
     t_slippage_cost t =
       of_int (t_side t) * (price / fill_price e en - t_close_price t / t_open_price t))"

lemma trade_rulesD:
  assumes "trade_rules e before eqs s en ex price t"
  shows "s \<le> en" "en \<le> ex" "t_side t \<in> {-1, 1}"
    "t_open_price t = fill_price e en * (1 + of_int (t_side t) * e_slippage e)"
    "t_close_price t = price * (1 - of_int (t_side t) * e_slippage e)"
    "t_stop_price t = map_option (\<lambda>x. t_open_price t * (1 - of_int (t_side t) * x)) (e_stop_loss e)"
    "t_fees t = e_fee e * (1 + t_close_price t / t_open_price t)"
    "t_return t = of_int (t_side t) * (t_close_price t / t_open_price t - 1) - t_fees t"
    "t_slippage_cost t =
       of_int (t_side t) * (price / fill_price e en - t_close_price t / t_open_price t)"
  using assms unfolding trade_rules_def by blast+

lemma trade_rules_stop:
  assumes "trade_rules e before eqs s en ex price t" "t_reason t = RStop"
  shows "t_stop_price t = Some price"
  using assms(1)[unfolded trade_rules_def assms(2) exit_reason.case Let_def] by blast

lemma trade_rules_same_equity:
  assumes "take r q = take r p" "ex \<le> r"
  shows "trade_rules e before q s en ex price t = trade_rules e before p s en ex price t"
proof -
  have ex: "take ex q = take ex p" using take_of_take[OF assms] .
  have "en \<le> ex \<Longrightarrow> take en q = take en p" using take_of_take[OF ex] .
  then show ?thesis unfolding trade_rules_def ex by (intro conj_cong refl) auto
qed

definition follow_rules :: "env \<Rightarrow> nat \<Rightarrow> loop \<Rightarrow> bool" where
  "follow_rules e r l = (\<forall>i < length (trades l). \<exists>s en ex price. ex \<le> r \<and>
     trade_rules e (take i (trades l)) (equity l) s en ex price (trades l ! i))"

lemma closing_trade_rules:
  assumes "reachable e r l" "side l \<noteq> 0" "exit_ok e r price reason l"
  shows "trade_rules e (trades l) (equity l) (signal_row l) (entry_row l) r price
    (closing_trade e r price reason l)"
proof -
  note f = open_position_facts[OF assms(1,2)]
  let ?t = "closing_trade e r price reason l"
  have sel: "t_stop_price ?t = stop l" "t_side ?t = side l" "t_reason ?t = reason"
    "t_open_price ?t = entry_price l"
    by (simp_all add: closing_trade_def Let_def)
  have cap: "ledger (trades l) = capital l"
    using reachable_capital_ok[OF assms(1)] by (simp add: capital_ok_def)
  have opened: "e_next_open e \<or> \<not> at_stop_level e (take (entry_row l) (equity l)) (capital l)"
    using reachable_opened_above[OF assms(1)] assms(2) by (auto simp: opened_above_def)
  have later: "signal_row l < d" if "decision e d" "fills_on e d r" "signal_at e d \<noteq> side l" for d
  proof -
    have "signal_row l \<le> d" using f(5,7) that(2) by (auto simp: fills_on_def split: if_splits)
    moreover have "signal_row l \<noteq> d" using f(10) that(3) by auto
    ultimately show ?thesis by simp
  qed
  have reason: "let marked = worth e r (capital l) (side l) (entry_price l) in case reason of
        RSignal \<Rightarrow> price = fill_price e r \<and> (\<exists>d. signal_row l < d \<and>
          r = (if e_next_open e then Suc d else d) \<and> c_signals (e_candles e) ! d \<noteq> side l \<and>
          c_signals (e_candles e) ! (d - 1) \<noteq> c_signals (e_candles e) ! d)
      | RGap \<Rightarrow> entry_row l < r \<and> price = c_opens (e_candles e) ! r \<and>
          (\<exists>level. stop l = Some level \<and> reached (side l) price level)
      | RStop \<Rightarrow> (e_next_open e \<or> entry_row l < r) \<and> stop l = Some price \<and>
          reached (side l) (if side l > 0 then c_lows (e_candles e) ! r
                              else c_highs (e_candles e) ! r) price
      | REnd \<Rightarrow> r = last_row e \<and> price = c_closes (e_candles e) ! r
      | RRuin \<Rightarrow> price = c_closes (e_candles e) ! r \<and> marked \<le> 0
      | RDrawdown \<Rightarrow> price = c_closes (e_candles e) ! r \<and> 0 < marked \<and>
          at_stop_level e (take r (equity l) @ [marked]) marked"
  proof (cases reason)
    case RSignal
    then obtain d where d: "decision e d" "fills_on e d r" "signal_at e d \<noteq> side l"
      and p: "price = fill_price e r"
      using assms(3) by (auto simp: exit_ok_def)
    have "c_signals (e_candles e) ! (d - 1) \<noteq> c_signals (e_candles e) ! d"
      using d(1) by (auto simp: decision_def signal_at_def)
    then show ?thesis using RSignal p later[OF d] d(2,3)
      by (auto simp: Let_def fills_on_def signal_at_def intro!: exI[of _ d])
  qed (use assms(3) in \<open>auto simp: exit_ok_def beyond_reached Let_def\<close>)
  have dec: "0 < signal_row l" "side l = c_signals (e_candles e) ! signal_row l"
    "c_signals (e_candles e) ! (signal_row l - 1) \<noteq> c_signals (e_candles e) ! signal_row l"
    using f(9,10) by (auto simp: decision_def signal_at_def)
  have rest: "t_signal_ts ?t = c_ts (e_candles e) ! signal_row l"
    "t_open_ts ?t = c_ts (e_candles e) ! entry_row l" "t_close_ts ?t = c_ts (e_candles e) ! r"
    "t_close_price ?t = price * (1 - of_int (side l) * e_slippage e)"
    "t_fees ?t = e_fee e * (1 + t_close_price ?t / entry_price l)"
    "t_return ?t = of_int (side l) * (t_close_price ?t / entry_price l - 1) - t_fees ?t"
    "t_slippage_cost ?t = of_int (side l) * (price / entry_quote l - t_close_price ?t / entry_price l)"
    by (simp_all add: closing_trade_def Let_def)
  show ?thesis
    unfolding trade_rules_def sel cap
    using f(1,3-8) opened reason dec rest by (intro conjI) simp_all
qed

lemma event_trades:
  assumes "event e r l l'" "reachable e r l"
  shows "trades l' = trades l \<or> side l \<noteq> 0 \<and> side l' = 0 \<and> equity l' = equity l \<and> (\<exists>price reason.
     exit_ok e r price reason l \<and> trades l' = trades l @ [closing_trade e r price reason l])"
  using assms(1) by cases (auto simp: ruin_def dest: loop_closeD)

lemma event_equity: "event e r l l' \<Longrightarrow> take r (equity l') = take r (equity l)"
  by (induction rule: event.induct) (auto simp: ruin_def dest: loop_closeD)

lemma event_follow_rules:
  assumes "event e r l l'" "reachable e r l" "follow_rules e r l"
  shows "follow_rules e r l'"
proof (cases "trades l' = trades l")
  case True
  show ?thesis unfolding follow_rules_def True
    using assms(3) trade_rules_same_equity[OF event_equity[OF assms(1)]]
    unfolding follow_rules_def by metis
next
  case False
  then obtain price reason where t: "side l \<noteq> 0" "equity l' = equity l" "exit_ok e r price reason l"
      "trades l' = trades l @ [closing_trade e r price reason l]"
    using event_trades[OF assms(1,2)] by blast
  show ?thesis unfolding follow_rules_def t(2,4)
  proof (intro allI impI)
    fix i assume "i < length (trades l @ [closing_trade e r price reason l])"
    then consider "i < length (trades l)" | "i = length (trades l)" by (auto simp: less_Suc_eq)
    then show "\<exists>s en ex p. ex \<le> r \<and>
        trade_rules e (take i (trades l @ [closing_trade e r price reason l])) (equity l) s en ex p
          ((trades l @ [closing_trade e r price reason l]) ! i)"
    proof cases
      case 1
      then show ?thesis using assms(3) by (auto simp: follow_rules_def nth_append)
    next
      case 2
      then show ?thesis using closing_trade_rules[OF assms(2) t(1,3)] by auto
    qed
  qed
qed

lemma follow_rules_next: "follow_rules e r l \<Longrightarrow> follow_rules e (Suc r) l"
  unfolding follow_rules_def by (meson le_SucI)

interpretation rules: loop_invariant e "follow_rules e" for e
proof
  show "follow_rules e 0 loop_init" by (simp add: follow_rules_def loop_init_def)
qed (auto intro: event_follow_rules follow_rules_next)

text \<open>Trades come one after the other: each opens no earlier than the one before it closed.\<close>

definition in_order :: "env \<Rightarrow> nat \<Rightarrow> loop \<Rightarrow> bool" where
  "in_order e r l = (sorted_wrt (<) (c_ts (e_candles e)) \<longrightarrow> r < rows e \<longrightarrow>
     sorted_wrt (\<lambda>a b. t_close_ts a \<le> t_open_ts b) (trades l) \<and>
     (\<forall>t \<in> set (trades l).
        t_close_ts t \<le> c_ts (e_candles e) ! (if side l = 0 then r else entry_row l)))"

lemma ts_mono: "sorted_wrt (<) (c_ts (e_candles e)) \<Longrightarrow> i \<le> j \<Longrightarrow> j < rows e \<Longrightarrow> c_ts (e_candles e) ! i \<le> c_ts (e_candles e) ! j"
  using sorted_wrt_nth_mono by blast

lemma closing_trade_ts [simp]:
  "t_open_ts (closing_trade e r p reason l) = c_ts (e_candles e) ! entry_row l"
  "t_close_ts (closing_trade e r p reason l) = c_ts (e_candles e) ! r"
  by (simp_all add: closing_trade_def Let_def)

lemma event_in_order:
  assumes "event e r l l'" "reachable e r l" "in_order e r l"
  shows "in_order e r l'"
proof (cases "trades l' = trades l")
  case True
  with assms show ?thesis
    by (cases rule: event.cases) (auto simp: in_order_def ruin_def dest: loop_closeD)
next
  case False
  then obtain price reason where t: "side l \<noteq> 0" "side l' = 0"
      "trades l' = trades l @ [closing_trade e r price reason l]"
    using event_trades[OF assms(1,2)] by blast
  show ?thesis unfolding in_order_def
  proof (intro impI conjI)
    assume w: "sorted_wrt (<) (c_ts (e_candles e))" "r < rows e"
    have "c_ts (e_candles e) ! entry_row l \<le> c_ts (e_candles e) ! r"
      using open_position_facts(5)[OF assms(2) t(1)] w ts_mono by blast
    then show "\<forall>t \<in> set (trades l').
        t_close_ts t \<le> c_ts (e_candles e) ! (if side l' = 0 then r else entry_row l')"
      using assms(3) w t by (fastforce simp: in_order_def)
    show "sorted_wrt (\<lambda>a b. t_close_ts a \<le> t_open_ts b) (trades l')"
      using assms(3) w t by (auto simp: in_order_def sorted_wrt_append)
  qed
qed

lemma in_order_next:
  assumes "reachable e r l" "in_order e r l"
  shows "in_order e (Suc r) l"
  unfolding in_order_def
proof (intro impI)
  assume w: "sorted_wrt (<) (c_ts (e_candles e))" "Suc r < rows e"
  then have "c_ts (e_candles e) ! r \<le> c_ts (e_candles e) ! Suc r" using ts_mono by simp
  then show "sorted_wrt (\<lambda>a b. t_close_ts a \<le> t_open_ts b) (trades l) \<and>
     (\<forall>t \<in> set (trades l).
        t_close_ts t \<le> c_ts (e_candles e) ! (if side l = 0 then Suc r else entry_row l))"
    using assms(2) w by (fastforce simp: in_order_def)
qed

interpretation order: loop_invariant e "in_order e" for e
proof
  show "in_order e 0 loop_init" by (simp add: in_order_def loop_init_def)
qed (auto intro: event_in_order in_order_next)

section \<open>No exception\<close>

text \<open>A state in which the divisions of the loop are safe.\<close>

definition divisible :: "loop \<Rightarrow> bool" where
  "divisible l = (side l \<noteq> 0 \<longrightarrow> entry_price l \<noteq> 0 \<and> entry_quote l \<noteq> 0)"

definition safe_env :: "env \<Rightarrow> bool" where
  "safe_env e = (wf_env e \<and> e_slippage e < 1)"

lemma reachable_divisible: "reachable e r l \<Longrightarrow> safe_env e \<Longrightarrow> r < rows e \<Longrightarrow> divisible l"
  using open_position_prices by (force simp: divisible_def safe_env_def)

lemma loop_close_total: "divisible l \<Longrightarrow> side l \<noteq> 0 \<Longrightarrow> \<exists>l'. loop_close e r p reason l = Inr l'"
  by (simp add: loop_close_def divisible_def Let_def)

lemma loop_fill_total: "divisible l \<Longrightarrow> \<exists>l'. loop_fill e r s p sd may l = Inr l'"
  using loop_close_total[of l e r p RSignal]
  by (cases "side l \<noteq> 0 \<and> side l \<noteq> sd") (auto simp: loop_fill_def)

lemma decide_total: "divisible l \<Longrightarrow> \<exists>pending l'. decide e r s l = Inr (pending, l')"
  using loop_fill_total[of l e r r "c_closes (e_candles e) ! r" s "r < last_row e"]
  by (auto simp: decide_def)

lemma check_level_total:
  assumes "divisible l" "stop_ok l"
  shows "\<exists>l'. check_level e r l = Inr l'"
  using assms loop_close_total[OF assms(1)]
  by (auto simp: check_level_def check_stop_def stop_ok_def Let_def split: option.splits)

lemma mark_total: "divisible l \<Longrightarrow> \<exists>l'. mark e r l = Inr l'"
  using loop_close_total[of l e r _ RRuin] by (auto simp: mark_def Let_def divisible_def res_simps)

lemma check_drawdown_total:
  assumes "divisible l"
  shows "\<exists>l'. check_drawdown e r l = Inr l'"
  using loop_close_total[of "l\<lparr>peak := max (peak l) (equity l ! r)\<rparr>" e r] assms
  by (auto simp: check_drawdown_def Let_def divisible_def res_simps)

lemma iteration_total:
  assumes "state_ok e r st" "safe_env e" "r < rows e" "row_signal e r s"
  shows "\<exists>st'. iteration e r s st = Inr st'"
proof (cases "halted (r_loop st)")
  case True
  then show ?thesis by (simp add: iteration_def)
next
  case False
  note div = reachable_divisible[OF _ assms(2,3)]
  have "divisible (r_loop st)" using assms(1) div state_ok_reachable by blast
  then obtain l1 where 1: "fill_pending e r st = Inr l1"
    using loop_fill_total[of "r_loop st" e r "r - 1"] by (cases "r_pending st") (force simp: fill_pending_def)+
  note ok1 = iteration_level_ok[OF assms(1) False 1]
  obtain l2 where 2: "check_level e r l1 = Inr l2"
    using check_level_total div ok1(1) reachable_stop_ok by blast
  have ok2: "reachable e r l2" using check_level_events[OF 2 ok1] ok1(1) reachable_events by blast
  have same: "equity l2 = equity (r_loop st)" "peak l2 = peak (r_loop st)"
    using fill_pending_series[OF 1] check_level_series[OF 2] by simp_all
  obtain pending l3 where 3: "(if s \<noteq> r_previous st then decide e r s l2 else Inr (None, l2)) = Inr (pending, l3)"
    using decide_total[OF div[OF ok2], of e r s] by (cases "s \<noteq> r_previous st") auto
  note d = decided_events[OF 3 assms(1) False assms(4) same]
  have ok3: "reachable e r l3" using d(1) ok2 by (rule reachable_events)
  have len: "length (equity l3) = r" using d(3) same(1) assms(1) by (simp add: state_ok_def)
  obtain l4 where 4: "mark e r l3 = Inr l4" using mark_total div[OF ok3] by blast
  have ok4: "reachable e r l4" using mark_events[OF 4 len] ok3 reachable_events by blast
  obtain l5 where 5: "(if \<not> halted l4 then check_drawdown e r l4 else Inr l4) = Inr l5"
    using check_drawdown_total[OF div[OF ok4], of e r] by (cases "halted l4") auto
  have "iteration e r s st = Inr \<lparr>r_loop = l5, r_pending = pending, r_previous = s\<rparr>"
    using False unfolding iteration_def check_level_def[symmetric]
    by (simp only: 1 2 3 4 5 bind_res_Inr prod.case if_False)
  then show ?thesis ..
qed

lemma iterate_total:
  "state_ok e r st \<Longrightarrow> safe_env e \<Longrightarrow> r + length ss \<le> rows e \<Longrightarrow> next_signals e r ss \<Longrightarrow>
   \<exists>st'. iterate e r ss st = Inr st'"
proof (induction ss arbitrary: r st)
  case Nil
  then show ?case by simp
next
  case (Cons s ss)
  note s = next_signals_Cons[OF Cons.prems(4)]
  obtain st1 where 1: "iteration e r s st = Inr st1" using Cons.prems s(1) iteration_total by force
  then have "state_ok e (Suc r) st1" using Cons.prems(1) s(1) iteration_state_ok by blast
  then show ?case using Cons s(2) 1 by simp
qed

theorem loop_run_total:
  assumes "safe_env e"
  shows "\<exists>l. loop_run e = Inr l"
proof -
  have wf: "wf_env e" using assms by (simp add: safe_env_def)
  have "next_signals e 0 (c_signals (e_candles e))" "length (c_signals (e_candles e)) = rows e"
    using wf_env_next[OF wf] wf_envD(5)[OF wf] by auto
  then obtain st where st: "iterate e 0 (c_signals (e_candles e)) (run_init e) = Inr st"
      "state_ok e (rows e) st"
    using iterate_total[OF run_init_ok assms, where ss = "c_signals (e_candles e)"]
      iterate_state_ok[OF _ run_init_ok, where ss = "c_signals (e_candles e)"] by auto
  have "divisible (r_loop st)"
  proof (cases "rows e")
    case 0
    then show ?thesis using st by (simp add: state_ok_def row_start_def divisible_def loop_init_def)
  next
    case (Suc n)
    then show ?thesis using st reachable_divisible[OF _ assms, of n]
      by (simp add: state_ok_def row_start_def)
  qed
  then have "\<exists>l. finish e (r_loop st) = Inr l"
    using loop_close_total[of "r_loop st" e] by (cases "side (r_loop st) = 0") (auto simp: finish_def res_simps)
  then show ?thesis using st by (simp add: loop_run_def)
qed

end
