(* ===== verification/EngineSeries.thy ===== *)
theory EngineSeries
  imports EngineInvariants
begin

text \<open>
  The recorded series of a run, one value per row: what each row appends, the rows after a halt,
  and the state of a finished run.
\<close>

section \<open>What each method does to the series\<close>

lemma mark_appends:
  assumes "mark e r l = Inr l'" "capital_ok l" "side l \<noteq> 0 \<longrightarrow> \<not> halted l"
  obtains q where "position l' = position l @ [of_int (side l')]" "equity l' = equity l @ [q]"
    "peak l' = peak l" "0 \<le> q" "\<not> halted l' \<Longrightarrow> 0 < q" "side l' = 0 \<Longrightarrow> q = capital l'"
    "halted l' \<Longrightarrow> side l' = 0" "side l' = 0 \<or> side l' = side l"
proof (cases "side l = 0")
  case True
  then show ?thesis using assms that[of "capital l"] by (auto simp: mark_def record_row_def capital_ok_def)
next
  case False
  define q where "q = capital l * (1 + of_int (side l) * (c_closes (e_candles e) ! r / entry_price l - 1) - e_fee e)"
  from False assms(1) consider m where "loop_close e r (c_closes (e_candles e) ! r) RRuin l = Inr m"
      "l' = record_row 0 (ruin m)" "q \<le> 0"
    | "0 < q" "l' = record_row q l"
    by (auto simp: mark_def Let_def res_simps q_def split: if_splits)
  then show ?thesis
  proof cases
    case 1
    then show ?thesis using that[of 0] loop_closeD[OF 1(1)] by (auto simp: record_row_def ruin_def)
  next
    case 2
    then show ?thesis using that[of q] False assms(3) by (auto simp: record_row_def)
  qed
qed

section \<open>The rows that end a run\<close>

text \<open>Rules 8 and 9: nothing is left, or the equity is the drawdown stop below its peak.\<close>

definition stopped_at :: "env \<Rightarrow> real list \<Rightarrow> nat \<Rightarrow> bool" where
  "stopped_at e xs i = (xs ! i = 0 \<or> (case e_drawdown_stop e of None \<Rightarrow> False
     | Some d \<Rightarrow> xs ! i \<le> peak_of (take (Suc i) xs) * (1 - d)))"

lemma stopped_at_append: "i < length xs \<Longrightarrow> stopped_at e (xs @ ys) i = stopped_at e xs i"
  by (simp add: stopped_at_def nth_append split: option.split)

lemma stopped_at_update: "i < j \<Longrightarrow> stopped_at e (xs[j := y]) i = stopped_at e xs i"
  by (simp add: stopped_at_def take_update_cancel split: option.split)

lemma stopped_at_last: "stopped_at e (xs @ [x]) (length xs) =
    (x = 0 \<or> (case e_drawdown_stop e of None \<Rightarrow> False | Some d \<Rightarrow> x \<le> max (peak_of xs) x * (1 - d)))"
  by (simp add: stopped_at_def split: option.split)

definition flat_from :: "nat \<Rightarrow> real list \<Rightarrow> real list \<Rightarrow> real \<Rightarrow> bool" where
  "flat_from h ps qs c = (\<forall>j. h \<le> j \<and> j < length ps \<longrightarrow> ps ! j = 0 \<and> qs ! j = c)"

definition series_ok :: "env \<Rightarrow> nat \<Rightarrow> loop \<Rightarrow> bool" where
  "series_ok e r l = (length (position l) = r \<and> length (equity l) = r \<and>
     set (position l) \<subseteq> {-1, 0, 1} \<and> (\<forall>q \<in> set (equity l). 0 \<le> q) \<and>
     (side l = 0 \<and> 0 < r \<longrightarrow> position l ! (r - 1) = 0 \<and> equity l ! (r - 1) = capital l) \<and>
     (if halted l
      then \<exists>h < r. flat_from h (position l) (equity l) (capital l) \<and>
             (\<forall>i < h. \<not> stopped_at e (equity l) i)
      else peak l = peak_of (equity l) \<and> (\<forall>i < r. \<not> stopped_at e (equity l) i)))"

lemma series_ok_init: "series_ok e 0 loop_init"
  by (simp add: series_ok_def loop_init_def)

lemma series_ok_halted_row:
  assumes "series_ok e r l" "halted l" "side l = 0"
  shows "series_ok e (Suc r) (l\<lparr>position := position l @ [0], equity := equity l @ [capital l]\<rparr>)"
proof -
  from assms obtain h where h: "h < r" "flat_from h (position l) (equity l) (capital l)"
      "\<forall>i < h. \<not> stopped_at e (equity l) i" and len: "length (position l) = r" "length (equity l) = r"
    by (auto simp: series_ok_def)
  have "equity l ! (r - 1) = capital l" using assms h(1) by (simp add: series_ok_def)
  then have "0 \<le> capital l" using assms h(1) len by (metis series_ok_def nth_mem diff_less less_nat_zero_code gr0I zero_less_one)
  moreover have "flat_from h (position l @ [0]) (equity l @ [capital l]) (capital l)"
    using h len by (auto simp: flat_from_def nth_append less_Suc_eq)
  moreover have "(equity l @ [capital l]) ! r = capital l" using len by (simp add: nth_append)
  ultimately show ?thesis using assms h len
    by (auto simp: series_ok_def stopped_at_append intro!: exI[of _ h])
qed

definition series_before :: "env \<Rightarrow> nat \<Rightarrow> real list \<Rightarrow> real list \<Rightarrow> bool" where
  "series_before e r ps qs = (length ps = r \<and> length qs = r \<and> set ps \<subseteq> {-1, 0, 1} \<and>
     (\<forall>q \<in> set qs. 0 \<le> q) \<and> (\<forall>i < r. \<not> stopped_at e qs i))"

lemma nth_snoc: "length xs = r \<Longrightarrow> (xs @ [x]) ! r = x"
  by (simp add: nth_append)

lemma series_ok_haltI:
  assumes "series_before e r ps qs" "position l = ps @ [0]" "equity l = qs @ [capital l]"
    and "halted l" "0 \<le> capital l"
  shows "series_ok e (Suc r) l"
proof -
  have len: "length ps = r" "length qs = r" using assms(1) by (simp_all add: series_before_def)
  have "flat_from r (position l) (equity l) (capital l)"
    unfolding flat_from_def assms(2,3) using len by (auto simp: less_Suc_eq_le nth_snoc)
  moreover have "\<forall>i < r. \<not> stopped_at e (equity l) i"
    unfolding assms(3) using assms(1) len by (simp add: series_before_def stopped_at_append)
  ultimately have "\<exists>h < Suc r. flat_from h (position l) (equity l) (capital l) \<and>
      (\<forall>i < h. \<not> stopped_at e (equity l) i)" by blast
  then show ?thesis unfolding series_ok_def
    using assms len by (simp add: series_before_def nth_snoc)
qed

lemma series_ok_goI:
  assumes "series_before e r ps qs" "position l = ps @ [of_int (side l)]" "equity l = qs @ [q]"
    and "\<not> halted l" "0 \<le> q" "side l \<in> {-1, 0, 1}" "side l = 0 \<longrightarrow> q = capital l"
    and "peak l = peak_of (equity l)" "\<not> stopped_at e (equity l) r"
  shows "series_ok e (Suc r) l"
proof -
  have len: "length ps = r" "length qs = r" using assms(1) by (simp_all add: series_before_def)
  have "\<forall>i < r. \<not> stopped_at e (equity l) i"
    unfolding assms(3) using assms(1) len by (simp add: series_before_def stopped_at_append)
  then have "\<forall>i < Suc r. \<not> stopped_at e (equity l) i" using assms(9) less_Suc_eq by auto
  moreover have "of_int (side l) \<in> {-1, 0, 1 :: real}" using assms(6) by auto
  ultimately show ?thesis unfolding series_ok_def
    using assms(1-8) len by (simp add: series_before_def nth_snoc)
qed

text \<open>The end of a row: its mark and, unless it was ruined, the drawdown check.\<close>

definition end_row :: "env \<Rightarrow> nat \<Rightarrow> loop \<Rightarrow> py_error + loop" where
  "end_row e r l = bind_res (mark e r l) (\<lambda>l. if \<not> halted l then check_drawdown e r l else Inr l)"

lemma end_row_keeps:
  assumes "end_row e r l = Inr l'"
    and "reachable e r l"
    and before: "series_before e r (position l) (equity l)" "peak l = peak_of (equity l)"
  shows "series_ok e (Suc r) l'" "\<exists>x y. position l' = position l @ [x] \<and> equity l' = equity l @ [y]"
proof -
  have cap: "capital_ok l" and side: "side l \<in> {-1, 0, 1}" "side l \<noteq> 0 \<longrightarrow> \<not> halted l"
    using reachable_capital_ok[OF assms(2)] reachable_position_ok[OF assms(2)]
    by (auto simp: position_ok_def split: if_splits)
  have len: "length (position l) = r" "length (equity l) = r"
    using before(1) by (simp_all add: series_before_def)
  from assms(1) obtain m where m: "mark e r l = Inr m"
      "(if \<not> halted m then check_drawdown e r m else Inr m) = Inr l'"
    by (auto simp: end_row_def res_simps)
  from mark_appends[OF m(1) cap side(2)] obtain q where q: "position m = position l @ [of_int (side m)]"
    "equity m = equity l @ [q]" "peak m = peak l" "0 \<le> q" "\<not> halted m \<Longrightarrow> 0 < q"
    "side m = 0 \<Longrightarrow> q = capital m" "halted m \<Longrightarrow> side m = 0" "side m = 0 \<or> side m = side l"
    by blast
  have sm: "side m \<in> {-1, 0, 1}" using q(8) side(1) by auto
  define m' where "m' = m\<lparr>peak := max (peak m) q\<rparr>"
  have m': "position m' = position l @ [of_int (side m)]" "equity m' = equity l @ [q]"
    "capital m' = capital m" "side m' = side m" "halted m' = halted m" "peak m' = peak_of (equity l @ [q])"
    using q(1-3) before(2) by (simp_all add: m'_def)
  have eq_r: "equity m ! r = q" using q(2) len(2) by (simp add: nth_snoc)
  have dd: "drawn_down e m' q \<longleftrightarrow> (case e_drawdown_stop e of None \<Rightarrow> False
      | Some d \<Rightarrow> q \<le> max (peak_of (equity l)) q * (1 - d))"
    using m'(6) by (simp add: drawn_down_def split: option.split)
  consider (ruined) "halted m" "l' = m" | (on) "\<not> halted m" "\<not> drawn_down e m' q" "l' = m'"
    | (flat) "\<not> halted m" "side m = 0" "l' = m'\<lparr>halted := True\<rparr>"
    | (closed) n where "side m \<noteq> 0"
        "loop_close e r (c_closes (e_candles e) ! r) RDrawdown m' = Inr n"
        "l' = n\<lparr>position := (position n)[r := 0], equity := (equity n)[r := capital n], halted := True\<rparr>"
    using m(2) eq_r by (auto simp: check_drawdown_def Let_def res_simps m'_def split: if_splits)
  then have "series_ok e (Suc r) l' \<and> (\<exists>x y. position l' = position l @ [x] \<and> equity l' = equity l @ [y])"
  proof cases
    case ruined
    then show ?thesis using q series_ok_haltI[OF before(1), of m] by simp
  next
    case on
    then have "\<not> stopped_at e (equity m') r"
      using q(5) dd stopped_at_last[of e "equity l" q] len m'(2) by (auto split: option.splits)
    then show ?thesis using on q(4,6) m' sm series_ok_goI[OF before(1), of m' q] by simp
  next
    case flat
    then show ?thesis using q m' series_ok_haltI[OF before(1), of l'] by simp
  next
    case closed
    have n: "position n = position l @ [of_int (side m)]" "equity n = equity l @ [q]"
      using loop_closeD[OF closed(2)] m' by simp_all
    have upd: "(position n)[r := 0] = position l @ [0]" "(equity n)[r := capital n] = equity l @ [capital n]"
      using n len by (simp_all add: list_update_append)
    have "\<not> halted m" using closed(1) q(7) by blast
    then have "check_drawdown e r m = Inr l'" using m(2) by simp
    then have "events e r l l'"
      using mark_events[OF m(1) len(2)] check_drawdown_events mark_marked[OF m(1) len(2) before(2)]
      by (metis rtranclp_trans)
    then have "capital_ok l'" using assms(2) reachable_events reachable_capital_ok by blast
    then have "0 \<le> capital n" unfolding closed(3) by (simp add: capital_ok_def)
    then show ?thesis unfolding closed(3) upd
      using series_ok_haltI[OF before(1)] by simp
  qed
  then show "series_ok e (Suc r) l'" "\<exists>x y. position l' = position l @ [x] \<and> equity l' = equity l @ [y]"
    by auto
qed

section \<open>Rows and runs\<close>

text \<open>An iteration that does not start halted ends with \<open>end_row\<close>; what comes before keeps the series.\<close>

lemma iteration_end_row:
  assumes "iteration e r s st = Inr st'" "\<not> halted (r_loop st)" "state_ok e r st" "row_signal e r s"
  obtains l where "reachable e r l" "end_row e r l = Inr (r_loop st')"
    "position l = position (r_loop st)" "equity l = equity (r_loop st)" "peak l = peak (r_loop st)"
  using assms(1,3,4,2)
proof (cases rule: iteration_parts)
  case (1 l1 l2 l3 l4 pending)
  have "end_row e r l3 = Inr (r_loop st')" using 1(4,5) by (simp add: end_row_def split: if_splits)
  then show ?thesis using that 1(9,11-13) by blast
qed

lemma series_okD:
  assumes "series_ok e r l" "\<not> halted l"
  shows "series_before e r (position l) (equity l)" "peak l = peak_of (equity l)"
  using assms by (simp_all add: series_ok_def series_before_def)

lemma halted_side: "reachable e r l \<Longrightarrow> halted l \<Longrightarrow> side l = 0"
  using open_position_facts(2) by blast

lemma iteration_series:
  assumes "iteration e r s st = Inr st'" "state_ok e r st" "row_signal e r s"
    and "series_ok e r (r_loop st)"
  shows "series_ok e (Suc r) (r_loop st')"
    "\<exists>x y. position (r_loop st') = position (r_loop st) @ [x] \<and> equity (r_loop st') = equity (r_loop st) @ [y]"
proof -
  have "series_ok e (Suc r) (r_loop st') \<and>
    (\<exists>x y. position (r_loop st') = position (r_loop st) @ [x] \<and> equity (r_loop st') = equity (r_loop st) @ [y])"
  proof (cases "halted (r_loop st)")
    case True
    then show ?thesis
      using assms(1) series_ok_halted_row[OF assms(4) True halted_side[OF state_ok_reachable[OF assms(2)] True]]
      by (auto simp: iteration_def)
  next
    case False
    from iteration_end_row[OF assms(1) False assms(2,3)] obtain l where l: "reachable e r l"
      "end_row e r l = Inr (r_loop st')" "position l = position (r_loop st)"
      "equity l = equity (r_loop st)" "peak l = peak (r_loop st)" by blast
    show ?thesis
      using end_row_keeps[OF l(2,1)] series_okD[OF assms(4) False] unfolding l(3-5) by blast
  qed
  then show "series_ok e (Suc r) (r_loop st')"
    "\<exists>x y. position (r_loop st') = position (r_loop st) @ [x] \<and> equity (r_loop st') = equity (r_loop st) @ [y]"
    by auto
qed

lemma iterate_series:
  "iterate e r ss st = Inr st' \<Longrightarrow> state_ok e r st \<Longrightarrow> next_signals e r ss \<Longrightarrow>
   series_ok e r (r_loop st) \<Longrightarrow> series_ok e (r + length ss) (r_loop st') \<and>
     prefix (position (r_loop st)) (position (r_loop st')) \<and>
     prefix (equity (r_loop st)) (equity (r_loop st'))"
proof (induction ss arbitrary: r st)
  case Nil
  then show ?case by simp
next
  case (Cons s ss)
  then obtain st1 where 1: "iteration e r s st = Inr st1" "iterate e (Suc r) ss st1 = Inr st'"
    by (auto simp: res_simps)
  note s = next_signals_Cons[OF Cons.prems(3)]
  note st1 = iteration_series[OF 1(1) Cons.prems(2) s(1) Cons.prems(4)]
  have "prefix (position (r_loop st)) (position (r_loop st1))"
      "prefix (equity (r_loop st)) (equity (r_loop st1))"
    using st1(2) by (auto simp: prefix_def)
  moreover have "series_ok e (Suc r + length ss) (r_loop st') \<and>
      prefix (position (r_loop st1)) (position (r_loop st')) \<and>
      prefix (equity (r_loop st1)) (equity (r_loop st'))"
    using Cons.IH[OF 1(2) iteration_state_ok[OF 1(1) Cons.prems(2) s(1)] s(2) st1(1)] .
  ultimately show ?case by (auto intro: prefix_order.trans)
qed

text \<open>The states of a finished run: the rows before the last are those of the last iteration.\<close>

lemma loop_runE:
  assumes "loop_run e = Inr l" "wf_env e"
  obtains st where "iterate e 0 (c_signals (e_candles e)) (run_init e) = Inr st"
    "finish e (r_loop st) = Inr l" "state_ok e (rows e) st" "series_ok e (rows e) (r_loop st)"
proof -
  from assms(1) obtain st where st: "iterate e 0 (c_signals (e_candles e)) (run_init e) = Inr st"
      "finish e (r_loop st) = Inr l"
    by (auto simp: loop_run_def res_simps)
  note sig = wf_env_next[OF assms(2)] wf_envD(5)[OF assms(2)]
  have "series_ok e 0 (r_loop (run_init e))" by (simp add: run_init_def series_ok_init)
  then have "series_ok e (rows e) (r_loop st)" "state_ok e (rows e) st"
    using iterate_series[OF st(1) run_init_ok sig(1)] iterate_state_ok[OF st(1) run_init_ok sig(1)] sig(2)
    by simp_all
  then show ?thesis using that st by blast
qed

lemma finish_series:
  assumes "finish e l = Inr l'" "side l = 0 \<or> \<not> halted l"
  shows "side l' = 0" "halted l = True \<Longrightarrow> l' = l"
    "position l' = (if side l = 0 then position l else (position l)[last_row e := 0])"
    "equity l' = (if side l = 0 then equity l else (equity l)[last_row e := capital l'])"
  using assms loop_closeD by (auto simp: finish_def res_simps split: if_splits)

end
