(* ===== verification/EngineCausality.thy ===== *)
theory EngineCausality
  imports EngineSeries
begin

text \<open>
  No look-ahead. Two runs with the same settings over candles that agree on the first \<open>n\<close> rows,
  with at least one row after them, are in the same state after row \<open>n - 1\<close>: each method, at a row
  below \<open>n\<close>, is the same function of the loop for both. The only question the loop asks about
  what follows is whether a row is the last one (rule 6), which no row below \<open>n\<close> is.
\<close>

section \<open>Candles that agree on their first rows\<close>

definition same_candles :: "nat \<Rightarrow> candles \<Rightarrow> candles \<Rightarrow> bool" where
  "same_candles n c d = (n < length (c_ts c) \<and> n < length (c_ts d) \<and>
     take n (c_ts c) = take n (c_ts d) \<and> take n (c_opens c) = take n (c_opens d) \<and>
     take n (c_highs c) = take n (c_highs d) \<and> take n (c_lows c) = take n (c_lows d) \<and>
     take n (c_closes c) = take n (c_closes d) \<and> take n (c_signals c) = take n (c_signals d))"

definition same_past :: "nat \<Rightarrow> env \<Rightarrow> env \<Rightarrow> bool" where
  "same_past n e d = (wf_env e \<and> wf_env d \<and> same_candles n (e_candles e) (e_candles d) \<and>
     e_next_open e = e_next_open d \<and> e_stop_loss e = e_stop_loss d \<and>
     e_drawdown_stop e = e_drawdown_stop d \<and> e_fee e = e_fee d \<and> e_slippage e = e_slippage d)"

lemma same_past_env:
  assumes "same_past n e d"
  shows "e_next_open e = e_next_open d" "e_stop_loss e = e_stop_loss d"
    "e_drawdown_stop e = e_drawdown_stop d" "e_fee e = e_fee d" "e_slippage e = e_slippage d"
    "n < rows e" "n < rows d" "wf_env e" "wf_env d"
  using assms by (simp_all add: same_past_def same_candles_def)

lemma same_past_row:
  assumes "same_past n e d" "r < n"
  shows "c_ts (e_candles e) ! r = c_ts (e_candles d) ! r"
    "c_opens (e_candles e) ! r = c_opens (e_candles d) ! r"
    "c_highs (e_candles e) ! r = c_highs (e_candles d) ! r"
    "c_lows (e_candles e) ! r = c_lows (e_candles d) ! r"
    "c_closes (e_candles e) ! r = c_closes (e_candles d) ! r"
    "r < last_row e" "r < last_row d"
proof -
  note env = same_past_env(6-9)[OF assms(1)]
  have r: "r < rows e" "r < rows d" using env(1,2) assms(2) by simp_all
  note nth = take_nth_eq[OF _ assms(2)]
  have c: "same_candles n (e_candles e) (e_candles d)" using assms(1) by (simp add: same_past_def)
  have len: "length (c_opens (e_candles x)) = rows x" "length (c_highs (e_candles x)) = rows x"
    "length (c_lows (e_candles x)) = rows x" "length (c_closes (e_candles x)) = rows x"
    if "wf_env x" for x using wf_envD(1-4)[OF that] .
  have same: "take n (c_ts (e_candles e)) = take n (c_ts (e_candles d))"
    "take n (c_opens (e_candles e)) = take n (c_opens (e_candles d))"
    "take n (c_highs (e_candles e)) = take n (c_highs (e_candles d))"
    "take n (c_lows (e_candles e)) = take n (c_lows (e_candles d))"
    "take n (c_closes (e_candles e)) = take n (c_closes (e_candles d))"
    using c unfolding same_candles_def by blast+
  note l = len[OF env(3)] len[OF env(4)]
  show "c_ts (e_candles e) ! r = c_ts (e_candles d) ! r" by (rule nth[OF same(1)]) (use r in auto)
  show "c_opens (e_candles e) ! r = c_opens (e_candles d) ! r" by (rule nth[OF same(2)]) (simp_all only: l r)
  show "c_highs (e_candles e) ! r = c_highs (e_candles d) ! r" by (rule nth[OF same(3)]) (simp_all only: l r)
  show "c_lows (e_candles e) ! r = c_lows (e_candles d) ! r" by (rule nth[OF same(4)]) (simp_all only: l r)
  show "c_closes (e_candles e) ! r = c_closes (e_candles d) ! r" by (rule nth[OF same(5)]) (simp_all only: l r)
  show "r < last_row e" "r < last_row d" using env(1,2) assms(2) by (simp_all add: last_row_def)
qed

section \<open>The methods agree\<close>

lemma closing_trade_same:
  assumes "same_past n e d" "r < n" "entry_before r l" "side l \<noteq> 0"
  shows "closing_trade e r p reason l = closing_trade d r p reason l"
proof -
  have "signal_row l < n" "entry_row l < n" using assms(2-4) by (auto simp: entry_before_def)
  then show ?thesis
    using same_past_row(1)[OF assms(1)] same_past_env[OF assms(1)] assms(2)
    by (simp add: closing_trade_def Let_def)
qed

lemma loop_close_same:
  assumes "same_past n e d" "r < n" "entry_before r l" "side l \<noteq> 0"
  shows "loop_close e r p reason l = loop_close d r p reason l"
  using closing_trade_same[OF assms] by (simp add: loop_close_def)

lemma drawn_down_same: "same_past n e d \<Longrightarrow> drawn_down e l q = drawn_down d l q"
  using same_past_env(3) by (simp add: drawn_down_def)

lemma loop_open_same: "same_past n e d \<Longrightarrow> loop_open e r s p sd l = loop_open d r s p sd l"
  using same_past_env(2,5) by (simp add: loop_open_def)

lemma loop_fill_same:
  assumes "same_past n e d" "r < n" "entry_before r l"
  shows "loop_fill e r s p sd may l = loop_fill d r s p sd may l"
  using loop_close_same[OF assms] drawn_down_same[OF assms(1)] loop_open_same[OF assms(1)]
    same_past_env(1)[OF assms(1)]
  by (cases "side l \<noteq> 0 \<and> side l \<noteq> sd") (auto simp: loop_fill_def intro!: bind_res_cong)

lemma fill_pending_same:
  assumes "same_past n e d" "r < n" "entry_before r (r_loop st)"
  shows "fill_pending e r st = fill_pending d r st"
  using loop_fill_same[OF assms] same_past_row[OF assms(1,2)]
  by (simp add: fill_pending_def split: option.split)

lemma check_level_same:
  assumes "same_past n e d" "r < n" "entry_before r l" "stop_ok l"
  shows "check_level e r l = check_level d r l"
proof (cases "side l = 0")
  case True
  then show ?thesis using assms(4) by (simp add: check_level_def stop_ok_def)
next
  case False
  then show ?thesis
    using loop_close_same[OF assms(1-3)] same_past_row[OF assms(1,2)]
    by (simp add: check_level_def check_stop_def Let_def split: option.split)
qed

lemma decide_same:
  assumes "same_past n e d" "r < n" "entry_before r l"
  shows "decide e r s l = decide d r s l"
  using loop_fill_same[OF assms] same_past_row[OF assms(1,2)] same_past_env(1)[OF assms(1)]
  by (simp add: decide_def)

lemma mark_same:
  assumes "same_past n e d" "r < n" "entry_before r l"
  shows "mark e r l = mark d r l"
  using loop_close_same[OF assms] same_past_row[OF assms(1,2)] same_past_env(4)[OF assms(1)]
  by (simp add: mark_def Let_def)

lemma check_drawdown_same:
  assumes "same_past n e d" "r < n" "entry_before r l"
  shows "check_drawdown e r l = check_drawdown d r l"
proof -
  have "entry_before r (l\<lparr>peak := k\<rparr>)" for k using assms(3) by (simp add: entry_before_def)
  then show ?thesis
    using loop_close_same[OF assms(1,2), of "l\<lparr>peak := max (peak l) (equity l ! r)\<rparr>"]
      same_past_row[OF assms(1,2)] drawn_down_same[OF assms(1)]
    by (simp add: check_drawdown_def Let_def)
qed

lemma iteration_same:
  assumes same: "same_past n e d" and r: "r < n" and st: "state_ok e r st" and s: "row_signal e r s"
  shows "iteration e r s st = iteration d r s st"
proof (cases "halted (r_loop st)")
  case True
  then show ?thesis by (simp add: iteration_def)
next
  case False
  note eq = same_past_row[OF same r] and bound = reachable_entry_before
  have b0: "entry_before r (r_loop st)" using bound state_ok_reachable[OF st] by blast
  show ?thesis
    unfolding iteration_def if_not_P[OF False] check_level_def[symmetric]
  proof (intro bind_res_cong fill_pending_same[OF same r b0])
    fix l1 assume "fill_pending d r st = Inr l1"
    then have f: "fill_pending e r st = Inr l1" using fill_pending_same[OF same r b0] by simp
    note ok = iteration_level_ok[OF st False f]
    then show lv: "check_level e r l1 = check_level d r l1"
      using check_level_same[OF same r] bound reachable_stop_ok by blast
    fix l2 assume "check_level d r l1 = Inr l2"
    then have lv2: "check_level e r l1 = Inr l2" using lv by simp
    then have l2: "reachable e r l2"
      using check_level_events[OF _ ok] reachable_events[OF _ ok(1)] by simp
    have same2: "equity l2 = equity (r_loop st)" "peak l2 = peak (r_loop st)"
      using fill_pending_series[OF f] check_level_series[OF lv2] by simp_all
    have b2: "entry_before r l2" using l2 by (rule bound)
    then show dec: "(if s \<noteq> r_previous st then decide e r s l2 else Inr (None, l2)) =
        (if s \<noteq> r_previous st then decide d r s l2 else Inr (None, l2))"
      using decide_same[OF same r] by simp
    fix pl assume "(if s \<noteq> r_previous st then decide d r s l2 else Inr (None, l2)) = Inr pl"
    then obtain p l3 where pl: "pl = (p, l3)"
        "(if s \<noteq> r_previous st then decide e r s l2 else Inr (None, l2)) = Inr (p, l3)"
      using dec by (cases pl) auto
    note d = decided_events[OF pl(2) st False s same2]
    have l3: "reachable e r l3" using d(1) l2 by (rule reachable_events)
    have len: "length (equity l3) = r" using d(3) same2(1) st by (simp add: state_ok_def)
    show "(case pl of (pending, l) \<Rightarrow>
          bind_res (mark e r l) (\<lambda>l. bind_res (if \<not> halted l then check_drawdown e r l else Inr l)
            (\<lambda>l. Inr \<lparr>r_loop = l, r_pending = pending, r_previous = s\<rparr>))) =
        (case pl of (pending, l) \<Rightarrow>
          bind_res (mark d r l) (\<lambda>l. bind_res (if \<not> halted l then check_drawdown d r l else Inr l)
            (\<lambda>l. Inr \<lparr>r_loop = l, r_pending = pending, r_previous = s\<rparr>)))"
      unfolding pl(1) prod.case
    proof (intro bind_res_cong mark_same[OF same r bound[OF l3]])
      fix l4 assume "mark d r l3 = Inr l4"
      then have "mark e r l3 = Inr l4" using mark_same[OF same r bound[OF l3]] by simp
      then have "reachable e r l4" using mark_events[OF _ len] reachable_events[OF _ l3] by blast
      then show "(if \<not> halted l4 then check_drawdown e r l4 else Inr l4) =
          (if \<not> halted l4 then check_drawdown d r l4 else Inr l4)"
        using check_drawdown_same[OF same r] bound by simp
    qed (rule refl)
  qed
qed

lemma iterate_same:
  "same_past n e d \<Longrightarrow> r + length ss \<le> n \<Longrightarrow> state_ok e r st \<Longrightarrow> next_signals e r ss \<Longrightarrow>
   iterate e r ss st = iterate d r ss st"
proof (induction ss arbitrary: r st)
  case Nil
  then show ?case by simp
next
  case (Cons s ss)
  note s = next_signals_Cons[OF Cons.prems(4)]
  have "iteration e r s st = iteration d r s st" using Cons.prems s(1) iteration_same[of n e d r st s] by simp
  moreover have "iterate e (Suc r) ss st1 = iterate d (Suc r) ss st1"
    if "iteration e r s st = Inr st1" for st1
    using Cons.IH[of "Suc r" st1] Cons.prems iteration_state_ok[OF that Cons.prems(3) s(1)] s(2) by simp
  ultimately show ?case by (auto intro!: bind_res_cong)
qed

section \<open>What later rows leave as it was\<close>

lemma iterate_append:
  "iterate e r (ss @ ts) st = bind_res (iterate e r ss st) (iterate e (r + length ss) ts)"
proof (induction ss arbitrary: r st)
  case (Cons s ss)
  show ?case by (cases "iteration e r s st") (simp_all add: Cons)
qed simp

definition trades_extend :: "env \<Rightarrow> nat \<Rightarrow> loop \<Rightarrow> loop \<Rightarrow> bool" where
  "trades_extend e r l l' = (\<exists>ts. trades l' = trades l @ ts \<and>
     (\<forall>t \<in> set ts. \<exists>i. r \<le> i \<and> t_close_ts t = c_ts (e_candles e) ! i \<and> i \<le> last_row e))"

lemma trades_extend_refl [simp]: "trades_extend e r l l"
  by (simp add: trades_extend_def)

lemma trades_extend_trans:
  "trades_extend e r l m \<Longrightarrow> trades_extend e s m k \<Longrightarrow> r \<le> s \<Longrightarrow> trades_extend e r l k"
  unfolding trades_extend_def by (auto, metis le_trans)

lemma event_trades_extend:
  assumes "event e r l l'" "r \<le> last_row e"
  shows "trades_extend e r l l'"
  using assms(1) by cases
    (use assms(2) in \<open>auto simp: trades_extend_def ruin_def dest!: loop_closeD(3)\<close>)

lemma events_trades_extend: "events e r l l' \<Longrightarrow> r \<le> last_row e \<Longrightarrow> trades_extend e r l l'"
  by (induction rule: rtranclp_induct)
    (auto intro: event_trades_extend trades_extend_trans)

lemma iterate_trades_extend:
  "iterate e r ss st = Inr st' \<Longrightarrow> state_ok e r st \<Longrightarrow> next_signals e r ss \<Longrightarrow>
   r + length ss \<le> rows e \<Longrightarrow> trades_extend e r (r_loop st) (r_loop st')"
proof (induction ss arbitrary: r st)
  case Nil
  then show ?case by simp
next
  case (Cons s ss)
  then obtain st1 where 1: "iteration e r s st = Inr st1" "iterate e (Suc r) ss st1 = Inr st'"
    by (auto simp: res_simps)
  have r: "r \<le> last_row e" using Cons.prems by (auto simp: last_row_def)
  note s = next_signals_Cons[OF Cons.prems(3)]
  have "trades_extend e r (r_loop st) (r_loop st1)"
    using iteration_events(1)[OF 1(1) Cons.prems(2) s(1)] r events_trades_extend by blast
  moreover have "trades_extend e (Suc r) (r_loop st1) (r_loop st')"
    using Cons.IH[OF 1(2) iteration_state_ok[OF 1(1) Cons.prems(2) s(1)] s(2)] Cons.prems by simp
  ultimately show ?case by (rule trades_extend_trans) simp
qed

lemma next_signals_take: "wf_env e \<Longrightarrow> next_signals e 0 (take n (c_signals (e_candles e)))"
  using wf_env_signals[of e] set_take_subset[of n "c_signals (e_candles e)"]
  by (auto simp: next_signals_def take_is_prefix)

lemma next_signals_drop: "wf_env e \<Longrightarrow> next_signals e n (drop n (c_signals (e_candles e)))"
  using wf_env_signals[of e] set_drop_subset[of n "c_signals (e_candles e)"]
  by (auto simp: next_signals_def)

text \<open>A run over more than \<open>n\<close> rows is the run over its first \<open>n\<close>, continued.\<close>

lemma loop_run_split:
  assumes "loop_run e = Inr l" "wf_env e" "n < rows e"
  obtains st where "iterate e 0 (take n (c_signals (e_candles e))) (run_init e) = Inr st"
    "take n (position l) = position (r_loop st)" "take n (equity l) = equity (r_loop st)"
    "trades_extend e n (r_loop st) l"
proof -
  let ?sig = "c_signals (e_candles e)"
  note sig = wf_env_signals[OF assms(2)] wf_envD(5)[OF assms(2)]
  obtain st' where st': "iterate e 0 ?sig (run_init e) = Inr st'" "finish e (r_loop st') = Inr l"
      "state_ok e (rows e) st'" "series_ok e (rows e) (r_loop st')"
    by (rule loop_runE[OF assms(1,2)])
  have "iterate e 0 (take n ?sig @ drop n ?sig) (run_init e) = Inr st'" using st'(1) by simp
  then obtain st where st: "iterate e 0 (take n ?sig) (run_init e) = Inr st"
      "iterate e n (drop n ?sig) st = Inr st'"
    unfolding iterate_append using assms(3) sig(2) by (auto simp: res_simps)
  have sub: "next_signals e 0 (take n ?sig)" "next_signals e n (drop n ?sig)"
    using next_signals_take[OF assms(2)] next_signals_drop[OF assms(2)] .
  have len: "length (take n ?sig) = n" "n + length (drop n ?sig) = rows e" using sig(2) assms(3) by auto
  have "series_ok e 0 (r_loop (run_init e))" by (simp add: run_init_def series_ok_init)
  then have ok: "state_ok e n st" "series_ok e n (r_loop st)"
    using iterate_state_ok[OF st(1) run_init_ok sub(1)] iterate_series[OF st(1) run_init_ok sub(1)] len
    by simp_all
  have lens: "length (position (r_loop st)) = n" "length (equity (r_loop st)) = n"
    using ok(2) by (simp_all add: series_ok_def)
  have pre: "prefix (position (r_loop st)) (position (r_loop st'))"
      "prefix (equity (r_loop st)) (equity (r_loop st'))"
    using iterate_series[OF st(2) ok(1) sub(2) ok(2)] by blast+
  have last: "n \<le> last_row e" using assms(3) by (simp add: last_row_def)
  have "take n (position l) = take n (position (r_loop st'))" "take n (equity l) = take n (equity (r_loop st'))"
    using st'(2) last by (auto simp: finish_def res_simps dest: loop_closeD split: if_splits)
  then have "take n (position l) = position (r_loop st)" "take n (equity l) = equity (r_loop st)"
    using pre lens by (auto simp: prefix_def)
  moreover have "trades_extend e n (r_loop st') l"
    using finish_events[OF st'(2)] last events_trades_extend trades_extend_trans
    by (metis order_refl trades_extend_refl)
  then have "trades_extend e n (r_loop st) l"
    using iterate_trades_extend[OF st(2) ok(1) sub(2)] len by (auto intro: trades_extend_trans)
  ultimately show ?thesis using that st(1) by blast
qed

lemma trades_extend_filter:
  assumes "trades_extend e n l l'" "n < rows e" "\<forall>t \<in> set (drop n (c_ts (e_candles e))). T \<le> t"
  shows "filter (\<lambda>t. t_close_ts t < T) (trades l') = filter (\<lambda>t. t_close_ts t < T) (trades l)"
proof -
  obtain ts where ts: "trades l' = trades l @ ts"
      "\<forall>t \<in> set ts. \<exists>i. n \<le> i \<and> t_close_ts t = c_ts (e_candles e) ! i \<and> i \<le> last_row e"
    using assms(1) by (auto simp: trades_extend_def)
  have "\<forall>t \<in> set ts. T \<le> t_close_ts t"
  proof
    fix t assume "t \<in> set ts"
    then obtain i where i: "n \<le> i" "t_close_ts t = c_ts (e_candles e) ! i" "i \<le> last_row e"
      using ts(2) by blast
    then have "c_ts (e_candles e) ! i \<in> set (drop n (c_ts (e_candles e)))"
      using assms(2) by (auto simp: last_row_def in_set_conv_nth intro!: exI[of _ "i - n"])
    then show "T \<le> t_close_ts t" using assms(3) i(2) by simp
  qed
  then have "filter (\<lambda>t. t_close_ts t < T) ts = []" by (auto simp: filter_empty_conv)
  then show ?thesis using ts(1) by simp
qed

lemma run_init_same:
  assumes "same_past n e d" "0 < n"
  shows "run_init e = run_init d"
proof -
  have "take n (c_signals (e_candles e)) = take n (c_signals (e_candles d))"
    using assms(1) by (simp add: same_past_def same_candles_def)
  then show ?thesis using assms(2)
    by (cases n; cases "c_signals (e_candles e)"; cases "c_signals (e_candles d)")
      (simp_all add: run_init_def)
qed

lemma loop_run_causal:
  assumes "same_past n e d" "loop_run e = Inr l" "loop_run d = Inr m"
    and T: "\<forall>t \<in> set (drop n (c_ts (e_candles e))). T \<le> t" "\<forall>t \<in> set (drop n (c_ts (e_candles d))). T \<le> t"
  shows "take n (position l) = take n (position m)" "take n (equity l) = take n (equity m)"
    "filter (\<lambda>t. t_close_ts t < T) (trades l) = filter (\<lambda>t. t_close_ts t < T) (trades m)"
proof -
  note env = same_past_env[OF assms(1)]
  obtain st where st: "iterate e 0 (take n (c_signals (e_candles e))) (run_init e) = Inr st"
    "take n (position l) = position (r_loop st)" "take n (equity l) = equity (r_loop st)"
    "trades_extend e n (r_loop st) l"
    by (rule loop_run_split[OF assms(2) env(8,6)])
  obtain su where su: "iterate d 0 (take n (c_signals (e_candles d))) (run_init d) = Inr su"
    "take n (position m) = position (r_loop su)" "take n (equity m) = equity (r_loop su)"
    "trades_extend d n (r_loop su) m"
    by (rule loop_run_split[OF assms(3) env(9,7)])
  have sig: "take n (c_signals (e_candles d)) = take n (c_signals (e_candles e))"
    using assms(1) by (simp add: same_past_def same_candles_def)
  have sub: "next_signals e 0 (take n (c_signals (e_candles e)))"
    using next_signals_take[OF env(8)] .
  have "r_loop st = r_loop su"
  proof (cases "n = 0")
    case True
    then show ?thesis using st(1) su(1) by (auto simp: run_init_def)
  next
    case False
    have "iterate e 0 (take n (c_signals (e_candles e))) (run_init e) =
        iterate d 0 (take n (c_signals (e_candles e))) (run_init e)"
      by (rule iterate_same[OF assms(1) _ run_init_ok sub]) simp
    then show ?thesis using st(1) su(1) sig run_init_same[OF assms(1)] False by simp
  qed
  then show "take n (position l) = take n (position m)" "take n (equity l) = take n (equity m)"
    "filter (\<lambda>t. t_close_ts t < T) (trades l) = filter (\<lambda>t. t_close_ts t < T) (trades m)"
    using st su trades_extend_filter[OF st(4) env(6) T(1)] trades_extend_filter[OF su(4) env(7) T(2)]
    by simp_all
qed

end
