(* ===== verification/EngineRun.thy ===== *)
theory EngineRun
  imports EngineCausality
begin

text \<open>
  \<open>engine/run.py\<close>: \<open>backtest\<close>, candles and a signal in, trades and series out, and what a whole
  run guarantees, stated over its result. The theorems rest on the invariants of the loop
  (\<open>EngineInvariants\<close>, \<open>EngineSeries\<close>) and on \<open>EngineCausality\<close>.
\<close>

section \<open>The result of a run\<close>

record result =
  res_trades :: "trade list"
  res_ts :: "int list"
  res_signal :: "real list"
  res_position :: "real list"
  res_equity :: "real list"
  res_version :: string

definition ENGINE_VERSION :: string where
  "ENGINE_VERSION = ''0.3.0''"

datatype run_error = InvalidInput engine_error | PyRaised py_error

definition backtest :: "frame \<Rightarrow> settings \<Rightarrow> run_error + result" where
  "backtest f s = (case read_input_frame f of
      Inl e \<Rightarrow> Inl (InvalidInput e)
    | Inr c \<Rightarrow> (case loop_run (loop_env c s) of
        Inl e \<Rightarrow> Inl (PyRaised e)
      | Inr l \<Rightarrow> Inr \<lparr>res_trades = trades l, res_ts = c_ts c,
          res_signal = map of_int (c_signals c), res_position = position l,
          res_equity = equity l, res_version = ENGINE_VERSION\<rparr>))"

lemma backtestE:
  assumes "backtest f s = Inr r" "wf_frame f" "wf_settings s"
  obtains c l where "read_input_frame f = Inr c" "wf_env (loop_env c s)"
    "loop_run (loop_env c s) = Inr l" "res_trades r = trades l" "res_ts r = c_ts c"
    "res_signal r = map of_int (c_signals c)" "res_position r = position l" "res_equity r = equity l"
  using assms that read_input_frame_wf loop_env_wf
  by (auto simp: backtest_def split: sum.splits)

lemma loop_env_sel [simp]:
  "e_candles (loop_env c s) = c" "e_next_open (loop_env c s) = (st_fill s = NextOpen)"
  "e_stop_loss (loop_env c s) = st_stop_loss s" "e_drawdown_stop (loop_env c s) = st_drawdown_stop s"
  "e_fee (loop_env c s) = st_fee_bps s / 10000" "e_slippage (loop_env c s) = st_slippage_bps s / 10000"
  by (simp_all add: loop_env_def bps_def)

section \<open>The input contract\<close>

definition cell_is :: "(real \<Rightarrow> bool) \<Rightarrow> cell \<Rightarrow> bool" where
  "cell_is p c = (case float_cell c of Some (Fin x) \<Rightarrow> p x | _ \<Rightarrow> False)"

text \<open>The contract as the docstring of \<open>backtest\<close> states it, over the cells of the frame, for an order
  of the timestamps: strictly increasing in the docstring, rising by the Int64 difference in the check.\<close>

definition contract :: "(int list \<Rightarrow> bool) \<Rightarrow> frame \<Rightarrow> bool" where
  "contract order f = (set engine_columns \<subseteq> set (columns f) \<and>
     is_integer (s_dtype (the_column f ''ts'')) \<and>
     (\<forall>name \<in> set (engine_prices @ [''signal'']). is_numeric (s_dtype (the_column f name))) \<and>
     (\<exists>ts. map int_cell (s_cells (the_column f ''ts'')) = map Some ts \<and> list_all in_int64 ts \<and>
           order ts) \<and>
     (\<forall>name \<in> set engine_prices. list_all (cell_is (\<lambda>x. 0 < x)) (s_cells (the_column f name))) \<and>
     list_all (cell_is (\<lambda>x. x \<in> {-1, 0, 1})) (s_cells (the_column f ''signal'')))"

definition good_frame :: "frame \<Rightarrow> bool" where
  "good_frame f = contract rising64 f"

definition frame_times :: "frame \<Rightarrow> int list" where
  "frame_times f = List.map_filter int_cell (s_cells (the_column f ''ts''))"

lemma map_filter_Some: "map g xs = map Some ts \<Longrightarrow> List.map_filter g xs = ts"
  by (induction xs arbitrary: ts) (auto simp: map_filter_simps Cons_eq_map_conv)

lemma frame_times_Some: "map int_cell (s_cells (the_column f ''ts'')) = map Some ts \<Longrightarrow> frame_times f = ts"
  unfolding frame_times_def by (rule map_filter_Some)

lemma contract_in_span: "in_span (frame_times f) \<Longrightarrow> contract rising64 f = contract (sorted_wrt (<)) f"
  unfolding contract_def using frame_times_Some rising64_iff by (intro conj_cong refl) metis

lemma breaks_prices:
  assumes "i < length (d_ts d)" "wf_checked d"
  shows "\<not> breaks d BadPrice i \<and> \<not> breaks d NonPositivePrice i \<longleftrightarrow>
     (\<forall>v \<in> set (d_prices d i). finite_and (\<lambda>x. 0 < x) v)"
proof -
  have "\<not> missing_or_non_finite v \<and> \<not> finite_and (\<lambda>x. x \<le> 0) v \<longleftrightarrow> finite_and (\<lambda>x. 0 < x) v" for v
    by (cases v; cases "the v") (auto simp: missing_or_non_finite_def finite_and_def)
  then show ?thesis by (auto simp: list_ex_iff)
qed

lemma breaks_signal:
  "\<not> breaks d BadSignal i \<and> \<not> breaks d SignalBeyondOne i \<and> \<not> breaks d FractionalSignal i \<longleftrightarrow>
     finite_and (\<lambda>x. x \<in> {-1, 0, 1}) (d_signal d ! i)"
proof -
  have "\<not> missing_or_non_finite v \<and> \<not> finite_and (\<lambda>x. \<bar>x\<bar> > 1) v \<and>
      \<not> finite_and (\<lambda>x. \<bar>x\<bar> < 1 \<and> x \<noteq> 0) v \<longleftrightarrow> finite_and (\<lambda>x. x \<in> {-1, 0, 1}) v" for v
    by (cases v; cases "the v") (auto simp: missing_or_non_finite_def finite_and_def abs_real_def split: if_splits)
  then show ?thesis by simp
qed

lemma breaks_ts:
  assumes "\<forall>i < length (d_ts d). d_ts d ! i \<noteq> None"
  shows "(\<forall>i < length (d_ts d). \<not> breaks d TsNotAfterPrevious i) \<longleftrightarrow> rising64 (map the (d_ts d))"
proof -
  have "\<not> breaks d TsNotAfterPrevious (Suc i) \<longleftrightarrow> 0 < wrap64 (the (d_ts d ! Suc i) - the (d_ts d ! i))"
    if "Suc i < length (d_ts d)" for i
    using assms[rule_format, of i] assms[rule_format, of "Suc i"] that by auto
  moreover have "\<not> breaks d TsNotAfterPrevious 0" by simp
  ultimately show ?thesis unfolding rising64_def
    by (metis (no_types, lifting) Suc_lessD length_map nth_map old.nat.exhaust)
qed

lemma all_rules: "(\<forall>r. P r) \<longleftrightarrow> P MissingTs \<and> P TsNotAfterPrevious \<and> P BadPrice \<and> P NonPositivePrice \<and>
    P BadSignal \<and> P SignalBeyondOne \<and> P FractionalSignal"
  by (metis engine_rule.exhaust)

lemma good_rows_iff:
  assumes wf: "wf_checked d"
  shows "(\<forall>r. \<forall>i < length (d_ts d). \<not> breaks d r i) \<longleftrightarrow>
     (\<exists>ts. d_ts d = map Some ts \<and> rising64 ts) \<and>
     list_all (finite_and (\<lambda>x. 0 < x)) (d_open d) \<and> list_all (finite_and (\<lambda>x. 0 < x)) (d_high d) \<and>
     list_all (finite_and (\<lambda>x. 0 < x)) (d_low d) \<and> list_all (finite_and (\<lambda>x. 0 < x)) (d_close d) \<and>
     list_all (finite_and (\<lambda>x. x \<in> {-1, 0, 1})) (d_signal d)"
proof -
  let ?n = "length (d_ts d)"
  have len: "length (d_open d) = ?n" "length (d_high d) = ?n" "length (d_low d) = ?n"
    "length (d_close d) = ?n" "length (d_signal d) = ?n"
    using wf by (simp_all add: wf_checked_def)
  have prices: "(\<forall>i < ?n. \<not> breaks d BadPrice i) \<and> (\<forall>i < ?n. \<not> breaks d NonPositivePrice i) \<longleftrightarrow>
      list_all (finite_and (\<lambda>x. 0 < x)) (d_open d) \<and> list_all (finite_and (\<lambda>x. 0 < x)) (d_high d) \<and>
      list_all (finite_and (\<lambda>x. 0 < x)) (d_low d) \<and> list_all (finite_and (\<lambda>x. 0 < x)) (d_close d)"
    using breaks_prices[OF _ wf] unfolding list_all_length len d_prices_def by (simp, blast)
  have signal: "(\<forall>i < ?n. \<not> breaks d BadSignal i) \<and> (\<forall>i < ?n. \<not> breaks d SignalBeyondOne i) \<and>
      (\<forall>i < ?n. \<not> breaks d FractionalSignal i) \<longleftrightarrow> list_all (finite_and (\<lambda>x. x \<in> {-1, 0, 1})) (d_signal d)"
    using breaks_signal[of d] unfolding list_all_length len by blast
  have ts: "(\<forall>i < ?n. \<not> breaks d MissingTs i) \<and> (\<forall>i < ?n. \<not> breaks d TsNotAfterPrevious i) \<longleftrightarrow>
      (\<exists>ts. d_ts d = map Some ts \<and> rising64 ts)"
  proof
    assume a: "(\<forall>i < ?n. \<not> breaks d MissingTs i) \<and> (\<forall>i < ?n. \<not> breaks d TsNotAfterPrevious i)"
    then have "d_ts d = map Some (map the (d_ts d))" by (auto intro: nth_equalityI)
    moreover have "rising64 (map the (d_ts d))" using a breaks_ts[of d] by auto
    ultimately show "\<exists>ts. d_ts d = map Some ts \<and> rising64 ts" by blast
  next
    assume "\<exists>ts. d_ts d = map Some ts \<and> rising64 ts"
    then show "(\<forall>i < ?n. \<not> breaks d MissingTs i) \<and> (\<forall>i < ?n. \<not> breaks d TsNotAfterPrevious i)"
      using breaks_ts[of d] by (auto simp: comp_def)
  qed
  have "(\<forall>r. \<forall>i < ?n. \<not> breaks d r i) \<longleftrightarrow>
      ((\<forall>i < ?n. \<not> breaks d MissingTs i) \<and> (\<forall>i < ?n. \<not> breaks d TsNotAfterPrevious i)) \<and>
      ((\<forall>i < ?n. \<not> breaks d BadPrice i) \<and> (\<forall>i < ?n. \<not> breaks d NonPositivePrice i)) \<and>
      ((\<forall>i < ?n. \<not> breaks d BadSignal i) \<and> (\<forall>i < ?n. \<not> breaks d SignalBeyondOne i) \<and>
       (\<forall>i < ?n. \<not> breaks d FractionalSignal i))"
    unfolding all_rules by blast
  then show ?thesis unfolding ts prices signal by blast
qed

lemma list_all_cell_is: "list_all (finite_and p) (cast_float64 cs) = list_all (cell_is p) cs"
  by (simp add: cast_float64_def list_all_iff cell_is_def finite_and_def)

lemma read_accepts_contract_aux:
  assumes f: "wf_frame f"
  shows "(\<exists>c. read_input_frame f = Inr c) \<longleftrightarrow> good_frame f"
proof (cases "check_columns f = Inr () \<and> cast_int64 (s_cells (the_column f ''ts'')) \<noteq> None")
  case False
  have "\<not> good_frame f"
  proof
    assume g: "good_frame f"
    then have "missing_columns f = []" by (auto simp: good_frame_def contract_def missing_columns_def filter_empty_conv)
    moreover have "column_problems f = []"
      using g by (auto simp: good_frame_def contract_def column_problems_def filter_empty_conv)
    ultimately have "check_columns f = Inr ()" by (simp add: check_columns_def raise_if_def)
    moreover obtain ts where "map int_cell (s_cells (the_column f ''ts'')) = map Some ts" "list_all in_int64 ts"
      using g by (auto simp: good_frame_def contract_def)
    then have "cast_int64 (s_cells (the_column f ''ts'')) \<noteq> None"
      by (simp add: cast_int64_def list_all_iff)
    ultimately show False using False by blast
  qed
  moreover have "\<not> (\<exists>c. read_input_frame f = Inr c)"
    using False by (auto simp: read_input_frame_def res_simps split: option.splits)
  ultimately show ?thesis by blast
next
  case True
  then obtain ts where cast: "cast_int64 (s_cells (the_column f ''ts'')) = Some ts" by auto
  then have ts: "ts = map int_cell (s_cells (the_column f ''ts''))"
      and int64: "\<And>i. Some i \<in> set ts \<Longrightarrow> in_int64 i"
    by (auto simp: cast_int64_def Let_def list_all_iff split: if_splits option.splits)
  have cols: "set engine_columns \<subseteq> set (columns f)" "is_integer (s_dtype (the_column f ''ts''))"
      "\<forall>name \<in> set (engine_prices @ [''signal'']). is_numeric (s_dtype (the_column f name))"
    using True by (auto simp: check_columns_def res_simps missing_columns_def column_problems_def
      filter_empty_conv split: if_splits)
  define fl where "fl = (\<lambda>name. cast_float64 (s_cells (the_column f name)))"
  define d where "d = \<lparr>d_ts = ts, d_open = fl ''open'', d_high = fl ''high'',
    d_low = fl ''low'', d_close = fl ''close'', d_signal = fl ''signal''\<rparr>"
  have wf: "wf_checked d"
    using cols(1) the_column_length[OF f] length_cast_int64[OF cast]
    by (simp add: wf_checked_def d_def fl_def engine_columns_def)
  have "(\<exists>c. read_input_frame f = Inr c) \<longleftrightarrow> check_rows d = Inr ()"
    using True cast by (auto simp: read_input_frame_def res_simps d_def fl_def Let_def)
  also have "\<dots> \<longleftrightarrow> (\<forall>r. \<forall>i < length (d_ts d). \<not> breaks d r i)" by (rule check_rows_Inr)
  also have "\<dots> \<longleftrightarrow> good_frame f"
  proof -
    have "(\<exists>is. ts = map Some is \<and> rising64 is) \<longleftrightarrow>
        (\<exists>is. ts = map Some is \<and> list_all in_int64 is \<and> rising64 is)"
      using int64 by (auto simp: list_all_iff)
    then show ?thesis
      unfolding good_rows_iff[OF wf] good_frame_def contract_def ts[symmetric]
      using cols by (simp add: d_def fl_def list_all_cell_is engine_prices_def)
  qed
  finally show ?thesis .
qed

text \<open>C6: \<open>read\<close> accepts a frame exactly when the six columns are there, \<open>ts\<close> is an integer column whose
  consecutive Int64 differences, wrapped around as Polars wraps them, are positive, the prices are
  finite and positive and every signal is -1, 0 or 1. For timestamps less than 2^63 apart that is
  exactly the documented contract: \<open>ts\<close> strictly increasing.\<close>

theorem read_accepts_contract:
  assumes "wf_frame f"
  shows "((\<exists>c. read_input_frame f = Inr c) \<longleftrightarrow> contract rising64 f) \<and>
    (in_span (frame_times f) \<longrightarrow>
      ((\<exists>c. read_input_frame f = Inr c) \<longleftrightarrow> contract (sorted_wrt (<)) f))"
  using read_accepts_contract_aux[OF assms] contract_in_span[of f] by (simp add: good_frame_def)

text \<open>Beyond that span the check is wrong both ways: a ts that falls by almost 2^64 is read, and one
  that rises by 2^63 is refused.\<close>

lemma wrapped_times: "rising64 [2 ^ 63 - 1, - (2 ^ 63)]" "\<not> rising64 [- (2 ^ 62), 2 ^ 62]"
  by (simp_all add: rising64_def wrap64_def less_Suc_eq)

section \<open>A run returns\<close>

text \<open>C4: with a slippage below 100\% a backtest of a valid frame never raises: it returns a
  result for every frame that meets the input contract and every settings object.\<close>

theorem backtest_returns:
  assumes "wf_frame f" "good_frame f" "wf_settings s" "st_slippage_bps s < 10000"
  shows "\<exists>r. backtest f s = Inr r"
proof -
  obtain c where c: "read_input_frame f = Inr c"
    using read_accepts_contract_aux[OF assms(1)] assms(2) by blast
  have "safe_env (loop_env c s)"
    using loop_env_wf[OF read_input_frame_wf[OF c assms(1)] assms(3)] assms(4)
    by (simp add: safe_env_def)
  then obtain l where "loop_run (loop_env c s) = Inr l" using loop_run_total by blast
  then show ?thesis using c by (simp add: backtest_def)
qed

text \<open>C8: the settings accept any slippage, and at 100\% (10000 basis points) a short entry has the
  price 0: a run that goes short on its second candle raises \<open>ZeroDivisionError\<close> as soon as it
  marks the position.\<close>

theorem full_slippage_short_raises:
  assumes "read_input_frame f = Inr c" "c_signals c = 0 # - 1 # s # ss" "wf_candles c"
    and "st_slippage_bps st = 10000" "st_fill st = SignalClose" "wf_settings st"
  shows "backtest f st = Inl (PyRaised ZeroDivisionError)"
proof -
  let ?e = "loop_env c st"
  let ?open = "loop_open ?e (Suc 0) (Suc 0) (c_closes c ! 1) (- 1)"
  have wf: "wf_env ?e" using assms loop_env_wf by blast
  have dd: "\<not> drawn_down ?e l q" if "peak l = 1" "q = 1" for l q
    using wf_env_drawdown_stop[OF wf] that by (auto simp: drawn_down_def split: option.split)
  have rows: "length (c_ts c) = Suc (Suc (Suc (length ss)))"
    using assms(2,3) by (simp add: wf_candles_def)
  have first: "iteration ?e 0 0 (run_init ?e) = Inr \<lparr>r_loop = loop_init\<lparr>position := [0], equity := [1]\<rparr>,
      r_pending = None, r_previous = 0\<rparr>"
    using dd[of "loop_init\<lparr>position := [0], equity := [1]\<rparr>" 1] assms(2)
    by (simp add: iteration_def run_init_def fill_pending_def mark_def record_row_def loop_init_def
        check_drawdown_def)
  have "loop_run ?e = Inl ZeroDivisionError"
    using assms(2,5) first rows dd
    by (simp add: loop_run_def iteration_def fill_pending_def decide_def loop_fill_def loop_init_def
        mark_def loop_open_def last_row_def assms(4) Let_def split: option.split)
  then show ?thesis using assms(1) by (simp add: backtest_def)
qed

section \<open>The series\<close>

lemma loop_run_series:
  assumes "loop_run e = Inr l" "wf_env e"
  shows "length (position l) = rows e" "length (equity l) = rows e"
    "set (position l) \<subseteq> {-1, 0, 1}" "\<forall>q \<in> set (equity l). 0 \<le> q" "side l = 0" "capital_ok l"
    "0 < rows e \<Longrightarrow> position l ! last_row e = 0 \<and> equity l ! last_row e = capital l"
proof -
  obtain st where st: "finish e (r_loop st) = Inr l" "state_ok e (rows e) st"
      "series_ok e (rows e) (r_loop st)"
    by (rule loop_runE[OF assms])
  note reach = state_ok_reachable[OF st(2)]
  have go: "side (r_loop st) = 0 \<or> \<not> halted (r_loop st)" using halted_side[OF reach] by blast
  note f = finish_series[OF st(1) go]
  note ser = st(3)[unfolded series_ok_def]
  show cap: "capital_ok l" using account.in_result[OF assms] .
  then have c0: "0 \<le> capital l" by (simp add: capital_ok_def)
  show "side l = 0" using f(1) .
  show lens: "length (position l) = rows e" "length (equity l) = rows e" using f(3,4) ser by auto
  have zero: "(0 :: real) \<in> {-1, 0, 1}" by simp
  show "set (position l) \<subseteq> {-1, 0, 1}"
    using f(3) ser set_update_subset_insert[of "position (r_loop st)" "last_row e" 0] zero by auto
  show "\<forall>q \<in> set (equity l). 0 \<le> q"
    using f(4) ser set_update_subset_insert[of "equity (r_loop st)" "last_row e" "capital l"] c0
    by (auto split: if_splits)
  assume pos: "0 < rows e"
  show "position l ! last_row e = 0 \<and> equity l ! last_row e = capital l"
  proof (cases "side (r_loop st) = 0")
    case True
    then have "l = r_loop st" using st(1) by (simp add: finish_def)
    then show ?thesis using ser True pos by (simp add: last_row_def)
  next
    case False
    have "last_row e < length (position (r_loop st))" "last_row e < length (equity (r_loop st))"
      using ser pos by (simp_all add: last_row_def)
    then show ?thesis using f(3,4) False by simp
  qed
qed

text \<open>C5: the series of a run have one row per candle; every position is -1, 0 or 1, the equity is
  never negative, and the last row is flat and holds the capital the closed trades leave.\<close>

theorem backtest_series:
  assumes "backtest f s = Inr r" "wf_frame f" "wf_settings s"
  shows "length (res_position r) = length (res_ts r) \<and> length (res_equity r) = length (res_ts r) \<and>
    length (res_signal r) = length (res_ts r) \<and> set (res_position r) \<subseteq> {-1, 0, 1} \<and>
    (\<forall>q \<in> set (res_equity r). 0 \<le> q) \<and>
    (res_ts r = [] \<or> last (res_position r) = 0 \<and> last (res_equity r) = ledger (res_trades r))"
proof -
  obtain c l where r: "wf_env (loop_env c s)" "loop_run (loop_env c s) = Inr l"
      "res_trades r = trades l" "res_ts r = c_ts c" "res_signal r = map of_int (c_signals c)"
      "res_position r = position l" "res_equity r = equity l"
    by (rule backtestE[OF assms])
  note ser = loop_run_series[OF r(2,1)]
  have "length (c_signals c) = length (c_ts c)" using wf_envD(5)[OF r(1)] by simp
  moreover have "c_ts c = [] \<or> last (position l) = 0 \<and> last (equity l) = ledger (trades l)"
  proof (cases "c_ts c = []")
    case False
    then have "position l \<noteq> []" "equity l \<noteq> []" "0 < length (c_ts c)" using ser(1,2) by auto
    then show ?thesis using ser(1,2,6,7) by (simp add: last_conv_nth last_row_def capital_ok_def)
  qed simp
  ultimately show ?thesis using ser(1-4) unfolding r(3-7) by simp
qed

lemma stopped_run_stays_flat_aux:
  assumes "backtest f s = Inr r" "wf_frame f" "wf_settings s"
    and "i < j" "j < length (res_equity r)"
    and "res_equity r ! i = 0 \<or> (\<exists>d. st_drawdown_stop s = Some d \<and>
      res_equity r ! i \<le> peak_of (take (Suc i) (res_equity r)) * (1 - d))"
  shows "res_position r ! j = 0 \<and> res_equity r ! j = res_equity r ! i"
proof -
  obtain c l where r: "wf_env (loop_env c s)" "loop_run (loop_env c s) = Inr l"
      "res_position r = position l" "res_equity r = equity l"
    by (rule backtestE[OF assms(1-3)]) blast
  let ?e = "loop_env c s"
  obtain st where st: "finish ?e (r_loop st) = Inr l" "state_ok ?e (rows ?e) st"
      "series_ok ?e (rows ?e) (r_loop st)"
    by (rule loop_runE[OF r(2,1)])
  have go: "side (r_loop st) = 0 \<or> \<not> halted (r_loop st)"
    using halted_side[OF state_ok_reachable[OF st(2)]] by blast
  note f = finish_series[OF st(1) go] and ser = st(3)[unfolded series_ok_def]
  have len: "length (equity l) = rows ?e" using loop_run_series[OF r(2,1)] by simp
  have i: "i < rows ?e" "i < last_row ?e" using assms(4,5) len r(4) by (auto simp: last_row_def)
  have "stopped_at ?e (equity l) i"
    using assms(6) unfolding r(4) stopped_at_def by (auto split: option.split)
  then have stop: "stopped_at ?e (equity (r_loop st)) i"
    using f(4) i(2) by (auto simp: stopped_at_update split: if_splits)
  have h: "halted (r_loop st)" using ser stop i(1) by (auto split: if_splits)
  then obtain h where h: "flat_from h (position (r_loop st)) (equity (r_loop st)) (capital (r_loop st))"
      "\<forall>k < h. \<not> stopped_at ?e (equity (r_loop st)) k" "halted (r_loop st)"
    using ser by auto
  have "h \<le> i" using h(2) stop not_le by blast
  moreover have "l = r_loop st" using f(2) h(3) by simp
  ultimately show ?thesis
    using h(1) assms(4,5) ser unfolding r(3,4) flat_from_def by auto
qed

text \<open>C3: rules 8 and 9 are final: once the equity of a row is 0, or has fallen to the drawdown stop
  below the highest equity so far, every later row is flat and keeps one and the same equity.\<close>

theorem stopped_run_stays_flat:
  assumes "backtest f s = Inr r" "wf_frame f" "wf_settings s"
    and "i < j" "j < length (res_equity r)"
    and "res_equity r ! i = 0 \<or> (\<exists>d. st_drawdown_stop s = Some d \<and>
      res_equity r ! i \<le> peak_of (take (Suc i) (res_equity r)) * (1 - d))"
  shows "res_position r ! j = 0 \<and> res_equity r ! j = res_equity r ! i"
  by (rule stopped_run_stays_flat_aux[OF assms])

section \<open>The trades\<close>

lemma backtest_trades_nth:
  assumes "backtest f s = Inr r" "wf_frame f" "wf_settings s" "i < length (res_trades r)"
  obtains c sg en ex price where "read_input_frame f = Inr c" "wf_env (loop_env c s)"
    "sg \<le> en" "en \<le> ex" "ex < length (c_ts c)"
    "trade_rules (loop_env c s) (take i (res_trades r)) (res_equity r) sg en ex price (res_trades r ! i)"
proof -
  obtain c l where r: "read_input_frame f = Inr c" "wf_env (loop_env c s)"
      "loop_run (loop_env c s) = Inr l" "res_trades r = trades l" "res_equity r = equity l"
    by (rule backtestE[OF assms(1-3)]) blast
  let ?e = "loop_env c s"
  have "follow_rules ?e (last_row ?e) l" using rules.in_result[OF r(3,2)] .
  then obtain sg en ex price where t: "ex \<le> last_row ?e"
      "trade_rules ?e (take i (trades l)) (equity l) sg en ex price (trades l ! i)"
    using assms(4) unfolding follow_rules_def r(4) by blast
  have "0 < rows ?e"
  proof (rule ccontr)
    assume "\<not> 0 < rows ?e"
    then have "loop_run ?e = Inr loop_init"
      using wf_envD(5)[OF r(2)] by (simp add: loop_run_def run_init_def finish_def loop_init_def)
    then show False using r(3,4) assms(4) by (simp add: loop_init_def)
  qed
  then have "ex < length (c_ts c)" using t(1) unfolding last_row_def loop_env_sel by linarith
  then show ?thesis using that r t(2) trade_rulesD(1,2)[OF t(2)] by metis
qed

lemma backtest_trades:
  assumes "backtest f s = Inr r" "wf_frame f" "wf_settings s" "t \<in> set (res_trades r)"
  obtains c before sg en ex price where "wf_env (loop_env c s)" "en \<le> ex" "ex < length (c_ts c)"
    "trade_rules (loop_env c s) before (res_equity r) sg en ex price t"
proof -
  from assms(4) obtain i where "i < length (res_trades r)" "t = res_trades r ! i"
    by (auto simp: in_set_conv_nth)
  then show ?thesis using that by (metis backtest_trades_nth[OF assms(1-3)])
qed


text \<open>The costs of a trade are not gains and add up: its fees and slippage cost are not negative,
  and its return plus both is the price change between the two fills, slippage left out.\<close>

theorem backtest_trade_costs:
  assumes "backtest f s = Inr r" "wf_frame f" "wf_settings s" "t \<in> set (res_trades r)"
    and "st_slippage_bps s < 10000"
  shows "\<exists>entry exit. 0 < entry \<and>
    t_return t + t_fees t + t_slippage_cost t = of_int (t_side t) * (exit / entry - 1) \<and>
    (0 < exit \<longrightarrow> 0 \<le> t_fees t \<and> 0 \<le> t_slippage_cost t)"
proof -
  obtain c before sg en ex price where t: "wf_env (loop_env c s)" "en \<le> ex" "ex < length (c_ts c)"
      "trade_rules (loop_env c s) before (res_equity r) sg en ex price t"
    by (rule backtest_trades[OF assms(1-4)])
  let ?e = "loop_env c s" let ?sd = "of_int (t_side t) :: real"
  define q where "q = fill_price ?e en"
  define k where "k = e_slippage ?e"
  have k: "0 \<le> k" "k < 1" using wf_envD(13)[OF t(1)] assms(5) by (simp_all add: k_def)
  have q: "0 < q" using fill_price_pos[OF t(1), of en] t(2,3) by (simp add: q_def)
  have tr: "t_side t \<in> {-1, 1}" "t_open_price t = q * (1 + ?sd * k)" "t_close_price t = price * (1 - ?sd * k)"
    "t_fees t = e_fee ?e * (1 + t_close_price t / t_open_price t)"
    "t_return t = ?sd * (t_close_price t / t_open_price t - 1) - t_fees t"
    "t_slippage_cost t = ?sd * (price / q - t_close_price t / t_open_price t)"
    using trade_rulesD[OF t(4)] unfolding q_def k_def by blast+
  note side = slipped_pos[OF tr(1) k]
  have sum: "t_return t + t_fees t + t_slippage_cost t = ?sd * (price / q - 1)"
    unfolding tr(5,6) by (simp add: algebra_simps)
  have "0 \<le> t_fees t \<and> 0 \<le> t_slippage_cost t" if "0 < price"
  proof
    have open_pos: "0 < t_open_price t" "0 < t_close_price t" using tr(2,3) q side that by auto
    have "0 \<le> t_close_price t / t_open_price t" using open_pos by simp
    then show "0 \<le> t_fees t"
      unfolding tr(4) using wf_envD(12)[OF t(1)] by (intro mult_nonneg_nonneg) simp_all
    have "price / q - t_close_price t / t_open_price t = (price / q) * (1 - (1 - ?sd * k) / (1 + ?sd * k))"
      unfolding tr(2,3) by (simp only: right_diff_distrib[of "price / q"] times_divide_times_eq mult_1_right)
    also have "1 - (1 - ?sd * k) / (1 + ?sd * k) = 2 * ?sd * k / (1 + ?sd * k)"
      using side by (simp add: field_simps)
    finally have "t_slippage_cost t = (price / q) * (2 * (?sd * ?sd) * k / (1 + ?sd * k))"
      unfolding tr(6) by simp
    moreover have "?sd * ?sd = 1" using tr(1) by auto
    ultimately show "0 \<le> t_slippage_cost t" using q side that k by simp
  qed
  then show ?thesis using q sum by blast
qed

text \<open>A position its stop closes at the stop level, with no slippage, loses the stop loss and the
  fees of its two legs, neither more nor less.\<close>

theorem backtest_stop_loss:
  assumes "backtest f s = Inr r" "wf_frame f" "wf_settings s" "t \<in> set (res_trades r)"
    and "t_reason t = RStop" "st_slippage_bps s = 0"
  shows "\<exists>x. st_stop_loss s = Some x \<and> t_return t = - x - t_fees t \<and>
    t_stop_price t = Some (t_close_price t)"
proof -
  obtain c before sg en ex price where t: "wf_env (loop_env c s)" "en \<le> ex" "ex < length (c_ts c)"
      "trade_rules (loop_env c s) before (res_equity r) sg en ex price t"
    by (rule backtest_trades[OF assms(1-4)])
  have q: "0 < fill_price (loop_env c s) en" using fill_price_pos[OF t(1), of en] t(2,3) by simp
  have tr: "t_side t \<in> {-1, 1}" "t_open_price t = fill_price (loop_env c s) en" "t_close_price t = price"
    "t_stop_price t = Some price"
    "t_stop_price t = map_option (\<lambda>x. t_open_price t * (1 - of_int (t_side t) * x)) (st_stop_loss s)"
    "t_return t = of_int (t_side t) * (t_close_price t / t_open_price t - 1) - t_fees t"
    using trade_rulesD[OF t(4)] trade_rules_stop[OF t(4) assms(5)] assms(6) by simp_all
  then obtain x where x: "st_stop_loss s = Some x" "price = t_open_price t * (1 - of_int (t_side t) * x)"
    by auto
  have "t_close_price t / t_open_price t = 1 - of_int (t_side t) * x" using tr(2,3) x(2) q by simp
  then have "t_return t = - x - t_fees t" using tr(1,6) by auto
  then show ?thesis using x(1) tr(3,4) by simp
qed

text \<open>C7: the trades are reported in order and never overlap: each opens no earlier than the one before
  it closed, for every run whose timestamps lie less than 2^63 apart, so that the check of their
  order does not wrap around.\<close>

theorem backtest_trades_in_order:
  assumes "backtest f s = Inr r" "wf_frame f" "wf_settings s" "in_span (res_ts r)"
  shows "sorted_wrt (\<lambda>a b. t_close_ts a \<le> t_open_ts b) (res_trades r)"
proof -
  obtain c l where r: "wf_env (loop_env c s)" "loop_run (loop_env c s) = Inr l" "res_trades r = trades l"
      "res_ts r = c_ts c"
    by (rule backtestE[OF assms(1-3)]) blast
  have "rising64 (c_ts c)" using wf_envD(11)[OF r(1)] by simp
  then have "sorted_wrt (<) (c_ts c)" using rising64_iff assms(4) unfolding r(4) by blast
  show ?thesis
  proof (cases "rows (loop_env c s) = 0")
    case True
    then have "loop_run (loop_env c s) = Inr loop_init"
      using wf_envD(5)[OF r(1)] by (simp add: loop_run_def run_init_def finish_def loop_init_def)
    then show ?thesis using r(2,3) by (simp add: loop_init_def)
  next
    case False
    then have "last_row (loop_env c s) < rows (loop_env c s)" by (simp add: last_row_def)
    then show ?thesis using order.in_result[OF r(2,1)] r(3) \<open>sorted_wrt (<) (c_ts c)\<close> by (simp add: in_order_def)
  qed
qed

section \<open>No look-ahead\<close>

text \<open>C1: nothing a run reports about its first \<open>n\<close> candles depends on the candles after them: two
  runs with the same settings over candles that agree on the first \<open>n\<close> rows, each with more rows
  after, report the same positions and equity for them and the same trades closed before row \<open>n\<close>,
  that is before a time \<open>T\<close> no later than the candles from row \<open>n\<close> on.\<close>

theorem backtest_no_look_ahead:
  assumes "backtest f s = Inr r" "backtest g s = Inr q" "wf_frame f" "wf_frame g" "wf_settings s"
    and "read_input_frame f = Inr c" "read_input_frame g = Inr d" "same_candles n c d"
    and "\<forall>t \<in> set (drop n (c_ts c)). T \<le> t" "\<forall>t \<in> set (drop n (c_ts d)). T \<le> t"
  shows "take n (res_position r) = take n (res_position q) \<and>
    take n (res_equity r) = take n (res_equity q) \<and>
    filter (\<lambda>t. t_close_ts t < T) (res_trades r) = filter (\<lambda>t. t_close_ts t < T) (res_trades q)"
proof -
  obtain l where r: "wf_env (loop_env c s)" "loop_run (loop_env c s) = Inr l" "res_trades r = trades l"
      "res_position r = position l" "res_equity r = equity l"
    by (rule backtestE[OF assms(1,3,5)]) (use assms(6) in auto)
  obtain m where q: "wf_env (loop_env d s)" "loop_run (loop_env d s) = Inr m" "res_trades q = trades m"
      "res_position q = position m" "res_equity q = equity m"
    by (rule backtestE[OF assms(2,4,5)]) (use assms(7) in auto)
  have "same_past n (loop_env c s) (loop_env d s)"
    using r(1) q(1) assms(8) by (simp add: same_past_def)
  from loop_run_causal[OF this r(2) q(2), of T] show ?thesis
    using assms(9,10) unfolding r(3-5) q(3-5) by simp
qed

section \<open>Only a change of the signal trades\<close>

lemma iterate_constant:
  "set ss \<subseteq> {v} \<Longrightarrow> r_previous st = v \<Longrightarrow> r_pending st = None \<Longrightarrow> wf_env e \<Longrightarrow>
   r_loop st = loop_init\<lparr>position := replicate r 0, equity := replicate r 1\<rparr> \<Longrightarrow>
   \<exists>st'. iterate e r ss st = Inr st' \<and>
     r_loop st' = loop_init\<lparr>position := replicate (r + length ss) 0, equity := replicate (r + length ss) 1\<rparr>"
proof (induction ss arbitrary: r st)
  case Nil
  then show ?case by simp
next
  case (Cons s ss)
  have s: "s = v" "set ss \<subseteq> {v}" using Cons.prems(1) by auto
  let ?l = "loop_init\<lparr>position := replicate (Suc r) 0, equity := replicate (Suc r) 1\<rparr>"
  have "\<not> drawn_down e l q" if "peak l = 1" "q = 1" for l q
    using wf_env_drawdown_stop[OF Cons.prems(4)] that by (auto simp: drawn_down_def split: option.split)
  then have "iteration e r s st = Inr \<lparr>r_loop = ?l, r_pending = None, r_previous = v\<rparr>"
    using Cons.prems(2,3,5) s(1)
    by (simp add: iteration_def fill_pending_def loop_init_def mark_def record_row_def
        check_drawdown_def replicate_append_same nth_append flip: replicate_Suc)
  then show ?case
    using Cons.IH[OF s(2), of "\<lparr>r_loop = ?l, r_pending = None, r_previous = v\<rparr>" "Suc r"] Cons.prems(4)
    by simp
qed

text \<open>Rule 1: only a change of the signal trades. A run over candles that all carry the same signal,
  long or short, has no trades, no position and an equity of 1 throughout.\<close>

theorem constant_signal_never_trades:
  assumes "read_input_frame f = Inr c" "wf_frame f" "wf_settings s" "set (c_signals c) \<subseteq> {v}"
  shows "\<exists>r. backtest f s = Inr r \<and> res_trades r = [] \<and>
    res_position r = replicate (length (c_ts c)) 0 \<and> res_equity r = replicate (length (c_ts c)) 1"
proof -
  let ?e = "loop_env c s"
  have wf: "wf_env ?e" using loop_env_wf[OF read_input_frame_wf[OF assms(1,2)] assms(3)] .
  have len: "length (c_signals c) = length (c_ts c)" using wf_envD(5)[OF wf] by simp
  have "\<exists>st. iterate ?e 0 (c_signals c) (run_init ?e) = Inr st \<and> r_loop st =
      loop_init\<lparr>position := replicate (length (c_ts c)) 0, equity := replicate (length (c_ts c)) 1\<rparr>"
  proof (cases "c_signals c")
    case Nil
    then show ?thesis using len by (simp add: run_init_def loop_init_def)
  next
    case (Cons x xs)
    then have "x = v" using assms(4) by simp
    then have init: "r_previous (run_init ?e) = v" "r_pending (run_init ?e) = None"
        "r_loop (run_init ?e) = loop_init\<lparr>position := replicate 0 0, equity := replicate 0 1\<rparr>"
      using Cons by (simp_all add: run_init_def loop_init_def)
    from iterate_constant[OF assms(4) init(1,2) wf init(3)] show ?thesis
      unfolding len add_0 .
  qed
  then obtain st where "iterate ?e 0 (c_signals c) (run_init ?e) = Inr st" "r_loop st =
      loop_init\<lparr>position := replicate (length (c_ts c)) 0, equity := replicate (length (c_ts c)) 1\<rparr>"
    by blast
  then have "loop_run ?e = Inr (loop_init\<lparr>position := replicate (length (c_ts c)) 0,
      equity := replicate (length (c_ts c)) 1\<rparr>)"
    by (simp add: loop_run_def finish_def loop_init_def)
  then show ?thesis using assms(1) by (simp add: backtest_def loop_init_def)
qed

section \<open>Examples\<close>

text \<open>Four candles on which every theorem above has something to say: with a signal that turns long
  on the second one, the position enters at the open of the third, falls to its stop within it and
  takes the equity through the drawdown stop.\<close>

definition example_frame :: "int list \<Rightarrow> int list \<Rightarrow> frame" where
  "example_frame closes signals = (let series = (\<lambda>xs. \<lparr>s_dtype = DInt 64 True, s_cells = map VInt xs\<rparr>)
     in [(''ts'', series [0, 60, 120, 180]), (''open'', series [100, 100, 100, 90]),
         (''high'', series [100, 100, 110, 90]), (''low'', series [100, 100, 40, 90]),
         (''close'', series closes), (''signal'', series signals)])"

definition example_candles :: "real list \<Rightarrow> int list \<Rightarrow> candles" where
  "example_candles closes signals = \<lparr>c_ts = [0, 60, 120, 180], c_opens = [100, 100, 100, 90],
     c_highs = [100, 100, 110, 90], c_lows = [100, 100, 40, 90], c_closes = closes,
     c_signals = signals\<rparr>"

definition example_settings :: settings where
  "example_settings = \<lparr>st_fill = NextOpen, st_stop_loss = Some (1 / 2),
     st_drawdown_stop = Some (1 / 5), st_fee_bps = 0, st_slippage_bps = 0\<rparr>"

definition example_trade :: trade where
  "example_trade = \<lparr>t_signal_ts = 60, t_open_ts = 120, t_close_ts = 120, t_side = 1,
     t_open_price = 100, t_close_price = 50, t_stop_price = Some 50, t_reason = RStop,
     t_return = - (1 / 2), t_fees = 0, t_slippage_cost = 0\<rparr>"

definition example_result :: result where
  "example_result = \<lparr>res_trades = [example_trade], res_ts = [0, 60, 120, 180],
     res_signal = [0, 1, 1, 1], res_position = [0, 0, 0, 0], res_equity = [1, 1, 1 / 2, 1 / 2],
     res_version = ''0.3.0''\<rparr>"

abbreviation "example \<equiv> example_frame [100, 100, 80, 90] [0, 1, 1, 1]"

lemma example_read: "read_input_frame example = Inr (example_candles [100, 100, 80, 90] [0, 1, 1, 1])"
  by code_simp

lemma example_other_read:
  "read_input_frame (example_frame [100, 100, 80, 95] [0, 1, 1, -1]) =
     Inr (example_candles [100, 100, 80, 95] [0, 1, 1, -1])"
  by code_simp

lemma example_short_read:
  "read_input_frame (example_frame [100, 100, 80, 90] [0, -1, -1, 0]) =
     Inr (example_candles [100, 100, 80, 90] [0, -1, -1, 0])"
  by code_simp

lemma example_constant_read:
  "read_input_frame (example_frame [100, 100, 80, 90] [1, 1, 1, 1]) =
     Inr (example_candles [100, 100, 80, 90] [1, 1, 1, 1])"
  by code_simp

lemma example_run: "backtest example example_settings = Inr example_result"
  by code_simp

lemma example_rising: "rising64 [0, 60, 120, 180]"
  by (subst rising64_iff) (simp_all add: in_span_def)

lemma example_wf: "wf_frame (example_frame [a, b, c, d] [x, y, z, w])"
  by (simp add: wf_frame_def example_frame_def columns_def height_def Let_def)

lemma example_settings_wf: "wf_settings example_settings"
  by (simp add: wf_settings_def example_settings_def)

lemma example_good: "good_frame example"
  using read_accepts_contract_aux[OF example_wf] example_read by blast

lemma example_result_sel [simp]:
  "res_trades example_result = [example_trade]" "res_equity example_result = [1, 1, 1 / 2, 1 / 2]"
  "res_position example_result = [0, 0, 0, 0]" "res_ts example_result = [0, 60, 120, 180]"
  "t_reason example_trade = RStop" "st_slippage_bps example_settings = 0"
  "st_drawdown_stop example_settings = Some (1 / 5)"
  by (simp_all add: example_result_def example_trade_def example_settings_def)

lemmas example_facts = example_run example_wf example_settings_wf

theorem read_accepts_contract_witness:
  "wf_frame example \<and> in_span (frame_times example) \<and>
   ((\<exists>c. read_input_frame example = Inr c) \<longleftrightarrow> contract (sorted_wrt (<)) example)"
proof -
  have "frame_times example = [0, 60, 120, 180]" by code_simp
  then have "in_span (frame_times example)" by (simp add: in_span_def)
  then show ?thesis using read_accepts_contract[OF example_wf] example_wf by blast
qed

theorem backtest_returns_witness:
  "good_frame example \<and> (\<exists>r. backtest example example_settings = Inr r)"
  using backtest_returns[OF example_wf example_good example_settings_wf] example_good by simp

theorem full_slippage_short_raises_witness:
  "backtest (example_frame [100, 100, 80, 90] [0, -1, -1, 0])
     \<lparr>st_fill = SignalClose, st_stop_loss = None, st_drawdown_stop = None, st_fee_bps = 0,
      st_slippage_bps = 10000\<rparr> = Inl (PyRaised ZeroDivisionError)"
  by (rule full_slippage_short_raises[OF example_short_read])
    (simp_all add: example_candles_def wf_candles_def wf_settings_def example_rising)

theorem backtest_series_witness:
  "backtest example example_settings = Inr example_result \<and>
   length (res_equity example_result) = 4 \<and> last (res_equity example_result) = ledger [example_trade]"
  using backtest_series[OF example_facts] example_run by simp

theorem stopped_run_stays_flat_witness:
  "res_position example_result ! 3 = 0 \<and> res_equity example_result ! 3 = res_equity example_result ! 2"
  using stopped_run_stays_flat[OF example_facts, of 2 3] by (simp add: peak_of_def)


theorem backtest_trade_costs_witness:
  "\<exists>entry exit. 0 < entry \<and> t_return example_trade + t_fees example_trade +
    t_slippage_cost example_trade = of_int (t_side example_trade) * (exit / entry - 1)"
  using backtest_trade_costs[OF example_facts, of example_trade] by auto

theorem backtest_stop_loss_witness:
  "\<exists>x. st_stop_loss example_settings = Some x \<and> t_return example_trade = - x - t_fees example_trade"
  using backtest_stop_loss[OF example_facts, of example_trade] by auto

theorem backtest_trades_in_order_witness:
  "sorted_wrt (\<lambda>a b. t_close_ts a \<le> t_open_ts b) (res_trades example_result)"
  by (rule backtest_trades_in_order[OF example_facts]) (simp add: in_span_def)

theorem backtest_no_look_ahead_witness:
  "\<exists>q. backtest (example_frame [100, 100, 80, 95] [0, 1, 1, -1]) example_settings = Inr q \<and>
     take 3 (res_equity example_result) = take 3 (res_equity q)"
proof -
  have "good_frame (example_frame [100, 100, 80, 95] [0, 1, 1, -1])"
    using read_accepts_contract_aux[OF example_wf] example_other_read by blast
  then obtain q where q: "backtest (example_frame [100, 100, 80, 95] [0, 1, 1, -1]) example_settings = Inr q"
    using example_settings_wf read_accepts_contract_aux[OF example_wf] example_other_read loop_run_total
      loop_env_wf[OF read_input_frame_wf[OF example_other_read example_wf]]
    by (fastforce simp: backtest_def safe_env_def)
  have "take 3 (res_equity example_result) = take 3 (res_equity q)"
    using backtest_no_look_ahead[OF example_run q example_wf example_wf example_settings_wf
        example_read example_other_read, of 3 180]
    by (simp add: same_candles_def example_candles_def eval_nat_numeral)
  then show ?thesis using q by blast
qed

theorem constant_signal_never_trades_witness:
  "\<exists>r. backtest (example_frame [100, 100, 80, 90] [1, 1, 1, 1]) example_settings = Inr r \<and>
     res_trades r = []"
  using constant_signal_never_trades[OF example_constant_read example_wf example_settings_wf, of 1]
  by (auto simp: example_candles_def)

end
