(* ===== verification/SignalRules.thy ===== *)
theory SignalRules
  imports Frames
begin

text \<open>
  \<open>signals/rules.py\<close>, \<open>signals/filters.py\<close> and \<open>signals/holding.py\<close>: the rules that turn predictions
  into a signal and the filters before and after them. Every function checks its arguments and its
  series (\<open>float64\<close>) and then makes one pass forward over the values: the pass is the definition
  with the suffix \<open>_run\<close>, a \<open>map\<close> or a \<open>scan\<close>, and so it is causal.
\<close>

section \<open>Arguments, errors and series\<close>

text \<open>An argument that must be an int: Python also accepts a bool or a float there.\<close>

datatype pyint = PyInt int | PyOther

datatype signal_error =
    BadLimit fl
  | BadLimits fl fl
  | NotNumbers string dtype
  | MissingOrNaN string
  | InfinitePrediction
  | NotAnInt string
  | OutOfRange string int
  | MissingArgument string
  | Overflows \<comment> \<open>an \<open>OverflowError\<close>, which is no \<open>ValueError\<close>\<close>

text \<open>The smallest magnitude that rounds past the largest float: an int from here on has no float, and
  \<open>math.fsum\<close> raises when a sum gets there. Other float arithmetic is that of exact reals.\<close>

definition FLOAT_LIMIT :: int where "FLOAT_LIMIT = 2 ^ 1024 - 2 ^ 970"

definition float_series :: "fl list \<Rightarrow> series" where
  "float_series xs = \<lparr>s_dtype = DFloat 64, s_cells = map VFlt xs\<rparr>"

definition take_series :: "nat \<Rightarrow> series \<Rightarrow> series" where
  "take_series n s = s\<lparr>s_cells := take n (s_cells s)\<rparr>"

definition missing_or_nan :: "fl option \<Rightarrow> bool" where
  "missing_or_nan v = (v = None \<or> v = Some NaN)"

definition number_of :: "fl option \<Rightarrow> fl" where
  "number_of v = (case v of Some x \<Rightarrow> x | None \<Rightarrow> NaN)"

definition float64 :: "string \<Rightarrow> string \<Rightarrow> series \<Rightarrow> signal_error + fl list" where
  "float64 plural singular s =
     (if \<not> is_numeric (s_dtype s) then Inl (NotNumbers plural (s_dtype s))
      else let floats = cast_float64 (s_cells s)
           in if list_ex missing_or_nan floats then Inl (MissingOrNaN singular)
              else Inr (map number_of floats))"

abbreviation predictions_of :: "series \<Rightarrow> signal_error + fl list" where
  "predictions_of \<equiv> float64 ''predictions'' ''prediction''"

abbreviation signal_values_of :: "series \<Rightarrow> signal_error + fl list" where
  "signal_values_of \<equiv> float64 ''signal values'' ''signal value''"

definition check_count :: "string \<Rightarrow> pyint \<Rightarrow> signal_error + int" where
  "check_count name v = (case v of
      PyOther \<Rightarrow> Inl (NotAnInt name)
    | PyInt i \<Rightarrow> if i < 1 then Inl (OutOfRange name i) else Inr i)"

lemma float64_length: "float64 pl sg s = Inr xs \<Longrightarrow> length xs = length (s_cells s)"
  by (auto simp: float64_def Let_def split: if_splits)

lemma float64_no_nan: "float64 pl sg s = Inr xs \<Longrightarrow> NaN \<notin> set xs"
  by (force simp: float64_def Let_def list_ex_iff missing_or_nan_def number_of_def
      split: if_splits option.splits)

lemma float64_take: "float64 pl sg s = Inr xs \<Longrightarrow> float64 pl sg (take_series n s) = Inr (take n xs)"
  by (auto simp: float64_def Let_def take_series_def cast_float64_def take_map list_ex_iff
      split: if_splits dest: in_set_takeD)

lemma float64_float_series: "NaN \<notin> set xs \<Longrightarrow> float64 pl sg (float_series xs) = Inr xs"
  by (auto simp: float64_def float_series_def is_numeric_def cast_float64_def list_ex_iff
      missing_or_nan_def number_of_def intro!: map_idI)

lemma take_float_series: "take_series n (float_series xs) = float_series (take n xs)"
  by (simp add: take_series_def float_series_def take_map)

lemma float_series_eq [simp]: "float_series xs = float_series ys \<longleftrightarrow> xs = ys"
  by (auto simp: float_series_def inj_def dest: map_injective)

section \<open>Rules\<close>

definition threshold_value :: "fl \<Rightarrow> fl \<Rightarrow> fl" where
  "threshold_value limit v =
     (if v > Fin 0 \<and> v \<ge> limit then Fin 1
      else if v < Fin 0 \<and> v \<le> fl_neg limit then Fin (-1) else Fin 0)"

definition threshold_run :: "fl \<Rightarrow> fl list \<Rightarrow> fl list" where
  "threshold_run limit = map (threshold_value limit)"

definition threshold :: "series \<Rightarrow> fl \<Rightarrow> signal_error + series" where
  "threshold predictions limit =
     bind_res (raise_if (limit = NaN \<or> limit < Fin 0) (BadLimit limit)) (\<lambda>_.
     bind_res (predictions_of predictions) (\<lambda>p. Inr (float_series (threshold_run limit p))))"

definition long_only_run :: "fl list \<Rightarrow> fl list" where
  "long_only_run = map (\<lambda>v. if v > Fin 0 then v else Fin 0)"

definition long_only :: "series \<Rightarrow> signal_error + series" where
  "long_only signal =
     bind_res (signal_values_of signal) (\<lambda>p. Inr (float_series (long_only_run p)))"

section \<open>Filters\<close>

definition ema_step :: "real \<Rightarrow> real option \<Rightarrow> fl \<Rightarrow> real option \<times> fl" where
  "ema_step alpha average value =
     (let a = (case average of None \<Rightarrow> fin_val value
               | Some e \<Rightarrow> alpha * fin_val value + (1 - alpha) * e)
      in (Some a, Fin a))"

definition ema_run :: "int \<Rightarrow> fl list \<Rightarrow> fl list" where
  "ema_run n = scan (ema_step (2 / (of_int n + 1))) None"

definition ema :: "series \<Rightarrow> pyint \<Rightarrow> signal_error + series" where
  "ema predictions n =
     bind_res (check_count ''span'' n) (\<lambda>n.
     bind_res (predictions_of predictions) (\<lambda>p.
     bind_res (raise_if (list_ex is_infinite p) InfinitePrediction) (\<lambda>_.
     Inr (float_series (ema_run n p)))))"

definition hysteresis_step :: "real \<Rightarrow> real \<Rightarrow> real \<Rightarrow> fl \<Rightarrow> real \<times> fl" where
  "hysteresis_step enter exit state value =
     (let long_limit = (if state > 0 then exit else enter);
          short_limit = (if state < 0 then exit else enter);
          next = (if value > Fin 0 \<and> value \<ge> Fin long_limit then 1
                  else if value < Fin 0 \<and> value \<le> Fin (- short_limit) then -1 else 0)
      in (next, Fin next))"

definition hysteresis_run :: "real \<Rightarrow> real \<Rightarrow> fl list \<Rightarrow> fl list" where
  "hysteresis_run enter exit = scan (hysteresis_step enter exit) 0"

definition hysteresis :: "series \<Rightarrow> fl \<Rightarrow> fl \<Rightarrow> signal_error + series" where
  "hysteresis predictions enter exit =
     bind_res (raise_if (\<not> (is_finite enter \<and> is_finite exit \<and> Fin 0 \<le> exit \<and> exit \<le> enter))
       (BadLimits enter exit)) (\<lambda>_.
     bind_res (predictions_of predictions) (\<lambda>p.
     Inr (float_series (hysteresis_run (fin_val enter) (fin_val exit) p))))"

record confirm_state =
  cs_counted :: "fl option"
  cs_previous :: "fl option"
  cs_held :: int

definition confirm_step :: "int \<Rightarrow> confirm_state \<Rightarrow> fl \<Rightarrow> confirm_state \<times> fl" where
  "confirm_step candles s value =
     (let held = (if cs_previous s = Some value then cs_held s + 1 else 1);
          counted = (case cs_counted s of
              None \<Rightarrow> value | Some c \<Rightarrow> if held \<ge> candles then value else c)
      in (\<lparr>cs_counted = Some counted, cs_previous = Some value, cs_held = held\<rparr>, counted))"

definition confirm_run :: "int \<Rightarrow> fl list \<Rightarrow> fl list" where
  "confirm_run candles =
     scan (confirm_step candles) \<lparr>cs_counted = None, cs_previous = None, cs_held = 0\<rparr>"

definition confirm :: "series \<Rightarrow> pyint \<Rightarrow> signal_error + series" where
  "confirm signal candles =
     bind_res (check_count ''candles'' candles) (\<lambda>candles.
     bind_res (signal_values_of signal) (\<lambda>p. Inr (float_series (confirm_run candles p))))"

section \<open>Holding\<close>

record hold_state =
  hs_row :: int
  hs_previous :: fl
  hs_until :: int

definition min_hold_step :: "int \<Rightarrow> hold_state \<Rightarrow> fl \<Rightarrow> hold_state \<times> fl" where
  "min_hold_step candles s value =
     (let row = hs_row s
      in if row < hs_until s then
           (\<lparr>hs_row = row + 1, hs_previous = hs_previous s, hs_until = hs_until s\<rparr>, hs_previous s)
         else
           (\<lparr>hs_row = row + 1, hs_previous = value,
             hs_until = (if row \<noteq> 0 \<and> value \<noteq> Fin 0 \<and> value \<noteq> hs_previous s then row + candles
                         else hs_until s)\<rparr>, value))"

definition min_hold_run :: "int \<Rightarrow> fl list \<Rightarrow> fl list" where
  "min_hold_run candles = scan (min_hold_step candles)
     \<lparr>hs_row = 0, hs_previous = Fin 0, hs_until = 0\<rparr>"

definition min_hold :: "series \<Rightarrow> pyint \<Rightarrow> signal_error + series" where
  "min_hold signal candles =
     bind_res (check_count ''candles'' candles) (\<lambda>candles.
     bind_res (signal_values_of signal) (\<lambda>p. Inr (float_series (min_hold_run candles p))))"

section \<open>Every pass is causal\<close>

interpretation threshold: causal "threshold_run limit" for limit
  unfolding threshold_run_def by (rule causal_map)

interpretation long_only: causal long_only_run
  unfolding long_only_run_def by (rule causal_map)

interpretation ema: causal "ema_run n" for n
  unfolding ema_run_def by (rule causal_scan)

interpretation hysteresis: causal "hysteresis_run enter exit" for enter exit
  unfolding hysteresis_run_def by (rule causal_scan)

interpretation confirm: causal "confirm_run candles" for candles
  unfolding confirm_run_def by (rule causal_scan)

interpretation min_hold: causal "min_hold_run candles" for candles
  unfolding min_hold_run_def by (rule causal_scan)

end
