(* ===== verification/SignalAlignment.thy ===== *)
theory SignalAlignment
  imports SignalRules
begin

text \<open>
  \<open>signals/alignment.py\<close>: predictions next to their candles. \<open>relabel\<close> moves close-time labels to
  open-time labels; \<open>align\<close> joins the predictions of one model with the candles on \<open>ts\<close> and repeats
  the last prediction over gaps. The joins run on the row numbers of the candles (\<open>align_rows\<close>), so
  every other column of the frame is carried along unread.
\<close>

section \<open>Errors and reports\<close>

datatype frame_name = TheFrame | TheCandles | ThePredictions

datatype align_error =
    MissingColumns "string list" frame_name
  | NotIntegerSeconds string frame_name dtype
  | HasMissing string frame_name
  | BeyondInt64 string frame_name int
  | RepeatedTs frame_name int
  | TimeframeNotInt
  | TimeframeNotPositive int
  | MovedBeyondInt64 string int
  | HasPrediction
  | ModelNotText dtype
  | SeveralModels nat
  | NoPredictions
  | BadPrediction nat int
  | PredictionWithoutCandle nat int
  | NothingAligned
  | CandleWithoutPrediction nat int

record align_report =
  predictions_without_candle :: nat
  candles_without_prediction :: nat

section \<open>Checks of a frame\<close>

definition require_columns :: "frame \<Rightarrow> string list \<Rightarrow> frame_name \<Rightarrow> align_error + unit" where
  "require_columns f names what =
     (let missing = filter (\<lambda>c. c \<notin> set (columns f)) names
      in raise_if (missing \<noteq> []) (MissingColumns missing what))"

text \<open>What passes is cast to Int64 without a failure: the check bounds the values from above, and no
  integer type of a Parquet file goes below the Int64 range.\<close>

definition check_ts :: "frame \<Rightarrow> string \<Rightarrow> frame_name \<Rightarrow> align_error + unit" where
  "check_ts f name what =
     bind_res (require_columns f [name] what) (\<lambda>_.
     (let s = the_column f name; highest = Max (set (int_values f name))
      in bind_res (raise_if (\<not> is_integer (s_dtype s)) (NotIntegerSeconds name what (s_dtype s))) (\<lambda>_.
         bind_res (raise_if (Null \<in> set (s_cells s)) (HasMissing name what)) (\<lambda>_.
         raise_if (s_cells s \<noteq> [] \<and> highest > int64_max) (BeyondInt64 name what highest)))))"

text \<open>The frame sorted by \<open>ts\<close> as Int64, every \<open>ts\<close> once.\<close>

definition unique_ts :: "frame \<Rightarrow> frame_name \<Rightarrow> align_error + frame" where
  "unique_ts f what =
     bind_res (check_ts f ''ts'' what) (\<lambda>_.
     (let ts = int_values f ''ts'';
          rows = sorted_rows ts;
          sorted_ts = pick ts rows;
          repeated = filter (\<lambda>t. 1 < length (filter ((=) t) sorted_ts)) sorted_ts
      in bind_res (raise_if (repeated \<noteq> []) (RepeatedTs what (hd repeated))) (\<lambda>_.
         Inr (pick_rows rows (with_column ''ts'' (int64_series ts) f)))))"

section \<open>Open-time labels\<close>

definition relabel :: "frame \<Rightarrow> pyint \<Rightarrow> string \<Rightarrow> align_error + frame" where
  "relabel f timeframe name =
     bind_res (check_ts f name TheFrame) (\<lambda>_.
     (case timeframe of
       PyOther \<Rightarrow> Inl TimeframeNotInt
     | PyInt tf \<Rightarrow>
         (let ts = int_values f name; lowest = Min (set ts)
          in bind_res (raise_if (tf \<le> 0) (TimeframeNotPositive tf)) (\<lambda>_.
             bind_res (raise_if (ts \<noteq> [] \<and> lowest - tf < int64_min) (MovedBeyondInt64 name lowest))
               (\<lambda>_. Inr (with_column name (int64_series (map (\<lambda>t. t - tf) ts)) f))))))"

section \<open>The predictions of one model\<close>

text \<open>\<open>ts\<close> and \<open>prediction\<close>, selected; \<open>rows\<close> are the rows of the model asked for.\<close>

definition select_predictions :: "nat list \<Rightarrow> frame \<Rightarrow> frame" where
  "select_predictions rows f = pick_rows rows
     [(''ts'', the_column f ''ts''), (''prediction'', the_column f ''prediction'')]"

definition model_predictions :: "frame \<Rightarrow> string option \<Rightarrow> align_error + frame" where
  "model_predictions f model =
     bind_res (require_columns f [''ts'', ''prediction''] ThePredictions) (\<lambda>_.
     bind_res
       (case model of
          Some m \<Rightarrow>
            bind_res (require_columns f [''model''] ThePredictions) (\<lambda>_.
            (let s = the_column f ''model''
             in if is_text (s_dtype s)
                then Inr (filter (\<lambda>i. s_cells s ! i = VStr m) [0..<height f])
                else Inl (ModelNotText (s_dtype s))))
        | None \<Rightarrow>
            (let models = length (remdups (s_cells (the_column f ''model'')))
             in if ''model'' \<in> set (columns f) \<and> 1 < models then Inl (SeveralModels models)
                else Inr [0..<height f]))
       (\<lambda>rows. if rows = [] then Inl NoPredictions else Inr (select_predictions rows f)))"

definition bad_prediction :: "dtype \<Rightarrow> cell \<Rightarrow> bool" where
  "bad_prediction d c = (c = Null \<or> (is_float d \<and> c = VFlt NaN))"

text \<open>The checked predictions as pairs of \<open>ts\<close> and value, in the order of \<open>ts\<close>.\<close>

definition numbers :: "frame \<Rightarrow> align_error + (int \<times> cell) list" where
  "numbers f =
     (let s = the_column f ''prediction'';
          own = zip (int_values f ''ts'') (s_cells s);
          refused = filter (\<lambda>(_, c). bad_prediction (s_dtype s) c) own
      in if refused \<noteq> [] then Inl (BadPrediction (length refused) (fst (hd refused))) else Inr own)"

definition own_predictions :: "frame \<Rightarrow> string option \<Rightarrow> align_error + (int \<times> cell) list" where
  "own_predictions f model =
     bind_res (model_predictions f model) (\<lambda>own.
     bind_res (unique_ts own ThePredictions) numbers)"

section \<open>The join\<close>

definition fill_step :: "cell \<Rightarrow> cell option \<Rightarrow> cell \<times> cell" where
  "fill_step prev v = (case v of Some c \<Rightarrow> (c, c) | None \<Rightarrow> (prev, prev))"

text \<open>\<open>forward_fill\<close>: a missing value repeats the one before it.\<close>

definition forward_fill :: "cell option list \<Rightarrow> cell list" where
  "forward_fill = scan fill_step Null"

definition align_rows :: "int list \<Rightarrow> (int \<times> cell) list \<Rightarrow> bool \<Rightarrow>
    align_error + (nat list \<times> cell list \<times> align_report)" where
  "align_rows candle_ts own strict =
     (let landed = filter (\<lambda>(t, _). t \<in> set candle_ts) own;
          without = filter (\<lambda>(t, _). t \<notin> set candle_ts) own
      in if strict \<and> without \<noteq> []
         then Inl (PredictionWithoutCandle (length without) (Min (fst ` set without)))
         else if landed = [] then Inl NothingAligned
         else
           (let lo = Min (fst ` set landed); hi = Max (fst ` set landed);
                rows = filter (\<lambda>i. lo \<le> candle_ts ! i \<and> candle_ts ! i \<le> hi) [0..<length candle_ts];
                joined = map (\<lambda>i. map_of landed (candle_ts ! i)) rows;
                gaps = filter (\<lambda>i. map_of landed (candle_ts ! i) = None) rows
            in if strict \<and> gaps \<noteq> []
               then Inl (CandleWithoutPrediction (length gaps) (Min ((!) candle_ts ` set gaps)))
               else Inr (rows, forward_fill joined,
                 \<lparr>predictions_without_candle = length without, candles_without_prediction = length gaps\<rparr>)))"

definition align :: "frame \<Rightarrow> frame \<Rightarrow> string option \<Rightarrow> bool \<Rightarrow> align_error + (frame \<times> align_report)" where
  "align candles predictions model strict =
     bind_res (raise_if (''prediction'' \<in> set (columns candles)) HasPrediction) (\<lambda>_.
     bind_res (unique_ts candles TheCandles) (\<lambda>candles.
     bind_res (own_predictions predictions model) (\<lambda>own.
     bind_res (align_rows (int_values candles ''ts'') own strict) (\<lambda>(rows, filled, report).
     Inr (pick_rows rows candles @
            [(''prediction'', \<lparr>s_dtype = s_dtype (the_column predictions ''prediction''), s_cells = filled\<rparr>)],
          report)))))"

section \<open>What the join gives\<close>

lemma forward_fill_nth:
  assumes "i < length vs" "vs ! 0 \<noteq> None"
  shows "\<exists>j \<le> i. vs ! j = Some (forward_fill vs ! i) \<and> (\<forall>k. j < k \<and> k \<le> i \<longrightarrow> vs ! k = None)"
  using assms(1)
proof (induction i)
  case 0
  then show ?case using assms(2) by (auto simp: forward_fill_def nth_scan fill_step_def split: option.splits)
next
  case (Suc i)
  show ?case
  proof (cases "vs ! Suc i")
    case (Some c)
    then have "forward_fill vs ! Suc i = c" using Suc.prems by (simp add: forward_fill_def nth_scan fill_step_def)
    then show ?thesis using Some by (intro exI[of _ "Suc i"]) auto
  next
    case None
    have out: "fst (fill_step s x) = snd (fill_step s x)" for s x by (simp add: fill_step_def split: option.split)
    have "forward_fill vs ! Suc i = forward_fill vs ! i"
      using Suc.prems None by (simp add: forward_fill_def nth_scan scan_state_Suc fill_step_def split: option.splits)
    then show ?thesis using Suc None by (metis Suc_lessD le_SucE le_SucI)
  qed
qed

lemma filter_upt_nth_less:
  "i < j \<Longrightarrow> j < length (filter P [0..<n]) \<Longrightarrow> filter P [0..<n] ! i < filter P [0..<n] ! j"
  using sorted_wrt_nth_less[of "(<)" "filter P [0..<n]" i j] by (simp add: sorted_wrt_filter)

lemma map_of_filter_key:
  "distinct (map fst ps) \<Longrightarrow> map_of (filter (\<lambda>(t, _). Q t) ps) t = Some c \<longleftrightarrow> Q t \<and> (t, c) \<in> set ps"
proof -
  assume d: "distinct (map fst ps)"
  then have "distinct (map fst (filter (\<lambda>(t, _). Q t) ps))" by (rule distinct_map_filter)
  then show ?thesis by (auto simp: map_of_eq_Some_iff)
qed

text \<open>
  The aligned rows: the candles from the first to the last landed prediction, each with the
  prediction of the latest landed \<open>ts\<close> up to its own.
\<close>

lemma align_rows_spec:
  assumes run: "align_rows cts own strict = Inr (rows, filled, report)"
    and cts: "sorted_wrt (<) cts" and own: "distinct (map fst own)" and r: "r < length rows"
  shows "length filled = length rows \<and> rows ! r < length cts \<and>
    (\<exists>t. (t, filled ! r) \<in> set own \<and> t \<in> set cts \<and> t \<le> cts ! (rows ! r) \<and>
       (\<forall>(s, _) \<in> set own. s \<in> set cts \<and> s \<le> cts ! (rows ! r) \<longrightarrow> s \<le> t) \<and>
       (strict \<longrightarrow> t = cts ! (rows ! r)))"
proof -
  define landed where "landed = filter (\<lambda>(t, _). t \<in> set cts) own"
  define lo hi where "lo = Min (fst ` set landed)" and "hi = Max (fst ` set landed)"
  define joined where "joined = map (\<lambda>i. map_of landed (cts ! i)) rows"
  have run': "landed \<noteq> []" "rows = filter (\<lambda>i. lo \<le> cts ! i \<and> cts ! i \<le> hi) [0..<length cts]"
      "filled = forward_fill joined"
      "strict \<Longrightarrow> filter (\<lambda>i. map_of landed (cts ! i) = None) rows = []"
    using run unfolding align_rows_def Let_def landed_def[symmetric] lo_def[symmetric] hi_def[symmetric]
    by (auto simp: joined_def split: if_splits)
  have key: "map_of landed t = Some c \<longleftrightarrow> t \<in> set cts \<and> (t, c) \<in> set own" for t c
    unfolding landed_def by (rule map_of_filter_key[OF own])
  have in_cts: "cts ! (rows ! i) \<in> set cts" "rows ! i < length cts" if "i < length rows" for i
    using that nth_mem[OF that] run'(2) by auto
  have mono: "cts ! (rows ! i) < cts ! (rows ! j)" if "i < j" "j < length rows" for i j
    using sorted_wrt_nth_less[OF cts, of "rows ! i" "rows ! j"] in_cts(2)[OF that(2)]
      filter_upt_nth_less[of i j] that unfolding run'(2) by simp
  have row_of: "\<exists>i < length rows. cts ! (rows ! i) = t" if "t \<in> fst ` set landed" for t
  proof -
    have "t \<in> set cts" using that by (auto simp: landed_def)
    then obtain i where i: "i < length cts" "cts ! i = t" by (auto simp: in_set_conv_nth)
    have "lo \<le> t" "t \<le> hi" using that unfolding lo_def hi_def by simp_all
    then have "i \<in> set rows" using i run'(2) by simp
    then show ?thesis using i(2) by (metis in_set_conv_nth)
  qed
  have len: "length joined = length rows" by (simp add: joined_def)
  have first: "joined ! 0 \<noteq> None"
  proof -
    have "lo \<in> fst ` set landed" unfolding lo_def using run'(1) by (intro Min_in) auto
    then obtain i where i: "i < length rows" "cts ! (rows ! i) = lo" using row_of by blast
    have "i = 0"
    proof (rule ccontr)
      assume "i \<noteq> 0"
      then have "cts ! (rows ! 0) < lo" using mono[of 0 i] i by simp
      moreover have "rows ! 0 \<in> set rows" using r by (cases rows) auto
      then have "lo \<le> cts ! (rows ! 0)" unfolding run'(2) by simp
      ultimately show False by simp
    qed
    then have "joined ! 0 = map_of landed lo" using i by (simp add: joined_def)
    then show ?thesis using \<open>lo \<in> fst ` set landed\<close> by (simp add: map_of_eq_None_iff)
  qed
  obtain j where j: "j \<le> r" "joined ! j = Some (filled ! r)" "\<forall>k. j < k \<and> k \<le> r \<longrightarrow> joined ! k = None"
    using forward_fill_nth[of r joined] first r len run'(3) by auto
  let ?t = "cts ! (rows ! j)"
  have jr: "j < length rows" using j(1) r by simp
  have t: "?t \<in> set cts" "(?t, filled ! r) \<in> set own"
    using j(2) jr key by (simp_all add: joined_def)
  have le: "?t \<le> cts ! (rows ! r)" using mono[of j r] j(1) r by (cases "j = r") auto
  have latest: "s \<le> ?t" if s: "(s, c) \<in> set own" "s \<in> set cts" "s \<le> cts ! (rows ! r)" for s c
  proof -
    have "s \<in> fst ` set landed" using s by (force simp: landed_def)
    then obtain i where i: "i < length rows" "cts ! (rows ! i) = s" using row_of by blast
    have "i \<le> r" using mono[of r i] i s(3) by (metis not_le)
    moreover have "joined ! i = Some c" using i s key by (simp add: joined_def)
    then have "\<not> (j < i \<and> i \<le> r)" using j(3) by auto
    ultimately have "i \<le> j" by simp
    then show ?thesis using mono[of i j] i jr by (cases "i = j") auto
  qed
  have strict: "?t = cts ! (rows ! r)" if strict
  proof -
    have "map_of landed (cts ! (rows ! r)) \<noteq> None"
      using run'(4)[OF that] r by (auto simp: filter_empty_conv)
    then have "joined ! r \<noteq> None" using r by (simp add: joined_def)
    then have "j = r" using j by (metis le_neq_implies_less order_refl)
    then show ?thesis by simp
  qed
  have "length filled = length rows" using run'(3) len by (simp add: forward_fill_def)
  then show ?thesis using in_cts(2)[OF r] t le latest strict by fast
qed

section \<open>Sorted frames\<close>

lemma sorted_distinct_strict: "sorted xs \<Longrightarrow> distinct xs \<Longrightarrow> sorted_wrt (<) (xs :: int list)"
  by (simp add: strict_sorted_iff)

lemma no_repeats_distinct: "filter (\<lambda>t. 1 < length (filter ((=) t) xs)) xs = [] \<Longrightarrow> distinct (xs :: int list)"
proof (rule ccontr)
  assume none: "filter (\<lambda>t. 1 < length (filter ((=) t) xs)) xs = []" and "\<not> distinct xs"
  then obtain as bs cs t where xs: "xs = as @ [t] @ bs @ [t] @ cs" using not_distinct_decomp by blast
  then have "1 < length (filter ((=) t) xs)" "t \<in> set xs" by auto
  then show False using none by (auto simp: filter_empty_conv)
qed

lemma unique_ts_sorted:
  assumes "unique_ts f what = Inr g"
  shows "sorted_wrt (<) (int_values g ''ts'')" "int_values g ''ts'' = sort (int_values f ''ts'')"
proof -
  let ?ts = "int_values f ''ts''"
  have g: "g = pick_rows (sorted_rows ?ts) (with_column ''ts'' (int64_series ?ts) f)"
    and none: "filter (\<lambda>t. 1 < length (filter ((=) t) (pick ?ts (sorted_rows ?ts)))) (pick ?ts (sorted_rows ?ts)) = []"
    using assms by (auto simp: unique_ts_def Let_def res_simps)
  have "int_values g ''ts'' = pick (int_values (with_column ''ts'' (int64_series ?ts) f) ''ts'') (sorted_rows ?ts)"
    unfolding g by (rule int_values_pick_rows[of _ _ "int64_series ?ts"])
      (simp_all add: column_with_column int64_series_def)
  then have "int_values g ''ts'' = pick ?ts (sorted_rows ?ts)" by simp
  then show "int_values g ''ts'' = sort ?ts" by (simp add: pick_sorted_rows)
  then show "sorted_wrt (<) (int_values g ''ts'')"
    using no_repeats_distinct[OF none] by (simp add: pick_sorted_rows sorted_distinct_strict)
qed

lemma own_predictions_distinct:
  assumes "own_predictions f model = Inr own"
  shows "distinct (map fst own)"
proof -
  obtain g h where h: "unique_ts g ThePredictions = Inr h"
      "own = zip (int_values h ''ts'') (s_cells (the_column h ''prediction''))"
    using assms by (auto simp: own_predictions_def numbers_def Let_def res_simps split: if_splits)
  have "distinct (int_values h ''ts'')"
    using unique_ts_sorted(1)[OF h(1)] by (simp add: strict_sorted_iff)
  then show ?thesis using h(2) by (simp add: map_fst_zip_take)
qed

text \<open>C14: \<open>align\<close> gives each aligned candle the prediction of the latest \<open>ts\<close> up to its own that has a
  candle: a gap repeats the previous prediction, nothing comes from a later one, and in strict mode
  each candle has the prediction of its own \<open>ts\<close>. The rows keep the order of the candles.\<close>

theorem align_forward_fills:
  assumes "align candles predictions model strict = Inr (out, report)"
    and "unique_ts candles TheCandles = Inr cs" "cts = int_values cs ''ts''"
    and "own_predictions predictions model = Inr own"
    and "r < length (s_cells (the_column out ''prediction''))"
  shows "\<exists>rows filled. s_cells (the_column out ''prediction'') = filled \<and> length filled = length rows \<and>
    rows ! r < length cts \<and> out = pick_rows rows cs @ [(''prediction'', the_column out ''prediction'')] \<and>
    (\<exists>t. (t, filled ! r) \<in> set own \<and> t \<in> set cts \<and> t \<le> cts ! (rows ! r) \<and>
       (\<forall>(s, _) \<in> set own. s \<in> set cts \<and> s \<le> cts ! (rows ! r) \<longrightarrow> s \<le> t) \<and>
       (strict \<longrightarrow> t = cts ! (rows ! r)))"
proof -
  let ?d = "s_dtype (the_column predictions ''prediction'')"
  obtain rows filled where run: "align_rows cts own strict = Inr (rows, filled, report)"
      and no: "''prediction'' \<notin> set (columns candles)"
      and out: "out = pick_rows rows cs @ [(''prediction'', \<lparr>s_dtype = ?d, s_cells = filled\<rparr>)]"
    using assms(1-4) by (auto simp: align_def res_simps)
  have "''prediction'' \<notin> set (columns cs)"
    using assms(2) no by (auto simp: unique_ts_def Let_def res_simps columns_with_column split: if_splits)
  then have "column (pick_rows rows cs) ''prediction'' = None"
    using column_in_columns[of "''prediction''" cs] by (simp add: column_pick_rows)
  then have col: "the_column out ''prediction'' = \<lparr>s_dtype = ?d, s_cells = filled\<rparr>"
    unfolding out by (simp add: the_column_def column_def map_add_def)
  have cts: "sorted_wrt (<) cts" using unique_ts_sorted(1)[OF assms(2)] assms(3) by simp
  have lens: "length filled = length rows"
    using run by (auto simp: align_rows_def Let_def forward_fill_def split: if_splits)
  then have r: "r < length rows" using assms(5) col by simp
  have spec: "length filled = length rows \<and> rows ! r < length cts \<and>
    (\<exists>t. (t, filled ! r) \<in> set own \<and> t \<in> set cts \<and> t \<le> cts ! (rows ! r) \<and>
       (\<forall>(s, _) \<in> set own. s \<in> set cts \<and> s \<le> cts ! (rows ! r) \<longrightarrow> s \<le> t) \<and>
       (strict \<longrightarrow> t = cts ! (rows ! r)))"
    by (rule align_rows_spec[OF run cts own_predictions_distinct[OF assms(4)] r])
  show ?thesis
  proof (intro exI[of _ rows] exI[of _ filled] conjI)
    show "s_cells (the_column out ''prediction'') = filled" using col by simp
    show "out = pick_rows rows cs @ [(''prediction'', the_column out ''prediction'')]" using out col by simp
  qed (use spec in blast)+
qed

definition example_alignment :: "frame \<times> frame" where
  "example_alignment =
     ([(''ts'', int64_series [120, 0, 60]), (''close'', int64_series [3, 1, 2])],
      [(''ts'', int64_series [0, 120]), (''prediction'', int64_series [7, 8])])"

theorem align_forward_fills_witness:
  "\<exists>out report. align (fst example_alignment) (snd example_alignment) None False = Inr (out, report) \<and>
     s_cells (the_column out ''prediction'') = map VInt [7, 7, 8] \<and>
     (\<exists>t. (t, VInt 7) \<in> {(0, VInt 7), (120, VInt 8)} \<and> t \<le> (60 :: int))"
proof -
  let ?c = "[(''ts'', int64_series [0, 60, 120]), (''close'', int64_series [1, 2, 3])]"
  let ?out = "?c @ [(''prediction'', int64_series [7, 7, 8])]"
  let ?rep = "\<lparr>predictions_without_candle = 0, candles_without_prediction = 1\<rparr>"
  have run: "align (fst example_alignment) (snd example_alignment) None False = Inr (?out, ?rep)" by code_simp
  have uni: "unique_ts (fst example_alignment) TheCandles = Inr ?c" by code_simp
  have cts: "[0, 60, 120] = int_values ?c ''ts''" by code_simp
  have own: "own_predictions (snd example_alignment) None = Inr [(0, VInt 7), (120, VInt 8)]" by code_simp
  have cells: "s_cells (the_column ?out ''prediction'') = map VInt [7, 7, 8]" by code_simp
  then have r: "1 < length (s_cells (the_column ?out ''prediction''))" by simp
  note align_forward_fills[OF run uni cts own r]
  then show ?thesis using run cells by auto
qed

text \<open>\<open>relabel\<close> moves every label back by exactly one timeframe and leaves every other column as it
  was; a label that would leave the Int64 range is refused, so none wraps around.\<close>

theorem relabel_moves_back:
  assumes "relabel f (PyInt tf) name = Inr g"
  shows "int_values g name = map (\<lambda>t. t - tf) (int_values f name) \<and> 0 < tf \<and>
    (\<forall>t \<in> set (int_values g name). in_int64 t) \<and>
    (\<forall>other. other \<noteq> name \<longrightarrow> column g other = column f other)"
proof -
  let ?ts = "int_values f name"
  have g: "g = with_column name (int64_series (map (\<lambda>t. t - tf) ?ts)) f" and tf: "0 < tf"
    and lo: "?ts \<noteq> [] \<longrightarrow> int64_min \<le> Min (set ?ts) - tf" and chk: "check_ts f name TheFrame = Inr ()"
    using assms by (auto simp: relabel_def Let_def res_simps not_less)
  have hi: "?ts \<noteq> [] \<longrightarrow> Max (set ?ts) \<le> int64_max"
    using chk by (auto simp: check_ts_def Let_def res_simps int_values_def not_less simp del: Max.bounded_iff)
  have "in_int64 (t - tf)" if "t \<in> set ?ts" for t
  proof -
    have "?ts \<noteq> []" using that by auto
    then have "int64_min \<le> Min (set ?ts) - tf" "Max (set ?ts) \<le> int64_max" using lo hi by blast+
    moreover have "Min (set ?ts) \<le> t" "t \<le> Max (set ?ts)" using that by simp_all
    ultimately show ?thesis using tf by (simp add: in_int64_def)
  qed
  then show ?thesis using g tf by (simp add: column_with_column)
qed

theorem relabel_moves_back_witness:
  "\<exists>g. relabel (snd example_alignment) (PyInt 60) ''ts'' = Inr g \<and> int_values g ''ts'' = [-60, 60]"
proof -
  let ?g = "[(''ts'', int64_series [-60, 60]), (''prediction'', int64_series [7, 8])]"
  have run: "relabel (snd example_alignment) (PyInt 60) ''ts'' = Inr ?g" by code_simp
  have "int_values (snd example_alignment) ''ts'' = [0, 120]" by code_simp
  then show ?thesis using relabel_moves_back[OF run] run by simp
qed

end
