(* ===== verification/MetricsSummary.thy ===== *)
theory MetricsSummary
  imports EngineRun
begin

text \<open>
  \<open>metrics/summary.py\<close>: the drawdown curve and the statistics of one run, read from the engine's
  trades and series and from the candles. A statistic that is undefined is \<open>None\<close>. The theorems tie
  them to the engine: the drawdown stop is a bound on this curve, and the daily returns compound to
  the total return.
\<close>

section \<open>The drawdown curve\<close>

definition cum_max :: "real list \<Rightarrow> real list" where
  "cum_max xs = map (\<lambda>i. Max (set (take (Suc i) xs))) [0..<length xs]"

definition drawdown :: "real list \<Rightarrow> real list" where
  "drawdown eqs = map2 (\<lambda>q m. q / max m 1 - 1) eqs (cum_max eqs)"

lemma Max_peak_of: "xs \<noteq> [] \<Longrightarrow> max (Max (set xs)) 1 = peak_of xs"
proof (induction xs rule: rev_nonempty_induct)
  case (snoc x xs)
  then show ?case by (simp add: max.assoc max.commute max.left_commute)
qed (simp add: peak_of_def max.commute)

lemma drawdown_nth:
  assumes "i < length eqs"
  shows "drawdown eqs ! i = eqs ! i / peak_of (take (Suc i) eqs) - 1"
proof -
  have "take (Suc i) eqs \<noteq> []" using assms by auto
  then show ?thesis using assms Max_peak_of[of "take (Suc i) eqs"] by (simp add: drawdown_def cum_max_def)
qed

lemma length_drawdown [simp]: "length (drawdown eqs) = length eqs"
  by (simp add: drawdown_def cum_max_def)

lemma peak_of_member: "x \<in> set xs \<Longrightarrow> x \<le> peak_of xs"
  by (induction xs rule: rev_induct) auto

lemma drawdown_range:
  assumes "i < length eqs" "\<forall>q \<in> set eqs. 0 \<le> q"
  shows "-1 \<le> drawdown eqs ! i" "drawdown eqs ! i \<le> 0"
proof -
  have pos: "0 < peak_of (take (Suc i) eqs)" using peak_of_ge_1[of "take (Suc i) eqs"] by linarith
  have "eqs ! i \<in> set (take (Suc i) eqs)"
    using assms(1) by (auto simp: take_Suc_conv_app_nth)
  then have "eqs ! i \<le> peak_of (take (Suc i) eqs)" by (rule peak_of_member)
  then show "drawdown eqs ! i \<le> 0" using pos by (simp add: drawdown_nth[OF assms(1)] divide_le_eq)
  show "-1 \<le> drawdown eqs ! i" using assms pos by (simp add: drawdown_nth[OF assms(1)])
qed

section \<open>Daily returns\<close>

definition DAY :: int where "DAY = 86400"

definition day_ends :: "int list \<Rightarrow> real list \<Rightarrow> real list" where
  "day_ends ts eqs =
     map (\<lambda>d. last (map snd (filter (\<lambda>(t, _). t div DAY = d) (zip ts eqs))))
       (first_seen (map (\<lambda>t. t div DAY) ts))"

definition daily_returns :: "int list \<Rightarrow> real list \<Rightarrow> real list" where
  "daily_returns ts eqs =
     (let ends = day_ends ts eqs; days = zip (1 # ends) ends
      in if list_ex (\<lambda>(start, _). start = 0) days then [] else map (\<lambda>(start, end_eq). end_eq / start - 1) days)"

section \<open>The statistics\<close>

definition mean :: "real list \<Rightarrow> real" where
  "mean xs = sum_list xs / real (length xs)"

definition stdev :: "real list \<Rightarrow> real" where
  "stdev xs = sqrt (sum_list (map (\<lambda>x. (x - mean xs)\<^sup>2) xs) / (real (length xs) - 1))"

definition sharpe :: "real list \<Rightarrow> real \<Rightarrow> real option" where
  "sharpe returns periods_per_year =
     (if length returns < 2 \<or> stdev returns = 0 then None
      else Some (mean returns / stdev returns * sqrt periods_per_year))"

definition sortino :: "real list \<Rightarrow> real \<Rightarrow> real option" where
  "sortino returns periods_per_year =
     (let downside = sqrt (mean (map (\<lambda>r. (min r 0)\<^sup>2) returns))
      in if length returns < 2 \<or> downside = 0 then None
         else Some (mean returns / downside * sqrt periods_per_year))"

text \<open>The closes of the candles whose \<open>ts\<close> is in the series, sorted by \<open>ts\<close>.\<close>

definition buy_and_hold_return :: "int list \<Rightarrow> (int \<times> real) list \<Rightarrow> fl option" where
  "buy_and_hold_return ts closes =
     (let held = map snd (sort_key fst (filter (\<lambda>(t, _). t \<in> set ts) closes))
      in if held = [] then None else Some (fl_sub (fl_div (Fin (last held)) (Fin (hd held))) (Fin 1)))"

definition defined :: "fl option \<Rightarrow> real option" where
  "defined v = (case v of Some (Fin x) \<Rightarrow> Some x | _ \<Rightarrow> None)"

record statistics =
  total_return :: "real option"
  max_drawdown :: "real option"
  sharpe_ratio :: "real option"
  sortino_ratio :: "real option"
  num_trades :: nat
  win_rate :: "real option"
  avg_trade_return :: "real option"
  best_trade_return :: "real option"
  worst_trade_return :: "real option"
  exposure :: "real option"
  fees_paid :: real
  buy_and_hold :: "real option"

text \<open>A Polars aggregate of an empty column is null.\<close>

definition unless_empty :: "'a list \<Rightarrow> ('a list \<Rightarrow> real) \<Rightarrow> real option" where
  "unless_empty xs f = (if xs = [] then None else Some (f xs))"

definition share :: "bool list \<Rightarrow> real" where
  "share bs = real (length (filter id bs)) / real (length bs)"

definition stats :: "result \<Rightarrow> (int \<times> real) list \<Rightarrow> real \<Rightarrow> statistics" where
  "stats r closes periods_per_year =
     (let returns = daily_returns (res_ts r) (res_equity r);
          deals = map t_return (res_trades r)
      in \<lparr>total_return = unless_empty (res_equity r) (\<lambda>q. last q - 1),
          max_drawdown = unless_empty (drawdown (res_equity r)) (\<lambda>d. 0 - Min (set d)),
          sharpe_ratio = sharpe returns periods_per_year,
          sortino_ratio = sortino returns periods_per_year,
          num_trades = length (res_trades r),
          win_rate = unless_empty deals (\<lambda>d. share (map (\<lambda>x. x > 0) d)),
          avg_trade_return = unless_empty deals mean,
          best_trade_return = unless_empty deals (\<lambda>d. Max (set d)),
          worst_trade_return = unless_empty deals (\<lambda>d. Min (set d)),
          exposure = unless_empty (res_position r) (\<lambda>p. share (map (\<lambda>x. x \<noteq> 0) p)),
          fees_paid = sum_list (map t_fees (res_trades r)),
          buy_and_hold = defined (buy_and_hold_return (res_ts r) closes)\<rparr>)"

section \<open>What they say of a run\<close>

lemma share_range: "0 \<le> share bs \<and> share bs \<le> 1"
  by (simp add: share_def divide_le_eq)

lemma mean_mono:
  assumes "xs \<noteq> []" "\<forall>x \<in> set xs. lo \<le> x \<and> x \<le> hi"
  shows "lo \<le> mean xs \<and> mean xs \<le> hi"
proof -
  have "lo * real (length ys) \<le> sum_list ys \<and> sum_list ys \<le> hi * real (length ys)"
    if "\<forall>x \<in> set ys. lo \<le> x \<and> x \<le> hi" for ys
    using that by (induction ys) (auto simp: algebra_simps)
  then show ?thesis using assms by (simp add: mean_def divide_le_eq le_divide_eq)
qed

lemma share_card: "share (map P xs) = real (card {i. i < length xs \<and> P (xs ! i)}) / real (length xs)"
proof -
  have "length (filter id (map P xs)) = length (filter P xs)" by (induction xs) auto
  then show ?thesis by (simp add: share_def length_filter_conv_card[of P])
qed

text \<open>C9: the statistics of a run are what they are named: the total return is the account of the
  closed trades, the maximum drawdown lies in [0, 1] and is the deepest point of the curve, the
  exposure is the share of rows that close with a position, the win rate the share of trades with a
  positive return, the average trade their mean return, which lies between the worst and the best, and
  the worst and the best are returns of trades.\<close>

theorem stats_of_run:
  assumes "backtest f s = Inr r" "wf_frame f" "wf_settings s" "res_ts r \<noteq> []"
  shows "total_return (stats r c y) = Some (ledger (res_trades r) - 1) \<and>
    (\<exists>d. max_drawdown (stats r c y) = Some d \<and> 0 \<le> d \<and> d \<le> 1 \<and>
       (\<forall>x \<in> set (drawdown (res_equity r)). - d \<le> x) \<and> - d \<in> set (drawdown (res_equity r))) \<and>
    exposure (stats r c y) = Some (real (card {i. i < length (res_ts r) \<and> res_position r ! i \<noteq> 0}) / real (length (res_ts r))) \<and>
    num_trades (stats r c y) = length (res_trades r) \<and>
    (res_trades r \<noteq> [] \<longrightarrow>
       win_rate (stats r c y) = Some (real (card {i. i < length (res_trades r) \<and> 0 < t_return (res_trades r ! i)}) /
         real (length (res_trades r))) \<and>
       (\<exists>m a b. avg_trade_return (stats r c y) = Some m \<and>
         m * real (length (res_trades r)) = sum_list (map t_return (res_trades r)) \<and>
         worst_trade_return (stats r c y) = Some a \<and> best_trade_return (stats r c y) = Some b \<and>
         a \<le> m \<and> m \<le> b \<and> {a, b} \<subseteq> t_return ` set (res_trades r) \<and>
         (\<forall>t \<in> set (res_trades r). a \<le> t_return t \<and> t_return t \<le> b)))"
proof -
  obtain k l where r: "wf_env (loop_env k s)" "loop_run (loop_env k s) = Inr l"
      "res_trades r = trades l" "res_ts r = c_ts k" "res_position r = position l" "res_equity r = equity l"
    by (rule backtestE[OF assms(1-3)]) blast
  note ser = loop_run_series[OF r(2,1)]
  have ne: "equity l \<noteq> []" "position l \<noteq> []" and pos: "0 < rows (loop_env k s)"
    using ser(1,2) assms(4) r(4) by auto
  have "last (equity l) = ledger (trades l)"
    using ser(2,6,7) pos ne by (simp add: last_conv_nth last_row_def capital_ok_def)
  then have total: "total_return (stats r c y) = Some (ledger (res_trades r) - 1)"
    using ne by (simp add: stats_def Let_def r unless_empty_def)
  define D where "D = set (drawdown (res_equity r))"
  have D: "finite D" "D \<noteq> {}" using ne by (auto simp: D_def r drawdown_def cum_max_def)
  have range: "-1 \<le> x \<and> x \<le> 0" if "x \<in> D" for x
    using that ser(4) drawdown_range[of _ "equity l"] by (auto simp: D_def r in_set_conv_nth)
  have "max_drawdown (stats r c y) = Some (- Min D)"
    using ne by (auto simp: stats_def Let_def unless_empty_def D_def r drawdown_def cum_max_def)
  moreover have "Min D \<in> D" "\<forall>x \<in> D. Min D \<le> x" using D by simp_all
  moreover have "0 \<le> - Min D" "- Min D \<le> 1" using range[of "Min D"] \<open>Min D \<in> D\<close> by simp_all
  ultimately have dd: "\<exists>d. max_drawdown (stats r c y) = Some d \<and> 0 \<le> d \<and> d \<le> 1 \<and>
      (\<forall>x \<in> set (drawdown (res_equity r)). - d \<le> x) \<and> - d \<in> set (drawdown (res_equity r))"
    unfolding D_def by (intro exI[of _ "- Min D"]) (simp add: D_def)
  have len: "length (res_position r) = length (res_ts r)" using ser(1) r by simp
  have exposure: "exposure (stats r c y) =
      Some (real (card {i. i < length (res_ts r) \<and> res_position r ! i \<noteq> 0}) / real (length (res_ts r)))"
    using ne by (simp add: stats_def Let_def unless_empty_def share_card len[symmetric] r(5))
  let ?d = "map t_return (res_trades r)"
  have deals: "win_rate (stats r c y) = Some (real (card {i. i < length (res_trades r) \<and> 0 < t_return (res_trades r ! i)}) /
         real (length (res_trades r))) \<and>
       (\<exists>m a b. avg_trade_return (stats r c y) = Some m \<and>
         m * real (length (res_trades r)) = sum_list ?d \<and>
         worst_trade_return (stats r c y) = Some a \<and> best_trade_return (stats r c y) = Some b \<and>
         a \<le> m \<and> m \<le> b \<and> {a, b} \<subseteq> t_return ` set (res_trades r) \<and>
         (\<forall>t \<in> set (res_trades r). a \<le> t_return t \<and> t_return t \<le> b))" if "res_trades r \<noteq> []"
  proof -
    have fin: "finite (set ?d)" "set ?d \<noteq> {}" using that by simp_all
    have "win_rate (stats r c y) = Some (real (card {i. i < length (res_trades r) \<and> 0 < t_return (res_trades r ! i)}) /
         real (length (res_trades r)))"
      using that share_card[of "\<lambda>t. 0 < t_return t" "res_trades r"]
      by (simp add: stats_def Let_def unless_empty_def comp_def)
    moreover have named: "avg_trade_return (stats r c y) = Some (mean ?d)"
        "worst_trade_return (stats r c y) = Some (Min (set ?d))" "best_trade_return (stats r c y) = Some (Max (set ?d))"
      using that by (simp_all add: stats_def Let_def unless_empty_def)
    have "mean ?d * real (length (res_trades r)) = sum_list ?d" using that by (simp add: mean_def)
    moreover have "Min (set ?d) \<le> mean ?d" "mean ?d \<le> Max (set ?d)"
      using mean_mono[of ?d "Min (set ?d)" "Max (set ?d)"] that by simp_all
    moreover have "Min (set ?d) \<in> set ?d" "Max (set ?d) \<in> set ?d" using fin by (rule Min_in, rule Max_in)
    then have "{Min (set ?d), Max (set ?d)} \<subseteq> t_return ` set (res_trades r)" by (simp del: Min_in Max_in)
    moreover have "\<forall>t \<in> set (res_trades r). Min (set ?d) \<le> t_return t \<and> t_return t \<le> Max (set ?d)"
      by (simp add: Min_le Max_ge)
    ultimately show ?thesis unfolding named by blast
  qed
  have "num_trades (stats r c y) = length (res_trades r)" by (simp add: stats_def Let_def)
  then show ?thesis using total dd exposure deals by blast
qed

theorem stats_of_run_witness:
  "backtest example example_settings = Inr example_result \<and>
   total_return (stats example_result [] 252) = Some (ledger [example_trade] - 1)"
  using stats_of_run[OF example_facts, of "[]" 252] example_run by simp

text \<open>The drawdown stop of the engine is a bound on the drawdown curve of the metrics: once the curve
  of a run reaches the stop at a row, every later row is flat and the curve stays where it is.\<close>

theorem drawdown_stop_bounds_curve:
  assumes "backtest f s = Inr r" "wf_frame f" "wf_settings s" "st_drawdown_stop s = Some d"
    and "i < j" "j < length (res_equity r)" "drawdown (res_equity r) ! i \<le> - d"
  shows "res_position r ! j = 0 \<and> drawdown (res_equity r) ! j = drawdown (res_equity r) ! i"
proof -
  let ?q = "res_equity r"
  let ?peak = "\<lambda>i. peak_of (take (Suc i) ?q)"
  have i: "i < length ?q" using assms(5,6) by simp
  have pos: "0 < ?peak i" for i using peak_of_ge_1[of "take (Suc i) ?q"] by linarith
  have stop: "?q ! i \<le> ?peak i * (1 - d)"
    using assms(7) pos[of i] by (simp add: drawdown_nth[OF i] field_simps)
  have flat: "res_position r ! k = 0 \<and> ?q ! k = ?q ! i" if "i < k" "k < length ?q" for k
    by (rule stopped_run_stays_flat_aux[OF assms(1-3) that]) (use stop assms(4) in auto)
  have peaks: "?peak k = ?peak i" if "i \<le> k" "k < length ?q" for k
    using that
  proof (induction k rule: dec_induct)
    case (step k)
    have "?q ! i \<in> set (take (Suc k) ?q)"
      using step.hyps i by (auto simp: in_set_conv_nth intro!: exI[of _ i])
    then have "?q ! i \<le> ?peak k" by (rule peak_of_member)
    then show ?case
      using step flat[of "Suc k"] by (simp add: take_Suc_conv_app_nth[of "Suc k"] max_absorb1)
  qed simp
  have peak: "?peak j = ?peak i" using assms(5,6) by (intro peaks) simp_all
  have "drawdown ?q ! j = drawdown ?q ! i"
    unfolding drawdown_nth[OF i] drawdown_nth[OF assms(6)] peak using flat[OF assms(5,6)] by simp
  then show ?thesis using flat[OF assms(5,6)] by simp
qed

theorem drawdown_stop_bounds_curve_witness:
  "drawdown (res_equity example_result) ! 3 = drawdown (res_equity example_result) ! 2"
proof -
  have "drawdown (res_equity example_result) ! 2 \<le> - (1 / 5)"
    by (simp add: drawdown_nth peak_of_def)
  then show ?thesis using drawdown_stop_bounds_curve[OF example_facts, of "1 / 5" 2 3] by simp
qed

lemma compound_returns:
  "0 \<notin> set (butlast ((c :: real) # ends)) \<Longrightarrow>
   prod_list (map (\<lambda>(a, b). 1 + (b / a - 1)) (zip (c # ends) ends)) * c = last (c # ends)"
proof (induction ends arbitrary: c)
  case (Cons e ends)
  have c: "c \<noteq> 0" using Cons.prems by auto
  have "0 \<notin> set (butlast (e # ends))" using Cons.prems by simp
  then have IH: "prod_list (map (\<lambda>(a, b). 1 + (b / a - 1)) (zip (e # ends) ends)) * e = last (e # ends)"
    by (rule Cons.IH)
  define P where "P = prod_list (map (\<lambda>(a, b). 1 + (b / a - 1)) (zip (e # ends) ends))"
  have "prod_list (map (\<lambda>(a, b). 1 + (b / a - 1)) (zip (c # e # ends) (e # ends))) * c =
      (1 + (e / c - 1)) * P * c" by (simp add: P_def)
  also have "\<dots> = P * e" using c by (simp add: field_simps)
  also have "\<dots> = last (e # ends)" using IH by (simp only: P_def)
  finally show ?case by simp
qed simp

lemma last_first_seen: "sorted xs \<Longrightarrow> xs \<noteq> [] \<Longrightarrow> last (first_seen xs) = last (xs :: int list)"
proof -
  assume s: "sorted xs" and ne: "xs \<noteq> []"
  have "hd (remdups ys) = hd ys" if "sorted_wrt (\<ge>) ys" "ys \<noteq> []" for ys :: "int list"
    using that
  proof (induction ys)
    case (Cons y ys)
    show ?case
    proof (cases "y \<in> set ys")
      case True
      then have "ys \<noteq> []" "hd ys \<le> y" "y \<le> hd ys"
        using Cons.prems by (cases ys; auto)+
      then show ?thesis using Cons True by (auto simp: sorted_wrt_append)
    qed simp
  qed simp
  moreover have "sorted_wrt (\<ge>) (rev xs)" using s by (simp add: sorted_wrt_rev)
  ultimately show ?thesis using ne by (simp add: first_seen_def last_rev hd_rev)
qed

lemma last_day_end:
  assumes "sorted ts" "ts \<noteq> []" "length eqs = length ts"
  shows "day_ends ts eqs \<noteq> []" "last (day_ends ts eqs) = last eqs"
proof -
  let ?days = "map (\<lambda>t. t div DAY) ts"
  have days: "sorted ?days" "?days \<noteq> []"
    using assms(1,2) by (auto simp: DAY_def mono_on_def intro!: sorted_map_mono zdiv_mono1)
  then have ne: "first_seen ?days \<noteq> []" by (simp add: first_seen_def)
  then show "day_ends ts eqs \<noteq> []" by (simp add: day_ends_def)
  have snoc: "zip ts eqs = zip (butlast ts) (butlast eqs) @ [(last ts, last eqs)]"
  proof -
    have "eqs \<noteq> []" using assms(2,3) by auto
    then have "zip (butlast ts @ [last ts]) (butlast eqs @ [last eqs]) =
        zip (butlast ts) (butlast eqs) @ [(last ts, last eqs)]"
      using assms(3) by (subst zip_append) simp_all
    then show ?thesis using assms(2) \<open>eqs \<noteq> []\<close> by simp
  qed
  have "last (day_ends ts eqs) =
      last (map snd (filter (\<lambda>(t, _). t div DAY = last (first_seen ?days)) (zip ts eqs)))"
    using ne by (simp add: day_ends_def last_map)
  also have "last (first_seen ?days) = last ts div DAY"
    using last_first_seen[OF days] assms(2) by (simp add: last_map)
  finally show "last (day_ends ts eqs) = last eqs" by (simp add: snoc)
qed

text \<open>The daily returns of a run compound to its total return: unless the equity reached 0, or the
  timestamps lie 2^63 or more apart, the product of one plus each of them is one plus the total return.\<close>

theorem daily_returns_compound:
  assumes "backtest f s = Inr r" "wf_frame f" "wf_settings s" "res_ts r \<noteq> []" "in_span (res_ts r)"
    and "daily_returns (res_ts r) (res_equity r) \<noteq> []"
  shows "total_return (stats r c y) =
    Some (prod_list (map (\<lambda>x. 1 + x) (daily_returns (res_ts r) (res_equity r))) - 1)"
proof -
  obtain k l where r: "wf_env (loop_env k s)" "loop_run (loop_env k s) = Inr l"
      "res_ts r = c_ts k" "res_equity r = equity l"
    by (rule backtestE[OF assms(1-3)]) blast
  have len: "length (res_equity r) = length (res_ts r)" using loop_run_series(2)[OF r(2,1)] r(3,4) by simp
  have "rising64 (res_ts r)" using wf_envD(11)[OF r(1)] r(3) by simp
  then have "sorted_wrt (<) (res_ts r)" using rising64_iff assms(5) by blast
  then have sorted: "sorted (res_ts r)" by (simp add: strict_sorted_iff)
  let ?ends = "day_ends (res_ts r) (res_equity r)"
  have ends: "?ends \<noteq> []" "last ?ends = last (res_equity r)" using last_day_end[OF sorted assms(4) len] .
  have nz: "\<not> list_ex (\<lambda>(start, _). start = 0) (zip (1 # ?ends) ?ends)"
    and rets: "daily_returns (res_ts r) (res_equity r) = map (\<lambda>(start, end_eq). end_eq / start - 1) (zip (1 # ?ends) ?ends)"
    using assms(6) by (auto simp: daily_returns_def Let_def split: if_splits)
  have "map fst (zip (1 # ?ends) ?ends) = butlast (1 # ?ends)"
    by (simp add: map_fst_zip_take butlast_conv_take)
  then have "set (butlast (1 # ?ends)) = fst ` set (zip (1 # ?ends) ?ends)" by (metis set_map)
  then have "0 \<notin> set (butlast (1 # ?ends))"
    using nz unfolding list_ex_iff by fastforce
  from compound_returns[OF this] have
    "prod_list (map (\<lambda>(a, b). 1 + (b / a - 1)) (zip (1 # ?ends) ?ends)) = last (res_equity r)"
    using ends by simp
  moreover have "map (\<lambda>x. 1 + x) (daily_returns (res_ts r) (res_equity r)) =
      map (\<lambda>(a, b). 1 + (b / a - 1)) (zip (1 # ?ends) ?ends)"
    unfolding rets by (simp add: comp_def case_prod_beta)
  ultimately show ?thesis
    using assms(4) len by (auto simp: stats_def Let_def unless_empty_def)
qed

theorem daily_returns_compound_witness:
  "total_return (stats example_result [] 252) =
     Some (prod_list (map (\<lambda>x. 1 + x) (daily_returns (res_ts example_result) (res_equity example_result))) - 1)"
proof -
  have "daily_returns [0, 60, 120, 180] [1, 1, 1 / 2, 1 / 2] \<noteq> []" by code_simp
  then show ?thesis using daily_returns_compound[OF example_facts, of "[]" 252] by (simp add: in_span_def)
qed

end
