(* ===== verification/SignalFilters.thy ===== *)
theory SignalFilters
  imports SignalRules
begin

text \<open>
  What the rules and filters of \<open>SignalRules\<close> promise: the range of a signal, hysteresis as a
  threshold with memory, the exponential average within the predictions it averages, a confirmed
  value as one that lasted, and the holding period of a new position.
\<close>

section \<open>Ranges\<close>

definition is_signal :: "fl list \<Rightarrow> bool" where
  "is_signal xs = (set xs \<subseteq> {Fin (-1), Fin 0, Fin 1})"

lemma is_signal_nan: "is_signal xs \<Longrightarrow> NaN \<notin> set xs"
  by (auto simp: is_signal_def)

lemma threshold_run_signal: "is_signal (threshold_run limit p)"
  by (auto simp: is_signal_def threshold_run_def threshold_value_def)

lemma hysteresis_run_signal: "is_signal (hysteresis_run enter ex p)"
proof -
  have "\<forall>y \<in> set (hysteresis_run enter ex p). y \<in> {Fin (-1), Fin 0, Fin 1}"
    unfolding hysteresis_run_def by (rule set_scan[where P = "\<lambda>_. True"]) (auto simp: hysteresis_step_def Let_def)
  then show ?thesis by (auto simp: is_signal_def)
qed

lemma long_only_run_signal: "is_signal p \<Longrightarrow> set (long_only_run p) \<subseteq> {Fin 0, Fin 1}"
  by (auto simp: is_signal_def long_only_run_def)

text \<open>The filters of a signal only repeat its values.\<close>

lemma confirm_run_values: "set (confirm_run n p) \<subseteq> set p"
proof -
  have "\<forall>y \<in> set (confirm_run n p). y \<in> set p"
    unfolding confirm_run_def
    by (rule set_scan[where P = "\<lambda>s. \<forall>c. cs_counted s = Some c \<longrightarrow> c \<in> set p"])
      (auto simp: confirm_step_def Let_def split: option.splits)
  then show ?thesis by blast
qed

lemma min_hold_run_values: "set (min_hold_run n p) \<subseteq> insert (Fin 0) (set p)"
proof -
  have "\<forall>y \<in> set (min_hold_run n p). y \<in> insert (Fin 0) (set p)"
    unfolding min_hold_run_def
    by (rule set_scan[where P = "\<lambda>s. hs_previous s \<in> insert (Fin 0) (set p)"])
      (auto simp: min_hold_step_def Let_def)
  then show ?thesis by blast
qed

lemma confirm_run_signal: "is_signal p \<Longrightarrow> is_signal (confirm_run n p)"
  using confirm_run_values by (fastforce simp: is_signal_def)

lemma min_hold_run_signal: "is_signal p \<Longrightarrow> is_signal (min_hold_run n p)"
  using min_hold_run_values by (fastforce simp: is_signal_def)

section \<open>Hysteresis\<close>

lemma hysteresis_equal_limits:
  "hysteresis_run limit limit p = threshold_run (Fin limit) p"
proof -
  have "scan (hysteresis_step limit limit) s p = map (threshold_value (Fin limit)) p" for s
    by (induction p arbitrary: s) (auto simp: hysteresis_step_def threshold_value_def Let_def)
  then show ?thesis by (simp add: hysteresis_run_def threshold_run_def)
qed

text \<open>With \<open>exit\<close> equal to \<open>enter\<close>, \<open>hysteresis\<close> is \<open>threshold\<close> on every series, errors included.\<close>

theorem hysteresis_is_threshold:
  assumes "0 \<le> limit"
  shows "hysteresis s (Fin limit) (Fin limit) = threshold s (Fin limit)"
  using assms by (simp add: hysteresis_def threshold_def hysteresis_equal_limits raise_if_def)

theorem hysteresis_is_threshold_witness:
  "hysteresis (float_series [Fin (1/2), Fin 0]) (Fin (1/4)) (Fin (1/4)) =
     threshold (float_series [Fin (1/2), Fin 0]) (Fin (1/4))"
  by (rule hysteresis_is_threshold) simp

text \<open>The output of a row is the state after it.\<close>

lemma scan_output_state:
  assumes "i < length xs" "\<And>s x. g (fst (f s x)) = snd (f s x)"
  shows "g (scan_state f s xs (Suc i)) = scan f s xs ! i"
  using assms by (simp add: nth_scan scan_state_Suc)

definition side_before :: "fl list \<Rightarrow> nat \<Rightarrow> fl" where
  "side_before ys i = (case i of 0 \<Rightarrow> Fin 0 | Suc j \<Rightarrow> ys ! j)"

lemma hysteresis_nth:
  assumes "i < length p" "ys = hysteresis_run enter ex p"
  shows "ys ! i = (let on = side_before ys i in
     if p ! i > Fin 0 \<and> p ! i \<ge> Fin (if on > Fin 0 then ex else enter) then Fin 1
     else if p ! i < Fin 0 \<and> p ! i \<le> Fin (- (if on < Fin 0 then ex else enter)) then Fin (-1)
     else Fin 0)"
proof -
  have "Fin (scan_state (hysteresis_step enter ex) 0 p i) = side_before ys i"
  proof (cases i)
    case (Suc j)
    then show ?thesis unfolding assms(2) hysteresis_run_def side_before_def
      using scan_output_state[of j p Fin "hysteresis_step enter ex" 0] assms(1)
      by (simp add: hysteresis_step_def Let_def)
  qed (simp add: side_before_def)
  then have "on > Fin 0 \<longleftrightarrow> scan_state (hysteresis_step enter ex) 0 p i > 0"
    "on < Fin 0 \<longleftrightarrow> scan_state (hysteresis_step enter ex) 0 p i < 0"
    if "on = side_before ys i" for on using that by (metis less_fl_simps(1))+
  then show ?thesis unfolding assms(2) hysteresis_run_def
    using assms(1) by (simp add: nth_scan hysteresis_step_def Let_def assms(2) hysteresis_run_def)
qed

text \<open>A long position of \<open>hysteresis\<close> is kept at every prediction from \<open>exit\<close> up and opened only
  from \<open>enter\<close> up: a row is long exactly when its prediction is positive and at least \<open>enter\<close>, or at
  least \<open>exit\<close> after a long row; short rows mirror it.\<close>

theorem hysteresis_memory:
  assumes "hysteresis s (Fin enter) (Fin ex) = Inr (float_series ys)" "predictions_of s = Inr p"
    and "i < length p"
  shows "(ys ! i = Fin 1 \<longleftrightarrow> p ! i > Fin 0 \<and>
       (p ! i \<ge> Fin enter \<or> side_before ys i = Fin 1 \<and> p ! i \<ge> Fin ex)) \<and>
    (ys ! i = Fin (-1) \<longleftrightarrow> p ! i < Fin 0 \<and>
       (p ! i \<le> Fin (- enter) \<or> side_before ys i = Fin (-1) \<and> p ! i \<le> Fin (- ex)))"
proof -
  have ys: "ys = hysteresis_run enter ex p" and lim: "0 \<le> ex" "ex \<le> enter"
    using assms(1,2) by (auto simp: hysteresis_def res_simps)
  have len: "length ys = length p" using ys by (simp add: hysteresis_run_def)
  have "side_before ys i \<in> {Fin (-1), Fin 0, Fin 1}"
  proof (cases i)
    case (Suc j)
    then have "ys ! j \<in> set ys" using assms(3) len by simp
    then show ?thesis using hysteresis_run_signal[of enter ex p] Suc
      by (auto simp: side_before_def is_signal_def ys)
  qed (simp add: side_before_def)
  moreover have "Fin enter \<le> v \<Longrightarrow> Fin ex \<le> v" "v \<le> Fin (- enter) \<Longrightarrow> v \<le> Fin (- ex)" for v
    using lim by (cases v; simp)+
  ultimately show ?thesis
    unfolding hysteresis_nth[OF assms(3) ys] Let_def by auto
qed

theorem hysteresis_memory_witness:
  "hysteresis (float_series [Fin (1/2), Fin (1/4)]) (Fin (1/2)) (Fin (1/8)) = Inr (float_series [Fin 1, Fin 1]) \<and>
   ([Fin 1, Fin 1] ! 1 = Fin 1 \<longleftrightarrow> (side_before [Fin 1, Fin 1] 1 = Fin 1))"
proof -
  have run: "hysteresis (float_series [Fin (1/2), Fin (1/4)]) (Fin (1/2)) (Fin (1/8)) = Inr (float_series [Fin 1, Fin 1])"
    by code_simp
  have "predictions_of (float_series [Fin (1/2), Fin (1/4)]) = Inr [Fin (1/2), Fin (1/4)]" by code_simp
  from hysteresis_memory[OF run this, of 1] show ?thesis using run by simp
qed

section \<open>The exponential average\<close>

lemma ema_step_between:
  assumes "0 < a" "a \<le> 1" "lo \<le> fin_val v" "fin_val v \<le> hi" "case s of None \<Rightarrow> True | Some e \<Rightarrow> lo \<le> e \<and> e \<le> hi"
  shows "\<exists>e. ema_step a s v = (Some e, Fin e) \<and> lo \<le> e \<and> e \<le> hi"
proof (cases s)
  case (Some e)
  have "a * fin_val v + (1 - a) * e \<le> a * hi + (1 - a) * hi"
    using assms Some by (intro add_mono mult_left_mono) auto
  moreover have "a * lo + (1 - a) * lo \<le> a * fin_val v + (1 - a) * e"
    using assms Some by (intro add_mono mult_left_mono) auto
  moreover have "a * hi + (1 - a) * hi = hi" "a * lo + (1 - a) * lo = lo" by (simp_all add: algebra_simps)
  ultimately show ?thesis using Some by (simp add: ema_step_def Let_def)
qed (use assms in \<open>simp add: ema_step_def Let_def\<close>)

lemma ema_run_between:
  assumes "1 \<le> n" "\<forall>v \<in> set p. lo \<le> fin_val v \<and> fin_val v \<le> hi" "y \<in> set (ema_run n p)"
  shows "\<exists>e. y = Fin e \<and> lo \<le> e \<and> e \<le> hi"
proof -
  have a: "0 < 2 / (real_of_int n + 1)" "2 / (real_of_int n + 1) \<le> 1" using assms(1) by simp_all
  have "\<forall>y \<in> set (ema_run n p). \<exists>e. y = Fin e \<and> lo \<le> e \<and> e \<le> hi"
    unfolding ema_run_def
  proof (rule set_scan[where P = "\<lambda>s. case s of None \<Rightarrow> True | Some e \<Rightarrow> lo \<le> e \<and> e \<le> hi"])
    fix s v assume v: "v \<in> set p" and s: "case s of None \<Rightarrow> True | Some e \<Rightarrow> lo \<le> e \<and> e \<le> hi"
    show "(case fst (ema_step (2 / (real_of_int n + 1)) s v) of None \<Rightarrow> True | Some e \<Rightarrow> lo \<le> e \<and> e \<le> hi) \<and>
        (\<exists>e. snd (ema_step (2 / (real_of_int n + 1)) s v) = Fin e \<and> lo \<le> e \<and> e \<le> hi)"
      using ema_step_between[OF a _ _ s, of v] v assms(2) by auto
  qed simp
  then show ?thesis using assms(3) by blast
qed

lemma ema_run_one: "\<forall>v \<in> set p. is_finite v \<Longrightarrow> ema_run 1 p = p"
proof -
  have "\<forall>v \<in> set p. is_finite v \<Longrightarrow> scan (ema_step 1) s p = p" for s
    by (induction p arbitrary: s) (auto simp: ema_step_def is_finite_iff Let_def split: option.split)
  then show "\<forall>v \<in> set p. is_finite v \<Longrightarrow> ema_run 1 p = p" by (simp add: ema_run_def)
qed

lemma emaE:
  assumes "ema s n = Inr out"
  obtains m p where "n = PyInt m" "1 \<le> m" "predictions_of s = Inr p" "\<forall>v \<in> set p. is_finite v"
    "out = float_series (ema_run m p)"
proof -
  from assms obtain m p where m: "n = PyInt m" "1 \<le> m" "predictions_of s = Inr p"
      "\<not> list_ex is_infinite p" "out = float_series (ema_run m p)"
    by (auto simp: ema_def res_simps check_count_def split: pyint.splits if_splits)
  have "is_finite v" if "v \<in> set p" for v
    using m(4) float64_no_nan[OF m(3)] that by (cases v) (auto simp: list_ex_iff)
  then show ?thesis using that m by blast
qed

text \<open>Every exponential average lies between the smallest and the largest prediction up to its row,
  and a span of 1 gives the predictions back.\<close>

theorem ema_between:
  assumes "ema s n = Inr (float_series ys)" "predictions_of s = Inr p" "i < length p"
    and "\<forall>v \<in> set (take (Suc i) p). Fin lo \<le> v \<and> v \<le> Fin hi"
  shows "length ys = length p \<and> Fin lo \<le> ys ! i \<and> ys ! i \<le> Fin hi \<and> (n = PyInt 1 \<longrightarrow> ys = p)"
proof -
  obtain m where m: "n = PyInt m" "1 \<le> m" "\<forall>v \<in> set p. is_finite v" "ys = ema_run m p"
    using emaE[OF assms(1)] assms(2) by (metis Inr_inject float_series_eq)
  have fin: "\<forall>v \<in> set (take (Suc i) p). lo \<le> fin_val v \<and> fin_val v \<le> hi"
    using assms(4) m(3) by (fastforce simp: is_finite_iff dest: in_set_takeD)
  have "ys ! i = ema_run m (take (Suc i) p) ! i" using m(4) ema.nth_prefix assms(3) by blast
  moreover have "ema_run m (take (Suc i) p) ! i \<in> set (ema_run m (take (Suc i) p))"
    using assms(3) by (intro nth_mem) simp
  ultimately obtain e where "ys ! i = Fin e" "lo \<le> e" "e \<le> hi"
    using ema_run_between[OF m(2) fin] by metis
  moreover have "length ys = length p" using m(4) by simp
  ultimately show ?thesis using m ema_run_one[OF m(3)] by simp
qed

theorem ema_between_witness:
  "ema (float_series [Fin 1, Fin 0]) (PyInt 3) = Inr (float_series [Fin 1, Fin (1/2)]) \<and>
   Fin 0 \<le> [Fin 1, Fin (1/2)] ! 1 \<and> [Fin 1, Fin (1/2)] ! 1 \<le> Fin 1"
proof -
  have run: "ema (float_series [Fin 1, Fin 0]) (PyInt 3) = Inr (float_series [Fin 1, Fin (1/2)])" by code_simp
  have "predictions_of (float_series [Fin 1, Fin 0]) = Inr [Fin 1, Fin 0]" by code_simp
  from ema_between[OF run this, of 1 0 1] show ?thesis using run by simp
qed

section \<open>Confirmation\<close>

text \<open>Before row \<open>i\<close>: the last input, how long it has lasted (the whole series, or up to a change)
  and the last output.\<close>

definition confirm_inv :: "fl list \<Rightarrow> fl list \<Rightarrow> nat \<Rightarrow> confirm_state \<Rightarrow> bool" where
  "confirm_inv p ys i s = (case i of
      0 \<Rightarrow> cs_counted s = None \<and> cs_previous s = None \<and> cs_held s = 0
    | Suc j \<Rightarrow> cs_counted s = Some (ys ! j) \<and> cs_previous s = Some (p ! j) \<and>
        1 \<le> cs_held s \<and> cs_held s \<le> int (Suc j) \<and>
        (\<forall>k < nat (cs_held s). p ! (j - k) = p ! j) \<and>
        (cs_held s \<le> int j \<longrightarrow> p ! (j - nat (cs_held s)) \<noteq> p ! j))"

lemma confirm_inv_all:
  assumes "ys = confirm_run n p"
  shows "i \<le> length p \<Longrightarrow> confirm_inv p ys i
    (scan_state (confirm_step n) \<lparr>cs_counted = None, cs_previous = None, cs_held = 0\<rparr> p i)"
proof (induction i)
  case 0
  then show ?case by (simp add: confirm_inv_def)
next
  case (Suc i)
  let ?f = "confirm_step n" and ?s0 = "\<lparr>cs_counted = None, cs_previous = None, cs_held = 0\<rparr>"
  let ?s = "scan_state ?f ?s0 p i"
  have i: "i < length p" using Suc by simp
  have out: "cs_counted (fst (?f ?s (p ! i))) = Some (ys ! i)"
    unfolding assms confirm_run_def using i by (simp add: nth_scan confirm_step_def Let_def)
  show ?case
  proof (cases i)
    case 0
    then show ?thesis using out i
      by (simp add: confirm_inv_def scan_state_Suc) (simp add: confirm_step_def Let_def)
  next
    case (Suc j)
    then have inv: "cs_previous ?s = Some (p ! j)" "1 \<le> cs_held ?s" "cs_held ?s \<le> int (Suc j)"
        "\<forall>k < nat (cs_held ?s). p ! (j - k) = p ! j"
        "cs_held ?s \<le> int j \<longrightarrow> p ! (j - nat (cs_held ?s)) \<noteq> p ! j"
      using Suc.IH i by (simp_all add: confirm_inv_def)
    show ?thesis
    proof (cases "p ! i = p ! j")
      case True
      have held: "cs_held (fst (?f ?s (p ! i))) = cs_held ?s + 1" "cs_previous (fst (?f ?s (p ! i))) = Some (p ! i)"
        using True inv(1) by (simp_all add: confirm_step_def Let_def)
      have "p ! (i - k) = p ! i" if "k < nat (cs_held ?s + 1)" for k
        using inv(4) that True Suc by (cases k) auto
      moreover have "p ! (i - nat (cs_held ?s + 1)) \<noteq> p ! i" if "cs_held ?s + 1 \<le> int i"
        using inv(2,5) that True Suc by (simp add: nat_add_distrib)
      ultimately show ?thesis using out held inv(2,3) i Suc
        by (simp add: confirm_inv_def scan_state_Suc)
    next
      case False
      have "cs_held (fst (?f ?s (p ! i))) = 1" "cs_previous (fst (?f ?s (p ! i))) = Some (p ! i)"
        using False inv(1) by (simp_all add: confirm_step_def Let_def)
      then show ?thesis using out False i Suc by (simp add: confirm_inv_def scan_state_Suc)
    qed
  qed
qed

lemma confirm_run_nth:
  assumes ys: "ys = confirm_run n p" and i: "Suc i < length p" and n: "1 \<le> n"
  shows "ys ! Suc i = (if n \<le> int (Suc (Suc i)) \<and> (\<forall>k < nat n. p ! (Suc i - k) = p ! Suc i)
                       then p ! Suc i else ys ! i)"
proof -
  let ?f = "confirm_step n" and ?s0 = "\<lparr>cs_counted = None, cs_previous = None, cs_held = 0\<rparr>"
  let ?s = "scan_state ?f ?s0 p (Suc i)" and ?t = "scan_state ?f ?s0 p (Suc (Suc i))"
  have inv: "cs_counted ?s = Some (ys ! i)" using confirm_inv_all[OF ys, of "Suc i"] i by (simp add: confirm_inv_def)
  have t: "1 \<le> cs_held ?t" "cs_held ?t \<le> int (Suc (Suc i))" "\<forall>k < nat (cs_held ?t). p ! (Suc i - k) = p ! Suc i"
      "cs_held ?t \<le> int (Suc i) \<longrightarrow> p ! (Suc i - nat (cs_held ?t)) \<noteq> p ! Suc i"
    using confirm_inv_all[OF ys, of "Suc (Suc i)"] i by (simp_all add: confirm_inv_def)
  have "ys ! Suc i = (if cs_held ?t \<ge> n then p ! Suc i else ys ! i)"
    unfolding scan_state_Suc[OF i]
    using inv i unfolding ys confirm_run_def nth_scan[OF i] by (simp add: confirm_step_def Let_def)
  moreover have "cs_held ?t \<ge> n \<longleftrightarrow> n \<le> int (Suc (Suc i)) \<and> (\<forall>k < nat n. p ! (Suc i - k) = p ! Suc i)"
  proof
    assume "cs_held ?t \<ge> n"
    then show "n \<le> int (Suc (Suc i)) \<and> (\<forall>k < nat n. p ! (Suc i - k) = p ! Suc i)"
      using t(2,3) by (auto intro: order_trans simp: less_nat_zero_code)
  next
    assume a: "n \<le> int (Suc (Suc i)) \<and> (\<forall>k < nat n. p ! (Suc i - k) = p ! Suc i)"
    show "cs_held ?t \<ge> n"
    proof (rule ccontr)
      assume b: "\<not> cs_held ?t \<ge> n"
      then have "cs_held ?t \<le> int (Suc i)" "nat (cs_held ?t) < nat n" using a t(1) by linarith+
      then show False using t(4) a by blast
    qed
  qed
  ultimately show ?thesis by simp
qed

text \<open>\<open>confirm\<close> counts a value exactly when it has held for \<open>candles\<close> rows in a row, this one
  included; on any other row the last counted value stays. The first row counts at once.\<close>

theorem confirm_counts_what_lasted:
  assumes "confirm s (PyInt n) = Inr (float_series ys)" "signal_values_of s = Inr p" "i < length p"
  shows "ys ! i = (if i = 0 \<or> (n \<le> int (Suc i) \<and> (\<forall>k < nat n. p ! (i - k) = p ! i))
                   then p ! i else ys ! (i - 1))"
proof -
  have ys: "ys = confirm_run n p" and n: "1 \<le> n"
    using assms(1,2) by (auto simp: confirm_def res_simps check_count_def split: if_splits)
  show ?thesis
  proof (cases i)
    case 0
    then show ?thesis using assms(3) by (simp add: ys confirm_run_def nth_scan confirm_step_def Let_def)
  next
    case (Suc j)
    then show ?thesis using confirm_run_nth[OF ys _ n, of j] assms(3) by auto
  qed
qed

theorem confirm_counts_what_lasted_witness:
  "confirm (float_series [Fin 0, Fin 1, Fin 1]) (PyInt 2) = Inr (float_series [Fin 0, Fin 0, Fin 1]) \<and>
   [Fin 0, Fin 0, Fin 1] ! 2 = [Fin 0, Fin 1, Fin 1] ! 2"
proof -
  have run: "confirm (float_series [Fin 0, Fin 1, Fin 1]) (PyInt 2) = Inr (float_series [Fin 0, Fin 0, Fin 1])"
    by code_simp
  have "signal_values_of (float_series [Fin 0, Fin 1, Fin 1]) = Inr [Fin 0, Fin 1, Fin 1]" by code_simp
  from confirm_counts_what_lasted[OF run this, of 2] show ?thesis using run by (simp add: eval_nat_numeral)
qed

section \<open>The holding period\<close>

lemma min_hold_state:
  assumes "ys = min_hold_run n p"
  shows "i \<le> length p \<Longrightarrow> hs_row (scan_state (min_hold_step n) \<lparr>hs_row = 0, hs_previous = Fin 0, hs_until = 0\<rparr> p i) = int i \<and>
    hs_previous (scan_state (min_hold_step n) \<lparr>hs_row = 0, hs_previous = Fin 0, hs_until = 0\<rparr> p i) = side_before ys i"
proof (induction i)
  case 0
  then show ?case by (simp add: side_before_def)
next
  case (Suc i)
  let ?s = "scan_state (min_hold_step n) \<lparr>hs_row = 0, hs_previous = Fin 0, hs_until = 0\<rparr> p i"
  have i: "i < length p" and row: "hs_row ?s = int i" using Suc by simp_all
  have "ys ! i = snd (min_hold_step n ?s (p ! i))" using i by (simp add: assms min_hold_run_def nth_scan)
  then show ?case using row unfolding scan_state_Suc[OF i]
    by (simp add: side_before_def min_hold_step_def Let_def)
qed

lemma min_hold_keeps:
  assumes ys: "ys = min_hold_run n p" and r: "0 < r" "r < length p"
    and change: "ys ! r \<noteq> Fin 0" "ys ! r \<noteq> ys ! (r - 1)"
  shows "r < j \<Longrightarrow> j < length p \<Longrightarrow> int j < int r + n \<Longrightarrow> ys ! j = ys ! r \<and>
    hs_until (scan_state (min_hold_step n) \<lparr>hs_row = 0, hs_previous = Fin 0, hs_until = 0\<rparr> p j) = int r + n"
proof (induction j)
  case 0
  then show ?case by simp
next
  case (Suc j)
  let ?f = "min_hold_step n" and ?s0 = "\<lparr>hs_row = 0, hs_previous = Fin 0, hs_until = 0\<rparr>"
  have out: "ys ! k = snd (?f (scan_state ?f ?s0 p k) (p ! k))" if "k < length p" for k
    using that by (simp add: ys min_hold_run_def nth_scan)
  note state = min_hold_state[OF ys]
  have j: "j < length p" "r \<le> j" using Suc by simp_all
  have until: "hs_until (scan_state ?f ?s0 p (Suc j)) = int r + n"
  proof (cases "j = r")
    case True
    have "hs_previous (scan_state ?f ?s0 p r) = ys ! (r - 1)"
      using state[of r] r by (cases r) (auto simp: side_before_def)
    then show ?thesis
      using True out[OF r(2)] state[of r] r change unfolding scan_state_Suc[OF j(1)]
      by (auto simp: min_hold_step_def Let_def split: if_splits)
  next
    case False
    then have "hs_until (scan_state ?f ?s0 p j) = int r + n" using Suc j by simp
    then show ?thesis using state[of j] Suc.prems unfolding scan_state_Suc[OF j(1)]
      by (simp add: min_hold_step_def Let_def)
  qed
  have "hs_previous (scan_state ?f ?s0 p (Suc j)) = ys ! j" "hs_row (scan_state ?f ?s0 p (Suc j)) = int (Suc j)"
    using state[of "Suc j"] Suc.prems by (simp_all add: side_before_def)
  then have "ys ! Suc j = ys ! j"
    using out[OF Suc.prems(2)] until Suc.prems by (simp add: min_hold_step_def Let_def)
  moreover have "ys ! j = ys ! r" using Suc j by (cases "j = r") simp_all
  ultimately show ?case using until by simp
qed

text \<open>A new position is kept: once the output of \<open>min_hold\<close> changes to a non-zero value at a row,
  it stays at that value for \<open>candles\<close> rows, whatever the signal does.\<close>

theorem min_hold_holds:
  assumes "min_hold s (PyInt n) = Inr (float_series ys)"
    and "0 < r" "r \<le> j" "j < length ys" "ys ! r \<noteq> Fin 0" "ys ! r \<noteq> ys ! (r - 1)" "int j < int r + n"
  shows "ys ! j = ys ! r"
proof -
  obtain p where p: "ys = min_hold_run n p"
    using assms(1) by (auto simp: min_hold_def res_simps check_count_def split: if_splits)
  then have "length ys = length p" by simp
  then show ?thesis using min_hold_keeps[OF p assms(2) _ assms(5,6), of j] assms(3,4,7)
    by (cases "r = j") auto
qed

theorem min_hold_holds_witness:
  "min_hold (float_series [Fin 0, Fin 1, Fin 0, Fin 0]) (PyInt 2) = Inr (float_series [Fin 0, Fin 1, Fin 1, Fin 0]) \<and>
   [Fin 0, Fin 1, Fin 1, Fin 0] ! 2 = [Fin 0, Fin 1, Fin 1, Fin 0] ! 1"
proof -
  have run: "min_hold (float_series [Fin 0, Fin 1, Fin 0, Fin 0]) (PyInt 2) = Inr (float_series [Fin 0, Fin 1, Fin 1, Fin 0])"
    by code_simp
  from min_hold_holds[OF run, of 1 2] show ?thesis using run by simp
qed

end
