(* ===== verification/SignalCalibration.thy ===== *)
theory SignalCalibration
  imports SignalFilters
begin

text \<open>
  \<open>signals/calibration.py\<close>: predictions rescaled from the window that ends at them. \<open>rank\<close> is
  modelled to the last loop (one lag at a time). The rolling mean, deviation and maximum of \<open>zscore\<close>
  are Polars', so they are a parameter (\<open>rolling\<close>), of which only the documented behaviour is
  assumed: one value per row from the window ending there, null before the first full window.
\<close>

section \<open>Clipping\<close>

definition fl_clip :: "real \<Rightarrow> real \<Rightarrow> fl \<Rightarrow> fl" where
  "fl_clip lo hi v = (if v = NaN then NaN else max (Fin lo) (min (Fin hi) v))"

fun fl_tiny :: "fl \<Rightarrow> fl" where
  "fl_tiny (Fin x) = Fin (x / 10 ^ 12)"
| "fl_tiny v = v"

section \<open>The z-score\<close>

record rolling =
  rolling_mean :: "fl list \<Rightarrow> nat \<Rightarrow> fl option list"
  rolling_std :: "fl list \<Rightarrow> nat \<Rightarrow> fl option list"
  rolling_max :: "fl list \<Rightarrow> nat \<Rightarrow> fl option list"

definition check_window :: "pyint \<Rightarrow> signal_error + nat" where
  "check_window v = (case v of
      PyOther \<Rightarrow> Inl (NotAnInt ''window'')
    | PyInt i \<Rightarrow> if i < 2 then Inl (OutOfRange ''window'' i) else Inr (nat i))"

definition zscore_bound :: "nat \<Rightarrow> real" where
  "zscore_bound window = (real window - 1) / sqrt (real window)"

definition zscore_value :: "real \<Rightarrow> fl \<Rightarrow> fl option \<Rightarrow> fl option \<Rightarrow> fl option \<Rightarrow> fl" where
  "zscore_value bound value mean std scale = (case (mean, std, scale) of
      (Some m, Some sd, Some sc) \<Rightarrow>
        (let z = fl_clip (- bound) bound (fl_div (fl_sub value m) sd)
         in if sd > fl_tiny sc \<and> z \<noteq> Fin 0 then z else Fin 0)
    | _ \<Rightarrow> Fin 0)"

definition zscore_run :: "rolling \<Rightarrow> nat \<Rightarrow> fl list \<Rightarrow> fl list" where
  "zscore_run R window p =
     (let mean = rolling_mean R p window; std = rolling_std R p window;
          scale = rolling_max R (map fl_abs p) window
      in map (\<lambda>t. zscore_value (zscore_bound window) (p ! t) (mean ! t) (std ! t) (scale ! t))
           [0..<length p])"

text \<open>\<open>math.sqrt\<close> of a window without a float raises; so does \<open>float\<close> in \<open>rank\<close>.\<close>

definition zscore :: "rolling \<Rightarrow> series \<Rightarrow> pyint \<Rightarrow> signal_error + series" where
  "zscore R predictions window =
     bind_res (check_window window) (\<lambda>window.
     bind_res (predictions_of predictions) (\<lambda>p.
     bind_res (raise_if (FLOAT_LIMIT \<le> int window) Overflows) (\<lambda>_.
     Inr (float_series (zscore_run R window p)))))"

text \<open>What is documented of a rolling function: as long as its input, from the past only, null until
  the first full window.\<close>

definition rolls :: "(fl list \<Rightarrow> nat \<Rightarrow> fl option list) \<Rightarrow> bool" where
  "rolls g = (\<forall>window. causal (\<lambda>p. g p window) \<and>
     (\<forall>p t. t < length p \<longrightarrow> Suc t < window \<longrightarrow> g p window ! t = None))"

definition rolling_ok :: "rolling \<Rightarrow> bool" where
  "rolling_ok R = (rolls (rolling_mean R) \<and> rolls (rolling_std R) \<and> rolls (rolling_max R))"

lemma rolls_causal: "rolls g \<Longrightarrow> causal (\<lambda>p. g p window)"
  by (simp add: rolls_def)

lemma rolls_take:
  assumes "rolls g" "t < n" "t < length p"
  shows "g (take n p) window ! t = g p window ! t"
  using causal.out_take[OF rolls_causal[OF assms(1), of window], of n p] assms(2) by (metis nth_take)

lemma zscore_run_causal:
  assumes "rolling_ok R"
  shows "causal (zscore_run R window)"
proof
  fix xs :: "fl list" and n
  show "length (zscore_run R window xs) = length xs" by (simp add: zscore_run_def Let_def)
  note r = rolls_take assms[unfolded rolling_ok_def]
  show "take n (zscore_run R window xs) = zscore_run R window (take n xs)"
  proof (rule nth_equalityI)
    fix t assume "t < length (take n (zscore_run R window xs))"
    then have t: "t < n" "t < length xs" by (auto simp: zscore_run_def Let_def)
    then show "take n (zscore_run R window xs) ! t = zscore_run R window (take n xs) ! t"
      using r by (simp add: zscore_run_def Let_def flip: take_map)
  qed (simp add: zscore_run_def Let_def)
qed

lemma fl_clip_range: "lo \<le> hi \<Longrightarrow> fl_clip lo hi v = NaN \<or> (Fin lo \<le> fl_clip lo hi v \<and> fl_clip lo hi v \<le> Fin hi)"
  by (auto simp: fl_clip_def max_def min_def)

lemma zscore_bound_nonneg: "1 \<le> w \<Longrightarrow> 0 \<le> zscore_bound w"
  by (simp add: zscore_bound_def)

section \<open>The rank\<close>

text \<open>One lag of the loop: the rows whose prediction \<open>lag\<close> rows earlier compares that way.\<close>

definition lag_flags :: "(fl \<Rightarrow> fl \<Rightarrow> bool) \<Rightarrow> fl list \<Rightarrow> nat \<Rightarrow> int list" where
  "lag_flags cmp p lag =
     map (\<lambda>t. if lag \<le> t \<and> cmp (p ! (t - lag)) (p ! t) then 1 else 0) [0..<length p]"

definition add_columns :: "int list \<Rightarrow> int list \<Rightarrow> int list" where
  "add_columns xs ys = map2 (+) xs ys"

definition rank_counts :: "nat \<Rightarrow> fl list \<Rightarrow> int list \<times> int list" where
  "rank_counts window p =
     fold (\<lambda>lag (below, equal). (add_columns below (lag_flags (<) p lag),
                                 add_columns equal (lag_flags (=) p lag)))
       [1..<min window (length p + 1)] (replicate (length p) 0, replicate (length p) 0)"

definition rank_run :: "nat \<Rightarrow> fl list \<Rightarrow> fl list" where
  "rank_run window p =
     (let (below, equal) = rank_counts window p
      in map (\<lambda>t. let value = of_int (2 * below ! t + equal ! t - (int window - 1)) / (real window - 1)
                  in if t < window - 1 \<or> value = 0 then Fin 0 else Fin value) [0..<length p])"

definition rank :: "series \<Rightarrow> pyint \<Rightarrow> signal_error + series" where
  "rank predictions window =
     bind_res (check_window window) (\<lambda>window.
     bind_res (predictions_of predictions) (\<lambda>p.
     bind_res (raise_if (FLOAT_LIMIT \<le> int window - 1) Overflows) (\<lambda>_.
     Inr (float_series (rank_run window p)))))"

text \<open>The other predictions of the window ending at \<open>t\<close>.\<close>

definition window_others :: "nat \<Rightarrow> fl list \<Rightarrow> nat \<Rightarrow> fl list" where
  "window_others window p t = map (\<lambda>lag. p ! (t - lag)) [1..<window]"

lemma length_lag_flags [simp]: "length (lag_flags c p lag) = length p"
  by (simp add: lag_flags_def)

lemma rank_fold:
  assumes "length a = length p" "length b = length p" "t < length p"
    and "fold (\<lambda>lag (below, equal). (add_columns below (lag_flags (<) p lag),
                                 add_columns equal (lag_flags (=) p lag))) lags (a, b) = (x, y)"
  shows "x ! t = a ! t + (\<Sum>lag\<leftarrow>lags. lag_flags (<) p lag ! t) \<and>
         y ! t = b ! t + (\<Sum>lag\<leftarrow>lags. lag_flags (=) p lag ! t)"
  using assms
proof (induction lags arbitrary: a b)
  case Nil
  then show ?case by simp
next
  case (Cons lag lags)
  have "x ! t = add_columns a (lag_flags (<) p lag) ! t + (\<Sum>lag\<leftarrow>lags. lag_flags (<) p lag ! t) \<and>
         y ! t = add_columns b (lag_flags (=) p lag) ! t + (\<Sum>lag\<leftarrow>lags. lag_flags (=) p lag ! t)"
    by (rule Cons.IH) (use Cons.prems in \<open>simp_all add: add_columns_def\<close>)
  then show ?case using Cons.prems(1-3) by (simp add: add_columns_def)
qed

lemma sum_list_zero: "\<forall>x \<in> set xs. f x = (0 :: int) \<Longrightarrow> (\<Sum>x\<leftarrow>xs. f x) = 0"
  by (induction xs) auto

lemma sum_flags:
  assumes "t < length p" "lags = [1..<min window (length p + 1)]"
  shows "(\<Sum>lag\<leftarrow>lags. lag_flags c p lag ! t) = (\<Sum>lag\<leftarrow>[1..<window]. lag_flags c p lag ! t)"
proof (cases "window \<le> length p + 1")
  case False
  then have "[1..<window] = [1..<length p + 1] @ [length p + 1..<window]"
    using upt_add_eq_append[of 1 "length p + 1" "window - (length p + 1)"] by simp
  moreover have "(\<Sum>lag\<leftarrow>[length p + 1..<window]. lag_flags c p lag ! t) = 0"
    using assms(1) by (intro sum_list_zero ballI) (auto simp: lag_flags_def)
  ultimately show ?thesis using assms False by (simp del: upt_Suc)
qed (simp add: assms(2) min_absorb1)

lemma count_flags: "(\<Sum>x\<leftarrow>xs. (if P x then 1 else 0 :: int)) = int (length (filter P xs))"
  by (induction xs) auto

lemma rank_counts_sum:
  assumes "t < length p" "rank_counts window p = (below, equal)"
  shows "below ! t = (\<Sum>lag\<leftarrow>[1..<window]. lag_flags (<) p lag ! t)"
    "equal ! t = (\<Sum>lag\<leftarrow>[1..<window]. lag_flags (=) p lag ! t)"
proof -
  have zero: "length (replicate (length p) (0 :: int)) = length p" "replicate (length p) (0 :: int) ! t = 0"
    using assms(1) by simp_all
  note fold = rank_fold[OF zero(1) zero(1) assms(1) assms(2)[unfolded rank_counts_def]]
  show "below ! t = (\<Sum>lag\<leftarrow>[1..<window]. lag_flags (<) p lag ! t)"
    "equal ! t = (\<Sum>lag\<leftarrow>[1..<window]. lag_flags (=) p lag ! t)"
    using fold unfolding sum_flags[OF assms(1) refl] zero(2) by linarith+
qed

lemma rank_counts_window:
  assumes "t < length p" "window - 1 \<le> t" "rank_counts window p = (below, equal)"
  shows "below ! t = int (length (filter (\<lambda>v. v < p ! t) (window_others window p t)))"
    "equal ! t = int (length (filter (\<lambda>v. v = p ! t) (window_others window p t)))"
proof -
  have sum: "(\<Sum>lag\<leftarrow>[1..<window]. lag_flags c p lag ! t) =
      int (length (filter (\<lambda>v. c v (p ! t)) (window_others window p t)))" for c
  proof -
    have "map (\<lambda>lag. lag_flags c p lag ! t) [1..<window] =
        map (\<lambda>lag. if c (p ! (t - lag)) (p ! t) then 1 else 0) [1..<window]"
      using assms(1,2) by (intro map_cong refl) (auto simp: lag_flags_def)
    then show ?thesis unfolding window_others_def filter_map length_map comp_def
      by (simp only: count_flags)
  qed
  show "below ! t = int (length (filter (\<lambda>v. v < p ! t) (window_others window p t)))"
    "equal ! t = int (length (filter (\<lambda>v. v = p ! t) (window_others window p t)))"
    unfolding rank_counts_sum[OF assms(1,3)] sum by (rule refl)+
qed

lemma rank_run_nth:
  assumes "t < length p" "2 \<le> window"
  shows "rank_run window p ! t = (if t < window - 1 then Fin 0 else
     Fin (of_int (2 * int (length (filter (\<lambda>v. v < p ! t) (window_others window p t))) +
                  int (length (filter (\<lambda>v. v = p ! t) (window_others window p t))) -
                  (int window - 1)) / (real window - 1)))"
proof (cases "rank_counts window p")
  case (Pair below equal)
  then show ?thesis
    using assms rank_counts_window[OF assms(1) _ Pair] by (auto simp: rank_run_def Let_def not_less)
qed

lemma rank_run_causal: "causal (rank_run window)"
proof
  fix xs :: "fl list" and n
  show len: "length (rank_run window xs) = length xs" for xs
    by (simp add: rank_run_def split: prod.split)
  have nth: "rank_run window (take n xs) ! t = rank_run window xs ! t" if "t < n" "t < length xs" for t
  proof -
    obtain a b where ab: "rank_counts window xs = (a, b)" by fastforce
    obtain c d where cd: "rank_counts window (take n xs) = (c, d)" by fastforce
    have flags: "lag_flags f (take n xs) lag ! t = lag_flags f xs lag ! t" for f lag
      using that by (simp add: lag_flags_def)
    have t: "t < length (take n xs)" using that by simp
    have "a ! t = c ! t" "b ! t = d ! t"
      unfolding rank_counts_sum[OF that(2) ab] rank_counts_sum[OF t cd] flags by (rule refl)+
    then show ?thesis using that ab cd by (simp add: rank_run_def)
  qed
  show "take n (rank_run window xs) = rank_run window (take n xs)"
    by (rule nth_equalityI) (auto simp: len nth)
qed

interpretation rank: causal "rank_run window" for window
  by (rule rank_run_causal)

lemma filters_disjoint_le:
  "length (filter (\<lambda>v. v < (x :: fl)) xs) + length (filter (\<lambda>v. v = x) xs) \<le> length xs"
  by (induction xs) auto

lemma filter_less_all: "length (filter (\<lambda>v. v < (x :: fl)) xs) = length xs \<longleftrightarrow> (\<forall>v \<in> set xs. v < x)"
  by (metis filter_True length_filter_less less_irrefl)

text \<open>The rank of a prediction is its place among the \<open>window\<close> predictions that end at it, scaled
  to [-1, 1]: twice the smaller ones plus the equal ones, less all others, over all others. It is 1
  exactly when all others are smaller, and 0 on the rows before the first full window.\<close>

theorem rank_is_place_in_window:
  assumes "rank s (PyInt (int w)) = Inr (float_series ys)" "predictions_of s = Inr p" "t < length p"
  shows "(t < w - 1 \<longrightarrow> ys ! t = Fin 0) \<and> (w - 1 \<le> t \<longrightarrow> (\<exists>below equal r.
      below = length (filter (\<lambda>v. v < p ! t) (window_others w p t)) \<and>
      equal = length (filter (\<lambda>v. v = p ! t) (window_others w p t)) \<and>
      ys ! t = Fin r \<and> r = (2 * real below + real equal - real (w - 1)) / real (w - 1) \<and>
      -1 \<le> r \<and> r \<le> 1 \<and> (r = 1 \<longleftrightarrow> (\<forall>v \<in> set (window_others w p t). v < p ! t))))"
proof -
  have w: "2 \<le> w" and ys: "ys = rank_run w p"
    using assms(1,2) by (auto simp: rank_def res_simps check_window_def split: if_splits)
  let ?o = "window_others w p t"
  define b e where "b = length (filter (\<lambda>v. v < p ! t) ?o)" and "e = length (filter (\<lambda>v. v = p ! t) ?o)"
  have le: "b + e \<le> w - 1" using filters_disjoint_le[of "p ! t" ?o] by (simp add: b_def e_def window_others_def)
  have all: "b = w - 1 \<longleftrightarrow> (\<forall>v \<in> set ?o. v < p ! t)"
    using filter_less_all[of "p ! t" ?o] by (simp add: b_def window_others_def)
  define r where "r = (2 * real b + real e - real (w - 1)) / real (w - 1)"
  have pos: "0 < real (w - 1)" using w by simp
  have real_le: "real b + real e \<le> real (w - 1)" using le by linarith
  have "-1 \<le> r" unfolding r_def using pos by (simp add: le_divide_eq)
  moreover have "r \<le> 1" unfolding r_def using pos real_le by (simp add: divide_le_eq)
  moreover have "r = 1 \<longleftrightarrow> b = w - 1"
    unfolding r_def using pos real_le by (simp add: divide_eq_eq) linarith
  moreover have "ys ! t = (if t < w - 1 then Fin 0 else Fin r)"
    unfolding ys rank_run_nth[OF assms(3) w] r_def b_def e_def using w by (simp add: of_nat_diff)
  ultimately show ?thesis using all unfolding r_def b_def e_def by (simp add: not_less)
qed

theorem rank_is_place_in_window_witness:
  "rank (float_series [Fin 1, Fin 3, Fin 2]) (PyInt (int 2)) = Inr (float_series [Fin 0, Fin 1, Fin (-1)]) \<and>
   (\<exists>r. [Fin 0, Fin 1, Fin (-1)] ! 1 = Fin r \<and> r \<le> 1)"
proof -
  have run: "rank (float_series [Fin 1, Fin 3, Fin 2]) (PyInt (int 2)) = Inr (float_series [Fin 0, Fin 1, Fin (-1)])"
    by code_simp
  have "predictions_of (float_series [Fin 1, Fin 3, Fin 2]) = Inr [Fin 1, Fin 3, Fin 2]" by code_simp
  from rank_is_place_in_window[OF run this, of 1] show ?thesis using run by auto
qed

end
