(* ===== verification/SignalClusters.thy ===== *)
theory SignalClusters
  imports SignalFilters
begin

text \<open>
  \<open>signals/clusters.py\<close>: the signal from one-dimensional k-means groups of earlier predictions. The
  fit works on the sorted values: \<open>edges\<close> finds the groups by bisection, and the main theorem says
  that these runs are the groups of the nearest center (\<open>nearest\<close>), the rule predictions are
  assigned by.
\<close>

section \<open>The fit\<close>

definition first_nearer :: "real list \<Rightarrow> real \<Rightarrow> real \<Rightarrow> nat" where
  "first_nearer ordered low high =
     bisect (\<lambda>i. \<bar>ordered ! i - high\<bar> < \<bar>ordered ! i - low\<bar>) 0 (length ordered)"

definition edge_cut :: "real list \<Rightarrow> real list \<Rightarrow> nat \<Rightarrow> nat list \<Rightarrow> nat list" where
  "edge_cut ordered centers i cuts =
     (let above = (if Suc i < length cuts then cuts ! Suc i else length ordered)
      in cuts[i := min (first_nearer ordered (centers ! i) (centers ! Suc i)) above])"

definition edges :: "real list \<Rightarrow> real list \<Rightarrow> nat list" where
  "edges ordered centers =
     (let n = length ordered; cuts = replicate (length centers - 1) n
      in 0 # fold (edge_cut ordered centers) (rev [0..<length cuts]) cuts @ [n])"

definition group_mean :: "real list \<Rightarrow> real \<Rightarrow> nat \<Rightarrow> nat \<Rightarrow> real" where
  "group_mean ordered center lo hi =
     (if hi > lo then sum_list (take (hi - lo) (drop lo ordered)) / real (hi - lo) else center)"

definition move_centers :: "real list \<Rightarrow> nat list \<Rightarrow> real list \<Rightarrow> real list" where
  "move_centers ordered es centers =
     sort (map (\<lambda>(center, lo, hi). group_mean ordered center lo hi) (zip centers (zip es (tl es))))"

fun fit_rounds :: "nat \<Rightarrow> real list \<Rightarrow> nat list \<Rightarrow> real list \<Rightarrow> real list" where
  "fit_rounds 0 ordered es centers = centers"
| "fit_rounds (Suc rounds) ordered es centers =
     (let new_edges = edges ordered centers
      in if new_edges = es then centers
         else fit_rounds rounds ordered new_edges (move_centers ordered new_edges centers))"

definition ITERATIONS :: nat where "ITERATIONS = 100"

definition fit :: "real list \<Rightarrow> nat \<Rightarrow> real list option" where
  "fit values k =
     (let ordered = sort values; n = length ordered
      in if ordered ! 0 = ordered ! (n - 1) then None
         else Some (fit_rounds ITERATIONS ordered []
                (map (\<lambda>i. ordered ! ((2 * i + 1) * n div (2 * k))) [0..<k])))"

text \<open>\<open>math.fsum\<close> raises \<open>OverflowError\<close> when a sum on the way has no float; the whole run is lost then,
  so the fits are defined without it and these say which of them meet such a group.\<close>

definition fsum_overflows :: "real list \<Rightarrow> bool" where
  "fsum_overflows xs = list_ex (\<lambda>n. of_int FLOAT_LIMIT \<le> \<bar>sum_list (take n xs)\<bar>) [0..<Suc (length xs)]"

definition means_overflow :: "real list \<Rightarrow> nat list \<Rightarrow> bool" where
  "means_overflow ordered es = list_ex (\<lambda>(lo, hi). lo < hi \<and> fsum_overflows (take (hi - lo) (drop lo ordered)))
     (zip es (tl es))"

fun rounds_overflow :: "nat \<Rightarrow> real list \<Rightarrow> nat list \<Rightarrow> real list \<Rightarrow> bool" where
  "rounds_overflow 0 ordered es centers = False"
| "rounds_overflow (Suc rounds) ordered es centers =
     (let new_edges = edges ordered centers
      in if new_edges = es then False
         else means_overflow ordered new_edges \<or>
           rounds_overflow rounds ordered new_edges (move_centers ordered new_edges centers))"

definition fit_overflows :: "real list \<Rightarrow> nat \<Rightarrow> bool" where
  "fit_overflows values k =
     (let ordered = sort values; n = length ordered
      in ordered ! 0 \<noteq> ordered ! (n - 1) \<and> rounds_overflow ITERATIONS ordered []
                (map (\<lambda>i. ordered ! ((2 * i + 1) * n div (2 * k))) [0..<k]))"

definition nearest :: "real \<Rightarrow> real list \<Rightarrow> nat" where
  "nearest value centers =
     fold (\<lambda>i best. if \<bar>value - centers ! i\<bar> < \<bar>value - centers ! best\<bar> then i else best)
       [1..<length centers] 0"

definition label :: "nat \<Rightarrow> nat \<Rightarrow> real" where
  "label g k = (if g = 0 then -1 else if g = k - 1 then 1 else 0)"

section \<open>The signal\<close>

definition check_arguments :: "pyint \<Rightarrow> pyint \<Rightarrow> pyint \<Rightarrow> signal_error + (nat \<times> nat \<times> nat)" where
  "check_arguments k window refit_every = (case k of PyOther \<Rightarrow> Inl (NotAnInt ''k'') | PyInt k \<Rightarrow>
     (case window of PyOther \<Rightarrow> Inl (NotAnInt ''window'') | PyInt w \<Rightarrow>
     (case refit_every of PyOther \<Rightarrow> Inl (NotAnInt ''refit_every'') | PyInt r \<Rightarrow>
        if \<not> (2 \<le> k \<and> k \<le> 5) then Inl (OutOfRange ''k'' k)
        else if w < 2 * k then Inl (OutOfRange ''window'' w)
        else if r < 1 then Inl (OutOfRange ''refit_every'' r)
        else Inr (nat k, nat w, nat r))))"

definition kmeans_step :: "nat \<Rightarrow> nat \<Rightarrow> nat \<Rightarrow> real list \<Rightarrow> nat \<Rightarrow>
    real list option \<times> real list \<Rightarrow> real list option \<times> real list" where
  "kmeans_step k window refit_every values t = (\<lambda>(centers, signal).
     (let centers = (if (t - window) mod refit_every = 0
                     then fit (take window (drop (t - window) values)) k else centers)
      in (centers, case centers of None \<Rightarrow> signal
            | Some cs \<Rightarrow> signal[t := label (nearest (values ! t) cs) k])))"

definition kmeans_run :: "nat \<Rightarrow> nat \<Rightarrow> nat \<Rightarrow> real list \<Rightarrow> real list" where
  "kmeans_run k window refit_every values =
     snd (fold (kmeans_step k window refit_every values) [window..<length values]
            (None, replicate (length values) 0))"

definition kmeans_overflows :: "nat \<Rightarrow> nat \<Rightarrow> nat \<Rightarrow> real list \<Rightarrow> bool" where
  "kmeans_overflows k window refit_every values =
     list_ex (\<lambda>t. (t - window) mod refit_every = 0 \<and> fit_overflows (take window (drop (t - window) values)) k)
       [window..<length values]"

definition kmeans :: "series \<Rightarrow> pyint \<Rightarrow> pyint \<Rightarrow> pyint \<Rightarrow> signal_error + series" where
  "kmeans predictions k window refit_every =
     bind_res (check_arguments k window refit_every) (\<lambda>(k, window, refit_every).
     bind_res (predictions_of predictions) (\<lambda>p.
     bind_res (raise_if (list_ex is_infinite p) InfinitePrediction) (\<lambda>_.
     bind_res (raise_if (kmeans_overflows k window refit_every (map fin_val p)) Overflows) (\<lambda>_.
     Inr (float_series (map Fin (kmeans_run k window refit_every (map fin_val p))))))))"

section \<open>The nearest center\<close>

text \<open>\<open>g\<close> is the group of \<open>v\<close>: no center is nearer, and every lower one is farther.\<close>

definition in_group :: "real \<Rightarrow> real list \<Rightarrow> nat \<Rightarrow> bool" where
  "in_group v cs g = (g < length cs \<and> (\<forall>m < length cs. \<bar>v - cs ! g\<bar> \<le> \<bar>v - cs ! m\<bar>) \<and>
     (\<forall>m < g. \<bar>v - cs ! g\<bar> < \<bar>v - cs ! m\<bar>))"

lemma in_group_unique: "in_group v cs g \<Longrightarrow> in_group v cs h \<Longrightarrow> g = h"
  unfolding in_group_def by (meson not_le nat_neq_iff)

lemma nearest_upto:
  assumes "1 \<le> n" "n \<le> length cs"
  shows "in_group v (take n cs)
    (fold (\<lambda>i best. if \<bar>v - cs ! i\<bar> < \<bar>v - cs ! best\<bar> then i else best) [1..<n] 0)"
  using assms
proof (induction n rule: nat_induct_at_least)
  case base
  then show ?case by (cases cs) (simp_all add: in_group_def)
next
  case (Suc n)
  let ?g = "fold (\<lambda>i best. if \<bar>v - cs ! i\<bar> < \<bar>v - cs ! best\<bar> then i else best) [1..<n] 0"
  have IH: "in_group v (take n cs) ?g" using Suc by simp
  then have g: "?g < n" "\<forall>m < n. \<bar>v - cs ! ?g\<bar> \<le> \<bar>v - cs ! m\<bar>" "\<forall>m < ?g. \<bar>v - cs ! ?g\<bar> < \<bar>v - cs ! m\<bar>"
    using Suc by (auto simp: in_group_def)
  have step: "fold (\<lambda>i best. if \<bar>v - cs ! i\<bar> < \<bar>v - cs ! best\<bar> then i else best) [1..<Suc n] 0 =
      (if \<bar>v - cs ! n\<bar> < \<bar>v - cs ! ?g\<bar> then n else ?g)"
    using Suc(1) by simp
  show ?case unfolding step
    using g Suc by (auto simp: in_group_def less_Suc_eq intro: less_le_trans)
qed

lemma nearest_in_group: "cs \<noteq> [] \<Longrightarrow> in_group v cs (nearest v cs)"
  using nearest_upto[of "length cs" cs v] by (simp add: nearest_def Suc_leI)

section \<open>The cuts\<close>

lemma nearer_iff: "low < high \<Longrightarrow> \<bar>v - high\<bar> < \<bar>v - low\<bar> \<longleftrightarrow> (low + high) / 2 < (v :: real)"
  by (auto simp: abs_real_def field_simps)

lemma first_nearer_spec:
  assumes "sorted ordered" "low \<le> high"
  shows "first_nearer ordered low high \<le> length ordered"
    and "j < first_nearer ordered low high \<Longrightarrow> \<bar>ordered ! j - low\<bar> \<le> \<bar>ordered ! j - high\<bar>"
    and "first_nearer ordered low high \<le> j \<Longrightarrow> j < length ordered \<Longrightarrow>
      \<bar>ordered ! j - high\<bar> < \<bar>ordered ! j - low\<bar>"
proof -
  have mono: "\<bar>ordered ! j - high\<bar> < \<bar>ordered ! j - low\<bar>"
    if "0 \<le> i" "i \<le> j" "j < length ordered" "\<bar>ordered ! i - high\<bar> < \<bar>ordered ! i - low\<bar>" for i j
  proof -
    have "ordered ! i \<le> ordered ! j" using assms(1) that by (simp add: sorted_nth_mono)
    moreover have "low < high" using assms(2) that(4) by (cases "low = high") auto
    ultimately show ?thesis using that(4) by (simp add: nearer_iff)
  qed
  have "let r = first_nearer ordered low high in 0 \<le> r \<and> r \<le> length ordered \<and>
      (\<forall>i. 0 \<le> i \<and> i < r \<longrightarrow> \<not> \<bar>ordered ! i - high\<bar> < \<bar>ordered ! i - low\<bar>) \<and>
      (\<forall>i. r \<le> i \<and> i < length ordered \<longrightarrow> \<bar>ordered ! i - high\<bar> < \<bar>ordered ! i - low\<bar>)"
    unfolding first_nearer_def Let_def by (rule bisect_spec[OF le0 mono])
  note spec = this[unfolded Let_def]
  show "first_nearer ordered low high \<le> length ordered" using spec by blast
  show "j < first_nearer ordered low high \<Longrightarrow> \<bar>ordered ! j - low\<bar> \<le> \<bar>ordered ! j - high\<bar>"
    using spec le0 not_le by blast
  show "first_nearer ordered low high \<le> j \<Longrightarrow> j < length ordered \<Longrightarrow>
      \<bar>ordered ! j - high\<bar> < \<bar>ordered ! j - low\<bar>" using spec by blast
qed

lemma length_fold_cut: "length (fold (edge_cut ordered cs) is cuts) = length cuts"
  by (induction "is" arbitrary: cuts) (simp_all add: edge_cut_def Let_def)

text \<open>From the last cut down: each cut is the bisection's, but never above the next one.\<close>

definition cut_value :: "real list \<Rightarrow> real list \<Rightarrow> nat list \<Rightarrow> nat \<Rightarrow> bool" where
  "cut_value ordered cs cuts i = (cuts ! i = min (first_nearer ordered (cs ! i) (cs ! Suc i))
     (if Suc i < length cuts then cuts ! Suc i else length ordered))"

lemma fold_cuts:
  "m \<le> length cuts \<Longrightarrow>
   (let res = fold (edge_cut ordered cs) (rev [m..<length cuts]) cuts
    in (\<forall>i. m \<le> i \<and> i < length cuts \<longrightarrow> cut_value ordered cs res i))"
proof (induction "length cuts - m" arbitrary: m)
  case 0
  then show ?case by auto
next
  case (Suc d)
  then have m: "m < length cuts" by simp
  let ?res = "fold (edge_cut ordered cs) (rev [Suc m..<length cuts]) cuts"
  have IH: "\<forall>i. Suc m \<le> i \<and> i < length cuts \<longrightarrow> cut_value ordered cs ?res i"
    using Suc(1)[of "Suc m"] Suc(2) m by (simp add: Let_def)
  have step: "fold (edge_cut ordered cs) (rev [m..<length cuts]) cuts = edge_cut ordered cs m ?res"
    using m by (simp add: upt_conv_Cons)
  have "cut_value ordered cs (edge_cut ordered cs m ?res) i" if i: "m \<le> i" "i < length cuts" for i
  proof (cases "i = m")
    case True
    then show ?thesis using m by (simp add: cut_value_def edge_cut_def Let_def length_fold_cut)
  next
    case False
    then have "cut_value ordered cs ?res i" using IH i by simp
    then show ?thesis using False i m by (simp add: cut_value_def edge_cut_def Let_def length_fold_cut)
  qed
  then show ?case unfolding step by (simp add: Let_def)
qed

definition cuts_of :: "real list \<Rightarrow> real list \<Rightarrow> nat list" where
  "cuts_of ordered cs = (let cuts = replicate (length cs - 1) (length ordered)
     in fold (edge_cut ordered cs) (rev [0..<length cuts]) cuts)"

lemma edges_cuts: "edges ordered cs = 0 # cuts_of ordered cs @ [length ordered]"
  by (simp add: edges_def cuts_of_def Let_def)

lemma length_cuts_of [simp]: "length (cuts_of ordered cs) = length cs - 1"
  by (simp add: cuts_of_def Let_def length_fold_cut)

lemma cuts_of_nth:
  "i < length cs - 1 \<Longrightarrow> cut_value ordered cs (cuts_of ordered cs) i"
  using fold_cuts[of 0 "replicate (length cs - 1) (length ordered)" ordered cs]
  by (simp add: cuts_of_def Let_def)

lemma cuts_of_bounds:
  assumes "i < length cs - 1"
  shows "cuts_of ordered cs ! i \<le> first_nearer ordered (cs ! i) (cs ! Suc i)"
    "Suc i < length cs - 1 \<Longrightarrow> cuts_of ordered cs ! i \<le> cuts_of ordered cs ! Suc i"
    "cuts_of ordered cs ! i \<le> length ordered"
  using cuts_of_nth[OF assms, of ordered] assms bisect_le[OF le0]
  by (auto simp: cut_value_def first_nearer_def min_le_iff_disj split: if_splits)

text \<open>A cut below a row is the bisection's own, or the cut above it is below the row as well.\<close>

lemma cuts_of_below:
  assumes "i < length cs - 1" "cuts_of ordered cs ! i \<le> j" "j < length ordered"
    and "Suc i < length cs - 1 \<Longrightarrow> j < cuts_of ordered cs ! Suc i"
  shows "first_nearer ordered (cs ! i) (cs ! Suc i) \<le> j"
  using cuts_of_nth[OF assms(1), of ordered] assms by (auto simp: cut_value_def min_def split: if_splits)

lemma cuts_of_mono:
  "i \<le> m \<Longrightarrow> m < length cs - 1 \<Longrightarrow> cuts_of ordered cs ! i \<le> cuts_of ordered cs ! m"
proof (induction m rule: dec_induct)
  case (step m)
  then show ?case using cuts_of_bounds(2)[of m cs ordered] by simp
qed simp

lemma edges_group:
  assumes sorted: "sorted ordered" "sorted cs" and g: "g < length cs"
    and j: "edges ordered cs ! g \<le> j" "j < edges ordered cs ! Suc g"
  shows "in_group (ordered ! j) cs g"
proof -
  let ?v = "ordered ! j" and ?cuts = "cuts_of ordered cs"
  have edge: "edges ordered cs ! Suc i = (if i < length cs - 1 then ?cuts ! i else length ordered)"
    if "i < length cs" for i
    using that by (simp add: edges_cuts nth_append)
  have up: "j < (if g < length cs - 1 then ?cuts ! g else length ordered)" using edge[OF g] j(2) by simp
  have len: "j < length ordered" using up cuts_of_bounds(3)[of g cs ordered] by (auto split: if_splits)
  have mono: "cs ! a \<le> cs ! b" if "a \<le> b" "b < length cs" for a b
    using sorted(2) that by (simp add: sorted_nth_mono)
  have upper: "\<bar>?v - cs ! m\<bar> \<le> \<bar>?v - cs ! Suc m\<bar>" if "g \<le> m" "Suc m < length cs" for m
  proof -
    have m: "m < length cs - 1" using that by simp
    then have "j < ?cuts ! m"
      using up cuts_of_mono[OF that(1) m, of ordered] that(1) by simp
    then have "j < first_nearer ordered (cs ! m) (cs ! Suc m)"
      using cuts_of_bounds(1)[OF m, of ordered] by simp
    then show ?thesis using first_nearer_spec(2)[OF sorted(1) mono] that by simp
  qed
  have above: "\<bar>?v - cs ! g\<bar> \<le> \<bar>?v - cs ! m\<bar>" if "g \<le> m" "m < length cs" for m
    using that
  proof (induction m rule: dec_induct)
    case (step m)
    then show ?case using upper[of m] by simp
  qed simp
  have below: "\<bar>?v - cs ! g\<bar> < \<bar>?v - cs ! m\<bar>" if "m < g" for m
  proof -
    have "0 < g" using that by simp
    then obtain h where h: "g = Suc h" by (cases g) auto
    have h': "h < length cs - 1" using h g by simp
    have "?cuts ! h \<le> j" using edge[of h] j(1) h g h' by simp
    moreover have "Suc h < length cs - 1 \<Longrightarrow> j < ?cuts ! Suc h" using up h by simp
    ultimately have "first_nearer ordered (cs ! h) (cs ! Suc h) \<le> j"
      using cuts_of_below[OF h'] len by blast
    then have near: "\<bar>?v - cs ! Suc h\<bar> < \<bar>?v - cs ! h\<bar>"
      using first_nearer_spec(3)[OF sorted(1) mono] len h' by simp
    have "cs ! h \<le> cs ! Suc h" by (rule mono) (use h' in simp_all)
    then have "cs ! h < cs ! Suc h" using near by (cases "cs ! h = cs ! Suc h") auto
    then have "(cs ! h + cs ! Suc h) / 2 < ?v" using near by (simp add: nearer_iff)
    then have "cs ! h < ?v" using \<open>cs ! h < cs ! Suc h\<close> by (simp add: field_simps)
    moreover have "cs ! m \<le> cs ! h" by (rule mono) (use that h h' in simp_all)
    ultimately have "\<bar>?v - cs ! h\<bar> \<le> \<bar>?v - cs ! m\<bar>" by simp
    then show ?thesis using near h by simp
  qed
  show ?thesis unfolding in_group_def
  proof (intro conjI allI impI)
    show "g < length cs" by (rule g)
    show "\<bar>?v - cs ! g\<bar> \<le> \<bar>?v - cs ! m\<bar>" if "m < length cs" for m
      using above[of m] below[of m] that by (cases "m < g") auto
    show "\<bar>?v - cs ! g\<bar> < \<bar>?v - cs ! m\<bar>" if "m < g" for m using below[OF that] .
  qed
qed

lemma nearest_of_edges:
  assumes "sorted ordered" "sorted cs" "g < length cs"
    and "edges ordered cs ! g \<le> j" "j < edges ordered cs ! Suc g"
  shows "nearest (ordered ! j) cs = g"
proof -
  have "cs \<noteq> []" using assms(3) by auto
  from in_group_unique[OF nearest_in_group[OF this] edges_group[OF assms]] show ?thesis .
qed

text \<open>The edges go from 0 up to the number of values, so every row is between two of them.\<close>

lemma edges_ends:
  assumes "cs \<noteq> []"
  shows "edges ordered cs ! 0 = 0" "edges ordered cs ! length cs = length ordered"
proof -
  have "length (cuts_of ordered cs) = length cs - 1" by simp
  then show "edges ordered cs ! 0 = 0" "edges ordered cs ! length cs = length ordered"
    using assms by (cases cs; simp add: edges_cuts nth_append)+
qed

lemma sorted_edges: "sorted (edges ordered cs)"
proof -
  have "sorted (cuts_of ordered cs)" using cuts_of_mono[of _ _ cs ordered] by (simp add: sorted_iff_nth_mono)
  moreover have "\<forall>c \<in> set (cuts_of ordered cs). c \<le> length ordered"
    using cuts_of_bounds(3)[of _ cs ordered] by (auto simp: in_set_conv_nth)
  ultimately show ?thesis by (simp add: edges_cuts sorted_append)
qed

lemma edges_cover:
  assumes "cs \<noteq> []" "j < length ordered"
  shows "\<exists>g < length cs. edges ordered cs ! g \<le> j \<and> j < edges ordered cs ! Suc g"
proof -
  define P where "P = (\<lambda>g. j < edges ordered cs ! Suc g)"
  have top: "P (length cs - 1)" using assms edges_ends(2)[OF assms(1), of ordered] by (cases cs) (simp_all add: P_def)
  define g where "g = (LEAST g. P g)"
  have "P g" "g \<le> length cs - 1" unfolding g_def using LeastI[of P, OF top] Least_le[of P, OF top] by simp_all
  moreover have "edges ordered cs ! g \<le> j"
  proof (cases g)
    case 0
    then show ?thesis using edges_ends(1)[OF assms(1)] by simp
  next
    case (Suc h)
    then have "\<not> P h" using not_less_Least[of h P] by (simp add: g_def)
    then show ?thesis by (simp add: P_def Suc)
  qed
  moreover have "g < length cs" using calculation(2) assms(1) by (cases cs) auto
  ultimately show ?thesis unfolding P_def by blast
qed

text \<open>C13: the groups \<open>_edges\<close> finds by bisection are those of the nearest center: on sorted values and
  sorted centers, equal centers included, the edges rise from 0 to the number of values, one more than
  there are centers, and a row lies between the edges of a center exactly when \<open>_nearest\<close> assigns its
  value to that center, a tie to the lower one. So every value is in exactly one group, its nearest.\<close>

theorem edges_are_nearest_groups:
  assumes "sorted ordered" "sorted cs" "cs \<noteq> []"
  shows "length (edges ordered cs) = Suc (length cs) \<and> sorted (edges ordered cs) \<and>
    edges ordered cs ! 0 = 0 \<and> edges ordered cs ! length cs = length ordered \<and>
    (\<forall>g < length cs. \<forall>j < length ordered.
       (edges ordered cs ! g \<le> j \<and> j < edges ordered cs ! Suc g) = (nearest (ordered ! j) cs = g))"
proof (intro conjI allI impI)
  show "length (edges ordered cs) = Suc (length cs)" using assms(3) by (cases cs) (simp_all add: edges_cuts)
  show "(edges ordered cs ! g \<le> j \<and> j < edges ordered cs ! Suc g) = (nearest (ordered ! j) cs = g)"
    if "g < length cs" "j < length ordered" for g j
    using nearest_of_edges[OF assms(1,2)] edges_cover[OF assms(3) that(2)] that(1) by blast
qed (rule sorted_edges edges_ends[OF assms(3)])+

theorem edges_are_nearest_groups_witness:
  "edges [0, 1, 5, 6] [0, 5 :: real] = [0, 2, 4] \<and> nearest ([0, 1, 5, 6] ! 2) [0, 5] = 1"
proof -
  have e: "edges [0, 1, 5, 6] [0, 5 :: real] = [0, 2, 4]" by code_simp
  have "sorted [0, 1, 5, 6 :: real]" "sorted [0, 5 :: real]" "[0, 5 :: real] \<noteq> []" by simp_all
  from edges_are_nearest_groups[OF this, unfolded e]
  have "\<forall>g < length [0, 5 :: real]. \<forall>j < length [0, 1, 5, 6 :: real].
      ([0, 2, 4] ! g \<le> j \<and> j < [0, 2, 4] ! Suc g) = (nearest ([0, 1, 5, 6] ! j) [0, 5] = g)" by blast
  from this[rule_format, of 1 2] show ?thesis by (simp add: e)
qed

section \<open>The centers\<close>

lemma length_edges: "length (edges ordered cs) = Suc (Suc (length cs - 1))"
  by (simp add: edges_cuts)

lemma length_move_centers: "cs \<noteq> [] \<Longrightarrow> length (move_centers ordered (edges ordered cs) cs) = length cs"
  by (simp add: move_centers_def length_edges)

lemma sorted_move_centers: "sorted (move_centers ordered es cs)"
  by (simp add: move_centers_def)

lemma mean_between:
  assumes "xs \<noteq> []" "\<forall>x \<in> set xs. lo \<le> x \<and> x \<le> (hi :: real)"
  shows "lo \<le> sum_list xs / real (length xs) \<and> sum_list xs / real (length xs) \<le> hi"
proof -
  have "lo * real (length ys) \<le> sum_list ys \<and> sum_list ys \<le> hi * real (length ys)"
    if "\<forall>x \<in> set ys. lo \<le> x \<and> x \<le> hi" for ys
    using that by (induction ys) (auto simp: algebra_simps)
  then show ?thesis using assms by (simp add: divide_le_eq le_divide_eq)
qed

definition values_in :: "real \<Rightarrow> real \<Rightarrow> real list \<Rightarrow> bool" where
  "values_in lo hi xs = (\<forall>x \<in> set xs. lo \<le> x \<and> x \<le> hi)"

lemma group_mean_within:
  assumes "values_in lo hi ordered" "lo \<le> c" "c \<le> hi" "b \<le> length ordered"
  shows "lo \<le> group_mean ordered c a b \<and> group_mean ordered c a b \<le> hi"
proof (cases "b > a")
  case True
  let ?xs = "take (b - a) (drop a ordered)"
  have "length ?xs = b - a" "?xs \<noteq> []" using True assms(4) by auto
  moreover have "\<forall>x \<in> set ?xs. lo \<le> x \<and> x \<le> hi"
    using assms(1) by (auto simp: values_in_def dest: in_set_takeD in_set_dropD)
  ultimately show ?thesis using mean_between[of ?xs lo hi] True by (simp add: group_mean_def)
qed (use assms in \<open>simp add: group_mean_def\<close>)

lemma edges_le: "e \<in> set (edges ordered cs) \<Longrightarrow> e \<le> length ordered"
  using cuts_of_bounds(3)[of _ cs ordered] by (auto simp: edges_cuts in_set_conv_nth)

lemma move_centers_within:
  assumes "values_in lo hi ordered" "values_in lo hi cs"
  shows "values_in lo hi (move_centers ordered (edges ordered cs) cs)"
proof -
  let ?es = "edges ordered cs"
  have "lo \<le> group_mean ordered c a b \<and> group_mean ordered c a b \<le> hi"
    if "(c, a, b) \<in> set (zip cs (zip ?es (tl ?es)))" for c a b
  proof -
    have "c \<in> set cs" "b \<in> set (tl ?es)" using that by (meson in_set_zipE)+
    then have "c \<in> set cs" "b \<in> set ?es" by (auto simp: edges_cuts)
    then show ?thesis using assms edges_le by (intro group_mean_within) (auto simp: values_in_def)
  qed
  then show ?thesis by (fastforce simp: values_in_def move_centers_def)
qed

lemma fit_rounds_keeps:
  assumes "cs \<noteq> []" "sorted cs" "values_in lo hi cs" "values_in lo hi ordered"
  shows "length (fit_rounds rounds ordered es cs) = length cs \<and> sorted (fit_rounds rounds ordered es cs) \<and>
    values_in lo hi (fit_rounds rounds ordered es cs)"
  using assms(1-3)
proof (induction rounds arbitrary: es cs)
  case (Suc rounds)
  let ?cs = "move_centers ordered (edges ordered cs) cs"
  have len: "length ?cs = length cs" using length_move_centers Suc.prems(1) by blast
  have "?cs \<noteq> []" using len Suc.prems(1) by auto
  then have "length (fit_rounds rounds ordered (edges ordered cs) ?cs) = length ?cs \<and>
      sorted (fit_rounds rounds ordered (edges ordered cs) ?cs) \<and>
      values_in lo hi (fit_rounds rounds ordered (edges ordered cs) ?cs)"
    by (rule Suc.IH[OF _ sorted_move_centers move_centers_within[OF assms(4) Suc.prems(3)]])
  then show ?case using Suc.prems len by (simp add: Let_def)
qed simp

text \<open>A fit has \<open>k\<close> centers, in ascending order and within the values it was made from: the initial
  quantiles are, and every round keeps it. The sorted order is what \<open>_edges\<close> relies on.\<close>

theorem fit_centers:
  assumes "fit values k = Some cs" "2 \<le> k" "values \<noteq> []" "\<forall>v \<in> set values. lo \<le> v \<and> v \<le> hi"
  shows "length cs = k \<and> sorted cs \<and> (\<forall>c \<in> set cs. lo \<le> c \<and> c \<le> hi)"
proof -
  define ordered where "ordered = sort values"
  let ?n = "length ordered"
  let ?start = "map (\<lambda>i. ordered ! ((2 * i + 1) * ?n div (2 * k))) [0..<k]"
  have cs: "cs = fit_rounds ITERATIONS ordered [] ?start"
    using assms(1) by (simp add: fit_def ordered_def Let_def split: if_splits)
  have n: "0 < ?n" using assms(3) by (simp add: ordered_def)
  have idx: "(2 * i + 1) * ?n div (2 * k) < ?n" if "i < k" for i
  proof -
    have "(2 * i + 1) * ?n < (2 * k) * ?n" using that n by (intro mult_strict_right_mono) simp_all
    then have "(2 * i + 1) * ?n < ?n * (2 * k)" by (simp only: mult.commute)
    then show ?thesis using that by (subst div_less_iff_less_mult) simp_all
  qed
  have "sorted ?start"
  proof (rule sorted_iff_nth_mono[THEN iffD2], intro allI impI)
    fix i j assume ij: "i \<le> j" "j < length ?start"
    then have "(2 * i + 1) * ?n div (2 * k) \<le> (2 * j + 1) * ?n div (2 * k)" by (intro div_le_mono mult_le_mono1) simp
    then show "?start ! i \<le> ?start ! j"
      using ij idx[of j] by (simp add: sorted_nth_mono ordered_def)
  qed
  moreover have w: "values_in lo hi ordered" using assms(4) by (simp add: values_in_def ordered_def)
  moreover have "values_in lo hi ?start" using w idx by (auto simp: values_in_def)
  moreover have "?start \<noteq> []" using assms(2) by simp
  ultimately have "length cs = length ?start \<and> sorted cs \<and> values_in lo hi cs"
    unfolding cs using fit_rounds_keeps by blast
  then show ?thesis by (simp add: values_in_def)
qed

theorem fit_centers_witness:
  "fit [0, 1, 5, 6] 2 = Some [1 / 2, 11 / 2] \<and> sorted [1 / 2, 11 / 2 :: real]"
proof -
  have e: "fit [0, 1, 5, 6] 2 = Some [1 / 2, 11 / 2]" by code_simp
  then show ?thesis using fit_centers[OF e, of 0 6] by simp
qed

section \<open>No look-ahead\<close>

text \<open>The latest refit row up to \<open>t\<close>, and the fit made there from the window before it.\<close>

definition refit_row :: "nat \<Rightarrow> nat \<Rightarrow> nat \<Rightarrow> nat" where
  "refit_row window refit_every t = window + (t - window) div refit_every * refit_every"

definition fit_at :: "nat \<Rightarrow> nat \<Rightarrow> nat \<Rightarrow> real list \<Rightarrow> nat \<Rightarrow> real list option" where
  "fit_at k window refit_every values t =
     fit (take window (drop (refit_row window refit_every t - window) values)) k"

definition kmeans_value :: "nat \<Rightarrow> nat \<Rightarrow> nat \<Rightarrow> real list \<Rightarrow> nat \<Rightarrow> real" where
  "kmeans_value k window refit_every values t = (if t < window then 0 else
     case fit_at k window refit_every values t of
       None \<Rightarrow> 0 | Some cs \<Rightarrow> label (nearest (values ! t) cs) k)"

lemma refit_row_now: "window \<le> t \<Longrightarrow> (t - window) mod r = 0 \<Longrightarrow> refit_row window r t = t"
  by (simp add: refit_row_def mod_0_imp_dvd)

lemma refit_row_kept:
  assumes "window \<le> t" "(Suc t - window) mod r \<noteq> 0"
  shows "refit_row window r (Suc t) = refit_row window r t"
proof -
  have "Suc t - window = Suc (t - window)" using assms(1) by simp
  then show ?thesis using assms(2) by (simp add: refit_row_def div_Suc)
qed

lemma kmeans_fold:
  assumes "window + m \<le> length values"
  shows "\<exists>c s. fold (kmeans_step k window r values) [window..<window + m] (None, replicate (length values) 0) = (c, s) \<and>
    (0 < m \<longrightarrow> c = fit_at k window r values (window + m - 1)) \<and> length s = length values \<and>
    (\<forall>t < length values. s ! t = (if t < window + m then kmeans_value k window r values t else 0))"
  using assms
proof (induction m)
  case 0
  then show ?case by (simp add: kmeans_value_def)
next
  case (Suc m)
  then obtain c s where cs: "fold (kmeans_step k window r values) [window..<window + m]
      (None, replicate (length values) 0) = (c, s)" "0 < m \<longrightarrow> c = fit_at k window r values (window + m - 1)"
      "length s = length values"
      "\<forall>t < length values. s ! t = (if t < window + m then kmeans_value k window r values t else 0)"
    by (metis Suc_leD add_Suc_right)
  let ?t = "window + m"
  define c' where "c' = (if m mod r = 0 then fit (take window (drop m values)) k else c)"
  have c': "c' = fit_at k window r values ?t"
  proof (cases "m mod r = 0")
    case True
    then show ?thesis using refit_row_now[of window ?t r] by (simp add: c'_def fit_at_def)
  next
    case False
    then obtain q where q: "m = Suc q" by (cases m) auto
    have "refit_row window r (Suc (window + q)) = refit_row window r (window + q)"
      by (rule refit_row_kept) (use False q in simp_all)
    then show ?thesis using False cs(2) q by (simp add: c'_def fit_at_def)
  qed
  let ?s = "case c' of None \<Rightarrow> s | Some cs \<Rightarrow> s[?t := label (nearest (values ! ?t) cs) k]"
  have "fold (kmeans_step k window r values) [window..<window + Suc m] (None, replicate (length values) 0) = (c', ?s)"
    using cs(1) by (simp add: kmeans_step_def c'_def Let_def)
  moreover have "length ?s = length values" using cs(3) by (simp split: option.split)
  moreover have "?s ! t = (if t < window + Suc m then kmeans_value k window r values t else 0)"
    if "t < length values" for t
    using cs(3,4) that c' Suc.prems
    by (cases "t = ?t") (auto simp: kmeans_value_def less_Suc_eq nth_list_update split: option.split)
  ultimately show ?case using c' by auto
qed

lemma kmeans_run_nth:
  assumes "t < length values"
  shows "kmeans_run k window r values ! t = kmeans_value k window r values t"
proof (cases "window \<le> length values")
  case True
  then show ?thesis
    using kmeans_fold[of window "length values - window" "values" k r] assms by (auto simp: kmeans_run_def)
next
  case False
  then show ?thesis using assms by (simp add: kmeans_run_def kmeans_value_def)
qed

lemma length_kmeans_run: "length (kmeans_run k window r values) = length values"
proof (cases "window \<le> length values")
  case True
  then show ?thesis
    using kmeans_fold[of window "length values - window" "values" k r] by (auto simp: kmeans_run_def)
qed (simp add: kmeans_run_def)

lemma refit_row_le: "window \<le> t \<Longrightarrow> refit_row window r t \<le> t"
  unfolding refit_row_def using div_times_less_eq_dividend[of "t - window" r] by linarith

lemma kmeans_run_causal: "causal (kmeans_run k window r)"
proof
  fix xs :: "real list" and n
  show "length (kmeans_run k window r xs) = length xs" by (rule length_kmeans_run)
  have val: "kmeans_value k window r (take n xs) t = kmeans_value k window r xs t" if "t < n" "t < length xs" for t
  proof (cases "t < window")
    case False
    have le: "refit_row window r t \<le> t" using refit_row_le False by simp
    have "window \<le> refit_row window r t" by (simp add: refit_row_def)
    then have "window \<le> n - (refit_row window r t - window)" using le that(1) by linarith
    then have "take window (drop (refit_row window r t - window) (take n xs)) =
        take window (drop (refit_row window r t - window) xs)"
      by (simp add: drop_take min_absorb1)
    then show ?thesis using False that by (simp add: kmeans_value_def fit_at_def split: option.split)
  qed (simp add: kmeans_value_def)
  show "take n (kmeans_run k window r xs) = kmeans_run k window r (take n xs)"
    by (rule nth_equalityI) (auto simp: length_kmeans_run kmeans_run_nth val)
qed

interpretation kmeans: causal "kmeans_run k window r" for k window r
  by (rule kmeans_run_causal)

lemma kmeans_overflows_take:
  assumes "\<not> kmeans_overflows k window r xs"
  shows "\<not> kmeans_overflows k window r (take n xs)"
proof -
  have "take window (drop (t - window) (take n xs)) = take window (drop (t - window) xs)"
    if "window \<le> t" "t < length (take n xs)" for t
  proof -
    have "t < n" using that(2) by simp
    then have "window \<le> n - (t - window)" using that(1) by linarith
    then show ?thesis by (simp add: drop_take min_absorb1)
  qed
  then show ?thesis using assms unfolding kmeans_overflows_def list_ex_iff by auto
qed

lemma kmeans_run_signal: "set (kmeans_run k window r values) \<subseteq> {-1, 0, 1}"
  by (auto simp: in_set_conv_nth length_kmeans_run kmeans_run_nth kmeans_value_def label_def
      split: option.splits if_splits)

text \<open>The signal of \<open>kmeans\<close> at a row comes from the fit of the latest refit row, made on the
  \<open>window\<close> predictions before it: 0 before the first full window or when the fit is degenerate,
  else the label of the row's nearest center.\<close>

theorem kmeans_uses_latest_fit:
  assumes "kmeans s (PyInt (int k)) (PyInt (int w)) (PyInt (int r)) = Inr (float_series ys)"
    and "predictions_of s = Inr p" "t < length p"
  shows "\<exists>f. (w \<le> t \<longrightarrow> w \<le> f \<and> f \<le> t \<and> t < f + r \<and> r dvd (f - w)) \<and>
    ys ! t = Fin (if t < w then 0
      else case fit (take w (drop (f - w) (map fin_val p))) k of None \<Rightarrow> 0
        | Some cs \<Rightarrow> label (nearest (fin_val (p ! t)) cs) k)"
proof -
  have r: "1 \<le> r" and ys: "ys = map Fin (kmeans_run k w r (map fin_val p))"
    using assms(1,2) by (auto simp: kmeans_def res_simps check_arguments_def split: if_splits)
  let ?f = "refit_row w r t"
  have "t - w < (t - w) div r * r + r"
    using div_mult_mod_eq[of "t - w" r] mod_less_divisor[of r "t - w"] r by linarith
  then have "w \<le> t \<Longrightarrow> w \<le> ?f \<and> ?f \<le> t \<and> t < ?f + r \<and> r dvd (?f - w)"
    using refit_row_le[of w t r] unfolding refit_row_def by simp
  moreover have "ys ! t = Fin (kmeans_value k w r (map fin_val p) t)"
    using assms(3) by (simp add: ys length_kmeans_run kmeans_run_nth)
  moreover have "map fin_val p ! t = fin_val (p ! t)" using assms(3) by simp
  ultimately show ?thesis unfolding kmeans_value_def fit_at_def by metis
qed

theorem kmeans_uses_latest_fit_witness:
  "\<exists>ys. kmeans (float_series (map Fin [0, 1, 5, 6, 7])) (PyInt (int 2)) (PyInt (int 4)) (PyInt (int 3)) =
     Inr (float_series ys) \<and> ys ! 4 = Fin 1"
proof -
  let ?s = "float_series (map Fin [0, 1, 5, 6, 7])"
  have run: "kmeans ?s (PyInt (int 2)) (PyInt (int 4)) (PyInt (int 3)) =
      Inr (float_series [Fin 0, Fin 0, Fin 0, Fin 0, Fin 1])" by code_simp
  have p: "predictions_of ?s = Inr (map Fin [0, 1, 5, 6, 7])" by code_simp
  from kmeans_uses_latest_fit[OF run p, of 4] show ?thesis using run by auto
qed

end
