(* ===== verification/CliPostProcessing.thy ===== *)
theory CliPostProcessing
  imports SignalCalibration SignalClusters
begin

text \<open>
  \<open>cli/post_processing.py\<close>: the steps from the predictions to the signal, in their order, how the
  options ask for them (\<open>rule_limit\<close>, \<open>post_processing\<close>, \<open>check_post_processing\<close>) and how
  \<open>run.json\<close> records them (\<open>describe\<close>). \<open>decide_signal\<close> is the function \<open>decide\<close> of the module.
\<close>

section \<open>JSON\<close>

text \<open>A value that may be missing, as \<open>json.dumps\<close> writes it.\<close>

definition json_opt :: "('a \<Rightarrow> json) \<Rightarrow> 'a option \<Rightarrow> json" where
  "json_opt f v = (case v of None \<Rightarrow> JNull | Some x \<Rightarrow> f x)"

lemma json_opt_eq:
  "(\<And>x. f x \<noteq> JNull) \<Longrightarrow> (\<And>x y. f x = f y \<Longrightarrow> x = y) \<Longrightarrow> json_opt f a = json_opt f b \<longleftrightarrow> a = b"
  by (auto simp: json_opt_def split: option.splits) metis+

section \<open>The steps\<close>

datatype calibration = ZscoreCalibration | RankCalibration

datatype rule = ThresholdRule | HysteresisRule | KmeansRule

record post_processing =
  pp_calibrate :: "calibration option"
  pp_calibration_window :: "int option"
  pp_ema :: "int option"
  pp_rule :: rule
  pp_threshold :: "fl option"
  pp_exit :: "fl option"
  pp_k :: "int option"
  pp_kmeans_window :: "int option"
  pp_refit_every :: "int option"
  pp_long_only :: bool
  pp_confirm :: "int option"
  pp_min_hold :: "int option"

definition prepare :: "rolling \<Rightarrow> series \<Rightarrow> post_processing \<Rightarrow> signal_error + series" where
  "prepare R predictions post =
     bind_res
       (case pp_calibrate post of
          None \<Rightarrow> Inr predictions
        | Some c \<Rightarrow> (case pp_calibration_window post of
            None \<Rightarrow> Inl (MissingArgument ''calibration_window'')
          | Some w \<Rightarrow> (case c of ZscoreCalibration \<Rightarrow> zscore R predictions (PyInt w)
                       | RankCalibration \<Rightarrow> rank predictions (PyInt w))))
       (\<lambda>predictions. case pp_ema post of None \<Rightarrow> Inr predictions | Some n \<Rightarrow> ema predictions (PyInt n))"

definition apply_rule :: "series \<Rightarrow> post_processing \<Rightarrow> signal_error + series" where
  "apply_rule predictions post = (case pp_rule post of
      KmeansRule \<Rightarrow> (case (pp_k post, pp_kmeans_window post, pp_refit_every post) of
          (Some k, Some w, Some r) \<Rightarrow> kmeans predictions (PyInt k) (PyInt w) (PyInt r)
        | _ \<Rightarrow> Inl (MissingArgument ''k, kmeans_window and refit_every''))
    | HysteresisRule \<Rightarrow> (case pp_threshold post of
          None \<Rightarrow> Inl (MissingArgument ''threshold'')
        | Some t \<Rightarrow> (case pp_exit post of
              None \<Rightarrow> Inl (MissingArgument ''exit'') | Some x \<Rightarrow> hysteresis predictions t x))
    | ThresholdRule \<Rightarrow> (case pp_threshold post of
          None \<Rightarrow> Inl (MissingArgument ''threshold'') | Some t \<Rightarrow> threshold predictions t))"

definition decide_signal :: "series \<Rightarrow> post_processing \<Rightarrow> signal_error + series" where
  "decide_signal predictions post =
     bind_res (apply_rule predictions post) (\<lambda>signal.
     bind_res (if pp_long_only post then long_only signal else Inr signal) (\<lambda>signal.
     bind_res (case pp_confirm post of None \<Rightarrow> Inr signal | Some n \<Rightarrow> confirm signal (PyInt n)) (\<lambda>signal.
     case pp_min_hold post of None \<Rightarrow> Inr signal | Some n \<Rightarrow> min_hold signal (PyInt n))))"

definition make_signal :: "rolling \<Rightarrow> series \<Rightarrow> post_processing \<Rightarrow> signal_error + series" where
  "make_signal R predictions post = bind_res (prepare R predictions post) (\<lambda>p. decide_signal p post)"

section \<open>The record of the steps\<close>

definition rule_name :: "rule \<Rightarrow> string" where
  "rule_name r = (case r of ThresholdRule \<Rightarrow> ''threshold'' | HysteresisRule \<Rightarrow> ''hysteresis''
      | KmeansRule \<Rightarrow> ''kmeans'')"

definition calibration_name :: "calibration \<Rightarrow> string" where
  "calibration_name c = (case c of ZscoreCalibration \<Rightarrow> ''zscore'' | RankCalibration \<Rightarrow> ''rank'')"

definition describe_rule :: "post_processing \<Rightarrow> (string \<times> json) list" where
  "describe_rule post = (case pp_rule post of
      ThresholdRule \<Rightarrow> [(''limit'', json_opt JNum (pp_threshold post))]
    | HysteresisRule \<Rightarrow> [(''enter'', json_opt JNum (pp_threshold post)), (''exit'', json_opt JNum (pp_exit post))]
    | KmeansRule \<Rightarrow> [(''k'', json_opt JInt (pp_k post)), (''window'', json_opt JInt (pp_kmeans_window post)),
        (''refit_every'', json_opt JInt (pp_refit_every post))])"

definition describe_candles :: "int option \<Rightarrow> json" where
  "describe_candles v = json_opt (\<lambda>n. JObj [(''candles'', JInt n)]) v"

definition describe :: "post_processing \<Rightarrow> json" where
  "describe post = JObj [
     (''calibrate'', json_opt (\<lambda>c. JObj [(''name'', JStr (calibration_name c)),
        (''window'', json_opt JInt (pp_calibration_window post))]) (pp_calibrate post)),
     (''ema'', json_opt (\<lambda>n. JObj [(''span'', JInt n)]) (pp_ema post)),
     (''rule'', JObj ((''name'', JStr (rule_name (pp_rule post))) # describe_rule post)),
     (''long_only'', JBool (pp_long_only post)),
     (''confirm'', describe_candles (pp_confirm post)),
     (''min_hold'', describe_candles (pp_min_hold post))]"

section \<open>The options\<close>

text \<open>The post-processing attributes of the parsed arguments; \<open>--threshold\<close> is \<open>run\<close>'s option,
  \<open>--thresholds\<close> is \<open>run-all\<close>'s (\<open>grid\<close>).\<close>

record pp_args =
  a_calibrate :: "calibration option"
  a_calibration_window :: "int option"
  a_ema :: "int option"
  a_rule :: rule
  a_threshold :: "fl option"
  a_thresholds :: "fl list option"
  a_exit :: "fl option"
  a_k :: "int option"
  a_kmeans_window :: "int option"
  a_refit_every :: "int option"
  a_long_only :: bool
  a_confirm :: "int option"
  a_min_hold :: "int option"

definition rule_limit :: "rule \<Rightarrow> fl option \<Rightarrow> fl option" where
  "rule_limit r given = (if r = KmeansRule then None else Some (case given of None \<Rightarrow> Fin 0 | Some t \<Rightarrow> t))"

definition post_processing_of :: "pp_args \<Rightarrow> fl option \<Rightarrow> post_processing" where
  "post_processing_of args limit = \<lparr>pp_calibrate = a_calibrate args,
     pp_calibration_window = a_calibration_window args, pp_ema = a_ema args, pp_rule = a_rule args,
     pp_threshold = limit, pp_exit = a_exit args, pp_k = a_k args,
     pp_kmeans_window = a_kmeans_window args, pp_refit_every = a_refit_every args,
     pp_long_only = a_long_only args, pp_confirm = a_confirm args, pp_min_hold = a_min_hold args\<rparr>"

datatype rule_option = OThreshold | OExit | OK | OKmeansWindow | ORefitEvery

definition RULE_OPTIONS :: "(rule \<times> rule_option list) list" where
  "RULE_OPTIONS = [(ThresholdRule, [OThreshold]), (HysteresisRule, [OThreshold, OExit]),
     (KmeansRule, [OK, OKmeansWindow, ORefitEvery])]"

definition RULE_NEEDS :: "rule \<Rightarrow> rule_option list" where
  "RULE_NEEDS r = (case r of ThresholdRule \<Rightarrow> [] | HysteresisRule \<Rightarrow> [OExit]
     | KmeansRule \<Rightarrow> [OK, OKmeansWindow, ORefitEvery])"

definition options_of :: "rule \<Rightarrow> rule_option list" where
  "options_of r = (case map_of RULE_OPTIONS r of Some os \<Rightarrow> os | None \<Rightarrow> [])"

text \<open>Whether an option was given; the limits of \<open>run-all\<close> are \<open>--thresholds\<close>.\<close>

definition given :: "pp_args \<Rightarrow> bool \<Rightarrow> rule_option \<Rightarrow> bool" where
  "given args grid opt = (case opt of
      OThreshold \<Rightarrow> if grid then a_thresholds args \<noteq> None else a_threshold args \<noteq> None
    | OExit \<Rightarrow> a_exit args \<noteq> None
    | OK \<Rightarrow> a_k args \<noteq> None
    | OKmeansWindow \<Rightarrow> a_kmeans_window args \<noteq> None
    | ORefitEvery \<Rightarrow> a_refit_every args \<noteq> None)"

datatype option_error =
    CalibrateAlone
  | GoesOnlyWith rule_option "rule list"
  | Needs rule "rule_option list"
  | ExitAboveEnter fl fl
  | WindowTooSmall int int

definition check_rule_options :: "pp_args \<Rightarrow> bool \<Rightarrow> option_error + unit" where
  "check_rule_options args grid =
     (let names = concat (map snd RULE_OPTIONS);
          wrong = filter (\<lambda>name. given args grid name \<and> name \<notin> set (options_of (a_rule args))) names;
          missing = filter (\<lambda>name. \<not> given args grid name) (RULE_NEEDS (a_rule args))
      in if wrong \<noteq> []
         then Inl (GoesOnlyWith (hd wrong) (map fst (filter (\<lambda>(_, os). hd wrong \<in> set os) RULE_OPTIONS)))
         else raise_if (missing \<noteq> []) (Needs (a_rule args) missing))"

definition enter_limits :: "pp_args \<Rightarrow> bool \<Rightarrow> fl list" where
  "enter_limits args grid =
     (if grid then (case a_thresholds args of None \<Rightarrow> [Fin 0] | Some ts \<Rightarrow> ts)
      else (case a_threshold args of None \<Rightarrow> [Fin 0] | Some t \<Rightarrow> [t]))"

definition check_rule_limits :: "pp_args \<Rightarrow> bool \<Rightarrow> option_error + unit" where
  "check_rule_limits args grid =
     (case (a_rule args, a_exit args, a_k args, a_kmeans_window args) of
        (HysteresisRule, Some x, _, _) \<Rightarrow>
          (let above = filter (\<lambda>enter. x > enter) (enter_limits args grid)
           in if above \<noteq> [] then Inl (ExitAboveEnter x (hd above)) else Inr ())
      | (KmeansRule, _, Some k, Some w) \<Rightarrow> raise_if (w < 2 * k) (WindowTooSmall (2 * k) w)
      | _ \<Rightarrow> Inr ())"

definition check_post_processing :: "pp_args \<Rightarrow> bool \<Rightarrow> option_error + unit" where
  "check_post_processing args grid =
     bind_res (raise_if ((a_calibrate args = None) \<noteq> (a_calibration_window args = None)) CalibrateAlone) (\<lambda>_.
     bind_res (check_rule_options args grid) (\<lambda>_. check_rule_limits args grid))"

text \<open>What the argparse types of \<open>add_post_processing\<close> guarantee of a parsed option.\<close>

definition typed_args :: "pp_args \<Rightarrow> bool" where
  "typed_args args = (
     (\<forall>w. a_calibration_window args = Some w \<longrightarrow> 2 \<le> w) \<and> (\<forall>n. a_ema args = Some n \<longrightarrow> 1 \<le> n) \<and>
     (\<forall>t. a_threshold args = Some t \<longrightarrow> is_finite t \<and> Fin 0 \<le> t) \<and>
     (\<forall>ts. a_thresholds args = Some ts \<longrightarrow> ts \<noteq> [] \<and> (\<forall>t \<in> set ts. is_finite t \<and> Fin 0 \<le> t)) \<and>
     (\<forall>t. a_exit args = Some t \<longrightarrow> is_finite t \<and> Fin 0 \<le> t) \<and>
     (\<forall>k. a_k args = Some k \<longrightarrow> 2 \<le> k \<and> k \<le> 5) \<and> (\<forall>w. a_kmeans_window args = Some w \<longrightarrow> 2 \<le> w) \<and>
     (\<forall>n. a_refit_every args = Some n \<longrightarrow> 1 \<le> n) \<and>
     (\<forall>n. a_confirm args = Some n \<longrightarrow> 1 \<le> n) \<and> (\<forall>n. a_min_hold args = Some n \<longrightarrow> 1 \<le> n))"

section \<open>A signal the engine takes\<close>

definition signal_series :: "nat \<Rightarrow> series \<Rightarrow> bool" where
  "signal_series n s = (\<exists>ys. s = float_series ys \<and> length ys = n \<and> is_signal ys)"

lemma signal_values_float:
  "is_signal ys \<Longrightarrow> signal_values_of (float_series ys) = Inr ys"
  by (rule float64_float_series) (rule is_signal_nan)

lemma length_cells_float [simp]: "length (s_cells (float_series ys)) = length ys"
  by (simp add: float_series_def)

lemma signal_seriesI: "is_signal ys \<Longrightarrow> length ys = n \<Longrightarrow> signal_series n (float_series ys)"
  by (auto simp: signal_series_def)

lemma threshold_signal:
  assumes "threshold p t = Inr s"
  shows "signal_series (length (s_cells p)) s"
proof -
  obtain xs where "predictions_of p = Inr xs" "s = float_series (threshold_run t xs)"
    using assms by (auto simp: threshold_def res_simps)
  then show ?thesis using threshold_run_signal float64_length by (auto intro!: signal_seriesI)
qed

lemma hysteresis_signal:
  assumes "hysteresis p t x = Inr s"
  shows "signal_series (length (s_cells p)) s"
proof -
  obtain xs where "predictions_of p = Inr xs" "s = float_series (hysteresis_run (fin_val t) (fin_val x) xs)"
    using assms by (auto simp: hysteresis_def res_simps)
  then show ?thesis using hysteresis_run_signal float64_length by (auto intro!: signal_seriesI)
qed

lemma kmeans_signal:
  assumes "kmeans p k w r = Inr s"
  shows "signal_series (length (s_cells p)) s"
proof -
  obtain xs k w r where xs: "predictions_of p = Inr xs" "s = float_series (map Fin (kmeans_run k w r (map fin_val xs)))"
    using assms by (auto simp: kmeans_def res_simps)
  have "is_signal (map Fin (kmeans_run k w r (map fin_val xs)))"
    using kmeans_run_signal[of k w r "map fin_val xs"] by (auto simp: is_signal_def)
  then show ?thesis using xs float64_length[OF xs(1)] by (auto intro!: signal_seriesI simp: length_kmeans_run)
qed

lemma apply_rule_signal:
  assumes "apply_rule p post = Inr s"
  shows "signal_series (length (s_cells p)) s"
  using assms threshold_signal hysteresis_signal kmeans_signal
  by (auto simp: apply_rule_def split: rule.splits option.splits)

lemma decide_signal_signal:
  assumes "decide_signal p post = Inr s"
  shows "signal_series (length (s_cells p)) s"
proof -
  obtain a b c where steps: "apply_rule p post = Inr a"
      "(if pp_long_only post then long_only a else Inr a) = Inr b"
      "(case pp_confirm post of None \<Rightarrow> Inr b | Some n \<Rightarrow> confirm b (PyInt n)) = Inr c"
      "(case pp_min_hold post of None \<Rightarrow> Inr c | Some n \<Rightarrow> min_hold c (PyInt n)) = Inr s"
    using assms unfolding decide_signal_def by (elim bind_resE) blast
  let ?n = "length (s_cells p)"
  have a: "signal_series ?n a" using apply_rule_signal[OF steps(1)] .
  then have b: "signal_series ?n b"
    using steps(2) long_only_run_signal
    by (fastforce simp: signal_series_def long_only_def signal_values_float is_signal_def split: if_splits)
  then have c: "signal_series ?n c"
    using steps(3) confirm_run_signal
    by (fastforce simp: signal_series_def confirm_def signal_values_float res_simps split: option.splits)
  then show ?thesis
    using steps(4) min_hold_run_signal
    by (fastforce simp: signal_series_def min_hold_def signal_values_float res_simps split: option.splits)
qed

lemma prepare_length:
  assumes "prepare R p post = Inr q"
  shows "length (s_cells q) = length (s_cells p)"
proof -
  have z: "zscore R p w = Inr q \<Longrightarrow> length (s_cells q) = length (s_cells p)" for p q w
    by (auto simp: zscore_def zscore_run_def Let_def res_simps dest: float64_length)
  have r: "rank p w = Inr q \<Longrightarrow> length (s_cells q) = length (s_cells p)" for p q w
    by (auto simp: rank_def res_simps dest: float64_length)
  have e: "ema p w = Inr q \<Longrightarrow> length (s_cells q) = length (s_cells p)" for p q w
    by (auto simp: ema_def res_simps dest: float64_length)
  show ?thesis using assms
    by (auto simp: prepare_def res_simps dest!: z r e split: option.splits calibration.splits)
qed

text \<open>C11: whatever the steps and their options, a signal \<open>make_signal\<close> returns has one value per
  prediction and every value is -1, 0 or 1: it is one the engine's input check accepts.\<close>

theorem make_signal_is_signal:
  assumes "make_signal R p post = Inr s"
  shows "\<exists>ys. s = float_series ys \<and> length ys = length (s_cells p) \<and> set ys \<subseteq> {Fin (-1), Fin 0, Fin 1}"
proof -
  obtain q where q: "prepare R p post = Inr q" "decide_signal q post = Inr s"
    using assms unfolding make_signal_def by (elim bind_resE)
  then show ?thesis
    using decide_signal_signal[OF q(2)] prepare_length[OF q(1)] by (auto simp: signal_series_def is_signal_def)
qed

section \<open>No look-ahead\<close>

definition causal_step :: "(series \<Rightarrow> signal_error + series) \<Rightarrow> bool" where
  "causal_step f = (\<forall>s out n. f s = Inr out \<longrightarrow> f (take_series n s) = Inr (take_series n out))"

lemma causal_stepD: "causal_step f \<Longrightarrow> f s = Inr out \<Longrightarrow> f (take_series n s) = Inr (take_series n out)"
  by (auto simp: causal_step_def)

lemma causal_step_bind:
  "causal_step f \<Longrightarrow> causal_step g \<Longrightarrow> causal_step (\<lambda>s. bind_res (f s) g)"
  by (auto simp: causal_step_def bind_res_eq_Inr)

lemma causal_step_id: "causal_step Inr"
  by (simp add: causal_step_def)

lemma causal_step_fail: "causal_step (\<lambda>_. Inl e)"
  by (simp add: causal_step_def)

lemma list_ex_take: "\<not> list_ex P xs \<Longrightarrow> \<not> list_ex P (take n xs)"
  by (auto simp: list_ex_iff dest: in_set_takeD)

lemma causal_checked_run:
  assumes "causal g" "\<And>n p. \<not> bad p \<Longrightarrow> \<not> bad (take n p)"
  shows "causal_step (\<lambda>s. bind_res (float64 pl sg s) (\<lambda>p. bind_res (raise_if (bad p) e) (\<lambda>_. Inr (float_series (g p)))))"
  using float64_take causal.out_take[OF assms(1)] assms(2)
  by (auto simp: causal_step_def bind_res_eq_Inr take_float_series)

lemma causal_run:
  assumes "causal g"
  shows "causal_step (\<lambda>s. bind_res (float64 pl sg s) (\<lambda>p. Inr (float_series (g p))))"
  using float64_take causal.out_take[OF assms]
  by (auto simp: causal_step_def bind_res_eq_Inr take_float_series)

lemma causal_finite_run:
  assumes "causal g"
  shows "causal_step (\<lambda>s. bind_res (float64 pl sg s) (\<lambda>p.
    bind_res (raise_if (list_ex is_infinite p) e) (\<lambda>_. Inr (float_series (g p)))))"
  using float64_take causal.out_take[OF assms] list_ex_take[of is_infinite]
  by (auto simp: causal_step_def bind_res_eq_Inr take_float_series)

lemma causal_twice_checked_run:
  assumes "causal g" "\<And>n p. \<not> bad p \<Longrightarrow> \<not> bad (take n p)"
  shows "causal_step (\<lambda>s. bind_res (float64 pl sg s) (\<lambda>p. bind_res (raise_if (list_ex is_infinite p) e) (\<lambda>_.
    bind_res (raise_if (bad p) e') (\<lambda>_. Inr (float_series (g p))))))"
  using float64_take causal.out_take[OF assms(1)] assms(2) list_ex_take[of is_infinite]
  by (auto simp: causal_step_def bind_res_eq_Inr take_float_series)

lemma causal_steps:
  "causal_step (\<lambda>s. threshold s t)" "causal_step long_only" "causal_step (\<lambda>s. ema s v)"
  "causal_step (\<lambda>s. hysteresis s t x)" "causal_step (\<lambda>s. confirm s v)" "causal_step (\<lambda>s. min_hold s v)"
  "causal_step (\<lambda>s. rank s v)" "causal_step (\<lambda>s. kmeans s v w r)"
proof -
  show "causal_step (\<lambda>s. threshold s t)"
    using causal_run[OF threshold.causal_axioms[of t]] causal_step_fail
    by (cases "t = NaN \<or> t < Fin 0") (simp_all add: threshold_def raise_if_def)
  show "causal_step long_only"
    using causal_run[OF long_only.causal_axioms] by (simp add: long_only_def[abs_def])
  show "causal_step (\<lambda>s. ema s v)"
    using causal_finite_run[OF ema.causal_axioms] causal_step_fail
    by (cases "check_count ''span'' v") (simp_all add: ema_def)
  show "causal_step (\<lambda>s. hysteresis s t x)"
    using causal_run[OF hysteresis.causal_axioms] causal_step_fail
    by (cases "is_finite t \<and> is_finite x \<and> Fin 0 \<le> x \<and> x \<le> t") (simp_all add: hysteresis_def raise_if_def)
  show "causal_step (\<lambda>s. confirm s v)"
    using causal_run[OF confirm.causal_axioms] causal_step_fail
    by (cases "check_count ''candles'' v") (simp_all add: confirm_def)
  show "causal_step (\<lambda>s. min_hold s v)"
    using causal_run[OF min_hold.causal_axioms] causal_step_fail
    by (cases "check_count ''candles'' v") (simp_all add: min_hold_def)
  show "causal_step (\<lambda>s. rank s v)"
    using causal_checked_run[OF rank.causal_axioms, where bad = "\<lambda>_. FLOAT_LIMIT \<le> int w - 1" for w] causal_step_fail
    by (cases "check_window v") (simp_all add: rank_def)
  show "causal_step (\<lambda>s. kmeans s v w r)"
  proof (cases "check_arguments v w r")
    case (Inr a)
    obtain k m q where a: "a = (k, m, q)" by (cases a) auto
    have "causal (\<lambda>p. map Fin (kmeans_run k m q (map fin_val p)))"
      by unfold_locales (simp_all add: length_kmeans_run kmeans.out_take take_map)
    moreover have "\<not> kmeans_overflows k m q (map fin_val (take n p))" if "\<not> kmeans_overflows k m q (map fin_val p)" for n p
      using kmeans_overflows_take[OF that] by (simp add: take_map)
    ultimately have "causal_step (\<lambda>s. bind_res (predictions_of s) (\<lambda>p.
        bind_res (raise_if (list_ex is_infinite p) InfinitePrediction) (\<lambda>_.
        bind_res (raise_if (kmeans_overflows k m q (map fin_val p)) Overflows) (\<lambda>_.
        Inr (float_series (map Fin (kmeans_run k m q (map fin_val p))))))))"
      by (rule causal_twice_checked_run)
    then show ?thesis using Inr a by (simp add: kmeans_def)
  qed (simp add: kmeans_def causal_step_fail)
qed

lemma causal_zscore: "rolling_ok R \<Longrightarrow> causal_step (\<lambda>s. zscore R s v)"
  using causal_checked_run[OF zscore_run_causal, where bad = "\<lambda>_. FLOAT_LIMIT \<le> int w" for w] causal_step_fail
  by (cases "check_window v") (simp_all add: zscore_def)

lemma causal_prepare: "rolling_ok R \<Longrightarrow> causal_step (\<lambda>s. prepare R s post)"
proof -
  assume R: "rolling_ok R"
  have "causal_step (\<lambda>s. case pp_calibrate post of
          None \<Rightarrow> Inr s
        | Some c \<Rightarrow> (case pp_calibration_window post of
            None \<Rightarrow> Inl (MissingArgument ''calibration_window'')
          | Some w \<Rightarrow> (case c of ZscoreCalibration \<Rightarrow> zscore R s (PyInt w)
                       | RankCalibration \<Rightarrow> rank s (PyInt w))))"
    by (cases "pp_calibrate post"; cases "pp_calibration_window post"; cases "the (pp_calibrate post)")
      (simp_all add: causal_step_id causal_step_fail causal_zscore[OF R] causal_steps)
  moreover have "causal_step (\<lambda>s. case pp_ema post of None \<Rightarrow> Inr s | Some n \<Rightarrow> ema s (PyInt n))"
    by (cases "pp_ema post") (simp_all add: causal_step_id causal_steps)
  ultimately show ?thesis unfolding prepare_def by (rule causal_step_bind)
qed

lemma causal_apply_rule: "causal_step (\<lambda>s. apply_rule s post)"
  by (cases "pp_rule post"; cases "pp_threshold post"; cases "pp_exit post"; cases "pp_k post";
      cases "pp_kmeans_window post"; cases "pp_refit_every post")
    (simp_all add: apply_rule_def causal_step_fail causal_steps)

lemma causal_decide_signal: "causal_step (\<lambda>s. decide_signal s post)"
proof -
  have "causal_step (\<lambda>s. if pp_long_only post then long_only s else Inr s)"
    by (cases "pp_long_only post") (simp_all add: causal_step_id causal_steps)
  moreover have "causal_step (\<lambda>s. case pp_confirm post of None \<Rightarrow> Inr s | Some n \<Rightarrow> confirm s (PyInt n))"
    by (cases "pp_confirm post") (simp_all add: causal_step_id causal_steps)
  moreover have "causal_step (\<lambda>s. case pp_min_hold post of None \<Rightarrow> Inr s | Some n \<Rightarrow> min_hold s (PyInt n))"
    by (cases "pp_min_hold post") (simp_all add: causal_step_id causal_steps)
  ultimately show ?thesis unfolding decide_signal_def
    by (intro causal_step_bind[OF causal_apply_rule] causal_step_bind)
qed

text \<open>C10: the signal up to a row depends on the predictions up to it only: on the first \<open>n\<close> predictions
  alone, every mix of steps gives the first \<open>n\<close> values of the signal, so nothing looks ahead. (The
  rolling functions of Polars are assumed to look back only.)\<close>

theorem make_signal_no_look_ahead:
  assumes "rolling_ok R" "make_signal R p post = Inr s"
  shows "make_signal R (take_series n p) post = Inr (take_series n s)"
proof -
  have "causal_step (\<lambda>s. make_signal R s post)"
    unfolding make_signal_def by (intro causal_step_bind causal_prepare causal_decide_signal assms(1))
  then show ?thesis using assms(2) by (rule causal_stepD)
qed

text \<open>Rolling functions that meet the assumption, computed from the window itself.\<close>

definition rolling_by :: "(real list \<Rightarrow> real) \<Rightarrow> fl list \<Rightarrow> nat \<Rightarrow> fl option list" where
  "rolling_by g p window = map (\<lambda>t. if Suc t < window then None
     else let w = take window (drop (Suc t - window) p)
          in if list_all is_finite w then Some (Fin (g (map fin_val w))) else Some NaN) [0..<length p]"

lemma rolls_by: "rolls (rolling_by g)"
  unfolding rolls_def
proof (intro allI conjI impI)
  fix window
  show "causal (\<lambda>p. rolling_by g p window)"
  proof
    fix xs :: "fl list" and n
    show "take n (rolling_by g xs window) = rolling_by g (take n xs) window"
    proof (rule nth_equalityI)
      fix t assume "t < length (take n (rolling_by g xs window))"
      then have t: "t < n" "t < length xs" by (simp_all add: rolling_by_def)
      have "take window (drop (Suc t - window) (take n xs)) = take window (drop (Suc t - window) xs)"
        if "\<not> Suc t < window"
      proof -
        have "window \<le> n - (Suc t - window)" using that t(1) by linarith
        then show ?thesis by (simp add: drop_take min_absorb1)
      qed
      then show "take n (rolling_by g xs window) ! t = rolling_by g (take n xs) window ! t"
        using t by (simp add: rolling_by_def Let_def)
    qed (simp add: rolling_by_def)
  qed (simp add: rolling_by_def)
qed (simp add: rolling_by_def)

definition exact_rolling :: "(real list \<Rightarrow> real) \<Rightarrow> rolling" where
  "exact_rolling std = \<lparr>rolling_mean = rolling_by (\<lambda>xs. sum_list xs / real (length xs)),
     rolling_std = rolling_by std, rolling_max = rolling_by (\<lambda>xs. fold max xs (hd xs))\<rparr>"

lemma exact_rolling_ok: "rolling_ok (exact_rolling std)"
  by (simp add: rolling_ok_def exact_rolling_def rolls_by)

definition example_post :: post_processing where
  "example_post = \<lparr>pp_calibrate = Some RankCalibration, pp_calibration_window = Some 2, pp_ema = Some 1,
     pp_rule = HysteresisRule, pp_threshold = Some (Fin (1 / 2)), pp_exit = Some (Fin 0), pp_k = None,
     pp_kmeans_window = None, pp_refit_every = None, pp_long_only = True, pp_confirm = Some 1,
     pp_min_hold = Some 2\<rparr>"

lemma example_signal:
  "make_signal (exact_rolling (\<lambda>_. 1)) (float_series [Fin 1, Fin 3, Fin 2, Fin 1]) example_post =
     Inr (float_series [Fin 0, Fin 1, Fin 1, Fin 0])"
proof -
  have "rank (float_series [Fin 1, Fin 3, Fin 2, Fin 1]) (PyInt 2) =
      Inr (float_series [Fin 0, Fin 1, Fin (-1), Fin (-1)])" by code_simp
  moreover have "ema (float_series [Fin 0, Fin 1, Fin (-1), Fin (-1)]) (PyInt 1) =
      Inr (float_series [Fin 0, Fin 1, Fin (-1), Fin (-1)])" by code_simp
  moreover have "decide_signal (float_series [Fin 0, Fin 1, Fin (-1), Fin (-1)]) example_post =
      Inr (float_series [Fin 0, Fin 1, Fin 1, Fin 0])" by code_simp
  moreover have "pp_calibrate example_post = Some RankCalibration" "pp_calibration_window example_post = Some 2"
    "pp_ema example_post = Some 1" by (simp_all add: example_post_def)
  ultimately show ?thesis by (simp add: make_signal_def prepare_def)
qed

theorem make_signal_is_signal_witness:
  "\<exists>ys. float_series [Fin 0, Fin 1, Fin 1, Fin 0] = float_series ys \<and>
     length ys = length (s_cells (float_series [Fin 1, Fin 3, Fin 2, Fin 1]))"
  using make_signal_is_signal[OF example_signal] by blast

theorem make_signal_no_look_ahead_witness:
  "make_signal (exact_rolling (\<lambda>_. 1)) (float_series [Fin 1, Fin 3]) example_post =
     Inr (float_series [Fin 0, Fin 1])"
  using make_signal_no_look_ahead[OF exact_rolling_ok example_signal, of 2] by (simp add: take_float_series)

section \<open>The record tells the signal\<close>

lemma json_opt_simps [simp]:
  "json_opt JNum a = json_opt JNum b \<longleftrightarrow> a = b" "json_opt JInt c = json_opt JInt d \<longleftrightarrow> c = d"
  "describe_candles c = describe_candles d \<longleftrightarrow> c = d"
  unfolding describe_candles_def by (rule json_opt_eq; simp)+

lemma rule_name_eq [simp]: "rule_name a = rule_name b \<longleftrightarrow> a = b"
  by (cases a; cases b) (simp_all add: rule_name_def)

lemma calibration_name_eq [simp]: "calibration_name a = calibration_name b \<longleftrightarrow> a = b"
  by (cases a; cases b) (simp_all add: calibration_name_def)

text \<open>\<open>run.json\<close> records enough of the post-processing to repeat it: two settings with the same
  \<open>describe\<close> make the same signal, or fail the same way, on every series of predictions.\<close>

theorem describe_determines_signal:
  assumes "describe post = describe post'"
  shows "make_signal R p post = make_signal R p post'"
proof -
  have eq: "pp_ema post = pp_ema post'" "pp_rule post = pp_rule post'" "pp_long_only post = pp_long_only post'"
    "pp_confirm post = pp_confirm post'" "pp_min_hold post = pp_min_hold post'"
    "describe_rule post = describe_rule post'" "pp_calibrate post = pp_calibrate post'"
    "pp_calibrate post = None \<or> pp_calibration_window post = pp_calibration_window post'"
    using assms by (auto simp: describe_def json_opt_eq) (auto simp: json_opt_def split: option.splits)
  have "prepare R p post = prepare R p post'"
    using eq(1,7,8) by (auto simp: prepare_def split: option.splits)
  moreover have "apply_rule q post = apply_rule q post'" for q
    using eq(2,6) by (cases "pp_rule post'") (auto simp: apply_rule_def describe_rule_def split: option.splits)
  ultimately show ?thesis using eq(3-5) by (simp add: make_signal_def decide_signal_def)
qed

theorem describe_determines_signal_witness:
  "\<forall>R p. make_signal R p (example_post\<lparr>pp_k := Some 3\<rparr>) = make_signal R p example_post"
  by (intro allI describe_determines_signal) (simp add: describe_def describe_rule_def example_post_def)

section \<open>Checked options\<close>

definition refuses_argument :: "signal_error \<Rightarrow> bool" where
  "refuses_argument e = (case e of
      NotNumbers _ _ \<Rightarrow> False | MissingOrNaN _ \<Rightarrow> False | InfinitePrediction \<Rightarrow> False | Overflows \<Rightarrow> False
    | _ \<Rightarrow> True)"

definition data_only :: "signal_error + 'a \<Rightarrow> bool" where
  "data_only r = (\<forall>e. r = Inl e \<longrightarrow> \<not> refuses_argument e)"

lemma data_only_bind: "data_only m \<Longrightarrow> (\<And>x. data_only (f x)) \<Longrightarrow> data_only (bind_res m f)"
  by (auto simp: data_only_def bind_res_eq_Inl)

lemma data_only_simps [simp]: "data_only (Inr x)" "data_only (float64 pl sg s)"
    "data_only (Inl InfinitePrediction)" "data_only (Inl Overflows)"
  by (auto simp: data_only_def float64_def Let_def refuses_argument_def split: if_splits)

lemma data_only_steps:
  "is_finite t \<Longrightarrow> Fin 0 \<le> t \<Longrightarrow> data_only (threshold s t)" "data_only (long_only s)"
  "1 \<le> n \<Longrightarrow> data_only (ema s (PyInt n))" "1 \<le> n \<Longrightarrow> data_only (confirm s (PyInt n))"
  "1 \<le> n \<Longrightarrow> data_only (min_hold s (PyInt n))" "2 \<le> w \<Longrightarrow> data_only (rank s (PyInt w))"
  "2 \<le> w \<Longrightarrow> data_only (zscore R s (PyInt w))"
  "is_finite t \<Longrightarrow> is_finite x \<Longrightarrow> Fin 0 \<le> x \<Longrightarrow> x \<le> t \<Longrightarrow> data_only (hysteresis s t x)"
  "2 \<le> k \<Longrightarrow> k \<le> 5 \<Longrightarrow> 2 * k \<le> w \<Longrightarrow> 1 \<le> r \<Longrightarrow> data_only (kmeans s (PyInt k) (PyInt w) (PyInt r))"
  by (auto simp: threshold_def long_only_def ema_def confirm_def min_hold_def rank_def zscore_def
      hysteresis_def kmeans_def check_count_def check_window_def check_arguments_def raise_if_def is_finite_iff
      intro!: data_only_bind)

lemma check_rule_optionsD:
  assumes "check_rule_options args grid = Inr u"
  shows "\<forall>opt \<in> set (RULE_NEEDS (a_rule args)). given args grid opt"
    "given args grid opt \<Longrightarrow> opt \<in> set (options_of (a_rule args))"
proof -
  show "\<forall>opt \<in> set (RULE_NEEDS (a_rule args)). given args grid opt"
    using assms by (auto simp: check_rule_options_def Let_def filter_empty_conv split: if_splits)
  have "opt \<in> set (concat (map snd RULE_OPTIONS))"
    by (cases opt) (simp_all add: RULE_OPTIONS_def)
  then show "given args grid opt \<Longrightarrow> opt \<in> set (options_of (a_rule args))"
    using assms by (auto simp: check_rule_options_def Let_def filter_empty_conv split: if_splits)
qed

text \<open>The limit a run takes: \<open>run\<close>'s own, or one of \<open>run-all\<close>'s.\<close>

definition run_limit :: "pp_args \<Rightarrow> bool \<Rightarrow> fl option \<Rightarrow> bool" where
  "run_limit args grid limit =
     (if a_rule args = KmeansRule then limit = None
      else \<exists>t \<in> set (enter_limits args grid). limit = Some t)"

text \<open>C12: options that pass \<open>check_post_processing\<close> are complete and consistent: the steps they ask for
  never refuse an argument. What \<open>make_signal\<close> can still refuse is the predictions themselves:
  values that are no numbers, missing or infinite. (It can also stop at an \<open>OverflowError\<close>, which refuses
  nothing: groups whose sum, or a window whose size, has no float.)\<close>

theorem checked_options_never_refused:
  assumes "check_post_processing args grid = Inr u" "typed_args args" "run_limit args grid limit"
    and "make_signal R p (post_processing_of args limit) = Inl e"
  shows "\<not> refuses_argument e"
proof -
  let ?post = "post_processing_of args limit"
  have chk: "(a_calibrate args = None) = (a_calibration_window args = None)"
      "check_rule_options args grid = Inr ()" "check_rule_limits args grid = Inr ()"
    using assms(1) by (auto simp: check_post_processing_def res_simps)
  note needs = check_rule_optionsD(1)[OF chk(2)]
  note typed = assms(2)[unfolded typed_args_def]
  have limits: "is_finite t \<and> Fin 0 \<le> t" if "t \<in> set (enter_limits args grid)" for t
    using that typed by (auto simp: enter_limits_def split: if_splits option.splits)
  have "data_only (prepare R p ?post)"
    unfolding prepare_def using chk(1) typed
    by (intro data_only_bind)
      (auto simp: post_processing_of_def data_only_steps split: option.split calibration.split)
  moreover have "data_only (apply_rule q ?post)" for q
  proof (cases "a_rule args")
    case ThresholdRule
    then obtain t where "limit = Some t" "t \<in> set (enter_limits args grid)"
      using assms(3) by (auto simp: run_limit_def)
    then show ?thesis using ThresholdRule limits
      by (simp add: apply_rule_def post_processing_of_def data_only_steps)
  next
    case HysteresisRule
    then obtain t where t: "limit = Some t" "t \<in> set (enter_limits args grid)"
      using assms(3) by (auto simp: run_limit_def)
    obtain x where x: "a_exit args = Some x"
      using needs HysteresisRule by (auto simp: RULE_NEEDS_def given_def)
    have "x \<le> t" using chk(3) HysteresisRule x t(2)
      by (auto simp: check_rule_limits_def Let_def filter_empty_conv not_less split: if_splits)
    moreover have "is_finite x \<and> Fin 0 \<le> x" using typed x by blast
    ultimately show ?thesis using HysteresisRule limits[OF t(2)] t(1) x
      by (simp add: apply_rule_def post_processing_of_def data_only_steps)
  next
    case KmeansRule
    obtain k w r where k: "a_k args = Some k" "a_kmeans_window args = Some w" "a_refit_every args = Some r"
      using needs KmeansRule by (auto simp: RULE_NEEDS_def given_def)
    have "2 * k \<le> w" using chk(3) KmeansRule k by (auto simp: check_rule_limits_def raise_if_def split: if_splits)
    moreover have "2 \<le> k \<and> k \<le> 5" "1 \<le> r" using typed k by blast+
    ultimately show ?thesis using KmeansRule k
      by (simp add: apply_rule_def post_processing_of_def data_only_steps)
  qed
  moreover have "\<forall>n. a_confirm args = Some n \<longrightarrow> 1 \<le> n" "\<forall>n. a_min_hold args = Some n \<longrightarrow> 1 \<le> n"
    using typed by blast+
  ultimately have "data_only (make_signal R p ?post)"
    unfolding make_signal_def decide_signal_def
    by (intro data_only_bind) (auto simp: post_processing_of_def data_only_steps split: option.split)
  then show ?thesis using assms(4) by (simp add: data_only_def)
qed

definition example_args :: pp_args where
  "example_args = \<lparr>a_calibrate = None, a_calibration_window = None, a_ema = Some 2, a_rule = HysteresisRule,
     a_threshold = Some (Fin 1), a_thresholds = None, a_exit = Some (Fin 0), a_k = None,
     a_kmeans_window = None, a_refit_every = None, a_long_only = False, a_confirm = None, a_min_hold = None\<rparr>"

theorem checked_options_never_refused_witness:
  "make_signal (exact_rolling (\<lambda>_. 1)) (float_series [NaN]) (post_processing_of example_args (Some (Fin 1))) =
     Inl (MissingOrNaN ''prediction'') \<and> \<not> refuses_argument (MissingOrNaN ''prediction'')"
proof -
  have run: "make_signal (exact_rolling (\<lambda>_. 1)) (float_series [NaN]) (post_processing_of example_args (Some (Fin 1))) =
      Inl (MissingOrNaN ''prediction'')"
  proof -
    have "ema (float_series [NaN]) (PyInt 2) = Inl (MissingOrNaN ''prediction'')" by code_simp
    then show ?thesis by (simp add: make_signal_def prepare_def post_processing_of_def example_args_def)
  qed
  have chk: "check_post_processing example_args False = Inr ()" by code_simp
  have "typed_args example_args" "run_limit example_args False (Some (Fin 1))"
    by (simp_all add: typed_args_def example_args_def run_limit_def enter_limits_def)
  from checked_options_never_refused[OF chk this run] show ?thesis using run by blast
qed

end
