(* ===== verification/Text.thy ===== *)
theory Text
  imports Prelude "HOL-Library.Char_ord" "HOL-Library.List_Lexorder"
begin

text \<open>
  The text functions of Python the sources use, on ASCII text: \<open>strip\<close>, \<open>split\<close>, \<open>partition\<close>,
  \<open>lower\<close> and \<open>upper\<close>, the decimal text of an integer, and what \<open>int(text)\<close> and \<open>float(text)\<close>
  accept. Characters outside ASCII are not modelled (\<open>char\<close> has 256 codes; the codes above 127 are
  neither letters, digits nor spaces here).
\<close>

section \<open>Characters\<close>

definition code_of :: "char \<Rightarrow> nat" where
  "code_of c = of_char c"

definition is_space :: "char \<Rightarrow> bool" where
  "is_space c = (let n = code_of c in (9 \<le> n \<and> n \<le> 13) \<or> (28 \<le> n \<and> n \<le> 32))"

definition is_digit :: "char \<Rightarrow> bool" where
  "is_digit c = (48 \<le> code_of c \<and> code_of c \<le> 57)"

definition is_upper :: "char \<Rightarrow> bool" where
  "is_upper c = (65 \<le> code_of c \<and> code_of c \<le> 90)"

definition is_lower :: "char \<Rightarrow> bool" where
  "is_lower c = (97 \<le> code_of c \<and> code_of c \<le> 122)"

definition is_alnum :: "char \<Rightarrow> bool" where
  "is_alnum c = (is_digit c \<or> is_upper c \<or> is_lower c)"

definition to_upper :: "char \<Rightarrow> char" where
  "to_upper c = (if is_lower c then char_of (code_of c - 32) else c)"

definition to_lower :: "char \<Rightarrow> char" where
  "to_lower c = (if is_upper c then char_of (code_of c + 32) else c)"

lemma code_char_of: "n < 256 \<Longrightarrow> code_of (char_of n) = n"
  by (simp add: code_of_def)

lemma code_less: "code_of c < 256"
  by (simp add: code_of_def)

lemma upper_idem [simp]: "to_upper (to_upper c) = to_upper c"
  using code_less[of c] by (cases "is_lower c") (auto simp: to_upper_def is_lower_def code_char_of)

lemma lower_idem [simp]: "to_lower (to_lower c) = to_lower c"
  using code_less[of c] by (cases "is_upper c") (auto simp: to_lower_def is_upper_def code_char_of)

lemma is_alnum_not_space: "is_alnum c \<Longrightarrow> \<not> is_space c"
  by (auto simp: is_alnum_def is_digit_def is_upper_def is_lower_def is_space_def Let_def)

section \<open>Strings\<close>

definition upper :: "string \<Rightarrow> string" where "upper s = map to_upper s"
definition lower :: "string \<Rightarrow> string" where "lower s = map to_lower s"

definition lstrip :: "string \<Rightarrow> string" where "lstrip s = dropWhile is_space s"
definition strip :: "string \<Rightarrow> string" where "strip s = rev (lstrip (rev (lstrip s)))"

text \<open>\<open>text.split(sep)\<close> of a one-character separator.\<close>

fun split_on :: "char \<Rightarrow> string \<Rightarrow> string list" where
  "split_on sep [] = [[]]"
| "split_on sep (c # cs) = (if c = sep then [] # split_on sep cs
     else (case split_on sep cs of [] \<Rightarrow> [[c]] | p # ps \<Rightarrow> (c # p) # ps))"

text \<open>\<open>text.partition(sep)\<close>: the text before the first separator and what follows it, if there is one.\<close>

definition partition_on :: "char \<Rightarrow> string \<Rightarrow> string \<times> string option" where
  "partition_on sep s = (let before = takeWhile (\<lambda>c. c \<noteq> sep) s; rest = dropWhile (\<lambda>c. c \<noteq> sep) s
     in (before, case rest of [] \<Rightarrow> None | _ # after \<Rightarrow> Some after))"

fun join :: "string \<Rightarrow> string list \<Rightarrow> string" where
  "join sep [] = []"
| "join sep [s] = s"
| "join sep (s # ss) = s @ sep @ join sep ss"

definition words :: "string \<Rightarrow> string list" where
  "words s = filter (\<lambda>w. w \<noteq> []) (split_on CHR '' '' (map (\<lambda>c. if is_space c then CHR '' '' else c) s))"

lemma split_on_nonempty [simp]: "split_on sep s \<noteq> []"
  by (cases s) (auto split: list.split)

lemma dropWhile_hd: "xs = [] \<or> \<not> P (hd xs) \<Longrightarrow> dropWhile P xs = xs"
  by (cases xs) auto

lemma strip_id: "s = [] \<or> (\<not> is_space (hd s) \<and> \<not> is_space (last s)) \<Longrightarrow> strip s = s"
  by (cases "s = []") (auto simp: strip_def lstrip_def dropWhile_hd hd_rev)

lemma strip_ends: "strip s = [] \<or> (\<not> is_space (hd (strip s)) \<and> \<not> is_space (last (strip s)))"
proof (cases "strip s = []")
  case False
  define t where "t = lstrip s"
  have r: "strip s = rev (dropWhile is_space (rev t))" by (simp add: strip_def t_def lstrip_def)
  then have ne: "dropWhile is_space (rev t) \<noteq> []" using False by simp
  then have "\<not> is_space (hd (dropWhile is_space (rev t)))" by (rule hd_dropWhile)
  then have last: "\<not> is_space (last (strip s))" using r by (simp add: last_rev)
  have "t \<noteq> []" using ne by auto
  then have "\<not> is_space (hd t)" unfolding t_def lstrip_def by (rule hd_dropWhile)
  moreover obtain ys where "t = strip s @ ys"
    using r by (metis rev_append rev_rev_ident takeWhile_dropWhile_id)
  ultimately have "\<not> is_space (hd (strip s))" using False by simp
  then show ?thesis using last by blast
qed simp

lemma strip_idem [simp]: "strip (strip s) = strip s"
  using strip_id[OF strip_ends] .

section \<open>Decimal text\<close>

definition digit :: "nat \<Rightarrow> char" where "digit d = char_of (48 + d)"
definition digit_value :: "char \<Rightarrow> nat" where "digit_value c = code_of c - 48"

function show_nat :: "nat \<Rightarrow> string" where
  "show_nat n = (if n < 10 then [digit n] else show_nat (n div 10) @ [digit (n mod 10)])"
  by pat_completeness auto
termination by (relation "measure id") auto

declare show_nat.simps [simp del]

definition show_int :: "int \<Rightarrow> string" where
  "show_int i = (if i < 0 then CHR ''-'' # show_nat (nat (- i)) else show_nat (nat i))"

definition read_nat :: "string \<Rightarrow> nat" where
  "read_nat s = foldl (\<lambda>n c. n * 10 + digit_value c) 0 s"

lemma digit_simps [simp]: "d < 10 \<Longrightarrow> digit_value (digit d) = d" "d < 10 \<Longrightarrow> is_digit (digit d)"
  by (simp_all add: digit_def digit_value_def is_digit_def code_char_of)

lemma read_show_nat [simp]: "read_nat (show_nat n) = n"
proof (induction n rule: show_nat.induct)
  case (1 n)
  then show ?case by (subst show_nat.simps) (auto simp: read_nat_def)
qed

lemma show_nat_digits: "c \<in> set (show_nat n) \<Longrightarrow> is_digit c"
proof (induction n rule: show_nat.induct)
  case (1 n)
  then show ?case by (subst (asm) (2) show_nat.simps) (auto split: if_splits)
qed

lemma show_nat_nonempty [simp]: "show_nat n \<noteq> []"
  by (subst show_nat.simps) simp

text \<open>\<open>int(text)\<close>: spaces around, a sign, digits with single underscores between them.\<close>

fun digits_of :: "bool \<Rightarrow> string \<Rightarrow> string option" where
  "digits_of after [] = (if after then Some [] else None)"
| "digits_of after (c # cs) =
     (if is_digit c then map_option ((#) c) (digits_of True cs)
      else if c = CHR ''_'' \<and> after then digits_of False cs
      else None)"

definition unsigned :: "string \<Rightarrow> nat option" where
  "unsigned s = map_option read_nat (digits_of False s)"

definition signed :: "(string \<Rightarrow> 'a option) \<Rightarrow> ('a \<Rightarrow> 'a) \<Rightarrow> string \<Rightarrow> 'a option" where
  "signed f neg s = (case s of
      [] \<Rightarrow> f []
    | c # cs \<Rightarrow> if c = CHR ''-'' then map_option neg (f cs) else if c = CHR ''+'' then f cs else f (c # cs))"

definition int_of_text :: "string \<Rightarrow> int option" where
  "int_of_text s = signed (\<lambda>t. map_option int (unsigned t)) uminus (strip s)"

text \<open>\<open>float(text)\<close>: a decimal number with an optional fraction and exponent, or \<open>inf\<close>,
  \<open>infinity\<close>, \<open>nan\<close> in any case. The value is the exact decimal.\<close>

definition opt_digits :: "string \<Rightarrow> string option" where
  "opt_digits s = (if s = [] then Some [] else digits_of False s)"

definition mantissa :: "string \<Rightarrow> real option" where
  "mantissa s = (case partition_on CHR ''.'' s of
      (whole, None) \<Rightarrow> map_option real (unsigned whole)
    | (whole, Some fraction) \<Rightarrow>
        (if whole = [] \<and> fraction = [] then None
         else case (opt_digits whole, opt_digits fraction) of
           (Some a, Some b) \<Rightarrow> Some (real (read_nat a) + real (read_nat b) / 10 ^ length b)
         | _ \<Rightarrow> None))"

definition scientific :: "string \<Rightarrow> fl option" where
  "scientific s = (case partition_on CHR ''e'' s of
      (m, None) \<Rightarrow> map_option Fin (mantissa m)
    | (m, Some e) \<Rightarrow> (case (mantissa m, signed (\<lambda>t. map_option int (unsigned t)) uminus e) of
          (Some x, Some k) \<Rightarrow> Some (Fin (if k \<ge> 0 then x * 10 ^ nat k else x / 10 ^ nat (- k)))
        | _ \<Rightarrow> None))"

definition float_of_text :: "string \<Rightarrow> fl option" where
  "float_of_text s = signed (\<lambda>t. if t = ''inf'' \<or> t = ''infinity'' then Some PInf
      else if t = ''nan'' then Some NaN else scientific t) fl_neg (lower (strip s))"

lemma digits_of_digits: "(\<forall>c \<in> set s. is_digit c) \<Longrightarrow> s \<noteq> [] \<or> b \<Longrightarrow> digits_of b s = Some s"
  by (induction b s rule: digits_of.induct) auto

lemma unsigned_show_nat [simp]: "unsigned (show_nat n) = Some n"
proof -
  have "digits_of False (show_nat n) = Some (show_nat n)"
    by (rule digits_of_digits) (auto intro: show_nat_digits)
  then show ?thesis by (simp add: unsigned_def)
qed

text \<open>The text of an integer reads back as that integer.\<close>

lemma show_nat_hd_last: "is_digit (hd (show_nat n))" "is_digit (last (show_nat n))"
  using show_nat_digits[of "hd (show_nat n)" n] show_nat_digits[of "last (show_nat n)" n] by simp_all

lemma digit_not_sign: "is_digit c \<Longrightarrow> c \<noteq> CHR ''-'' \<and> c \<noteq> CHR ''+'' \<and> c \<noteq> CHR ''_'' \<and> \<not> is_space c"
  by (auto simp: is_digit_def is_space_def Let_def code_of_def)

lemma int_of_show_int [simp]: "int_of_text (show_int i) = Some i"
proof -
  have "\<not> is_space (hd (show_int i))" "\<not> is_space (last (show_int i))" "show_int i \<noteq> []"
    using show_nat_hd_last digit_not_sign by (auto simp: show_int_def is_space_def Let_def code_of_def)
  then have s: "strip (show_int i) = show_int i" by (intro strip_id) blast
  show ?thesis
  proof (cases "i < 0")
    case True
    then show ?thesis unfolding int_of_text_def s by (simp add: show_int_def signed_def)
  next
    case False
    obtain c cs where c: "show_nat (nat i) = c # cs" by (meson list.exhaust show_nat_nonempty)
    then have "is_digit c" using show_nat_hd_last(1)[of "nat i"] by simp
    then show ?thesis using False c unsigned_show_nat[of "nat i"] digit_not_sign[of c]
      unfolding int_of_text_def s by (simp add: show_int_def signed_def)
  qed
qed

lemma show_int_inj: "show_int a = show_int b \<Longrightarrow> a = b"
  using int_of_show_int by (metis option.inject)

end
