(* ===== verification/CliOptions.thy ===== *)
theory CliOptions
  imports Text CliPostProcessing
begin

text \<open>
  The argparse types of the command line: \<open>cli/options.py\<close>, \<open>_timeframe\<close> of \<open>cli/run.py\<close>, and
  \<open>_models\<close>, \<open>_model\<close> and \<open>_stop_loss\<close> of \<open>cli/run_all.py\<close>. A type maps the text of an option to
  its value or to the error argparse reports.
\<close>

datatype type_error =
    NotNumber string
  | NotFinite string
  | Below string \<comment> \<open>must be so much or more\<close>
  | NotFraction string
  | NotWhole string
  | Repeats string
  | NotCandleLength string
  | EmptyModel

definition number :: "string \<Rightarrow> type_error + fl" where
  "number text = (case float_of_text text of
      None \<Rightarrow> Inl (NotNumber text)
    | Some v \<Rightarrow> if is_finite v then Inr v else Inl (NotFinite text))"

definition non_negative :: "string \<Rightarrow> type_error + fl" where
  "non_negative text = bind_res (number text) (\<lambda>v. if v < Fin 0 then Inl (Below text) else Inr v)"

definition fraction :: "string \<Rightarrow> type_error + fl" where
  "fraction text = bind_res (number text) (\<lambda>v. if Fin 0 < v \<and> v < Fin 1 then Inr v else Inl (NotFraction text))"

definition at_least :: "int \<Rightarrow> string \<Rightarrow> type_error + int" where
  "at_least minimum text = (case int_of_text text of
      None \<Rightarrow> Inl (NotWhole text)
    | Some v \<Rightarrow> if v < minimum then Inl (Below text) else Inr v)"

definition list_type :: "(string \<Rightarrow> type_error + 'a) \<Rightarrow> string \<Rightarrow> type_error + 'a list" where
  "list_type item text = bind_res (map_res item (map strip (split_on CHR '','' text)))
     (\<lambda>vs. if length (remdups vs) < length vs then Inl (Repeats text) else Inr vs)"

definition UNIT_SECONDS :: "(char \<times> int) list" where
  "UNIT_SECONDS = [(CHR ''m'', 60), (CHR ''h'', 3600), (CHR ''d'', 86400)]"

text \<open>\<open>([1-9][0-9]*)([mhd])\<close>, the whole text.\<close>

definition timeframe_type :: "string \<Rightarrow> type_error + int" where
  "timeframe_type text =
     (let digits = butlast text
      in if text \<noteq> [] \<and> digits \<noteq> [] \<and> is_digit (hd digits) \<and> hd digits \<noteq> CHR ''0'' \<and> list_all is_digit digits
         then (case map_of UNIT_SECONDS (last text) of
             Some unit \<Rightarrow> Inr (int (read_nat digits) * unit) | None \<Rightarrow> Inl (NotCandleLength text))
         else Inl (NotCandleLength text))"

definition model_type :: "string \<Rightarrow> type_error + string" where
  "model_type text = (if text = [] then Inl EmptyModel else Inr text)"

definition models_type :: "string \<Rightarrow> type_error + string list option" where
  "models_type text = (if text = ''all'' then Inr None
     else bind_res (list_type model_type text) (\<lambda>names. Inr (Some names)))"

definition stop_loss_type :: "string \<Rightarrow> type_error + fl option" where
  "stop_loss_type text = (if text = ''none'' then Inr None
     else bind_res (fraction text) (\<lambda>v. Inr (Some v)))"

section \<open>What a parsed option satisfies\<close>

lemma number_finite: "number text = Inr v \<Longrightarrow> is_finite v"
  by (auto simp: number_def split: option.splits if_splits)

lemma non_negative_range: "non_negative text = Inr v \<Longrightarrow> \<exists>x. v = Fin x \<and> 0 \<le> x"
  by (auto simp: non_negative_def res_simps is_finite_iff not_less split: if_splits dest!: number_finite)

lemma fraction_range: "fraction text = Inr v \<Longrightarrow> \<exists>x. v = Fin x \<and> 0 < x \<and> x < 1"
  by (auto simp: fraction_def res_simps is_finite_iff split: if_splits dest!: number_finite)

lemma at_least_range: "at_least m text = Inr v \<Longrightarrow> m \<le> v"
  by (auto simp: at_least_def split: option.splits if_splits)

lemma at_least_show: "m \<le> v \<Longrightarrow> at_least m (show_int v) = Inr v"
  by (simp add: at_least_def)

lemma list_type_distinct:
  assumes "list_type item text = Inr vs"
  shows "distinct vs \<and> vs \<noteq> [] \<and> (\<forall>v \<in> set vs. \<exists>part. item part = Inr v)"
proof -
  obtain ws where ws: "map_res item (map strip (split_on CHR '','' text)) = Inr ws"
    and vs: "\<not> length (remdups ws) < length ws" "vs = ws"
    using assms by (auto simp: list_type_def res_simps split: if_splits)
  have all: "list_all2 (\<lambda>x y. item x = Inr y) (map strip (split_on CHR '','' text)) ws"
    using ws by (simp add: map_res_eq_Inr)
  have "ws \<noteq> []" using all split_on_nonempty[of "CHR '',''" "text"] by auto
  moreover have "distinct ws"
  proof -
    have "length (remdups ws) = length ws" using vs(1) length_remdups_leq[of ws] by simp
    then show ?thesis by (simp add: length_remdups_eq)
  qed
  moreover have "\<exists>part. item part = Inr v" if "v \<in> set ws" for v
    using all that by (auto simp: list_all2_conv_all_nth in_set_conv_nth)
  ultimately show ?thesis using vs(2) by blast
qed

lemma timeframe_type_positive:
  assumes "timeframe_type text = Inr n"
  shows "0 < n"
proof -
  obtain d ds unit where d: "butlast text = d # ds" "is_digit d" "d \<noteq> CHR ''0''"
    and u: "map_of UNIT_SECONDS (last text) = Some unit" "n = int (read_nat (d # ds)) * unit"
    using assms unfolding timeframe_type_def Let_def
    by (cases "butlast text") (auto split: if_splits option.splits)
  have "code_of CHR ''0'' = 48" by (simp add: code_of_def)
  then have "code_of d \<noteq> 48" using d(3) unfolding code_of_def by (metis of_char_eq_iff)
  then have pos: "0 < digit_value d" using d(2) by (simp add: digit_value_def is_digit_def)
  have grows: "k \<le> foldl (\<lambda>n c. n * 10 + digit_value c) k cs" for k cs
  proof (induction cs arbitrary: k)
    case (Cons c cs)
    have "k \<le> k * 10 + digit_value c" by simp
    also have "\<dots> \<le> foldl (\<lambda>n c. n * 10 + digit_value c) (k * 10 + digit_value c) cs" by (rule Cons.IH)
    finally show ?case by simp
  qed simp
  have "0 < read_nat (d # ds)" unfolding read_nat_def using pos grows[of "digit_value d" ds] by simp
  moreover have "0 < unit" using u(1) by (auto simp: UNIT_SECONDS_def split: if_splits)
  ultimately show ?thesis using u(2) by simp
qed

end
