(* ===== verification/CliRun.thy ===== *)
theory CliRun
  imports CliOptions SignalAlignment MetricsSummary
begin

text \<open>
  \<open>cli/run.py\<close>: one backtest from two Parquet files to four result files. The disk is a record of
  what the command reads (\<open>disk\<close>: the bytes of a file, Polars' reader and SHA-256 of bytes) and which
  paths it may write; what it writes is a list of paths and contents. Messages are values
  (\<open>run_failure\<close>), and a \<open>ZeroDivisionError\<close> of the engine or an \<open>OverflowError\<close> of the signal is a
  traceback, as the command catches \<open>OSError\<close>, \<open>ValueError\<close> and Polars errors only.
\<close>

section \<open>The disk\<close>

record disk =
  bytes_at :: "string \<Rightarrow> string option"
  parquet_of :: "string \<Rightarrow> frame option"
  sha256_of :: "string \<Rightarrow> string"
  writable :: "string \<Rightarrow> bool"

datatype content =
    TradesFile "trade list"
  | SeriesFile result "real list"
  | JsonFile json

text \<open>The files are written in order, up to the first that cannot be.\<close>

definition write_files :: "disk \<Rightarrow> (string \<times> content) list \<Rightarrow> (string \<times> content) list \<times> string option" where
  "write_files d files = (takeWhile (\<lambda>(p, _). writable d p) files,
     case dropWhile (\<lambda>(p, _). writable d p) files of [] \<Rightarrow> None | (p, _) # _ \<Rightarrow> Some p)"

section \<open>The options\<close>

datatype labels = OpenLabels | CloseLabels

record run_args =
  ra_candles :: string
  ra_predictions :: string
  ra_out :: string
  ra_ts_column :: string
  ra_labels :: labels
  ra_timeframe :: "int option"
  ra_model :: "string option"
  ra_allow_gaps :: bool
  ra_post :: pp_args
  ra_fill :: fill
  ra_stop_loss :: "fl option"
  ra_drawdown_stop :: "fl option"
  ra_fee_bps :: fl
  ra_slippage_bps :: fl

datatype usage_error = LabelsNeedTimeframe | TimeframeNeedsClose | WrongOption option_error

definition check_time_labels :: "labels \<Rightarrow> int option \<Rightarrow> usage_error + unit" where
  "check_time_labels labels timeframe =
     bind_res (raise_if (labels = CloseLabels \<and> timeframe = None) LabelsNeedTimeframe) (\<lambda>_.
     raise_if (labels = OpenLabels \<and> timeframe \<noteq> None) TimeframeNeedsClose)"

section \<open>Reading and aligning\<close>

datatype run_failure =
    NoFile string string
  | NotParquet string string
  | LacksColumns string string "string list"
  | TsBesides string string string
  | NotEpochSeconds string string string dtype
  | PickModel string nat
  | AlignRefused align_error
  | SignalRefused signal_error
  | SettingsRefused settings_error
  | EngineRefused engine_error
  | CannotWrite string
  | NotText string
  | NamesNoModel string
  | LacksModel string string

datatype run_stop = Caught run_failure | Uncaught py_error

definition rename_column :: "string \<Rightarrow> string \<Rightarrow> frame \<Rightarrow> frame" where
  "rename_column old new f = map (\<lambda>(n, s). (if n = old then new else n, s)) f"

definition PRICES :: "string list" where
  "PRICES = [''open'', ''high'', ''low'', ''close'']"

definition read_input :: "disk \<Rightarrow> string \<Rightarrow> string \<Rightarrow> string \<Rightarrow> string list \<Rightarrow> run_failure + frame" where
  "read_input d path what ts_column cols = (case bytes_at d path of
      None \<Rightarrow> Inl (NoFile what path)
    | Some bs \<Rightarrow> (case parquet_of d bs of
        None \<Rightarrow> Inl (NotParquet what path)
      | Some f \<Rightarrow>
          (let missing = filter (\<lambda>name. name \<notin> set (columns f)) (ts_column # cols);
               dtype = s_dtype (the_column f ts_column)
           in bind_res (raise_if (missing \<noteq> []) (LacksColumns what path missing)) (\<lambda>_.
              bind_res (raise_if (ts_column \<noteq> ''ts'' \<and> ''ts'' \<in> set (columns f)) (TsBesides what path ts_column)) (\<lambda>_.
              bind_res (raise_if (\<not> is_integer dtype) (NotEpochSeconds what path ts_column dtype)) (\<lambda>_.
              Inr (rename_column ts_column ''ts'' f)))))))"

definition map_err :: "('e \<Rightarrow> 'g) \<Rightarrow> 'e + 'a \<Rightarrow> 'g + 'a" where
  "map_err h m = (case m of Inl e \<Rightarrow> Inl (h e) | Inr x \<Rightarrow> Inr x)"

text \<open>\<open>relabel\<close> only when the files are labelled by the candle's close.\<close>

definition relabel_unless_open :: "int option \<Rightarrow> frame \<Rightarrow> align_error + frame" where
  "relabel_unless_open timeframe f = (case timeframe of None \<Rightarrow> Inr f | Some tf \<Rightarrow> relabel f (PyInt tf) ''ts'')"

definition aligned :: "frame \<Rightarrow> frame \<Rightarrow> int option \<Rightarrow> string option \<Rightarrow> bool \<Rightarrow> string \<Rightarrow>
    run_failure + (frame \<times> align_report)" where
  "aligned candles predictions timeframe model allow_gaps source =
     (let models = (if ''model'' \<in> set (columns predictions)
                    then length (remdups (s_cells (the_column predictions ''model''))) else 1)
      in bind_res (raise_if (model = None \<and> models > 1) (PickModel source models)) (\<lambda>_.
         map_err AlignRefused
           (bind_res (relabel_unless_open timeframe candles) (\<lambda>candles.
            bind_res (relabel_unless_open timeframe predictions) (\<lambda>predictions.
            align candles predictions model (\<not> allow_gaps))))))"

section \<open>One run\<close>

text \<open>The candles as \<open>stats\<close> joins them: \<open>ts\<close> and \<open>close\<close>.\<close>

definition closes_of :: "frame \<Rightarrow> (int \<times> real) list" where
  "closes_of f = zip (int_values f ''ts'') (map price_of (cast_float64 (s_cells (the_column f ''close''))))"

definition PERIODS_PER_YEAR :: real where "PERIODS_PER_YEAR = 252"

text \<open>\<open>backtest\<close> of the frame with its signal, and its statistics.\<close>

definition backtest_signal :: "frame \<Rightarrow> series \<Rightarrow> settings \<Rightarrow> run_stop + (result \<times> statistics)" where
  "backtest_signal frame signal settings =
     (case backtest (with_column ''signal'' signal frame) settings of
        Inl (InvalidInput e) \<Rightarrow> Inl (Caught (EngineRefused e))
      | Inl (PyRaised e) \<Rightarrow> Inl (Uncaught e)
      | Inr r \<Rightarrow> Inr (r, stats r (closes_of frame) PERIODS_PER_YEAR))"

definition caught :: "('e \<Rightarrow> run_failure) \<Rightarrow> 'e + 'a \<Rightarrow> run_stop + 'a" where
  "caught h m = map_err (\<lambda>e. Caught (h e)) m"

text \<open>An error of the post-processing; only its \<open>OverflowError\<close> is none of those the command catches.\<close>

definition signal_stop :: "signal_error \<Rightarrow> run_stop" where
  "signal_stop e = (if e = Overflows then Uncaught OverflowError else Caught (SignalRefused e))"

lemma map_err_simps [simp]:
  "map_err h (Inr x) = Inr x" "map_err h (Inl e) = Inl (h e)"
  "map_err h m = Inr y \<longleftrightarrow> m = Inr y" "map_err h m = Inl e' \<longleftrightarrow> (\<exists>e. m = Inl e \<and> e' = h e)"
  by (cases m; auto simp: map_err_def)+

lemma map_err_bind: "map_err h (bind_res m f) = bind_res (map_err h m) (\<lambda>x. map_err h (f x))"
  by (cases m) auto

lemma caught_simps [simp]:
  "caught h (Inr x) = Inr x" "caught h (Inl e) = Inl (Caught (h e))" "caught h m = Inr y \<longleftrightarrow> m = Inr y"
  by (cases m; auto simp: caught_def)+

record ran =
  ran_settings :: settings
  ran_post :: post_processing
  ran_report :: align_report
  ran_result :: result
  ran_stats :: statistics

definition run_steps :: "rolling \<Rightarrow> disk \<Rightarrow> run_args \<Rightarrow> run_stop + ran" where
  "run_steps R d args =
     bind_res (caught SettingsRefused (make_settings (ra_fill args) (ra_stop_loss args)
         (ra_drawdown_stop args) (ra_fee_bps args) (ra_slippage_bps args))) (\<lambda>settings.
     (let post = post_processing_of (ra_post args)
            (rule_limit (a_rule (ra_post args)) (a_threshold (ra_post args)));
          model = (case ra_model args of None \<Rightarrow> [] | Some _ \<Rightarrow> [''model''])
      in bind_res (caught id (read_input d (ra_candles args) ''candles'' (ra_ts_column args) PRICES)) (\<lambda>candles.
         bind_res (caught id (read_input d (ra_predictions args) ''predictions'' (ra_ts_column args)
             (''prediction'' # model))) (\<lambda>predictions.
         bind_res (caught id (aligned candles predictions (ra_timeframe args) (ra_model args)
             (ra_allow_gaps args) (ra_predictions args))) (\<lambda>(frame, report).
         bind_res (map_err signal_stop (make_signal R (the_column frame ''prediction'') post)) (\<lambda>signal.
         bind_res (backtest_signal frame signal settings) (\<lambda>(result, values).
         Inr \<lparr>ran_settings = settings, ran_post = post, ran_report = report, ran_result = result,
              ran_stats = values\<rparr>)))))))"

section \<open>What a run writes\<close>

definition json_real :: "real option \<Rightarrow> json" where
  "json_real = json_opt (\<lambda>x. JNum (Fin x))"

definition json_stats :: "statistics \<Rightarrow> json" where
  "json_stats s = JObj [
     (''total_return'', json_real (total_return s)), (''max_drawdown'', json_real (max_drawdown s)),
     (''sharpe'', json_real (sharpe_ratio s)), (''sortino'', json_real (sortino_ratio s)),
     (''num_trades'', JInt (int (num_trades s))), (''win_rate'', json_real (win_rate s)),
     (''avg_trade_return'', json_real (avg_trade_return s)),
     (''best_trade_return'', json_real (best_trade_return s)),
     (''worst_trade_return'', json_real (worst_trade_return s)), (''exposure'', json_real (exposure s)),
     (''fees_paid'', JNum (Fin (fees_paid s))), (''buy_and_hold_return'', json_real (buy_and_hold s))]"

definition fill_name :: "fill \<Rightarrow> string" where
  "fill_name f = (case f of NextOpen \<Rightarrow> ''next_open'' | SignalClose \<Rightarrow> ''signal_close'')"

definition labels_name :: "labels \<Rightarrow> string" where
  "labels_name l = (case l of OpenLabels \<Rightarrow> ''open'' | CloseLabels \<Rightarrow> ''close'')"

definition settings_dump :: "settings \<Rightarrow> (string \<times> json) list" where
  "settings_dump s = [(''fill'', JStr (fill_name (st_fill s))), (''stop_loss'', json_real (st_stop_loss s)),
     (''drawdown_stop'', json_real (st_drawdown_stop s)), (''fee_bps'', JNum (Fin (st_fee_bps s))),
     (''slippage_bps'', JNum (Fin (st_slippage_bps s)))]"

definition report_dump :: "align_report \<Rightarrow> json" where
  "report_dump r = JObj [(''predictions_without_candle'', JInt (int (predictions_without_candle r))),
     (''candles_without_prediction'', JInt (int (candles_without_prediction r)))]"

text \<open>The entry of an input file; hashing a file that is gone is an \<open>OSError\<close>.\<close>

definition input_record :: "disk \<Rightarrow> string \<Rightarrow> run_failure + json" where
  "input_record d path = (case bytes_at d path of
      None \<Rightarrow> Inl (NoFile ''input'' path)
    | Some bs \<Rightarrow> Inr (JObj [(''path'', JStr path), (''sha256'', JStr (sha256_of d bs))]))"

definition run_record :: "disk \<Rightarrow> run_args \<Rightarrow> ran \<Rightarrow> run_failure + json" where
  "run_record d args r =
     bind_res (input_record d (ra_candles args)) (\<lambda>candles.
     bind_res (input_record d (ra_predictions args)) (\<lambda>predictions.
     Inr (JObj [
       (''engine_version'', JStr (res_version (ran_result r))),
       (''inputs'', JObj [(''candles'', candles), (''predictions'', predictions)]),
       (''settings'', JObj ([
          (''ts_column'', JStr (ra_ts_column args)), (''labels'', JStr (labels_name (ra_labels args))),
          (''timeframe_seconds'', json_opt JInt (ra_timeframe args)),
          (''model'', json_opt JStr (ra_model args)), (''allow_gaps'', JBool (ra_allow_gaps args)),
          (''threshold'', json_opt JNum (pp_threshold (ran_post r))),
          (''long_only'', JBool (pp_long_only (ran_post r)))] @ settings_dump (ran_settings r))),
       (''post_processing'', describe (ran_post r)),
       (''align'', report_dump (ran_report r))])))"

definition result_files :: "string \<Rightarrow> ran \<Rightarrow> json \<Rightarrow> (string \<times> content) list" where
  "result_files out r record_json = [
     (out @ ''/trades.parquet'', TradesFile (res_trades (ran_result r))),
     (out @ ''/series.parquet'', SeriesFile (ran_result r) (drawdown (res_equity (ran_result r)))),
     (out @ ''/stats.json'', JsonFile (json_stats (ran_stats r))),
     (out @ ''/run.json'', JsonFile record_json)]"

datatype shown = Count nat | Percent "real option" | Decimal "real option"

definition summary_rows :: "statistics \<Rightarrow> (string \<times> shown) list" where
  "summary_rows s = [(''trades'', Count (num_trades s)), (''win rate'', Percent (win_rate s)),
     (''total return'', Percent (total_return s)), (''max drawdown'', Percent (max_drawdown s)),
     (''sharpe'', Decimal (sharpe_ratio s)), (''buy and hold'', Percent (buy_and_hold s))]"

datatype run_outcome =
    Usage usage_error \<comment> \<open>\<open>parser.error\<close>\<close>
  | Refused run_failure \<comment> \<open>the reason on one line\<close>
  | Traceback py_error
  | Summary "(string \<times> shown) list"

definition run_exit :: "run_outcome \<Rightarrow> nat" where
  "run_exit res = (case res of Usage _ \<Rightarrow> 2 | Refused _ \<Rightarrow> 2 | Traceback _ \<Rightarrow> 1 | Summary _ \<Rightarrow> 0)"

definition run_command :: "rolling \<Rightarrow> disk \<Rightarrow> run_args \<Rightarrow> run_outcome \<times> (string \<times> content) list" where
  "run_command R d args =
     (case bind_res (check_time_labels (ra_labels args) (ra_timeframe args))
             (\<lambda>_. map_err WrongOption (check_post_processing (ra_post args) False)) of
        Inl e \<Rightarrow> (Usage e, [])
      | Inr _ \<Rightarrow> (case run_steps R d args of
          Inl (Caught e) \<Rightarrow> (Refused e, [])
        | Inl (Uncaught e) \<Rightarrow> (Traceback e, [])
        | Inr r \<Rightarrow> (case run_record d args r of
            Inl e \<Rightarrow> (Refused e, [])
          | Inr rec \<Rightarrow> (case write_files d (result_files (ra_out args) r rec) of
              (written, Some p) \<Rightarrow> (Refused (CannotWrite p), written)
            | (written, None) \<Rightarrow> (Summary (summary_rows (ran_stats r)), written)))))"

section \<open>What a run leaves behind\<close>

text \<open>What the argparse types of the options guarantee.\<close>

definition typed_run_args :: "run_args \<Rightarrow> bool" where
  "typed_run_args args = (typed_args (ra_post args) \<and>
     (case ra_timeframe args of None \<Rightarrow> True | Some tf \<Rightarrow> 0 < tf) \<and>
     (case ra_stop_loss args of None \<Rightarrow> True | Some v \<Rightarrow> Fin 0 < v \<and> v < Fin 1) \<and>
     (case ra_drawdown_stop args of None \<Rightarrow> True | Some v \<Rightarrow> Fin 0 < v \<and> v < Fin 1) \<and>
     is_finite (ra_fee_bps args) \<and> Fin 0 \<le> ra_fee_bps args \<and>
     is_finite (ra_slippage_bps args) \<and> Fin 0 \<le> ra_slippage_bps args)"

lemma fraction_field_typed:
  "(case v of None \<Rightarrow> True | Some x \<Rightarrow> Fin 0 < x \<and> x < Fin 1) \<Longrightarrow> \<exists>y. fraction_field e v = Inr y"
  by (cases v; cases "the v") (auto simp: fraction_field_def)

lemma bps_field_typed: "is_finite v \<Longrightarrow> Fin 0 \<le> v \<Longrightarrow> bps_field e v = Inr (fin_val v)"
  by (cases v) (auto simp: bps_field_def)

lemma typed_settings:
  assumes "typed_run_args args"
  shows "\<exists>s. make_settings (ra_fill args) (ra_stop_loss args) (ra_drawdown_stop args) (ra_fee_bps args)
     (ra_slippage_bps args) = Inr s \<and> st_slippage_bps s = fin_val (ra_slippage_bps args)"
proof -
  obtain sl ds where "fraction_field BadStopLoss (ra_stop_loss args) = Inr sl"
      "fraction_field BadDrawdownStop (ra_drawdown_stop args) = Inr ds"
    using assms fraction_field_typed unfolding typed_run_args_def by metis
  then show ?thesis
    using assms by (simp add: typed_run_args_def make_settings_def bps_field_typed)
qed

lemma wf_rename_column:
  assumes "wf_frame f" "old \<noteq> new \<longrightarrow> new \<notin> set (columns f)"
  shows "wf_frame (rename_column old new f)"
proof (rule wf_frameI)
  have "inj_on (\<lambda>n. if n = old then new else n) (set (columns f))"
    using assms(2) by (auto simp: inj_on_def)
  moreover have "columns (rename_column old new f) = map (\<lambda>n. if n = old then new else n) (columns f)"
    by (simp add: rename_column_def columns_def comp_def case_prod_unfold)
  ultimately show "distinct (columns (rename_column old new f))"
    using wf_frame_distinct[OF assms(1)] by (simp add: distinct_map)
  show "length (s_cells s) = height f" if "(n, s) \<in> set (rename_column old new f)" for n s
    using that wf_frame_length[OF assms(1)] by (auto simp: rename_column_def)
qed

lemma read_input_wf:
  assumes "\<forall>bs f. parquet_of d bs = Some f \<longrightarrow> wf_frame f" "read_input d path what ts cols = Inr f"
  shows "wf_frame f \<and> f \<noteq> []"
proof -
  obtain bs g where g: "parquet_of d bs = Some g" "f = rename_column ts ''ts'' g"
      "ts \<noteq> ''ts'' \<longrightarrow> ''ts'' \<notin> set (columns g)" "filter (\<lambda>name. name \<notin> set (columns g)) (ts # cols) = []"
    using assms(2) unfolding read_input_def Let_def
    by (auto simp: res_simps simp del: filter.simps split: option.splits)
  from this(4) have "ts \<in> set (columns g)" unfolding filter_empty_conv by auto
  then have "g \<noteq> []" by (auto simp: columns_def)
  then show ?thesis using wf_rename_column[of g ts "''ts''"] g assms(1) by (auto simp: rename_column_def)
qed

lemma check_ts_column: "check_ts f name what = Inr u \<Longrightarrow> name \<in> set (columns f)"
  by (auto simp: check_ts_def require_columns_def Let_def res_simps filter_empty_conv split: if_splits)

lemma length_int_values: "wf_frame f \<Longrightarrow> n \<in> set (columns f) \<Longrightarrow> length (int_values f n) = height f"
  by (simp add: int_values_def the_column_length)

lemma relabel_wf:
  assumes "wf_frame f" "relabel f tf name = Inr g"
  shows "wf_frame g"
proof -
  obtain t where "check_ts f name TheFrame = Inr ()"
      "g = with_column name (int64_series (map (\<lambda>x. x - t) (int_values f name))) f"
    using assms(2) by (auto simp: relabel_def Let_def res_simps split: pyint.splits)
  then show ?thesis
    using wf_frame_with_column[OF assms(1)] length_int_values[OF assms(1)] check_ts_column
    by (simp add: int64_series_def)
qed

lemma unique_ts_wf:
  assumes "wf_frame f" "unique_ts f what = Inr g"
  shows "wf_frame g \<and> g \<noteq> [] \<and> set (columns g) = set (columns f) \<and> ''ts'' \<in> set (columns f)"
proof -
  have ts: "''ts'' \<in> set (columns f)" and g: "\<exists>rows. g = pick_rows rows (with_column ''ts'' (int64_series (int_values f ''ts'')) f)"
    using assms(2) check_ts_column by (auto simp: unique_ts_def Let_def res_simps)
  have "wf_frame (with_column ''ts'' (int64_series (int_values f ''ts'')) f)"
    using wf_frame_with_column[OF assms(1)] length_int_values[OF assms(1) ts] by (simp add: int64_series_def)
  moreover have "with_column n t f \<noteq> []" for n t
    using ts by (auto simp: columns_def with_column_def)
  moreover have "pick_rows rows h \<noteq> []" if "h \<noteq> []" for rows h using that by (simp add: pick_rows_def)
  ultimately show ?thesis
    using g ts wf_frame_pick_rows by (auto simp: columns_with_column)
qed

lemma align_rows_length:
  assumes "align_rows cts own strict = Inr (idx, filled, report)"
  shows "length filled = length idx"
proof -
  define landed where "landed = filter (\<lambda>(t, _). t \<in> set cts) own"
  define lo hi where "lo = Min (fst ` set landed)" and "hi = Max (fst ` set landed)"
  define rs where "rs = filter (\<lambda>i. lo \<le> cts ! i \<and> cts ! i \<le> hi) [0..<length cts]"
  define joined where "joined = map (\<lambda>i. map_of landed (cts ! i)) rs"
  have "idx = rs \<and> filled = forward_fill joined"
    using assms unfolding align_rows_def Let_def landed_def[symmetric] lo_def[symmetric] hi_def[symmetric]
      rs_def[symmetric] joined_def[symmetric] by (simp split: if_split_asm)
  then show ?thesis by (simp add: forward_fill_def joined_def)
qed

lemma align_wf:
  assumes "wf_frame candles" "align candles predictions model strict = Inr (out, report)"
  shows "wf_frame out \<and> out \<noteq> [] \<and> length (s_cells (the_column out ''prediction'')) = height out"
proof -
  obtain cs own rows filled where no: "''prediction'' \<notin> set (columns candles)"
    and cs: "unique_ts candles TheCandles = Inr cs" and own: "own_predictions predictions model = Inr own"
    and run: "align_rows (int_values cs ''ts'') own strict = Inr (rows, filled, report)"
    and out: "out = pick_rows rows cs @ [(''prediction'', \<lparr>s_dtype = s_dtype (the_column predictions ''prediction''), s_cells = filled\<rparr>)]"
    using assms(2) by (auto simp: align_def res_simps)
  note wf = unique_ts_wf[OF assms(1) cs]
  have len: "length filled = length rows" by (rule align_rows_length[OF run])
  have h: "height (pick_rows rows cs) = length rows" using wf by (simp add: height_pick_rows)
  have ne: "pick_rows rows cs \<noteq> []" using wf by (simp add: pick_rows_def)
  have wf_out: "wf_frame out"
    unfolding out using wf_frame_snoc[OF wf_frame_pick_rows ne] wf no len h by simp
  then show ?thesis
    using the_column_length[OF wf_out, of "''prediction''"] by (simp add: out columns_def)
qed

lemma aligned_wf:
  assumes "wf_frame candles" "aligned candles predictions timeframe model gaps source = Inr (out, report)"
  shows "wf_frame out \<and> out \<noteq> [] \<and> length (s_cells (the_column out ''prediction'')) = height out"
proof -
  obtain c p where c: "relabel_unless_open timeframe candles = Inr c" "align c p model (\<not> gaps) = Inr (out, report)"
    using assms(2) unfolding aligned_def Let_def by (cases "relabel_unless_open timeframe candles")
      (auto simp: map_err_def res_simps split: sum.splits)
  have "wf_frame c"
    using c(1) relabel_wf[OF assms(1)] assms(1) by (auto simp: relabel_unless_open_def split: option.splits)
  then show ?thesis using align_wf c(2) by blast
qed

lemma backtest_signal_returns:
  assumes "wf_frame f" "f \<noteq> []" "length (s_cells s) = height f" "wf_settings st" "st_slippage_bps st < 10000"
  shows "backtest_signal f s st \<noteq> Inl (Uncaught e)"
proof -
  have wf: "wf_frame (with_column ''signal'' s f)" using wf_frame_with_column[OF assms(1,3)] .
  show ?thesis
  proof (cases "read_input_frame (with_column ''signal'' s f)")
    case (Inr c)
    have "safe_env (loop_env c st)"
      using loop_env_wf[OF read_input_frame_wf[OF Inr wf] assms(4)] assms(5) by (simp add: safe_env_def)
    then obtain l where "loop_run (loop_env c st) = Inr l" using loop_run_total by blast
    then show ?thesis using Inr by (simp add: backtest_signal_def backtest_def)
  qed (simp add: backtest_signal_def backtest_def)
qed

lemma make_signal_length:
  assumes "make_signal R p post = Inr s"
  shows "length (s_cells s) = length (s_cells p)"
proof -
  obtain q where "prepare R p post = Inr q" "decide_signal q post = Inr s"
    using assms unfolding make_signal_def by (elim bind_resE)
  then show ?thesis
    using decide_signal_signal[of q post s] prepare_length[of R p post q] by (auto simp: signal_series_def)
qed

lemma read_input_not_settings: "read_input d path what ts cols \<noteq> Inl (SettingsRefused x)"
  by (auto simp: read_input_def Let_def res_simps split: option.split)

lemma aligned_not_settings: "aligned c p tf m gaps src \<noteq> Inl (SettingsRefused x)"
  by (auto simp: aligned_def Let_def res_simps map_err_def split: sum.split)

text \<open>Options that fit 64 bits, as Polars takes them.\<close>

definition int64_options :: "run_args \<Rightarrow> bool" where
  "int64_options args = (\<forall>n. Some n \<in> {a_calibration_window (ra_post args), a_ema (ra_post args), ra_timeframe args}
     \<longrightarrow> n < 2 ^ 63)"

lemma float64_not_overflows: "float64 what one s \<noteq> Inl Overflows"
  by (auto simp: float64_def Let_def split: if_splits)

lemma below_float_limit: "int n < 2 ^ 63 \<Longrightarrow> \<not> FLOAT_LIMIT \<le> int n" "int n < 2 ^ 63 \<Longrightarrow> \<not> FLOAT_LIMIT \<le> int n - 1"
  by (simp_all add: FLOAT_LIMIT_def)

lemmas not_overflow_defs = threshold_def hysteresis_def long_only_def ema_def confirm_def min_hold_def rank_def
  zscore_def check_count_def check_window_def bind_res_eq_Inl raise_if_def

lemma steps_not_overflow:
  "threshold s t \<noteq> Inl Overflows" "hysteresis s t x \<noteq> Inl Overflows" "long_only s \<noteq> Inl Overflows"
  "ema s v \<noteq> Inl Overflows" "confirm s v \<noteq> Inl Overflows" "min_hold s v \<noteq> Inl Overflows"
  "w < 2 ^ 63 \<Longrightarrow> rank s (PyInt w) \<noteq> Inl Overflows" "w < 2 ^ 63 \<Longrightarrow> zscore R s (PyInt w) \<noteq> Inl Overflows"
  using float64_not_overflows below_float_limit[of "nat w"]
  by (auto simp: not_overflow_defs split: pyint.splits if_splits)

text \<open>Only the k-means rule overflows on such options.\<close>

lemma overflow_is_kmeans:
  assumes "make_signal R p post = Inl Overflows" "\<forall>w. pp_calibration_window post = Some w \<longrightarrow> w < 2 ^ 63"
  shows "pp_rule post = KmeansRule"
proof (rule ccontr)
  assume "pp_rule post \<noteq> KmeansRule"
  then have "apply_rule q post \<noteq> Inl Overflows" for q
    using steps_not_overflow(1,2) by (auto simp: apply_rule_def split: rule.splits option.splits)
  then have "decide_signal q post \<noteq> Inl Overflows" for q
    using steps_not_overflow(3,5,6) by (auto simp: decide_signal_def bind_res_eq_Inl split: if_splits option.splits)
  moreover have "prepare R p post \<noteq> Inl Overflows"
    using assms(2) steps_not_overflow(4,7,8)
    by (auto simp: prepare_def bind_res_eq_Inl split: option.splits calibration.splits)
  ultimately show False using assms(1) by (auto simp: make_signal_def bind_res_eq_Inl)
qed

lemma run_steps_caught:
  assumes wf: "\<forall>bs f. parquet_of d bs = Some f \<longrightarrow> wf_frame f"
    and typed: "typed_run_args args" "ra_slippage_bps args < Fin 10000" "int64_options args"
    and refused: "run_steps R d args = Inl why"
  shows "(\<exists>e. why = Caught e \<and> (\<forall>x. e \<noteq> SettingsRefused x)) \<or>
    why = Uncaught OverflowError \<and> a_rule (ra_post args) = KmeansRule"
proof -
  obtain st where st: "make_settings (ra_fill args) (ra_stop_loss args) (ra_drawdown_stop args)
      (ra_fee_bps args) (ra_slippage_bps args) = Inr st" "st_slippage_bps st = fin_val (ra_slippage_bps args)"
    using typed_settings[OF typed(1)] by blast
  have slip: "st_slippage_bps st < 10000"
    using typed st(2) by (cases "ra_slippage_bps args") (auto simp: typed_run_args_def)
  let ?cols = "''prediction'' # (case ra_model args of None \<Rightarrow> [] | Some _ \<Rightarrow> [''model''])"
  let ?post = "post_processing_of (ra_post args) (rule_limit (a_rule (ra_post args)) (a_threshold (ra_post args)))"
  note steps = refused[unfolded run_steps_def Let_def st(1) caught_simps bind_res_Inr]
  show ?thesis
  proof (cases "read_input d (ra_candles args) ''candles'' (ra_ts_column args) PRICES")
    case (Inl e)
    then show ?thesis using steps read_input_not_settings by auto
  next
    case c: (Inr c)
    show ?thesis
    proof (cases "read_input d (ra_predictions args) ''predictions'' (ra_ts_column args) ?cols")
      case (Inl e)
      then show ?thesis using steps c read_input_not_settings by auto
    next
      case p: (Inr p)
      show ?thesis
      proof (cases "aligned c p (ra_timeframe args) (ra_model args) (ra_allow_gaps args) (ra_predictions args)")
        case (Inl e)
        then show ?thesis using steps c p aligned_not_settings by auto
      next
        case (Inr fr)
        obtain frame report where fr: "fr = (frame, report)" by (cases fr)
        have "wf_frame c" using read_input_wf[OF wf c] by blast
        note al = aligned_wf[OF this Inr[unfolded fr]]
        show ?thesis
        proof (cases "make_signal R (the_column frame ''prediction'') ?post")
          case (Inl e)
          then have why: "why = signal_stop e" using steps c p \<open>aligned c p _ _ _ _ = Inr fr\<close> fr by auto
          show ?thesis
          proof (cases "e = Overflows")
            case True
            have "\<forall>w. pp_calibration_window ?post = Some w \<longrightarrow> w < 2 ^ 63"
              using typed(3) by (auto simp: int64_options_def post_processing_of_def)
            then have "pp_rule ?post = KmeansRule" using overflow_is_kmeans Inl True by blast
            then show ?thesis using why True by (simp add: signal_stop_def post_processing_of_def)
          qed (simp add: why signal_stop_def)
        next
          case signal: (Inr signal)
          have why: "backtest_signal frame signal st = Inl why"
            using steps c p Inr fr signal by (auto simp: bind_res_eq_Inl)
          have "wf_settings st" using make_settings_wf st(1) by blast
          then have "\<forall>e. why \<noteq> Uncaught e"
            using backtest_signal_returns[of frame signal st] al make_signal_length[OF signal] why slip by auto
          moreover have "\<forall>x. why \<noteq> Caught (SettingsRefused x)"
            using why by (auto simp: backtest_signal_def split: sum.splits run_error.splits)
          ultimately show ?thesis by (cases why) auto
        qed
      qed
    qed
  qed
qed

lemma write_files_all: "write_files d files = (written, None) \<Longrightarrow> written = files"
  by (auto simp: write_files_def takeWhile_eq_all_conv split: list.splits)

lemma write_files_some:
  assumes "write_files d files = (written, Some p)"
  shows "\<not> writable d p \<and> written \<noteq> files"
proof -
  obtain c rest where rest: "dropWhile (\<lambda>(p, _). writable d p) files = (p, c) # rest"
    and written: "written = takeWhile (\<lambda>(p, _). writable d p) files"
    using assms by (auto simp: write_files_def split: list.splits)
  have "files = written @ (p, c) # rest" unfolding written rest[symmetric] by simp
  then show ?thesis using rest by (auto simp: dropWhile_eq_Cons_conv)
qed

text \<open>C16: a \<open>run\<close> with parsed options of 64 bits never ends in refused settings when the slippage is below
  100\%, and in a traceback only by the \<open>OverflowError\<close> of the k-means rule, which \<open>run\<close> does not catch and
  which leaves no file; it exits with 0 exactly when it has written all four result files, of the
  backtest of the aligned predictions, and prints the summary of that backtest; and whatever refuses its
  options or its data leaves no file: only a path that cannot be written leaves the files before it.\<close>

theorem run_all_or_nothing:
  assumes "\<forall>bs f. parquet_of d bs = Some f \<longrightarrow> wf_frame f"
    and "typed_run_args args" "ra_slippage_bps args < Fin 10000" "int64_options args"
    and "run_command R d args = (res, files)"
  shows "(\<forall>e. res = Traceback e \<longrightarrow> e = OverflowError \<and> a_rule (ra_post args) = KmeansRule) \<and>
    (\<forall>e. res \<noteq> Refused (SettingsRefused e)) \<and>
    (run_exit res = 0 \<longleftrightarrow> (\<exists>r rec. run_steps R d args = Inr r \<and> run_record d args r = Inr rec \<and>
       files = result_files (ra_out args) r rec)) \<and>
    (\<forall>r. run_exit res = 0 \<longrightarrow> run_steps R d args = Inr r \<longrightarrow> res = Summary (summary_rows (ran_stats r))) \<and>
    (run_exit res \<noteq> 0 \<longrightarrow> files = [] \<or> (\<exists>p. res = Refused (CannotWrite p) \<and> \<not> writable d p))"
proof -
  have four: "[] \<noteq> result_files out r rec" for out r rec by (simp add: result_files_def)
  consider (usage) e where "res = Usage e" "files = []"
    | (steps) e where "run_steps R d args = Inl (Caught e)" "res = Refused e" "files = []"
    | (crash) e where "run_steps R d args = Inl (Uncaught e)" "res = Traceback e" "files = []"
    | (hash) r e where "run_record d args r = Inl e" "res = Refused e" "files = []"
    | (part) p r rec where "run_steps R d args = Inr r" "run_record d args r = Inr rec"
        "files \<noteq> result_files (ra_out args) r rec" "res = Refused (CannotWrite p)" "\<not> writable d p"
    | (all) r rec where "run_steps R d args = Inr r" "run_record d args r = Inr rec"
        "files = result_files (ra_out args) r rec" "res = Summary (summary_rows (ran_stats r))"
    using assms(5) unfolding run_command_def
    by (auto split: sum.splits run_stop.splits prod.splits option.splits dest: write_files_all write_files_some)
  then show ?thesis
  proof cases
    case hash
    then have "\<forall>x. e \<noteq> SettingsRefused x"
      by (auto simp: run_record_def input_record_def res_simps split: option.splits)
    then show ?thesis using hash four by (simp add: run_exit_def)
  next
    case steps
    then show ?thesis using run_steps_caught[OF assms(1-4) steps(1)] by (auto simp: run_exit_def)
  next
    case crash
    then show ?thesis using run_steps_caught[OF assms(1-4) crash(1)] by (auto simp: run_exit_def)
  next
    case usage
    then show ?thesis using four by (simp add: run_exit_def)
  next
    case part
    then show ?thesis by (auto simp: run_exit_def)
  next
    case all
    then show ?thesis by (auto simp: run_exit_def)
  qed
qed

section \<open>An example\<close>

text \<open>A folder with one candle and one prediction, and the options of a plain run on it.\<close>

definition example_candles :: frame where
  "example_candles = [(''ts'', int64_series [0]), (''open'', int64_series [1]), (''high'', int64_series [1]),
     (''low'', int64_series [1]), (''close'', int64_series [1])]"

definition example_predictions :: frame where
  "example_predictions = [(''ts'', int64_series [0]), (''prediction'', int64_series [1]),
     (''model'', \<lparr>s_dtype = DString, s_cells = [VStr ''m'']\<rparr>)]"

definition example_disk :: disk where
  "example_disk = \<lparr>bytes_at = (\<lambda>p. if p = ''d/s/candles.parquet'' then Some ''c''
       else if p = ''d/s/predictions.parquet'' then Some ''p'' else None),
     parquet_of = (\<lambda>b. if b = ''c'' then Some example_candles else Some example_predictions),
     sha256_of = id, writable = (\<lambda>_. True)\<rparr>"

definition example_rolling :: rolling where
  "example_rolling = \<lparr>rolling_mean = (\<lambda>_ _. []), rolling_std = (\<lambda>_ _. []), rolling_max = (\<lambda>_ _. [])\<rparr>"

definition example_pp_args :: pp_args where
  "example_pp_args = \<lparr>a_calibrate = None, a_calibration_window = None, a_ema = None, a_rule = ThresholdRule,
     a_threshold = None, a_thresholds = None, a_exit = None, a_k = None, a_kmeans_window = None,
     a_refit_every = None, a_long_only = False, a_confirm = None, a_min_hold = None\<rparr>"

definition example_run_args :: run_args where
  "example_run_args = \<lparr>ra_candles = ''d/s/candles.parquet'', ra_predictions = ''d/s/predictions.parquet'',
     ra_out = ''o'', ra_ts_column = ''ts'', ra_labels = OpenLabels, ra_timeframe = None, ra_model = Some ''m'',
     ra_allow_gaps = False, ra_post = example_pp_args, ra_fill = NextOpen, ra_stop_loss = None,
     ra_drawdown_stop = None, ra_fee_bps = Fin 0, ra_slippage_bps = Fin 0\<rparr>"

definition example_settings :: settings where
  "example_settings = \<lparr>st_fill = NextOpen, st_stop_loss = None, st_drawdown_stop = None, st_fee_bps = 0,
     st_slippage_bps = 0\<rparr>"

definition example_frame :: frame where
  "example_frame = example_candles @ [(''prediction'', int64_series [1])]"

definition example_report :: align_report where
  "example_report = \<lparr>predictions_without_candle = 0, candles_without_prediction = 0\<rparr>"

lemma example_aligned:
  "aligned example_candles example_predictions None (Some ''m'') False ''d/s/predictions.parquet'' =
     Inr (example_frame, example_report)"
  by code_simp

lemma example_run_signal:
  "decide_signal (int64_series [1]) (post_processing_of example_pp_args (Some (Fin 0))) = Inr (float_series [Fin 1])"
  by code_simp

lemma example_prepare:
  "prepare R (the_column example_frame ''prediction'') (post_processing_of example_pp_args limit) = Inr (int64_series [1])"
  by (simp add: prepare_def example_pp_args_def post_processing_of_def the_column_def column_def
      example_frame_def example_candles_def)

lemma example_backtest: "\<exists>r. backtest (with_column ''signal'' (float_series [Fin 1]) example_frame) example_settings = Inr r"
proof -
  have "case backtest (with_column ''signal'' (float_series [Fin 1]) example_frame) example_settings of
      Inr _ \<Rightarrow> True | Inl _ \<Rightarrow> False"
    by code_simp
  then show ?thesis by (auto split: sum.splits)
qed

lemma example_make_settings: "make_settings NextOpen None None (Fin 0) (Fin 0) = Inr example_settings"
  by (simp add: make_settings_def fraction_field_def bps_field_def example_settings_def)

lemma example_run_steps: "\<exists>r. run_steps example_rolling example_disk example_run_args = Inr r"
proof -
  obtain r where r: "backtest (with_column ''signal'' (float_series [Fin 1]) example_frame) example_settings = Inr r"
    using example_backtest by blast
  have read: "read_input example_disk ''d/s/candles.parquet'' ''candles'' ''ts'' PRICES = Inr example_candles"
      "read_input example_disk ''d/s/predictions.parquet'' ''predictions'' ''ts'' [''prediction'', ''model''] =
        Inr example_predictions"
    by code_simp+
  have limit: "rule_limit (a_rule example_pp_args) (a_threshold example_pp_args) = Some (Fin 0)" by code_simp
  have signal: "make_signal example_rolling (the_column example_frame ''prediction'')
      (post_processing_of example_pp_args (Some (Fin 0))) = Inr (float_series [Fin 1])"
    by (simp add: make_signal_def example_prepare example_run_signal)
  show ?thesis
    using r read limit signal example_aligned example_make_settings
    by (simp add: run_steps_def example_run_args_def backtest_signal_def Let_def)
qed

theorem run_all_or_nothing_witness:
  "\<exists>res files. run_command example_rolling example_disk example_run_args = (res, files) \<and>
     run_exit res = 0 \<and> length files = 4"
proof -
  obtain res files where run: "run_command example_rolling example_disk example_run_args = (res, files)"
    by (cases "run_command example_rolling example_disk example_run_args")
  obtain r where r: "run_steps example_rolling example_disk example_run_args = Inr r"
    using example_run_steps by blast
  have chk: "check_time_labels (ra_labels example_run_args) (ra_timeframe example_run_args) = Inr ()"
      "check_post_processing (ra_post example_run_args) False = Inr ()"
    by code_simp+
  obtain rec where rec: "run_record example_disk example_run_args r = Inr rec"
    by (simp add: run_record_def input_record_def example_disk_def example_run_args_def)
  have ok: "run_exit res = 0"
    using run r rec chk
    by (auto simp: run_command_def write_files_def result_files_def example_disk_def run_exit_def)
  have "\<forall>bs f. parquet_of example_disk bs = Some f \<longrightarrow> wf_frame f"
    by (simp add: example_disk_def wf_frame_def example_candles_def example_predictions_def columns_def
        height_def int64_series_def)
  moreover have "typed_run_args example_run_args" "ra_slippage_bps example_run_args < Fin 10000"
      "int64_options example_run_args"
    by (simp_all add: typed_run_args_def typed_args_def int64_options_def example_run_args_def example_pp_args_def)
  ultimately have "\<exists>r rec. files = result_files (ra_out example_run_args) r rec"
    using run_all_or_nothing[OF _ _ _ _ run] ok by blast
  then show ?thesis using run ok by (auto simp: result_files_def)
qed

end
