(* ===== verification/CliRunAll.thy ===== *)
theory CliRunAll
  imports CliRun "HOL-Library.AList"
begin

text \<open>
  \<open>cli/run_all.py\<close>: every stock, model, threshold and stop loss of a data folder. The theorem says
  that each row it reports is what \<open>run\<close> computes with the same options, although the stock is read
  and relabelled once, aligned once per model and the predictions prepared once per model. The order
  of the outcomes is the order of the folders with one process and with many
  (\<open>ProcessPoolExecutor.map\<close>), so \<open>--jobs\<close> and the threads of Polars do not appear.
\<close>

section \<open>Options and outcomes\<close>

record all_args =
  aa_data :: string
  aa_out :: string
  aa_ts_column :: string
  aa_labels :: labels
  aa_timeframe :: "int option"
  aa_allow_gaps :: bool
  aa_models :: "string list option"
  aa_post :: pp_args
  aa_fill :: fill
  aa_stop_losses :: "fl option list"
  aa_drawdown_stop :: "fl option"
  aa_fee_bps :: fl
  aa_slippage_bps :: fl

record all_options =
  ao_ts_column :: string
  ao_timeframe_seconds :: "int option"
  ao_allow_gaps :: bool
  ao_models :: "string list option"
  ao_post :: post_processing
  ao_thresholds :: "fl option list"
  ao_stop_losses :: "fl option list"
  ao_fill :: fill
  ao_drawdown_stop :: "fl option"
  ao_fee_bps :: fl
  ao_slippage_bps :: fl

record failed =
  f_stock :: string
  f_model :: "string option"
  f_error :: run_failure

text \<open>A row of \<open>stats.parquet\<close> (keys, settings, statistics) with its rows of \<open>trades.parquet\<close>.\<close>

record combination =
  co_stock :: string
  co_model :: string
  co_threshold :: "fl option"
  co_stop_loss :: "fl option"
  co_long_only :: bool
  co_fill :: fill
  co_fee_bps :: fl
  co_slippage_bps :: fl
  co_stats :: statistics
  co_trades :: "trade list"

record stock_record =
  sr_stock :: string
  sr_inputs :: "(string \<times> json) list"
  sr_align :: "(string \<times> align_report) list"

record stock_ran =
  so_stock :: string
  so_rows :: "combination list option"
  so_record :: stock_record
  so_failed :: "failed list"

datatype outcome = StockFailed failed | StockRan stock_ran

definition all_options_of :: "all_args \<Rightarrow> all_options" where
  "all_options_of args =
     (let thresholds = (case a_thresholds (aa_post args) of
          None \<Rightarrow> [rule_limit (a_rule (aa_post args)) None] | Some ts \<Rightarrow> map Some ts)
      in \<lparr>ao_ts_column = aa_ts_column args, ao_timeframe_seconds = aa_timeframe args,
          ao_allow_gaps = aa_allow_gaps args, ao_models = aa_models args,
          ao_post = post_processing_of (aa_post args) None, ao_thresholds = thresholds,
          ao_stop_losses = aa_stop_losses args, ao_fill = aa_fill args,
          ao_drawdown_stop = aa_drawdown_stop args, ao_fee_bps = aa_fee_bps args,
          ao_slippage_bps = aa_slippage_bps args\<rparr>)"

section \<open>The runs of one stock\<close>

type_synonym runs = "(fl option \<times> fl option \<times> statistics \<times> trade list) list"

text \<open>The bodies of the two loops of \<open>_model_runs\<close>: one stop loss, and one limit.\<close>

definition stop_loss_run :: "all_options \<Rightarrow> frame \<Rightarrow> series \<Rightarrow> fl option \<Rightarrow> fl option \<Rightarrow>
    run_stop + (fl option \<times> fl option \<times> statistics \<times> trade list)" where
  "stop_loss_run options frame signal limit stop_loss =
     bind_res (caught SettingsRefused (make_settings (ao_fill options) stop_loss (ao_drawdown_stop options)
         (ao_fee_bps options) (ao_slippage_bps options))) (\<lambda>settings.
     bind_res (backtest_signal frame signal settings) (\<lambda>(result, values).
     Inr (limit, stop_loss, values, res_trades result)))"

definition limit_runs :: "all_options \<Rightarrow> frame \<Rightarrow> series \<Rightarrow> fl option \<Rightarrow> run_stop + runs" where
  "limit_runs options frame prepared limit =
     bind_res (map_err signal_stop (decide_signal prepared ((ao_post options)\<lparr>pp_threshold := limit\<rparr>)))
       (\<lambda>signal. map_res (stop_loss_run options frame signal limit) (ao_stop_losses options))"

definition model_runs :: "rolling \<Rightarrow> all_options \<Rightarrow> frame \<Rightarrow> run_stop + runs" where
  "model_runs R options frame =
     bind_res (map_err signal_stop (prepare R (the_column frame ''prediction'') (ao_post options))) (\<lambda>prepared.
     bind_res (map_res (limit_runs options frame prepared) (ao_thresholds options)) (\<lambda>runs. Inr (concat runs)))"

text \<open>The settings every combination shares, as columns of its row.\<close>

definition combination_of :: "all_options \<Rightarrow> string \<Rightarrow> string \<Rightarrow> fl option \<times> fl option \<times> statistics \<times> trade list \<Rightarrow> combination" where
  "combination_of options stock model run = (case run of (limit, stop_loss, values, deals) \<Rightarrow>
     \<lparr>co_stock = stock, co_model = model, co_threshold = limit, co_stop_loss = stop_loss,
      co_long_only = pp_long_only (ao_post options), co_fill = ao_fill options,
      co_fee_bps = ao_fee_bps options, co_slippage_bps = ao_slippage_bps options,
      co_stats = values, co_trades = deals\<rparr>)"

definition found_models :: "frame \<Rightarrow> string \<Rightarrow> run_failure + string list" where
  "found_models predictions path =
     (let s = the_column predictions ''model'';
          found = sort (remdups (concat (map (\<lambda>c. case c of VStr m \<Rightarrow> [m] | _ \<Rightarrow> []) (s_cells s))))
      in bind_res (raise_if (s_dtype s \<noteq> DString) (NotText path)) (\<lambda>_.
         bind_res (raise_if (found = []) (NamesNoModel path)) (\<lambda>_. Inr found)))"

definition read_stock :: "disk \<Rightarrow> all_options \<Rightarrow> string \<Rightarrow> string \<Rightarrow> run_failure + (frame \<times> frame)" where
  "read_stock d options candles_path predictions_path =
     bind_res (read_input d candles_path ''candles'' (ao_ts_column options) PRICES) (\<lambda>candles.
     bind_res (read_input d predictions_path ''predictions'' (ao_ts_column options) [''prediction'', ''model'']) (\<lambda>predictions.
     bind_res (map_err AlignRefused (relabel_unless_open (ao_timeframe_seconds options) candles)) (\<lambda>candles.
     bind_res (map_err AlignRefused (relabel_unless_open (ao_timeframe_seconds options) predictions)) (\<lambda>predictions.
     Inr (candles, predictions)))))"

text \<open>The aligned report and the runs of one model, or why it is left out.\<close>

definition run_model :: "rolling \<Rightarrow> all_options \<Rightarrow> frame \<Rightarrow> frame \<Rightarrow> string \<Rightarrow> string list \<Rightarrow> string \<Rightarrow>
    run_stop + (align_report \<times> runs)" where
  "run_model R options candles predictions source found model =
     bind_res (raise_if (model \<notin> set found) (Caught (LacksModel source model))) (\<lambda>_.
     bind_res (caught id (aligned candles predictions None (Some model) (ao_allow_gaps options) source)) (\<lambda>(frame, report).
     bind_res (model_runs R options frame) (\<lambda>runs. Inr (report, runs))))"

record model_acc =
  ma_rows :: "combination list"
  ma_align :: "(string \<times> align_report) list"
  ma_failed :: "failed list"

text \<open>The loop over the models; an error the command does not catch ends it.\<close>

fun run_models :: "(string \<Rightarrow> run_stop + (align_report \<times> runs)) \<Rightarrow>
    all_options \<Rightarrow> string \<Rightarrow> string list \<Rightarrow> model_acc \<Rightarrow> py_error + model_acc" where
  "run_models step options stock [] acc = Inr acc"
| "run_models step options stock (model # models) acc = (case step model of
      Inl (Uncaught e) \<Rightarrow> Inl e
    | Inl (Caught e) \<Rightarrow> run_models step options stock models
        (acc\<lparr>ma_failed := ma_failed acc @ [\<lparr>f_stock = stock, f_model = Some model, f_error = e\<rparr>]\<rparr>)
    | Inr (report, runs) \<Rightarrow> run_models step options stock models
        (acc\<lparr>ma_rows := ma_rows acc @ map (combination_of options stock model) runs,
             ma_align := AList.update model report (ma_align acc)\<rparr>))"

definition stock_path :: "string \<Rightarrow> string \<Rightarrow> string \<Rightarrow> string" where
  "stock_path data stock name = data @ ''/'' @ stock @ ''/'' @ name @ ''.parquet''"

definition stock_runs :: "rolling \<Rightarrow> disk \<Rightarrow> all_options \<Rightarrow> string \<Rightarrow> string \<Rightarrow> run_stop + stock_ran" where
  "stock_runs R d options data stock =
     (let cp = stock_path data stock ''candles''; pp = stock_path data stock ''predictions''
      in bind_res (caught id (read_stock d options cp pp)) (\<lambda>(candles, predictions).
         bind_res (caught id (found_models predictions pp)) (\<lambda>found.
         bind_res (map_err Uncaught (run_models (run_model R options candles predictions pp found) options stock
             (case ao_models options of None \<Rightarrow> found | Some ms \<Rightarrow> ms)
             \<lparr>ma_rows = [], ma_align = [], ma_failed = []\<rparr>)) (\<lambda>acc.
         bind_res (caught id (input_record d cp)) (\<lambda>candles_record.
         bind_res (caught id (input_record d pp)) (\<lambda>predictions_record.
         Inr \<lparr>so_stock = stock, so_rows = (if ma_rows acc = [] then None else Some (ma_rows acc)),
              so_record = \<lparr>sr_stock = stock,
                sr_inputs = [(''candles'', candles_record), (''predictions'', predictions_record)],
                sr_align = ma_align acc\<rparr>,
              so_failed = ma_failed acc\<rparr>))))))"

definition stock_outcome :: "rolling \<Rightarrow> disk \<Rightarrow> all_options \<Rightarrow> string \<Rightarrow> string \<Rightarrow> py_error + outcome" where
  "stock_outcome R d options data stock = (case stock_runs R d options data stock of
      Inr r \<Rightarrow> Inr (StockRan r)
    | Inl (Caught e) \<Rightarrow> Inr (StockFailed \<lparr>f_stock = stock, f_model = None, f_error = e\<rparr>)
    | Inl (Uncaught e) \<Rightarrow> Inl e)"

definition outcomes :: "rolling \<Rightarrow> disk \<Rightarrow> all_options \<Rightarrow> string \<Rightarrow> string list \<Rightarrow> py_error + outcome list" where
  "outcomes R d options data stocks = map_res (stock_outcome R d options data) stocks"

section \<open>What the command writes\<close>

definition ran_of :: "outcome list \<Rightarrow> stock_ran list" where
  "ran_of os = concat (map (\<lambda>x. case x of StockRan r \<Rightarrow> [r] | StockFailed _ \<Rightarrow> []) os)"

definition failed_of :: "outcome list \<Rightarrow> failed list" where
  "failed_of os = concat (map (\<lambda>x. case x of StockRan r \<Rightarrow> so_failed r | StockFailed f \<Rightarrow> [f]) os)"

definition rows_of :: "stock_ran list \<Rightarrow> combination list" where
  "rows_of rs = concat (map (\<lambda>r. case so_rows r of None \<Rightarrow> [] | Some cs \<Rightarrow> cs) rs)"

definition models_found :: "stock_ran list \<Rightarrow> string list" where
  "models_found rs = sort (remdups (concat (map (\<lambda>r. map fst (sr_align (so_record r))) rs)))"

text \<open>\<open>run\<close>'s record of the steps, with the list of limits in place of the rule's limit.\<close>

definition set_key :: "string \<Rightarrow> json \<Rightarrow> (string \<times> json) list \<Rightarrow> (string \<times> json) list" where
  "set_key name v entries = AList.update name v entries"

definition all_post_processing :: "all_options \<Rightarrow> json" where
  "all_post_processing options = (case describe (ao_post options) of
      JObj entries \<Rightarrow>
        (if pp_rule (ao_post options) = KmeansRule then JObj entries
         else (case map_of entries ''rule'' of
             Some (JObj rule_entries) \<Rightarrow> JObj (set_key ''rule''
               (JObj (set_key (if pp_rule (ao_post options) = HysteresisRule then ''enter'' else ''limit'')
                  (JList (map (json_opt JNum) (ao_thresholds options))) rule_entries)) entries)
           | _ \<Rightarrow> JObj entries))
    | j \<Rightarrow> j)"

definition stock_json :: "stock_record \<Rightarrow> json" where
  "stock_json r = JObj [(''stock'', JStr (sr_stock r)), (''inputs'', JObj (sr_inputs r)),
     (''align'', JObj (map (\<lambda>(m, a). (m, report_dump a)) (sr_align r)))]"

definition all_record :: "(run_failure \<Rightarrow> string) \<Rightarrow> all_args \<Rightarrow> all_options \<Rightarrow> stock_ran list \<Rightarrow> failed list \<Rightarrow> json" where
  "all_record message args options rs fs = JObj [
     (''engine_version'', JStr ENGINE_VERSION), (''data'', JStr (aa_data args)),
     (''settings'', JObj [
        (''ts_column'', JStr (aa_ts_column args)), (''labels'', JStr (labels_name (aa_labels args))),
        (''timeframe_seconds'', json_opt JInt (aa_timeframe args)),
        (''allow_gaps'', JBool (ao_allow_gaps options)),
        (''models'', json_opt (\<lambda>ms. JList (map JStr ms)) (ao_models options)),
        (''thresholds'', JList (map (json_opt JNum) (ao_thresholds options))),
        (''long_only'', JBool (pp_long_only (ao_post options))),
        (''fill'', JStr (fill_name (ao_fill options))),
        (''stop_losses'', JList (map (json_opt JNum) (ao_stop_losses options))),
        (''drawdown_stop'', json_opt JNum (ao_drawdown_stop options)),
        (''fee_bps'', JNum (ao_fee_bps options)), (''slippage_bps'', JNum (ao_slippage_bps options))]),
     (''post_processing'', all_post_processing options),
     (''models'', JList (map JStr (models_found rs))),
     (''stocks'', JList (map (\<lambda>r. stock_json (so_record r)) rs)),
     (''failed'', JList (map (\<lambda>f. JObj [(''stock'', JStr (f_stock f)),
        (''model'', json_opt JStr (f_model f)), (''error'', JStr (message (f_error f)))]) fs))]"

datatype all_content = StatsTable "combination list" | TradesTable "combination list" | AllJson json

definition all_files :: "(run_failure \<Rightarrow> string) \<Rightarrow> all_args \<Rightarrow> all_options \<Rightarrow> stock_ran list \<Rightarrow> failed list \<Rightarrow>
    (string \<times> all_content) list" where
  "all_files message args options rs fs = [
     (aa_out args @ ''/stats.parquet'', StatsTable (rows_of rs)),
     (aa_out args @ ''/trades.parquet'', TradesTable (rows_of rs)),
     (aa_out args @ ''/run.json'', AllJson (all_record message args options rs fs))]"

record all_summary =
  as_stocks_ran :: nat
  as_stocks_failed :: nat
  as_models_ran :: nat
  as_models_failed :: nat
  as_runs :: nat
  as_trades :: nat

definition all_summary_of :: "stock_ran list \<Rightarrow> failed list \<Rightarrow> all_summary" where
  "all_summary_of rs fs =
     (let stocks = length (filter (\<lambda>f. f_model f = None) fs)
      in \<lparr>as_stocks_ran = length rs, as_stocks_failed = stocks, as_models_ran = length (models_found rs),
          as_models_failed = length fs - stocks, as_runs = length (rows_of rs),
          as_trades = sum_list (map (\<lambda>c. length (co_trades c)) (rows_of rs))\<rparr>)"

datatype all_usage = AllUsage usage_error | NoDataFolder string | NoStockFolder string

datatype all_outcome =
    UsageAll all_usage
  | TracebackAll py_error
  | NotWritten "failed list" string
  | SummaryAll "failed list" all_summary

definition all_exit :: "all_outcome \<Rightarrow> nat" where
  "all_exit res = (case res of UsageAll _ \<Rightarrow> 2 | TracebackAll _ \<Rightarrow> 1 | NotWritten _ _ \<Rightarrow> 2
     | SummaryAll fs _ \<Rightarrow> if fs \<noteq> [] then 1 else 0)"

text \<open>\<open>subfolders\<close> lists the folders in a folder, in any order; \<open>None\<close>: it is no folder.\<close>

definition stock_folders :: "(string \<Rightarrow> string list option) \<Rightarrow> string \<Rightarrow> all_usage + string list" where
  "stock_folders subfolders data = (case subfolders data of
      None \<Rightarrow> Inl (NoDataFolder data)
    | Some names \<Rightarrow>
        (let stocks = sort (filter (\<lambda>n. \<not> (n \<noteq> [] \<and> hd n \<in> {CHR ''_'', CHR ''.''})) names)
         in bind_res (raise_if (stocks = []) (NoStockFolder data)) (\<lambda>_. Inr stocks)))"

definition run_all_command :: "rolling \<Rightarrow> disk \<Rightarrow> (string \<Rightarrow> string list option) \<Rightarrow> (run_failure \<Rightarrow> string) \<Rightarrow>
    all_args \<Rightarrow> all_outcome \<times> (string \<times> all_content) list" where
  "run_all_command R d subfolders message args =
     (case bind_res (map_err AllUsage (check_time_labels (aa_labels args) (aa_timeframe args))) (\<lambda>_.
           bind_res (map_err (AllUsage \<circ> WrongOption) (check_post_processing (aa_post args) True)) (\<lambda>_.
           stock_folders subfolders (aa_data args))) of
        Inl e \<Rightarrow> (UsageAll e, [])
      | Inr stocks \<Rightarrow>
          (let options = all_options_of args
           in case outcomes R d options (aa_data args) stocks of
                Inl e \<Rightarrow> (TracebackAll e, [])
              | Inr os \<Rightarrow>
                  (let files = all_files message args options (ran_of os) (failed_of os);
                       written = takeWhile (\<lambda>(p, _). writable d p) files
                   in case dropWhile (\<lambda>(p, _). writable d p) files of
                        (p, _) # _ \<Rightarrow> (NotWritten (failed_of os) p, written)
                      | [] \<Rightarrow> (SummaryAll (failed_of os) (all_summary_of (ran_of os) (failed_of os)), written))))"

section \<open>A row of \<open>run-all\<close> is a run\<close>

text \<open>The options of \<open>run\<close> for one combination.\<close>

definition run_args_of :: "all_args \<Rightarrow> string \<Rightarrow> string \<Rightarrow> fl option \<Rightarrow> fl option \<Rightarrow> run_args" where
  "run_args_of args stock model limit stop_loss = \<lparr>
     ra_candles = stock_path (aa_data args) stock ''candles'',
     ra_predictions = stock_path (aa_data args) stock ''predictions'',
     ra_out = aa_out args, ra_ts_column = aa_ts_column args, ra_labels = aa_labels args,
     ra_timeframe = aa_timeframe args, ra_model = Some model, ra_allow_gaps = aa_allow_gaps args,
     ra_post = (aa_post args)\<lparr>a_threshold := limit, a_thresholds := None\<rparr>, ra_fill = aa_fill args,
     ra_stop_loss = stop_loss, ra_drawdown_stop = aa_drawdown_stop args,
     ra_fee_bps = aa_fee_bps args, ra_slippage_bps = aa_slippage_bps args\<rparr>"

text \<open>The limits of \<open>run-all\<close> are limits \<open>run\<close> takes as they are.\<close>

lemma limit_is_rule_limit:
  assumes "check_post_processing (aa_post args) True = Inr u" "limit \<in> set (ao_thresholds (all_options_of args))"
  shows "rule_limit (a_rule (aa_post args)) limit = limit"
proof (cases "a_thresholds (aa_post args)")
  case None
  then show ?thesis using assms(2) by (auto simp: all_options_of_def rule_limit_def)
next
  case (Some ts)
  then obtain t where t: "limit = Some t" using assms(2) by (auto simp: all_options_of_def)
  have "given (aa_post args) True OThreshold" using Some by (simp add: given_def)
  moreover have "check_rule_options (aa_post args) True = Inr ()"
    using assms(1) by (auto simp: check_post_processing_def res_simps)
  ultimately have "OThreshold \<in> set (options_of (a_rule (aa_post args)))"
    by (auto simp: check_rule_options_def Let_def filter_empty_conv RULE_OPTIONS_def split: if_splits)
  then have "a_rule (aa_post args) \<noteq> KmeansRule" by (auto simp: options_of_def RULE_OPTIONS_def)
  then show ?thesis using t by (simp add: rule_limit_def)
qed

lemma prepare_ignores_limit: "prepare R p (post\<lparr>pp_threshold := limit\<rparr>) = prepare R p post"
  by (simp add: prepare_def cong: option.case_cong)

lemma post_with_limit:
  "(post_processing_of (aa_post args) None)\<lparr>pp_threshold := limit\<rparr> =
   post_processing_of ((aa_post args)\<lparr>a_threshold := x, a_thresholds := y\<rparr>) limit"
  by (simp add: post_processing_of_def)

lemma map_res_keys:
  assumes "map_res f xs = Inr ys" "\<And>x y. f x = Inr y \<Longrightarrow> g y = h x"
  shows "map g ys = map h xs"
  using assms unfolding map_res_eq_Inr by (auto simp: list_all2_conv_all_nth intro!: nth_equalityI)

lemma map_res_member:
  assumes "map_res f xs = Inr ys" "y \<in> set ys"
  obtains x where "x \<in> set xs" "f x = Inr y"
proof -
  obtain i where "i < length ys" "ys ! i = y" using assms(2) by (auto simp: in_set_conv_nth)
  then show ?thesis
    using assms(1) that[of "xs ! i"] unfolding map_res_eq_Inr by (simp add: list_all2_conv_all_nth)
qed

text \<open>After the alignment: a combination of \<open>model_runs\<close> took the last steps of \<open>run_steps\<close>, and the
  combinations are all pairs of a limit and a stop loss, in order.\<close>

lemma model_runs_member:
  assumes "model_runs R options frame = Inr runs" "(limit, stop_loss, values, deals) \<in> set runs"
  shows "limit \<in> set (ao_thresholds options) \<and> (\<exists>signal settings r.
      make_signal R (the_column frame ''prediction'') ((ao_post options)\<lparr>pp_threshold := limit\<rparr>) = Inr signal \<and>
      make_settings (ao_fill options) stop_loss (ao_drawdown_stop options) (ao_fee_bps options) (ao_slippage_bps options)
        = Inr settings \<and>
      backtest_signal frame signal settings = Inr (r, values) \<and> res_trades r = deals)"
proof -
  obtain prepared grid where prepared: "prepare R (the_column frame ''prediction'') (ao_post options) = Inr prepared"
    and grid: "map_res (limit_runs options frame prepared) (ao_thresholds options) = Inr grid" "runs = concat grid"
    using assms(1) unfolding model_runs_def by (auto simp: bind_res_eq_Inr)
  obtain g where g: "g \<in> set grid" "(limit, stop_loss, values, deals) \<in> set g" using assms(2) grid(2) by auto
  obtain l where l: "l \<in> set (ao_thresholds options)" "limit_runs options frame prepared l = Inr g"
    using map_res_member[OF grid(1) g(1)] .
  obtain signal where signal: "decide_signal prepared ((ao_post options)\<lparr>pp_threshold := l\<rparr>) = Inr signal"
    and row: "map_res (stop_loss_run options frame signal l) (ao_stop_losses options) = Inr g"
    using l(2) unfolding limit_runs_def by (auto simp: bind_res_eq_Inr)
  obtain sl where "stop_loss_run options frame signal l sl = Inr (limit, stop_loss, values, deals)"
    using map_res_member[OF row g(2)] by blast
  then have "limit = l" and run: "\<exists>settings r. make_settings (ao_fill options) stop_loss (ao_drawdown_stop options)
        (ao_fee_bps options) (ao_slippage_bps options) = Inr settings \<and>
      backtest_signal frame signal settings = Inr (r, values) \<and> res_trades r = deals"
    unfolding stop_loss_run_def by (auto simp: bind_res_eq_Inr)
  moreover have "make_signal R (the_column frame ''prediction'') ((ao_post options)\<lparr>pp_threshold := l\<rparr>) = Inr signal"
    using prepared signal by (simp add: make_signal_def prepare_ignores_limit)
  ultimately show ?thesis using l(1) by blast
qed

lemma model_runs_all:
  assumes "model_runs R options frame = Inr runs"
  shows "map (\<lambda>(limit, stop_loss, _, _). (limit, stop_loss)) runs =
    List.product (ao_thresholds options) (ao_stop_losses options)"
proof -
  let ?key = "\<lambda>(limit, stop_loss, _, _). (limit, stop_loss)"
  obtain prepared grid where grid: "map_res (limit_runs options frame prepared) (ao_thresholds options) = Inr grid"
      "runs = concat grid"
    using assms(1) unfolding model_runs_def by (auto simp: bind_res_eq_Inr)
  have "map ?key g = map (Pair l) (ao_stop_losses options)" if g: "limit_runs options frame prepared l = Inr g" for l g
  proof -
    obtain signal where "map_res (stop_loss_run options frame signal l) (ao_stop_losses options) = Inr g"
      using g unfolding limit_runs_def by (auto simp: bind_res_eq_Inr)
    then show ?thesis
      by (rule map_res_keys) (auto simp: stop_loss_run_def bind_res_eq_Inr)
  qed
  from map_res_keys[OF grid(1) this]
  have "map (map ?key) grid = map (\<lambda>l. map (Pair l) (ao_stop_losses options)) (ao_thresholds options)" .
  then have "concat (map (map ?key) grid) = List.product (ao_thresholds options) (ao_stop_losses options)"
    by (simp add: product_concat_map)
  then show ?thesis by (simp add: grid(2) map_concat)
qed

text \<open>Which rows and failures the loop over the models leaves.\<close>

lemma run_models_out:
  assumes "run_models step options stock models acc = Inr out"
  shows "ma_rows out = ma_rows acc @ concat (map (\<lambda>m. case step m of
           Inr (_, runs) \<Rightarrow> map (combination_of options stock m) runs | Inl _ \<Rightarrow> []) models) \<and>
    ma_failed out = ma_failed acc @ concat (map (\<lambda>m. case step m of
           Inl (Caught e) \<Rightarrow> [\<lparr>f_stock = stock, f_model = Some m, f_error = e\<rparr>] | _ \<Rightarrow> []) models) \<and>
    (\<forall>m \<in> set models. \<forall>e. step m \<noteq> Inl (Uncaught e))"
  using assms
proof (induction models arbitrary: acc)
  case (Cons m ms)
  show ?case
  proof (cases "step m")
    case (Inl stop)
    show ?thesis
    proof (cases stop)
      case (Caught e)
      then have "run_models step options stock ms
          (acc\<lparr>ma_failed := ma_failed acc @ [\<lparr>f_stock = stock, f_model = Some m, f_error = e\<rparr>]\<rparr>) = Inr out"
        using Cons.prems Inl by simp
      from Cons.IH[OF this] show ?thesis using Inl Caught by simp
    qed (use Cons.prems Inl in simp)
  next
    case (Inr run)
    obtain report runs where r: "run = (report, runs)" by (cases run)
    then have "run_models step options stock ms
        (acc\<lparr>ma_rows := ma_rows acc @ map (combination_of options stock m) runs,
             ma_align := AList.update m report (ma_align acc)\<rparr>) = Inr out"
      using Cons.prems Inr by simp
    from Cons.IH[OF this] show ?thesis using Inr r by simp
  qed
qed simp

text \<open>The rows of a stock: each comes from the runs of its model, aligned once.\<close>

lemma stock_runs_rows:
  assumes "stock_runs R d options data stock = Inr out" "models = (case ao_models options of None \<Rightarrow> found | Some ms \<Rightarrow> ms)"
    "read_stock d options (stock_path data stock ''candles'') (stock_path data stock ''predictions'') = Inr (candles, predictions)"
    "found_models predictions (stock_path data stock ''predictions'') = Inr found"
  defines "step \<equiv> run_model R options candles predictions (stock_path data stock ''predictions'') found"
  shows "(case so_rows out of None \<Rightarrow> [] | Some cs \<Rightarrow> cs) =
      concat (map (\<lambda>m. case step m of Inr (_, runs) \<Rightarrow> map (combination_of options stock m) runs | Inl _ \<Rightarrow> []) models)"
    "so_failed out = concat (map (\<lambda>m. case step m of
        Inl (Caught e) \<Rightarrow> [\<lparr>f_stock = stock, f_model = Some m, f_error = e\<rparr>] | _ \<Rightarrow> []) models)"
    "m \<in> set models \<Longrightarrow> step m \<noteq> Inl (Uncaught e)"
proof -
  let ?init = "\<lparr>ma_rows = [], ma_align = [], ma_failed = []\<rparr>"
  obtain acc where acc: "run_models step options stock models ?init = Inr acc"
    and out: "so_rows out = (if ma_rows acc = [] then None else Some (ma_rows acc))" "so_failed out = ma_failed acc"
    using assms(1,3,4) unfolding stock_runs_def assms(2) step_def by (auto simp: bind_res_eq_Inr Let_def)
  note run_models_out[OF acc]
  then show "(case so_rows out of None \<Rightarrow> [] | Some cs \<Rightarrow> cs) =
      concat (map (\<lambda>m. case step m of Inr (_, runs) \<Rightarrow> map (combination_of options stock m) runs | Inl _ \<Rightarrow> []) models)"
    "so_failed out = concat (map (\<lambda>m. case step m of
        Inl (Caught e) \<Rightarrow> [\<lparr>f_stock = stock, f_model = Some m, f_error = e\<rparr>] | _ \<Rightarrow> []) models)"
    "m \<in> set models \<Longrightarrow> step m \<noteq> Inl (Uncaught e)"
    using out by auto
qed

lemma aligned_relabelled:
  assumes "relabel_unless_open timeframe c0 = Inr c" "relabel_unless_open timeframe p0 = Inr p"
  shows "aligned c0 p0 timeframe (Some m) gaps source = aligned c p None (Some m) gaps source"
  using assms by (simp add: aligned_def Let_def relabel_unless_open_def raise_if_def)

lemma row_is_run:
  assumes checked: "check_post_processing (aa_post args) True = Inr u"
    and stock: "read_stock d (all_options_of args) (stock_path (aa_data args) stock ''candles'')
        (stock_path (aa_data args) stock ''predictions'') = Inr (candles, predictions)"
    and step: "run_model R (all_options_of args) candles predictions (stock_path (aa_data args) stock ''predictions'')
        found m = Inr (report, runs)"
    and run: "(limit, stop_loss, values, deals) \<in> set runs"
  shows "\<exists>r. run_steps R d (run_args_of args stock m limit stop_loss) = Inr r \<and>
    ran_stats r = values \<and> res_trades (ran_result r) = deals \<and> ran_report r = report"
proof -
  let ?o = "all_options_of args" and ?cp = "stock_path (aa_data args) stock ''candles''"
    and ?pp = "stock_path (aa_data args) stock ''predictions''" and ?a = "run_args_of args stock m limit stop_loss"
  obtain c0 p0 where read: "read_input d ?cp ''candles'' (aa_ts_column args) PRICES = Inr c0"
      "read_input d ?pp ''predictions'' (aa_ts_column args) [''prediction'', ''model''] = Inr p0"
    and relabelled: "relabel_unless_open (aa_timeframe args) c0 = Inr candles"
      "relabel_unless_open (aa_timeframe args) p0 = Inr predictions"
    using stock unfolding read_stock_def by (auto simp: bind_res_eq_Inr all_options_of_def Let_def)
  obtain frame where frame: "aligned candles predictions None (Some m) (aa_allow_gaps args) ?pp = Inr (frame, report)"
    and runs: "model_runs R ?o frame = Inr runs"
    using step unfolding run_model_def by (auto simp: bind_res_eq_Inr all_options_of_def Let_def)
  note member = model_runs_member[OF runs run]
  then obtain signal settings r where signal:
      "make_signal R (the_column frame ''prediction'') ((ao_post ?o)\<lparr>pp_threshold := limit\<rparr>) = Inr signal"
    and settings: "make_settings (aa_fill args) stop_loss (aa_drawdown_stop args) (aa_fee_bps args) (aa_slippage_bps args) = Inr settings"
    and r: "backtest_signal frame signal settings = Inr (r, values)" "res_trades r = deals"
    by (auto simp: all_options_of_def Let_def)
  have limit: "rule_limit (a_rule (aa_post args)) limit = limit"
    using limit_is_rule_limit[OF checked] member by blast
  define post where "post = post_processing_of (ra_post ?a) (rule_limit (a_rule (ra_post ?a)) (a_threshold (ra_post ?a)))"
  have post: "post = (ao_post ?o)\<lparr>pp_threshold := limit\<rparr>"
    unfolding post_def by (simp add: run_args_of_def all_options_of_def Let_def limit post_with_limit[where x = limit and y = None])
  have "run_steps R d ?a = Inr \<lparr>ran_settings = settings, ran_post = post, ran_report = report, ran_result = r,
      ran_stats = values\<rparr>"
    unfolding run_steps_def Let_def post_def[symmetric]
    using settings read frame aligned_relabelled[OF relabelled, of m] signal[folded post] r(1)
    by (simp add: run_args_of_def)
  then show ?thesis using r(2) by simp
qed

text \<open>C39: every row \<open>run-all\<close> reports for a stock has the statistics and the trades \<open>run\<close> computes
  with the same options; the rows of a model are all pairs of a limit and a stop loss; and a model
  that was asked for has rows or is listed as failed.\<close>

theorem run_all_rows_are_runs:
  assumes "check_post_processing (aa_post args) True = Inr u"
    and "stock_runs R d (all_options_of args) (aa_data args) stock = Inr out"
    and "aa_stop_losses args \<noteq> []" "a_thresholds (aa_post args) \<noteq> Some []"
  shows "(\<forall>row \<in> set (rows_of [out]). \<exists>r.
       run_steps R d (run_args_of args stock (co_model row) (co_threshold row) (co_stop_loss row)) = Inr r \<and>
       co_stock row = stock \<and> co_stats row = ran_stats r \<and> co_trades row = res_trades (ran_result r)) \<and>
    (\<forall>row \<in> set (rows_of [out]). (\<lambda>c. (co_threshold c, co_stop_loss c)) ` {c \<in> set (rows_of [out]). co_model c = co_model row} =
       set (ao_thresholds (all_options_of args)) \<times> set (aa_stop_losses args)) \<and>
    (\<forall>ms. aa_models args = Some ms \<longrightarrow> (\<forall>m \<in> set ms.
       (\<exists>row \<in> set (rows_of [out]). co_model row = m) \<or> (\<exists>f \<in> set (so_failed out). f_model f = Some m)))"
proof -
  let ?o = "all_options_of args" and ?cp = "stock_path (aa_data args) stock ''candles''"
    and ?pp = "stock_path (aa_data args) stock ''predictions''"
  obtain candles predictions found where stock: "read_stock d ?o ?cp ?pp = Inr (candles, predictions)"
    and found: "found_models predictions ?pp = Inr found"
    using assms(2) unfolding stock_runs_def Let_def by (auto simp: bind_res_eq_Inr)
  define models where "models = (case ao_models ?o of None \<Rightarrow> found | Some ms \<Rightarrow> ms)"
  define step where "step = run_model R ?o candles predictions ?pp found"
  note out = stock_runs_rows[OF assms(2) models_def stock found, folded step_def]
  have rows: "row \<in> set (rows_of [out]) \<longleftrightarrow> (\<exists>m \<in> set models. \<exists>report runs run. step m = Inr (report, runs) \<and>
      run \<in> set runs \<and> row = combination_of ?o stock m run)" for row
  proof -
    have "rows_of [out] = concat (map (\<lambda>m. case step m of
        Inr (_, runs) \<Rightarrow> map (combination_of ?o stock m) runs | Inl _ \<Rightarrow> []) models)"
      using out(1) by (simp add: rows_of_def)
    moreover have "row \<in> set (case step m of Inr (_, runs) \<Rightarrow> map (combination_of ?o stock m) runs | Inl _ \<Rightarrow> []) \<longleftrightarrow>
        (\<exists>report runs run. step m = Inr (report, runs) \<and> run \<in> set runs \<and> row = combination_of ?o stock m run)" for m
      by (cases "step m") (auto simp del: split_paired_Ex)
    ultimately show ?thesis by simp
  qed
  have "\<exists>r. run_steps R d (run_args_of args stock (co_model row) (co_threshold row) (co_stop_loss row)) = Inr r \<and>
       co_stock row = stock \<and> co_stats row = ran_stats r \<and> co_trades row = res_trades (ran_result r)"
    if row: "row \<in> set (rows_of [out])" for row
  proof -
    obtain m runs report limit sl vs ds where "step m = Inr (report, runs)" "(limit, sl, vs, ds) \<in> set runs"
        "row = combination_of ?o stock m (limit, sl, vs, ds)"
      using row unfolding rows by auto
    with row_is_run[OF assms(1) stock this(1)[unfolded step_def] this(2)] show ?thesis
      by (auto simp: combination_of_def)
  qed
  moreover have keys: "set (map (\<lambda>(limit, stop_loss, _, _). (limit, stop_loss)) runs) =
      set (ao_thresholds ?o) \<times> set (aa_stop_losses args)" if r: "step m = Inr (report, runs)" for m report runs
  proof -
    obtain frame where "model_runs R ?o frame = Inr runs"
      using r unfolding step_def run_model_def by (auto simp: bind_res_eq_Inr)
    moreover have "ao_stop_losses ?o = aa_stop_losses args" by (simp add: all_options_of_def Let_def)
    ultimately show ?thesis using model_runs_all[of R ?o frame runs] by (simp del: set_map)
  qed
  moreover have "(\<lambda>c. (co_threshold c, co_stop_loss c)) ` {c \<in> set (rows_of [out]). co_model c = co_model row} =
       set (ao_thresholds ?o) \<times> set (aa_stop_losses args)" if row: "row \<in> set (rows_of [out])" for row
  proof -
    obtain m runs report run where m: "m \<in> set models" "step m = Inr (report, runs)" "row = combination_of ?o stock m run"
      using row unfolding rows by blast
    have "{c \<in> set (rows_of [out]). co_model c = co_model row} = combination_of ?o stock m ` set runs"
    proof (intro set_eqI iffI)
      fix c assume "c \<in> {c \<in> set (rows_of [out]). co_model c = co_model row}"
      then obtain m' report' runs' run' where c: "step m' = Inr (report', runs')" "run' \<in> set runs'"
          "c = combination_of ?o stock m' run'" "co_model c = co_model row"
        unfolding mem_Collect_eq rows by blast
      then have "m' = m" using m(3) by (simp add: combination_of_def split: prod.splits)
      then show "c \<in> combination_of ?o stock m ` set runs" using c m(2) by simp
    next
      fix c assume "c \<in> combination_of ?o stock m ` set runs"
      then obtain x where x: "x \<in> set runs" "c = combination_of ?o stock m x" by blast
      then have "co_model c = co_model row" using m(3) by (simp add: combination_of_def split: prod.splits)
      then show "c \<in> {c \<in> set (rows_of [out]). co_model c = co_model row}" using x m(1,2) unfolding mem_Collect_eq rows by blast
    qed
    moreover have "(\<lambda>c. (co_threshold c, co_stop_loss c)) ` combination_of ?o stock m ` set runs =
        set (map (\<lambda>(limit, stop_loss, _, _). (limit, stop_loss)) runs)"
      by (force simp: combination_of_def image_iff)
    ultimately show ?thesis using keys[OF m(2)] by simp
  qed
  moreover have "(\<exists>row \<in> set (rows_of [out]). co_model row = m) \<or> (\<exists>f \<in> set (so_failed out). f_model f = Some m)"
    if "aa_models args = Some ms" "m \<in> set ms" for ms m
  proof -
    have m: "m \<in> set models" using that by (simp add: models_def all_options_of_def Let_def)
    show ?thesis
    proof (cases "step m")
      case (Inl stop)
      then obtain e where "step m = Inl (Caught e)" using out(3)[OF m] by (cases stop) auto
      then show ?thesis using m unfolding out(2) by force
    next
      case (Inr run)
      then obtain report runs where r: "step m = Inr (report, runs)" by (cases run) auto
      have "set (map (\<lambda>(limit, stop_loss, _, _). (limit, stop_loss)) runs) \<noteq> {}"
        using keys[OF r] assms(3,4) by (auto simp: all_options_of_def Let_def split: option.splits)
      then obtain x where x: "x \<in> set runs" by (cases runs) auto
      have "combination_of ?o stock m x \<in> set (rows_of [out])" using m r x unfolding rows by blast
      then show ?thesis by (force simp: combination_of_def split: prod.splits)
    qed
  qed
  ultimately show ?thesis by blast
qed

text \<open>A data folder with the one stock of the example.\<close>

definition example_all_args :: all_args where
  "example_all_args = \<lparr>aa_data = ''d'', aa_out = ''o'', aa_ts_column = ''ts'', aa_labels = OpenLabels,
     aa_timeframe = None, aa_allow_gaps = False, aa_models = None, aa_post = example_pp_args,
     aa_fill = NextOpen, aa_stop_losses = [None], aa_drawdown_stop = None, aa_fee_bps = Fin 0,
     aa_slippage_bps = Fin 0\<rparr>"

lemma example_options:
  "ao_models (all_options_of example_all_args) = None" "ao_stop_losses (all_options_of example_all_args) = [None]"
  "ao_thresholds (all_options_of example_all_args) = [Some (Fin 0)]"
  "ao_allow_gaps (all_options_of example_all_args) = False" "ao_fill (all_options_of example_all_args) = NextOpen"
  "ao_drawdown_stop (all_options_of example_all_args) = None" "ao_fee_bps (all_options_of example_all_args) = Fin 0"
  "ao_slippage_bps (all_options_of example_all_args) = Fin 0"
  "ao_post (all_options_of example_all_args) = post_processing_of example_pp_args None"
  by (simp_all add: all_options_of_def Let_def example_all_args_def rule_limit_def example_pp_args_def)

lemma example_stock_read:
  "read_stock example_disk (all_options_of example_all_args) ''d/s/candles.parquet'' ''d/s/predictions.parquet'' =
     Inr (example_candles, example_predictions)"
  by code_simp

lemma example_found: "found_models example_predictions ''d/s/predictions.parquet'' = Inr [''m'']"
  by code_simp

lemma example_stock: "\<exists>out. stock_runs example_rolling example_disk (all_options_of example_all_args) ''d'' ''s'' = Inr out \<and>
    rows_of [out] \<noteq> []"
proof -
  let ?o = "all_options_of example_all_args"
  obtain r where r: "backtest (with_column ''signal'' (float_series [Fin 1]) example_frame) example_settings = Inr r"
    using example_backtest by blast
  have limit: "(post_processing_of example_pp_args None)\<lparr>pp_threshold := Some (Fin 0)\<rparr> =
      post_processing_of example_pp_args (Some (Fin 0))"
    by (simp add: post_processing_of_def)
  have runs: "model_runs example_rolling ?o example_frame =
      Inr [(Some (Fin 0), None, stats r (closes_of example_frame) PERIODS_PER_YEAR, res_trades r)]"
    using r by (simp add: model_runs_def example_options example_prepare limit_runs_def limit example_run_signal
        stop_loss_run_def example_make_settings backtest_signal_def)
  have step: "run_model example_rolling ?o example_candles example_predictions ''d/s/predictions.parquet'' [''m''] ''m'' =
      Inr (example_report, [(Some (Fin 0), None, stats r (closes_of example_frame) PERIODS_PER_YEAR, res_trades r)])"
    by (simp add: run_model_def raise_if_def example_options example_aligned runs)
  have paths: "stock_path ''d'' ''s'' ''candles'' = ''d/s/candles.parquet''"
      "stock_path ''d'' ''s'' ''predictions'' = ''d/s/predictions.parquet''"
    by (simp_all add: stock_path_def)
  have inputs: "\<exists>a b. input_record example_disk ''d/s/candles.parquet'' = Inr a \<and>
      input_record example_disk ''d/s/predictions.parquet'' = Inr b"
    by (simp add: input_record_def example_disk_def)
  then show ?thesis
    by (auto simp: stock_runs_def Let_def paths example_stock_read example_found example_options step rows_of_def)
qed

theorem run_all_rows_are_runs_witness:
  "\<exists>(row :: combination) r. run_steps example_rolling example_disk
      (run_args_of example_all_args ''s'' (co_model row) (co_threshold row) (co_stop_loss row)) = Inr r \<and>
     co_stats row = ran_stats r \<and> co_trades row = res_trades (ran_result r)"
proof -
  obtain out where out: "stock_runs example_rolling example_disk (all_options_of example_all_args) ''d'' ''s'' = Inr out"
      "rows_of [out] \<noteq> []"
    using example_stock by blast
  have "check_post_processing (aa_post example_all_args) True = Inr ()" by code_simp
  moreover have "aa_data example_all_args = ''d''" "aa_stop_losses example_all_args \<noteq> []"
      "a_thresholds (aa_post example_all_args) \<noteq> Some []"
    by (simp_all add: example_all_args_def example_pp_args_def)
  ultimately have "\<forall>row \<in> set (rows_of [out]). \<exists>r. run_steps example_rolling example_disk
      (run_args_of example_all_args ''s'' (co_model row) (co_threshold row) (co_stop_loss row)) = Inr r \<and>
      co_stock row = ''s'' \<and> co_stats row = ran_stats r \<and> co_trades row = res_trades (ran_result r)"
    using run_all_rows_are_runs[of example_all_args "()" example_rolling example_disk "''s''" out] out(1) by simp
  moreover have "hd (rows_of [out]) \<in> set (rows_of [out])" using out(2) by simp
  ultimately show ?thesis by blast
qed

section \<open>The entry point\<close>

text \<open>\<open>cli/commands.py\<close>: the exit code of a parsed command; no command prints the help.\<close>

datatype command = NoCommand | RunCommand run_args | RunAllCommand all_args

definition main_exit :: "rolling \<Rightarrow> disk \<Rightarrow> (string \<Rightarrow> string list option) \<Rightarrow> (run_failure \<Rightarrow> string) \<Rightarrow> command \<Rightarrow> nat" where
  "main_exit R d subfolders message cmd = (case cmd of
      NoCommand \<Rightarrow> 0
    | RunAllCommand args \<Rightarrow> all_exit (fst (run_all_command R d subfolders message args))
    | RunCommand args \<Rightarrow> run_exit (fst (run_command R d args)))"

end
