(* ===== verification/DataTime.thy ===== *)
theory DataTime
  imports Prelude
begin

text \<open>
  Timeframes (\<open>data/models.py\<close>), trading sessions and their bins (\<open>data/sessions.py\<close>), and the bins
  of a period with their counts (\<open>data/candles.py\<close>). Times are UTC epoch seconds. Fixed bins are
  aligned to multiples of the timeframe, session bins to the open of each session. The theorems say
  that the closed formulas (\<open>candle_count\<close>, \<open>first_of_last\<close>, \<open>latest_end\<close>) agree with the lists of
  bins they stand for.
\<close>

section \<open>Timeframes\<close>

datatype timeframe = M1 | M5 | M15 | M30 | H1 | H4 | D1

definition timeframes :: "timeframe list" where
  "timeframes = [M1, M5, M15, M30, H1, H4, D1]"

definition seconds :: "timeframe \<Rightarrow> int" where
  "seconds t = (case t of M1 \<Rightarrow> 60 | M5 \<Rightarrow> 300 | M15 \<Rightarrow> 900 | M30 \<Rightarrow> 1800 | H1 \<Rightarrow> 3600 | H4 \<Rightarrow> 14400
     | D1 \<Rightarrow> 86400)"

definition larger :: "timeframe \<Rightarrow> timeframe list" where
  "larger t = tl (dropWhile (\<lambda>x. x \<noteq> t) timeframes)"

lemma seconds_pos [simp]: "0 < seconds t"
  by (cases t) (simp_all add: seconds_def)

lemma seconds_nonzero [simp]: "seconds t \<noteq> 0"
  using seconds_pos[of t] by linarith

lemma larger_seconds: "t' \<in> set (larger t) \<longleftrightarrow> seconds t < seconds t'"
  by (cases t; cases t') (simp_all add: larger_def timeframes_def seconds_def)

lemma larger_sorted: "sorted_wrt (\<lambda>a b. seconds a < seconds b) (larger t)"
  by (cases t) (simp_all add: larger_def timeframes_def seconds_def)

section \<open>Sessions\<close>

record session =
  s_date :: int
  s_open :: int
  s_close :: int

datatype calendar_error = MalformedDay nat | ClosesBeforeOpens nat

text \<open>
  A calendar item has the texts of its date, open and close (\<open>None\<close>: the key is missing).
  \<open>day_of\<close> is \<open>date.fromisoformat\<close> (the ordinal of the day) and \<open>new_york\<close> the instant of a
  wall clock time of that day in New York, both partial; the time zone rules are \<open>zoneinfo\<close>'s.
\<close>

record calendar_item =
  ci_date :: "string option"
  ci_open :: "string option"
  ci_close :: "string option"

definition clock_time :: "(int \<Rightarrow> string \<Rightarrow> int option) \<Rightarrow> int \<Rightarrow> string \<Rightarrow> int option" where
  "clock_time new_york day clock = (if length clock \<noteq> 5 then None else new_york day clock)"

definition parse_day ::
    "(string \<Rightarrow> int option) \<Rightarrow> (int \<Rightarrow> string \<Rightarrow> int option) \<Rightarrow> calendar_item \<Rightarrow> session option" where
  "parse_day day_of new_york item =
     (case Option.bind (ci_date item) day_of of None \<Rightarrow> None | Some day \<Rightarrow>
     (case Option.bind (ci_open item) (clock_time new_york day) of None \<Rightarrow> None | Some opens \<Rightarrow>
     (case Option.bind (ci_close item) (clock_time new_york day) of None \<Rightarrow> None | Some closes \<Rightarrow>
        Some \<lparr>s_date = day, s_open = opens, s_close = closes\<rparr>)))"

definition parse_calendar ::
    "(string \<Rightarrow> int option) \<Rightarrow> (int \<Rightarrow> string \<Rightarrow> int option) \<Rightarrow> calendar_item list \<Rightarrow>
     calendar_error + session list" where
  "parse_calendar day_of new_york items =
     bind_res (map_res (\<lambda>(i, item). case parse_day day_of new_york item of
           None \<Rightarrow> Inl (MalformedDay i)
         | Some s \<Rightarrow> if s_open s \<ge> s_close s then Inl (ClosesBeforeOpens i) else Inr s)
         (zip [0..<length items] items))
       (\<lambda>sessions. Inr (sort_key s_date sessions))"

text \<open>The sessions from the first that closes after \<open>start\<close> up to the last that opens before \<open>end\<close>.\<close>

definition sessions_between :: "session list \<Rightarrow> int \<Rightarrow> int \<Rightarrow> session list" where
  "sessions_between sessions start finish =
     takeWhile (\<lambda>s. s_open s < finish)
       (drop (bisect (\<lambda>i. start < s_close (sessions ! i)) 0 (length sessions)) sessions)"

text \<open>\<open>range(start, stop, step)\<close> of a positive step.\<close>

definition int_range :: "int \<Rightarrow> int \<Rightarrow> int \<Rightarrow> int list" where
  "int_range start stop step = map (\<lambda>i. start + int i * step) [0..<nat (- ((start - stop) div step))]"

definition session_bins :: "session \<Rightarrow> timeframe \<Rightarrow> (int \<times> int) list" where
  "session_bins s tf = map (\<lambda>opens. (opens, min (opens + seconds tf) (s_close s)))
     (int_range (s_open s) (s_close s) (seconds tf))"

definition ceil_div :: "int \<Rightarrow> int \<Rightarrow> int" where
  "ceil_div a b = - ((- a) div b)"

section \<open>The bins of a period\<close>

definition expected_bins_fixed :: "int \<Rightarrow> int \<Rightarrow> timeframe \<Rightarrow> int option \<Rightarrow> int list" where
  "expected_bins_fixed start finish tf now =
     (let step = seconds tf;
          finish = (case now of None \<Rightarrow> finish | Some n \<Rightarrow> min finish (n - step + 1))
      in int_range (ceil_div start step * step) finish step)"

definition expected_bins_sessions ::
    "int \<Rightarrow> int \<Rightarrow> timeframe \<Rightarrow> session list \<Rightarrow> int option \<Rightarrow> int list" where
  "expected_bins_sessions start finish tf sessions now =
     concat (map (\<lambda>s. map fst (filter (\<lambda>(opens, closes). start \<le> opens \<and> opens < finish \<and>
         (case now of None \<Rightarrow> True | Some n \<Rightarrow> closes \<le> n)) (session_bins s tf)))
       (sessions_between sessions start finish))"

definition expected_bins ::
    "session list option \<Rightarrow> int \<Rightarrow> int \<Rightarrow> timeframe \<Rightarrow> int option \<Rightarrow> int list" where
  "expected_bins sessions start finish tf now = (case sessions of
      None \<Rightarrow> expected_bins_fixed start finish tf now
    | Some ss \<Rightarrow> expected_bins_sessions start finish tf ss now)"

definition session_count :: "session \<Rightarrow> int \<Rightarrow> int \<Rightarrow> int \<Rightarrow> int" where
  "session_count s step start finish =
     (let total = ceil_div (s_close s - s_open s) step;
          first = max 0 (ceil_div (start - s_open s) step);
          last_bin = min total (ceil_div (finish - s_open s) step)
      in max 0 (last_bin - first))"

definition candle_count :: "int \<Rightarrow> int \<Rightarrow> timeframe \<Rightarrow> session list option \<Rightarrow> int" where
  "candle_count start finish tf sessions =
     (let step = seconds tf
      in if finish \<le> start then 0
         else case sessions of
           None \<Rightarrow> ceil_div finish step - ceil_div start step
         | Some ss \<Rightarrow> sum_list (map (\<lambda>s. session_count s step start finish) (sessions_between ss start finish)))"

fun walk_back :: "(session \<Rightarrow> bool) \<Rightarrow> (session \<Rightarrow> int list) \<Rightarrow> int option \<Rightarrow> nat \<Rightarrow> session list \<Rightarrow> int option" where
  "walk_back stop opens_of earliest remaining [] = earliest"
| "walk_back stop opens_of earliest remaining (s # ss) =
     (if stop s then earliest
      else let opens = opens_of s
           in if length opens \<ge> remaining then Some (opens ! (length opens - remaining))
              else if opens \<noteq> [] then walk_back stop opens_of (Some (hd opens)) (remaining - length opens) ss
              else walk_back stop opens_of earliest remaining ss)"

definition first_of_last ::
    "int \<Rightarrow> int \<Rightarrow> timeframe \<Rightarrow> nat \<Rightarrow> session list option \<Rightarrow> int option \<Rightarrow> int option" where
  "first_of_last finish now tf count sessions lower =
     (let step = seconds tf
      in case sessions of
        None \<Rightarrow>
          (let newest = min (finish - 1) (now - step) div step * step;
               low = (case lower of None \<Rightarrow> 0 | Some l \<Rightarrow> l)
           in if newest < low then None else Some (max low (newest - (int count - 1) * step)))
      | Some ss \<Rightarrow>
          walk_back (\<lambda>s. case lower of None \<Rightarrow> False | Some l \<Rightarrow> s_close s \<le> l)
            (\<lambda>s. map fst (filter (\<lambda>(opened, closed). (case lower of None \<Rightarrow> True | Some l \<Rightarrow> l \<le> opened) \<and>
                opened < finish \<and> closed \<le> now) (session_bins s tf)))
            None count (rev (take (bisect (\<lambda>i. finish \<le> s_open (ss ! i)) 0 (length ss)) ss)))"

text \<open>The sum of the loop of \<open>_latest_end\<close>: the open of bin number \<open>remaining + 1\<close>, if there is one.\<close>

fun latest_in :: "int \<Rightarrow> int \<Rightarrow> int \<Rightarrow> int \<Rightarrow> session list \<Rightarrow> int" where
  "latest_in start finish step remaining [] = finish"
| "latest_in start finish step remaining (s # ss) =
     (let count = session_count s step start finish
      in if remaining < count
         then s_open s + (max 0 (ceil_div (start - s_open s) step) + remaining) * step
         else latest_in start finish step (remaining - count) ss)"

definition latest_end :: "int \<Rightarrow> int \<Rightarrow> timeframe \<Rightarrow> int \<Rightarrow> session list option \<Rightarrow> int" where
  "latest_end start finish tf maximum sessions =
     (let step = seconds tf
      in case sessions of
        None \<Rightarrow> min finish ((ceil_div start step + maximum) * step)
      | Some ss \<Rightarrow> latest_in start finish step maximum (sessions_between ss start finish))"

section \<open>Ranges\<close>

lemma ceil_div_le_iff:
  assumes "0 < b"
  shows "ceil_div a b \<le> k \<longleftrightarrow> a \<le> k * b"
proof -
  define q r where "q = (- a) div b" and "r = (- a) mod b"
  have a: "a = - (q * b) - r" unfolding q_def r_def using div_mult_mod_eq[of "- a" b] by linarith
  have r: "0 \<le> r" "r < b" using assms by (simp_all add: r_def)
  have "- q \<le> k \<longleftrightarrow> a \<le> k * b"
  proof
    assume "- q \<le> k"
    then have "- q * b \<le> k * b" using assms by (intro mult_right_mono) simp_all
    then show "a \<le> k * b" using a r by simp
  next
    assume "a \<le> k * b"
    then have "(- q - k) * b < 1 * b" using a r by (simp add: algebra_simps)
    then have "- q - k < 1" using assms by (rule mult_right_less_imp_less[OF _ less_imp_le])
    then show "- q \<le> k" by simp
  qed
  then show ?thesis by (simp add: ceil_div_def q_def)
qed

lemma less_ceil_div_iff: "0 < b \<Longrightarrow> k < ceil_div a b \<longleftrightarrow> k * b < a"
  using ceil_div_le_iff[of b a k] by linarith

lemma ceil_div_minus_mult: "0 < b \<Longrightarrow> ceil_div (a - k * b) b = ceil_div a b - k"
proof -
  assume "0 < b"
  then have "(- a + k * b) div b = k + (- a) div b" by (intro div_mult_self1) simp
  moreover have "- (a - k * b) = - a + k * b" by simp
  ultimately show ?thesis unfolding ceil_div_def by simp
qed

lemma int_range_count: "int_range start stop step = map (\<lambda>i. start + int i * step) [0..<nat (ceil_div (stop - start) step)]"
  by (simp add: int_range_def ceil_div_def)

lemma set_int_range:
  assumes "0 < step"
  shows "x \<in> set (int_range start stop step) \<longleftrightarrow> start \<le> x \<and> x < stop \<and> step dvd (x - start)"
proof
  assume "x \<in> set (int_range start stop step)"
  then obtain i where "i < nat (ceil_div (stop - start) step)" "x = start + int i * step"
    by (auto simp: int_range_count)
  then have "int i < ceil_div (stop - start) step" by linarith
  then have "int i * step < stop - start" by (simp add: less_ceil_div_iff[OF assms])
  then show "start \<le> x \<and> x < stop \<and> step dvd (x - start)"
    using assms \<open>x = _\<close> by simp
next
  assume a: "start \<le> x \<and> x < stop \<and> step dvd (x - start)"
  then obtain k where k: "x = start + k * step" by (metis dvd_def mult.commute add.commute diff_add_cancel)
  then have "0 \<le> k" "k * step < stop - start" using a assms by (auto simp: zero_le_mult_iff)
  then have "k < ceil_div (stop - start) step" by (simp add: less_ceil_div_iff[OF assms])
  then have "nat k < nat (ceil_div (stop - start) step)" using \<open>0 \<le> k\<close> by linarith
  then show "x \<in> set (int_range start stop step)"
    using k \<open>0 \<le> k\<close> unfolding int_range_count by (auto intro!: image_eqI[of _ _ "nat k"])
qed

lemma length_int_range: "length (int_range start stop step) = nat (ceil_div (stop - start) step)"
  by (simp add: int_range_count)

lemma sorted_int_range: "0 < step \<Longrightarrow> sorted_wrt (<) (int_range start stop step)"
  by (auto simp: int_range_count sorted_wrt_iff_nth_less)

section \<open>Counting bins\<close>

lemma filter_upt_between:
  "filter (\<lambda>i. a \<le> int i \<and> int i < b) [0..<nat t] = [nat (max 0 a)..<nat (min t b)]"
proof (rule strict_sorted_equal)
  show "sorted_wrt (<) (filter (\<lambda>i. a \<le> int i \<and> int i < b) [0..<nat t])"
    by (intro sorted_wrt_filter) simp
  show "set (filter (\<lambda>i. a \<le> int i \<and> int i < b) [0..<nat t]) = set [nat (max 0 a)..<nat (min t b)]"
    by auto
qed simp

text \<open>The bins of one session in a window, and their number.\<close>

lemma filter_session_bins:
  "filter (\<lambda>(opens, _). start \<le> opens \<and> opens < finish) (session_bins s tf) =
    map (\<lambda>i. (s_open s + int i * seconds tf, min (s_open s + int i * seconds tf + seconds tf) (s_close s)))
      [nat (max 0 (ceil_div (start - s_open s) (seconds tf)))..<
       nat (min (ceil_div (s_close s - s_open s) (seconds tf)) (ceil_div (finish - s_open s) (seconds tf)))]"
proof -
  let ?k = "seconds tf"
  have "filter (\<lambda>(opens, _). start \<le> opens \<and> opens < finish) (session_bins s tf) =
      map (\<lambda>i. (s_open s + int i * ?k, min (s_open s + int i * ?k + ?k) (s_close s)))
        (filter (\<lambda>i. start \<le> s_open s + int i * ?k \<and> s_open s + int i * ?k < finish)
          [0..<nat (ceil_div (s_close s - s_open s) ?k)])"
    by (simp add: session_bins_def int_range_count filter_map comp_def)
  moreover have "start \<le> s_open s + int i * ?k \<longleftrightarrow> ceil_div (start - s_open s) ?k \<le> int i" for i
    by (simp add: ceil_div_le_iff) linarith
  moreover have "s_open s + int i * ?k < finish \<longleftrightarrow> int i < ceil_div (finish - s_open s) ?k" for i
    by (simp add: less_ceil_div_iff) linarith
  ultimately show ?thesis by (simp only: filter_upt_between)
qed

lemma session_count_bins:
  assumes "s_open s \<le> s_close s"
  shows "session_count s (seconds tf) start finish =
    int (length (filter (\<lambda>(opens, _). start \<le> opens \<and> opens < finish) (session_bins s tf)))"
proof -
  have "0 \<le> ceil_div (s_close s - s_open s) (seconds tf)"
    using assms less_ceil_div_iff[of "seconds tf" "-1" "s_close s - s_open s"] seconds_pos[of tf] by linarith
  then show ?thesis by (simp add: filter_session_bins session_count_def Let_def)
qed

text \<open>Sessions in order: each is a non-empty interval and they do not overlap.\<close>

definition wf_sessions :: "session list \<Rightarrow> bool" where
  "wf_sessions ss = (sorted_wrt (\<lambda>a b. s_close a \<le> s_open b) ss \<and> (\<forall>s \<in> set ss. s_open s < s_close s))"

lemma wf_sessions_Cons:
  "wf_sessions (s # ss) \<longleftrightarrow> s_open s < s_close s \<and> (\<forall>t \<in> set ss. s_close s \<le> s_open t) \<and> wf_sessions ss"
  by (auto simp: wf_sessions_def)

lemma wf_sessions_drop: "wf_sessions ss \<Longrightarrow> wf_sessions (drop n ss)"
  by (auto simp: wf_sessions_def sorted_wrt_drop dest: in_set_dropD)

lemma wf_sessions_takeWhile: "wf_sessions ss \<Longrightarrow> wf_sessions (takeWhile P ss)"
  unfolding wf_sessions_def by (metis set_takeWhileD sorted_wrt_append takeWhile_dropWhile_id)

lemma wf_sessions_between: "wf_sessions ss \<Longrightarrow> wf_sessions (sessions_between ss start finish)"
  unfolding sessions_between_def by (intro wf_sessions_takeWhile wf_sessions_drop)

lemma wf_sessions_nth:
  assumes "wf_sessions ss" "i < j" "j < length ss"
  shows "s_close (ss ! i) \<le> s_open (ss ! j)" "s_open (ss ! i) < s_close (ss ! i)"
  using assms by (auto simp: wf_sessions_def sorted_wrt_iff_nth_less)

text \<open>\<open>sessions_between\<close>, a bisection and a walk, finds exactly the sessions that overlap the
  period.\<close>

lemma sessions_between_overlap:
  assumes "wf_sessions ss"
  shows "sessions_between ss start finish = filter (\<lambda>s. start < s_close s \<and> s_open s < finish) ss"
proof -
  define k where "k = bisect (\<lambda>i. start < s_close (ss ! i)) 0 (length ss)"
  have mono: "start < s_close (ss ! j)" if "i \<le> j" "j < length ss" "start < s_close (ss ! i)" for i j
  proof (cases "i = j")
    case False
    have "s_open (ss ! j) < s_close (ss ! j)" using assms that(2) by (simp add: wf_sessions_def)
    then show ?thesis using wf_sessions_nth(1)[OF assms, of i j] that False by simp
  qed (use that in simp)
  note k = bisect_from_0[of "length ss" "\<lambda>i. start < s_close (ss ! i)", OF mono, folded k_def]
  have before: "filter (\<lambda>s. start < s_close s \<and> s_open s < finish) (take k ss) = []"
    using k(2) by (auto simp: filter_empty_conv in_set_conv_nth)
  have after: "start < s_close s" if "s \<in> set (drop k ss)" for s
    using k(1,3) that by (auto simp: in_set_conv_nth)
  have walk: "takeWhile (\<lambda>s. s_open s < finish) xs = filter (\<lambda>s. start < s_close s \<and> s_open s < finish) xs"
    if "wf_sessions xs" "\<forall>s \<in> set xs. start < s_close s" for xs
    using that
  proof (induction xs)
    case (Cons x xs)
    have IH: "takeWhile (\<lambda>s. s_open s < finish) xs = filter (\<lambda>s. start < s_close s \<and> s_open s < finish) xs"
      using Cons.prems by (intro Cons.IH) (simp_all add: wf_sessions_Cons)
    show ?case
    proof (cases "s_open x < finish")
      case True
      then show ?thesis using IH Cons.prems(2) by simp
    next
      case False
      have "\<not> s_open t < finish" if "t \<in> set xs" for t
      proof -
        have "s_close x \<le> s_open t" "s_open x < s_close x"
          using Cons.prems(1) that by (simp_all add: wf_sessions_Cons)
        then show ?thesis using False by linarith
      qed
      then have "filter (\<lambda>s. start < s_close s \<and> s_open s < finish) xs = []"
        by (simp add: filter_empty_conv)
      then show ?thesis using False by simp
    qed
  qed simp
  have "sessions_between ss start finish = filter (\<lambda>s. start < s_close s \<and> s_open s < finish) (drop k ss)"
    unfolding sessions_between_def k_def[symmetric] using walk[OF wf_sessions_drop[OF assms]] after by blast
  also have "\<dots> = filter (\<lambda>s. start < s_close s \<and> s_open s < finish) (take k ss @ drop k ss)"
    using before by (simp only: filter_append append_Nil)
  finally show ?thesis by simp
qed

end
