(* ===== verification/DataBins.thy ===== *)
theory DataBins
  imports DataTime
begin

text \<open>
  What the bins of a period are, and that the closed formulas of \<open>data/candles.py\<close> count them:
  \<open>expected_bins\<close> lists exactly the bins of the market that open in the period (and have closed by
  \<open>now\<close>), in order; \<open>candle_count\<close> is their number, \<open>latest_end\<close> the open of the first bin that is
  too many, and \<open>first_of_last\<close> the first of the last bins.
\<close>

section \<open>The bins of a market\<close>

text \<open>A bin of the market: its open and its end.\<close>

definition is_bin :: "session list option \<Rightarrow> timeframe \<Rightarrow> int \<Rightarrow> int \<Rightarrow> bool" where
  "is_bin sessions tf opens closes = (case sessions of
      None \<Rightarrow> seconds tf dvd opens \<and> closes = opens + seconds tf
    | Some ss \<Rightarrow> \<exists>s \<in> set ss. s_open s \<le> opens \<and> opens < s_close s \<and> seconds tf dvd opens - s_open s \<and>
        closes = min (opens + seconds tf) (s_close s))"

definition sessions_ok :: "session list option \<Rightarrow> bool" where
  "sessions_ok sessions = (case sessions of None \<Rightarrow> True | Some ss \<Rightarrow> wf_sessions ss)"

lemma sessions_ok_simps [simp]: "sessions_ok None" "sessions_ok (Some ss) = wf_sessions ss"
  by (simp_all add: sessions_ok_def)

lemma set_session_bins:
  "(opens, closes) \<in> set (session_bins s tf) \<longleftrightarrow> s_open s \<le> opens \<and> opens < s_close s \<and>
     seconds tf dvd opens - s_open s \<and> closes = min (opens + seconds tf) (s_close s)"
  by (auto simp: session_bins_def set_int_range)

lemma opens_of_session_bins: "map fst (session_bins s tf) = int_range (s_open s) (s_close s) (seconds tf)"
  by (simp add: session_bins_def comp_def)

lemma bins_of_session:
  "opens \<in> set (map fst (filter (\<lambda>(opens, closes). P opens closes) (session_bins s tf))) \<longleftrightarrow>
     s_open s \<le> opens \<and> opens < s_close s \<and> seconds tf dvd opens - s_open s \<and>
     P opens (min (opens + seconds tf) (s_close s))"
  by (force simp: set_session_bins image_iff)

lemma sorted_bins_of_session: "sorted_wrt (<) (map fst (filter P (session_bins s tf)))"
proof -
  have "sorted_wrt (<) (map fst (session_bins s tf))"
    by (simp add: opens_of_session_bins sorted_int_range)
  then show ?thesis unfolding sorted_wrt_map by (rule sorted_wrt_filter)
qed

lemma sorted_bins_of_sessions:
  assumes "wf_sessions ss"
  shows "sorted_wrt (<) (concat (map (\<lambda>s. map fst (filter (\<lambda>(opens, closes). P opens closes) (session_bins s tf))) ss))"
  using assms
proof (induction ss)
  case (Cons s ss)
  have "a < b" if "a \<in> set (map fst (filter (\<lambda>(opens, closes). P opens closes) (session_bins s tf)))"
      "t \<in> set ss" "b \<in> set (map fst (filter (\<lambda>(opens, closes). P opens closes) (session_bins t tf)))" for a b t
  proof -
    have "s_close s \<le> s_open t" using Cons.prems that(2) by (simp add: wf_sessions_Cons)
    then show ?thesis using that(1,3) unfolding bins_of_session by linarith
  qed
  moreover have "wf_sessions ss" using Cons.prems by (simp add: wf_sessions_Cons)
  ultimately show ?case
    using Cons.IH by (simp only: list.map concat.simps sorted_wrt_append sorted_bins_of_session) auto
qed simp

text \<open>The sessions outside the period have no bins in it.\<close>

lemma expected_bins_sessions_all:
  assumes "wf_sessions ss"
  shows "expected_bins_sessions start finish tf ss now =
    concat (map (\<lambda>s. map fst (filter (\<lambda>(opens, closes). start \<le> opens \<and> opens < finish \<and>
       (case now of None \<Rightarrow> True | Some n \<Rightarrow> closes \<le> n)) (session_bins s tf))) ss)"
proof -
  define f where "f s = map fst (filter (\<lambda>(opens, closes). start \<le> opens \<and> opens < finish \<and>
       (case now of None \<Rightarrow> True | Some n \<Rightarrow> closes \<le> n)) (session_bins s tf))" for s
  have none: "f s = []" if "\<not> (start < s_close s \<and> s_open s < finish)" for s
  proof -
    have "o' \<notin> set (f s)" for o' using that unfolding f_def bins_of_session by linarith
    then show ?thesis by (cases "f s") auto
  qed
  have "concat (map f (filter (\<lambda>s. start < s_close s \<and> s_open s < finish) xs)) = concat (map f xs)" for xs
    by (induction xs) (simp_all add: none)
  then show ?thesis
    by (simp add: expected_bins_sessions_def sessions_between_overlap[OF assms] f_def[symmetric] flip: f_def)
qed

lemma dvd_shift: "(b :: int) dvd x - k * b \<longleftrightarrow> b dvd x"
  by (simp add: dvd_diff_left_iff)

lemma ceil_div_mult_le:
  assumes "0 < b" "b dvd x"
  shows "ceil_div a b * b \<le> x \<longleftrightarrow> a \<le> x"
proof -
  obtain k where k: "x = k * b" using assms(2) by (auto simp: dvd_def mult.commute)
  have "ceil_div a b * b \<le> k * b \<longleftrightarrow> ceil_div a b \<le> k" using assms(1) by simp
  also have "\<dots> \<longleftrightarrow> a \<le> k * b" by (rule ceil_div_le_iff[OF assms(1)])
  finally show ?thesis by (simp add: k)
qed

definition closed_by :: "int option \<Rightarrow> int \<Rightarrow> bool" where
  "closed_by now closes = (case now of None \<Rightarrow> True | Some n \<Rightarrow> closes \<le> n)"

lemma closed_by_simps [simp]: "closed_by None closes" "closed_by (Some n) closes \<longleftrightarrow> closes \<le> n"
  by (simp_all add: closed_by_def)

lemma expected_bins_set:
  assumes "sessions_ok sessions"
  shows "x \<in> set (expected_bins sessions start finish tf now) \<longleftrightarrow>
      start \<le> x \<and> x < finish \<and> (\<exists>closes. is_bin sessions tf x closes \<and> closed_by now closes)"
proof (cases sessions)
  case None
  let ?k = "seconds tf"
  let ?e = "case now of None \<Rightarrow> finish | Some n \<Rightarrow> min finish (n - ?k + 1)"
  have pos: "0 < ?k" by simp
  have "x \<in> set (expected_bins_fixed start finish tf now) \<longleftrightarrow> start \<le> x \<and> x < ?e \<and> ?k dvd x"
    unfolding expected_bins_fixed_def Let_def set_int_range[OF pos] dvd_shift
    by (cases "?k dvd x") (simp_all only: ceil_div_mult_le[OF pos] simp_thms)
  then show ?thesis using None by (auto simp: expected_bins_def is_bin_def closed_by_def split: option.splits)
next
  case (Some ss)
  then have wf: "wf_sessions ss" using assms by simp
  have "x \<in> set (expected_bins_sessions start finish tf ss now) \<longleftrightarrow> (\<exists>s \<in> set ss. s_open s \<le> x \<and>
      x < s_close s \<and> seconds tf dvd x - s_open s \<and> start \<le> x \<and> x < finish \<and>
      closed_by now (min (x + seconds tf) (s_close s)))"
    unfolding expected_bins_sessions_all[OF wf] closed_by_def set_concat set_map UN_iff bex_simps(7)
    by (intro bex_cong refl) (simp only: bins_of_session[unfolded set_map])
  then show ?thesis using Some by (auto simp: expected_bins_def is_bin_def)
qed

lemma expected_bins_sorted:
  assumes "sessions_ok sessions"
  shows "sorted_wrt (<) (expected_bins sessions start finish tf now)"
proof (cases sessions)
  case None
  then show ?thesis by (simp add: expected_bins_def expected_bins_fixed_def Let_def sorted_int_range)
next
  case (Some ss)
  then have wf: "wf_sessions ss" using assms by simp
  show ?thesis
    using Some sorted_bins_of_sessions[OF wf] by (simp add: expected_bins_def expected_bins_sessions_all[OF wf])
qed

section \<open>Counting\<close>

lemma ceil_div_mono: "0 < b \<Longrightarrow> a \<le> a' \<Longrightarrow> ceil_div a b \<le> ceil_div a' b"
  using ceil_div_le_iff[of b a "ceil_div a' b"] ceil_div_le_iff[of b a' "ceil_div a' b"] by simp

lemma length_bins_of_session:
  assumes "s_open s \<le> s_close s"
  shows "int (length (map fst (filter (\<lambda>(opens, closes). start \<le> opens \<and> opens < finish \<and> closed_by None closes)
      (session_bins s tf)))) = session_count s (seconds tf) start finish"
  by (simp add: session_count_bins[OF assms])

lemma length_expected_bins:
  assumes "sessions_ok sessions"
  shows "int (length (expected_bins sessions start finish tf None)) = candle_count start finish tf sessions"
proof (cases "finish \<le> start")
  case True
  then have "set (expected_bins sessions start finish tf None) = {}"
    by (intro equals0I) (simp add: expected_bins_set[OF assms])
  then have "expected_bins sessions start finish tf None = []" by simp
  then show ?thesis using True by (simp add: candle_count_def Let_def)
next
  case False
  let ?k = "seconds tf"
  show ?thesis
  proof (cases sessions)
    case None
    have "ceil_div start ?k \<le> ceil_div finish ?k" using False by (intro ceil_div_mono) simp_all
    then show ?thesis
      using None False
      by (simp add: expected_bins_def expected_bins_fixed_def candle_count_def Let_def length_int_range ceil_div_minus_mult)
  next
    case (Some ss)
    have wf: "wf_sessions (sessions_between ss start finish)" using assms Some wf_sessions_between by simp
    have "int (length (concat (map (\<lambda>s. map fst (filter (\<lambda>(opens, closes). start \<le> opens \<and> opens < finish \<and>
        closed_by None closes) (session_bins s tf))) xs))) = (\<Sum>s\<leftarrow>xs. session_count s ?k start finish)"
      if "wf_sessions xs" for xs
      using that by (induction xs) (simp_all add: length_bins_of_session[simplified] wf_sessions_Cons)
    from this[OF wf] show ?thesis
      using Some False by (simp add: expected_bins_def expected_bins_sessions_def candle_count_def Let_def)
  qed
qed

text \<open>C15: The formula of \<open>candle_count\<close> is the number of bins of the market in the period: the bins
  of \<open>expected_bins\<close>, which are in order and are exactly the bins that open in \<open>[start, end)\<close> (and, with
  \<open>now\<close>, have closed by then).\<close>

theorem candle_count_exact:
  assumes "sessions_ok sessions"
  shows "candle_count start finish tf sessions = int (length (expected_bins sessions start finish tf None)) \<and>
    sorted_wrt (<) (expected_bins sessions start finish tf now) \<and>
    (\<forall>x. x \<in> set (expected_bins sessions start finish tf now) \<longleftrightarrow>
      start \<le> x \<and> x < finish \<and> (\<exists>closes. is_bin sessions tf x closes \<and> closed_by now closes))"
  using assms by (simp add: length_expected_bins expected_bins_sorted expected_bins_set)

theorem candle_count_exact_witness:
  "candle_count 100 9000 H1 (Some [\<lparr>s_date = 1, s_open = 0, s_close = 5400\<rparr>,
      \<lparr>s_date = 2, s_open = 8000, s_close = 20000\<rparr>]) =
    int (length (expected_bins (Some [\<lparr>s_date = 1, s_open = 0, s_close = 5400\<rparr>,
      \<lparr>s_date = 2, s_open = 8000, s_close = 20000\<rparr>]) 100 9000 H1 None))"
  by (rule candle_count_exact[THEN conjunct1]) (simp add: wf_sessions_def)

section \<open>The latest end that fits\<close>

lemma expected_bins_prefix:
  assumes "sessions_ok sessions" "e \<le> finish"
  shows "expected_bins sessions start e tf now = filter (\<lambda>x. x < e) (expected_bins sessions start finish tf now)"
proof (rule strict_sorted_equal)
  show "sorted_wrt (<) (filter (\<lambda>x. x < e) (expected_bins sessions start finish tf now))"
    using expected_bins_sorted[OF assms(1)] by (rule sorted_wrt_filter)
  show "sorted_wrt (<) (expected_bins sessions start e tf now)"
    using expected_bins_sorted[OF assms(1)] .
  show "set (expected_bins sessions start e tf now) = set (filter (\<lambda>x. x < e) (expected_bins sessions start finish tf now))"
    using assms(2) by (auto simp: expected_bins_set[OF assms(1)])
qed

lemma filter_less_nth:
  assumes "sorted_wrt (<) (xs :: int list)" "n < length xs"
  shows "length (filter (\<lambda>x. x < xs ! n) xs) = n" "xs ! n < e \<Longrightarrow> n < length (filter (\<lambda>x. x < e) xs)"
proof -
  have split: "xs = take n xs @ xs ! n # drop (Suc n) xs" using assms(2) by (simp add: id_take_nth_drop)
  have low: "x < xs ! n" if "x \<in> set (take n xs)" for x
    using assms that by (auto simp: in_set_conv_nth sorted_wrt_iff_nth_less)
  have high: "xs ! n < x" if "x \<in> set (drop (Suc n) xs)" for x
    using assms that by (auto simp: in_set_conv_nth sorted_wrt_iff_nth_less)
  have "filter (\<lambda>x. x < xs ! n) (take n xs @ xs ! n # drop (Suc n) xs) = take n xs"
    using low high by (force simp: filter_id_conv filter_empty_conv)
  then have "filter (\<lambda>x. x < xs ! n) xs = take n xs" using split by simp
  then show "length (filter (\<lambda>x. x < xs ! n) xs) = n" using assms(2) by simp
  assume e: "xs ! n < e"
  have "filter (\<lambda>x. x < e) (take n xs) = take n xs" using low e by (force simp: filter_id_conv)
  then have "length (filter (\<lambda>x. x < e) (take n xs @ xs ! n # drop (Suc n) xs)) \<ge> Suc n"
    using e assms(2) by simp
  then show "n < length (filter (\<lambda>x. x < e) xs)" using split by simp
qed

lemma nth_bins_of_session:
  assumes "n < length (map fst (filter (\<lambda>(opens, _). start \<le> opens \<and> opens < finish) (session_bins s tf)))"
  shows "map fst (filter (\<lambda>(opens, _). start \<le> opens \<and> opens < finish) (session_bins s tf)) ! n =
     s_open s + (max 0 (ceil_div (start - s_open s) (seconds tf)) + int n) * seconds tf"
  using assms unfolding filter_session_bins by (simp add: comp_def)

lemma latest_in_nth:
  assumes "\<forall>s \<in> set ss. s_open s \<le> s_close s" "0 \<le> remaining"
  shows "latest_in start finish (seconds tf) remaining ss =
    (let bins = concat (map (\<lambda>s. map fst (filter (\<lambda>(opens, _). start \<le> opens \<and> opens < finish) (session_bins s tf))) ss)
     in if nat remaining < length bins then bins ! nat remaining else finish)"
  using assms
proof (induction ss arbitrary: remaining)
  case (Cons s ss)
  let ?f = "\<lambda>s. map fst (filter (\<lambda>(opens, _). start \<le> opens \<and> opens < finish) (session_bins s tf))"
  have count: "session_count s (seconds tf) start finish = int (length (?f s))"
    using Cons.prems(1) by (simp add: session_count_bins)
  show ?case
  proof (cases "remaining < int (length (?f s))")
    case True
    then have "nat remaining < length (?f s)" using Cons.prems(2) by linarith
    then show ?thesis
      using nth_bins_of_session[of "nat remaining" start finish s tf] Cons.prems True
      by (simp add: count Let_def nth_append)
  next
    case False
    have "latest_in start finish (seconds tf) (remaining - int (length (?f s))) ss =
      (let bins = concat (map ?f ss) in if nat (remaining - int (length (?f s))) < length bins
       then bins ! nat (remaining - int (length (?f s))) else finish)"
      using False Cons.prems by (intro Cons.IH) simp_all
    moreover have "nat (remaining - int (length (?f s))) = nat remaining - length (?f s)" by linarith
    moreover have "\<not> nat remaining < length (?f s)" using False Cons.prems(2) by linarith
    ultimately show ?thesis
      using False by (simp add: count Let_def nth_append less_diff_conv2)
  qed
qed simp

lemma latest_end_nth:
  assumes "sessions_ok sessions" "0 \<le> maximum" "nat maximum < length (expected_bins sessions start finish tf None)"
  shows "latest_end start finish tf maximum sessions = expected_bins sessions start finish tf None ! nat maximum"
proof (cases sessions)
  case None
  let ?k = "seconds tf"
  have "length (expected_bins sessions start finish tf None) = nat (ceil_div finish ?k - ceil_div start ?k)"
    using None by (simp add: expected_bins_def expected_bins_fixed_def Let_def length_int_range ceil_div_minus_mult)
  then have "ceil_div start ?k + maximum < ceil_div finish ?k" using assms(2,3) by linarith
  then have "(ceil_div start ?k + maximum) * ?k < finish" by (simp add: less_ceil_div_iff)
  then show ?thesis
    using None assms(2,3)
    by (simp add: latest_end_def expected_bins_def expected_bins_fixed_def Let_def int_range_count algebra_simps)
next
  case (Some ss)
  have "wf_sessions (sessions_between ss start finish)" using assms(1) Some wf_sessions_between by simp
  then have "\<forall>s \<in> set (sessions_between ss start finish). s_open s \<le> s_close s"
    by (auto simp: wf_sessions_def)
  from latest_in_nth[OF this assms(2)] show ?thesis
    using Some assms(3) by (simp add: latest_end_def expected_bins_def expected_bins_sessions_def Let_def)
qed

text \<open>For a period with more than \<open>maximum\<close> candles, the end that \<open>suggest\<close> offers gives a period
  of exactly \<open>maximum\<close> candles, and every later end up to the requested one has too many.\<close>

theorem latest_end_fits:
  assumes "sessions_ok sessions" "0 \<le> maximum" "maximum < candle_count start finish tf sessions"
  shows "latest_end start finish tf maximum sessions < finish \<and>
    candle_count start (latest_end start finish tf maximum sessions) tf sessions = maximum \<and>
    (\<forall>e. latest_end start finish tf maximum sessions < e \<and> e \<le> finish \<longrightarrow> maximum < candle_count start e tf sessions)"
proof -
  define bins where "bins = expected_bins sessions start finish tf None"
  have n: "nat maximum < length bins"
    using assms(2,3) length_expected_bins[OF assms(1), of start finish tf] unfolding bins_def by linarith
  have L: "latest_end start finish tf maximum sessions = bins ! nat maximum"
    using latest_end_nth[OF assms(1,2)] n unfolding bins_def by simp
  have sorted: "sorted_wrt (<) bins" unfolding bins_def by (rule expected_bins_sorted[OF assms(1)])
  have lt: "bins ! nat maximum < finish"
    using nth_mem[OF n] unfolding bins_def by (simp add: expected_bins_set[OF assms(1)])
  have count: "candle_count start e tf sessions = int (length (filter (\<lambda>x. x < e) bins))" if "e \<le> finish" for e
    unfolding bins_def expected_bins_prefix[OF assms(1) that, symmetric] by (rule length_expected_bins[OF assms(1), symmetric])
  have "candle_count start (bins ! nat maximum) tf sessions = maximum"
    using count[of "bins ! nat maximum"] lt filter_less_nth(1)[OF sorted n] assms(2) by simp
  moreover have "maximum < candle_count start e tf sessions" if "bins ! nat maximum < e" "e \<le> finish" for e
    using count[OF that(2)] filter_less_nth(2)[OF sorted n that(1)] by linarith
  ultimately show ?thesis unfolding L using lt by simp
qed

theorem latest_end_fits_witness:
  "latest_end 0 86400 H1 2 (Some [\<lparr>s_date = 1, s_open = 1800, s_close = 9000\<rparr>,
      \<lparr>s_date = 2, s_open = 20000, s_close = 30000\<rparr>]) < 86400"
proof (rule latest_end_fits[THEN conjunct1])
  have "wf_sessions [\<lparr>s_date = 1, s_open = 1800, s_close = 9000\<rparr>, \<lparr>s_date = 2, s_open = 20000, s_close = 30000\<rparr>]"
    by (simp add: wf_sessions_def)
  then show "2 < candle_count 0 86400 H1 (Some [\<lparr>s_date = 1, s_open = 1800, s_close = 9000\<rparr>,
      \<lparr>s_date = 2, s_open = 20000, s_close = 30000\<rparr>])"
    by (simp add: candle_count_def sessions_between_overlap session_count_def Let_def)
      (simp add: ceil_div_def seconds_def)
qed (simp_all add: wf_sessions_def)

section \<open>The last bins\<close>

lemma walk_back_last:
  assumes "0 < remaining" "sorted_wrt (\<lambda>a b. stop a \<longrightarrow> stop b) rs" "\<forall>s \<in> set rs. stop s \<longrightarrow> f s = []"
  shows "walk_back stop f earliest remaining rs =
    (let bins = concat (map f (rev rs)) in if remaining \<le> length bins then Some (bins ! (length bins - remaining))
     else if bins \<noteq> [] then Some (hd bins) else earliest)"
  using assms
proof (induction rs arbitrary: earliest remaining)
  case (Cons s rs)
  let ?rest = "concat (map f (rev rs))"
  consider (stop) "stop s" | (here) "\<not> stop s" "remaining \<le> length (f s)"
    | (some) "\<not> stop s" "length (f s) < remaining" "f s \<noteq> []" | (none) "\<not> stop s" "f s = []"
    by (cases "stop s"; cases "f s = []"; cases "remaining \<le> length (f s)") auto
  then show ?case
  proof cases
    case stop
    then have "\<forall>t \<in> set (s # rs). f t = []" using Cons.prems by auto
    then have "concat (map f (rev (s # rs))) = []" by simp
    then show ?thesis using stop Cons.prems(1) by (simp only: walk_back.simps Let_def) simp
  next
    case here
    then have "length ?rest + length (f s) - remaining = length ?rest + (length (f s) - remaining)" by simp
    then have "(?rest @ f s) ! (length ?rest + length (f s) - remaining) = f s ! (length (f s) - remaining)"
      by (simp only: nth_append_length_plus)
    then show ?thesis using here by (simp add: Let_def)
  next
    case some
    have "walk_back stop f (Some (hd (f s))) (remaining - length (f s)) rs =
      (if remaining - length (f s) \<le> length ?rest then Some (?rest ! (length ?rest - (remaining - length (f s))))
       else if ?rest \<noteq> [] then Some (hd ?rest) else Some (hd (f s)))"
      using some Cons.prems Cons.IH[of "remaining - length (f s)"] by (simp add: Let_def)
    then show ?thesis
      using some by (auto simp: Let_def nth_append hd_append le_diff_conv add.commute)
  next
    case none
    then show ?thesis using Cons.IH[OF Cons.prems(1)] Cons.prems by (simp add: Let_def)
  qed
qed simp

lemma pred_div_ceil: "0 < b \<Longrightarrow> (x - 1) div b = ceil_div x (b :: int) - 1"
proof -
  assume b: "0 < b"
  have "k \<le> (x - 1) div b \<longleftrightarrow> k \<le> ceil_div x b - 1" for k
  proof -
    have "k \<le> (x - 1) div b \<longleftrightarrow> k * b \<le> x - 1"
      using ceil_div_le_iff[OF b, of "- (x - 1)" "- k"] by (simp add: ceil_div_def) linarith
    also have "\<dots> \<longleftrightarrow> k < ceil_div x b" using b by (simp add: less_ceil_div_iff)
    finally show ?thesis by linarith
  qed
  then show ?thesis by (meson order.antisym order.refl)
qed

definition last_of :: "nat \<Rightarrow> 'a list \<Rightarrow> 'a option" where
  "last_of count bins = (if bins = [] then None else Some (bins ! (length bins - min count (length bins))))"

lemma first_of_last_fixed:
  assumes "0 < count" "case lower of None \<Rightarrow> True | Some l \<Rightarrow> seconds tf dvd l"
  shows "first_of_last finish now tf count None lower =
    last_of count (expected_bins_fixed (case lower of None \<Rightarrow> 0 | Some l \<Rightarrow> l) finish tf (Some now))"
proof -
  let ?k = "seconds tf"
  define low where "low = (case lower of None \<Rightarrow> 0 | Some l \<Rightarrow> l)"
  have "?k dvd low" using assms(2) by (auto simp: low_def split: option.splits)
  then obtain a where a: "low = a * ?k" by (metis dvd_div_mult_self)
  define e where "e = min finish (now - ?k + 1)"
  define c where "c = ceil_div e ?k"
  have ca: "ceil_div low ?k = a" unfolding a using ceil_div_minus_mult[of ?k 0 "- a"] by (simp add: ceil_div_def)
  have newest: "min (finish - 1) (now - ?k) div ?k * ?k = (c - 1) * ?k"
  proof -
    have "min (finish - 1) (now - ?k) = e - 1" unfolding e_def by linarith
    then show ?thesis by (simp add: pred_div_ceil c_def)
  qed
  have bins: "expected_bins_fixed low finish tf (Some now) = map (\<lambda>i. a * ?k + int i * ?k) [0..<nat (c - a)]"
    by (simp add: expected_bins_fixed_def Let_def int_range_count ca ceil_div_minus_mult e_def[symmetric] c_def)
  show ?thesis
  proof (cases "c \<le> a")
    case True
    then have "(c - 1) * ?k < a * ?k" by simp
    then show ?thesis
      using True newest bins by (simp add: first_of_last_def Let_def low_def[symmetric] a last_of_def)
  next
    case False
    then have "a * ?k \<le> (c - 1) * ?k" by simp
    then have "first_of_last finish now tf count None lower = Some (max (a * ?k) ((c - 1) * ?k - (int count - 1) * ?k))"
      using newest by (simp add: first_of_last_def Let_def low_def[symmetric] a)
    also have "max (a * ?k) ((c - 1) * ?k - (int count - 1) * ?k) = max a (c - int count) * ?k"
    proof -
      have "(c - 1) * ?k - (int count - 1) * ?k = (c - int count) * ?k" by (simp add: algebra_simps)
      then show ?thesis by (simp add: max_def)
    qed
    also have "max a (c - int count) = a + int (nat (c - a) - min count (nat (c - a)))" using False by linarith
    finally show ?thesis
      using False assms(1) by (simp add: low_def[symmetric] bins last_of_def algebra_simps)
  qed
qed

lemma first_of_last_last_of:
  assumes "sessions_ok sessions" "0 < count"
    and "case sessions of None \<Rightarrow> (case lower of None \<Rightarrow> True | Some l \<Rightarrow> seconds tf dvd l)
           | Some ss \<Rightarrow> lower \<noteq> None \<or> (\<forall>s \<in> set ss. 0 \<le> s_open s)"
  shows "first_of_last finish now tf count sessions lower =
    last_of count (expected_bins sessions (case lower of None \<Rightarrow> 0 | Some l \<Rightarrow> l) finish tf (Some now))"
proof (cases sessions)
  case None
  then show ?thesis using assms(2,3) by (simp add: expected_bins_def first_of_last_fixed)
next
  case (Some ss)
  then have wf: "wf_sessions ss" using assms(1) by simp
  define low where "low = (case lower of None \<Rightarrow> 0 | Some l \<Rightarrow> l)"
  define stop where "stop = (\<lambda>s :: session. (case lower of None \<Rightarrow> False | Some l \<Rightarrow> s_close s \<le> l))"
  define f where "f = (\<lambda>s :: session. map fst (filter (\<lambda>(opened, closed). (case lower of None \<Rightarrow> True | Some l \<Rightarrow> l \<le> opened) \<and>
      opened < finish \<and> closed \<le> now) (session_bins s tf)))"
  define k where "k = bisect (\<lambda>i. finish \<le> s_open (ss ! i)) 0 (length ss)"
  have mono: "finish \<le> s_open (ss ! j)" if "i \<le> j" "j < length ss" "finish \<le> s_open (ss ! i)" for i j
    using wf_sessions_nth[OF wf, of i j] that by (cases "i = j") auto
  note k = bisect_from_0[of "length ss" "\<lambda>i. finish \<le> s_open (ss ! i)", OF mono, folded k_def]
  have late: "f s = []" if "s \<in> set (drop k ss)" for s :: session
  proof -
    have "finish \<le> s_open s" using k(1,3) that by (auto simp: in_set_conv_nth)
    then have "x \<notin> set (f s)" for x unfolding f_def bins_of_session by linarith
    then show ?thesis by (cases "f s") auto
  qed
  have early: "f s = []" if "stop s" for s :: session
  proof -
    have "x \<notin> set (f s)" for x using that unfolding f_def bins_of_session stop_def by (auto split: option.splits)
    then show ?thesis by (cases "f s") auto
  qed
  have order: "sorted_wrt (\<lambda>a b. stop a \<longrightarrow> stop b) (rev (take k ss))"
  proof (subst sorted_wrt_rev, subst sorted_wrt_iff_nth_less, intro allI impI)
    fix i j assume ij: "i < j" "j < length (take k ss)" and "stop (take k ss ! j)"
    moreover have "s_close (ss ! i) \<le> s_open (ss ! j)" "s_open (ss ! j) < s_close (ss ! j)"
      using wf_sessions_nth(1)[OF wf, of i j] wf ij by (auto simp: wf_sessions_def)
    ultimately show "stop (take k ss ! i)" by (auto simp: stop_def split: option.splits)
  qed
  have "f s = map fst (filter (\<lambda>(opens, closes). low \<le> opens \<and> opens < finish \<and> closes \<le> now) (session_bins s tf))"
    if "s \<in> set ss" for s
  proof -
    have "(case lower of None \<Rightarrow> True | Some l \<Rightarrow> l \<le> x) \<longleftrightarrow> low \<le> x" if "s_open s \<le> x" for x
      using assms(3) Some \<open>s \<in> set ss\<close> that by (fastforce simp: low_def split: option.splits)
    then show ?thesis
      unfolding f_def by (intro arg_cong[of _ _ "map fst"] filter_cong refl) (auto simp: set_session_bins)
  qed
  then have "expected_bins sessions low finish tf (Some now) = concat (map f ss)"
    using Some by (simp add: expected_bins_def expected_bins_sessions_all[OF wf] cong: map_cong)
  also have "\<dots> = concat (map f (take k ss)) @ concat (map f (drop k ss))"
    by (simp flip: concat_append map_append)
  also have "concat (map f (drop k ss)) = []" using late by simp
  finally have bins: "expected_bins sessions low finish tf (Some now) = concat (map f (take k ss))" by simp
  have "first_of_last finish now tf count sessions lower = walk_back stop f None count (rev (take k ss))"
    using Some by (simp add: first_of_last_def Let_def k_def stop_def f_def)
  also have "\<dots> = last_of count (concat (map f (take k ss)))"
  proof -
    define bins where "bins = concat (map f (take k ss))"
    have "walk_back stop f None count (rev (take k ss)) =
      (if count \<le> length bins then Some (bins ! (length bins - count)) else if bins \<noteq> [] then Some (hd bins) else None)"
      using walk_back_last[OF assms(2) order, of f None] early by (simp add: Let_def bins_def[symmetric])
    then show ?thesis
      unfolding bins_def[symmetric] using assms(2) by (cases "bins = []") (simp_all add: last_of_def hd_conv_nth min_def)
  qed
  finally show ?thesis using bins by (simp add: low_def)
qed

text \<open>\<open>first_of_last\<close> is the open of the earliest of the last \<open>count\<close> bins of the market that open
  from \<open>lower\<close> on and before \<open>end\<close> and have closed by \<open>now\<close> (the earliest there is when they are
  fewer), and \<open>None\<close> exactly when there is no such bin.\<close>

theorem first_of_last_bin:
  assumes "sessions_ok sessions" "0 < count"
    and "case sessions of None \<Rightarrow> (case lower of None \<Rightarrow> True | Some l \<Rightarrow> seconds tf dvd l)
           | Some ss \<Rightarrow> lower \<noteq> None \<or> (\<forall>s \<in> set ss. 0 \<le> s_open s)"
  shows "first_of_last finish now tf count sessions lower =
    last_of count (expected_bins sessions (case lower of None \<Rightarrow> 0 | Some l \<Rightarrow> l) finish tf (Some now))"
  using assms by (rule first_of_last_last_of)

theorem first_of_last_bin_witness:
  "first_of_last 86400 86400 H1 2 (Some [\<lparr>s_date = 1, s_open = 1800, s_close = 9000\<rparr>,
      \<lparr>s_date = 2, s_open = 20000, s_close = 30000\<rparr>]) (Some 0) =
    last_of 2 (expected_bins (Some [\<lparr>s_date = 1, s_open = 1800, s_close = 9000\<rparr>,
      \<lparr>s_date = 2, s_open = 20000, s_close = 30000\<rparr>]) 0 86400 H1 (Some 86400))"
  by (subst first_of_last_bin) (simp_all add: wf_sessions_def)

end
