(* ===== verification/DataModels.thy ===== *)
theory DataModels
  imports Text DataTime
begin

text \<open>
  \<open>data/models.py\<close>: markets, exchanges, instrument ids and the values the data module hands on, and
  the errors of \<open>data/errors.py\<close> as values. Ids are ASCII text here; the source also takes letters and
  digits of other scripts.
\<close>

section \<open>Markets and exchanges\<close>

datatype market = Crypto | Stock

datatype exchange = AMEX | ARCA | BATS | BINANCE | NASDAQ | NYSE

datatype instrument_sort = ByVolume | ByChange | ByLosers | BySymbol

definition market_name :: "market \<Rightarrow> string" where
  "market_name m = (case m of Crypto \<Rightarrow> ''crypto'' | Stock \<Rightarrow> ''stock'')"

definition market_of :: "string \<Rightarrow> market option" where
  "market_of s = (if s = ''crypto'' then Some Crypto else if s = ''stock'' then Some Stock else None)"

definition exchange_market :: "exchange \<Rightarrow> market" where
  "exchange_market e = (if e = BINANCE then Crypto else Stock)"

definition timeframe_name :: "timeframe \<Rightarrow> string" where
  "timeframe_name t = (case t of M1 \<Rightarrow> ''1m'' | M5 \<Rightarrow> ''5m'' | M15 \<Rightarrow> ''15m'' | M30 \<Rightarrow> ''30m'' | H1 \<Rightarrow> ''1h''
     | H4 \<Rightarrow> ''4h'' | D1 \<Rightarrow> ''1d'')"

section \<open>Instrument ids\<close>

record instrument_id =
  i_market :: market
  i_symbol :: string

datatype id_error = NotAnId string | UnknownMarket string string | BadSymbol string string

definition SYMBOL_MAX :: nat where "SYMBOL_MAX = 32"

text \<open>\<open>[^\W_](?:[^\W_]|\.)*\<close>\<close>

definition symbol_ok :: "string \<Rightarrow> bool" where
  "symbol_ok s = (case s of [] \<Rightarrow> False | c # cs \<Rightarrow> is_alnum c \<and> list_all (\<lambda>d. is_alnum d \<or> d = CHR ''.'') cs)"

definition parse_id :: "string \<Rightarrow> id_error + instrument_id" where
  "parse_id v =
     (let (before, after) = partition_on CHR '':'' v;
          name = lower (strip before);
          symbol = upper (strip (case after of None \<Rightarrow> [] | Some t \<Rightarrow> t))
      in if after = None \<or> symbol = [] then Inl (NotAnId v)
         else (case market_of name of
             None \<Rightarrow> Inl (UnknownMarket name v)
           | Some m \<Rightarrow>
               if length symbol > SYMBOL_MAX \<or> \<not> symbol_ok symbol then Inl (BadSymbol symbol v)
               else Inr \<lparr>i_market = m, i_symbol = symbol\<rparr>))"

definition show_id :: "instrument_id \<Rightarrow> string" where
  "show_id i = market_name (i_market i) @ '':'' @ i_symbol i"

text \<open>The ids \<open>parse\<close> gives: a symbol of upper case letters, digits and dots.\<close>

definition wf_id :: "instrument_id \<Rightarrow> bool" where
  "wf_id i = (symbol_ok (i_symbol i) \<and> length (i_symbol i) \<le> SYMBOL_MAX \<and> upper (i_symbol i) = i_symbol i)"

lemma symbol_ok_chars:
  assumes "symbol_ok s"
  shows "s \<noteq> []" "\<forall>c \<in> set s. is_alnum c \<or> c = CHR ''.''" "strip s = s"
proof -
  show all: "\<forall>c \<in> set s. is_alnum c \<or> c = CHR ''.''" and ne: "s \<noteq> []"
    using assms by (auto simp: symbol_ok_def list_all_iff split: list.splits)
  have "\<not> is_space c" if "c \<in> set s" for c
    using all that is_alnum_not_space by (auto simp: is_space_def code_of_def Let_def)
  then show "strip s = s" using ne by (intro strip_id) simp
qed

lemma upper_upper [simp]: "upper (upper s) = upper s"
  by (simp add: upper_def)

lemma parse_id_wf: "parse_id v = Inr i \<Longrightarrow> wf_id i"
  by (auto simp: parse_id_def Let_def wf_id_def split: prod.splits option.splits if_splits)

lemma partition_show_id:
  "partition_on CHR '':'' (market_name m @ CHR '':'' # s) = (market_name m, Some s)"
  by (cases m) (simp_all add: partition_on_def market_name_def Let_def)

lemma lower_market_name: "lower (strip (market_name m)) = market_name m"
proof (cases m)
  case Crypto
  have "lower (strip ''crypto'') = ''crypto''" by code_simp
  then show ?thesis using Crypto by (simp add: market_name_def)
next
  case Stock
  have "lower (strip ''stock'') = ''stock''" by code_simp
  then show ?thesis using Stock by (simp add: market_name_def)
qed

lemma market_of_name [simp]: "market_of (market_name m) = Some m"
  by (cases m) (simp_all add: market_of_def market_name_def)

text \<open>The text of a well-formed id parses back to it.\<close>

lemma parse_show_id:
  assumes "wf_id i"
  shows "parse_id (show_id i) = Inr i"
proof -
  have s: "strip (i_symbol i) = i_symbol i" "i_symbol i \<noteq> []" using assms symbol_ok_chars by (simp_all add: wf_id_def)
  show ?thesis
    using assms s by (simp add: parse_id_def show_id_def partition_show_id lower_market_name wf_id_def)
qed

text \<open>C17: parsing gives a canonical id: what \<open>parse\<close> returns is well formed, its text parses back to
  it, and no other id has that text; and the text of every well-formed id is accepted.\<close>

theorem instrument_id_roundtrip:
  "(\<forall>v i. parse_id v = Inr i \<longrightarrow> wf_id i \<and> parse_id (show_id i) = Inr i) \<and>
   (\<forall>i. wf_id i \<longrightarrow> parse_id (show_id i) = Inr i) \<and>
   (\<forall>i j. wf_id i \<longrightarrow> wf_id j \<longrightarrow> show_id i = show_id j \<longrightarrow> i = j)"
  using parse_id_wf parse_show_id by (metis sum.inject(2))

theorem instrument_id_roundtrip_witness:
  "parse_id '' Crypto : btcusdt '' = Inr \<lparr>i_market = Crypto, i_symbol = ''BTCUSDT''\<rparr> \<and>
   parse_id ''crypto:BTCUSDT'' = Inr \<lparr>i_market = Crypto, i_symbol = ''BTCUSDT''\<rparr>"
proof -
  have "parse_id '' Crypto : btcusdt '' = Inr \<lparr>i_market = Crypto, i_symbol = ''BTCUSDT''\<rparr>" by code_simp
  with instrument_id_roundtrip[THEN conjunct1, rule_format, OF this] show ?thesis
    by (simp add: show_id_def market_name_def)
qed

section \<open>Instruments and their values\<close>

record instrument =
  in_id :: instrument_id
  in_name :: string
  in_source :: string
  in_feed :: string
  in_exchange :: "string option"
  in_base :: "string option"
  in_quote :: "string option"

definition in_market :: "instrument \<Rightarrow> market" where "in_market i = i_market (in_id i)"
definition in_symbol :: "instrument \<Rightarrow> string" where "in_symbol i = i_symbol (in_id i)"

definition SPARK_DAYS :: nat where "SPARK_DAYS = 10"

record instrument_stats =
  is_price :: "fl option"
  is_change :: "fl option"
  is_volume :: "fl option"

definition NO_STATS :: instrument_stats where
  "NO_STATS = \<lparr>is_price = None, is_change = None, is_volume = None\<rparr>"

text \<open>A mini chart: a slot per day, oldest first.\<close>

type_synonym spark = "(int option \<times> fl option \<times> fl option \<times> fl option \<times> fl option) option list"

record search_result =
  se_items :: "instrument list"
  se_unavailable :: "market list"
  se_total :: nat
  se_stats :: "instrument_stats option list"
  se_sparks :: "spark option list"
  se_firsts :: "int option list"

record instrument_info =
  ii_instrument :: instrument
  ii_timeframes :: "timeframe list"
  ii_available_from :: "int option"
  ii_available_to :: int
  ii_max_candles :: int

record source_health =
  sh_ok :: bool
  sh_latency_ms :: "int option"
  sh_detail :: "string option"

section \<open>Errors\<close>

text \<open>The errors of \<open>data/errors.py\<close>; \<open>PeriodOutOfRange\<close> carries the sides that failed.\<close>

datatype period_side = StartTooEarly int | EndsBeforeFirst int | EndTooLate int | ChooseWithin "int option" int

datatype data_error =
    InvalidRequest string
  | InstrumentNotFound string
  | PeriodOutOfRange string timeframe "int option" int "period_side list"
  | TooManyCandles int int
  | SourceUnavailable string string "int option" bool \<comment> \<open>source, detail, retry after, rejected\<close>
  | DataIntegrityError string "string option"

text \<open>The sentences of \<open>PeriodOutOfRange\<close>: the sides that failed, or the period there is.\<close>

definition period_sides :: "int option \<Rightarrow> int \<Rightarrow> int option \<Rightarrow> int option \<Rightarrow> period_side list" where
  "period_sides available_from available_to start finish =
     (let early = (case (start, available_from) of (Some s, Some f) \<Rightarrow> if s < f then [StartTooEarly f] else [] | _ \<Rightarrow> []);
          before = (case (start, finish, available_from) of
              (None, Some e, Some f) \<Rightarrow> if e \<le> f then [EndsBeforeFirst f] else [] | _ \<Rightarrow> []);
          late = (case finish of Some e \<Rightarrow> if e > available_to then [EndTooLate available_to] else [] | None \<Rightarrow> []);
          sides = early @ before @ late
      in if sides = [] then [ChooseWithin available_from available_to] else sides)"

definition period_out_of_range :: "string \<Rightarrow> timeframe \<Rightarrow> int option \<Rightarrow> int \<Rightarrow> int option \<Rightarrow> int option \<Rightarrow> data_error" where
  "period_out_of_range instrument tf available_from available_to start finish =
     PeriodOutOfRange instrument tf available_from available_to (period_sides available_from available_to start finish)"

end
