(* ===== verification/DataCandles.thy ===== *)
theory DataCandles
  imports DataModels DataBins Frames "HOL-Library.Option_ord"
begin

text \<open>
  \<open>data/candles.py\<close>: cleaning, validation, resampling, gaps and the fingerprint of candle frames. A
  frame with the candle schema is a list of rows whose cells may be missing. Polars' cast, its
  row-wise minimum and maximum, and SHA-256 and the IEEE bytes of a float are parameters.
\<close>

section \<open>Candle rows\<close>

record candle =
  k_ts :: "int option"
  k_open :: "fl option"
  k_high :: "fl option"
  k_low :: "fl option"
  k_close :: "fl option"
  k_volume :: "fl option"

definition k_prices :: "candle \<Rightarrow> fl option list" where
  "k_prices k = [k_open k, k_high k, k_low k, k_close k]"

definition k_values :: "candle \<Rightarrow> fl option list" where
  "k_values k = k_prices k @ [k_volume k]"

text \<open>\<open>unique(subset="ts", keep="last", maintain_order=True)\<close>\<close>

fun keep_last :: "candle list \<Rightarrow> candle list" where
  "keep_last [] = []"
| "keep_last (k # ks) = (if k_ts k \<in> k_ts ` set ks then keep_last ks else k # keep_last ks)"

text \<open>\<open>cast\<close> selects the columns and casts them to the schema; it fails on a missing column or a
  value that does not fit.\<close>

definition normalise :: "(frame \<Rightarrow> candle list option) \<Rightarrow> frame \<Rightarrow> data_error + candle list" where
  "normalise cast f = (case cast f of
      None \<Rightarrow> Inl (DataIntegrityError ''Candle data cannot be read'' None)
    | Some rows \<Rightarrow> Inr (sort_key k_ts (keep_last rows)))"

section \<open>Validation\<close>

record horizontal =
  h_min :: "fl option \<Rightarrow> fl option \<Rightarrow> fl option"
  h_max :: "fl option \<Rightarrow> fl option \<Rightarrow> fl option"

definition horizontal_ok :: "horizontal \<Rightarrow> bool" where
  "horizontal_ok H = (\<forall>a b. h_min H (Some (Fin a)) (Some (Fin b)) = Some (Fin (min a b)) \<and>
     h_max H (Some (Fin a)) (Some (Fin b)) = Some (Fin (max a b)))"

datatype candle_rule =
    MissingOrNonFinite
  | PriceNotPositive
  | LowAboveBody
  | HighBelowBody
  | NegativeVolume
  | NotAfterPrevious
  | OffGrid timeframe

definition candle_rules :: "timeframe option \<Rightarrow> candle_rule list" where
  "candle_rules tf = [MissingOrNonFinite, PriceNotPositive, LowAboveBody, HighBelowBody, NegativeVolume,
     NotAfterPrevious] @ (case tf of None \<Rightarrow> [] | Some t \<Rightarrow> [OffGrid t])"

text \<open>A comparison with a missing value is missing, and a missing condition flags no row.\<close>

definition cmp :: "(fl \<Rightarrow> fl \<Rightarrow> bool) \<Rightarrow> fl option \<Rightarrow> fl option \<Rightarrow> bool" where
  "cmp R a b = (case (a, b) of (Some x, Some y) \<Rightarrow> R x y | _ \<Rightarrow> False)"

definition not_finite :: "fl option \<Rightarrow> bool" where
  "not_finite v = (case v of None \<Rightarrow> True | Some x \<Rightarrow> \<not> is_finite x)"

definition breaks_rule :: "horizontal \<Rightarrow> candle list \<Rightarrow> candle_rule \<Rightarrow> nat \<Rightarrow> bool" where
  "breaks_rule H ks rule i = (let k = ks ! i in case rule of
      MissingOrNonFinite \<Rightarrow> k_ts k = None \<or> list_ex not_finite (k_values k)
    | PriceNotPositive \<Rightarrow> list_ex (\<lambda>v. cmp (\<le>) v (Some (Fin 0))) (k_prices k)
    | LowAboveBody \<Rightarrow> cmp (>) (k_low k) (h_min H (k_open k) (k_close k))
    | HighBelowBody \<Rightarrow> cmp (<) (k_high k) (h_max H (k_open k) (k_close k))
    | NegativeVolume \<Rightarrow> cmp (<) (k_volume k) (Some (Fin 0))
    | NotAfterPrevious \<Rightarrow> (case i of 0 \<Rightarrow> False | Suc j \<Rightarrow>
        (case (k_ts (ks ! j), k_ts k) of (Some a, Some b) \<Rightarrow> wrap64 (b - a) \<le> 0 | _ \<Rightarrow> False))
    | OffGrid t \<Rightarrow> (case k_ts k of None \<Rightarrow> False | Some a \<Rightarrow> a mod seconds t \<noteq> 0))"

text \<open>A broken rule, how many candles break it and the time of the first one that has a time.\<close>

type_synonym candle_problem = "candle_rule \<times> nat \<times> int option"

definition broken_candles :: "horizontal \<Rightarrow> candle list \<Rightarrow> candle_rule \<Rightarrow> int option list" where
  "broken_candles H ks rule = map (\<lambda>i. k_ts (ks ! i)) (filter (breaks_rule H ks rule) [0..<length ks])"

definition candle_problems :: "horizontal \<Rightarrow> candle list \<Rightarrow> timeframe option \<Rightarrow> candle_problem list" where
  "candle_problems H ks tf = map (\<lambda>rule. let bad = broken_candles H ks rule; first = filter (\<lambda>t. t \<noteq> None) bad
       in (rule, length bad, if first = [] then None else hd first))
     (filter (\<lambda>rule. broken_candles H ks rule \<noteq> []) (candle_rules tf))"

definition validate :: "horizontal \<Rightarrow> candle list \<Rightarrow> timeframe option \<Rightarrow> candle_problem list + unit" where
  "validate H ks tf = raise_if (candle_problems H ks tf \<noteq> []) (candle_problems H ks tf)"

section \<open>Resampling\<close>

text \<open>The aggregates skip missing values; the maximum and minimum also skip NaN when they can.\<close>

definition present :: "fl option list \<Rightarrow> fl list" where
  "present vs = map the (filter (\<lambda>v. v \<noteq> None) vs)"

definition agg_extreme :: "(fl set \<Rightarrow> fl) \<Rightarrow> fl option list \<Rightarrow> fl option" where
  "agg_extreme f vs = (let xs = present vs; numbers = filter (\<lambda>x. x \<noteq> NaN) xs
     in if xs = [] then None else if numbers = [] then Some NaN else Some (f (set numbers)))"

definition agg_sum :: "fl option list \<Rightarrow> fl option" where
  "agg_sum vs = Some (foldl fl_add (Fin 0) (present vs))"

definition bar_of :: "int option \<Rightarrow> candle list \<Rightarrow> candle" where
  "bar_of t ks = \<lparr>k_ts = t, k_open = k_open (hd ks), k_high = agg_extreme Max (map k_high ks),
     k_low = agg_extreme Min (map k_low ks), k_close = k_close (last ks), k_volume = agg_sum (map k_volume ks)\<rparr>"

definition aggregate :: "candle list \<Rightarrow> candle list" where
  "aggregate ks = map (\<lambda>t. bar_of t (filter (\<lambda>k. k_ts k = t) ks)) (first_seen (map k_ts ks))"

definition resample_fixed :: "candle list \<Rightarrow> timeframe \<Rightarrow> candle list" where
  "resample_fixed ks tf = aggregate (map (\<lambda>k. k\<lparr>k_ts := map_option (\<lambda>t. t div seconds tf * seconds tf) (k_ts k)\<rparr>)
     (sort_key k_ts ks))"

text \<open>\<open>join_asof\<close>: the latest session that opened at or before a candle, if there is one.\<close>

definition session_at :: "session list \<Rightarrow> int \<Rightarrow> session option" where
  "session_at ss t = (let before = filter (\<lambda>s. s_open s \<le> t) (sort_key s_open ss)
     in if before = [] then None else Some (last before))"

text \<open>The bin of a candle in its session; \<open>None\<close> for a candle outside every session.\<close>

definition session_bin :: "timeframe \<Rightarrow> session list \<Rightarrow> candle \<Rightarrow> candle option" where
  "session_bin tf ss k = (case k_ts k of None \<Rightarrow> None | Some t \<Rightarrow> (case session_at ss t of
      None \<Rightarrow> None
    | Some s \<Rightarrow> if t < s_close s
        then Some (k\<lparr>k_ts := Some (s_open s + (t - s_open s) div seconds tf * seconds tf)\<rparr>) else None))"

definition resample_sessions :: "candle list \<Rightarrow> timeframe \<Rightarrow> session list \<Rightarrow> candle list" where
  "resample_sessions ks tf ss = aggregate (List.map_filter (session_bin tf ss) (sort_key k_ts ks))"

section \<open>Selection\<close>

definition closed_only :: "candle list \<Rightarrow> timeframe \<Rightarrow> int \<Rightarrow> session list option \<Rightarrow> candle list" where
  "closed_only ks tf now sessions = (case sessions of
      None \<Rightarrow> filter (\<lambda>k. case k_ts k of None \<Rightarrow> False | Some t \<Rightarrow> t + seconds tf \<le> now) ks
    | Some ss \<Rightarrow> filter (\<lambda>k. case k_ts k of None \<Rightarrow> False | Some t \<Rightarrow>
        (case session_at ss t of None \<Rightarrow> t + seconds tf \<le> now
         | Some s \<Rightarrow> min (t + seconds tf) (s_close s) \<le> now)) (sort_key k_ts ks))"

definition slice_range :: "candle list \<Rightarrow> int \<Rightarrow> int \<Rightarrow> candle list" where
  "slice_range ks start finish = filter (\<lambda>k. case k_ts k of None \<Rightarrow> False | Some t \<Rightarrow> start \<le> t \<and> t < finish) ks"

section \<open>Gaps\<close>

definition MAX_GAP_RANGES :: nat where "MAX_GAP_RANGES = 100"

definition bin_end :: "int \<Rightarrow> timeframe \<Rightarrow> session list option \<Rightarrow> int" where
  "bin_end opens tf sessions = (case sessions of
      None \<Rightarrow> opens + seconds tf
    | Some ss \<Rightarrow> (let i = bisect (\<lambda>i. opens < s_open (ss ! i)) 0 (length ss)
        in if ss \<noteq> [] \<and> 0 < i \<and> opens < s_close (ss ! (i - 1))
           then min (opens + seconds tf) (s_close (ss ! (i - 1))) else opens + seconds tf))"

text \<open>The runs of neighbouring row numbers: a new run starts where the difference is not 1.\<close>

fun runs_of :: "(nat \<times> int) list \<Rightarrow> (nat \<times> int) list list" where
  "runs_of [] = []"
| "runs_of (x # xs) = (case runs_of xs of
      [] \<Rightarrow> [[x]]
    | r # rs \<Rightarrow> if fst (hd r) = fst x + 1 then (x # r) # rs else [x] # r # rs)"

definition find_gaps :: "int list \<Rightarrow> int list \<Rightarrow> timeframe \<Rightarrow> session list option \<Rightarrow> (int \<times> int) list \<times> nat" where
  "find_gaps ts expected tf sessions =
     (let missing = filter (\<lambda>(i, t). t \<notin> set ts) (zip [0..<length expected] expected)
      in (map (\<lambda>r. (snd (hd r), bin_end (snd (last r)) tf sessions)) (take MAX_GAP_RANGES (runs_of missing)),
          length missing))"

section \<open>What to change\<close>

datatype suggestion = EndAt int | UseTimeframe timeframe bool int

definition suggest :: "int \<Rightarrow> int \<Rightarrow> timeframe \<Rightarrow> int \<Rightarrow> session list option \<Rightarrow> suggestion option" where
  "suggest start finish tf maximum sessions =
     (if candle_count start finish tf sessions \<le> maximum then None
      else (let latest = latest_end start finish tf maximum sessions
            in case find (\<lambda>longer. candle_count start finish longer sessions \<le> maximum) (larger tf) of
                 None \<Rightarrow> Some (EndAt latest)
               | Some fitting \<Rightarrow> Some (UseTimeframe fitting (larger fitting \<noteq> []) latest)))"

section \<open>What validation accepts\<close>

definition real_candle :: "int \<Rightarrow> real \<Rightarrow> real \<Rightarrow> real \<Rightarrow> real \<Rightarrow> real \<Rightarrow> candle" where
  "real_candle t o' h l c v = \<lparr>k_ts = Some t, k_open = Some (Fin o'), k_high = Some (Fin h), k_low = Some (Fin l),
     k_close = Some (Fin c), k_volume = Some (Fin v)\<rparr>"

lemma real_candle_simps [simp]:
  "k_ts (real_candle t p h l c v) = Some t" "k_open (real_candle t p h l c v) = Some (Fin p)"
  "k_high (real_candle t p h l c v) = Some (Fin h)" "k_low (real_candle t p h l c v) = Some (Fin l)"
  "k_close (real_candle t p h l c v) = Some (Fin c)" "k_volume (real_candle t p h l c v) = Some (Fin v)"
  by (simp_all add: real_candle_def)

text \<open>A candle with a time, finite positive prices, \<open>low <= open, close <= high\<close> and a volume of 0 or more.\<close>

definition good_candle :: "candle \<Rightarrow> bool" where
  "good_candle k = (\<exists>t p h l c v. k = real_candle t p h l c v \<and> 0 < p \<and> 0 < h \<and> 0 < l \<and> 0 < c \<and>
     l \<le> p \<and> l \<le> c \<and> p \<le> h \<and> c \<le> h \<and> 0 \<le> v)"

definition candle_time :: "candle \<Rightarrow> int" where "candle_time k = the (k_ts k)"

definition valid_candles :: "candle list \<Rightarrow> timeframe option \<Rightarrow> bool" where
  "valid_candles ks tf = ((\<forall>k \<in> set ks. good_candle k) \<and> sorted_wrt (<) (map candle_time ks) \<and>
     (case tf of None \<Rightarrow> True | Some t \<Rightarrow> \<forall>k \<in> set ks. seconds t dvd candle_time k))"

lemma validate_iff:
  "validate H ks tf = Inr u \<longleftrightarrow> (\<forall>rule \<in> set (candle_rules tf). \<forall>i < length ks. \<not> breaks_rule H ks rule i)"
  by (auto simp: validate_def candle_problems_def broken_candles_def filter_empty_conv)

lemma no_missing:
  "\<not> list_ex not_finite (k_values k) \<and> k_ts k \<noteq> None \<longleftrightarrow> (\<exists>t p h l c v. k = real_candle t p h l c v)"
proof
  assume a: "\<not> list_ex not_finite (k_values k) \<and> k_ts k \<noteq> None"
  have fin: "\<exists>x. w = Some (Fin x)" if "\<not> not_finite w" for w
    using that by (auto simp: not_finite_def is_finite_iff split: option.splits)
  show "\<exists>t p h l c v. k = real_candle t p h l c v"
    using a fin by (cases k) (auto simp: k_values_def k_prices_def real_candle_def)
qed (auto simp: k_values_def k_prices_def not_finite_def)

lemma good_candle_iff:
  assumes "horizontal_ok H" "ks ! i = k"
  shows "(\<forall>rule \<in> {MissingOrNonFinite, PriceNotPositive, LowAboveBody, HighBelowBody, NegativeVolume}.
     \<not> breaks_rule H ks rule i) \<longleftrightarrow> good_candle k"
proof (cases "\<exists>t p h l c v. k = real_candle t p h l c v")
  case True
  then obtain t p h l c v where k: "k = real_candle t p h l c v" by blast
  have "\<not> breaks_rule H ks MissingOrNonFinite i"
    by (simp add: breaks_rule_def assms(2) k k_values_def k_prices_def not_finite_def)
  moreover have "\<not> breaks_rule H ks PriceNotPositive i \<longleftrightarrow> 0 < p \<and> 0 < h \<and> 0 < l \<and> 0 < c"
    by (auto simp: breaks_rule_def assms(2) k k_prices_def cmp_def not_le)
  moreover have "\<not> breaks_rule H ks LowAboveBody i \<longleftrightarrow> l \<le> p \<and> l \<le> c"
    using assms(1) by (auto simp: breaks_rule_def assms(2) k cmp_def horizontal_ok_def not_less)
  moreover have "\<not> breaks_rule H ks HighBelowBody i \<longleftrightarrow> p \<le> h \<and> c \<le> h"
    using assms(1) by (auto simp: breaks_rule_def assms(2) k cmp_def horizontal_ok_def not_less)
  moreover have "\<not> breaks_rule H ks NegativeVolume i \<longleftrightarrow> 0 \<le> v"
    by (auto simp: breaks_rule_def assms(2) k cmp_def not_less)
  moreover have "good_candle k \<longleftrightarrow> 0 < p \<and> 0 < h \<and> 0 < l \<and> 0 < c \<and> l \<le> p \<and> l \<le> c \<and> p \<le> h \<and> c \<le> h \<and> 0 \<le> v"
    unfolding good_candle_def k by (auto simp: real_candle_def)
  ultimately show ?thesis by auto
next
  case False
  then have "breaks_rule H ks MissingOrNonFinite i" "\<not> good_candle k"
    using no_missing[of k] by (auto simp: breaks_rule_def assms(2) good_candle_def)
  then show ?thesis by auto
qed

lemma good_candle_ts: "good_candle k \<Longrightarrow> k_ts k = Some (candle_time k)"
  by (auto simp: good_candle_def candle_time_def)

lemma valid_candles_iff:
  assumes "horizontal_ok H" "in_span (map candle_time ks)"
  shows "validate H ks tf = Inr u \<longleftrightarrow> valid_candles ks tf"
proof -
  let ?basic = "{MissingOrNonFinite, PriceNotPositive, LowAboveBody, HighBelowBody, NegativeVolume}"
  have rules: "set (candle_rules tf) = ?basic \<union> {NotAfterPrevious} \<union> (case tf of None \<Rightarrow> {} | Some t \<Rightarrow> {OffGrid t})"
    by (auto simp: candle_rules_def split: option.splits)
  have basic: "(\<forall>rule \<in> ?basic. \<forall>i < length ks. \<not> breaks_rule H ks rule i) \<longleftrightarrow> (\<forall>k \<in> set ks. good_candle k)"
    using good_candle_iff[OF assms(1)] by (metis in_set_conv_nth)
  show ?thesis
  proof (cases "\<forall>k \<in> set ks. good_candle k")
    case False
    then show ?thesis unfolding validate_iff rules using basic by (auto simp: valid_candles_def)
  next
    case True
    then have ts: "k_ts (ks ! i) = Some (candle_time (ks ! i))" if "i < length ks" for i
      using that good_candle_ts by simp
    have "(\<forall>i < length ks. \<not> breaks_rule H ks NotAfterPrevious i) \<longleftrightarrow> sorted_wrt (<) (map candle_time ks)"
    proof -
      have step: "\<not> breaks_rule H ks NotAfterPrevious (Suc j) \<longleftrightarrow>
          0 < wrap64 (candle_time (ks ! Suc j) - candle_time (ks ! j))"
        if "Suc j < length ks" for j
        using that ts[of j] ts[of "Suc j"] by (auto simp: breaks_rule_def Let_def)
      have "\<not> breaks_rule H ks NotAfterPrevious 0" by (simp add: breaks_rule_def Let_def)
      then have "(\<forall>i < length ks. \<not> breaks_rule H ks NotAfterPrevious i) \<longleftrightarrow>
          (\<forall>j. Suc j < length ks \<longrightarrow> \<not> breaks_rule H ks NotAfterPrevious (Suc j))"
        by (metis not0_implies_Suc)
      then have "(\<forall>i < length ks. \<not> breaks_rule H ks NotAfterPrevious i) \<longleftrightarrow> rising64 (map candle_time ks)"
        using step by (simp add: rising64_def)
      then show ?thesis using rising64_iff[OF assms(2)] by blast
    qed
    moreover have "(\<forall>i < length ks. \<not> breaks_rule H ks (OffGrid t) i) \<longleftrightarrow> (\<forall>k \<in> set ks. seconds t dvd candle_time k)" for t
      using ts by (auto simp: breaks_rule_def Let_def Ball_def in_set_conv_nth mod_eq_0_iff_dvd)
    ultimately show ?thesis
      unfolding validate_iff rules using basic True by (auto simp: valid_candles_def split: option.splits)
  qed
qed

section \<open>What resampling keeps\<close>

definition candle_volume :: "candle \<Rightarrow> real" where
  "candle_volume k = (case k_volume k of Some (Fin v) \<Rightarrow> v | _ \<Rightarrow> 0)"

definition total_volume :: "candle list \<Rightarrow> real" where
  "total_volume ks = sum_list (map candle_volume ks)"

lemma mono_Fin: "mono Fin"
  by (simp add: mono_def)

lemma agg_extreme_Fin:
  assumes "xs \<noteq> []"
  shows "agg_extreme Max (map (\<lambda>x. Some (Fin (f x))) xs) = Some (Fin (Max (f ` set xs)))"
    "agg_extreme Min (map (\<lambda>x. Some (Fin (f x))) xs) = Some (Fin (Min (f ` set xs)))"
proof -
  have p: "present (map (\<lambda>x. Some (Fin (f x))) xs) = map (\<lambda>x. Fin (f x)) xs"
    by (induction xs) (simp_all add: present_def)
  have n: "filter (\<lambda>x. x \<noteq> NaN) (map (\<lambda>x. Fin (f x)) xs) = map (\<lambda>x. Fin (f x)) xs"
    by (simp add: filter_map comp_def)
  have "Fin (Max (f ` set xs)) = Max (Fin ` f ` set xs)" "Fin (Min (f ` set xs)) = Min (Fin ` f ` set xs)"
    using assms by (simp_all add: mono_Max_commute[OF mono_Fin] mono_Min_commute[OF mono_Fin])
  then show "agg_extreme Max (map (\<lambda>x. Some (Fin (f x))) xs) = Some (Fin (Max (f ` set xs)))"
    "agg_extreme Min (map (\<lambda>x. Some (Fin (f x))) xs) = Some (Fin (Min (f ` set xs)))"
    using assms by (simp_all add: agg_extreme_def p n image_image)
qed

lemma agg_sum_Fin: "agg_sum (map (\<lambda>x. Some (Fin (f x))) xs) = Some (Fin (\<Sum>x\<leftarrow>xs. f x))"
proof -
  have "foldl fl_add (Fin a) (present (map (\<lambda>x. Some (Fin (f x))) xs)) = Fin (a + (\<Sum>x\<leftarrow>xs. f x))" for a
    by (induction xs arbitrary: a) (simp_all add: present_def fl_add_def)
  from this[of 0] show ?thesis by (simp add: agg_sum_def)
qed

text \<open>One bin: its bar is a good candle whose prices and volume come from its candles.\<close>

lemma good_bar:
  assumes "\<forall>k \<in> set ks. good_candle k" "ks \<noteq> []"
  shows "good_candle (bar_of (Some t) ks) \<and> candle_time (bar_of (Some t) ks) = t \<and>
    candle_volume (bar_of (Some t) ks) = total_volume ks"
proof -
  define P where "P = (\<lambda>k :: candle. fin_val (the (k_open k)))"
  define Hi where "Hi = (\<lambda>k :: candle. fin_val (the (k_high k)))"
  define Lo where "Lo = (\<lambda>k :: candle. fin_val (the (k_low k)))"
  define C where "C = (\<lambda>k :: candle. fin_val (the (k_close k)))"
  define V where "V = (\<lambda>k :: candle. fin_val (the (k_volume k)))"
  have good: "k_open k = Some (Fin (P k)) \<and> k_high k = Some (Fin (Hi k)) \<and> k_low k = Some (Fin (Lo k)) \<and>
      k_close k = Some (Fin (C k)) \<and> k_volume k = Some (Fin (V k)) \<and> 0 < P k \<and> 0 < Hi k \<and> 0 < Lo k \<and> 0 < C k \<and>
      Lo k \<le> P k \<and> Lo k \<le> C k \<and> P k \<le> Hi k \<and> C k \<le> Hi k \<and> 0 \<le> V k" if "k \<in> set ks" for k
    using assms(1) that by (fastforce simp: good_candle_def P_def Hi_def Lo_def C_def V_def)
  have ends: "hd ks \<in> set ks" "last ks \<in> set ks" using assms(2) by simp_all
  have maps: "map k_high ks = map (\<lambda>k. Some (Fin (Hi k))) ks" "map k_low ks = map (\<lambda>k. Some (Fin (Lo k))) ks"
      "map k_volume ks = map (\<lambda>k. Some (Fin (V k))) ks"
    using good by simp_all
  have vol: "total_volume ks = (\<Sum>k\<leftarrow>ks. V k)"
    unfolding total_volume_def by (intro arg_cong[of _ _ sum_list] map_cong refl) (simp add: candle_volume_def good)
  have bar: "bar_of (Some t) ks = real_candle t (P (hd ks)) (Max (Hi ` set ks)) (Min (Lo ` set ks)) (C (last ks)) (\<Sum>k\<leftarrow>ks. V k)"
    using good ends unfolding bar_of_def maps agg_extreme_Fin[OF assms(2)] agg_sum_Fin by (simp add: real_candle_def)
  have "P (hd ks) \<le> Max (Hi ` set ks)" "C (last ks) \<le> Max (Hi ` set ks)"
    using good ends by (meson Max_ge finite_imageI finite_set imageI order_trans)+
  moreover have "Min (Lo ` set ks) \<le> P (hd ks)" "Min (Lo ` set ks) \<le> C (last ks)"
    using good ends by (meson Min_le finite_imageI finite_set imageI order_trans)+
  moreover have "0 < Min (Lo ` set ks)" using good assms(2) by simp
  moreover have "0 \<le> (\<Sum>k\<leftarrow>ks. V k)" using good by (intro sum_list_nonneg) auto
  moreover have "0 < P (hd ks)" "0 < C (last ks)" using good ends by blast+
  ultimately show ?thesis
    unfolding bar good_candle_def vol by (force simp: candle_time_def candle_volume_def)
qed

lemma sum_over_groups:
  fixes f :: "'a \<Rightarrow> real"
  assumes "distinct ts" "g ` set xs \<subseteq> set ts"
  shows "(\<Sum>t\<leftarrow>ts. \<Sum>x\<leftarrow>filter (\<lambda>x. g x = t) xs. f x) = (\<Sum>x\<leftarrow>xs. f x)"
  using assms(2)
proof (induction xs)
  case (Cons x xs)
  have "(\<Sum>t\<leftarrow>ts. \<Sum>y\<leftarrow>filter (\<lambda>y. g y = t) (x # xs). f y) =
      (\<Sum>t\<leftarrow>ts. (if t = g x then f x else 0) + (\<Sum>y\<leftarrow>filter (\<lambda>y. g y = t) xs. f y))"
    by (intro arg_cong[of _ _ sum_list] map_cong refl) auto
  also have "\<dots> = (\<Sum>t\<leftarrow>ts. if t = g x then f x else 0) + (\<Sum>y\<leftarrow>xs. f y)"
    using Cons by (simp add: sum_list_addf)
  also have "(\<Sum>t\<leftarrow>ts. if t = g x then f x else 0) = f x"
    using assms(1) Cons.prems by (simp add: sum_list_distinct_conv_sum_set)
  finally show ?case by simp
qed simp

lemma aggregate_valid:
  assumes "\<forall>k \<in> set ks. good_candle k" "sorted (map candle_time ks)"
  shows "valid_candles (aggregate ks) None" "candle_time ` set (aggregate ks) = candle_time ` set ks"
    "total_volume (aggregate ks) = total_volume ks"
proof -
  have ts: "map k_ts ks = map (\<lambda>k. Some (candle_time k)) ks" using assms(1) good_candle_ts by simp
  define keys where "keys = first_seen (map k_ts ks)"
  have group: "filter (\<lambda>k. k_ts k = t) ks \<noteq> []" "t = Some (candle_time (hd (filter (\<lambda>k. k_ts k = t) ks)))"
    if "t \<in> set keys" for t
  proof -
    from that obtain k where "k \<in> set ks" "k_ts k = t" by (auto simp: keys_def)
    then show ne: "filter (\<lambda>k. k_ts k = t) ks \<noteq> []" by (auto simp: filter_empty_conv)
    then have "hd (filter (\<lambda>k. k_ts k = t) ks) \<in> set (filter (\<lambda>k. k_ts k = t) ks)" by (rule hd_in_set)
    then show "t = Some (candle_time (hd (filter (\<lambda>k. k_ts k = t) ks)))" using assms(1) good_candle_ts by auto
  qed
  have bar: "good_candle (bar_of t (filter (\<lambda>k. k_ts k = t) ks))"
      "Some (candle_time (bar_of t (filter (\<lambda>k. k_ts k = t) ks))) = t"
      "candle_volume (bar_of t (filter (\<lambda>k. k_ts k = t) ks)) = total_volume (filter (\<lambda>k. k_ts k = t) ks)"
    if t: "t \<in> set keys" for t
  proof -
    obtain n where n: "t = Some n" using group(2)[OF t] by blast
    have "\<forall>k \<in> set (filter (\<lambda>k. k_ts k = t) ks). good_candle k" using assms(1) by simp
    from good_bar[OF this group(1)[OF t], of n] show
      "good_candle (bar_of t (filter (\<lambda>k. k_ts k = t) ks))"
      "Some (candle_time (bar_of t (filter (\<lambda>k. k_ts k = t) ks))) = t"
      "candle_volume (bar_of t (filter (\<lambda>k. k_ts k = t) ks)) = total_volume (filter (\<lambda>k. k_ts k = t) ks)"
      by (simp_all add: n)
  qed
  have agg: "aggregate ks = map (\<lambda>t. bar_of t (filter (\<lambda>k. k_ts k = t) ks)) keys"
    by (simp add: aggregate_def keys_def)
  have times: "map Some (map candle_time (aggregate ks)) = keys"
    unfolding agg map_map by (rule map_idI) (simp add: bar(2))
  have "sorted (map k_ts ks)" unfolding ts using assms(2) by (simp add: sorted_map comp_def)
  then have "sorted_wrt (<) (map Some (map candle_time (aggregate ks)))"
    unfolding times keys_def by (rule sorted_first_seen)
  then have "sorted_wrt (<) (map candle_time (aggregate ks))" by (simp add: sorted_wrt_map)
  moreover have "\<forall>k \<in> set (aggregate ks). good_candle k" unfolding agg using bar(1) by auto
  ultimately show "valid_candles (aggregate ks) None" by (simp add: valid_candles_def)
  have "Some ` candle_time ` set (aggregate ks) = set keys" using arg_cong[OF times, of set] by (simp add: image_image)
  also have "set keys = Some ` candle_time ` set ks" unfolding keys_def ts by (simp add: image_image)
  finally show "candle_time ` set (aggregate ks) = candle_time ` set ks" by (simp add: inj_image_eq_iff)
  have "total_volume (aggregate ks) = (\<Sum>t\<leftarrow>keys. \<Sum>k\<leftarrow>filter (\<lambda>k. k_ts k = t) ks. candle_volume k)"
    unfolding total_volume_def agg map_map
    by (intro arg_cong[of _ _ sum_list] map_cong refl) (simp add: bar(3) total_volume_def)
  also have "\<dots> = total_volume ks"
    unfolding total_volume_def by (rule sum_over_groups) (auto simp: keys_def)
  finally show "total_volume (aggregate ks) = total_volume ks" .
qed

lemma retime_good: "good_candle k \<Longrightarrow> good_candle (k\<lparr>k_ts := Some t\<rparr>) \<and> candle_time (k\<lparr>k_ts := Some t\<rparr>) = t \<and>
    candle_volume (k\<lparr>k_ts := Some t\<rparr>) = candle_volume k"
  unfolding good_candle_def candle_time_def candle_volume_def by (fastforce simp: real_candle_def)

lemma valid_sorted: "valid_candles ks tf \<Longrightarrow> sort_key k_ts ks = ks"
proof -
  assume v: "valid_candles ks tf"
  then have eq: "map k_ts ks = map Some (map candle_time ks)" using good_candle_ts by (simp add: valid_candles_def)
  have "sorted (map Some xs)" if "sorted xs" for xs :: "int list" using that by (simp add: sorted_map)
  moreover have "sorted (map candle_time ks)" using v by (simp add: valid_candles_def strict_sorted_iff)
  ultimately have "sorted (map k_ts ks)" unfolding eq by blast
  then show ?thesis by (rule sort_key_id_if_sorted)
qed

lemma resample_fixed_valid:
  assumes "valid_candles ks None"
  shows "valid_candles (resample_fixed ks tf) (Some tf)"
    "candle_time ` set (resample_fixed ks tf) = (\<lambda>k. candle_time k div seconds tf * seconds tf) ` set ks"
    "total_volume (resample_fixed ks tf) = total_volume ks"
proof -
  let ?f = "\<lambda>k. k\<lparr>k_ts := Some (candle_time k div seconds tf * seconds tf)\<rparr>"
  have good: "\<forall>k \<in> set ks. good_candle k" using assms by (simp add: valid_candles_def)
  have eq: "resample_fixed ks tf = aggregate (map ?f ks)"
    unfolding resample_fixed_def valid_sorted[OF assms] using good good_candle_ts by (simp cong: map_cong)
  have good': "\<forall>k \<in> set (map ?f ks). good_candle k" using good retime_good by auto
  have times: "map candle_time (map ?f ks) = map (\<lambda>t. t div seconds tf * seconds tf) (map candle_time ks)"
    using good retime_good by simp
  have sorted: "sorted (map candle_time (map ?f ks))"
    unfolding times using assms
    by (intro sorted_map_mono) (auto simp: valid_candles_def strict_sorted_iff mono_on_def intro: zdiv_mono1 mult_right_mono)
  note agg = aggregate_valid[OF good' sorted, folded eq]
  show tms: "candle_time ` set (resample_fixed ks tf) = (\<lambda>k. candle_time k div seconds tf * seconds tf) ` set ks"
    unfolding agg(2) using arg_cong[OF times, of set] by (simp add: image_image)
  have "seconds tf dvd candle_time k" if "k \<in> set (resample_fixed ks tf)" for k
  proof -
    have "candle_time k \<in> (\<lambda>k. candle_time k div seconds tf * seconds tf) ` set ks" using that tms by blast
    then show ?thesis by auto
  qed
  then show "valid_candles (resample_fixed ks tf) (Some tf)" using agg(1) by (simp add: valid_candles_def)
  have "map candle_volume (map ?f ks) = map candle_volume ks" using good retime_good by simp
  then show "total_volume (resample_fixed ks tf) = total_volume ks" using agg(3) unfolding total_volume_def by metis
qed

text \<open>The session a moment is in.\<close>

lemma sorted_sessions: "wf_sessions ss \<Longrightarrow> sort_key s_open ss = ss"
proof -
  assume wf: "wf_sessions ss"
  have "s_open (ss ! i) \<le> s_open (ss ! j)" if "i < j" "j < length ss" for i j
    using wf_sessions_nth[OF wf that] by linarith
  then have "sorted (map s_open ss)" by (simp add: sorted_wrt_map sorted_wrt_iff_nth_less)
  then show ?thesis by (rule sort_key_id_if_sorted)
qed

lemma session_at_in:
  assumes "wf_sessions ss" "s \<in> set ss" "s_open s \<le> t" "t < s_close s"
  shows "session_at ss t = Some s"
proof -
  obtain i where i: "i < length ss" "ss ! i = s" using assms(2) by (auto simp: in_set_conv_nth)
  have split: "ss = take i ss @ s # drop (Suc i) ss" using i id_take_nth_drop by blast
  have "\<not> s_open x \<le> t" if "x \<in> set (drop (Suc i) ss)" for x
  proof -
    have "wf_sessions (s # drop (Suc i) ss)"
      using wf_sessions_drop[OF assms(1), of i] unfolding Cons_nth_drop_Suc[OF i(1), symmetric] i(2) .
    then have "s_close s \<le> s_open x" using that by (simp add: wf_sessions_Cons)
    then show ?thesis using assms(4) by linarith
  qed
  then have "filter (\<lambda>x. s_open x \<le> t) (drop (Suc i) ss) = []" by (simp add: filter_empty_conv)
  then have "filter (\<lambda>x. s_open x \<le> t) ss = filter (\<lambda>x. s_open x \<le> t) (take i ss) @ [s]"
    using assms(3) by (subst split) simp
  then show ?thesis by (simp add: session_at_def sorted_sessions[OF assms(1)])
qed

lemma session_at_Some: "session_at ss t = Some s \<Longrightarrow> s \<in> set ss \<and> s_open s \<le> t"
proof -
  assume a: "session_at ss t = Some s"
  define before where "before = filter (\<lambda>x. s_open x \<le> t) (sort_key s_open ss)"
  have "before \<noteq> []" "s = last before" using a unfolding session_at_def before_def[symmetric] Let_def
    by (simp_all split: if_splits)
  then have "s \<in> set before" by simp
  then show ?thesis by (simp add: before_def)
qed

lemma session_at_max:
  assumes "session_at ss t = Some s" "x \<in> set ss" "s_open x \<le> t"
  shows "s_open x \<le> s_open s"
proof -
  define before where "before = filter (\<lambda>x. s_open x \<le> t) (sort_key s_open ss)"
  have ne: "before \<noteq> []" and s: "s = last before" using assms(1) unfolding session_at_def before_def[symmetric] Let_def
    by (simp_all split: if_splits)
  have "sorted_wrt (\<lambda>a b. s_open a \<le> s_open b) (sort_key s_open ss)"
    using sorted_sort_key[of s_open ss] by (simp add: sorted_map)
  then have "sorted (map s_open before)" unfolding before_def sorted_map by (rule sorted_wrt_filter)
  moreover have "x \<in> set before" using assms(2,3) by (simp add: before_def)
  moreover have "before = butlast before @ [s]" using ne s by simp
  ultimately have "sorted (map s_open (butlast before @ [s]))" "x \<in> set (butlast before @ [s])" by metis+
  then show ?thesis by (auto simp: sorted_append)
qed

text \<open>The open of the bin that holds a moment of a session.\<close>

definition bin_start :: "timeframe \<Rightarrow> session \<Rightarrow> int \<Rightarrow> int" where
  "bin_start tf s t = s_open s + (t - s_open s) div seconds tf * seconds tf"

lemma bin_start_bounds:
  assumes "s_open s \<le> t"
  shows "s_open s \<le> bin_start tf s t" "bin_start tf s t \<le> t"
proof -
  have "(t - s_open s) div seconds tf * seconds tf \<le> t - s_open s"
  proof -
    have "0 \<le> (t - s_open s) mod seconds tf" by simp
    then show ?thesis using div_mult_mod_eq[of "t - s_open s" "seconds tf"] by linarith
  qed
  then show "bin_start tf s t \<le> t" by (simp add: bin_start_def)
  have "0 \<le> (t - s_open s) div seconds tf" using assms by (simp add: pos_imp_zdiv_nonneg_iff)
  then have "0 \<le> (t - s_open s) div seconds tf * seconds tf"
    using seconds_pos[of tf] by (intro mult_nonneg_nonneg) linarith+
  then show "s_open s \<le> bin_start tf s t" by (simp add: bin_start_def)
qed

lemma bin_start_mono: "t \<le> t' \<Longrightarrow> bin_start tf s t \<le> bin_start tf s t'"
  by (simp add: bin_start_def zdiv_mono1)

lemma session_bin_good:
  assumes "good_candle k"
  shows "session_bin tf ss k = (case session_at ss (candle_time k) of None \<Rightarrow> None
     | Some s \<Rightarrow> if candle_time k < s_close s then Some (k\<lparr>k_ts := Some (bin_start tf s (candle_time k))\<rparr>) else None)"
  using good_candle_ts[OF assms] by (simp add: session_bin_def bin_start_def split: option.split)

lemma session_bin_order:
  assumes "wf_sessions ss" "session_at ss t = Some s" "t < s_close s" "session_at ss t' = Some s'" "t \<le> t'"
  shows "bin_start tf s t \<le> bin_start tf s' t'"
proof (cases "s = s'")
  case True
  then show ?thesis using bin_start_mono assms(5) by simp
next
  case False
  note s = session_at_Some[OF assms(2)] session_at_Some[OF assms(4)]
  have le: "s_open s \<le> s_open s'" using session_at_max[OF assms(4)] s assms(5) by auto
  obtain i j where ij: "i < length ss" "ss ! i = s" "j < length ss" "ss ! j = s'"
    using s by (auto simp: in_set_conv_nth)
  have "i \<noteq> j" using False ij by blast
  moreover have "\<not> j < i" using wf_sessions_nth[OF assms(1), of j i] ij le by auto
  ultimately have "s_close s \<le> s_open s'" using wf_sessions_nth(1)[OF assms(1), of i j] ij by auto
  then show ?thesis
    using bin_start_bounds[of s t tf] bin_start_bounds[of s' t' tf] s assms(3) by linarith
qed

lemma in_map_filter: "y \<in> set (List.map_filter f xs) \<longleftrightarrow> (\<exists>x \<in> set xs. f x = Some y)"
  by (induction xs) (auto simp: map_filter_simps split: option.split)

lemma sorted_map_filter:
  assumes "sorted (map g xs)" "\<And>a b a' b'. f a = Some a' \<Longrightarrow> f b = Some b' \<Longrightarrow> a \<in> set xs \<Longrightarrow> b \<in> set xs \<Longrightarrow> g a \<le> g b \<Longrightarrow> h a' \<le> h b'"
  shows "sorted (map h (List.map_filter f xs))"
  using assms
proof (induction xs)
  case (Cons x xs)
  have "h a' \<le> h b'" if "f x = Some a'" "b \<in> set xs" "f b = Some b'" for a' b b'
    using Cons.prems(2)[of x a' b b'] Cons.prems(1) that by simp
  moreover have "sorted (map h (List.map_filter f xs))" using Cons.prems by (intro Cons.IH) auto
  ultimately show ?case by (auto simp: map_filter_simps in_map_filter split: option.split)
qed (simp add: map_filter_simps)

lemma resample_sessions_valid:
  assumes valid: "valid_candles ks None" and wf: "wf_sessions ss"
  shows "valid_candles (resample_sessions ks tf ss) None"
    "candle_time ` set (resample_sessions ks tf ss) =
       {bin_start tf s (candle_time k) | k s. k \<in> set ks \<and> s \<in> set ss \<and> s_open s \<le> candle_time k \<and> candle_time k < s_close s}"
    "total_volume (resample_sessions ks tf ss) =
       total_volume (filter (\<lambda>k. \<exists>s \<in> set ss. s_open s \<le> candle_time k \<and> candle_time k < s_close s) ks)"
proof -
  let ?b = "session_bin tf ss"
  have good: "\<forall>k \<in> set ks. good_candle k" using valid by (simp add: valid_candles_def)
  have bin: "?b k = Some k' \<longleftrightarrow> (\<exists>s \<in> set ss. s_open s \<le> candle_time k \<and> candle_time k < s_close s \<and>
      k' = k\<lparr>k_ts := Some (bin_start tf s (candle_time k))\<rparr>)" (is "?l \<longleftrightarrow> ?r") if k: "k \<in> set ks" for k k'
  proof
    assume ?l
    then obtain s where "session_at ss (candle_time k) = Some s" "candle_time k < s_close s"
        "k' = k\<lparr>k_ts := Some (bin_start tf s (candle_time k))\<rparr>"
      using session_bin_good good k by (auto split: option.splits if_splits)
    then show ?r using session_at_Some by blast
  next
    assume ?r
    then obtain s where "s \<in> set ss" "s_open s \<le> candle_time k" "candle_time k < s_close s"
        "k' = k\<lparr>k_ts := Some (bin_start tf s (candle_time k))\<rparr>"
      by blast
    then show ?l using session_bin_good good k session_at_in[OF wf] by simp
  qed
  have binD: "good_candle k' \<and> candle_volume k' = candle_volume k \<and> (\<exists>s \<in> set ss. s_open s \<le> candle_time k \<and>
      candle_time k < s_close s \<and> candle_time k' = bin_start tf s (candle_time k))"
    if k: "k \<in> set ks" "?b k = Some k'" for k k'
  proof -
    have g: "good_candle k" using good k(1) by blast
    from k obtain s where "s \<in> set ss" "s_open s \<le> candle_time k" "candle_time k < s_close s"
        "k' = k\<lparr>k_ts := Some (bin_start tf s (candle_time k))\<rparr>"
      using bin[OF k(1)] by blast
    then show ?thesis using retime_good[OF g] by blast
  qed
  have eq: "resample_sessions ks tf ss = aggregate (List.map_filter ?b ks)"
    by (simp add: resample_sessions_def valid_sorted[OF valid])
  have good': "\<forall>k \<in> set (List.map_filter ?b ks). good_candle k"
  proof
    fix k' assume "k' \<in> set (List.map_filter ?b ks)"
    then obtain k where "k \<in> set ks" "?b k = Some k'" by (auto simp: in_map_filter)
    then show "good_candle k'" using binD by blast
  qed
  have sorted: "sorted (map candle_time (List.map_filter ?b ks))"
  proof (rule sorted_map_filter[where g = candle_time])
    show "sorted (map candle_time ks)" using valid by (simp add: valid_candles_def strict_sorted_iff)
    fix a b a' b' assume f: "?b a = Some a'" "?b b = Some b'" "a \<in> set ks" "b \<in> set ks" "candle_time a \<le> candle_time b"
    obtain s s' where "session_at ss (candle_time a) = Some s" "candle_time a < s_close s"
        "a' = a\<lparr>k_ts := Some (bin_start tf s (candle_time a))\<rparr>" "session_at ss (candle_time b) = Some s'"
        "b' = b\<lparr>k_ts := Some (bin_start tf s' (candle_time b))\<rparr>"
      using f(1-4) good session_bin_good by (auto split: option.splits if_splits)
    then show "candle_time a' \<le> candle_time b'"
      using session_bin_order[OF wf _ _ _ f(5)] good retime_good f(3,4) by simp
  qed
  note agg = aggregate_valid[OF good' sorted, folded eq]
  show "valid_candles (resample_sessions ks tf ss) None" by (rule agg(1))
  show "candle_time ` set (resample_sessions ks tf ss) =
       {bin_start tf s (candle_time k) | k s. k \<in> set ks \<and> s \<in> set ss \<and> s_open s \<le> candle_time k \<and> candle_time k < s_close s}"
  proof (intro set_eqI iffI)
    fix t assume "t \<in> candle_time ` set (resample_sessions ks tf ss)"
    then obtain k k' where "k \<in> set ks" "?b k = Some k'" "t = candle_time k'"
      unfolding agg(2) by (auto simp: in_map_filter)
    then show "t \<in> {bin_start tf s (candle_time k) | k s. k \<in> set ks \<and> s \<in> set ss \<and> s_open s \<le> candle_time k \<and>
        candle_time k < s_close s}"
      using binD[of k k'] by blast
  next
    fix t assume "t \<in> {bin_start tf s (candle_time k) | k s. k \<in> set ks \<and> s \<in> set ss \<and> s_open s \<le> candle_time k \<and>
        candle_time k < s_close s}"
    then obtain k s where k: "k \<in> set ks" "s \<in> set ss" "s_open s \<le> candle_time k" "candle_time k < s_close s"
        "t = bin_start tf s (candle_time k)"
      by blast
    define k' where "k' = k\<lparr>k_ts := Some t\<rparr>"
    have "?b k = Some k'" using bin[OF k(1)] k(2-5) by (auto simp: k'_def)
    moreover have "candle_time k' = t" using good k(1) retime_good by (simp add: k'_def)
    moreover from calculation k(1) have "k' \<in> set (List.map_filter ?b ks)" by (auto simp: in_map_filter)
    ultimately show "t \<in> candle_time ` set (resample_sessions ks tf ss)" unfolding agg(2) by blast
  qed
  have vol: "(\<Sum>k\<leftarrow>List.map_filter ?b xs. candle_volume k) =
      (\<Sum>k\<leftarrow>filter (\<lambda>k. \<exists>s \<in> set ss. s_open s \<le> candle_time k \<and> candle_time k < s_close s) xs. candle_volume k)"
    if "set xs \<subseteq> set ks" for xs
    using that
  proof (induction xs)
    case (Cons k xs)
    show ?case
    proof (cases "?b k")
      case None
      then show ?thesis using Cons bin[of k] by (auto simp: map_filter_simps)
    next
      case (Some k')
      then have "candle_volume k' = candle_volume k" "\<exists>s \<in> set ss. s_open s \<le> candle_time k \<and> candle_time k < s_close s"
        using binD[of k k'] Cons.prems by auto
      then show ?thesis using Cons Some by (simp add: map_filter_simps)
    qed
  qed (simp add: map_filter_simps)
  show "total_volume (resample_sessions ks tf ss) =
       total_volume (filter (\<lambda>k. \<exists>s \<in> set ss. s_open s \<le> candle_time k \<and> candle_time k < s_close s) ks)"
    unfolding agg(3) using vol[of ks] by (simp add: total_volume_def)
qed

lemma floor_in_epoch:
  assumes "0 \<le> t" "t < 2 ^ 63"
  shows "0 \<le> t div seconds tf * seconds tf" "t div seconds tf * seconds tf < 2 ^ 63"
proof -
  show "0 \<le> t div seconds tf * seconds tf"
    using assms(1) seconds_pos[of tf] by (intro mult_nonneg_nonneg) (simp_all add: pos_imp_zdiv_nonneg_iff less_imp_le)
  have "0 \<le> t mod seconds tf" using seconds_pos[of tf] by simp
  then have "t div seconds tf * seconds tf \<le> t" using div_mult_mod_eq[of t "seconds tf"] by linarith
  then show "t div seconds tf * seconds tf < 2 ^ 63" using assms(2) by linarith
qed

lemma bin_start_in_epoch:
  assumes "0 \<le> s_open s" "s_open s \<le> t" "t < 2 ^ 63"
  shows "0 \<le> bin_start tf s t" "bin_start tf s t < 2 ^ 63"
  using bin_start_bounds[OF assms(2), of tf] assms(1,3) by linarith+

text \<open>C18: resampling candles of 1970 or later that pass the validation gives candles that pass it: in fixed
  bins also the check of the UTC grid. There is one candle per bin that has data, at the open of the bin, and the
  volumes add up; session bins leave out exactly the candles outside every session.\<close>

theorem resample_keeps_valid:
  assumes "horizontal_ok H" "validate H ks None = Inr ()" "wf_sessions ss"
    and "\<forall>k \<in> set ks. 0 \<le> candle_time k \<and> candle_time k < 2 ^ 63" "\<forall>s \<in> set ss. 0 \<le> s_open s"
  shows "validate H (resample_fixed ks tf) (Some tf) = Inr () \<and>
    candle_time ` set (resample_fixed ks tf) = (\<lambda>k. candle_time k div seconds tf * seconds tf) ` set ks \<and>
    total_volume (resample_fixed ks tf) = total_volume ks \<and>
    validate H (resample_sessions ks tf ss) None = Inr () \<and>
    candle_time ` set (resample_sessions ks tf ss) = {bin_start tf s (candle_time k) | k s.
      k \<in> set ks \<and> s \<in> set ss \<and> s_open s \<le> candle_time k \<and> candle_time k < s_close s} \<and>
    total_volume (resample_sessions ks tf ss) =
      total_volume (filter (\<lambda>k. \<exists>s \<in> set ss. s_open s \<le> candle_time k \<and> candle_time k < s_close s) ks)"
proof -
  have "in_span (map candle_time ks)" using assms(4) by (intro in_span_from_epoch) auto
  then have v: "valid_candles ks None" using assms(2) valid_candles_iff[OF assms(1)] by blast
  note fixed = resample_fixed_valid[OF v, of tf] and sess = resample_sessions_valid[OF v assms(3), of tf]
  have "0 \<le> t \<and> t < 2 ^ 63" if "t \<in> candle_time ` set (resample_fixed ks tf)" for t
    using that assms(4) floor_in_epoch unfolding fixed(2) by blast
  then have "in_span (map candle_time (resample_fixed ks tf))" by (intro in_span_from_epoch) auto
  then have "validate H (resample_fixed ks tf) (Some tf) = Inr ()"
    using fixed(1) valid_candles_iff[OF assms(1)] by blast
  moreover have "0 \<le> t \<and> t < 2 ^ 63" if "t \<in> candle_time ` set (resample_sessions ks tf ss)" for t
    using that assms(4,5) bin_start_in_epoch unfolding sess(2) by blast
  then have "in_span (map candle_time (resample_sessions ks tf ss))" by (intro in_span_from_epoch) auto
  then have "validate H (resample_sessions ks tf ss) None = Inr ()"
    using sess(1) valid_candles_iff[OF assms(1)] by blast
  ultimately show ?thesis using fixed(2,3) sess(2,3) by simp
qed

definition example_horizontal :: horizontal where
  "example_horizontal = \<lparr>h_min = (\<lambda>a b. case (a, b) of (Some x, Some y) \<Rightarrow> Some (min x y) | _ \<Rightarrow> None),
     h_max = (\<lambda>a b. case (a, b) of (Some x, Some y) \<Rightarrow> Some (max x y) | _ \<Rightarrow> None)\<rparr>"

lemma example_horizontal_ok: "horizontal_ok example_horizontal"
  by (auto simp: horizontal_ok_def example_horizontal_def min_def max_def)

theorem resample_keeps_valid_witness:
  "validate example_horizontal (resample_fixed [real_candle 3660 1 2 1 2 5, real_candle 3720 2 3 1 1 6] H1) (Some H1) = Inr () \<and>
   total_volume (resample_fixed [real_candle 3660 1 2 1 2 5, real_candle 3720 2 3 1 1 6] H1) = 11"
proof -
  let ?ks = "[real_candle 3660 1 2 1 2 5, real_candle 3720 2 3 1 1 6]"
  have "valid_candles ?ks None"
    by (simp add: valid_candles_def candle_time_def good_candle_def real_candle_def)
  then have v: "validate example_horizontal ?ks None = Inr ()"
    by (subst valid_candles_iff[OF example_horizontal_ok]) (simp_all add: in_span_def candle_time_def)
  have "total_volume ?ks = 11" by (simp add: total_volume_def candle_volume_def)
  with resample_keeps_valid[OF example_horizontal_ok v, of "[]" H1] show ?thesis
    by (simp add: wf_sessions_def candle_time_def)
qed

end
