(* ===== verification/DataFingerprint.thy ===== *)
theory DataFingerprint
  imports DataCandles
begin

text \<open>
  \<open>fingerprint\<close> of \<open>data/candles.py\<close>: the bytes that are hashed. A byte is a \<open>char\<close>. SHA-256 (with its
  hex digits) and the eight IEEE bytes of a float are parameters; the layout is shown to be
  injective, so two different requests or candle sets never feed the same bytes to the hash.
\<close>

section \<open>The bytes\<close>

fun be_bytes :: "nat \<Rightarrow> nat \<Rightarrow> string" where
  "be_bytes 0 n = []"
| "be_bytes (Suc k) n = be_bytes k (n div 256) @ [char_of (n mod 256)]"

text \<open>\<open>struct.pack(">q", i)\<close>: 64 bits of two's complement, most significant byte first.\<close>

definition int64_bytes :: "int \<Rightarrow> string" where
  "int64_bytes i = be_bytes 8 (nat (i mod 2 ^ 64))"

definition FINGERPRINT_VERSION :: string where
  "FINGERPRINT_VERSION = ''candlestack-candles-v1'' @ [CHR 0x0A]"

definition line :: "string \<Rightarrow> string" where
  "line s = s @ [CHR 0x0A]"

definition fingerprint_columns :: "(candle \<Rightarrow> fl option) list" where
  "fingerprint_columns = [k_open, k_high, k_low, k_close, k_volume]"

text \<open>A missing value cannot be packed.\<close>

definition fingerprint_message :: "(fl \<Rightarrow> string) \<Rightarrow> string \<Rightarrow> string \<Rightarrow> string \<Rightarrow> string \<Rightarrow> int \<Rightarrow> int \<Rightarrow>
    candle list \<Rightarrow> string option" where
  "fingerprint_message ieee source feed instrument tf start finish ks =
     (let frame = sort_key k_ts ks
      in if list_ex (\<lambda>k. k_ts k = None \<or> list_ex (\<lambda>v. v = None) (k_values k)) frame then None
         else Some (FINGERPRINT_VERSION @
           concat (map line [source, feed, instrument, tf, show_int start, show_int finish, show_nat (length frame)]) @
           concat (map (\<lambda>k. int64_bytes (candle_time k)) frame) @
           concat (map (\<lambda>column. concat (map (\<lambda>k. ieee (the (column k))) frame)) fingerprint_columns)))"

definition fingerprint :: "(string \<Rightarrow> string) \<Rightarrow> (fl \<Rightarrow> string) \<Rightarrow> string \<Rightarrow> string \<Rightarrow> instrument_id \<Rightarrow> timeframe \<Rightarrow>
    int \<Rightarrow> int \<Rightarrow> candle list \<Rightarrow> string option" where
  "fingerprint sha ieee source feed instrument tf start finish ks =
     map_option (\<lambda>m. ''sha256:'' @ sha m)
       (fingerprint_message ieee source feed (show_id instrument) (timeframe_name tf) start finish ks)"

section \<open>The layout is injective\<close>

lemma length_be_bytes [simp]: "length (be_bytes k n) = k"
  by (induction k arbitrary: n) simp_all

lemma be_bytes_inj: "be_bytes k m = be_bytes k n \<Longrightarrow> m < 256 ^ k \<Longrightarrow> n < 256 ^ k \<Longrightarrow> m = n"
proof (induction k arbitrary: m n)
  case (Suc k)
  then have "be_bytes k (m div 256) = be_bytes k (n div 256)" "char_of (m mod 256) = (char_of (n mod 256) :: char)"
    by simp_all
  moreover from this(2) have "m mod 256 = n mod 256"
    using code_char_of[of "m mod 256"] code_char_of[of "n mod 256"] by simp
  moreover have "m div 256 < 256 ^ k" "n div 256 < 256 ^ k" using Suc.prems by (auto simp: less_mult_imp_div_less mult.commute)
  ultimately show ?case using Suc.IH by (metis div_mult_mod_eq)
qed simp

lemma length_int64_bytes [simp]: "length (int64_bytes i) = 8"
  by (simp add: int64_bytes_def)

lemma int64_bytes_inj:
  assumes "int64_bytes a = int64_bytes b" "in_int64 a" "in_int64 b"
  shows "a = b"
proof -
  have bound: "nat (i mod 2 ^ 64) < 256 ^ 8" for i :: int
  proof -
    have "i mod 2 ^ 64 < 2 ^ 64" by simp
    then show ?thesis by (simp add: nat_less_iff)
  qed
  have "nat (a mod 2 ^ 64) = nat (b mod 2 ^ 64)"
    using be_bytes_inj[OF assms(1)[unfolded int64_bytes_def] bound bound] .
  then have "a mod 2 ^ 64 = b mod 2 ^ 64" by (simp add: eq_nat_nat_iff)
  then have "(a - b) mod 2 ^ 64 = 0" by (simp add: mod_eq_dvd_iff)
  then obtain k where k: "a - b = 2 ^ 64 * k" by auto
  then have "\<bar>2 ^ 64 * k\<bar> < 2 ^ 64" using assms(2,3) by (simp add: in_int64_def int64_min_def int64_max_def)
  then have "k = 0" by (simp add: abs_mult)
  then show ?thesis using k by simp
qed

lemma line_split:
  assumes "line a @ xs = line b @ ys" "CHR 0x0A \<notin> set a" "CHR 0x0A \<notin> set b"
  shows "a = b \<and> xs = ys"
  using assms
proof (induction a arbitrary: b)
  case Nil
  then show ?case by (cases b) (auto simp: line_def)
next
  case (Cons c cs)
  then show ?case by (cases b) (auto simp: line_def)
qed

lemma lines_split:
  assumes "concat (map line as) @ xs = concat (map line bs) @ ys" "length as = length bs"
    and "\<forall>a \<in> set as \<union> set bs. CHR 0x0A \<notin> set a"
  shows "as = bs \<and> xs = ys"
  using assms(2,1,3)
proof (induction as bs rule: list_induct2)
  case (Cons a as b bs)
  then show ?case using line_split[of a "concat (map line as) @ xs" b "concat (map line bs) @ ys"] by auto
qed simp

lemma no_newline: "CHR 0x0A \<notin> set (show_int i)" "CHR 0x0A \<notin> set (show_nat n)"
proof -
  show nat: "CHR 0x0A \<notin> set (show_nat n)" for n using show_nat_digits[of "CHR 0x0A" n] by (auto simp: is_digit_def code_of_def)
  show "CHR 0x0A \<notin> set (show_int i)" using nat by (simp add: show_int_def)
qed

lemma blocks_split:
  assumes "concat (map f xs) @ as = concat (map g ys) @ bs" "length xs = length ys"
    and "\<forall>x \<in> set xs. length (f x) = n" "\<forall>y \<in> set ys. length (g y) = n"
  shows "map f xs = map g ys \<and> as = bs"
  using assms(2,1,3,4) by (induction xs ys rule: list_induct2) auto

text \<open>Equal bytes come from equal requests with equal candles. \<open>values\<close> are the floats that occur; the
  IEEE encoding tells them apart.\<close>

lemma fingerprint_message_inj:
  assumes m: "fingerprint_message ieee s1 f1 i1 t1 a1 e1 ks1 = Some m" "fingerprint_message ieee s2 f2 i2 t2 a2 e2 ks2 = Some m"
    and lines: "\<forall>x \<in> {s1, f1, i1, t1, s2, f2, i2, t2}. CHR 0x0A \<notin> set x"
    and ieee: "inj_on ieee floats" "\<forall>v \<in> floats. length (ieee v) = 8"
    and ks: "\<forall>k \<in> set ks1 \<union> set ks2. in_int64 (candle_time k) \<and> (\<forall>v \<in> set (k_values k). the v \<in> floats)"
  shows "s1 = s2 \<and> f1 = f2 \<and> i1 = i2 \<and> t1 = t2 \<and> a1 = a2 \<and> e1 = e2 \<and> sort_key k_ts ks1 = sort_key k_ts ks2"
proof -
  define x1 x2 where "x1 = sort_key k_ts ks1" and "x2 = sort_key k_ts ks2"
  have present: "\<forall>k \<in> set x1 \<union> set x2. k_ts k \<noteq> None \<and> None \<notin> set (k_values k)"
    using m by (auto simp: fingerprint_message_def Let_def x1_def x2_def list_ex_iff split: if_splits)
  have ks': "\<forall>k \<in> set x1 \<union> set x2. in_int64 (candle_time k) \<and> (\<forall>v \<in> set (k_values k). the v \<in> floats)"
    using ks by (simp add: x1_def x2_def)
  let ?l = "\<lambda>s f i t a e (x :: candle list). [s, f, i, t, show_int a, show_int e, show_nat (length x)]"
  let ?ts = "\<lambda>x. concat (map (\<lambda>k. int64_bytes (candle_time k)) x)"
  let ?c = "\<lambda>x column. concat (map (\<lambda>k. ieee (the (column k))) x)"
  let ?cs = "\<lambda>x. concat (map (?c x) fingerprint_columns)"
  have "concat (map line (?l s1 f1 i1 t1 a1 e1 x1)) @ ?ts x1 @ ?cs x1 = concat (map line (?l s2 f2 i2 t2 a2 e2 x2)) @ ?ts x2 @ ?cs x2"
    using m by (auto simp: fingerprint_message_def Let_def x1_def x2_def split: if_splits)
  from lines_split[OF this] have l: "?l s1 f1 i1 t1 a1 e1 x1 = ?l s2 f2 i2 t2 a2 e2 x2"
    and rest: "?ts x1 @ ?cs x1 = ?ts x2 @ ?cs x2"
    using lines no_newline by auto
  have len: "length x1 = length x2" using l read_show_nat by (metis list.inject)
  have ts: "map (\<lambda>k. int64_bytes (candle_time k)) x1 = map (\<lambda>k. int64_bytes (candle_time k)) x2"
    and cols: "?cs x1 = ?cs x2"
    using blocks_split[OF rest len, of 8] by simp_all
  have column: "map (\<lambda>k. ieee (the (column k))) x1 = map (\<lambda>k. ieee (the (column k))) x2 \<and> r1 = r2"
    if "?c x1 column @ r1 = ?c x2 column @ r2" "column \<in> set fingerprint_columns" for column r1 r2
  proof (rule blocks_split[OF that(1) len, of 8])
    show "\<forall>k \<in> set x1. length (ieee (the (column k))) = 8" "\<forall>k \<in> set x2. length (ieee (the (column k))) = 8"
      using ks' ieee(2) that(2) by (auto simp: fingerprint_columns_def k_values_def k_prices_def)
  qed
  have "?c x1 k_open @ ?c x1 k_high @ ?c x1 k_low @ ?c x1 k_close @ ?c x1 k_volume @ [] =
      ?c x2 k_open @ ?c x2 k_high @ ?c x2 k_low @ ?c x2 k_close @ ?c x2 k_volume @ []"
    using cols by (simp add: fingerprint_columns_def)
  then have all: "map (\<lambda>k. ieee (the (c k))) x1 = map (\<lambda>k. ieee (the (c k))) x2" if "c \<in> set fingerprint_columns" for c
    using that column by (simp add: fingerprint_columns_def) metis
  have "x1 ! n = x2 ! n" if n: "n < length x1" for n
  proof -
    have mem: "x1 ! n \<in> set x1 \<union> set x2" "x2 ! n \<in> set x1 \<union> set x2" using n len by auto
    have "int64_bytes (candle_time (x1 ! n)) = int64_bytes (candle_time (x2 ! n))"
      using arg_cong[OF ts, of "\<lambda>l. l ! n"] n len by simp
    then have "candle_time (x1 ! n) = candle_time (x2 ! n)" using int64_bytes_inj ks' mem by blast
    then have t: "k_ts (x1 ! n) = k_ts (x2 ! n)" using present mem by (metis candle_time_def option.exhaust_sel)
    have v: "c (x1 ! n) = c (x2 ! n)" if c: "c \<in> set fingerprint_columns" for c
    proof -
      have "c (x1 ! n) \<in> set (k_values (x1 ! n))" "c (x2 ! n) \<in> set (k_values (x2 ! n))"
        using c by (auto simp: fingerprint_columns_def k_values_def k_prices_def)
      then have "the (c (x1 ! n)) \<in> floats" "the (c (x2 ! n)) \<in> floats" "c (x1 ! n) \<noteq> None" "c (x2 ! n) \<noteq> None"
        using bspec[OF ks' mem(1)] bspec[OF ks' mem(2)] bspec[OF present mem(1)] bspec[OF present mem(2)] by metis+
      moreover have "ieee (the (c (x1 ! n))) = ieee (the (c (x2 ! n)))"
        using arg_cong[OF all[OF c], of "\<lambda>l. l ! n"] n len by simp
      ultimately show ?thesis using ieee(1) by (metis inj_onD option.expand)
    qed
    show ?thesis using t v by (intro candle.equality) (simp_all add: fingerprint_columns_def)
  qed
  then have "x1 = x2" using len by (intro nth_equalityI) auto
  then show ?thesis using l show_int_inj by (auto simp: x1_def x2_def)
qed

lemma fingerprint_message_perm:
  assumes "mset ks1 = mset ks2" "distinct (map k_ts ks1)"
  shows "fingerprint_message ieee s f i t a e ks1 = fingerprint_message ieee s f i t a e ks2"
proof -
  have "inj_on k_ts (set ks1)" using assms(2) by (simp add: distinct_map)
  then have "sort_key k_ts ks1 = sort_key k_ts ks2"
    using assms(1) by (intro sort_key_inj_key_eq) simp_all
  then show ?thesis by (simp add: fingerprint_message_def)
qed

text \<open>The bytes under a fingerprint do not depend on the order of the rows, and they determine
  everything: two requests that feed the hash the same bytes have the same source, feed, instrument,
  timeframe, period and, sorted by time, the same candles.\<close>

theorem fingerprint_separates:
  assumes "\<forall>x \<in> {s1, f1, i1, t1, s2, f2, i2, t2}. CHR 0x0A \<notin> set x"
    and "inj_on ieee floats" "\<forall>v \<in> floats. length (ieee v) = 8"
    and "\<forall>k \<in> set ks1 \<union> set ks2. in_int64 (candle_time k) \<and> (\<forall>v \<in> set (k_values k). the v \<in> floats)"
  shows "(\<forall>m. fingerprint_message ieee s1 f1 i1 t1 a1 e1 ks1 = Some m \<and>
       fingerprint_message ieee s2 f2 i2 t2 a2 e2 ks2 = Some m \<longrightarrow>
       s1 = s2 \<and> f1 = f2 \<and> i1 = i2 \<and> t1 = t2 \<and> a1 = a2 \<and> e1 = e2 \<and> sort_key k_ts ks1 = sort_key k_ts ks2) \<and>
    (mset ks1 = mset ks2 \<and> distinct (map k_ts ks1) \<longrightarrow>
       fingerprint_message ieee s1 f1 i1 t1 a1 e1 ks1 = fingerprint_message ieee s1 f1 i1 t1 a1 e1 ks2)"
  using fingerprint_message_inj[OF _ _ assms] fingerprint_message_perm by blast

theorem fingerprint_separates_witness:
  "\<exists>m. fingerprint_message (\<lambda>v. if v = Fin 1 then ''11111111'' else ''22222222'') ''binance'' ''spot'' ''crypto:A'' ''1h'' 0 7200
      [real_candle 0 1 1 1 1 2, real_candle 3600 1 2 1 2 2] = Some m \<and>
    fingerprint_message (\<lambda>v. if v = Fin 1 then ''11111111'' else ''22222222'') ''binance'' ''spot'' ''crypto:A'' ''1h'' 0 7200
      [real_candle 3600 1 2 1 2 2, real_candle 0 1 1 1 1 2] = Some m"
proof -
  let ?ieee = "\<lambda>v :: fl. if v = Fin 1 then ''11111111'' else ''22222222''"
  let ?a = "real_candle 0 1 1 1 1 2" and ?b = "real_candle 3600 1 2 1 2 2"
  have "inj_on ?ieee {Fin 1, Fin 2}" "\<forall>v \<in> {Fin 1, Fin 2}. length (?ieee v) = 8" by (simp_all add: inj_on_def)
  moreover have "\<forall>k \<in> set [?a, ?b] \<union> set [?b, ?a]. in_int64 (candle_time k) \<and> (\<forall>v \<in> set (k_values k). the v \<in> {Fin 1, Fin 2})"
    by (simp add: candle_time_def in_int64_def int64_min_def int64_max_def k_values_def k_prices_def)
  moreover have "\<forall>x \<in> {''binance'', ''spot'', ''crypto:A'', ''1h''}. CHR 0x0A \<notin> set x" by simp
  ultimately have "fingerprint_message ?ieee ''binance'' ''spot'' ''crypto:A'' ''1h'' 0 7200 [?a, ?b] =
      fingerprint_message ?ieee ''binance'' ''spot'' ''crypto:A'' ''1h'' 0 7200 [?b, ?a]"
    using fingerprint_separates[of "''binance''" "''spot''" "''crypto:A''" "''1h''" "''binance''" "''spot''" "''crypto:A''" "''1h''"
        ?ieee "{Fin 1, Fin 2}" "[?a, ?b]" "[?b, ?a]" 0 7200 0 7200] by (simp add: add_mset_commute)
  moreover have "\<exists>m. fingerprint_message ?ieee ''binance'' ''spot'' ''crypto:A'' ''1h'' 0 7200 [?a, ?b] = Some m"
    by (simp add: fingerprint_message_def Let_def k_values_def k_prices_def)
  ultimately show ?thesis by metis
qed

end
