(* ===== verification/DataPeriods.thy ===== *)
theory DataPeriods
  imports DataModels
begin

text \<open>
  \<open>plan_periods\<close> of \<open>data/sources/base.py\<close>: the chunks in which a source's candles are fetched and
  cached. The UTC calendar of \<open>datetime\<close> is modelled as far as it is used: the start of the month or
  year of a moment, and the next one. The theorem says that the chunks tile the period: they follow
  each other without a gap or an overlap, cover what was asked for up to now and hold no moment after
  now.
\<close>

section \<open>The calendar\<close>

definition DAY_SECONDS :: int where "DAY_SECONDS = 86400"

definition leap :: "int \<Rightarrow> bool" where
  "leap y = (4 dvd y \<and> (\<not> 100 dvd y \<or> 400 dvd y))"

text \<open>The days from 1970-01-01 to the first day of a year.\<close>

definition year_day :: "int \<Rightarrow> int" where
  "year_day y = 365 * (y - 1970) + ((y - 1) div 4 - (y - 1) div 100 + (y - 1) div 400) - 477"

definition month_days :: "bool \<Rightarrow> int list" where
  "month_days leap_year = [31, if leap_year then 29 else 28, 31, 30, 31, 30, 31, 31, 30, 31, 30, 31]"

text \<open>The days from the first of January to the first of a month (0: January, 12: the next January).\<close>

definition month_day :: "bool \<Rightarrow> nat \<Rightarrow> int" where
  "month_day leap_year m = sum_list (take m (month_days leap_year))"

lemma year_day_Suc: "year_day (y + 1) = year_day y + (if leap y then 366 else 365)"
proof -
  have step: "(x + 1) div k = x div k + (if k dvd x + 1 then 1 else 0)" if "0 < k" for x k :: int
  proof (cases "k dvd x + 1")
    case True
    then obtain q where "x + 1 = k * q" by auto
    then have "x = k * (q - 1) + (k - 1)" by (simp add: algebra_simps)
    moreover have "(k * (q - 1) + (k - 1)) div k = (q - 1) + (k - 1) div k" using that by simp
    ultimately show ?thesis using True that \<open>x + 1 = k * q\<close> by simp
  next
    case False
    have "0 \<le> x mod k" "x mod k < k" using that by simp_all
    moreover have "x mod k \<noteq> k - 1"
    proof
      assume "x mod k = k - 1"
      then have "(x + 1) mod k = 0" using mod_add_left_eq[of x k 1] by simp
      then show False using False by (simp add: mod_eq_0_iff_dvd)
    qed
    ultimately have "(x mod k + 1) div k = 0" by simp
    moreover have "(x + 1) div k = x div k + (x mod k + 1) div k"
      using div_mult_mod_eq[of x k] that by (metis add.assoc div_mult_self3 mult.commute not_less_iff_gr_or_eq)
    ultimately show ?thesis using False by simp
  qed
  have leaps: "a' - b' + c' = a - b + c + (if p4 \<and> (\<not> p100 \<or> p400) then 1 else 0)"
    if "p100 \<Longrightarrow> p4" "p400 \<Longrightarrow> p100" "a' = a + (if p4 then 1 else 0)" "b' = b + (if p100 then 1 else 0)"
      "c' = c + (if p400 then 1 else 0)" for a b c a' b' c' :: int and p4 p100 p400
    using that by (cases p4; cases p100; cases p400) simp_all
  have d: "y div 4 = (y - 1) div 4 + (if 4 dvd y then 1 else 0)"
      "y div 100 = (y - 1) div 100 + (if 100 dvd y then 1 else 0)"
      "y div 400 = (y - 1) div 400 + (if 400 dvd y then 1 else 0)"
    using step[of 4 "y - 1"] step[of 100 "y - 1"] step[of 400 "y - 1"] by (simp_all only: diff_add_cancel zero_less_numeral)
  have i4: "4 dvd y" if "100 dvd y" by (rule dvd_trans[OF _ that]) simp
  have i100: "100 dvd y" if "400 dvd y" by (rule dvd_trans[OF _ that]) simp
  have "y div 4 - y div 100 + y div 400 =
      (y - 1) div 4 - (y - 1) div 100 + (y - 1) div 400 + (if leap y then 1 else 0)"
    unfolding leap_def by (rule leaps[OF i4 i100 d])
  note count = this
  have sum: "365 * (y + 1 - 1970) + (n + (if b then 1 else 0)) - 477 = 365 * (y - 1970) + n - 477 + (if b then 366 else 365)"
    for n :: int and b
    by (cases b) simp_all
  show ?thesis unfolding year_day_def add_diff_cancel_right' count by (rule sum)
qed

text \<open>The year of a day: the last one that starts by then.\<close>

lemma year_day_mono: "y < z \<Longrightarrow> year_day y < year_day z"
proof -
  have "year_day y < year_day (y + 1 + int n)" for n
  proof (induction n)
    case (Suc n)
    have "year_day (y + 1 + int n) < year_day (y + 1 + int n + 1)" unfolding year_day_Suc by simp
    moreover have "y + 1 + int (Suc n) = y + 1 + int n + 1" by simp
    ultimately show ?case using Suc by simp
  qed (simp add: year_day_Suc)
  from this[of "nat (z - y - 1)"] show "y < z \<Longrightarrow> year_day y < year_day z" by simp
qed

function year_from :: "int \<Rightarrow> int \<Rightarrow> int" where
  "year_from d y = (if year_day (y + 1) \<le> d then year_from d (y + 1) else y)"
  by pat_completeness auto
termination
  by (relation "measure (\<lambda>(d, y). nat (d - year_day y))") (auto simp: year_day_Suc split: if_splits)

declare year_from.simps [simp del]

lemma year_from_spec: "year_day y \<le> d \<Longrightarrow> year_day (year_from d y) \<le> d \<and> d < year_day (year_from d y + 1)"
proof (induction d y rule: year_from.induct)
  case (1 d y)
  then show ?case by (subst (1 2) year_from.simps) auto
qed

definition year_of :: "int \<Rightarrow> int" where
  "year_of d = year_from d (1970 + (if 0 \<le> d then d div 366 else d div 365 - 1))"

lemma year_day_linear:
  "0 \<le> n \<Longrightarrow> year_day (1970 + n) \<le> 366 * n" "n \<le> 0 \<Longrightarrow> year_day (1970 + n) \<le> 365 * n"
proof -
  show "0 \<le> n \<Longrightarrow> year_day (1970 + n) \<le> 366 * n"
  proof (induction n rule: int_ge_induct)
    case base
    then show ?case by (simp add: year_day_def)
  next
    case (step i)
    have "year_day (1970 + (i + 1)) \<le> year_day (1970 + i) + 366" using year_day_Suc[of "1970 + i"] by (simp add: algebra_simps)
    then show ?case using step by simp
  qed
  show "n \<le> 0 \<Longrightarrow> year_day (1970 + n) \<le> 365 * n"
  proof (induction n rule: int_le_induct)
    case base
    then show ?case by (simp add: year_day_def)
  next
    case (step i)
    have "year_day (1970 + (i - 1)) + 365 \<le> year_day (1970 + i)" using year_day_Suc[of "1970 + (i - 1)"] by (simp add: algebra_simps)
    then show ?case using step by simp
  qed
qed

lemma year_of_spec: "year_day (year_of d) \<le> d \<and> d < year_day (year_of d + 1)"
proof -
  have "year_day (1970 + (if 0 \<le> d then d div 366 else d div 365 - 1)) \<le> d"
  proof (cases "0 \<le> d")
    case True
    then have "year_day (1970 + d div 366) \<le> 366 * (d div 366)" by (intro year_day_linear) (simp add: pos_imp_zdiv_nonneg_iff)
    also have "\<dots> \<le> d" by simp
    finally show ?thesis using True by simp
  next
    case False
    then have "d div 365 < 0" by (simp add: pos_imp_zdiv_neg_iff)
    then have "year_day (1970 + (d div 365 - 1)) \<le> 365 * (d div 365 - 1)" by (intro year_day_linear) simp
    also have "\<dots> \<le> d" by simp
    finally show ?thesis using False by simp
  qed
  from year_from_spec[OF this] show ?thesis by (simp add: year_of_def)
qed

text \<open>The month of a day of its year, counted from 0: how many of the later months have begun.\<close>

definition month_of :: "bool \<Rightarrow> int \<Rightarrow> nat" where
  "month_of leap_year n = length (filter (\<lambda>m. month_day leap_year m \<le> n) [1..<12])"

lemma month_of_spec:
  assumes "0 \<le> n" "n < (if l then 366 else 365)"
  shows "month_of l n < 12 \<and> month_day l (month_of l n) \<le> n \<and> n < month_day l (month_of l n + 1)"
proof -
  have m: "[1..<12] = [1, 2, 3, 4, 5, 6, 7, 8, 9, 10, 11 :: nat]" by (simp add: upt_rec)
  show ?thesis
    using assms by (cases l) (auto simp: month_of_def m month_day_def month_days_def numeral_eq_Suc)
qed

section \<open>Spans\<close>

text \<open>The start of the month or year of a moment, and the one after it.\<close>

definition span_start :: "int \<Rightarrow> bool \<Rightarrow> int" where
  "span_start ts yearly =
     (let day = ts div DAY_SECONDS; y = year_of day
      in DAY_SECONDS * (year_day y + (if yearly then 0 else month_day (leap y) (month_of (leap y) (day - year_day y)))))"

definition next_span :: "int \<Rightarrow> bool \<Rightarrow> int" where
  "next_span start yearly =
     (let day = start div DAY_SECONDS; y = year_of day; m = month_of (leap y) (day - year_day y)
      in if yearly \<or> m = 11 then DAY_SECONDS * year_day (y + 1)
         else DAY_SECONDS * (year_day y + month_day (leap y) (m + 1)))"

lemma month_day_12 [simp]: "month_day l 12 = (if l then 366 else 365)" "month_day l 0 = 0"
  by (simp_all add: month_day_def month_days_def numeral_eq_Suc)

lemma span_bounds: "span_start ts yearly \<le> ts" "ts < next_span ts yearly"
proof -
  let ?d = "ts div DAY_SECONDS" and ?y = "year_of (ts div DAY_SECONDS)"
  have day: "DAY_SECONDS * ?d \<le> ts" "ts < DAY_SECONDS * (?d + 1)"
    using div_mult_mod_eq[of ts DAY_SECONDS] pos_mod_bound[of DAY_SECONDS ts] pos_mod_sign[of DAY_SECONDS ts]
    by (simp_all add: DAY_SECONDS_def)
  have y: "year_day ?y \<le> ?d" "?d < year_day ?y + (if leap ?y then 366 else 365)"
    using year_of_spec[of ?d] by (simp_all add: year_day_Suc)
  let ?n = "?d - year_day ?y"
  have m: "month_of (leap ?y) ?n < 12" "month_day (leap ?y) (month_of (leap ?y) ?n) \<le> ?n"
      "?n < month_day (leap ?y) (month_of (leap ?y) ?n + 1)"
    using month_of_spec[of ?n "leap ?y"] y by (auto split: if_splits)
  have low: "year_day ?y + (if yearly then 0 else month_day (leap ?y) (month_of (leap ?y) ?n)) \<le> ?d" using y m by simp
  have "span_start ts yearly \<le> DAY_SECONDS * ?d"
    unfolding span_start_def Let_def by (rule mult_left_mono[OF low]) (simp add: DAY_SECONDS_def)
  then show "span_start ts yearly \<le> ts" using day(1) by linarith
  have scale: "DAY_SECONDS * (?d + 1) \<le> DAY_SECONDS * k" if "?d + 1 \<le> k" for k
    by (rule mult_left_mono[OF that]) (simp add: DAY_SECONDS_def)
  have "?d + 1 \<le> year_day (?y + 1)" using y by (simp add: year_day_Suc)
  moreover have "?d + 1 \<le> year_day ?y + month_day (leap ?y) (month_of (leap ?y) ?n + 1)" using m by simp
  ultimately have "DAY_SECONDS * (?d + 1) \<le> next_span ts yearly"
    unfolding next_span_def Let_def using scale by simp
  then show "ts < next_span ts yearly" using day(2) by linarith
qed

lemma year_of_unique: "year_day y \<le> d \<Longrightarrow> d < year_day (y + 1) \<Longrightarrow> year_of d = y"
proof -
  assume y: "year_day y \<le> d" "d < year_day (y + 1)"
  have "\<not> year_of d + 1 \<le> y"
    using year_of_spec[of d] y year_day_mono[of "year_of d + 1" y] by (cases "year_of d + 1 = y") auto
  moreover have "\<not> y + 1 \<le> year_of d"
    using year_of_spec[of d] y year_day_mono[of "y + 1" "year_of d"] by (cases "y + 1 = year_of d") auto
  ultimately show ?thesis by linarith
qed

lemma less_12_cases: "m < 12 \<Longrightarrow> m \<in> {0, 1, 2, 3, 4, 5, 6, 7, 8, 9, 10, 11 :: nat}"
  by (auto simp: less_Suc_eq numeral_eq_Suc)

lemma month_of_month_day: "m < 12 \<Longrightarrow> month_of l (month_day l m) = m"
proof -
  have "list_all (\<lambda>m. month_of True (month_day True m) = m \<and> month_of False (month_day False m) = m) [0..<12]"
    by code_simp
  then show "m < 12 \<Longrightarrow> month_of l (month_day l m) = m" by (cases l) (simp_all add: list_all_iff)
qed

text \<open>The next span starts a span: spans tile time.\<close>

lemma day_mult: "(DAY_SECONDS * d) div DAY_SECONDS = d"
  by (simp add: DAY_SECONDS_def)

lemma month_day_bounds: "m < 12 \<Longrightarrow> 0 \<le> month_day l m \<and> month_day l m < month_day l 12"
proof -
  assume "m < 12"
  note less_12_cases[OF this]
  then show ?thesis by (cases l) (auto simp: month_day_def month_days_def numeral_eq_Suc)
qed

text \<open>A moment in a month: its year and month.\<close>

lemma span_at:
  assumes "m < 12" "d = year_day y + month_day (leap y) m"
  shows "year_of d = y" "month_of (leap y) (d - year_day y) = m"
proof -
  have "0 \<le> month_day (leap y) m" "month_day (leap y) m < month_day (leap y) 12" using month_day_bounds[OF assms(1)] by blast+
  then show "year_of d = y" unfolding assms(2) by (intro year_of_unique) (simp_all add: year_day_Suc)
  show "month_of (leap y) (d - year_day y) = m" using month_of_month_day[OF assms(1)] assms(2) by simp
qed

lemma span_start_at: "m < 12 \<Longrightarrow> yearly \<longrightarrow> m = 0 \<Longrightarrow>
    span_start (DAY_SECONDS * (year_day y + month_day (leap y) m)) yearly = DAY_SECONDS * (year_day y + month_day (leap y) m)"
  using span_at[of m "year_day y + month_day (leap y) m" y] by (simp add: span_start_def Let_def day_mult)

lemma span_form: "\<exists>y m. span_start ts yearly = DAY_SECONDS * (year_day y + month_day (leap y) m) \<and> m < 12 \<and> (yearly \<longrightarrow> m = 0) \<and>
    next_span ts yearly = (if yearly \<or> m = 11 then DAY_SECONDS * year_day (y + 1)
      else DAY_SECONDS * (year_day y + month_day (leap y) (m + 1)))"
proof -
  let ?d = "ts div DAY_SECONDS" and ?y = "year_of (ts div DAY_SECONDS)"
  have "month_of (leap ?y) (?d - year_day ?y) < 12"
    using month_of_spec[of "?d - year_day ?y" "leap ?y"] year_of_spec[of ?d] by (auto simp: year_day_Suc split: if_splits)
  then show ?thesis (is "\<exists>y m. ?P y m")
  proof (cases yearly)
    case True
    have "?P ?y 0" unfolding span_start_def next_span_def Let_def using True by simp
    then show ?thesis by blast
  next
    case False
    have "?P ?y (month_of (leap ?y) (?d - year_day ?y))"
      unfolding span_start_def next_span_def Let_def using False \<open>month_of (leap ?y) (?d - year_day ?y) < 12\<close> by simp
    then show ?thesis by blast
  qed
qed

lemma span_start_idem [simp]: "span_start (span_start ts yearly) yearly = span_start ts yearly"
proof -
  obtain y m where "span_start ts yearly = DAY_SECONDS * (year_day y + month_day (leap y) m)" "m < 12" "yearly \<longrightarrow> m = 0"
    using span_form by blast
  then show ?thesis using span_start_at[of m yearly y] by (simp only:)
qed

lemma span_start_next [simp]: "span_start (next_span ts yearly) yearly = next_span ts yearly"
proof -
  obtain y m where m: "m < 12" "next_span ts yearly = (if yearly \<or> m = 11 then DAY_SECONDS * year_day (y + 1)
      else DAY_SECONDS * (year_day y + month_day (leap y) (m + 1)))"
    using span_form by blast
  show ?thesis
    using m span_start_at[of "m + 1" yearly y] span_start_at[of 0 yearly "y + 1"] by auto
qed

lemma next_span_start [simp]: "next_span (span_start ts yearly) yearly = next_span ts yearly"
proof -
  obtain y m where m: "span_start ts yearly = DAY_SECONDS * (year_day y + month_day (leap y) m)" "m < 12" "yearly \<longrightarrow> m = 0"
      "next_span ts yearly = (if yearly \<or> m = 11 then DAY_SECONDS * year_day (y + 1)
        else DAY_SECONDS * (year_day y + month_day (leap y) (m + 1)))"
    using span_form by blast
  show ?thesis
    unfolding m(1) m(4) unfolding next_span_def Let_def day_mult using span_at[OF m(2) refl, of y] by simp
qed

text \<open>Spans are whole days, and the span of a moment is the only one that holds it.\<close>

lemma span_start_day: "DAY_SECONDS dvd span_start ts yearly" "DAY_SECONDS dvd next_span ts yearly"
  by (simp_all add: span_start_def next_span_def Let_def)

lemma year_of_mono: "d \<le> e \<Longrightarrow> year_of d \<le> year_of e"
proof (rule ccontr)
  assume "d \<le> e" "\<not> year_of d \<le> year_of e"
  then have "year_of e + 1 \<le> year_of d" by simp
  then have "year_day (year_of e + 1) \<le> year_day (year_of d)"
    using year_day_mono[of "year_of e + 1" "year_of d"] by (cases "year_of e + 1 = year_of d") auto
  then show False using year_of_spec[of d] year_of_spec[of e] \<open>d \<le> e\<close> by linarith
qed

lemma month_day_mono: "m \<le> k \<Longrightarrow> month_day l m \<le> month_day l k"
proof (induction k)
  case (Suc k)
  have "month_day l k \<le> month_day l (Suc k)"
  proof (cases "k < 12")
    case True
    then have k: "k < length (month_days l)" by (simp add: month_days_def)
    then have "0 \<le> month_days l ! k" using less_12_cases[OF True]
      by (cases l) (auto simp: month_days_def)
    then show ?thesis by (simp add: month_day_def take_Suc_conv_app_nth[OF k])
  next
    case False
    then show ?thesis by (simp add: month_day_def month_days_def)
  qed
  then show ?case using Suc by (cases "m = Suc k") auto
qed simp

text \<open>A span that starts after the start of another starts at its end or later.\<close>

lemma span_start_next_le: "ts < next_span s yearly \<Longrightarrow> span_start s yearly \<le> ts \<Longrightarrow> span_start ts yearly = span_start s yearly"
proof -
  assume ts: "ts < next_span s yearly" "span_start s yearly \<le> ts"
  obtain y m where m: "span_start s yearly = DAY_SECONDS * (year_day y + month_day (leap y) m)" "m < 12" "yearly \<longrightarrow> m = 0"
      "next_span s yearly = (if yearly \<or> m = 11 then DAY_SECONDS * year_day (y + 1)
        else DAY_SECONDS * (year_day y + month_day (leap y) (m + 1)))"
    using span_form by blast
  let ?d = "ts div DAY_SECONDS"
  have D: "0 < DAY_SECONDS" by (simp add: DAY_SECONDS_def)
  have le: "DAY_SECONDS * k \<le> ts \<longleftrightarrow> k \<le> ?d" for k
  proof -
    have "k \<le> ?d" if "k * DAY_SECONDS \<le> ts" using zdiv_mono1[OF that D] D by simp
    moreover have "k * DAY_SECONDS \<le> ts" if "k \<le> ?d"
      using mult_right_mono[OF that less_imp_le[OF D]] div_mult_mod_eq[of ts DAY_SECONDS] pos_mod_sign[OF D, of ts] by linarith
    ultimately have "k \<le> ?d \<longleftrightarrow> k * DAY_SECONDS \<le> ts" by blast
    then show ?thesis by (simp add: mult.commute)
  qed
  have low: "year_day y + month_day (leap y) m \<le> ?d" using ts(2) m(1) le by simp
  have next12: "?d < year_day (y + 1)" if "yearly \<or> m = 11"
    using ts(1) m(4) that le[of "year_day (y + 1)"] by simp
  have next_m: "?d < year_day y + month_day (leap y) (m + 1)" if "\<not> (yearly \<or> m = 11)"
    using ts(1) m(4) that le[of "year_day y + month_day (leap y) (m + 1)"] by simp
  have m12: "month_day (leap y) 12 = year_day (y + 1) - year_day y" by (simp add: year_day_Suc)
  have "?d < year_day (y + 1)"
  proof (cases "yearly \<or> m = 11")
    case False
    have "month_day (leap y) (m + 1) \<le> month_day (leap y) 12" using m(2) by (intro month_day_mono) simp
    then show ?thesis using next_m[OF False] m12 by linarith
  qed (rule next12)
  moreover have "0 \<le> month_day (leap y) m" using month_day_bounds[OF m(2)] by blast
  ultimately have y: "year_of ?d = y" using low by (intro year_of_unique) simp_all
  show ?thesis
  proof (cases yearly)
    case True
    then show ?thesis unfolding m(1) using m(3) y by (simp add: span_start_def Let_def)
  next
    case False
    have up: "?d - year_day y < month_day (leap y) (m + 1)"
    proof (cases "m = 11")
      case True
      have "m + 1 = 12" using True by simp
      then show ?thesis using next12 True m12 by (simp only:) linarith
    next
      case False
      then show ?thesis using next_m \<open>\<not> yearly\<close> by simp
    qed
    have k: "month_of (leap y) (?d - year_day y) < 12 \<and> month_day (leap y) (month_of (leap y) (?d - year_day y)) \<le> ?d - year_day y \<and>
        ?d - year_day y < month_day (leap y) (month_of (leap y) (?d - year_day y) + 1)"
      by (rule month_of_spec) (use low \<open>0 \<le> month_day (leap y) m\<close> \<open>?d < year_day (y + 1)\<close> in \<open>simp_all add: year_day_Suc\<close>)
    let ?k = "month_of (leap y) (?d - year_day y)"
    have "\<not> ?k + 1 \<le> m" using k low month_day_mono[of "?k + 1" m "leap y"] by linarith
    moreover have "\<not> m + 1 \<le> ?k" using k up month_day_mono[of "m + 1" ?k "leap y"] by linarith
    ultimately have "?k = m" by linarith
    then show ?thesis unfolding m(1) using False y by (simp add: span_start_def Let_def)
  qed
qed

lemma span_start_mono: "a \<le> b \<Longrightarrow> span_start a yearly \<le> span_start b yearly"
proof (cases "b < next_span a yearly")
  case True
  assume "a \<le> b"
  then show ?thesis using True span_start_next_le[of b a yearly] span_bounds(1)[of a yearly] by simp
next
  case False
  then have "next_span a yearly \<le> b" by simp
  show ?thesis
  proof (rule ccontr)
    assume "\<not> span_start a yearly \<le> span_start b yearly"
    then have "span_start b yearly < span_start a yearly" by simp
    moreover have "b < next_span b yearly" by (rule span_bounds)
    ultimately have "span_start (span_start a yearly) yearly = span_start b yearly"
      using span_bounds(1)[of a yearly] span_bounds(2)[of a yearly] \<open>next_span a yearly \<le> b\<close>
      by (intro span_start_next_le) simp_all
    then show False using \<open>span_start b yearly < span_start a yearly\<close> by simp
  qed
qed

section \<open>Chunks\<close>

datatype period_kind = Closed | Current | Live

record period =
  p_kind :: period_kind
  p_start :: int
  p_end :: int
  p_label :: string
  p_ttl :: int

definition LIVE_TTL :: int where "LIVE_TTL = 60"

text \<open>\<open>%Y\<close>, \<open>%Y-%m\<close> and \<open>%Y-%m-%d\<close> of a moment.\<close>

definition two_digits :: "nat \<Rightarrow> string" where
  "two_digits n = [digit (n div 10), digit (n mod 10)]"

definition year_text :: "int \<Rightarrow> string" where
  "year_text ts = show_int (year_of (ts div DAY_SECONDS))"

definition month_text :: "int \<Rightarrow> string" where
  "month_text ts = (let d = ts div DAY_SECONDS; y = year_of d
     in year_text ts @ ''-'' @ two_digits (month_of (leap y) (d - year_day y) + 1))"

definition day_text :: "int \<Rightarrow> string" where
  "day_text ts = (let d = ts div DAY_SECONDS; y = year_of d; m = month_of (leap y) (d - year_day y)
     in month_text ts @ ''-'' @ two_digits (nat (d - year_day y - month_day (leap y) m) + 1))"

function closed_spans :: "bool \<Rightarrow> int \<Rightarrow> int \<Rightarrow> int \<Rightarrow> period list" where
  "closed_spans yearly closed_ttl until sp =
     (if sp < until
      then \<lparr>p_kind = Closed, p_start = sp, p_end = next_span sp yearly,
            p_label = (if yearly then year_text sp else month_text sp), p_ttl = closed_ttl\<rparr>
           # closed_spans yearly closed_ttl until (next_span sp yearly)
      else [])"
  by pat_completeness auto
termination
proof (relation "measure (\<lambda>(yearly, ttl, until, sp). nat (until - sp))", simp)
  fix yearly and ttl until sp :: int
  assume "sp < until"
  then show "((yearly, ttl, until, next_span sp yearly), yearly, ttl, until, sp) \<in> measure (\<lambda>(yearly, ttl, until, sp). nat (until - sp))"
    using span_bounds(2)[of sp yearly] by simp
qed

function day_chunks :: "int \<Rightarrow> int \<Rightarrow> int \<Rightarrow> period list" where
  "day_chunks current_ttl until d =
     (if d < until
      then \<lparr>p_kind = Current, p_start = d, p_end = d + DAY_SECONDS, p_label = day_text d, p_ttl = current_ttl\<rparr>
           # day_chunks current_ttl until (d + DAY_SECONDS)
      else [])"
  by pat_completeness auto
termination
  by (relation "measure (\<lambda>(ttl, until, d). nat (until - d))") (auto simp: DAY_SECONDS_def)

declare closed_spans.simps [simp del] day_chunks.simps [simp del]

definition plan_periods :: "int \<Rightarrow> int \<Rightarrow> int \<Rightarrow> bool \<Rightarrow> bool \<Rightarrow> int \<Rightarrow> int \<Rightarrow> period list" where
  "plan_periods start finish now yearly daily closed_ttl current_ttl =
     (let today = now div DAY_SECONDS * DAY_SECONDS;
          current = span_start today yearly
      in closed_spans yearly closed_ttl (min finish current) (span_start start yearly)
         @ (if start < today \<and> finish > current
            then if daily then day_chunks current_ttl (min finish today) (max (start div DAY_SECONDS * DAY_SECONDS) current)
                 else if current < today
                 then [\<lparr>p_kind = Current, p_start = current, p_end = today,
                        p_label = day_text current @ ''..'' @ day_text today, p_ttl = current_ttl\<rparr>]
                 else []
            else [])
         @ (if finish > today
            then [\<lparr>p_kind = Live, p_start = today, p_end = now, p_label = day_text today @ ''-live'', p_ttl = LIVE_TTL\<rparr>]
            else []))"

text \<open>Periods that follow each other without a gap or an overlap, from one moment to another.\<close>

fun tiles :: "int \<Rightarrow> int \<Rightarrow> period list \<Rightarrow> bool" where
  "tiles a b [] = (a = b)"
| "tiles a b (p # ps) = (p_start p = a \<and> a \<le> p_end p \<and> tiles (p_end p) b ps)"

lemma tiles_append [intro]: "tiles a b ps \<Longrightarrow> tiles b c qs \<Longrightarrow> tiles a c (ps @ qs)"
  by (induction ps arbitrary: a) auto

lemma closed_spans_tiles:
  "span_start sp yearly = sp \<Longrightarrow>
   \<exists>b. tiles sp b (closed_spans yearly ttl until sp) \<and> until \<le> b \<and>
     (span_start until yearly = until \<longrightarrow> sp \<le> until \<longrightarrow> b = until) \<and> (until \<le> sp \<longrightarrow> b = sp) \<and> span_start b yearly = b"
proof (induction yearly ttl until sp rule: closed_spans.induct)
  case (1 yearly ttl until sp)
  show ?case
  proof (cases "sp < until")
    case True
    from "1.IH"[OF True] obtain b where b: "tiles (next_span sp yearly) b (closed_spans yearly ttl until (next_span sp yearly))"
        "until \<le> b" "span_start until yearly = until \<longrightarrow> next_span sp yearly \<le> until \<longrightarrow> b = until" "span_start b yearly = b"
      by auto
    have "next_span sp yearly \<le> until" if "span_start until yearly = until"
    proof (rule ccontr)
      assume "\<not> next_span sp yearly \<le> until"
      then have "span_start until yearly = span_start sp yearly" using True 1(2) by (intro span_start_next_le) simp_all
      then show False using that 1(2) True by simp
    qed
    then show ?thesis using b True span_bounds(2)[of sp yearly]
      by (subst closed_spans.simps) (auto intro!: exI[of _ b])
  next
    case False
    then show ?thesis using 1(2) by (subst closed_spans.simps) auto
  qed
qed

lemma day_chunks_tiles:
  "DAY_SECONDS dvd d \<Longrightarrow>
   \<exists>b. tiles d b (day_chunks ttl until d) \<and> until \<le> b \<and> DAY_SECONDS dvd b \<and>
     (until \<le> d \<longrightarrow> b = d) \<and> (\<forall>t. DAY_SECONDS dvd t \<longrightarrow> until \<le> t \<longrightarrow> d \<le> t \<longrightarrow> b \<le> t)"
proof (induction ttl until d rule: day_chunks.induct)
  case (1 ttl until d)
  show ?case
  proof (cases "d < until")
    case True
    have "DAY_SECONDS dvd d + DAY_SECONDS" using 1(2) by simp
    from "1.IH"[OF True this] obtain b where b: "tiles (d + DAY_SECONDS) b (day_chunks ttl until (d + DAY_SECONDS))"
        "until \<le> b" "DAY_SECONDS dvd b" "\<forall>t. DAY_SECONDS dvd t \<longrightarrow> until \<le> t \<longrightarrow> d + DAY_SECONDS \<le> t \<longrightarrow> b \<le> t"
      by blast
    have "b \<le> t" if "DAY_SECONDS dvd t" "until \<le> t" for t
    proof -
      have "DAY_SECONDS dvd t - d" using that 1(2) by simp
      then have "DAY_SECONDS \<le> t - d" by (rule zdvd_imp_le) (use that True in simp)
      then show ?thesis using b(4) that by simp
    qed
    then show ?thesis using b True
      by (subst day_chunks.simps) (auto intro!: exI[of _ b] simp: DAY_SECONDS_def)
  next
    case False
    then show ?thesis using 1(2) by (subst day_chunks.simps) auto
  qed
qed

lemma next_span_le: "sp < t \<Longrightarrow> span_start t yearly = t \<Longrightarrow> next_span sp yearly \<le> t"
proof (rule ccontr)
  assume t: "sp < t" "span_start t yearly = t" "\<not> next_span sp yearly \<le> t"
  then have "span_start t yearly = span_start sp yearly" using span_bounds(1)[of sp yearly] by (intro span_start_next_le) simp_all
  then show False using t span_bounds(1)[of sp yearly] by simp
qed

lemma closed_spans_are_spans:
  "span_start sp yearly = sp \<Longrightarrow> p \<in> set (closed_spans yearly ttl until sp) \<Longrightarrow>
   p_kind p = Closed \<and> p_start p < until \<and> span_start (p_start p) yearly = p_start p \<and> p_end p = next_span (p_start p) yearly \<and>
   p_label p = (if yearly then year_text (p_start p) else month_text (p_start p))"
proof (induction yearly ttl until sp rule: closed_spans.induct)
  case (1 yearly ttl until sp)
  show ?case
  proof (cases "sp < until")
    case True
    show ?thesis
    proof (cases "p \<in> set (closed_spans yearly ttl until (next_span sp yearly))")
      case True
      then show ?thesis using "1.IH"[OF \<open>sp < until\<close>] by simp
    next
      case False
      then show ?thesis using 1(2,3) True by (subst (asm) closed_spans.simps) auto
    qed
  next
    case False
    then show ?thesis using 1(3) by (subst (asm) closed_spans.simps) simp
  qed
qed

lemma day_chunks_are_days:
  "DAY_SECONDS dvd d \<Longrightarrow> p \<in> set (day_chunks ttl until d) \<Longrightarrow>
   p_kind p = Current \<and> d \<le> p_start p \<and> p_start p < until \<and> DAY_SECONDS dvd p_start p \<and> p_end p = p_start p + DAY_SECONDS \<and>
   p_label p = day_text (p_start p)"
proof (induction ttl until d rule: day_chunks.induct)
  case (1 ttl until d)
  show ?case
  proof (cases "d < until")
    case True
    show ?thesis
    proof (cases "p \<in> set (day_chunks ttl until (d + DAY_SECONDS))")
      case True
      then show ?thesis using "1.IH"[OF \<open>d < until\<close>] 1(2) by (auto simp: DAY_SECONDS_def)
    next
      case False
      then show ?thesis using 1(2,3) True by (subst (asm) day_chunks.simps) auto
    qed
  next
    case False
    then show ?thesis using 1(3) by (subst (asm) day_chunks.simps) simp
  qed
qed

lemma day_dvd_next: "DAY_SECONDS dvd a \<Longrightarrow> DAY_SECONDS dvd b \<Longrightarrow> a < b \<Longrightarrow> a + DAY_SECONDS \<le> b"
  using zdvd_imp_le[of DAY_SECONDS "b - a"] by simp

lemma day_of: "DAY_SECONDS dvd t div DAY_SECONDS * DAY_SECONDS" "t div DAY_SECONDS * DAY_SECONDS \<le> t"
    "t < t div DAY_SECONDS * DAY_SECONDS + DAY_SECONDS"
  using div_mult_mod_eq[of t DAY_SECONDS] pos_mod_bound[of DAY_SECONDS t] pos_mod_sign[of DAY_SECONDS t]
  by (simp_all add: DAY_SECONDS_def)

text \<open>The parts of a plan: the closed spans, the rest of the current span and the live chunk.\<close>

definition day_start :: "int \<Rightarrow> int" where
  "day_start t = t div DAY_SECONDS * DAY_SECONDS"

definition closed_part :: "bool \<Rightarrow> int \<Rightarrow> int \<Rightarrow> int \<Rightarrow> int \<Rightarrow> period list" where
  "closed_part yearly ttl current start finish = closed_spans yearly ttl (min finish current) (span_start start yearly)"

definition current_part :: "bool \<Rightarrow> int \<Rightarrow> int \<Rightarrow> int \<Rightarrow> int \<Rightarrow> int \<Rightarrow> period list" where
  "current_part daily ttl current today start finish =
     (if start < today \<and> finish > current
      then if daily then day_chunks ttl (min finish today) (max (day_start start) current)
           else if current < today
           then [\<lparr>p_kind = Current, p_start = current, p_end = today,
                  p_label = day_text current @ ''..'' @ day_text today, p_ttl = ttl\<rparr>]
           else []
      else [])"

definition live_part :: "int \<Rightarrow> int \<Rightarrow> int \<Rightarrow> period list" where
  "live_part today now finish = (if finish > today
     then [\<lparr>p_kind = Live, p_start = today, p_end = now, p_label = day_text today @ ''-live'', p_ttl = LIVE_TTL\<rparr>] else [])"

lemma plan_parts:
  "plan_periods start finish now yearly daily closed_ttl current_ttl =
     (let today = day_start now; current = span_start today yearly
      in closed_part yearly closed_ttl current start finish
         @ current_part daily current_ttl current today start finish @ live_part today now finish)"
  by (simp add: plan_periods_def Let_def day_start_def closed_part_def current_part_def live_part_def)

lemma closed_part_chunk:
  assumes "p \<in> set (closed_part yearly ttl current start finish)" "span_start current yearly = current"
  shows "p_kind p = Closed \<and> p_start p < finish \<and> span_start (p_start p) yearly = p_start p \<and>
    p_end p = next_span (p_start p) yearly \<and> p_end p \<le> current"
proof -
  have "p_kind p = Closed \<and> p_start p < min finish current \<and> span_start (p_start p) yearly = p_start p \<and>
      p_end p = next_span (p_start p) yearly"
    using closed_spans_are_spans[OF span_start_idem] assms(1) unfolding closed_part_def by blast
  moreover from this have "next_span (p_start p) yearly \<le> current" by (intro next_span_le assms(2)) simp
  ultimately show ?thesis by simp
qed

lemma current_part_chunk:
  assumes "p \<in> set (current_part daily ttl current today start finish)" "DAY_SECONDS dvd current" "DAY_SECONDS dvd today"
  shows "p_kind p = Current \<and> p_start p < finish \<and> p_end p \<le> today"
proof (cases daily)
  case True
  have d: "DAY_SECONDS dvd max (day_start start) current" using assms(2) by (simp add: max_def day_start_def)
  have "p \<in> set (day_chunks ttl (min finish today) (max (day_start start) current))"
    using assms(1) True by (simp add: current_part_def split: if_splits)
  then have p: "p_kind p = Current \<and> p_start p < min finish today \<and> DAY_SECONDS dvd p_start p \<and>
      p_end p = p_start p + DAY_SECONDS"
    using day_chunks_are_days[OF d] by blast
  then have "p_end p \<le> today" using day_dvd_next[of "p_start p" today] assms(3) by simp
  then show ?thesis using p by simp
next
  case False
  then show ?thesis using assms(1) by (auto simp: current_part_def split: if_splits)
qed

lemma plan_chunk:
  assumes "p \<in> set (plan_periods start finish now yearly daily closed_ttl current_ttl)"
  shows "p_start p < finish \<and>
    (p_kind p = Closed \<longrightarrow> span_start (p_start p) yearly = p_start p \<and> p_end p = next_span (p_start p) yearly) \<and>
    (p_kind p = Live \<longrightarrow> p_start p = day_start now \<and> p_end p = now) \<and> (p_kind p \<noteq> Live \<longrightarrow> p_end p \<le> day_start now)"
proof -
  define today where "today = day_start now"
  define current where "current = span_start today yearly"
  have cur: "current \<le> today" "span_start current yearly = current" "DAY_SECONDS dvd current" "DAY_SECONDS dvd today"
    using span_bounds(1)[of today yearly] span_start_day(1)[of today yearly] by (simp_all add: current_def today_def day_start_def)
  consider "p \<in> set (closed_part yearly closed_ttl current start finish)"
    | "p \<in> set (current_part daily current_ttl current today start finish)" | "p \<in> set (live_part today now finish)"
    using assms by (auto simp: plan_parts Let_def current_def today_def)
  then show ?thesis
  proof cases
    case 1
    then show ?thesis using closed_part_chunk[OF 1 cur(2)] cur(1) by (simp add: today_def)
  next
    case 2
    then show ?thesis using current_part_chunk[OF 2 cur(3,4)] by (simp add: today_def)
  next
    case 3
    then show ?thesis by (simp add: live_part_def today_def split: if_splits)
  qed
qed

text \<open>Where the parts begin and end.\<close>

lemma closed_part_tiles:
  assumes "span_start current yearly = current"
  shows "\<exists>b. tiles (span_start start yearly) b (closed_part yearly ttl current start finish) \<and> min finish current \<le> b \<and>
      (start < current \<longrightarrow> b \<le> current) \<and> (current \<le> finish \<longrightarrow> start < current \<longrightarrow> b = current)"
proof -
  obtain b where b: "tiles (span_start start yearly) b (closed_part yearly ttl current start finish)" "min finish current \<le> b"
      "span_start (min finish current) yearly = min finish current \<Longrightarrow> span_start start yearly \<le> min finish current \<Longrightarrow> b = min finish current"
    using closed_spans_tiles[of "span_start start yearly" yearly ttl "min finish current"] unfolding closed_part_def by auto
  have s: "span_start start yearly \<le> start" by (rule span_bounds)
  have "b \<le> current" if "start < current"
  proof (cases "closed_part yearly ttl current start finish = []")
    case True
    then show ?thesis using b(1) that s by simp
  next
    case False
    have last: "tiles a' b' ps \<Longrightarrow> ps \<noteq> [] \<Longrightarrow> b' = p_end (last ps)" for a' b' ps
      by (induction ps arbitrary: a') (auto split: if_splits)
    show ?thesis unfolding last[OF b(1) False] using closed_part_chunk[OF last_in_set[OF False] assms] by blast
  qed
  moreover have "b = current" if "current \<le> finish" "start < current" using b(3) that assms s by simp
  ultimately show ?thesis using b(1,2) by blast
qed

lemma current_part_tiles:
  assumes "DAY_SECONDS dvd current" "DAY_SECONDS dvd today" "current \<le> today" "start < today" "current < finish"
  shows "\<exists>b. tiles (if daily then max (day_start start) current else current) b (current_part daily ttl current today start finish) \<and>
      min finish today \<le> b \<and> b \<le> today \<and> (today < finish \<longrightarrow> b = today)"
proof (cases daily)
  case True
  have d: "DAY_SECONDS dvd max (day_start start) current" using assms(1) by (simp add: max_def day_start_def)
  obtain b where b: "tiles (max (day_start start) current) b (day_chunks ttl (min finish today) (max (day_start start) current))"
      "min finish today \<le> b" "\<forall>t. DAY_SECONDS dvd t \<longrightarrow> min finish today \<le> t \<longrightarrow> max (day_start start) current \<le> t \<longrightarrow> b \<le> t"
    using day_chunks_tiles[OF d] by blast
  have "day_start start \<le> today" using day_of(2)[of start] assms(4) by (simp add: day_start_def)
  then have le: "b \<le> today" using b(3) assms(2,3) by simp
  have eq: "current_part daily ttl current today start finish = day_chunks ttl (min finish today) (max (day_start start) current)"
    using True assms(4,5) by (simp add: current_part_def)
  show ?thesis unfolding eq using b(1,2) le True by (intro exI[of _ b]) auto
next
  case False
  then have "tiles current today (current_part daily ttl current today start finish)"
    using assms(3-5) by (auto simp: current_part_def)
  then show ?thesis using False by auto
qed

lemma plan_covers:
  assumes "start < finish"
  shows "\<exists>a b. tiles a b (plan_periods start finish now yearly daily closed_ttl current_ttl) \<and>
    a \<le> start \<and> min finish now \<le> b \<and> b \<le> now"
proof -
  define today where "today = day_start now"
  define current where "current = span_start today yearly"
  let ?c = "closed_part yearly closed_ttl current start finish" and ?m = "current_part daily current_ttl current today start finish"
    and ?l = "live_part today now finish"
  have now: "today \<le> now" "DAY_SECONDS dvd today" using day_of[of now] by (simp_all add: today_def day_start_def)
  have cur: "current \<le> today" "span_start current yearly = current" "DAY_SECONDS dvd current"
    using span_bounds(1)[of today yearly] span_start_day(1)[of today yearly] by (simp_all add: current_def)
  have s0: "span_start start yearly \<le> start" by (rule span_bounds)
  have no_closed: "?c = []" if "current \<le> start"
    using span_start_mono[OF that, of yearly] cur(2) by (simp add: closed_part_def closed_spans.simps)
  have live: "tiles (if finish > today then today else c) (if finish > today then now else c) ?l" for c
    using now by (simp add: live_part_def)
  have "\<exists>a b. tiles a b (?c @ ?m @ ?l) \<and> a \<le> start \<and> min finish now \<le> b \<and> b \<le> now"
  proof (cases "start < today \<and> current < finish")
    case False
    then have m: "?m = []" by (auto simp: current_part_def)
    show ?thesis
    proof (cases "start < today")
      case True
      then have f: "finish \<le> current" "\<not> finish > today" using False cur(1) by auto
      obtain b where "tiles (span_start start yearly) b ?c" "min finish current \<le> b" "b \<le> current"
        using closed_part_tiles[OF cur(2), of start closed_ttl finish] f(1) assms by auto
      moreover have "?l = []" using f by (simp add: live_part_def)
      ultimately have "tiles (span_start start yearly) b (?c @ ?m @ ?l) \<and> span_start start yearly \<le> start \<and> min finish now \<le> b \<and> b \<le> now"
        using m s0 f cur(1) now(1) by simp
      then show ?thesis by blast
    next
      case False
      then have "tiles today now (?c @ ?m @ ?l) \<and> today \<le> start \<and> min finish now \<le> now \<and> now \<le> now"
        using m no_closed live[of today] cur(1) assms by simp
      then show ?thesis by blast
    qed
  next
    case True
    define a where "a = (if start < current then span_start start yearly else if daily then max (day_start start) current else current)"
    have a: "a \<le> start" using s0 day_of(2)[of start] by (auto simp: a_def day_start_def)
    obtain c where c: "tiles (if daily then max (day_start start) current else current) c ?m" "min finish today \<le> c" "c \<le> today"
        "today < finish \<longrightarrow> c = today"
      using current_part_tiles[OF cur(3) now(2) cur(1)] True by blast
    have "tiles a (if daily then max (day_start start) current else current) ?c"
    proof (cases "start < current")
      case True
      then have "max (day_start start) current = current" using day_of(2)[of start] by (simp add: day_start_def)
      then show ?thesis using closed_part_tiles[OF cur(2), of start closed_ttl finish] True \<open>start < today \<and> current < finish\<close>
        by (auto simp: a_def)
    next
      case False
      then show ?thesis using no_closed by (simp add: a_def)
    qed
    then have "tiles a c (?c @ ?m)" using c(1) by (rule tiles_append)
    moreover have "tiles c (if finish > today then now else c) ?l" using live[of c] c(4) by (cases "finish > today") simp_all
    ultimately have "tiles a (if finish > today then now else c) ((?c @ ?m) @ ?l)" by (rule tiles_append)
    then have "tiles a (if finish > today then now else c) (?c @ ?m @ ?l) \<and> a \<le> start \<and>
        min finish now \<le> (if finish > today then now else c) \<and> (if finish > today then now else c) \<le> now"
      using a c now(1) by auto
    then show ?thesis by blast
  qed
  then show ?thesis by (simp add: plan_parts Let_def today_def current_def)
qed

text \<open>C19: the chunks of a request follow each other without a gap or an overlap, from the request's
  start or before to its end or to now, and never beyond now. Every chunk holds a moment before the
  request's end; a closed chunk is exactly one calendar month or year, the live chunk is today up to
  now, and every chunk but the live one ended by the start of today, so what is cached for long is
  complete.\<close>

theorem plan_periods_tile:
  assumes "start < finish"
  shows "(\<exists>a b. tiles a b (plan_periods start finish now yearly daily closed_ttl current_ttl) \<and>
            a \<le> start \<and> min finish now \<le> b \<and> b \<le> now) \<and>
         (\<forall>p \<in> set (plan_periods start finish now yearly daily closed_ttl current_ttl).
            p_start p < finish \<and>
            (p_kind p = Closed \<longrightarrow> span_start (p_start p) yearly = p_start p \<and> p_end p = next_span (p_start p) yearly) \<and>
            (p_kind p = Live \<longrightarrow> p_start p = day_start now \<and> p_end p = now) \<and>
            (p_kind p \<noteq> Live \<longrightarrow> p_end p \<le> day_start now))"
  using plan_covers[OF assms] plan_chunk by blast

theorem plan_periods_tile_witness:
  "map (\<lambda>p. (p_label p, p_end p - p_start p)) (plan_periods 1727222400 1800000000 1727354096 False True 100 10)
     = [(''2024-09-25'', 86400), (''2024-09-26-live'', 45296)] \<and>
   (\<exists>a b. tiles a b (plan_periods 1727222400 1800000000 1727354096 False True 100 10) \<and> a \<le> 1727222400 \<and> 1727354096 \<le> b)"
proof
  show "map (\<lambda>p. (p_label p, p_end p - p_start p)) (plan_periods 1727222400 1800000000 1727354096 False True 100 10)
     = [(''2024-09-25'', 86400), (''2024-09-26-live'', 45296)]" by code_simp
  have "(1727222400::int) < 1800000000" by simp
  from plan_periods_tile[OF this, of 1727354096 False True 100 10, THEN conjunct1]
  show "\<exists>a b. tiles a b (plan_periods 1727222400 1800000000 1727354096 False True 100 10) \<and> a \<le> 1727222400 \<and> 1727354096 \<le> b"
    by auto
qed

end
