(* ===== verification/CoreRateLimit.thy ===== *)
theory CoreRateLimit
  imports Text
begin

text \<open>
  \<open>core/ratelimit.py\<close>: the fixed-window counters of \<open>RateLimiter\<close>. Redis and the clocks are a
  parameter, a record of the commands used (\<open>redis\<close>), each of which returns what Redis answered,
  \<open>None\<close> when it failed, and the state of the world after it. What the limiter relies on is
  \<open>counter_laws\<close>: \<open>INCRBY\<close> adds to a counter that has not expired, \<open>EXPIRE\<close> keeps it, time passes
  forward. Times are exact reals.
\<close>

record 'w redis =
  rd_wall :: "'w \<Rightarrow> real" \<comment> \<open>\<open>time.time()\<close>\<close>
  rd_monotonic :: "'w \<Rightarrow> real" \<comment> \<open>\<open>time.monotonic()\<close>\<close>
  rd_incr :: "string \<Rightarrow> int \<Rightarrow> int \<Rightarrow> 'w \<Rightarrow> int option \<times> 'w" \<comment> \<open>\<open>INCRBY\<close> and \<open>EXPIRE\<close> in one transaction\<close>
  rd_get :: "string \<Rightarrow> 'w \<Rightarrow> string option option \<times> 'w" \<comment> \<open>\<open>GET\<close>\<close>
  rd_mget :: "string list \<Rightarrow> 'w \<Rightarrow> string option list option \<times> 'w" \<comment> \<open>\<open>MGET\<close>\<close>
  rd_set :: "string \<Rightarrow> string \<Rightarrow> int \<Rightarrow> 'w \<Rightarrow> unit option \<times> 'w" \<comment> \<open>\<open>SET ... EX\<close>\<close>
  rd_set_nx :: "string \<Rightarrow> string \<Rightarrow> int \<Rightarrow> 'w \<Rightarrow> bool option \<times> 'w" \<comment> \<open>\<open>SET ... NX PX\<close>\<close>
  rd_delete :: "string \<Rightarrow> 'w \<Rightarrow> unit option \<times> 'w" \<comment> \<open>\<open>DEL\<close>\<close>
  rd_release :: "string \<Rightarrow> string \<Rightarrow> 'w \<Rightarrow> bool option \<times> 'w" \<comment> \<open>the script that deletes a lock that is ours\<close>
  rd_extend :: "string \<Rightarrow> string \<Rightarrow> int \<Rightarrow> 'w \<Rightarrow> bool option \<times> 'w" \<comment> \<open>the script that extends it\<close>
  rd_getrange :: "string \<Rightarrow> int \<Rightarrow> int \<Rightarrow> 'w \<Rightarrow> string option \<times> 'w" \<comment> \<open>\<open>GETRANGE\<close>\<close>
  rd_sleep :: "real \<Rightarrow> 'w \<Rightarrow> 'w" \<comment> \<open>\<open>asyncio.sleep\<close>, and whatever others do meanwhile\<close>

definition DOWN_SECONDS :: real where "DOWN_SECONDS = 5"

text \<open>The counter of a window, and what is left of the window.\<close>

definition window_number :: "real \<Rightarrow> int \<Rightarrow> int" where
  "window_number now window = \<lfloor>now / of_int window\<rfloor>"

definition counter_key :: "string \<Rightarrow> int \<Rightarrow> string" where
  "counter_key key number = key @ '':'' @ show_int number"

text \<open>\<open>hit\<close>: the seconds to wait, 0 within the limit. The state of a \<open>RateLimiter\<close> is when it asks a
  failed Redis again.\<close>

definition hit :: "'w redis \<Rightarrow> string \<Rightarrow> int \<Rightarrow> int \<Rightarrow> int \<Rightarrow> real \<times> 'w \<Rightarrow> real \<times> real \<times> 'w" where
  "hit R key limit cost window s = (case s of (down_until, w) \<Rightarrow>
     if limit \<le> 0 \<or> rd_monotonic R w < down_until then (0, down_until, w)
     else
       (let now = rd_wall R w; number = window_number now window
        in (case rd_incr R (counter_key key number) cost (window + 1) w of
             (None, w') \<Rightarrow> (0, rd_monotonic R w' + DOWN_SECONDS, w')
           | (Some used, w') \<Rightarrow>
               if used \<le> limit then (0, down_until, w')
               else (max (of_int ((number + 1) * window) - now) (1 / 1000), down_until, w'))))"

text \<open>\<open>used\<close>: the cost counted so far, \<open>None\<close> when Redis cannot say. A stored counter is a number.\<close>

definition used :: "'w redis \<Rightarrow> string \<Rightarrow> int \<Rightarrow> real \<times> 'w \<Rightarrow> int option \<times> real \<times> 'w" where
  "used R key window s = (case s of (down_until, w) \<Rightarrow>
     if rd_monotonic R w < down_until then (None, down_until, w)
     else (case rd_get R (counter_key key (window_number (rd_wall R w) window)) w of
         (None, w') \<Rightarrow> (None, down_until, w')
       | (Some None, w') \<Rightarrow> (Some 0, down_until, w')
       | (Some (Some v), w') \<Rightarrow> (int_of_text v, down_until, w')))"

text \<open>\<open>client_address\<close>: the parsed address decides how a client is counted. \<open>ipaddress\<close> is the
  parameter \<open>parse_ip\<close>.\<close>

datatype ip =
    IPv4 string
  | IPv6 (ipv4_mapped: "string option") (network_64: string) \<comment> \<open>the mapped IPv4 address, the /64 network\<close>

definition client_address :: "(string \<Rightarrow> ip option) \<Rightarrow> string option \<Rightarrow> string option \<Rightarrow> string" where
  "client_address parse_ip connecting_ip peer =
     (let header = (case connecting_ip of None \<Rightarrow> [] | Some a \<Rightarrow> a);
          address = (if header = [] then (case peer of None \<Rightarrow> [] | Some h \<Rightarrow> h) else header)
      in (case parse_ip address of
           None \<Rightarrow> if address = [] then ''unknown'' else address
         | Some (IPv4 a) \<Rightarrow> a
         | Some (IPv6 mapped network) \<Rightarrow> (case mapped of Some a \<Rightarrow> a | None \<Rightarrow> network)))"

section \<open>The budget of a window\<close>

text \<open>What the limiter relies on of Redis: \<open>count\<close> and \<open>expires\<close> observe the counters of a world
  (an expired counter counts 0), and \<open>passes\<close> relates two worlds between which nobody adds to them.
  A transaction that fails was applied or was not: the answer may be what got lost.\<close>

definition kept_counter :: "'w redis \<Rightarrow> (string \<Rightarrow> 'w \<Rightarrow> int) \<Rightarrow> (string \<Rightarrow> 'w \<Rightarrow> real) \<Rightarrow> string \<Rightarrow> 'w \<Rightarrow> 'w \<Rightarrow> bool" where
  "kept_counter R count expires k w w' =
     (if rd_wall R w' < expires k w then count k w' = count k w \<and> expires k w' = expires k w else count k w' = 0)"

definition added_counter ::
  "'w redis \<Rightarrow> (string \<Rightarrow> 'w \<Rightarrow> int) \<Rightarrow> (string \<Rightarrow> 'w \<Rightarrow> real) \<Rightarrow> string \<Rightarrow> int \<Rightarrow> int \<Rightarrow> 'w \<Rightarrow> 'w \<Rightarrow> bool" where
  "added_counter R count expires k n ttl w w' =
     (count k w' = count k w + n \<and> rd_wall R w + of_int ttl \<le> expires k w')"

definition counter_laws ::
  "'w redis \<Rightarrow> (string \<Rightarrow> 'w \<Rightarrow> int) \<Rightarrow> (string \<Rightarrow> 'w \<Rightarrow> real) \<Rightarrow> ('w \<Rightarrow> 'w \<Rightarrow> bool) \<Rightarrow> bool" where
  "counter_laws R count expires passes =
     ((\<forall>k n ttl w answer w'. 0 < ttl \<longrightarrow> rd_incr R k n ttl w = (answer, w') \<longrightarrow>
         (case answer of Some v \<Rightarrow> v = count k w + n \<and> added_counter R count expires k n ttl w w'
          | None \<Rightarrow> added_counter R count expires k n ttl w w' \<or> kept_counter R count expires k w w') \<and>
         (\<forall>k'. k' \<noteq> k \<longrightarrow> kept_counter R count expires k' w w')) \<and>
      (\<forall>k w w'. passes w w' \<longrightarrow> kept_counter R count expires k w w'))"

text \<open>Whether Redis counts a hit: the process asks it, and it answers.\<close>

definition counted :: "'w redis \<Rightarrow> string \<Rightarrow> int \<Rightarrow> int \<Rightarrow> real \<times> 'w \<Rightarrow> bool" where
  "counted R key cost window s = (case s of (down_until, w) \<Rightarrow> \<not> rd_monotonic R w < down_until \<and>
     fst (rd_incr R (counter_key key (window_number (rd_wall R w) window)) cost (window + 1) w) \<noteq> None)"

text \<open>The hits of any number of processes on one budget within one window: \<open>downs\<close> is when each of them
  asks a failed Redis again, \<open>passed\<close> the cost let through and \<open>free\<close> the part of it Redis did not count.
  Between two hits time may pass and other counters be hit, and Redis may fail at any of them.\<close>

inductive window_hits ::
  "'w redis \<Rightarrow> (string \<Rightarrow> 'w \<Rightarrow> int) \<Rightarrow> ('w \<Rightarrow> 'w \<Rightarrow> bool) \<Rightarrow> string \<Rightarrow> int \<Rightarrow> int \<Rightarrow> int \<Rightarrow>
    'w \<Rightarrow> (nat \<Rightarrow> real) \<Rightarrow> int \<Rightarrow> int \<Rightarrow> bool"
  for R count passes key limit window number where
  start: "window_number (rd_wall R w) window = number \<Longrightarrow> 0 \<le> count (counter_key key number) w \<Longrightarrow>
    window_hits R count passes key limit window number w downs 0 0"
| one_hit: "window_hits R count passes key limit window number w downs passed free \<Longrightarrow>
    window_number (rd_wall R w) window = number \<Longrightarrow> 0 \<le> cost \<Longrightarrow>
    hit R key limit cost window (downs process, w) = (wait, down, w') \<Longrightarrow>
    window_hits R count passes key limit window number w' (downs(process := down))
      (passed + (if wait = 0 then cost else 0))
      (free + (if wait = 0 \<and> \<not> counted R key cost window (downs process, w) then cost else 0))"
| other_hit: "window_hits R count passes key limit window number w downs passed free \<Longrightarrow>
    window_number (rd_wall R w) window = number \<Longrightarrow>
    rd_incr R k cost ttl w = (answer, w') \<Longrightarrow> k \<noteq> counter_key key number \<Longrightarrow> 0 < ttl \<Longrightarrow>
    window_hits R count passes key limit window number w' downs passed free"
| time: "window_hits R count passes key limit window number w downs passed free \<Longrightarrow>
    window_number (rd_wall R w) window = number \<Longrightarrow> passes w w' \<Longrightarrow>
    window_hits R count passes key limit window number w' downs passed free"

lemma window_bounds:
  assumes "0 < window" "window_number t window = number"
  shows "of_int (number * window) \<le> t" "t < of_int ((number + 1) * window)"
proof -
  have "of_int number \<le> t / of_int window" "t / of_int window < of_int number + 1"
    using assms(2) floor_correct[of "t / of_int window"] by (auto simp: window_number_def)
  then show "of_int (number * window) \<le> t" "t < of_int ((number + 1) * window)"
    using assms(1) by (simp_all add: pos_le_divide_eq pos_divide_less_eq)
qed

text \<open>The three outcomes of a hit: not asked or not answered it passes, else the count decides.\<close>

lemma hit_cases:
  assumes "hit R key limit cost window (down, w) = (wait, down', w')" "0 < limit"
    "window_number (rd_wall R w) window = number"
  obtains (silent) "rd_monotonic R w < down" "wait = 0" "down' = down" "w' = w"
      "\<not> counted R key cost window (down, w)"
    | (failed) "\<not> rd_monotonic R w < down" "rd_incr R (counter_key key number) cost (window + 1) w = (None, w')"
        "wait = 0" "down' = rd_monotonic R w' + DOWN_SECONDS" "\<not> counted R key cost window (down, w)"
    | (answered) n where "\<not> rd_monotonic R w < down" "down' = down"
        "rd_incr R (counter_key key number) cost (window + 1) w = (Some n, w')"
        "wait = (if n \<le> limit then 0 else max (of_int ((number + 1) * window) - rd_wall R w) (1 / 1000))"
        "counted R key cost window (down, w)"
  using assms by (auto simp: hit_def counted_def Let_def split: if_splits prod.splits option.splits)

text \<open>Invariant: the counter counts at least what it let through, and outlives the window.\<close>

definition counter_holds ::
  "'w redis \<Rightarrow> (string \<Rightarrow> 'w \<Rightarrow> int) \<Rightarrow> (string \<Rightarrow> 'w \<Rightarrow> real) \<Rightarrow> string \<Rightarrow> int \<Rightarrow> int \<Rightarrow> 'w \<Rightarrow> int \<Rightarrow> bool" where
  "counter_holds R count expires k window number w taken =
     (window_number (rd_wall R w) window = number \<longrightarrow> 0 \<le> count k w \<and>
       (taken = 0 \<or> taken \<le> count k w \<and> of_int ((number + 1) * window) \<le> expires k w))"

lemma counter_holds_kept:
  assumes "counter_holds R count expires k window number w taken" "window_number (rd_wall R w) window = number"
    and "kept_counter R count expires k w w'" "0 < window"
  shows "counter_holds R count expires k window number w' taken"
  unfolding counter_holds_def
proof
  assume "window_number (rd_wall R w') window = number"
  from window_bounds(2)[OF assms(4) this] assms(1-3)
  show "0 \<le> count k w' \<and> (taken = 0 \<or> taken \<le> count k w' \<and> of_int ((number + 1) * window) \<le> expires k w')"
    by (auto simp: counter_holds_def kept_counter_def split: if_splits)
qed

lemma counter_holds_added:
  assumes "counter_holds R count expires k window number w taken" "window_number (rd_wall R w) window = number"
    and "added_counter R count expires k cost (window + 1) w w'" "0 < window" "0 \<le> cost"
    and "taken' = taken \<or> taken' \<le> count k w'"
  shows "counter_holds R count expires k window number w' taken'"
proof -
  have "of_int ((number + 1) * window) \<le> rd_wall R w + of_int window"
    using window_bounds(1)[OF assms(4,2)] by (simp add: algebra_simps)
  then have "of_int ((number + 1) * window) \<le> expires k w'" using assms(3) by (simp add: added_counter_def)
  then show ?thesis using assms(1-3,5,6) by (auto simp: counter_holds_def added_counter_def)
qed

lemma window_hits_count:
  assumes laws: "counter_laws R count expires passes" and "0 < limit" "0 < window"
    and "window_hits R count passes key limit window number w downs passed free"
  shows "0 \<le> free \<and> passed \<le> limit + free \<and>
    counter_holds R count expires (counter_key key number) window number w (passed - free)"
proof -
  let ?k = "counter_key key number"
  have incr: "(case answer of Some v \<Rightarrow> v = count k w + n \<and> added_counter R count expires k n ttl w w'
          | None \<Rightarrow> added_counter R count expires k n ttl w w' \<or> kept_counter R count expires k w w') \<and>
      (k' \<noteq> k \<longrightarrow> kept_counter R count expires k' w w')"
    if "rd_incr R k n ttl w = (answer, w')" "0 < ttl" for k k' n ttl w answer w'
    using laws that unfolding counter_laws_def by blast
  have kept: "passes w w' \<Longrightarrow> kept_counter R count expires ?k w w'" for w w'
    using laws unfolding counter_laws_def by blast
  have pos: "0 < window + 1" using \<open>0 < window\<close> by simp
  from assms(4) show ?thesis
  proof (induction rule: window_hits.induct)
    case (one_hit w downs passed free cost process wait down w')
    note IH = one_hit(5) and holds = conjunct2[OF conjunct2[OF one_hit(5)]]
    from one_hit(4) \<open>0 < limit\<close> one_hit(2) show ?case
    proof (cases rule: hit_cases)
      case silent
      then show ?thesis using IH one_hit(3) by simp
    next
      case failed
      have "counter_holds R count expires ?k window number w' (passed - free)"
        using incr[OF failed(2) pos] counter_holds_added[OF holds one_hit(2) _ \<open>0 < window\<close> one_hit(3)]
          counter_holds_kept[OF holds one_hit(2) _ \<open>0 < window\<close>] by auto
      then show ?thesis using IH one_hit(3) failed(3,5) by simp
    next
      case (answered n)
      have n: "n = count ?k w + cost" "added_counter R count expires ?k cost (window + 1) w w'"
        using incr[OF answered(3) pos] by simp_all
      have wait: "wait = 0 \<longleftrightarrow> n \<le> limit" using answered(4) by auto
      have count: "count ?k w' = n" using n by (simp add: added_counter_def)
      have low: "passed - free \<le> count ?k w \<or> passed - free = 0" "0 \<le> count ?k w"
        using holds one_hit(2) by (auto simp: counter_holds_def)
      have "counter_holds R count expires ?k window number w' (passed - free + (if wait = 0 then cost else 0))"
        by (rule counter_holds_added[OF holds one_hit(2) n(2) \<open>0 < window\<close> one_hit(3)])
          (use low n(1) count one_hit(3) in auto)
      moreover have "passed + (if wait = 0 then cost else 0) \<le> limit + free"
        using IH low n(1) wait one_hit(3) by (auto split: if_splits)
      ultimately show ?thesis using IH answered(5) by (simp add: algebra_simps)
    qed
  next
    case (other_hit w downs passed free k cost ttl answer w')
    then show ?case using incr[OF other_hit(3,5)] counter_holds_kept[OF _ other_hit(2) _ \<open>0 < window\<close>] by metis
  next
    case (time w downs passed free w')
    then show ?case using kept counter_holds_kept[OF _ time(2) _ \<open>0 < window\<close>] by metis
  qed (use \<open>0 < limit\<close> in \<open>simp add: counter_holds_def\<close>)
qed


text \<open>A Redis that keeps its counters and their expiries in functions, with its clock: the laws can hold.\<close>

type_synonym counters = "real \<times> (string \<Rightarrow> int) \<times> (string \<Rightarrow> real)"

definition example_count :: "string \<Rightarrow> counters \<Rightarrow> int" where
  "example_count k w = (case w of (t, c, e) \<Rightarrow> if t < e k then c k else 0)"

definition example_redis :: "counters redis" where
  "example_redis = \<lparr>rd_wall = fst, rd_monotonic = fst,
     rd_incr = (\<lambda>k n ttl w. let v = example_count k w + n
       in (Some v, fst w, (fst (snd w))(k := v), (snd (snd w))(k := fst w + of_int ttl))),
     rd_get = (\<lambda>k w. (Some None, w)), rd_mget = (\<lambda>ks w. (None, w)), rd_set = (\<lambda>k v ttl w. (None, w)),
     rd_set_nx = (\<lambda>k v ttl w. (None, w)), rd_delete = (\<lambda>k w. (None, w)), rd_release = (\<lambda>k v w. (None, w)),
     rd_extend = (\<lambda>k v ttl w. (None, w)), rd_getrange = (\<lambda>k a b w. (None, w)), rd_sleep = (\<lambda>s w. (fst w + s, snd w))\<rparr>"

lemma example_counter_laws:
  "counter_laws example_redis example_count (\<lambda>k w. snd (snd w) k) (\<lambda>w w'. fst w \<le> fst w' \<and> snd w = snd w')"
  by (auto simp: counter_laws_def kept_counter_def added_counter_def example_redis_def example_count_def Let_def)


end
