(* ===== verification/DataHttp.thy ===== *)
theory DataHttp
  imports DataModels CoreRateLimit
begin

text \<open>
  Effects, and what both sources share of HTTP: \<open>core/http.py\<close> (retries) and the helpers of
  \<open>data/sources/base.py\<close> (our request budget, responses as errors). An effect is a function of the
  state of the world; a coroutine that raises gives the error as a value, and the world after it.
  The HTTP client, the clock and \<open>Retry-After\<close> dates are a parameter (\<open>net\<close>); JSON is a parameter
  of the readers.
\<close>

section \<open>Effects\<close>

text \<open>What is raised: an error of the data module, or anything else, by its name.\<close>

datatype raised = DataFault data_error | Crash string

type_synonym ('w, 'a) io = "'w \<Rightarrow> (raised + 'a) \<times> 'w"

definition io_return :: "'a \<Rightarrow> ('w, 'a) io" where
  "io_return x w = (Inr x, w)"

definition io_raise :: "raised \<Rightarrow> ('w, 'a) io" where
  "io_raise e w = (Inl e, w)"

definition io_fault :: "data_error \<Rightarrow> ('w, 'a) io" where
  "io_fault e = io_raise (DataFault e)"

definition io_bind :: "('w, 'a) io \<Rightarrow> ('a \<Rightarrow> ('w, 'b) io) \<Rightarrow> ('w, 'b) io" where
  "io_bind f g w = (case f w of (Inl e, w') \<Rightarrow> (Inl e, w') | (Inr x, w') \<Rightarrow> g x w')"

text \<open>\<open>except DataError\<close>: the handler sees the error.\<close>

definition io_catch :: "('w, 'a) io \<Rightarrow> (data_error \<Rightarrow> ('w, 'a) io) \<Rightarrow> ('w, 'a) io" where
  "io_catch f h w = (case f w of (Inl (DataFault e), w') \<Rightarrow> h e w' | r \<Rightarrow> r)"

definition io_lift :: "data_error + 'a \<Rightarrow> ('w, 'a) io" where
  "io_lift r = (case r of Inl e \<Rightarrow> io_fault e | Inr x \<Rightarrow> io_return x)"

text \<open>One after another. The sources also run calls side by side (\<open>asyncio.gather\<close>), which gives the
  same results in the same order; how their requests interleave is left open there.\<close>

fun io_each :: "('a \<Rightarrow> ('w, 'b) io) \<Rightarrow> 'a list \<Rightarrow> ('w, 'b list) io" where
  "io_each f [] = io_return []"
| "io_each f (x # xs) = io_bind (f x) (\<lambda>y. io_bind (io_each f xs) (\<lambda>ys. io_return (y # ys)))"

lemma io_simps [simp]:
  "io_bind (io_return x) g = g x" "io_bind (io_raise e) g = io_raise e"
  "io_bind (io_fault d) g = io_fault d" "io_lift (Inr x) = io_return x" "io_lift (Inl d) = io_fault d"
  by (auto simp: io_bind_def io_return_def io_raise_def io_fault_def io_lift_def fun_eq_iff)

lemma io_bind_Inr: "io_bind f g w = (Inr y, w'') \<longleftrightarrow> (\<exists>x w'. f w = (Inr x, w') \<and> g x w' = (Inr y, w''))"
  by (auto simp: io_bind_def split: prod.splits sum.splits)

lemma io_bind_Inl: "io_bind f g w = (Inl e, w'') \<longleftrightarrow> f w = (Inl e, w'') \<or> (\<exists>x w'. f w = (Inr x, w') \<and> g x w' = (Inl e, w''))"
  by (auto simp: io_bind_def split: prod.splits sum.splits)

lemma io_bind_step: "f w = (Inr x, w') \<Longrightarrow> io_bind f g w = g x w'" "f w = (Inl e, w') \<Longrightarrow> io_bind f g w = (Inl e, w')"
  by (simp_all add: io_bind_def)

section \<open>Responses\<close>

record response =
  status_code :: int
  header :: "string \<Rightarrow> string option"
  content :: string

text \<open>The failures of a request: those \<open>RETRY_ERRORS\<close> lists, another timeout, another \<open>HTTPError\<close>
  with its type's name.\<close>

datatype http_failure = ConnectError | ConnectTimeout | RemoteProtocolError | OtherTimeout string | OtherHttpError string

type_synonym params = "(string \<times> string) list"

record 'w net =
  nt_send :: "string \<Rightarrow> params \<Rightarrow> 'w \<Rightarrow> (http_failure + response) \<times> 'w"
  nt_sleep :: "real \<Rightarrow> 'w \<Rightarrow> 'w"
  nt_now :: "'w \<Rightarrow> real"
  nt_date :: "string \<Rightarrow> real option" \<comment> \<open>\<open>parsedate_to_datetime\<close> as epoch seconds\<close>
  nt_hit :: "string \<Rightarrow> int \<Rightarrow> int \<Rightarrow> 'w \<Rightarrow> real \<times> 'w" \<comment> \<open>\<open>RateLimiter.hit\<close> with a window of 60 seconds\<close>

definition RETRY_STATUSES :: "int list" where
  "RETRY_STATUSES = [429, 500, 502, 503, 504]"

definition retry_error :: "http_failure \<Rightarrow> bool" where
  "retry_error f = (f = ConnectError \<or> f = ConnectTimeout \<or> f = RemoteProtocolError)"

text \<open>\<open>retry_after\<close>. \<open>max(0.0, x)\<close> is 0 unless \<open>x > 0\<close>, so also for a nan.\<close>

definition fl_max_0 :: "fl \<Rightarrow> fl" where
  "fl_max_0 x = (case x of Fin r \<Rightarrow> Fin (max 0 r) | PInf \<Rightarrow> PInf | _ \<Rightarrow> Fin 0)"

definition retry_after :: "'w net \<Rightarrow> response \<Rightarrow> 'w \<Rightarrow> fl option" where
  "retry_after N r w = (case header r ''Retry-After'' of
      None \<Rightarrow> None
    | Some v \<Rightarrow> (case float_of_text v of
          Some x \<Rightarrow> Some (fl_max_0 x)
        | None \<Rightarrow> map_option (\<lambda>t. Fin (max 0 (t - nt_now N w))) (nt_date N v)))"

text \<open>\<open>request_with_retry\<close> from attempt \<open>attempt\<close> on, with \<open>left\<close> more attempts allowed. Closing a
  response has no effect that is modelled.\<close>

definition exceeds :: "fl \<Rightarrow> real \<Rightarrow> bool" where
  "exceeds d limit = (case d of Fin r \<Rightarrow> r > limit | PInf \<Rightarrow> True | _ \<Rightarrow> False)"

definition fl_real :: "fl \<Rightarrow> real" where
  "fl_real d = (case d of Fin r \<Rightarrow> r | _ \<Rightarrow> 0)"

fun request_from :: "'w net \<Rightarrow> string \<Rightarrow> params \<Rightarrow> real \<Rightarrow> real \<Rightarrow> nat \<Rightarrow> nat \<Rightarrow> 'w \<Rightarrow> (http_failure + response) \<times> 'w" where
  "request_from N url ps backoff max_delay attempt left w =
     (case nt_send N url ps w of
        (Inl f, w') \<Rightarrow>
          if \<not> retry_error f then (Inl f, w')
          else (case left of
            0 \<Rightarrow> (Inl f, w')
          | Suc k \<Rightarrow> request_from N url ps backoff max_delay (Suc attempt) k
              (nt_sleep N (backoff * 2 ^ (attempt - 1)) w'))
      | (Inr r, w') \<Rightarrow>
          if status_code r \<notin> set RETRY_STATUSES then (Inr r, w')
          else (case left of
            0 \<Rightarrow> (Inr r, w')
          | Suc k \<Rightarrow>
              (let delay = (case retry_after N r w' of None \<Rightarrow> Fin (backoff * 2 ^ (attempt - 1)) | Some d \<Rightarrow> d)
               in if exceeds delay max_delay then (Inr r, w')
                  else request_from N url ps backoff max_delay (Suc attempt) k (nt_sleep N (fl_real delay) w'))))"

declare request_from.simps [simp del]

definition request_with_retry :: "'w net \<Rightarrow> string \<Rightarrow> params \<Rightarrow> nat \<Rightarrow> real \<Rightarrow> real \<Rightarrow> 'w \<Rightarrow> (http_failure + response) \<times> 'w" where
  "request_with_retry N url ps attempts backoff max_delay w = request_from N url ps backoff max_delay 1 (attempts - 1) w"

text \<open>The defaults of its parameters.\<close>

definition request :: "'w net \<Rightarrow> string \<Rightarrow> params \<Rightarrow> 'w \<Rightarrow> (http_failure + response) \<times> 'w" where
  "request N url ps = request_with_retry N url ps 3 (1 / 2) 10"

text \<open>The limiter of \<open>CoreRateLimit\<close> as the \<open>nt_hit\<close> of a net: its world holds the limiter's state.\<close>

definition limited :: "'w redis \<Rightarrow> (real \<times> 'w) net \<Rightarrow> (real \<times> 'w) net" where
  "limited R N = N\<lparr>nt_hit := \<lambda>key limit cost. hit R key limit cost 60\<rparr>"

section \<open>The helpers of the sources\<close>

definition MAX_BUDGET_WAIT :: real where "MAX_BUDGET_WAIT = 5"

text \<open>\<open>int(x)\<close> and \<open>math.ceil(x)\<close> of a float raise \<open>OverflowError\<close> for an infinite one and
  \<open>ValueError\<close> for a nan: \<open>None\<close>.\<close>

definition fl_trunc :: "fl \<Rightarrow> int option" where
  "fl_trunc d = (case d of Fin r \<Rightarrow> Some (if r \<ge> 0 then \<lfloor>r\<rfloor> else \<lceil>r\<rceil>) | _ \<Rightarrow> None)"

definition fl_ceil :: "fl \<Rightarrow> int option" where
  "fl_ceil d = (case d of Fin r \<Rightarrow> Some \<lceil>r\<rceil> | _ \<Rightarrow> None)"

text \<open>\<open>retry_after(response) or 60\<close>: no value, or 0, is 60.\<close>

definition retry_or_60 :: "fl option \<Rightarrow> fl" where
  "retry_or_60 d = (case d of None \<Rightarrow> Fin 60 | Some x \<Rightarrow> if x = Fin 0 then Fin 60 else x)"

text \<open>The texts of the errors, as far as they are data: what failed, with its numbers.\<close>

definition budget_spent :: "string \<Rightarrow> string \<Rightarrow> int \<Rightarrow> data_error" where
  "budget_spent source what secs =
     SourceUnavailable source (''Our '' @ what @ '' is spent. Try again in '' @ show_int secs @ '' seconds.'') (Some secs) False"

definition spend :: "'w net \<Rightarrow> string \<Rightarrow> string \<Rightarrow> string \<Rightarrow> int \<Rightarrow> int \<Rightarrow> ('w, unit) io" where
  "spend N source what key limit cost w =
     (let (wait, w1) = nt_hit N key limit cost w;
          (wait, w2) = (if wait > 0 \<and> wait \<le> MAX_BUDGET_WAIT then nt_hit N key limit cost (nt_sleep N wait w1) else (wait, w1))
      in if wait > 0 then (Inl (DataFault (budget_spent source what \<lceil>wait\<rceil>)), w2) else (Inr (), w2))"

definition no_answer :: "string \<Rightarrow> string \<Rightarrow> http_failure \<Rightarrow> data_error" where
  "no_answer source title f = (case f of
      ConnectTimeout \<Rightarrow> SourceUnavailable source (title @ '' did not answer in time. Try again in a minute.'') None False
    | OtherTimeout _ \<Rightarrow> SourceUnavailable source (title @ '' did not answer in time. Try again in a minute.'') None False
    | ConnectError \<Rightarrow> SourceUnavailable source (title @ '' could not be reached (ConnectError). Try again in a minute.'') None False
    | RemoteProtocolError \<Rightarrow> SourceUnavailable source (title @ '' could not be reached (RemoteProtocolError). Try again in a minute.'') None False
    | OtherHttpError name \<Rightarrow> SourceUnavailable source (title @ '' could not be reached ('' @ name @ ''). Try again in a minute.'') None False)"

definition http_get :: "'w net \<Rightarrow> string \<Rightarrow> string \<Rightarrow> string \<Rightarrow> params \<Rightarrow> ('w, response) io" where
  "http_get N source title url ps w = (case request N url ps w of
      (Inl f, w') \<Rightarrow> (Inl (DataFault (no_answer source title f)), w')
    | (Inr r, w') \<Rightarrow> (Inr r, w'))"

definition json_body :: "(string \<Rightarrow> 'j option) \<Rightarrow> string \<Rightarrow> string \<Rightarrow> response \<Rightarrow> data_error + 'j" where
  "json_body loads source title r = (case loads (content r) of
      None \<Rightarrow> Inl (DataIntegrityError (title @ '' sent a response that is not valid JSON'') (Some source))
    | Some j \<Rightarrow> Inr j)"

text \<open>\<open>unavailable\<close>: the error to raise. An infinite \<open>Retry-After\<close> ends in an \<open>OverflowError\<close>.\<close>

definition rate_limited :: "string \<Rightarrow> string \<Rightarrow> int option \<Rightarrow> raised" where
  "rate_limited source title after = (case after of
      None \<Rightarrow> Crash ''OverflowError''
    | Some secs \<Rightarrow> DataFault (SourceUnavailable source
        (title @ '' is rate limiting our requests. Try again in '' @ show_int secs @ '' seconds.'') (Some secs) False))"

definition unavailable :: "'w net \<Rightarrow> string \<Rightarrow> string \<Rightarrow> response \<Rightarrow> 'w \<Rightarrow> raised" where
  "unavailable N source title r w =
     (let status = status_code r
      in if status = 429 then rate_limited source title (fl_ceil (retry_or_60 (retry_after N r w)))
         else if status \<ge> 500 then DataFault (SourceUnavailable source
             (title @ '' failed with HTTP '' @ show_int status @ ''. Try again in a minute.'') None False)
         else DataFault (SourceUnavailable source
             (title @ '' rejected our request with HTTP '' @ show_int status @ ''. Try again later.'') None (400 \<le> status \<and> status < 500)))"

section \<open>Retries are bounded\<close>

text \<open>\<open>sent\<close> counts the requests of a world and \<open>slept\<close> the seconds waited in it.\<close>

definition counts_requests :: "'w net \<Rightarrow> ('w \<Rightarrow> nat) \<Rightarrow> ('w \<Rightarrow> real) \<Rightarrow> bool" where
  "counts_requests N sent slept =
     ((\<forall>url ps w. sent (snd (nt_send N url ps w)) = Suc (sent w) \<and> slept (snd (nt_send N url ps w)) = slept w) \<and>
      (\<forall>d w. sent (nt_sleep N d w) = sent w \<and> slept (nt_sleep N d w) = slept w + d))"

text \<open>A result that is worth another attempt, and the attempts are used or its wait is too long.\<close>

definition gave_up :: "'w net \<Rightarrow> real \<Rightarrow> bool \<Rightarrow> (http_failure + response) \<Rightarrow> 'w \<Rightarrow> bool" where
  "gave_up N max_delay used_up r w = (case r of
      Inl f \<Rightarrow> retry_error f \<longrightarrow> used_up
    | Inr resp \<Rightarrow> status_code resp \<in> set RETRY_STATUSES \<longrightarrow> used_up \<or>
        (case retry_after N resp w of None \<Rightarrow> True | Some d \<Rightarrow> exceeds d max_delay))"

lemma backoff_le: "attempt + left \<le> n \<Longrightarrow> 0 \<le> backoff \<Longrightarrow> backoff * 2 ^ (attempt - 1) \<le> backoff * 2 ^ (n - 1)" for backoff :: real
  by (intro mult_left_mono power_increasing) auto

lemma request_from_bounded:
  assumes "counts_requests N sent slept" "0 \<le> backoff" "attempt + left \<le> n" "0 < attempt"
    "backoff * 2 ^ (n - 1) \<le> max_delay"
    "request_from N url ps backoff max_delay attempt left w = (r, w')"
  shows "sent w < sent w' \<and> sent w' \<le> sent w + left + 1 \<and> slept w \<le> slept w' \<and> slept w' \<le> slept w + left * max_delay \<and>
    gave_up N max_delay (sent w' = sent w + left + 1) r w'"
  using assms(3,4,6)
proof (induction left arbitrary: attempt w)
  case 0
  obtain r1 w1 where s: "nt_send N url ps w = (r1, w1)" by fastforce
  then have "r = r1 \<and> w' = w1" using 0(3) by (subst (asm) request_from.simps) (auto split: sum.splits if_splits)
  moreover have "sent w1 = Suc (sent w) \<and> slept w1 = slept w" using assms(1) s unfolding counts_requests_def by (metis snd_conv)
  ultimately show ?case by (auto simp: gave_up_def split: sum.splits)
next
  case (Suc left)
  obtain r1 w1 where s: "nt_send N url ps w = (r1, w1)" by fastforce
  have w1: "sent w1 = Suc (sent w)" "slept w1 = slept w" using assms(1) s unfolding counts_requests_def by (metis snd_conv)+
  have sleep: "sent (nt_sleep N d u) = sent u" "slept (nt_sleep N d u) = slept u + d" for d u
    using assms(1) unfolding counts_requests_def by blast+
  have limit: "0 \<le> max_delay" using assms(2,5) by (meson mult_nonneg_nonneg order_trans zero_le_numeral zero_le_power)
  have once: ?case if "r = r1" "w' = w1" "gave_up N max_delay False r1 w1"
    using that w1 limit by (auto simp: gave_up_def split: sum.splits option.splits)
  have again: ?case if "request_from N url ps backoff max_delay (Suc attempt) left (nt_sleep N d w1) = (r, w')" "0 \<le> d" "d \<le> max_delay" for d
  proof -
    have IH: "sent (nt_sleep N d w1) < sent w'" "sent w' \<le> sent (nt_sleep N d w1) + left + 1"
        "slept (nt_sleep N d w1) \<le> slept w'" "slept w' \<le> slept (nt_sleep N d w1) + left * max_delay"
        "gave_up N max_delay (sent w' = sent (nt_sleep N d w1) + left + 1) r w'"
      using Suc.IH[OF _ _ that(1)] Suc.prems(1) by auto
    have "real (Suc left) * max_delay = max_delay + left * max_delay" by (simp add: algebra_simps)
    then have "slept w' \<le> slept w + Suc left * max_delay" using IH(4) that(3) w1(2) by (simp add: sleep)
    moreover have "gave_up N max_delay (sent w' = sent w + Suc left + 1) r w'" using IH(5) by (simp add: sleep w1)
    ultimately show ?thesis using IH(1-3) that(2) by (simp add: sleep w1)
  qed
  have b: "0 \<le> backoff * 2 ^ (attempt - 1)" "backoff * 2 ^ (attempt - 1) \<le> max_delay"
    using assms(2,5) backoff_le[OF Suc.prems(1) assms(2)] by simp_all
  show ?case
  proof (cases r1)
    case (Inl f)
    show ?thesis
    proof (cases "retry_error f")
      case True
      then show ?thesis using again[of "backoff * 2 ^ (attempt - 1)"] b Suc.prems(3) s Inl
        by (subst (asm) request_from.simps) simp
    next
      case False
      then have "r = r1 \<and> w' = w1" using Suc.prems(3) s Inl by (subst (asm) request_from.simps) auto
      then show ?thesis using once False Inl by (simp add: gave_up_def)
    qed
  next
    case (Inr resp)
    define delay where "delay = (case retry_after N resp w1 of None \<Rightarrow> Fin (backoff * 2 ^ (attempt - 1)) | Some d \<Rightarrow> d)"
    show ?thesis
    proof (cases "status_code resp \<in> set RETRY_STATUSES \<and> \<not> exceeds delay max_delay")
      case True
      have "0 \<le> fl_real delay \<and> fl_real delay \<le> max_delay"
        using True b limit by (auto simp: delay_def exceeds_def fl_real_def retry_after_def fl_max_0_def split: option.splits fl.splits)
      then show ?thesis using again[of "fl_real delay"] True Suc.prems(3) s Inr
        by (subst (asm) request_from.simps) (simp add: delay_def[symmetric] Let_def)
    next
      case False
      have "r = r1 \<and> w' = w1" using False Suc.prems(3) s Inr
        by (subst (asm) request_from.simps) (auto simp: delay_def Let_def split: if_splits)
      moreover have "gave_up N max_delay False r1 w1"
        using False b Inr by (auto simp: gave_up_def delay_def exceeds_def split: option.splits)
      ultimately show ?thesis using once by blast
    qed
  qed
qed

text \<open>A call to a source sends one to three requests and waits at most 20 seconds for them; it
  ends with a failure worth a retry only after three requests, and with a status worth a retry only
  then or when the source asks for a longer wait than 10 seconds.\<close>

theorem request_bounded:
  assumes "counts_requests N sent slept" "request N url ps w = (r, w')"
  shows "sent w < sent w' \<and> sent w' \<le> sent w + 3 \<and> slept w \<le> slept w' \<and> slept w' \<le> slept w + 20 \<and>
    gave_up N 10 (sent w' = sent w + 3) r w'"
  using request_from_bounded[OF assms(1), of "1 / 2" 1 2 3 10 url ps w r w'] assms(2)
  by (simp add: request_def request_with_retry_def numeral_eq_Suc)

text \<open>A net that answers 503 twice and then 200, and counts.\<close>

definition example_response :: "int \<Rightarrow> response" where
  "example_response status = \<lparr>status_code = status, header = (\<lambda>_. None), content = []\<rparr>"

definition example_net :: "(nat \<times> real) net" where
  "example_net = \<lparr>nt_send = (\<lambda>url ps (n, t). (Inr (example_response (if n < 2 then 503 else 200)), Suc n, t)),
     nt_sleep = (\<lambda>d (n, t). (n, t + d)), nt_now = snd, nt_date = (\<lambda>_. None), nt_hit = (\<lambda>_ _ _ w. (0, w))\<rparr>"

theorem request_bounded_witness:
  "request example_net ''u'' [] (0, 0) = (Inr (example_response 200), 3, 3 / 2) \<and> (3 / 2 :: real) \<le> 20"
proof
  show r: "request example_net ''u'' [] (0, 0) = (Inr (example_response 200), 3, 3 / 2)"
    by (simp add: request_def request_with_retry_def request_from.simps example_net_def example_response_def RETRY_STATUSES_def
        retry_after_def exceeds_def fl_real_def numeral_eq_Suc)
  have "counts_requests example_net fst snd"
    by (auto simp: counts_requests_def example_net_def)
  from request_bounded[OF this r] show "(3 / 2 :: real) \<le> 20" by simp
qed

end
