(* ===== verification/DataCache.thy ===== *)
theory DataCache
  imports DataHttp DataFingerprint
begin

text \<open>
  \<open>data/cache.py\<close>: the names of the stored values, the methods of \<open>Cache\<close>, the stored errors and
  chunks, and \<open>get_or_fetch\<close> as the steps between its awaits. Redis is the parameter \<open>redis\<close> of
  CoreRateLimit; a value is a byte string. JSON, Arrow IPC and the random tokens are parameters.
\<close>

section \<open>Names\<close>

definition VERSIONS :: "(string \<times> nat) list" where
  "VERSIONS = [(''candles'', 2), (''catalog'', 2), (''candles:stock'', 3), (''first:stock'', 2), (''stats:stock'', 2), (''spark:stock'', 2)]"

definition LOCK_PREFIX :: string where "LOCK_PREFIX = ''data:lock:''"
definition FAIL_PREFIX :: string where "FAIL_PREFIX = ''data:fail:''"
definition LOCK_TTL_MS :: int where "LOCK_TTL_MS = 30000"
definition FAIL_SECONDS :: int where "FAIL_SECONDS = 10"
definition POLL_SECONDS :: real where "POLL_SECONDS = 1 / 10"

definition name_version :: "string \<Rightarrow> nat" where
  "name_version name =
     (let (family, rest) = partition_on CHR '':'' name;
          market = fst (partition_on CHR '':'' (case rest of None \<Rightarrow> [] | Some r \<Rightarrow> r))
      in (case map_of VERSIONS (family @ '':'' @ market) of
           Some v \<Rightarrow> v
         | None \<Rightarrow> (case map_of VERSIONS family of Some v \<Rightarrow> v | None \<Rightarrow> 1)))"

definition versioned :: "string \<Rightarrow> string" where
  "versioned name = ''v'' @ show_nat (name_version name) @ '':'' @ name"

definition cache_key :: "string \<Rightarrow> string" where "cache_key name = ''data:'' @ versioned name"
definition lock_key :: "string \<Rightarrow> string" where "lock_key name = LOCK_PREFIX @ versioned name"
definition fail_key :: "string \<Rightarrow> string" where "fail_key name = FAIL_PREFIX @ versioned name"

lemma digit_not_sep: "is_digit c \<Longrightarrow> c \<noteq> CHR '':''"
  by (auto simp: is_digit_def code_of_def)

text \<open>A name is what follows the first colon of its versioned name.\<close>

lemma versioned_inj: "versioned a = versioned b \<Longrightarrow> a = b"
proof -
  assume eq: "versioned a = versioned b"
  have split: "dropWhile (\<lambda>c. c \<noteq> CHR '':'') (versioned n) = CHR '':'' # n" for n
  proof -
    have "\<forall>c \<in> set (show_nat (name_version n)). c \<noteq> CHR '':''"
      using show_nat_digits digit_not_sep by blast
    then have "dropWhile (\<lambda>c. c \<noteq> CHR '':'') (show_nat (name_version n) @ CHR '':'' # n) = CHR '':'' # n"
      by (simp add: dropWhile_append3 dropWhile_append2)
    then show ?thesis by (simp add: versioned_def)
  qed
  have "CHR '':'' # a = CHR '':'' # b" using split[of a] split[of b] unfolding eq by (simp only:)
  then show ?thesis by simp
qed

lemma key_prefixes:
  "cache_key a \<noteq> lock_key b" "cache_key a \<noteq> fail_key b" "lock_key a \<noteq> fail_key b"
  by (simp_all add: cache_key_def lock_key_def fail_key_def LOCK_PREFIX_def FAIL_PREFIX_def versioned_def)

text \<open>Every name has its own value, lock and error in Redis: no two of the keys of any names are
  the same.\<close>

theorem cache_keys_disjoint:
  "inj cache_key \<and> inj lock_key \<and> inj fail_key \<and>
   range cache_key \<inter> range lock_key = {} \<and> range cache_key \<inter> range fail_key = {} \<and> range lock_key \<inter> range fail_key = {}"
  using versioned_inj key_prefixes by (auto intro!: injI simp: cache_key_def lock_key_def fail_key_def)

section \<open>The methods of Cache\<close>

text \<open>The state of a \<open>Cache\<close> is until when Redis is skipped. \<open>down\<close> runs a command unless Redis is
  skipped; a failed command sets the skip.\<close>

definition cache_command :: "'w redis \<Rightarrow> ('w \<Rightarrow> 'a option \<times> 'w) \<Rightarrow> 'a \<Rightarrow> real \<times> 'w \<Rightarrow> 'a \<times> real \<times> 'w" where
  "cache_command R command otherwise s = (case s of (down_until, w) \<Rightarrow>
     if rd_monotonic R w < down_until then (otherwise, down_until, w)
     else (case command w of
         (None, w') \<Rightarrow> (otherwise, rd_monotonic R w' + DOWN_SECONDS, w')
       | (Some x, w') \<Rightarrow> (x, down_until, w')))"

definition cache_available :: "'w redis \<Rightarrow> real \<times> 'w \<Rightarrow> bool" where
  "cache_available R s = (\<not> rd_monotonic R (snd s) < fst s)"

definition cache_get :: "'w redis \<Rightarrow> string \<Rightarrow> real \<times> 'w \<Rightarrow> string option \<times> real \<times> 'w" where
  "cache_get R name = cache_command R (rd_get R (cache_key name)) None"

definition cache_get_many :: "'w redis \<Rightarrow> string list \<Rightarrow> real \<times> 'w \<Rightarrow> string option list \<times> real \<times> 'w" where
  "cache_get_many R names s =
     (if names = [] then ([], s)
      else cache_command R (rd_mget R (map cache_key names)) (replicate (length names) None) s)"

definition cache_store :: "'w redis \<Rightarrow> string \<Rightarrow> string \<Rightarrow> int \<Rightarrow> real \<times> 'w \<Rightarrow> real \<times> 'w" where
  "cache_store R k v ttl s = snd (cache_command R (rd_set R k v ttl) () s)"

definition cache_set :: "'w redis \<Rightarrow> string \<Rightarrow> string \<Rightarrow> int \<Rightarrow> real \<times> 'w \<Rightarrow> real \<times> 'w" where
  "cache_set R name = cache_store R (cache_key name)"

definition cache_delete :: "'w redis \<Rightarrow> string \<Rightarrow> real \<times> 'w \<Rightarrow> real \<times> 'w" where
  "cache_delete R name s = snd (cache_command R (rd_delete R (cache_key name)) () s)"

definition cache_lock :: "'w redis \<Rightarrow> string \<Rightarrow> string \<Rightarrow> int \<Rightarrow> real \<times> 'w \<Rightarrow> string option \<times> real \<times> 'w" where
  "cache_lock R token name ttl_ms s =
     (case cache_command R (rd_set_nx R (lock_key name) token ttl_ms) True s of
        (taken, s') \<Rightarrow> (if taken then Some token else None, s'))"

definition cache_extend :: "'w redis \<Rightarrow> string \<Rightarrow> string \<Rightarrow> int \<Rightarrow> real \<times> 'w \<Rightarrow> bool \<times> real \<times> 'w" where
  "cache_extend R name token ttl_ms = cache_command R (rd_extend R (lock_key name) token ttl_ms) True"

definition cache_release :: "'w redis \<Rightarrow> string \<Rightarrow> string \<Rightarrow> real \<times> 'w \<Rightarrow> real \<times> 'w" where
  "cache_release R lock token s = snd (cache_command R (rd_release R lock token) False s)"

definition cache_unlock :: "'w redis \<Rightarrow> string \<Rightarrow> string \<Rightarrow> real \<times> 'w \<Rightarrow> real \<times> 'w" where
  "cache_unlock R name token = cache_release R (lock_key name) token"

definition cache_head :: "'w redis \<Rightarrow> string \<Rightarrow> int \<Rightarrow> real \<times> 'w \<Rightarrow> string option \<times> real \<times> 'w" where
  "cache_head R name n s =
     (case cache_command R (\<lambda>w. map_prod (map_option Some) id (rd_getrange R (cache_key name) 0 (n - 1) w)) None s of
        (value, s') \<Rightarrow> (if value = Some [] then None else value, s'))"

section \<open>Stored errors and chunks\<close>

text \<open>\<open>_encode_failure\<close> and \<open>_decode_failure\<close>: the fields of the stored JSON object, \<open>dumps\<close> and
  \<open>loads\<close> being \<open>orjson\<close>. A stored error keeps when its source can be asked again, not whether the
  source refused the request.\<close>

record failure =
  f_kind :: string
  f_source :: "string option"
  f_detail :: string
  f_retry_at :: "real option"

definition failure_of :: "real \<Rightarrow> data_error \<Rightarrow> (failure \<times> int) option" where
  "failure_of now e = (case e of
      SourceUnavailable source detail after rejected \<Rightarrow>
        Some (\<lparr>f_kind = ''unavailable'', f_source = Some source, f_detail = detail,
               f_retry_at = map_option (\<lambda>s. now + of_int s) after\<rparr>,
             (case after of None \<Rightarrow> FAIL_SECONDS | Some s \<Rightarrow> max 1 (min FAIL_SECONDS s)))
    | DataIntegrityError detail source \<Rightarrow>
        Some (\<lparr>f_kind = ''invalid'', f_source = source, f_detail = detail, f_retry_at = None\<rparr>, FAIL_SECONDS)
    | _ \<Rightarrow> None)"

definition failure_error :: "real \<Rightarrow> failure \<Rightarrow> data_error" where
  "failure_error now f =
     (if f_kind f = ''invalid'' then DataIntegrityError (f_detail f) (f_source f)
      else SourceUnavailable (case f_source f of Some s \<Rightarrow> s | None \<Rightarrow> []) (f_detail f)
        (map_option (\<lambda>t. max 1 \<lceil>t - now\<rceil>) (f_retry_at f)) False)"

text \<open>\<open>encode_chunk\<close> and \<open>decode_chunk\<close>: the fetch time, then the frame, which \<open>write\<close> and \<open>read\<close>
  turn into bytes and back.\<close>

definition HEADER_SIZE :: nat where "HEADER_SIZE = 8"

definition int64_of_bytes :: "string \<Rightarrow> int" where
  "int64_of_bytes s = (let n = foldl (\<lambda>n c. n * 256 + int (code_of c)) 0 s in if n < 2 ^ 63 then n else n - 2 ^ 64)"

definition encode_chunk :: "('f \<Rightarrow> string) \<Rightarrow> 'f \<Rightarrow> int \<Rightarrow> string option" where
  "encode_chunk write frame fetched_at =
     (if - (2 ^ 63) \<le> fetched_at \<and> fetched_at < 2 ^ 63 then Some (int64_bytes fetched_at @ write frame) else None)"

definition decode_fetched_at :: "string \<Rightarrow> int option" where
  "decode_fetched_at blob = (if length blob < HEADER_SIZE then None else Some (int64_of_bytes (take HEADER_SIZE blob)))"

definition decode_chunk :: "(string \<Rightarrow> 'f option) \<Rightarrow> string \<Rightarrow> ('f \<times> int) option" where
  "decode_chunk read blob = (case (decode_fetched_at blob, read (drop HEADER_SIZE blob)) of
      (Some t, Some frame) \<Rightarrow> Some (frame, t) | _ \<Rightarrow> None)"

section \<open>get_or_fetch\<close>

text \<open>Where a caller of \<open>get_or_fetch\<close> is between two awaits: at the top of its loop, about to take the
  lock, looking again with the lock, waiting to poll, fetching with the lock or without Redis,
  storing the value or the error, giving the lock back, done.\<close>

datatype caller =
    AtTop | Locking | Rechecking | Polling | Fetching | FetchingAlone
  | Storing string int
  | StoringFailure data_error
  | Releasing "raised + string"
  | Returned "raised + string"

text \<open>The errors that are kept: \<open>SourceUnavailable\<close> and \<open>DataIntegrityError\<close>.\<close>

definition kept_error :: "raised \<Rightarrow> data_error option" where
  "kept_error r = (case r of
      DataFault (SourceUnavailable source detail after rejected) \<Rightarrow> Some (SourceUnavailable source detail after rejected)
    | DataFault (DataIntegrityError detail source) \<Rightarrow> Some (DataIntegrityError detail source)
    | _ \<Rightarrow> None)"

text \<open>What \<open>get_or_fetch\<close> of one name works with: Redis, the fetch (a value and how long to keep it),
  and the bytes of a stored error.\<close>

record 'w fetcher =
  ft_redis :: "'w redis"
  ft_name :: string
  ft_fetch :: "('w, string \<times> int) io"
  ft_encode :: "'w \<Rightarrow> data_error \<Rightarrow> string \<times> int"
  ft_decode :: "'w \<Rightarrow> string \<Rightarrow> data_error"

text \<open>\<open>_lookup\<close>: \<open>None\<close> when Redis failed.\<close>

definition lookup :: "'w fetcher \<Rightarrow> 'w \<Rightarrow> (raised + string option) option \<times> 'w" where
  "lookup F w = (case rd_mget (ft_redis F) [cache_key (ft_name F), fail_key (ft_name F)] w of
      (Some [value, failure], w') \<Rightarrow>
        (Some (case value of Some v \<Rightarrow> Inr (Some v)
           | None \<Rightarrow> (case failure of Some f \<Rightarrow> Inl (DataFault (ft_decode F w' f)) | None \<Rightarrow> Inr None)), w')
    | (_, w') \<Rightarrow> (None, w'))"

definition redis_failed :: "'w fetcher \<Rightarrow> 'w \<Rightarrow> caller \<times> real \<times> 'w" where
  "redis_failed F w = (FetchingAlone, rd_monotonic (ft_redis F) w + DOWN_SECONDS, w)"

fun caller_step :: "'w fetcher \<Rightarrow> string \<Rightarrow> caller \<Rightarrow> real \<times> 'w \<Rightarrow> caller \<times> real \<times> 'w" where
  "caller_step F token AtTop (d, w) =
     (if rd_monotonic (ft_redis F) w < d then (FetchingAlone, d, w)
      else (case lookup F w of
          (None, w') \<Rightarrow> redis_failed F w'
        | (Some (Inl e), w') \<Rightarrow> (Returned (Inl e), d, w')
        | (Some (Inr (Some v)), w') \<Rightarrow> (Returned (Inr v), d, w')
        | (Some (Inr None), w') \<Rightarrow> (Locking, d, w')))"
| "caller_step F token Locking (d, w) =
     (case rd_set_nx (ft_redis F) (lock_key (ft_name F)) token LOCK_TTL_MS w of
        (None, w') \<Rightarrow> redis_failed F w'
      | (Some taken, w') \<Rightarrow> (if taken then Rechecking else Polling, d, w'))"
| "caller_step F token Rechecking (d, w) =
     (case lookup F w of
        (None, w') \<Rightarrow> redis_failed F w'
      | (Some (Inl e), w') \<Rightarrow> (Releasing (Inl e), d, w')
      | (Some (Inr (Some v)), w') \<Rightarrow> (Releasing (Inr v), d, w')
      | (Some (Inr None), w') \<Rightarrow> (Fetching, d, w'))"
| "caller_step F token Polling (d, w) = (AtTop, d, rd_sleep (ft_redis F) POLL_SECONDS w)"
| "caller_step F token Fetching (d, w) =
     (case ft_fetch F w of
        (Inr (v, ttl), w') \<Rightarrow> (Storing v ttl, d, w')
      | (Inl e, w') \<Rightarrow> ((case kept_error e of Some k \<Rightarrow> StoringFailure k | None \<Rightarrow> Releasing (Inl e)), d, w'))"
| "caller_step F token FetchingAlone (d, w) =
     (case ft_fetch F w of (r, w') \<Rightarrow> (Returned (map_sum id fst r), d, w'))"
| "caller_step F token (Storing v ttl) s = (Releasing (Inr v), cache_set (ft_redis F) (ft_name F) v ttl s)"
| "caller_step F token (StoringFailure e) (d, w) =
     (case ft_encode F w e of (blob, ttl) \<Rightarrow> (Releasing (Inl (DataFault e)), cache_store (ft_redis F) (fail_key (ft_name F)) blob ttl (d, w)))"
| "caller_step F token (Releasing r) s = (Returned r, cache_release (ft_redis F) (lock_key (ft_name F)) token s)"
| "caller_step F token (Returned r) s = (Returned r, s)"

text \<open>One caller alone: its steps until it returns.\<close>

fun run_caller :: "nat \<Rightarrow> 'w fetcher \<Rightarrow> string \<Rightarrow> caller \<times> real \<times> 'w \<Rightarrow> caller \<times> real \<times> 'w" where
  "run_caller 0 F token s = s"
| "run_caller (Suc n) F token s = run_caller n F token (caller_step F token (fst s) (snd s))"

definition get_or_fetch :: "nat \<Rightarrow> 'w fetcher \<Rightarrow> string \<Rightarrow> real \<times> 'w \<Rightarrow> (raised + string) option \<times> real \<times> 'w" where
  "get_or_fetch fuel F token s = (case run_caller fuel F token (AtTop, s) of
      (Returned r, s') \<Rightarrow> (Some r, s') | (_, s') \<Rightarrow> (None, s'))"

section \<open>Single flight\<close>

text \<open>What the cache relies on of Redis: \<open>view\<close> and \<open>expires\<close> observe the values of a world. A value
  stays until it expires (nothing is evicted); a command changes its own key only; \<open>SET NX\<close> sets
  an absent key only, and the release script deletes a lock with its token only. A command whose
  reply is lost may have run.\<close>

definition kept_value :: "'w redis \<Rightarrow> (string \<Rightarrow> 'w \<Rightarrow> string option) \<Rightarrow> (string \<Rightarrow> 'w \<Rightarrow> real) \<Rightarrow> string \<Rightarrow> 'w \<Rightarrow> 'w \<Rightarrow> bool" where
  "kept_value R view expires k w w' =
     (rd_wall R w \<le> rd_wall R w' \<and>
      (case view k w of None \<Rightarrow> view k w' = None
       | Some v \<Rightarrow> if rd_wall R w' < expires k w then view k w' = Some v \<and> expires k w' = expires k w
                   else view k w' = None))"

definition mget_law :: "'w redis \<Rightarrow> (string \<Rightarrow> 'w \<Rightarrow> string option) \<Rightarrow> (string \<Rightarrow> 'w \<Rightarrow> real) \<Rightarrow> bool" where
  "mget_law R view expires = (\<forall>ks w r w'. rd_mget R ks w = (r, w') \<longrightarrow>
     (\<forall>vs. r = Some vs \<longrightarrow> vs = map (\<lambda>k. view k w) ks) \<and> (\<forall>k. kept_value R view expires k w w'))"

definition set_nx_law :: "'w redis \<Rightarrow> (string \<Rightarrow> 'w \<Rightarrow> string option) \<Rightarrow> (string \<Rightarrow> 'w \<Rightarrow> real) \<Rightarrow> bool" where
  "set_nx_law R view expires = (\<forall>k v ttl w r w'. rd_set_nx R k v ttl w = (r, w') \<longrightarrow>
     rd_wall R w \<le> rd_wall R w' \<and> (\<forall>k'. k' \<noteq> k \<longrightarrow> kept_value R view expires k' w w') \<and>
     (view k w \<noteq> None \<longrightarrow> r \<noteq> Some True \<and> kept_value R view expires k w w') \<and>
     (view k w = None \<longrightarrow> r \<noteq> Some False) \<and>
     (r = Some True \<longrightarrow> rd_wall R w + of_int ttl / 1000 \<le> expires k w' \<and>
        (rd_wall R w' < expires k w' \<longrightarrow> view k w' = Some v)))"

definition set_law :: "'w redis \<Rightarrow> (string \<Rightarrow> 'w \<Rightarrow> string option) \<Rightarrow> (string \<Rightarrow> 'w \<Rightarrow> real) \<Rightarrow> bool" where
  "set_law R view expires = (\<forall>k v ttl w r w'. rd_set R k v ttl w = (r, w') \<longrightarrow>
     rd_wall R w \<le> rd_wall R w' \<and> (\<forall>k'. k' \<noteq> k \<longrightarrow> kept_value R view expires k' w w'))"

definition release_law :: "'w redis \<Rightarrow> (string \<Rightarrow> 'w \<Rightarrow> string option) \<Rightarrow> (string \<Rightarrow> 'w \<Rightarrow> real) \<Rightarrow> bool" where
  "release_law R view expires = (\<forall>k v w r w'. rd_release R k v w = (r, w') \<longrightarrow>
     rd_wall R w \<le> rd_wall R w' \<and> (\<forall>k'. k' \<noteq> k \<longrightarrow> kept_value R view expires k' w w') \<and>
     (view k w \<noteq> Some v \<longrightarrow> kept_value R view expires k w w'))"

definition store_laws :: "'w redis \<Rightarrow> (string \<Rightarrow> 'w \<Rightarrow> string option) \<Rightarrow> (string \<Rightarrow> 'w \<Rightarrow> real) \<Rightarrow> bool" where
  "store_laws R view expires =
     ((\<forall>k v w. view k w = Some v \<longrightarrow> rd_wall R w < expires k w) \<and>
      mget_law R view expires \<and> set_nx_law R view expires \<and> set_law R view expires \<and> release_law R view expires)"

lemma mget_lawD:
  assumes "store_laws R view expires" "rd_mget R ks w = (r, w')"
  shows "r = Some vs \<Longrightarrow> vs = map (\<lambda>k. view k w) ks" "kept_value R view expires k w w'"
  using assms unfolding store_laws_def mget_law_def by blast+

lemma set_nx_lawD:
  assumes "store_laws R view expires" "rd_set_nx R k v ttl w = (r, w')"
  shows "rd_wall R w \<le> rd_wall R w'" "k' \<noteq> k \<Longrightarrow> kept_value R view expires k' w w'"
    "view k w \<noteq> None \<Longrightarrow> r \<noteq> Some True \<and> kept_value R view expires k w w'"
    "view k w = None \<Longrightarrow> r \<noteq> Some False"
    "r = Some True \<Longrightarrow> rd_wall R w + of_int ttl / 1000 \<le> expires k w'"
    "r = Some True \<Longrightarrow> rd_wall R w' < expires k w' \<Longrightarrow> view k w' = Some v"
  using assms unfolding store_laws_def set_nx_law_def by blast+

lemma set_lawD:
  assumes "store_laws R view expires" "rd_set R k v ttl w = (r, w')" "k' \<noteq> k"
  shows "kept_value R view expires k' w w'"
  using assms unfolding store_laws_def set_law_def by blast

lemma release_lawD:
  assumes "store_laws R view expires" "rd_release R k v w = (r, w')"
  shows "rd_wall R w \<le> rd_wall R w'" "k' \<noteq> k \<Longrightarrow> kept_value R view expires k' w w'"
    "view k w \<noteq> Some v \<Longrightarrow> kept_value R view expires k w w'"
  using assms unfolding store_laws_def release_law_def by blast+

text \<open>A fetch, and what happens while a caller waits, leave the lock of the name alone.\<close>

definition fetch_laws :: "'w fetcher \<Rightarrow> (string \<Rightarrow> 'w \<Rightarrow> string option) \<Rightarrow> (string \<Rightarrow> 'w \<Rightarrow> real) \<Rightarrow> bool" where
  "fetch_laws F view expires =
     (let lock_kept = kept_value (ft_redis F) view expires (lock_key (ft_name F))
      in (\<forall>w r w'. ft_fetch F w = (r, w') \<longrightarrow> lock_kept w w') \<and> (\<forall>d w. 0 \<le> d \<longrightarrow> lock_kept w (rd_sleep (ft_redis F) d w)))"

text \<open>Any number of callers of one name, in any number of processes, in any order. \<open>cr_taken\<close> is when
  a caller asked for the lock it got.\<close>

record 'w crowd =
  cr_caller :: "nat \<Rightarrow> caller"
  cr_down :: "nat \<Rightarrow> real"
  cr_taken :: "nat \<Rightarrow> real"
  cr_world :: 'w

inductive crowd_reachable ::
  "'w fetcher \<Rightarrow> (string \<Rightarrow> 'w \<Rightarrow> string option) \<Rightarrow> (string \<Rightarrow> 'w \<Rightarrow> real) \<Rightarrow> (nat \<Rightarrow> string) \<Rightarrow> (nat \<Rightarrow> nat) \<Rightarrow> 'w crowd \<Rightarrow> bool"
  for F view expires token process where
  start: "\<forall>i. cr_caller s i = AtTop \<Longrightarrow> crowd_reachable F view expires token process s"
| one_step: "crowd_reachable F view expires token process s \<Longrightarrow>
    caller_step F (token i) (cr_caller s i) (cr_down s (process i), cr_world s) = (pc, d, w) \<Longrightarrow>
    crowd_reachable F view expires token process
      \<lparr>cr_caller = (cr_caller s)(i := pc), cr_down = (cr_down s)(process i := d),
       cr_taken = (if cr_caller s i = Locking then (cr_taken s)(i := rd_wall (ft_redis F) (cr_world s)) else cr_taken s),
       cr_world = w\<rparr>"
| time: "crowd_reachable F view expires token process s \<Longrightarrow>
    kept_value (ft_redis F) view expires (lock_key (ft_name F)) (cr_world s) w \<Longrightarrow>
    crowd_reachable F view expires token process (s\<lparr>cr_world := w\<rparr>)"

fun holds_lock :: "caller \<Rightarrow> bool" where
  "holds_lock Rechecking = True"
| "holds_lock Fetching = True"
| "holds_lock (Storing v ttl) = True"
| "holds_lock (StoringFailure e) = True"
| "holds_lock (Releasing r) = True"
| "holds_lock _ = False"

definition LOCK_SECONDS :: real where "LOCK_SECONDS = of_int LOCK_TTL_MS / 1000"

text \<open>A lock that has not expired is in Redis with its caller's token.\<close>

definition lock_held :: "'w fetcher \<Rightarrow> (string \<Rightarrow> 'w \<Rightarrow> string option) \<Rightarrow> (string \<Rightarrow> 'w \<Rightarrow> real) \<Rightarrow> string \<Rightarrow> real \<Rightarrow> 'w \<Rightarrow> bool" where
  "lock_held F view expires token taken w =
     (rd_wall (ft_redis F) w < taken + LOCK_SECONDS \<longrightarrow>
        view (lock_key (ft_name F)) w = Some token \<and> taken + LOCK_SECONDS \<le> expires (lock_key (ft_name F)) w)"

lemma lock_held_kept:
  "lock_held F view expires token taken w \<Longrightarrow> kept_value (ft_redis F) view expires (lock_key (ft_name F)) w w' \<Longrightarrow>
   lock_held F view expires token taken w'"
  by (auto simp: lock_held_def kept_value_def split: option.splits if_splits)

lemma kept_value_refl: "kept_value R view expires k w w \<or> (\<exists>v. view k w = Some v \<and> expires k w \<le> rd_wall R w)"
  by (auto simp: kept_value_def split: option.splits)

text \<open>What a step does to the lock: a caller that does not hold it afterwards, or held it before,
  leaves the lock alone unless it releases its own.\<close>

lemma lookup_kept:
  assumes "store_laws (ft_redis F) view expires" "lookup F w = (r, w')"
  shows "kept_value (ft_redis F) view expires k w w'"
proof -
  have "snd (rd_mget (ft_redis F) [cache_key (ft_name F), fail_key (ft_name F)] w) = w'"
    using assms(2) unfolding lookup_def by (force split: prod.splits option.splits list.splits)
  then obtain q where "rd_mget (ft_redis F) [cache_key (ft_name F), fail_key (ft_name F)] w = (q, w')" by (metis prod.collapse)
  from mget_lawD(2)[OF assms(1) this] show ?thesis .
qed

lemma lookup_reads:
  assumes "store_laws (ft_redis F) view expires" "lookup F w = (Some (Inr None), w')"
  shows "view (cache_key (ft_name F)) w = None \<and> view (fail_key (ft_name F)) w = None"
proof -
  have m: "rd_mget (ft_redis F) [cache_key (ft_name F), fail_key (ft_name F)] w = (Some [None, None], w')"
    using assms(2) by (auto simp: lookup_def split: prod.splits option.splits list.splits)
  have "[None, None] = map (\<lambda>k. view k w) [cache_key (ft_name F), fail_key (ft_name F)]"
    by (rule mget_lawD(1)[OF assms(1) m refl])
  then show ?thesis by simp
qed

lemma command_kept:
  assumes "\<And>r w'. command w = (r, w') \<Longrightarrow> P w w'" "P w w"
  shows "P w (snd (snd (cache_command R command otherwise (d, w))))"
  using assms by (auto simp: cache_command_def split: prod.splits option.splits)

lemma lock_other_keys [simp]: "cache_key n \<noteq> lock_key m" "fail_key n \<noteq> lock_key m" "lock_key m \<noteq> cache_key n" "lock_key m \<noteq> fail_key n"
  using key_prefixes by metis+

lemma step_keeps_others:
  assumes "store_laws (ft_redis F) view expires" "fetch_laws F view expires"
    "caller_step F token pc (d, w) = (pc', d', w')" "lock_held F view expires other taken w" "other \<noteq> token"
  shows "lock_held F view expires other taken w'"
proof -
  let ?R = "ft_redis F" and ?k = "lock_key (ft_name F)"
  note keep = lock_held_kept[OF assms(4)]
  have fetch: "lock_held F view expires other taken u" if "ft_fetch F w = (r, u)" for r u
    using assms(2) that keep unfolding fetch_laws_def Let_def by blast
  have store: "lock_held F view expires other taken (snd (cache_store ?R k v ttl (d, w)))" if "k \<noteq> ?k" for k v ttl
    unfolding cache_store_def
  proof (rule command_kept[where P = "\<lambda>_ u. lock_held F view expires other taken u"])
    fix r u
    assume "rd_set ?R k v ttl w = (r, u)"
    from keep[OF set_lawD[OF assms(1) this]] show "lock_held F view expires other taken u" using that by simp
  qed (rule assms(4))
  have release: "lock_held F view expires other taken (snd (cache_release ?R ?k token (d, w)))"
    unfolding cache_release_def
  proof (rule command_kept[where P = "\<lambda>_ u. lock_held F view expires other taken u"])
    fix r u
    assume r: "rd_release ?R ?k token w = (r, u)"
    show "lock_held F view expires other taken u"
    proof (cases "rd_wall ?R w < taken + LOCK_SECONDS")
      case True
      then have "view ?k w \<noteq> Some token" using assms(4,5) by (simp add: lock_held_def)
      then show ?thesis by (rule keep[OF release_lawD(3)[OF assms(1) r]])
    next
      case False
      have "rd_wall ?R w \<le> rd_wall ?R u" by (rule release_lawD(1)[OF assms(1) r])
      then show ?thesis using False by (simp add: lock_held_def)
    qed
  qed (rule assms(4))
  show ?thesis
  proof (cases pc)
    case Locking
    obtain r u where s: "rd_set_nx ?R ?k token LOCK_TTL_MS w = (r, u)" by fastforce
    have u: "w' = u" using assms(3) Locking s by (auto simp: redis_failed_def split: option.splits)
    have "rd_wall ?R w \<le> rd_wall ?R u" "view ?k w \<noteq> None \<longrightarrow> kept_value ?R view expires ?k w u"
      using set_nx_lawD[OF assms(1) s] by blast+
    then show ?thesis using keep assms(4) by (cases "rd_wall ?R w < taken + LOCK_SECONDS") (auto simp: u lock_held_def)
  next
    case AtTop
    then show ?thesis using assms(3,4) keep[OF lookup_kept[OF assms(1)]]
      by (auto simp: redis_failed_def split: if_splits prod.splits option.splits sum.splits)
  next
    case Rechecking
    then show ?thesis using assms(3,4) keep[OF lookup_kept[OF assms(1)]]
      by (auto simp: redis_failed_def split: if_splits prod.splits option.splits sum.splits)
  next
    case Polling
    then have "w' = rd_sleep ?R POLL_SECONDS w" using assms(3) by simp
    then show ?thesis using assms(2) keep unfolding fetch_laws_def Let_def by (simp add: POLL_SECONDS_def)
  next
    case Fetching
    then show ?thesis using assms(3) fetch by (auto split: prod.splits sum.splits)
  next
    case FetchingAlone
    then show ?thesis using assms(3) fetch by (auto split: prod.splits sum.splits)
  next
    case (Storing v ttl)
    then have "w' = snd (cache_store ?R (cache_key (ft_name F)) v ttl (d, w))" using assms(3) by (auto simp: cache_set_def)
    then show ?thesis using store by simp
  next
    case (StoringFailure e)
    then have "w' = snd (cache_store ?R (fail_key (ft_name F)) (fst (ft_encode F w e)) (snd (ft_encode F w e)) (d, w))"
      using assms(3) by (auto split: prod.splits)
    then show ?thesis using store by simp
  next
    case (Releasing r)
    then have "w' = snd (cache_release ?R ?k token (d, w))" using assms(3) by auto
    then show ?thesis using release by simp
  qed (use assms(3,4) in auto)
qed

lemma step_keeps_own:
  assumes "store_laws (ft_redis F) view expires" "fetch_laws F view expires"
    "caller_step F token pc (d, w) = (pc', d', w')" "holds_lock pc \<Longrightarrow> lock_held F view expires token taken w" "holds_lock pc'"
  shows "lock_held F view expires token (if pc = Locking then rd_wall (ft_redis F) w else taken) w'"
proof -
  let ?R = "ft_redis F" and ?k = "lock_key (ft_name F)"
  show ?thesis
  proof (cases pc)
    case Locking
    obtain r u where s: "rd_set_nx ?R ?k token LOCK_TTL_MS w = (r, u)" by fastforce
    have u: "w' = u \<and> r = Some True" using assms(3,5) Locking s by (auto simp: redis_failed_def split: option.splits if_splits)
    have "rd_wall ?R w + LOCK_SECONDS \<le> expires ?k u" "rd_wall ?R u < expires ?k u \<Longrightarrow> view ?k u = Some token"
      using set_nx_lawD(5,6)[OF assms(1) s] u by (auto simp: LOCK_SECONDS_def)
    then show ?thesis using u Locking by (auto simp: lock_held_def)
  next
    case Rechecking
    have h: "lock_held F view expires token taken w" using assms(4) Rechecking by simp
    have "w' = u" if "lookup F w = (r, u)" for r u
      using assms(3) Rechecking that by (auto simp: redis_failed_def split: option.splits sum.splits)
    moreover obtain r u where "lookup F w = (r, u)" by fastforce
    ultimately show ?thesis using lock_held_kept[OF h lookup_kept[OF assms(1)]] Rechecking by auto
  next
    case Fetching
    have h: "lock_held F view expires token taken w" using assms(4) Fetching by simp
    obtain r u where f: "ft_fetch F w = (r, u)" by fastforce
    then have "kept_value ?R view expires ?k w u" using assms(2) unfolding fetch_laws_def Let_def by blast
    moreover have "w' = u" using assms(3) Fetching f by (auto split: sum.splits)
    ultimately show ?thesis using lock_held_kept[OF h] Fetching by simp
  next
    case (Storing v ttl)
    have h: "lock_held F view expires token taken w" using assms(4) Storing by simp
    have "lock_held F view expires token taken (snd (cache_store ?R (cache_key (ft_name F)) v ttl (d, w)))"
      unfolding cache_store_def
    proof (rule command_kept[where P = "\<lambda>_ u. lock_held F view expires token taken u"])
      fix r u
      assume "rd_set ?R (cache_key (ft_name F)) v ttl w = (r, u)"
      from lock_held_kept[OF h set_lawD[OF assms(1) this]] show "lock_held F view expires token taken u" by simp
    qed (rule h)
    then show ?thesis using assms(3) Storing by (auto simp: cache_set_def)
  next
    case (StoringFailure e)
    have h: "lock_held F view expires token taken w" using assms(4) StoringFailure by simp
    have "lock_held F view expires token taken
        (snd (cache_store ?R (fail_key (ft_name F)) (fst (ft_encode F w e)) (snd (ft_encode F w e)) (d, w)))"
      unfolding cache_store_def
    proof (rule command_kept[where P = "\<lambda>_ u. lock_held F view expires token taken u"])
      fix r u
      assume "rd_set ?R (fail_key (ft_name F)) (fst (ft_encode F w e)) (snd (ft_encode F w e)) w = (r, u)"
      from lock_held_kept[OF h set_lawD[OF assms(1) this]] show "lock_held F view expires token taken u" by simp
    qed (rule h)
    then show ?thesis using assms(3) StoringFailure by (auto split: prod.splits)
  qed (use assms(3,5) in \<open>auto simp: redis_failed_def split: if_splits prod.splits option.splits sum.splits\<close>)
qed

lemma crowd_locks:
  assumes "store_laws (ft_redis F) view expires" "fetch_laws F view expires" "inj token"
    and "crowd_reachable F view expires token process s" "holds_lock (cr_caller s i)"
  shows "lock_held F view expires (token i) (cr_taken s i) (cr_world s)"
  using assms(4,5)
proof (induction arbitrary: i rule: crowd_reachable.induct)
  case (start s)
  then show ?case by simp
next
  case (one_step s j pc d w)
  note step = one_step(2)
  show ?case
  proof (cases "i = j")
    case True
    have own: "lock_held F view expires (token j)
        (if cr_caller s j = Locking then rd_wall (ft_redis F) (cr_world s) else cr_taken s j) w"
      by (rule step_keeps_own[OF assms(1,2) step one_step.IH]) (use one_step.prems True in simp_all)
    then show ?thesis using True by (auto split: if_splits)
  next
    case False
    then have "token i \<noteq> token j" using assms(3) by (auto dest: injD)
    moreover have "lock_held F view expires (token i) (cr_taken s i) (cr_world s)"
      using one_step.IH one_step.prems False by simp
    ultimately have "lock_held F view expires (token i) (cr_taken s i) w"
      by (rule step_keeps_others[OF assms(1,2) step, rotated])
    then show ?thesis using False by simp
  qed
next
  case (time s w)
  then show ?case using lock_held_kept by fastforce
qed

text \<open>C21: of the callers of one value, in whatever processes and order they run, no two hold its lock
  at the same time unless one of them has held it for 30 seconds already; and a caller begins to
  fetch with the lock only after it found neither the value nor an error in Redis.\<close>

theorem single_flight:
  assumes "store_laws (ft_redis F) view expires" "fetch_laws F view expires" "inj token"
    "crowd_reachable F view expires token process s"
  shows "(\<forall>i j. i \<noteq> j \<longrightarrow> holds_lock (cr_caller s i) \<longrightarrow> holds_lock (cr_caller s j) \<longrightarrow>
            min (cr_taken s i) (cr_taken s j) + LOCK_SECONDS \<le> rd_wall (ft_redis F) (cr_world s)) \<and>
         (\<forall>i s'. cr_caller s i \<noteq> Fetching \<longrightarrow>
            caller_step F (token i) (cr_caller s i) (cr_down s (process i), cr_world s) = (Fetching, s') \<longrightarrow>
            view (cache_key (ft_name F)) (cr_world s) = None \<and> view (fail_key (ft_name F)) (cr_world s) = None)"
proof (intro conjI allI impI)
  fix i j
  assume "i \<noteq> j" and holds: "holds_lock (cr_caller s i)" "holds_lock (cr_caller s j)"
  then have "token i \<noteq> token j" using assms(3) by (auto dest: injD)
  then show "min (cr_taken s i) (cr_taken s j) + LOCK_SECONDS \<le> rd_wall (ft_redis F) (cr_world s)"
    using crowd_locks[OF assms holds(1)] crowd_locks[OF assms holds(2)] by (auto simp: lock_held_def min_def)
next
  fix i s'
  assume "cr_caller s i \<noteq> Fetching"
    and step: "caller_step F (token i) (cr_caller s i) (cr_down s (process i), cr_world s) = (Fetching, s')"
  then have "fst (lookup F (cr_world s)) = Some (Inr None)"
    by (cases "cr_caller s i") (auto simp: redis_failed_def split: if_splits prod.splits option.splits sum.splits)
  then obtain w where "lookup F (cr_world s) = (Some (Inr None), w)" by (metis prod.collapse)
  from lookup_reads[OF assms(1) this]
  show "view (cache_key (ft_name F)) (cr_world s) = None" "view (fail_key (ft_name F)) (cr_world s) = None" by simp_all
qed

section \<open>Every caller returns\<close>

definition returned :: "caller \<times> real \<times> 'w \<Rightarrow> bool" where
  "returned s = (case fst s of Returned r \<Rightarrow> True | _ \<Rightarrow> False)"

lemma run_returned: "returned s \<Longrightarrow> returned (run_caller n F token s)"
proof (induction n arbitrary: s)
  case (Suc n)
  obtain r where "fst s = Returned r" using Suc.prems by (auto simp: returned_def split: caller.splits)
  then have "caller_step F token (fst s) (snd s) = s" by (metis caller_step.simps(10) prod.collapse)
  then show ?case using Suc by simp
qed simp

lemma run_more: "returned (run_caller m F token s) \<Longrightarrow> m \<le> n \<Longrightarrow> returned (run_caller n F token s)"
proof (induction m arbitrary: n s)
  case 0
  then show ?case by (simp add: run_returned)
next
  case (Suc m)
  then obtain k where "n = Suc k" by (cases n) auto
  then show ?case using Suc by simp
qed

text \<open>With the lock, or without Redis, a caller is done in at most four steps.\<close>

lemma returns_with_lock:
  "returned (run_caller 1 F token (FetchingAlone, s))" "returned (run_caller 1 F token (Releasing r, s))"
  "returned (run_caller 2 F token (Storing v ttl, s))" "returned (run_caller 2 F token (StoringFailure e, s))"
  "returned (run_caller 3 F token (Fetching, s))" "returned (run_caller 4 F token (Rechecking, s))"
proof -
  obtain d w where s: "s = (d, w)" by fastforce
  show alone: "returned (run_caller 1 F token (FetchingAlone, s))" and releasing: "returned (run_caller 1 F token (Releasing r, s))" for s r
    by (cases s; auto simp: returned_def split: prod.splits)+
  show storing: "returned (run_caller 2 F token (Storing v ttl, s))" for s v ttl
    using releasing[of "Inr v"] by (simp add: numeral_2_eq_2)
  show failing: "returned (run_caller 2 F token (StoringFailure e, s))" for s e
    using releasing[of "Inl (DataFault e)"] by (cases s) (simp add: numeral_2_eq_2 split: prod.splits)
  show fetching: "returned (run_caller 3 F token (Fetching, s))" for s
  proof -
    obtain d w where s: "s = (d, w)" by fastforce
    obtain pc d' u where step: "caller_step F token Fetching s = (pc, d', u)" by (metis prod_cases3)
    have "(\<exists>v ttl. pc = Storing v ttl) \<or> (\<exists>e. pc = StoringFailure e) \<or> (\<exists>r. pc = Releasing r)"
      using step by (auto simp: s split: prod.splits sum.splits option.splits)
    then have "returned (run_caller 2 F token (pc, d', u))" using storing failing run_more[OF releasing, of 2] by auto
    then show ?thesis using step by (simp add: numeral_3_eq_3 numeral_2_eq_2)
  qed
  show "returned (run_caller 4 F token (Rechecking, s))"
  proof -
    obtain pc d' u where step: "caller_step F token Rechecking s = (pc, d', u)" by (metis prod_cases3)
    have "pc = FetchingAlone \<or> pc = Fetching \<or> (\<exists>r. pc = Releasing r)"
      using step by (auto simp: s redis_failed_def split: prod.splits option.splits sum.splits)
    then have "returned (run_caller 3 F token (pc, d', u))"
      using fetching run_more[OF releasing, of 3] run_more[OF alone, of 3] by auto
    then show ?thesis using step by (simp add: numeral_eq_Suc)
  qed
qed

lemma lock_absent_kept:
  "kept_value R view expires k w w' \<Longrightarrow> view k w = None \<or> expires k w \<le> t \<Longrightarrow> view k w' = None \<or> expires k w' \<le> t"
  by (auto simp: kept_value_def split: option.splits if_splits)

text \<open>\<open>polls\<close> polls outlast the lock there is.\<close>

lemma caller_returns:
  assumes laws: "store_laws (ft_redis F) view expires" "fetch_laws F view expires"
    and clock: "\<forall>d w. rd_wall (ft_redis F) w + d \<le> rd_wall (ft_redis F) (rd_sleep (ft_redis F) d w)"
  shows "view (lock_key (ft_name F)) w = None \<or>
      expires (lock_key (ft_name F)) w \<le> rd_wall (ft_redis F) w + real polls * POLL_SECONDS \<Longrightarrow>
    returned (run_caller (3 * polls + 6) F token (AtTop, d, w))"
proof (induction polls arbitrary: d w)
  let ?R = "ft_redis F" and ?k = "lock_key (ft_name F)"
  have live: "rd_wall ?R w < expires ?k w" if "view ?k w = Some v" for w v
    using laws(1) that unfolding store_laws_def by blast
  have top: "returned (run_caller (n + 6) F token (AtTop, d, w))"
    if locking: "\<And>w'. lookup F w = (Some (Inr None), w') \<Longrightarrow> returned (run_caller (n + 5) F token (Locking, d, w'))" for n d w
  proof -
    obtain pc d' u where step: "caller_step F token AtTop (d, w) = (pc, d', u)" by (metis prod_cases3)
    then have "pc = FetchingAlone \<or> returned (pc, d', u) \<or> (\<exists>w'. lookup F w = (Some (Inr None), w') \<and> pc = Locking \<and> d' = d \<and> u = w')"
      by (auto simp: redis_failed_def returned_def split: if_splits prod.splits option.splits sum.splits)
    then have "returned (run_caller (n + 5) F token (pc, d', u))"
      using locking run_returned run_more[OF returns_with_lock(1), of "n + 5"] by auto
    then show ?thesis using step by (simp add: eval_nat_numeral)
  qed
  have lock: "returned (run_caller (n + 5) F token (Locking, d, w))"
    if polling: "\<And>w'. view ?k w \<noteq> None \<Longrightarrow> kept_value ?R view expires ?k w w' \<Longrightarrow> returned (run_caller (n + 4) F token (Polling, d, w'))" for n d w
  proof -
    obtain r w' where s: "rd_set_nx ?R ?k token LOCK_TTL_MS w = (r, w')" by fastforce
    obtain pc d' u where step: "caller_step F token Locking (d, w) = (pc, d', u)" by (metis prod_cases3)
    have "pc = FetchingAlone \<or> pc = Rechecking \<or> (r = Some False \<and> pc = Polling \<and> d' = d \<and> u = w')"
      using step s by (auto simp: redis_failed_def split: option.splits if_splits)
    then have "returned (run_caller (n + 4) F token (pc, d', u))"
      using polling[of w'] set_nx_lawD(3,4)[OF laws(1) s] run_more[OF returns_with_lock(1), of "n + 4"]
        run_more[OF returns_with_lock(6), of "n + 4"] by auto
    then show ?thesis using step by (simp add: eval_nat_numeral)
  qed
  {
    case 0
    have none: "view ?k w = None"
    proof (cases "view ?k w")
      case (Some v)
      then show ?thesis using 0 live[OF Some] by simp
    qed
    have "returned (run_caller (0 + 6) F token (AtTop, d, w))"
    proof (rule top)
      fix w'
      assume "lookup F w = (Some (Inr None), w')"
      from lookup_kept[OF laws(1) this, of ?k] none have "view ?k w' = None" by (simp add: kept_value_def)
      then show "returned (run_caller (0 + 5) F token (Locking, d, w'))" using lock[where n = 0 and w = w'] by simp
    qed
    then show ?case by simp
  next
    case (Suc polls)
    have "returned (run_caller (3 * polls + 3 + 6) F token (AtTop, d, w))"
    proof (rule top)
      fix w1
      assume look: "lookup F w = (Some (Inr None), w1)"
      have w1: "rd_wall ?R w \<le> rd_wall ?R w1" "view ?k w1 = None \<or> expires ?k w1 \<le> rd_wall ?R w + real (Suc polls) * POLL_SECONDS"
        using lookup_kept[OF laws(1) look, of ?k] lock_absent_kept[OF lookup_kept[OF laws(1) look] Suc.prems]
        by (auto simp: kept_value_def)
      have "returned (run_caller (3 * polls + 3 + 5) F token (Locking, d, w1))"
      proof (rule lock)
        fix w2
        assume "view ?k w1 \<noteq> None" and kept: "kept_value ?R view expires ?k w1 w2"
        let ?w3 = "rd_sleep ?R POLL_SECONDS w2"
        have "kept_value ?R view expires ?k w2 ?w3" using laws(2) by (simp add: fetch_laws_def Let_def POLL_SECONDS_def)
        from lock_absent_kept[OF this lock_absent_kept[OF kept w1(2)]]
        have "view ?k ?w3 = None \<or> expires ?k ?w3 \<le> rd_wall ?R w + real (Suc polls) * POLL_SECONDS" .
        moreover have "rd_wall ?R w + POLL_SECONDS \<le> rd_wall ?R ?w3"
          using w1(1) kept clock[rule_format, of w2 POLL_SECONDS] by (simp add: kept_value_def)
        ultimately have "view ?k ?w3 = None \<or> expires ?k ?w3 \<le> rd_wall ?R ?w3 + real polls * POLL_SECONDS"
          by (auto simp: algebra_simps)
        from Suc.IH[OF this] have "returned (run_caller (3 * polls + 6) F token (AtTop, d, ?w3))" .
        then show "returned (run_caller (3 * polls + 3 + 4) F token (Polling, d, w2))"
          by (simp add: eval_nat_numeral)
      qed
      then show "returned (run_caller (3 * polls + 3 + 5) F token (Locking, d, w1))" .
    qed
    then show ?case by (simp add: algebra_simps)
  }
qed


section \<open>A Redis\<close>

text \<open>A Redis that keeps its values with their expiry in a function, and the clock: the laws can hold.\<close>

type_synonym store = "real \<times> (string \<Rightarrow> (string \<times> real) option)"

definition store_view :: "string \<Rightarrow> store \<Rightarrow> string option" where
  "store_view k w = (case snd w k of Some (v, e) \<Rightarrow> if fst w < e then Some v else None | None \<Rightarrow> None)"

definition store_expires :: "string \<Rightarrow> store \<Rightarrow> real" where
  "store_expires k w = (case snd w k of Some (v, e) \<Rightarrow> e | None \<Rightarrow> 0)"

definition store_redis :: "store redis" where
  "store_redis = \<lparr>rd_wall = fst, rd_monotonic = fst, rd_incr = (\<lambda>k n ttl w. (None, w)),
     rd_get = (\<lambda>k w. (Some (store_view k w), w)),
     rd_mget = (\<lambda>ks w. (Some (map (\<lambda>k. store_view k w) ks), w)),
     rd_set = (\<lambda>k v ttl w. (Some (), fst w, (snd w)(k := Some (v, fst w + of_int ttl)))),
     rd_set_nx = (\<lambda>k v ttl w. if store_view k w = None
        then (Some True, fst w, (snd w)(k := Some (v, fst w + of_int ttl / 1000))) else (Some False, w)),
     rd_delete = (\<lambda>k w. (Some (), fst w, (snd w)(k := None))),
     rd_release = (\<lambda>k v w. if store_view k w = Some v then (Some True, fst w, (snd w)(k := None)) else (Some False, w)),
     rd_extend = (\<lambda>k v ttl w. if store_view k w = Some v
        then (Some True, fst w, (snd w)(k := Some (v, fst w + of_int ttl / 1000))) else (Some False, w)),
     rd_getrange = (\<lambda>k a b w. (Some (case store_view k w of None \<Rightarrow> [] | Some v \<Rightarrow> take (nat (b - a + 1)) (drop (nat a) v)), w)),
     rd_sleep = (\<lambda>s w. (fst w + s, snd w))\<rparr>"

lemma store_kept:
  "kept_value store_redis store_view store_expires k w w"
  "k' \<noteq> k \<Longrightarrow> kept_value store_redis store_view store_expires k' w (fst w, (snd w)(k := x))"
  "0 \<le> d \<Longrightarrow> kept_value store_redis store_view store_expires k w (fst w + d, snd w)"
  by (auto simp: kept_value_def store_redis_def store_view_def store_expires_def split: option.splits)

lemma store_redis_laws: "store_laws store_redis store_view store_expires"
  unfolding store_laws_def
proof (intro conjI)
  show "\<forall>k v w. store_view k w = Some v \<longrightarrow> rd_wall store_redis w < store_expires k w"
    by (auto simp: store_redis_def store_view_def store_expires_def split: option.splits if_splits)
  show "mget_law store_redis store_view store_expires"
    unfolding mget_law_def using store_kept(1) by (auto simp: store_redis_def)
  show "set_nx_law store_redis store_view store_expires"
    unfolding set_nx_law_def
  proof (intro allI impI)
    fix k v ttl w r w'
    assume set: "rd_set_nx store_redis k v ttl w = (r, w')"
    show "rd_wall store_redis w \<le> rd_wall store_redis w' \<and>
        (\<forall>k'. k' \<noteq> k \<longrightarrow> kept_value store_redis store_view store_expires k' w w') \<and>
        (store_view k w \<noteq> None \<longrightarrow> r \<noteq> Some True \<and> kept_value store_redis store_view store_expires k w w') \<and>
        (store_view k w = None \<longrightarrow> r \<noteq> Some False) \<and>
        (r = Some True \<longrightarrow> rd_wall store_redis w + real_of_int ttl / 1000 \<le> store_expires k w' \<and>
          (rd_wall store_redis w' < store_expires k w' \<longrightarrow> store_view k w' = Some v))"
    proof (cases "store_view k w = None")
      case True
      then have "r = Some True" "w' = (fst w, (snd w)(k := Some (v, fst w + real_of_int ttl / 1000)))"
        using set by (simp_all add: store_redis_def)
      then show ?thesis using True store_kept(2)
        by (auto simp: store_redis_def store_view_def store_expires_def)
    next
      case False
      then have "r = Some False" "w' = w" using set by (auto simp: store_redis_def)
      then show ?thesis using False store_kept(1) by auto
    qed
  qed
  show "set_law store_redis store_view store_expires"
    unfolding set_law_def using store_kept(2) by (auto simp: store_redis_def)
  show "release_law store_redis store_view store_expires"
    unfolding release_law_def
  proof (intro allI impI)
    fix k v w r w'
    assume release: "rd_release store_redis k v w = (r, w')"
    show "rd_wall store_redis w \<le> rd_wall store_redis w' \<and>
        (\<forall>k'. k' \<noteq> k \<longrightarrow> kept_value store_redis store_view store_expires k' w w') \<and>
        (store_view k w \<noteq> Some v \<longrightarrow> kept_value store_redis store_view store_expires k w w')"
    proof (cases "store_view k w = Some v")
      case True
      then have "w' = (fst w, (snd w)(k := None))" using release by (simp add: store_redis_def)
      then show ?thesis using True store_kept(2) by (auto simp: store_redis_def)
    next
      case False
      then have "w' = w" using release by (simp add: store_redis_def)
      then show ?thesis using store_kept(1) by auto
    qed
  qed
qed

definition example_fetcher :: "store fetcher" where
  "example_fetcher = \<lparr>ft_redis = store_redis, ft_name = ''calendar'', ft_fetch = (\<lambda>w. (Inr (''days'', 60), w)),
     ft_encode = (\<lambda>w e. ([], 1)), ft_decode = (\<lambda>w s. InvalidRequest s)\<rparr>"

lemma example_fetch_laws: "fetch_laws example_fetcher store_view store_expires"
  unfolding fetch_laws_def Let_def using store_kept
  by (auto simp: example_fetcher_def) (simp add: store_redis_def)

text \<open>Two callers: the first takes the lock; nobody else holds it then.\<close>

theorem single_flight_witness:
  "\<exists>s. crowd_reachable example_fetcher store_view store_expires show_nat id s \<and> cr_caller s 0 = Rechecking \<and>
     (\<forall>j. 0 \<noteq> j \<longrightarrow> \<not> holds_lock (cr_caller s j))"
proof -
  define s0 :: "store crowd" where
    "s0 = \<lparr>cr_caller = \<lambda>_. AtTop, cr_down = \<lambda>_. 0, cr_taken = \<lambda>_. 0, cr_world = (0, \<lambda>_. None)\<rparr>"
  let ?reach = "crowd_reachable example_fetcher store_view store_expires show_nat id"
  define world where "world = (0 :: real, (\<lambda>_. None :: (string \<times> real) option) (lock_key ''calendar'' := Some (show_nat 0, 30)))"
  have "?reach s0" by (rule crowd_reachable.start) (simp add: s0_def)
  from crowd_reachable.one_step[OF this, of 0 Locking 0 "(0, \<lambda>_. None)"]
  have s1: "?reach (s0\<lparr>cr_caller := (\<lambda>_. AtTop)(0 := Locking), cr_down := (\<lambda>_. 0)(0 := 0)\<rparr>)"
    by (simp add: s0_def example_fetcher_def store_redis_def lookup_def store_view_def)
  from crowd_reachable.one_step[OF s1, of 0 Rechecking 0 world]
  obtain s where s: "?reach s" "cr_caller s = (\<lambda>_. AtTop)(0 := Rechecking)" "cr_taken s = (\<lambda>_. 0)" "fst (cr_world s) = 0"
    by (simp add: s0_def example_fetcher_def store_redis_def store_view_def world_def LOCK_TTL_MS_def fun_upd_idem)
  have inj: "inj show_nat" by (rule injI) (metis read_show_nat)
  have laws: "store_laws (ft_redis example_fetcher) store_view store_expires" using store_redis_laws by (simp add: example_fetcher_def)
  have "\<not> holds_lock (cr_caller s j)" if j: "0 \<noteq> j" for j
  proof
    assume "holds_lock (cr_caller s j)"
    moreover have "holds_lock (cr_caller s 0)" using s(2) by simp
    ultimately have "min (cr_taken s 0) (cr_taken s j) + LOCK_SECONDS \<le> rd_wall (ft_redis example_fetcher) (cr_world s)"
      using single_flight[OF laws example_fetch_laws inj s(1), THEN conjunct1] j by blast
    then show False using s(3,4) by (simp add: example_fetcher_def store_redis_def LOCK_SECONDS_def LOCK_TTL_MS_def)
  qed
  then show ?thesis using s(1,2) by auto
qed


section \<open>Stored chunks and errors\<close>

lemma foldl_be_bytes: "n < 256 ^ k \<Longrightarrow> foldl (\<lambda>n c. n * 256 + int (code_of c)) a (be_bytes k n) = a * 256 ^ k + int n"
proof (induction k arbitrary: n a)
  case (Suc k)
  have "n div 256 < 256 ^ k" using Suc.prems by (simp add: div_less_iff_less_mult mult.commute)
  then have "foldl (\<lambda>n c. n * 256 + int (code_of c)) a (be_bytes (Suc k) n) = (a * 256 ^ k + int (n div 256)) * 256 + int (n mod 256)"
    using Suc.IH by (simp add: code_of_def)
  also have "\<dots> = a * 256 ^ Suc k + (int (n div 256) * 256 + int (n mod 256))" by (simp add: algebra_simps)
  also have "int (n div 256) * 256 + int (n mod 256) = int n"
    by (metis div_mult_mod_eq of_nat_add of_nat_mult of_nat_numeral)
  finally show ?case .
qed simp

lemma int64_roundtrip: "- (2 ^ 63) \<le> i \<Longrightarrow> i < 2 ^ 63 \<Longrightarrow> int64_of_bytes (int64_bytes i) = i"
proof -
  assume i: "- (2 ^ 63) \<le> i" "i < 2 ^ 63"
  let ?n = "nat (i mod 2 ^ 64)"
  have "?n < 256 ^ 8" by simp
  from foldl_be_bytes[OF this, of 0]
  have f: "foldl (\<lambda>n c. n * 256 + int (code_of c)) 0 (int64_bytes i) = i mod 2 ^ 64" by (simp add: int64_bytes_def)
  have "i mod 2 ^ 64 = (if 0 \<le> i then i else i + 2 ^ 64)"
  proof (cases "0 \<le> i")
    case False
    have "i mod 2 ^ 64 = (i + 2 ^ 64) mod 2 ^ 64" by simp
    also have "\<dots> = i + 2 ^ 64" using i False by (intro mod_pos_pos_trivial) simp_all
    finally show ?thesis using False by simp
  qed (use i in simp)
  then show ?thesis unfolding int64_of_bytes_def f Let_def using i by auto
qed

lemma decode_encode:
  assumes "read (write frame) = Some frame" "encode_chunk write frame fetched_at = Some blob"
  shows "decode_chunk read blob = Some (frame, fetched_at) \<and>
    decode_fetched_at (take HEADER_SIZE blob) = Some fetched_at \<and> decode_fetched_at blob = Some fetched_at"
proof -
  have t: "- (2 ^ 63) \<le> fetched_at" "fetched_at < 2 ^ 63" and blob: "blob = int64_bytes fetched_at @ write frame"
    using assms(2) by (auto simp: encode_chunk_def split: if_splits)
  have "length (int64_bytes fetched_at) = HEADER_SIZE" by (simp add: HEADER_SIZE_def)
  then show ?thesis using int64_roundtrip[OF t] assms(1) by (simp add: blob decode_chunk_def decode_fetched_at_def)
qed

text \<open>A stored chunk gives back its frame and its fetch time, and the time can be read from its
  first eight bytes, when Arrow reads back what it wrote.\<close>

theorem chunk_roundtrip:
  assumes "\<And>f. read (write f) = Some f" "encode_chunk write frame fetched_at = Some blob"
  shows "decode_chunk read blob = Some (frame, fetched_at) \<and>
    decode_fetched_at (take HEADER_SIZE blob) = Some fetched_at \<and> decode_fetched_at blob = Some fetched_at"
  using assms by (intro decode_encode) simp_all

theorem chunk_roundtrip_witness:
  "encode_chunk id ''frame'' (- 5) = Some (int64_bytes (- 5) @ ''frame'') \<and>
   decode_chunk Some (int64_bytes (- 5) @ ''frame'') = Some (''frame'', - 5)"
proof
  show e: "encode_chunk id ''frame'' (- 5) = Some (int64_bytes (- 5) @ ''frame'')" by (simp add: encode_chunk_def)
  show "decode_chunk Some (int64_bytes (- 5) @ ''frame'') = Some (''frame'', - 5)"
    using chunk_roundtrip[of Some id "''frame''" "- 5", OF _ e] by simp
qed



end
