(* ===== verification/DataCatalog.thy ===== *)
theory DataCatalog
  imports DataModels "HOL-Library.Product_Lexorder" "HOL-Library.Option_ord" "HOL-Library.Multiset"
begin

text \<open>
  \<open>data/catalog.py\<close>: the search over the instruments of both markets. The Polars frame of a catalog
  is a list of rows, one per instrument with its search keys; its sort by several columns is a sort
  by the tuple of them, a descending column negated and missing values last.
\<close>

section \<open>Search keys\<close>

definition normalise_query :: "string \<Rightarrow> string" where
  "normalise_query q = filter is_alnum (upper q)"

text \<open>\<open>_words\<close>: the runs of letters and digits, each after a space.\<close>

definition name_words :: "string \<Rightarrow> string" where
  "name_words text =
     concat (map (\<lambda>w. CHR '' '' # w) (words (map (\<lambda>c. if is_alnum c then c else CHR '' '') (lower text))))"

fun contains :: "string \<Rightarrow> string \<Rightarrow> bool" where
  "contains part [] = (part = [])"
| "contains part (c # cs) = (take (length part) (c # cs) = part \<or> contains part cs)"

record catalog_row =
  r_index :: nat
  r_market :: string
  r_exchange :: "string option"
  r_symbol :: string
  r_key :: string
  r_base :: string
  r_quote_pairs :: nat
  r_words :: string

record catalog =
  c_items :: "instrument list"
  c_frame :: "catalog_row list"

definition text_or_empty :: "string option \<Rightarrow> string" where
  "text_or_empty t = (case t of None \<Rightarrow> [] | Some s \<Rightarrow> s)"

text \<open>The instruments quoted in an asset; an instrument without a quote asset counts none.\<close>

definition quote_count :: "instrument list \<Rightarrow> string \<Rightarrow> nat" where
  "quote_count items q = (if q = [] then 0 else length (filter (\<lambda>i. text_or_empty (in_quote i) = q) items))"

definition catalog_row_of :: "instrument list \<Rightarrow> nat \<Rightarrow> instrument \<Rightarrow> catalog_row" where
  "catalog_row_of items n i =
     \<lparr>r_index = n, r_market = market_name (in_market i), r_exchange = in_exchange i, r_symbol = in_symbol i,
      r_key = normalise_query (in_symbol i), r_base = normalise_query (text_or_empty (in_base i)),
      r_quote_pairs = quote_count items (text_or_empty (in_quote i)), r_words = name_words (in_name i)\<rparr>"

definition make_catalog :: "instrument list \<Rightarrow> catalog" where
  "make_catalog items = \<lparr>c_items = items, c_frame = map (\<lambda>n. catalog_row_of items n (items ! n)) [0..<length items]\<rparr>"

text \<open>\<open>_by_id\<close>: the last instrument with an id.\<close>

definition catalog_get :: "catalog \<Rightarrow> instrument_id \<Rightarrow> instrument option" where
  "catalog_get c i = map_of (rev (map (\<lambda>x. (in_id x, x)) (c_items c))) i"

definition catalog_instruments :: "catalog \<Rightarrow> market \<Rightarrow> instrument list" where
  "catalog_instruments c m = filter (\<lambda>i. in_market i = m) (c_items c)"

section \<open>Matches\<close>

text \<open>A row of the stats (\<open>MARKET_STATS_SCHEMA\<close>), and a catalog row joined with it.\<close>

type_synonym stats_row = "string \<times> string \<times> instrument_stats"
type_synonym joined = "catalog_row \<times> instrument_stats"

definition with_stats :: "catalog_row list \<Rightarrow> stats_row list option \<Rightarrow> joined list" where
  "with_stats frame stats = concat (map (\<lambda>r.
     (case filter (\<lambda>(m, s, _). m = r_market r \<and> s = r_symbol r) (case stats of None \<Rightarrow> [] | Some rows \<Rightarrow> rows) of
        [] \<Rightarrow> [(r, NO_STATS)]
      | found \<Rightarrow> map (\<lambda>(_, _, st). (r, st)) found)) frame)"

definition exchange_name :: "exchange \<Rightarrow> string" where
  "exchange_name e = (case e of AMEX \<Rightarrow> ''AMEX'' | ARCA \<Rightarrow> ''ARCA'' | BATS \<Rightarrow> ''BATS'' | BINANCE \<Rightarrow> ''BINANCE''
     | NASDAQ \<Rightarrow> ''NASDAQ'' | NYSE \<Rightarrow> ''NYSE'')"

definition keeps_row :: "market option \<Rightarrow> exchange option \<Rightarrow> joined \<Rightarrow> bool" where
  "keeps_row m e row =
     ((case m of None \<Rightarrow> True | Some x \<Rightarrow> r_market (fst row) = market_name x) \<and>
      (case e of None \<Rightarrow> True | Some x \<Rightarrow> r_exchange (fst row) = Some (exchange_name x)))"

text \<open>\<open>_rank\<close> of a row among the rows searched.\<close>

definition is_top_pair :: "string \<Rightarrow> joined list \<Rightarrow> catalog_row \<Rightarrow> bool" where
  "is_top_pair key frame r =
     (r_base r = key \<and> list_all (\<lambda>(x, _). r_base x = key \<longrightarrow> r_quote_pairs x \<le> r_quote_pairs r) frame)"

definition match_rank :: "string \<Rightarrow> string \<Rightarrow> joined list \<Rightarrow> catalog_row \<Rightarrow> nat option" where
  "match_rank key ws frame r =
     (if is_top_pair key frame r then Some 0
      else if r_key r = key then Some 1
      else if r_base r = key then Some 2
      else if take (length key) (r_key r) = key then Some 3
      else if contains (CHR '' '' # ws) (r_words r) then Some 4
      else if contains key (r_key r) then Some 5
      else if contains ws (r_words r) then Some 6
      else None)"

text \<open>\<open>_SORT_KEYS\<close>: missing values last, a descending column negated.\<close>

definition sort_value :: "instrument_sort \<Rightarrow> instrument_stats \<Rightarrow> bool \<times> fl" where
  "sort_value s st =
     (let nulls_last = (\<lambda>v f. case v of None \<Rightarrow> (True, Fin 0) | Some x \<Rightarrow> (False, f x))
      in (case s of
           ByVolume \<Rightarrow> nulls_last (is_volume st) fl_neg
         | ByChange \<Rightarrow> nulls_last (is_change st) fl_neg
         | ByLosers \<Rightarrow> nulls_last (is_change st) id
         | BySymbol \<Rightarrow> (False, Fin 0)))"

definition list_key :: "instrument_sort \<Rightarrow> joined \<Rightarrow> (bool \<times> fl) \<times> string \<times> string" where
  "list_key s row = (sort_value s (snd row), r_symbol (fst row), r_market (fst row))"

definition match_key :: "string \<Rightarrow> string \<Rightarrow> joined list \<Rightarrow> instrument_sort \<Rightarrow> joined \<Rightarrow>
    nat \<times> int \<times> (bool \<times> fl) \<times> nat \<times> string \<times> string" where
  "match_key key ws frame s row =
     (let k = (case match_rank key ws frame (fst row) of None \<Rightarrow> 0 | Some n \<Rightarrow> n)
      in (k, (if k = 2 then - int (r_quote_pairs (fst row)) else 0), sort_value s (snd row),
          length (r_symbol (fst row)), r_symbol (fst row), r_market (fst row)))"

definition lstrip_words :: "string \<Rightarrow> string" where
  "lstrip_words q = lstrip (name_words q)"

definition catalog_matches :: "catalog \<Rightarrow> string option \<Rightarrow> market option \<Rightarrow> exchange option \<Rightarrow> instrument_sort \<Rightarrow>
    stats_row list option \<Rightarrow> joined list" where
  "catalog_matches c q m e s stats =
     (let frame = filter (keeps_row m e) (with_stats (c_frame c) stats)
      in (case q of
           None \<Rightarrow> sort_key (list_key s) frame
         | Some t \<Rightarrow>
             (let key = normalise_query t; ws = lstrip_words t
              in if key = [] \<or> ws = [] then []
                 else sort_key (match_key key ws frame s) (filter (\<lambda>row. match_rank key ws frame (fst row) \<noteq> None) frame))))"

record catalog_page =
  cp_items :: "instrument list"
  cp_stats :: "instrument_stats option list"
  cp_total :: nat

definition catalog_page_of :: "catalog \<Rightarrow> string option \<Rightarrow> market option \<Rightarrow> int \<Rightarrow> nat \<Rightarrow> exchange option \<Rightarrow>
    instrument_sort \<Rightarrow> stats_row list option \<Rightarrow> catalog_page" where
  "catalog_page_of c q m limit offset e s stats =
     (let found = catalog_matches c q m e s stats; total = length found
      in if limit \<le> 0 then \<lparr>cp_items = [], cp_stats = [], cp_total = total\<rparr>
         else (let page = take (nat limit) (drop (min offset total) found)
               in \<lparr>cp_items = map (\<lambda>row. c_items c ! r_index (fst row)) page,
                   cp_stats = map (\<lambda>row. if is_price (snd row) = None then None else Some (snd row)) page,
                   cp_total = total\<rparr>))"

definition catalog_search :: "catalog \<Rightarrow> string option \<Rightarrow> market option \<Rightarrow> int \<Rightarrow> nat \<Rightarrow> exchange option \<Rightarrow>
    instrument_sort \<Rightarrow> stats_row list option \<Rightarrow> instrument list" where
  "catalog_search c q m limit offset e s stats = cp_items (catalog_page_of c q m limit offset e s stats)"

section \<open>A search is exact\<close>

text \<open>The stats have one row per instrument, as the store keeps them.\<close>

definition stats_unique :: "stats_row list option \<Rightarrow> bool" where
  "stats_unique stats = (case stats of None \<Rightarrow> True | Some rows \<Rightarrow> distinct (map (\<lambda>(m, s, _). (m, s)) rows))"

definition stats_of_row :: "stats_row list option \<Rightarrow> catalog_row \<Rightarrow> instrument_stats" where
  "stats_of_row stats r =
     (case filter (\<lambda>(m, s, _). m = r_market r \<and> s = r_symbol r) (case stats of None \<Rightarrow> [] | Some rows \<Rightarrow> rows) of
        [] \<Rightarrow> NO_STATS | (_, _, st) # _ \<Rightarrow> st)"

lemma filter_unique:
  assumes "distinct (map f xs)"
  shows "length (filter (\<lambda>x. f x = y) xs) \<le> 1"
proof -
  have "\<forall>x \<in> set (filter (\<lambda>x. f x = y) xs). f x = y" by simp
  then have "map f (filter (\<lambda>x. f x = y) xs) = replicate (length (filter (\<lambda>x. f x = y) xs)) y"
    by (simp add: map_replicate_const[symmetric] cong: map_cong)
  moreover have "distinct (map f (filter (\<lambda>x. f x = y) xs))" using assms by (rule distinct_map_filter)
  moreover have "n \<le> 1" if "distinct (replicate n y)" for n
  proof (rule ccontr)
    assume "\<not> n \<le> 1"
    then obtain k where "n = Suc (Suc k)" by (metis One_nat_def Suc_le_mono le0 not0_implies_Suc)
    then show False using that by simp
  qed
  ultimately show ?thesis by metis
qed

lemma with_stats_map:
  assumes "stats_unique stats"
  shows "with_stats frame stats = map (\<lambda>r. (r, stats_of_row stats r)) frame"
proof -
  have "(case filter (\<lambda>(m, s, _). m = r_market r \<and> s = r_symbol r) (case stats of None \<Rightarrow> [] | Some rows \<Rightarrow> rows) of
        [] \<Rightarrow> [(r, NO_STATS)] | found \<Rightarrow> map (\<lambda>(_, _, st). (r, st)) found) = [(r, stats_of_row stats r)]" for r
  proof -
    let ?rows = "case stats of None \<Rightarrow> [] | Some rows \<Rightarrow> rows"
    have "distinct (map (\<lambda>(m, s, _). (m, s)) ?rows)" using assms by (simp add: stats_unique_def split: option.splits)
    from filter_unique[OF this, of "(r_market r, r_symbol r)"]
    have "length (filter (\<lambda>(m, s, _). m = r_market r \<and> s = r_symbol r) ?rows) \<le> 1"
      by (simp add: case_prod_unfold)
    then show ?thesis unfolding stats_of_row_def
      by (cases "filter (\<lambda>(m, s, _). m = r_market r \<and> s = r_symbol r) ?rows") (auto split: prod.splits)
  qed
  then show ?thesis by (simp add: with_stats_def)
qed

text \<open>The rows a search looks at, and those it finds.\<close>

definition searched :: "catalog \<Rightarrow> market option \<Rightarrow> exchange option \<Rightarrow> stats_row list option \<Rightarrow> joined list" where
  "searched c m e stats = filter (keeps_row m e) (with_stats (c_frame c) stats)"

definition found_by :: "string option \<Rightarrow> joined list \<Rightarrow> catalog_row \<Rightarrow> bool" where
  "found_by q frame r = (case q of None \<Rightarrow> True
     | Some t \<Rightarrow> normalise_query t \<noteq> [] \<and> lstrip_words t \<noteq> [] \<and> match_rank (normalise_query t) (lstrip_words t) frame r \<noteq> None)"

lemma mset_matches: "mset (catalog_matches c q m e s stats) =
    mset (filter (\<lambda>row. found_by q (searched c m e stats) (fst row)) (searched c m e stats))"
  by (cases q) (auto simp: catalog_matches_def searched_def[symmetric] found_by_def Let_def)

lemma keeps_row_stats: "keeps_row m e (r, st) = keeps_row m e (r, NO_STATS)"
  by (simp add: keeps_row_def cong: option.case_cong)

lemma searched_rows:
  assumes "stats_unique stats"
  shows "searched (make_catalog items) m e stats =
    map (\<lambda>n. (catalog_row_of items n (items ! n), stats_of_row stats (catalog_row_of items n (items ! n))))
      (filter (\<lambda>n. keeps_row m e (catalog_row_of items n (items ! n), NO_STATS)) [0..<length items])"
proof -
  have "filter (\<lambda>n. keeps_row m e (catalog_row_of items n (items ! n), stats_of_row stats (catalog_row_of items n (items ! n)))) [0..<length items]
      = filter (\<lambda>n. keeps_row m e (catalog_row_of items n (items ! n), NO_STATS)) [0..<length items]"
    by (rule filter_cong[OF refl]) (rule keeps_row_stats)
  then show ?thesis by (simp add: searched_def with_stats_map[OF assms] make_catalog_def filter_map o_def)
qed

lemma sort_key_prefix:
  assumes "i < j" "j < length xs"
  shows "f (sort_key f xs ! i) \<le> f (sort_key f xs ! j)"
  using assms sorted_nth_mono[OF sorted_sort_key, of i j f xs] by simp

lemma search_page:
  "0 < limit \<Longrightarrow> cp_items (catalog_page_of (make_catalog items) q m limit offset e s stats) =
     take (nat limit) (drop offset (map (\<lambda>row. items ! r_index (fst row)) (catalog_matches (make_catalog items) q m e s stats))) \<and>
   cp_total (catalog_page_of (make_catalog items) q m limit offset e s stats) = length (catalog_matches (make_catalog items) q m e s stats)"
proof -
  have min: "drop (min offset (length found)) found = drop offset found" for found :: "'a list" by (simp add: min_def)
  assume "0 < limit"
  then show ?thesis by (simp add: catalog_page_of_def Let_def min take_map drop_map) (simp add: make_catalog_def)
qed

lemma search_all:
  fixes items q m e s stats
  defines "found \<equiv> map (\<lambda>row. r_index (fst row)) (catalog_matches (make_catalog items) q m e s stats)"
  assumes "stats_unique stats"
  shows "distinct found \<and> set found =
    {n. n < length items \<and> keeps_row m e (catalog_row_of items n (items ! n), NO_STATS) \<and>
      found_by q (searched (make_catalog items) m e stats) (catalog_row_of items n (items ! n))}"
proof -
  let ?frame = "searched (make_catalog items) m e stats"
  have r: "r_index (catalog_row_of items n i) = n" for n i by (simp add: catalog_row_of_def)
  have index: "map (\<lambda>row. r_index (fst row)) (filter (\<lambda>row. found_by q g (fst row)) ?frame) =
      filter (\<lambda>n. keeps_row m e (catalog_row_of items n (items ! n), NO_STATS) \<and> found_by q g (catalog_row_of items n (items ! n)))
        [0..<length items]" for g
    by (simp add: searched_rows[OF assms(2)] filter_map o_def r conj_commute)
  have "mset found = mset (map (\<lambda>row. r_index (fst row)) (filter (\<lambda>row. found_by q ?frame (fst row)) ?frame))"
    unfolding found_def by (simp add: mset_matches)
  then have m: "mset found = mset (filter (\<lambda>n. keeps_row m e (catalog_row_of items n (items ! n), NO_STATS) \<and>
      found_by q ?frame (catalog_row_of items n (items ! n))) [0..<length items])" unfolding index .
  have "distinct found" using mset_eq_imp_distinct_iff[OF m] by (simp only: distinct_filter distinct_upt)
  then show ?thesis using mset_eq_setD[OF m] by auto
qed

lemma matches_ranked: "row \<in> set (catalog_matches c (Some t) m e s stats) \<Longrightarrow>
    match_rank (normalise_query t) (lstrip_words t) (searched c m e stats) (fst row) \<noteq> None"
  using mset_eq_setD[OF mset_matches[of c "Some t" m e s stats]] by (auto simp: found_by_def)

lemma search_sorted:
  assumes "i < j" "j < length (catalog_matches c (Some t) m e s stats)"
  shows "the (match_rank (normalise_query t) (lstrip_words t) (searched c m e stats) (fst (catalog_matches c (Some t) m e s stats ! i)))
    \<le> the (match_rank (normalise_query t) (lstrip_words t) (searched c m e stats) (fst (catalog_matches c (Some t) m e s stats ! j)))"
proof -
  let ?frame = "searched c m e stats" and ?found = "catalog_matches c (Some t) m e s stats"
  let ?k = "match_key (normalise_query t) (lstrip_words t) ?frame s"
  have ne: "normalise_query t \<noteq> []" "lstrip_words t \<noteq> []" using assms(2) by (auto simp: catalog_matches_def Let_def)
  then have f: "?found = sort_key ?k (filter (\<lambda>row. match_rank (normalise_query t) (lstrip_words t) ?frame (fst row) \<noteq> None) ?frame)"
    by (simp add: catalog_matches_def Let_def searched_def)
  have le: "?k (?found ! i) \<le> ?k (?found ! j)" using assms unfolding f by (intro sort_key_prefix) simp_all
  have "match_rank (normalise_query t) (lstrip_words t) ?frame (fst (?found ! i)) \<noteq> None"
      "match_rank (normalise_query t) (lstrip_words t) ?frame (fst (?found ! j)) \<noteq> None"
    using assms by (auto intro!: matches_ranked[where s = s] simp del: not_None_eq)
  then show ?thesis using le by (auto simp: match_key_def Let_def less_eq_prod_def)
qed

lemma search_first:
  assumes "row \<in> set (searched c m e stats)" "normalise_query t \<noteq> []" "lstrip_words t \<noteq> []" "r_key (fst row) = normalise_query t"
  shows "catalog_matches c (Some t) m e s stats \<noteq> [] \<and>
    (r_key (fst (hd (catalog_matches c (Some t) m e s stats))) = normalise_query t \<or>
     is_top_pair (normalise_query t) (searched c m e stats) (fst (hd (catalog_matches c (Some t) m e s stats))))"
proof -
  let ?found = "catalog_matches c (Some t) m e s stats"
  let ?r = "\<lambda>row. match_rank (normalise_query t) (lstrip_words t) (searched c m e stats) (fst row)"
  have r: "?r row \<noteq> None" "the (?r row) \<le> 1" using assms(4) by (simp_all add: match_rank_def)
  then have "row \<in> set ?found"
    using assms mset_eq_setD[OF mset_matches[of c "Some t" m e s stats]] by (simp add: found_by_def)
  then obtain i where i: "i < length ?found" "?found ! i = row" by (auto simp: in_set_conv_nth)
  have "the (?r (?found ! 0)) \<le> 1"
    using search_sorted[of 0 i c t m e s stats] i r(2) by (cases "i = 0") auto
  moreover have "?found ! 0 \<in> set ?found" using i(1) by (intro nth_mem) (cases "?found"; simp)
  then have "?r (?found ! 0) \<noteq> None" by (rule matches_ranked)
  ultimately have "?r (?found ! 0) = Some 0 \<or> ?r (?found ! 0) = Some 1" by auto
  then have "r_key (fst (?found ! 0)) = normalise_query t \<or> is_top_pair (normalise_query t) (searched c m e stats) (fst (?found ! 0))"
    by (auto simp: match_rank_def split: if_splits)
  moreover have ne: "?found \<noteq> []" using i(1) by (cases "?found"; simp)
  ultimately show ?thesis by (simp only: hd_conv_nth[OF ne]) simp
qed

text \<open>C24: a page of a search is the part of one list from its offset on, of at most its limit; the
  list holds every instrument of the market and exchange that the query finds, each exactly once,
  better ranks first. When an instrument has the very symbol the query asks for, the list starts
  with such an instrument or with the top pair of that base asset.\<close>

theorem search_exact:
  assumes "stats_unique stats" "0 < limit"
  shows "let c = make_catalog items; frame = searched c m e stats; found = catalog_matches c q m e s stats;
      page = catalog_page_of c q m limit offset e s stats
    in cp_items page = take (nat limit) (drop offset (map (\<lambda>row. items ! r_index (fst row)) found)) \<and>
       cp_total page = length found \<and> distinct (map (\<lambda>row. r_index (fst row)) found) \<and>
       set (map (\<lambda>row. r_index (fst row)) found) =
         {n. n < length items \<and> keeps_row m e (catalog_row_of items n (items ! n), NO_STATS) \<and>
           found_by q frame (catalog_row_of items n (items ! n))} \<and>
       (\<forall>t. q = Some t \<longrightarrow>
         (\<forall>i j. i < j \<longrightarrow> j < length found \<longrightarrow>
           the (match_rank (normalise_query t) (lstrip_words t) frame (fst (found ! i)))
             \<le> the (match_rank (normalise_query t) (lstrip_words t) frame (fst (found ! j)))) \<and>
         (\<forall>row \<in> set frame. normalise_query t \<noteq> [] \<longrightarrow> lstrip_words t \<noteq> [] \<longrightarrow> r_key (fst row) = normalise_query t \<longrightarrow>
           found \<noteq> [] \<and> (r_key (fst (hd found)) = normalise_query t \<or> is_top_pair (normalise_query t) frame (fst (hd found)))))"
  unfolding Let_def using search_page[OF assms(2)] search_all[OF assms(1)] search_sorted search_first
  by (intro conjI allI impI ballI) (simp | blast)+

definition example_instrument :: "market \<Rightarrow> string \<Rightarrow> string option \<Rightarrow> string option \<Rightarrow> instrument" where
  "example_instrument m symbol base quote =
     \<lparr>in_id = \<lparr>i_market = m, i_symbol = symbol\<rparr>, in_name = symbol, in_source = ''s'', in_feed = ''f'', in_exchange = None,
      in_base = base, in_quote = quote\<rparr>"

theorem search_exact_witness:
  "catalog_search (make_catalog [example_instrument Stock ''BTC'' None None, example_instrument Crypto ''BTCUSDT'' (Some ''BTC'') (Some ''USDT'')])
     (Some ''btc'') None 1 1 None ByVolume None = [example_instrument Stock ''BTC'' None None]"
proof -
  let ?items = "[example_instrument Stock ''BTC'' None None, example_instrument Crypto ''BTCUSDT'' (Some ''BTC'') (Some ''USDT'')]"
  have p: "cp_items (catalog_page_of (make_catalog ?items) (Some ''btc'') None 1 1 None ByVolume None) =
      take (nat 1) (drop 1 (map (\<lambda>row. ?items ! r_index (fst row)) (catalog_matches (make_catalog ?items) (Some ''btc'') None None ByVolume None)))"
    using search_exact[of None 1 ?items None None "Some ''btc''" ByVolume 1] by (simp add: stats_unique_def Let_def)
  have "map (\<lambda>row. r_index (fst row)) (catalog_matches (make_catalog ?items) (Some ''btc'') None None ByVolume None) = [1, 0]"
    by code_simp
  then show ?thesis unfolding catalog_search_def p by (simp add: map_eq_Cons_conv) auto
qed

end
