(* ===== verification/DataSource.thy ===== *)
theory DataSource
  imports DataHttp DataCandles DataPeriods
begin

text \<open>
  What the service needs of a source and what both sources share: reading JSON values, errors and
  pauses, a turn in a share of the request budget, and the protocol \<open>DataSource\<close> of
  \<open>data/sources/base.py\<close> as a record of effects. The locale \<open>chunk_source\<close> states what the chunk plan
  of a source promises; the sources interpret it on their \<open>periods\<close>, and the service relies on it.
\<close>

section \<open>Reading JSON\<close>

text \<open>What \<open>for item in value\<close> goes through, and \<open>value[key]\<close>; \<open>None\<close> is a \<open>TypeError\<close> or \<open>KeyError\<close>.\<close>

definition json_items :: "json \<Rightarrow> json list option" where
  "json_items v = (case v of JList xs \<Rightarrow> Some xs | JObj ms \<Rightarrow> Some (map JStr (first_seen (map fst ms)))
     | JStr s \<Rightarrow> Some (map (\<lambda>c. JStr [c]) s) | _ \<Rightarrow> None)"

definition json_get :: "json \<Rightarrow> string \<Rightarrow> json option" where
  "json_get v key = (case v of JObj ms \<Rightarrow> map_of (rev ms) key | _ \<Rightarrow> None)"

fun map_opt :: "('a \<Rightarrow> 'b option) \<Rightarrow> 'a list \<Rightarrow> 'b list option" where
  "map_opt f [] = Some []"
| "map_opt f (x # xs) = (case f x of None \<Rightarrow> None | Some y \<Rightarrow> map_option ((#) y) (map_opt f xs))"

text \<open>\<open>dict.items\<close>: a repeated key has its last value where it first was. \<open>bool(value)\<close>; texts.\<close>

definition json_members :: "(string \<times> json) list \<Rightarrow> (string \<times> json) list" where
  "json_members ms = map (\<lambda>k. (k, the (map_of (rev ms) k))) (first_seen (map fst ms))"

definition truthy :: "json \<Rightarrow> bool" where
  "truthy v = (v \<notin> {JNull, JBool False, JInt 0, JNum (Fin 0), JStr [], JList [], JObj []})"

definition json_text :: "json \<Rightarrow> string option" where
  "json_text v = (case v of JStr s \<Rightarrow> Some s | _ \<Rightarrow> None)"

text \<open>\<open>value.get(key)\<close> of an object: missing and null are the same.\<close>

definition json_field :: "json \<Rightarrow> string \<Rightarrow> json" where
  "json_field v key = (case json_get v key of None \<Rightarrow> JNull | Some x \<Rightarrow> x)"

section \<open>Errors, texts and numbers\<close>

definition rstrip_slash :: "string \<Rightarrow> string" where
  "rstrip_slash s = rev (dropWhile (\<lambda>c. c = CHR ''/'') (rev s))"

definition fault_detail :: "data_error \<Rightarrow> string" where
  "fault_detail e = (case e of SourceUnavailable _ d _ _ \<Rightarrow> d | DataIntegrityError d _ \<Rightarrow> d | InvalidRequest d \<Rightarrow> d
     | InstrumentNotFound d \<Rightarrow> d | _ \<Rightarrow> [])"

text \<open>\<open>round\<close> to the nearest whole number, a half to the even one.\<close>

definition round_half_even :: "real \<Rightarrow> int" where
  "round_half_even x = (let f = \<lfloor>x\<rfloor>; d = x - real_of_int f in if d < 1 / 2 then f else if d > 1 / 2 then f + 1
     else if even f then f else f + 1)"

definition rejected :: "data_error \<Rightarrow> bool" where
  "rejected e = (case e of SourceUnavailable _ _ _ r \<Rightarrow> r | _ \<Rightarrow> False)"

definition pause_after :: "'w net \<Rightarrow> data_error \<Rightarrow> 'w \<Rightarrow> 'w" where
  "pause_after N e w = (case e of SourceUnavailable _ _ (Some secs) _ \<Rightarrow> if secs \<noteq> 0 then nt_sleep N (real_of_int (min secs 60)) w else w
     | _ \<Rightarrow> w)"

text \<open>\<open>itertools.batched\<close>\<close>

function batched :: "nat \<Rightarrow> 'a list \<Rightarrow> 'a list list" where
  "batched n xs = (if xs = [] \<or> n = 0 then [] else take n xs # batched n (drop n xs))"
  by pat_completeness auto
termination by (relation "measure (\<lambda>(n, xs). length xs)") auto

declare batched.simps [simp del]

lemma batched_concat: "0 < n \<Longrightarrow> concat (batched n xs) = xs" "b \<in> set (batched n xs) \<Longrightarrow> b \<noteq> []"
proof -
  show "0 < n \<Longrightarrow> concat (batched n xs) = xs"
    by (induction n xs rule: batched.induct) (subst batched.simps, simp)
  show "b \<in> set (batched n xs) \<Longrightarrow> b \<noteq> []"
  proof (induction n xs rule: batched.induct)
    case (1 n xs)
    then show ?case by (subst (asm) (2) batched.simps) (auto split: if_splits)
  qed
qed

section \<open>State and turns\<close>

text \<open>An effect on the world as one on a state with more in it.\<close>

definition on_world :: "('w, 'a) io \<Rightarrow> ('p \<times> 'w, 'a) io" where
  "on_world f = (\<lambda>(p, w). case f w of (r, w') \<Rightarrow> (r, (p, w')))"

text \<open>\<open>while (wait := hit(...)) > 0: pause(wait)\<close>, with fuel for the waits it may make.\<close>

fun take_turn :: "'w net \<Rightarrow> nat \<Rightarrow> string \<Rightarrow> int \<Rightarrow> int \<Rightarrow> ('w, unit) io" where
  "take_turn N fuel key limit cost w = (case nt_hit N key limit cost w of (wait, w') \<Rightarrow>
     if wait \<le> 0 then (Inr (), w')
     else (case fuel of 0 \<Rightarrow> (Inl (Crash ''out of fuel''), w')
       | Suc n \<Rightarrow> take_turn N n key limit cost (nt_sleep N wait w')))"

text \<open>\<open>normalise\<close> of a frame that has the candle schema already.\<close>

definition tidy :: "candle list \<Rightarrow> candle list" where
  "tidy ks = sort_key k_ts (keep_last ks)"

text \<open>\<open>int(time.time())\<close> after 1970.\<close>

definition clock :: "'w net \<Rightarrow> 'w \<Rightarrow> int" where
  "clock N w = \<lfloor>nt_now N w\<rfloor>"

text \<open>\<open>Cache.get_or_fetch\<close> as its callers see it: a name and a fetch (bytes and how long to keep them)
  give the bytes. DataCache models what it does inside.\<close>

type_synonym 's caching = "string \<Rightarrow> ('s, string \<times> int) io \<Rightarrow> ('s, string) io"

section \<open>The protocol\<close>

text \<open>A row of \<open>SPARK_SCHEMA\<close>: the symbol, and the candle without its volume.\<close>

type_synonym spark_row = "string \<times> int option \<times> fl option \<times> fl option \<times> fl option \<times> fl option"

definition to_spark_row :: "string \<Rightarrow> candle \<Rightarrow> spark_row" where
  "to_spark_row symbol k = (symbol, k_ts k, k_open k, k_high k, k_low k, k_close k)"

text \<open>A day's candle is asked for this long after the day closed (\<open>data/spark_store.py\<close>).\<close>

definition SETTLE_SECONDS :: int where "SETTLE_SECONDS = 900"

text \<open>The instruments' stats or daily candles, and the symbols that could not be asked for.\<close>

type_synonym 'r source_stats = "'r list \<times> string list"

record 's data_source =
  src_name :: string
  src_feed :: string
  src_market :: market
  src_list_instruments :: "('s, instrument list) io"
  src_sessions :: "('s, session list option) io"
  src_first_timestamp :: "string \<Rightarrow> ('s, int option) io"
  src_base_timeframe :: "timeframe \<Rightarrow> timeframe"
  src_periods :: "timeframe \<Rightarrow> int \<Rightarrow> int \<Rightarrow> int \<Rightarrow> period list"
  src_fetch_period :: "string \<Rightarrow> timeframe \<Rightarrow> period \<Rightarrow> ('s, candle list) io"
  src_health :: "('s, source_health) io"
  src_stats :: "instrument list \<Rightarrow> ('s, (string \<times> instrument_stats) source_stats) io"
  src_daily_candles :: "instrument list \<Rightarrow> int \<Rightarrow> ('s, spark_row source_stats) io"

section \<open>What a chunk plan promises\<close>

text \<open>\<open>lag\<close> is how long before now the plan ends. The chunks tile the period, the live chunk is the
  last and is the current day up to the end of the plan, and every other one ended at a UTC midnight
  before it.\<close>

locale chunk_source =
  fixes periods :: "timeframe \<Rightarrow> int \<Rightarrow> int \<Rightarrow> int \<Rightarrow> period list" and lag :: int
  assumes covers: "start < finish \<Longrightarrow> \<exists>a b. tiles a b (periods tf start finish now) \<and> a \<le> start \<and>
      min finish (now - lag) \<le> b \<and> b \<le> now - lag"
    and live_last: "periods tf start finish now = ps @ p # qs \<Longrightarrow> p_kind p = Live \<Longrightarrow>
      qs = [] \<and> p_start p = day_start (now - lag) \<and> p_end p = now - lag"
    and closed_day: "p \<in> set (periods tf start finish now) \<Longrightarrow> p_kind p \<noteq> Live \<Longrightarrow>
      DAY_SECONDS dvd p_end p \<and> p_end p \<le> day_start (now - lag)"
    and before_end: "p \<in> set (periods tf start finish now) \<Longrightarrow> p_start p < finish"
begin

text \<open>Every chunk but the last ends at a UTC midnight.\<close>

lemma inner_end:
  assumes "periods tf start finish now = ps @ p # q # qs"
  shows "DAY_SECONDS dvd p_end p"
proof -
  have "p_kind p \<noteq> Live" using live_last[OF assms] by blast
  moreover have "p \<in> set (periods tf start finish now)" using assms by simp
  ultimately show ?thesis using closed_day by blast
qed

end

section \<open>The laws of plan_periods\<close>

text \<open>The laws hold for \<open>plan_periods\<close> as of \<open>lag\<close> ago, however long its chunks are cached.\<close>

lemma plan_day_end:
  assumes "p \<in> set (plan_periods start finish now yearly daily closed_ttl current_ttl)" "p_kind p \<noteq> Live"
  shows "DAY_SECONDS dvd p_end p"
proof -
  define today where "today = day_start now"
  define current where "current = span_start today yearly"
  have days: "DAY_SECONDS dvd today" "DAY_SECONDS dvd max (day_start start) current"
    using span_start_day(1)[of today yearly] by (simp_all add: today_def current_def day_start_def max_def)
  consider "p \<in> set (closed_part yearly closed_ttl current start finish)"
    | "p \<in> set (current_part daily current_ttl current today start finish)" | "p \<in> set (live_part today now finish)"
    using assms(1) by (auto simp: plan_parts Let_def current_def today_def)
  then show ?thesis
  proof cases
    case 1
    then have "p_end p = next_span (p_start p) yearly"
      using closed_spans_are_spans[OF span_start_idem] unfolding closed_part_def by blast
    then show ?thesis using span_start_day(2) by simp
  next
    case 2
    show ?thesis
    proof (cases daily)
      case True
      then have "p \<in> set (day_chunks current_ttl (min finish today) (max (day_start start) current))"
        using 2 by (simp add: current_part_def split: if_splits)
      then have "DAY_SECONDS dvd p_start p \<and> p_end p = p_start p + DAY_SECONDS" using day_chunks_are_days[OF days(2)] by blast
      then show ?thesis by simp
    next
      case False
      then show ?thesis using 2 days(1) by (auto simp: current_part_def split: if_splits)
    qed
  next
    case 3
    then show ?thesis using assms(2) by (simp add: live_part_def split: if_splits)
  qed
qed

lemma plan_live_last:
  assumes "plan_periods start finish now yearly daily closed_ttl current_ttl = ps @ p # qs" "p_kind p = Live"
  shows "qs = []"
proof (rule ccontr)
  define today where "today = day_start now"
  define current where "current = span_start today yearly"
  define before where "before = closed_part yearly closed_ttl current start finish @ current_part daily current_ttl current today start finish"
  have cur: "span_start current yearly = current" "DAY_SECONDS dvd current" "DAY_SECONDS dvd today"
    using span_start_day(1)[of today yearly] by (simp_all add: current_def today_def day_start_def)
  have not_live: "p_kind x \<noteq> Live" if "x \<in> set before" for x
    using that closed_part_chunk[OF _ cur(1)] current_part_chunk[OF _ cur(2,3)] unfolding before_def by fastforce
  assume "qs \<noteq> []"
  have eq: "before @ live_part today now finish = ps @ p # qs"
    using assms(1) by (simp add: plan_parts Let_def before_def today_def current_def)
  have "p \<in> set before"
  proof (cases "live_part today now finish = []")
    case True
    have "set before = set (ps @ p # qs)" using eq unfolding True by simp
    then show ?thesis by simp
  next
    case False
    then obtain l where "live_part today now finish = [l]" by (auto simp: live_part_def split: if_splits)
    then have "before = butlast (ps @ p # qs)" using eq[symmetric] by simp
    then show ?thesis using \<open>qs \<noteq> []\<close> by (simp add: butlast_append)
  qed
  then show False using not_live assms(2) by blast
qed

definition chunk_span :: "period \<Rightarrow> period_kind \<times> int \<times> int" where
  "chunk_span p = (p_kind p, p_start p, p_end p)"

lemma tiles_spans: "map chunk_span ps = map chunk_span qs \<Longrightarrow> tiles a b ps = tiles a b qs"
proof (induction ps arbitrary: a qs)
  case Nil
  then show ?case by simp
next
  case (Cons p ps)
  then obtain q qs' where qs: "qs = q # qs'" "chunk_span p = chunk_span q" "map chunk_span ps = map chunk_span qs'" by (cases qs) auto
  from Cons.IH[OF qs(3)] have "tiles (p_end p) b ps = tiles (p_end p) b qs'" .
  then show ?case using qs(1,2) by (simp add: chunk_span_def)
qed

lemma chunk_source_plan:
  assumes spans: "\<And>tf start finish now. map chunk_span (periods tf start finish now) =
     map chunk_span (plan_periods start finish (now - lag) (yearly tf) daily closed_ttl current_ttl)"
  shows "chunk_source periods lag"
proof
  fix tf and start finish now :: int
  let ?plan = "plan_periods start finish (now - lag) (yearly tf) daily closed_ttl current_ttl"
  note s = spans[of tf start finish now]
  show "\<exists>a b. tiles a b (periods tf start finish now) \<and> a \<le> start \<and> min finish (now - lag) \<le> b \<and> b \<le> now - lag"
    if "start < finish"
    using plan_covers[OF that, of "now - lag" "yearly tf" daily closed_ttl current_ttl] unfolding tiles_spans[OF s] .
  have chunk: "\<exists>q \<in> set ?plan. chunk_span p = chunk_span q" if "p \<in> set (periods tf start finish now)" for p
    using arg_cong[OF s, of set] that by auto
  show "qs = [] \<and> p_start p = day_start (now - lag) \<and> p_end p = now - lag"
    if p: "periods tf start finish now = ps @ p # qs" "p_kind p = Live" for ps p qs
  proof -
    obtain ps' p' qs' where plan: "?plan = ps' @ p' # qs'" "map chunk_span qs' = map chunk_span qs" "chunk_span p' = chunk_span p"
      using s[unfolded p(1), symmetric] by (auto simp: map_eq_append_conv map_eq_Cons_conv)
    then have "p_kind p' = Live" using p(2) by (simp add: chunk_span_def)
    moreover have "p' \<in> set ?plan" using plan(1) by simp
    ultimately show ?thesis using plan_live_last[OF plan(1)] plan_chunk[of p'] plan(2,3) by (auto simp: chunk_span_def)
  qed
  show "DAY_SECONDS dvd p_end p \<and> p_end p \<le> day_start (now - lag)"
    if p: "p \<in> set (periods tf start finish now)" "p_kind p \<noteq> Live" for p
  proof -
    obtain q where q: "q \<in> set ?plan" "chunk_span p = chunk_span q" using chunk[OF p(1)] by blast
    then show ?thesis using plan_day_end[OF q(1)] plan_chunk[OF q(1)] p(2) by (auto simp: chunk_span_def)
  qed
  show "p_start p < finish" if p: "p \<in> set (periods tf start finish now)" for p
  proof -
    obtain q where q: "q \<in> set ?plan" "chunk_span p = chunk_span q" using chunk[OF p] by blast
    then show ?thesis using plan_chunk[OF q(1)] by (simp add: chunk_span_def)
  qed
qed

end
