(* ===== verification/DataBinance.thy ===== *)
theory DataBinance
  imports DataSource
begin

text \<open>
  \<open>data/sources/binance.py\<close>: the crypto source. What Binance sends is read into JSON values, which the
  parsers take apart with every error they map to \<open>DataIntegrityError\<close>; \<open>BinanceSource\<close> is a record
  of its settings and of what is not under \<open>src/\<close> (HTTP, JSON, zip, CSV, Polars' casts, SHA-256),
  and its methods are effects on the pause of its REST calls and the world. The theorem is about
  the pages of \<open>_klines\<close>: they end, and together are the candles that were asked for.
\<close>

section \<open>Constants\<close>

definition BN_NAME :: string where "BN_NAME = ''binance''"
definition BN_TITLE :: string where "BN_TITLE = ''Binance''"
definition BN_RATE_KEY :: string where "BN_RATE_KEY = ''data:rl:binance''"
definition CLOSED_MONTH_TTL :: int where "CLOSED_MONTH_TTL = 30 * DAY_SECONDS"
definition CLOSED_DAY_TTL :: int where "CLOSED_DAY_TTL = 7 * DAY_SECONDS"
definition KLINES_LIMIT :: nat where "KLINES_LIMIT = 1000"
definition KLINES_WEIGHT :: int where "KLINES_WEIGHT = 2"
definition EXCHANGE_INFO_WEIGHT :: int where "EXCHANGE_INFO_WEIGHT = 20"
definition PING_WEIGHT :: int where "PING_WEIGHT = 1"
definition TICKER_WEIGHT :: int where "TICKER_WEIGHT = 80"
definition USD_QUOTE :: string where "USD_QUOTE = ''USDT''"
definition BN_SPARK_RATE_KEY :: string where "BN_SPARK_RATE_KEY = ''data:rl:binance-spark''"
definition SPARK_WEIGHT_SHARE_MAX :: int where "SPARK_WEIGHT_SHARE_MAX = 300"
definition SPARK_FAILURES_IN_A_ROW :: nat where "SPARK_FAILURES_IN_A_ROW = 5"
definition IP_WEIGHT_CEILING :: int where "IP_WEIGHT_CEILING = 5000"
definition MICROSECONDS :: int where "MICROSECONDS = 10 ^ 15"

definition to_seconds :: "int \<Rightarrow> int" where
  "to_seconds v = (if v \<ge> MICROSECONDS then v div 1000000 else v div 1000)"

section \<open>Parsers\<close>

definition unreadable :: "string \<Rightarrow> data_error" where
  "unreadable what = DataIntegrityError (what @ '' cannot be read'') (Some BN_NAME)"

text \<open>The symbol, base and quote asset of the pairs whose status is \<open>TRADING\<close>.\<close>

definition trading_pair :: "json \<Rightarrow> (json \<times> json \<times> json) option option" where
  "trading_pair item = (case json_get item ''status'' of
      None \<Rightarrow> None
    | Some status \<Rightarrow>
        if status \<noteq> JStr ''TRADING'' then Some None
        else (case (json_get item ''symbol'', json_get item ''baseAsset'', json_get item ''quoteAsset'') of
            (Some s, Some b, Some q) \<Rightarrow> Some (Some (s, b, q)) | _ \<Rightarrow> None))"

definition exchange_pairs :: "json option \<Rightarrow> (json \<times> json \<times> json) list option" where
  "exchange_pairs body = Option.bind body (\<lambda>v. Option.bind (json_get v ''symbols'') (\<lambda>symbols.
     Option.bind (json_items symbols) (\<lambda>items. map_option (\<lambda>ps. List.map_filter id ps) (map_opt trading_pair items))))"

definition binance_instrument :: "(json \<Rightarrow> string) \<Rightarrow> json \<times> json \<times> json \<Rightarrow> instrument option" where
  "binance_instrument str p = (case p of (symbol, base, quote) \<Rightarrow>
     (case parse_id (''crypto:'' @ str symbol) of
        Inl _ \<Rightarrow> None
      | Inr i \<Rightarrow> if JStr (i_symbol i) \<noteq> symbol then None
          else Some \<lparr>in_id = i, in_name = str base @ ''/'' @ str quote, in_source = BN_NAME, in_feed = ''spot'',
                     in_exchange = Some ''BINANCE'', in_base = Some (str base), in_quote = Some (str quote)\<rparr>))"

definition parse_exchange_info :: "(string \<Rightarrow> json option) \<Rightarrow> (json \<Rightarrow> string) \<Rightarrow> string \<Rightarrow> data_error + instrument list" where
  "parse_exchange_info loads str body = (case exchange_pairs (loads body) of
      None \<Rightarrow> Inl (unreadable ''Binance exchangeInfo'')
    | Some pairs \<Rightarrow> Inr (List.map_filter (binance_instrument str) pairs))"

text \<open>\<open>usd_prices\<close> of the (base, quote, last price) of the pairs.\<close>

definition usd_prices :: "(string \<times> string \<times> real) list \<Rightarrow> string \<Rightarrow> real option" where
  "usd_prices pairs =
     (let quoted = foldl (\<lambda>m (base, quote, price). if quote = USD_QUOTE then m(base \<mapsto> price) else m) Map.empty pairs
      in foldl (\<lambda>m (base, quote, price). if base = USD_QUOTE \<and> m quote = None then m(quote \<mapsto> 1 / price) else m)
           (quoted(USD_QUOTE \<mapsto> 1)) pairs)"

text \<open>\<open>parse_ticker\<close>: \<open>read\<close> is \<open>pl.read_json\<close> with the ticker's schema (symbol, last price, change,
  volume, as text or null) and \<open>number\<close> the cast to Float64, null for what is no number.\<close>

type_synonym ticker_row = "string \<times> string option \<times> string option \<times> string option"

definition finite_number :: "(string \<Rightarrow> fl option) \<Rightarrow> string option \<Rightarrow> real option" where
  "finite_number number t = (case Option.bind t number of Some (Fin x) \<Rightarrow> Some x | _ \<Rightarrow> None)"

definition ticker_matches :: "(string \<Rightarrow> fl option) \<Rightarrow> ticker_row list \<Rightarrow> instrument list \<Rightarrow>
    (string \<times> string \<times> string \<times> real \<times> real option \<times> real option) list" where
  "ticker_matches number ticker instruments = concat (map (\<lambda>i. List.map_filter (\<lambda>(symbol, last_price, change, volume).
       if symbol \<noteq> in_symbol i then None
       else (case finite_number number last_price of
           Some price \<Rightarrow> if price > 0 then Some (symbol, the (in_base i), the (in_quote i), price,
               finite_number number change, finite_number number volume) else None
         | None \<Rightarrow> None)) ticker) instruments)"

definition parse_ticker :: "(string \<Rightarrow> ticker_row list option) \<Rightarrow> (string \<Rightarrow> fl option) \<Rightarrow> string \<Rightarrow> instrument list \<Rightarrow>
    data_error + (string \<times> instrument_stats) list" where
  "parse_ticker read number body instruments =
     (if take 1 (lstrip body) \<noteq> ''['' then Inl (DataIntegrityError ''Binance 24h ticker is not a list.'' (Some BN_NAME))
      else (case read body of
          None \<Rightarrow> Inl (unreadable ''Binance 24h ticker'')
        | Some ticker \<Rightarrow>
            (let rows = ticker_matches number ticker instruments;
                 usd = usd_prices (map (\<lambda>(_, base, quote, price, _). (base, quote, price)) rows)
             in Inr (map (\<lambda>(symbol, base, quote, price, change, volume).
                  (symbol, \<lparr>is_price = Some (Fin price), is_change = map_option Fin change,
                    is_volume = (case (volume, usd quote) of (Some v, Some rate) \<Rightarrow> Some (Fin (v * rate)) | _ \<Rightarrow> None)\<rparr>)) rows))))"

text \<open>\<open>parse_archive\<close>: \<open>unpack\<close> reads the first file of the zip as CSV; it tells an empty file from one
  that cannot be read.\<close>

datatype archive_content = EmptyArchive | BadArchive | ArchiveRows "candle list"

definition in_seconds :: "candle \<Rightarrow> candle" where
  "in_seconds k = k\<lparr>k_ts := map_option to_seconds (k_ts k)\<rparr>"

definition parse_archive :: "(string \<Rightarrow> archive_content) \<Rightarrow> string \<Rightarrow> string \<Rightarrow> data_error + candle list" where
  "parse_archive unpack body name = (case unpack body of
      EmptyArchive \<Rightarrow> Inr []
    | BadArchive \<Rightarrow> Inl (unreadable (''Binance archive '' @ name))
    | ArchiveRows ks \<Rightarrow> Inr (map in_seconds ks))"

text \<open>\<open>parse_klines\<close>: \<open>cells\<close> is the frame Polars makes of the first seven cells of each row, with the
  close time. Slicing works on lists and texts.\<close>

definition kline_cells :: "json \<Rightarrow> json list option" where
  "kline_cells row = (case row of JList cs \<Rightarrow> Some (take 7 cs) | JStr s \<Rightarrow> Some (map (\<lambda>c. JStr [c]) (take 7 s)) | _ \<Rightarrow> None)"

definition parse_klines :: "(json list list \<Rightarrow> (candle \<times> int option) list option) \<Rightarrow> json \<Rightarrow> int option \<Rightarrow>
    data_error + candle list" where
  "parse_klines cells rows until =
     (case (case rows of JList rs \<Rightarrow> Option.bind (map_opt kline_cells rs) cells | _ \<Rightarrow> None) of
        None \<Rightarrow> Inl (unreadable ''Binance klines'')
      | Some frame \<Rightarrow> Inr (map (\<lambda>(k, _). in_seconds k) (case until of
            None \<Rightarrow> frame
          | Some e \<Rightarrow> filter (\<lambda>(_, closes). case closes of None \<Rightarrow> False | Some c \<Rightarrow> c < e * 1000) frame)))"

text \<open>\<open>off_grid_span\<close>: from the bin of the first to the bin of the last candle off the grid.\<close>

definition off_grid_span :: "candle list \<Rightarrow> timeframe \<Rightarrow> (int \<times> int) option" where
  "off_grid_span ks tf =
     (let step = seconds tf; off = sort (filter (\<lambda>t. t mod step \<noteq> 0) (List.map_filter k_ts ks))
      in if off = [] then None else Some (hd off div step * step, last off div step * step + step))"

text \<open>\<open>_clean\<close>; \<open>detail\<close> is the text of the broken rules.\<close>

definition clean_candles :: "horizontal \<Rightarrow> (candle_problem list \<Rightarrow> string) \<Rightarrow> candle list \<Rightarrow> timeframe \<Rightarrow> period \<Rightarrow>
    data_error + candle list" where
  "clean_candles H detail ks tf p =
     (let frame = slice_range (tidy ks) (p_start p) (p_end p)
      in (case validate H frame (Some tf) of
           Inl problems \<Rightarrow> Inl (DataIntegrityError (detail problems) (Some BN_NAME))
         | Inr _ \<Rightarrow> Inr frame))"

section \<open>The source\<close>

text \<open>\<open>BinanceSource\<close>: the settings it keeps and what it calls. \<open>bn_cells\<close>, \<open>bn_unpack\<close>,
  \<open>bn_read_ticker\<close> and \<open>bn_number\<close> are Polars, zip and CSV (as in the parsers), \<open>bn_str\<close> is \<open>str\<close>,
  \<open>bn_quote\<close> is \<open>urllib.parse.quote\<close>, \<open>bn_counter\<close> is \<open>perf_counter\<close>. Its methods run on the moment
  until which REST calls are paused, and the world.\<close>

record 'w binance =
  bn_net :: "'w net"
  bn_api :: string
  bn_data :: string
  bn_weight_limit :: int
  bn_loads :: "string \<Rightarrow> json option"
  bn_str :: "json \<Rightarrow> string"
  bn_read_ticker :: "string \<Rightarrow> ticker_row list option"
  bn_number :: "string \<Rightarrow> fl option"
  bn_cells :: "json list list \<Rightarrow> (candle \<times> int option) list option"
  bn_unpack :: "string \<Rightarrow> archive_content"
  bn_sha256 :: "string \<Rightarrow> string"
  bn_quote :: "string \<Rightarrow> string"
  bn_counter :: "'w \<Rightarrow> real"
  bn_horizontal :: horizontal
  bn_detail :: "candle_problem list \<Rightarrow> string"

type_synonym ('w, 'a) bn_io = "(real \<times> 'w, 'a) io"

text \<open>\<open>__init__\<close>: the source and its first state.\<close>

definition binance_init :: "'w binance \<Rightarrow> string \<Rightarrow> string \<Rightarrow> int \<Rightarrow> 'w \<Rightarrow> 'w binance \<times> (real \<times> 'w)" where
  "binance_init B api_url data_url weight_limit w =
     (B\<lparr>bn_api := rstrip_slash api_url, bn_data := rstrip_slash data_url, bn_weight_limit := weight_limit\<rparr>, (0, w))"

definition bn_spark_weight :: "'w binance \<Rightarrow> int" where
  "bn_spark_weight B = max KLINES_WEIGHT (min SPARK_WEIGHT_SHARE_MAX (bn_weight_limit B div 3))"

definition bn_get :: "'w binance \<Rightarrow> string \<Rightarrow> params \<Rightarrow> ('w, response) bn_io" where
  "bn_get B url ps = on_world (http_get (bn_net B) BN_NAME BN_TITLE url ps)"

section \<open>REST\<close>

definition bn_pause :: "'w binance \<Rightarrow> int \<Rightarrow> ('w, unit) bn_io" where
  "bn_pause B secs = (\<lambda>(paused, w). (Inr (), (max paused (nt_now (bn_net B) w + secs), w)))"

text \<open>\<open>now % 60\<close> of a float.\<close>

definition second_of_minute :: "real \<Rightarrow> real" where
  "second_of_minute now = now - 60 * \<lfloor>now / 60\<rfloor>"

definition watch_weight :: "'w binance \<Rightarrow> response \<Rightarrow> ('w, unit) bn_io" where
  "watch_weight B r = (\<lambda>(paused, w).
     (case int_of_text (case header r ''x-mbx-used-weight-1m'' of None \<Rightarrow> ''0'' | Some v \<Rightarrow> v) of
        None \<Rightarrow> (Inr (), (paused, w))
      | Some weight \<Rightarrow>
          if weight \<ge> IP_WEIGHT_CEILING
          then bn_pause B (\<lfloor>60 - second_of_minute (nt_now (bn_net B) w)\<rfloor> + 1) (paused, w)
          else (Inr (), (paused, w))))"

definition limit_reached :: "int \<Rightarrow> data_error" where
  "limit_reached secs = SourceUnavailable BN_NAME
     (''Binance's limit for our server is reached. Try again in '' @ show_int secs @ '' seconds.'') (Some secs) False"

text \<open>What \<open>_rest\<close> makes of a response, after the weight it reports. \<open>int\<close> of an infinite
  \<open>Retry-After\<close> is an \<open>OverflowError\<close>.\<close>

definition rest_answer :: "'w binance \<Rightarrow> response \<Rightarrow> ('w, response) bn_io" where
  "rest_answer B r = (\<lambda>(paused, w).
     if status_code r \<in> {418, 429}
     then (case fl_trunc (retry_or_60 (retry_after (bn_net B) r w)) of
         None \<Rightarrow> io_raise (Crash ''OverflowError'')
       | Some secs \<Rightarrow> io_bind (bn_pause B secs) (\<lambda>_. io_raise (rate_limited BN_NAME ''Binance'' (Some secs)))) (paused, w)
     else if status_code r \<noteq> 200 then (Inl (unavailable (bn_net B) BN_NAME BN_TITLE r w), (paused, w))
     else (Inr r, (paused, w)))"

definition bn_rest :: "'w binance \<Rightarrow> string \<Rightarrow> params \<Rightarrow> int \<Rightarrow> ('w, response) bn_io" where
  "bn_rest B path ps weight = (\<lambda>(paused, w).
     if paused - nt_now (bn_net B) w > 0
     then io_fault (limit_reached (\<lfloor>paused - nt_now (bn_net B) w\<rfloor> + 1)) (paused, w)
     else io_bind (on_world (spend (bn_net B) BN_NAME
              (''Binance weight budget ('' @ show_int (bn_weight_limit B) @ '' per minute)'') BN_RATE_KEY (bn_weight_limit B) weight))
            (\<lambda>_. io_bind (bn_get B (bn_api B @ path) ps)
              (\<lambda>r. io_bind (watch_weight B r) (\<lambda>_. rest_answer B r))) (paused, w))"

section \<open>Candles\<close>

text \<open>\<open>_klines\<close>. \<open>rows[-1][0] + 1\<close> is the next cursor; a value that is no whole number ends in a
  \<open>TypeError\<close> (Python would go on from a fraction, which Binance does not send). The loop takes fuel,
  the pages it may ask for.\<close>

definition next_cursor :: "json list \<Rightarrow> string + int" where
  "next_cursor rs = (case last rs of
      JList (JInt t # _) \<Rightarrow> Inr (t + 1)
    | JList [] \<Rightarrow> Inl ''IndexError''
    | _ \<Rightarrow> Inl ''TypeError'')"

definition kline_params :: "string \<Rightarrow> timeframe \<Rightarrow> int \<Rightarrow> int \<Rightarrow> nat \<Rightarrow> params" where
  "kline_params symbol tf first latest limit = [(''symbol'', symbol), (''interval'', timeframe_name tf),
     (''startTime'', show_int first), (''endTime'', show_int latest), (''limit'', show_int (int limit))]"

fun klines_from :: "'w binance \<Rightarrow> string \<Rightarrow> timeframe \<Rightarrow> int \<Rightarrow> nat \<Rightarrow> int \<Rightarrow> ('w, candle list) bn_io" where
  "klines_from B symbol tf finish fuel cursor =
     (if cursor > finish * 1000 - 1 then io_return []
      else (case fuel of
          0 \<Rightarrow> io_raise (Crash ''out of fuel'')
        | Suc n \<Rightarrow>
            io_bind (bn_rest B ''/api/v3/klines'' (kline_params symbol tf cursor (finish * 1000 - 1) KLINES_LIMIT) KLINES_WEIGHT) (\<lambda>r.
            io_bind (io_lift (json_body (bn_loads B) BN_NAME BN_TITLE r)) (\<lambda>rows.
            io_bind (io_lift (parse_klines (bn_cells B) rows (Some finish))) (\<lambda>ks.
              (case rows of
                 JList rs \<Rightarrow>
                   if length rs < KLINES_LIMIT then io_return ks
                   else (case next_cursor rs of
                       Inl e \<Rightarrow> io_raise (Crash e)
                     | Inr c \<Rightarrow> io_bind (klines_from B symbol tf finish n c) (\<lambda>later. io_return (ks @ later)))
               | _ \<Rightarrow> io_raise (Crash ''TypeError'')))))))"

declare klines_from.simps [simp del]

definition bn_klines :: "'w binance \<Rightarrow> nat \<Rightarrow> string \<Rightarrow> timeframe \<Rightarrow> int \<Rightarrow> int \<Rightarrow> ('w, candle list) bn_io" where
  "bn_klines B fuel symbol tf start finish = klines_from B symbol tf finish fuel (start * 1000)"

definition onto_grid :: "'w binance \<Rightarrow> nat \<Rightarrow> string \<Rightarrow> timeframe \<Rightarrow> candle list \<Rightarrow> ('w, candle list) bn_io" where
  "onto_grid B fuel symbol tf frame = (case off_grid_span frame tf of
      None \<Rightarrow> io_return frame
    | Some (start, finish) \<Rightarrow> io_bind (bn_klines B fuel symbol tf start finish) (\<lambda>rest.
        io_return (filter (\<lambda>k. case k_ts k of None \<Rightarrow> False | Some t \<Rightarrow> t < start \<or> t \<ge> finish) frame @ rest)))"

text \<open>\<open>_archive\<close>; \<open>None\<close> is \<open>NotPublished\<close>. The archive and its checksum are asked for side by side.\<close>

fun archive_status :: "'w binance \<Rightarrow> response list \<Rightarrow> ('w, bool) bn_io" where
  "archive_status B [] = io_return True"
| "archive_status B (r # rs) = (if status_code r = 404 then io_return False
     else if status_code r \<noteq> 200
     then (\<lambda>(paused, w). (Inl (unavailable (bn_net B) BN_NAME (BN_TITLE @ '' archive'') r w), (paused, w)))
     else archive_status B rs)"

definition bn_archive :: "'w binance \<Rightarrow> nat \<Rightarrow> string \<Rightarrow> string \<Rightarrow> timeframe \<Rightarrow> string \<Rightarrow> ('w, candle list option) bn_io" where
  "bn_archive B fuel kind symbol tf label =
     (let name = symbol @ ''-'' @ timeframe_name tf @ ''-'' @ label @ ''.zip'';
          url = bn_data B @ ''/data/spot/'' @ kind @ ''/klines/'' @ bn_quote B symbol @ ''/'' @ timeframe_name tf @ ''/'' @ bn_quote B name
      in io_bind (bn_get B url []) (\<lambda>archive.
         io_bind (bn_get B (url @ ''.CHECKSUM'') []) (\<lambda>checksum.
         io_bind (archive_status B [archive, checksum]) (\<lambda>published.
           if \<not> published then io_return None
           else (let expected = (case words (content checksum) of [] \<Rightarrow> [] | digest # _ \<Rightarrow> lower digest)
                 in if bn_sha256 B (content archive) \<noteq> expected
                    then io_fault (DataIntegrityError (''Binance archive '' @ name @
                       '' does not match its published SHA-256 checksum.'') (Some BN_NAME))
                    else io_bind (io_lift (parse_archive (bn_unpack B) (content archive) name)) (\<lambda>frame.
                         io_bind (onto_grid B fuel symbol tf frame) (\<lambda>ks. io_return (Some ks))))))))"

definition bn_day :: "'w binance \<Rightarrow> nat \<Rightarrow> string \<Rightarrow> timeframe \<Rightarrow> int \<Rightarrow> ('w, candle list) bn_io" where
  "bn_day B fuel symbol tf start = io_bind (bn_archive B fuel ''daily'' symbol tf (day_text start)) (\<lambda>found.
     case found of Some ks \<Rightarrow> io_return ks | None \<Rightarrow> bn_klines B fuel symbol tf start (start + DAY_SECONDS))"

text \<open>\<open>range(period.start, period.end, DAY)\<close>; the days are fetched side by side.\<close>

definition bn_month :: "'w binance \<Rightarrow> nat \<Rightarrow> string \<Rightarrow> timeframe \<Rightarrow> period \<Rightarrow> ('w, candle list) bn_io" where
  "bn_month B fuel symbol tf p = io_bind (bn_archive B fuel ''monthly'' symbol tf (p_label p)) (\<lambda>found.
     case found of
       Some ks \<Rightarrow> io_return ks
     | None \<Rightarrow> io_bind (io_each (bn_day B fuel symbol tf) (int_range (p_start p) (p_end p) DAY_SECONDS)) (\<lambda>days.
         io_return (concat days)))"

definition bn_fetch_period :: "'w binance \<Rightarrow> nat \<Rightarrow> string \<Rightarrow> timeframe \<Rightarrow> period \<Rightarrow> ('w, candle list) bn_io" where
  "bn_fetch_period B fuel symbol tf p =
     io_bind (case p_kind p of
         Closed \<Rightarrow> bn_month B fuel symbol tf p
       | Current \<Rightarrow> bn_day B fuel symbol tf (p_start p)
       | Live \<Rightarrow> bn_klines B fuel symbol tf (p_start p) (p_end p))
       (\<lambda>frame. io_lift (clean_candles (bn_horizontal B) (bn_detail B) frame tf p))"

section \<open>The other methods\<close>

definition bn_list_instruments :: "'w binance \<Rightarrow> ('w, instrument list) bn_io" where
  "bn_list_instruments B = io_bind (bn_rest B ''/api/v3/exchangeInfo''
       [(''symbolStatus'', ''TRADING''), (''showPermissionSets'', ''false'')] EXCHANGE_INFO_WEIGHT)
     (\<lambda>r. io_lift (parse_exchange_info (bn_loads B) (bn_str B) (content r)))"

definition bn_sessions :: "'w binance \<Rightarrow> ('w, session list option) bn_io" where
  "bn_sessions B = io_return None"

definition bn_first_timestamp :: "'w binance \<Rightarrow> string \<Rightarrow> ('w, int option) bn_io" where
  "bn_first_timestamp B symbol = io_bind (bn_rest B ''/api/v3/klines''
       [(''symbol'', symbol), (''interval'', ''1m''), (''startTime'', ''0''), (''limit'', ''1'')] KLINES_WEIGHT)
     (\<lambda>r. io_bind (io_lift (json_body (bn_loads B) BN_NAME BN_TITLE r)) (\<lambda>rows.
          io_bind (io_lift (parse_klines (bn_cells B) rows None)) (\<lambda>ks.
            io_return (case ks of [] \<Rightarrow> None | k # _ \<Rightarrow> k_ts k))))"

definition bn_base_timeframe :: "timeframe \<Rightarrow> timeframe" where
  "bn_base_timeframe tf = tf"

definition bn_periods :: "timeframe \<Rightarrow> int \<Rightarrow> int \<Rightarrow> int \<Rightarrow> period list" where
  "bn_periods tf start finish now = plan_periods start finish now False True CLOSED_MONTH_TTL CLOSED_DAY_TTL"

definition bn_health :: "'w binance \<Rightarrow> ('w, source_health) bn_io" where
  "bn_health B = (\<lambda>(paused, w).
     io_catch (io_bind (bn_rest B ''/api/v3/ping'' [] PING_WEIGHT) (\<lambda>_. \<lambda>(paused', w').
         (Inr \<lparr>sh_ok = True, sh_latency_ms = Some (round_half_even ((bn_counter B w' - bn_counter B w) * 1000)),
            sh_detail = None\<rparr>, (paused', w'))))
       (\<lambda>e. io_return \<lparr>sh_ok = False, sh_latency_ms = None, sh_detail = Some (fault_detail e)\<rparr>) (paused, w))"

definition bn_stats :: "'w binance \<Rightarrow> instrument list \<Rightarrow> ('w, (string \<times> instrument_stats) list \<times> string list) bn_io" where
  "bn_stats B instruments = io_bind (bn_rest B ''/api/v3/ticker/24hr'' [(''symbolStatus'', ''TRADING'')] TICKER_WEIGHT)
     (\<lambda>r. io_bind (io_lift (parse_ticker (bn_read_ticker B) (bn_number B) (content r) instruments)) (\<lambda>rows.
          io_return (rows, [])))"

section \<open>Daily candles of the mini charts\<close>

definition bn_daily :: "'w binance \<Rightarrow> string \<Rightarrow> int \<Rightarrow> ('w, spark_row list) bn_io" where
  "bn_daily B symbol closed_at = io_bind (bn_rest B ''/api/v3/klines''
       (kline_params symbol D1 ((closed_at - int SPARK_DAYS * DAY_SECONDS) * 1000) (closed_at * 1000 - 1) SPARK_DAYS) KLINES_WEIGHT)
     (\<lambda>r. io_bind (io_lift (json_body (bn_loads B) BN_NAME BN_TITLE r)) (\<lambda>rows.
          io_bind (io_lift (parse_klines (bn_cells B) rows (Some closed_at))) (\<lambda>ks.
            io_return (map (to_spark_row symbol) ks))))"

definition bn_spark_turn :: "'w binance \<Rightarrow> nat \<Rightarrow> ('w, unit) bn_io" where
  "bn_spark_turn B fuel = on_world (take_turn (bn_net B) fuel BN_SPARK_RATE_KEY (bn_spark_weight B) KLINES_WEIGHT)"

record daily =
  dl_frames :: "spark_row list list"
  dl_error :: "data_error option"
  dl_refused :: "string list"

fun daily_round :: "'w binance \<Rightarrow> nat \<Rightarrow> int \<Rightarrow> string list \<Rightarrow> nat \<Rightarrow> daily \<Rightarrow> ('w, string list \<times> daily) bn_io" where
  "daily_round B fuel closed_at [] in_a_row got = io_return ([], got)"
| "daily_round B fuel closed_at (symbol # symbols) in_a_row got =
     (if in_a_row \<ge> SPARK_FAILURES_IN_A_ROW then io_return (symbol # symbols, got)
      else io_bind (bn_spark_turn B fuel) (\<lambda>_ st. case bn_daily B symbol closed_at st of
          (Inr rows, st') \<Rightarrow> daily_round B fuel closed_at symbols 0 (got\<lparr>dl_frames := dl_frames got @ [rows]\<rparr>) st'
        | (Inl (Crash c), st') \<Rightarrow> (Inl (Crash c), st')
        | (Inl (DataFault e), (paused, w)) \<Rightarrow>
            if rejected e
            then daily_round B fuel closed_at symbols in_a_row (got\<lparr>dl_refused := dl_refused got @ [symbol]\<rparr>) (paused, w)
            else io_bind (daily_round B fuel closed_at symbols (in_a_row + 1) (got\<lparr>dl_error := Some e\<rparr>))
                   (\<lambda>(failed, got'). io_return (symbol # failed, got')) (paused, pause_after (bn_net B) e w)))"

text \<open>\<open>for _ in range(2)\<close>, with \<open>break\<close> when nothing is pending.\<close>

definition bn_daily_candles :: "'w binance \<Rightarrow> nat \<Rightarrow> instrument list \<Rightarrow> int \<Rightarrow> ('w, spark_row list \<times> string list) bn_io" where
  "bn_daily_candles B fuel instruments closed_at =
     io_bind (daily_round B fuel closed_at (map in_symbol instruments) 0 \<lparr>dl_frames = [], dl_error = None, dl_refused = []\<rparr>)
       (\<lambda>(pending, got). io_bind (if pending = [] then io_return (pending, got) else daily_round B fuel closed_at pending 0 got)
         (\<lambda>(pending, got). case dl_error got of
             Some e \<Rightarrow> if dl_frames got = [] \<and> pending \<noteq> [] then io_fault e else io_return (concat (dl_frames got), pending)
           | None \<Rightarrow> io_return (concat (dl_frames got), pending)))"

section \<open>The source of the service\<close>

definition binance_source :: "'w binance \<Rightarrow> nat \<Rightarrow> (real \<times> 'w) data_source" where
  "binance_source B fuel = \<lparr>src_name = BN_NAME, src_feed = ''spot'', src_market = Crypto,
     src_list_instruments = bn_list_instruments B, src_sessions = bn_sessions B,
     src_first_timestamp = bn_first_timestamp B, src_base_timeframe = bn_base_timeframe,
     src_periods = bn_periods, src_fetch_period = bn_fetch_period B fuel, src_health = bn_health B,
     src_stats = bn_stats B, src_daily_candles = bn_daily_candles B fuel\<rparr>"

interpretation bn_chunks: chunk_source bn_periods 0
  by (rule chunk_source_plan[of _ 0 "\<lambda>_. False" True CLOSED_MONTH_TTL CLOSED_DAY_TTL]) (simp add: bn_periods_def)

section \<open>The pages of klines\<close>

text \<open>A successful REST call is a response with status 200 that the net sent for that request.\<close>

lemma request_from_sent:
  "request_from N url ps backoff max_delay attempt left w = (Inr r, w') \<Longrightarrow> \<exists>w1 w2. nt_send N url ps w1 = (Inr r, w2)"
proof (induction left arbitrary: attempt w)
  case 0
  then show ?case by (subst (asm) request_from.simps) (auto split: prod.splits sum.splits if_splits)
next
  case (Suc left)
  show ?case
  proof (rule ccontr)
    assume no: "\<nexists>w1 w2. nt_send N url ps w1 = (Inr r, w2)"
    have "request_from N url ps backoff max_delay (Suc a) left v \<noteq> (Inr r, w')" for a v using Suc.IH no by blast
    with Suc.prems no show False
      by (subst (asm) request_from.simps) (auto simp: Let_def split: prod.splits sum.splits if_splits option.splits)
  qed
qed

lemma bn_rest_sent:
  assumes "bn_rest B path ps weight st = (Inr r, st')"
  shows "status_code r = 200 \<and> (\<exists>w1 w2. nt_send (bn_net B) (bn_api B @ path) ps w1 = (Inr r, w2))"
proof -
  obtain paused w where st: "st = (paused, w)" by fastforce
  have "\<not> paused - nt_now (bn_net B) w > 0" using assms by (auto simp: bn_rest_def st io_fault_def io_raise_def)
  then obtain a r1 b where g: "bn_get B (bn_api B @ path) ps a = (Inr r1, b)"
      and ans: "io_bind (watch_weight B r1) (\<lambda>_. rest_answer B r1) b = (Inr r, st')"
    using assms by (auto simp: bn_rest_def st io_bind_Inr)
  obtain c where c: "rest_answer B r1 c = (Inr r, st')" using ans by (auto simp: io_bind_Inr)
  obtain p v where cv: "c = (p, v)" by fastforce
  have r: "r1 = r \<and> status_code r = 200"
    using c by (auto simp: rest_answer_def cv io_raise_def bn_pause_def io_bind_def split: if_splits option.splits)
  obtain pa wa where a: "a = (pa, wa)" by fastforce
  have "\<exists>w'. request (bn_net B) (bn_api B @ path) ps wa = (Inr r, w')"
    using g r by (auto simp: bn_get_def on_world_def a http_get_def split: prod.splits sum.splits)
  then have "\<exists>w1 w2. nt_send (bn_net B) (bn_api B @ path) ps w1 = (Inr r, w2)"
    unfolding request_def request_with_retry_def by (elim exE) (rule request_from_sent)
  then show ?thesis using r by blast
qed

text \<open>A kline as Binance keeps it: its row of JSON, the candle Polars reads from it (times in ms) and
  its close time. The documented contract of the endpoint: the klines whose open time is within
  \<open>startTime\<close> and \<open>endTime\<close>, oldest first, at most \<open>limit\<close>.\<close>

record kline =
  kl_open :: int
  kl_close :: int
  kl_cells :: "json list"
  kl_candle :: candle

definition kline_page :: "kline list \<Rightarrow> int \<Rightarrow> int \<Rightarrow> nat \<Rightarrow> kline list" where
  "kline_page history first latest limit = take limit (filter (\<lambda>b. first \<le> kl_open b \<and> kl_open b \<le> latest) history)"

definition kline_server :: "'w binance \<Rightarrow> string \<Rightarrow> timeframe \<Rightarrow> kline list \<Rightarrow> bool" where
  "kline_server B symbol tf history \<longleftrightarrow> sorted_wrt (\<lambda>a b. kl_open a < kl_open b) history \<and>
     (\<forall>b \<in> set history. hd (kl_cells b) = JInt (kl_open b) \<and> kl_cells b \<noteq> []) \<and>
     (\<forall>bs. set bs \<subseteq> set history \<longrightarrow>
        bn_cells B (map (\<lambda>b. take 7 (kl_cells b)) bs) = Some (map (\<lambda>b. (kl_candle b, Some (kl_close b))) bs)) \<and>
     (\<forall>first latest w r w'. nt_send (bn_net B) (bn_api B @ ''/api/v3/klines'') (kline_params symbol tf first latest KLINES_LIMIT) w = (Inr r, w')
        \<longrightarrow> status_code r = 200
        \<longrightarrow> bn_loads B (content r) = Some (JList (map (\<lambda>b. JList (kl_cells b)) (kline_page history first latest KLINES_LIMIT))))"

lemma kline_server_answers:
  assumes "kline_server B symbol tf history"
    "nt_send (bn_net B) (bn_api B @ ''/api/v3/klines'') (kline_params symbol tf first latest KLINES_LIMIT) w = (Inr r, w')"
    "status_code r = 200"
  shows "bn_loads B (content r) = Some (JList (map (\<lambda>b. JList (kl_cells b)) (kline_page history first latest KLINES_LIMIT)))"
  using assms unfolding kline_server_def by blast

lemma parse_klines_page:
  assumes "kline_server B symbol tf history" "set bs \<subseteq> set history"
  shows "parse_klines (bn_cells B) (JList (map (\<lambda>b. JList (kl_cells b)) bs)) (Some finish) =
     Inr (map (\<lambda>b. in_seconds (kl_candle b)) (filter (\<lambda>b. kl_close b < finish * 1000) bs))"
proof -
  have "map_opt kline_cells (map (\<lambda>b. JList (kl_cells b)) bs) = Some (map (\<lambda>b. take 7 (kl_cells b)) bs)"
    by (induction bs) (simp_all add: kline_cells_def)
  moreover have "bn_cells B (map (\<lambda>b. take 7 (kl_cells b)) bs) = Some (map (\<lambda>b. (kl_candle b, Some (kl_close b))) bs)"
    using assms unfolding kline_server_def by blast
  ultimately show ?thesis by (simp add: parse_klines_def filter_map comp_def)
qed

text \<open>A full page, and what is left after it.\<close>

lemma take_filter_next:
  assumes "sorted_wrt (\<lambda>a b. kl_open a < kl_open b) history" "0 < n"
    "length (kline_page history first latest n) = n"
  shows "filter (\<lambda>b. first \<le> kl_open b \<and> kl_open b \<le> latest) history =
     kline_page history first latest n @
     filter (\<lambda>b. kl_open (last (kline_page history first latest n)) + 1 \<le> kl_open b \<and> kl_open b \<le> latest) history"
proof -
  let ?f = "filter (\<lambda>b. first \<le> kl_open b \<and> kl_open b \<le> latest) history"
  let ?p = "kline_page history first latest n" and ?d = "drop n ?f"
  let ?c = "kl_open (last ?p)"
  have f: "?f = ?p @ ?d" by (simp add: kline_page_def)
  have ne: "?p \<noteq> []" using assms(2,3) by force
  have s: "sorted_wrt (\<lambda>a b. kl_open a < kl_open b) (?p @ ?d)" unfolding f[symmetric] using assms(1) by (rule sorted_wrt_filter)
  have later: "?c < kl_open b" if "b \<in> set ?d" for b
    using s that ne last_in_set[OF ne] by (auto simp: sorted_wrt_append)
  have earlier: "kl_open b \<le> ?c" if "b \<in> set ?p" for b
  proof -
    have "sorted_wrt (\<lambda>a b. kl_open a < kl_open b) (butlast ?p @ [last ?p])" using s ne by (simp add: sorted_wrt_append)
    moreover have "b \<in> set (butlast ?p @ [last ?p])" using that ne by simp
    ultimately show ?thesis unfolding sorted_wrt_append by (auto intro: less_imp_le)
  qed
  have first: "first \<le> ?c"
    using last_in_set[OF ne] by (auto simp: kline_page_def dest!: in_set_takeD)
  have "filter (\<lambda>b. ?c + 1 \<le> kl_open b \<and> kl_open b \<le> latest) history = filter (\<lambda>b. ?c + 1 \<le> kl_open b) ?f"
    using first by (simp add: filter_filter) (intro filter_cong, auto)
  also have "\<dots> = filter (\<lambda>b. ?c + 1 \<le> kl_open b) ?p @ filter (\<lambda>b. ?c + 1 \<le> kl_open b) ?d"
    by (subst f) simp
  also have "filter (\<lambda>b. ?c + 1 \<le> kl_open b) ?p = []" using earlier by (force simp: filter_empty_conv)
  also have "filter (\<lambda>b. ?c + 1 \<le> kl_open b) ?d = ?d" using later by (force simp: filter_id_conv)
  finally show ?thesis using f by simp
qed

definition asked_klines :: "kline list \<Rightarrow> int \<Rightarrow> int \<Rightarrow> candle list" where
  "asked_klines history start finish = map (\<lambda>b. in_seconds (kl_candle b))
     (filter (\<lambda>b. start * 1000 \<le> kl_open b \<and> kl_open b < finish * 1000 \<and> kl_close b < finish * 1000) history)"

text \<open>What a call of \<open>_klines\<close> may end in: the candles asked for, or the error of a REST call.\<close>

definition klines_result :: "'w binance \<Rightarrow> candle list \<Rightarrow> (raised + candle list) \<times> (real \<times> 'w) \<Rightarrow> bool" where
  "klines_result B wanted r \<longleftrightarrow> (case fst r of Inr ks \<Rightarrow> ks = wanted
     | Inl e \<Rightarrow> \<exists>ps st. fst (bn_rest B ''/api/v3/klines'' ps KLINES_WEIGHT st) = Inl e)"

lemma klines_from_complete:
  assumes "kline_server B symbol tf history"
  shows "length (filter (\<lambda>b. cursor \<le> kl_open b \<and> kl_open b \<le> finish * 1000 - 1) history) < KLINES_LIMIT * fuel \<Longrightarrow>
    klines_result B (map (\<lambda>b. in_seconds (kl_candle b))
      (filter (\<lambda>b. kl_close b < finish * 1000) (filter (\<lambda>b. cursor \<le> kl_open b \<and> kl_open b \<le> finish * 1000 - 1) history)))
      (klines_from B symbol tf finish fuel cursor st)"
proof (induction fuel arbitrary: cursor st)
  case 0
  then show ?case by simp
next
  case (Suc n)
  let ?last = "finish * 1000 - 1"
  let ?read = "\<lambda>bs. map (\<lambda>b. in_seconds (kl_candle b)) (filter (\<lambda>b. kl_close b < finish * 1000) bs)"
  let ?left = "\<lambda>c. filter (\<lambda>b. c \<le> kl_open b \<and> kl_open b \<le> ?last) history"
  show ?case
  proof (cases "cursor > ?last")
    case True
    then have "?left cursor = []" by (auto simp: filter_empty_conv)
    then show ?thesis using True by (simp add: klines_from.simps klines_result_def io_return_def)
  next
    case more: False
    let ?ps = "kline_params symbol tf cursor ?last KLINES_LIMIT"
    obtain a st1 where rest: "bn_rest B ''/api/v3/klines'' ?ps KLINES_WEIGHT st = (a, st1)" by (meson surj_pair)
    note step = klines_from.simps[of B symbol tf finish "Suc n" cursor]
    show ?thesis
    proof (cases a)
      case (Inl e)
      have "klines_from B symbol tf finish (Suc n) cursor st = (Inl e, st1)"
        using more rest Inl by (subst step) (simp add: io_bind_step(2))
      moreover have "fst (bn_rest B ''/api/v3/klines'' ?ps KLINES_WEIGHT st) = Inl e" using rest Inl by simp
      ultimately show ?thesis unfolding klines_result_def by (simp only: fst_conv sum.case) blast
    next
      case (Inr r)
      define page where "page = kline_page history cursor ?last KLINES_LIMIT"
      have json: "bn_loads B (content r) = Some (JList (map (\<lambda>b. JList (kl_cells b)) page))"
      proof -
        obtain w1 w2 where "nt_send (bn_net B) (bn_api B @ ''/api/v3/klines'') ?ps w1 = (Inr r, w2)" "status_code r = 200"
          using bn_rest_sent[OF rest[unfolded Inr]] by (elim conjE exE) (rule that)
        then show ?thesis unfolding page_def by (rule kline_server_answers[OF assms])
      qed
      have sub: "set page \<subseteq> set history" by (auto simp: page_def kline_page_def dest: in_set_takeD)
      note parse = parse_klines_page[OF assms sub, of finish]
      have unfold: "klines_from B symbol tf finish (Suc n) cursor st =
         (if length page < KLINES_LIMIT then io_return (?read page)
          else (case next_cursor (map (\<lambda>b. JList (kl_cells b)) page) of
              Inl e \<Rightarrow> io_raise (Crash e)
            | Inr c \<Rightarrow> io_bind (klines_from B symbol tf finish n c) (\<lambda>later. io_return (?read page @ later)))) st1"
        using more rest Inr json parse by (subst step) (simp add: io_bind_step(1) json_body_def)
      show ?thesis
      proof (cases "length page < KLINES_LIMIT")
        case True
        then have "page = ?left cursor" by (simp add: page_def kline_page_def)
        then show ?thesis using True unfold by (simp add: klines_result_def io_return_def)
      next
        case False
        then have full: "length page = KLINES_LIMIT" by (simp add: page_def kline_page_def)
        have ne: "page \<noteq> []" using full by (auto simp: KLINES_LIMIT_def)
        let ?c = "kl_open (last page) + 1"
        have "last page \<in> set history" using sub last_in_set[OF ne] by blast
        then have cell: "hd (kl_cells (last page)) = JInt (kl_open (last page))" "kl_cells (last page) \<noteq> []"
          using assms by (auto simp: kline_server_def)
        have cursor: "next_cursor (map (\<lambda>b. JList (kl_cells b)) page) = Inr ?c"
          using cell ne by (cases "kl_cells (last page)") (simp_all add: next_cursor_def last_map)
        have split: "?left cursor = page @ ?left ?c"
          unfolding page_def by (rule take_filter_next) (use assms full in \<open>simp_all add: kline_server_def page_def KLINES_LIMIT_def\<close>)
        have "length (?left ?c) < KLINES_LIMIT * n" using Suc.prems full unfolding split by simp
        from Suc.IH[OF this, of st1] have IH: "klines_result B (?read (?left ?c)) (klines_from B symbol tf finish n ?c st1)" .
        obtain b st2 where rec: "klines_from B symbol tf finish n ?c st1 = (b, st2)" by (meson surj_pair)
        have all: "?read (?left cursor) = ?read page @ ?read (?left ?c)" by (subst split) simp
        show ?thesis unfolding all
          using IH rec False unfold by (cases b) (auto simp: klines_result_def cursor io_bind_def io_return_def)
      qed
    qed
  qed
qed

text \<open>C26: \<open>_klines\<close> gives, however many pages it takes, exactly the klines that opened and closed in the
  period, once each and in order, or the error of one of its REST calls; with fuel for the pages the
  history can fill it never runs out.\<close>

theorem klines_complete:
  assumes "kline_server B symbol tf history" "length history < KLINES_LIMIT * fuel"
  shows "klines_result B (asked_klines history start finish) (bn_klines B fuel symbol tf start finish st)"
proof -
  have "length (filter (\<lambda>b. start * 1000 \<le> kl_open b \<and> kl_open b \<le> finish * 1000 - 1) history) \<le> length history" by simp
  also have "\<dots> < KLINES_LIMIT * fuel" by (rule assms(2))
  finally have few: "length (filter (\<lambda>b. start * 1000 \<le> kl_open b \<and> kl_open b \<le> finish * 1000 - 1) history) < KLINES_LIMIT * fuel" .
  have "filter (\<lambda>b. kl_close b < finish * 1000) (filter (\<lambda>b. start * 1000 \<le> kl_open b \<and> kl_open b \<le> finish * 1000 - 1) history) =
      filter (\<lambda>b. start * 1000 \<le> kl_open b \<and> kl_open b < finish * 1000 \<and> kl_close b < finish * 1000) history"
    unfolding filter_filter by (intro filter_cong refl) auto
  then show ?thesis
    using klines_from_complete[OF assms(1) few, of st] by (simp only: asked_klines_def bn_klines_def)
qed

text \<open>A history of one hour's candle, and a net that serves it.\<close>

definition example_kline :: kline where
  "example_kline = \<lparr>kl_open = 3600000, kl_close = 7199999, kl_cells = [JInt 3600000],
     kl_candle = (real_candle 3600000 1 2 1 2 5)\<rparr>"

definition example_page_net :: "unit net" where
  "example_page_net = \<lparr>nt_send = (\<lambda>url ps w. (Inr \<lparr>status_code = 200, header = (\<lambda>_. None), content =
       (case (Option.bind (map_of ps ''startTime'') int_of_text, Option.bind (map_of ps ''endTime'') int_of_text) of
          (Some first, Some latest) \<Rightarrow> if first \<le> 3600000 \<and> 3600000 \<le> latest then ''1'' else []
        | _ \<Rightarrow> [])\<rparr>, w)),
     nt_sleep = (\<lambda>_ w. w), nt_now = (\<lambda>_. 10000), nt_date = (\<lambda>_. None), nt_hit = (\<lambda>_ _ _ w. (0, w))\<rparr>"

definition example_binance :: "unit binance" where
  "example_binance = \<lparr>bn_net = example_page_net, bn_api = [], bn_data = [], bn_weight_limit = 1000,
     bn_loads = (\<lambda>s. Some (JList (if s = [] then [] else [JList [JInt 3600000]]))), bn_str = (\<lambda>_. []),
     bn_read_ticker = (\<lambda>_. None), bn_number = (\<lambda>_. None),
     bn_cells = (\<lambda>rs. Some (map (\<lambda>_. (kl_candle example_kline, Some (kl_close example_kline))) rs)),
     bn_unpack = (\<lambda>_. EmptyArchive), bn_sha256 = id, bn_quote = id, bn_counter = (\<lambda>_. 0),
     bn_horizontal = example_horizontal, bn_detail = (\<lambda>_. [])\<rparr>"

lemma int_of_zero: "int_of_text ''0'' = Some 0"
  by code_simp

theorem klines_complete_witness:
  "bn_klines example_binance 1 ''BTCUSDT'' H1 3600 7200 (0, ()) = (Inr [real_candle 3600 1 2 1 2 5], (0, ())) \<and>
   asked_klines [example_kline] 3600 7200 = [real_candle 3600 1 2 1 2 5]"
proof
  have subset: "bs = replicate (length bs) example_kline" if "set bs \<subseteq> set [example_kline]" for bs
    using that by (induction bs) auto
  have page: "kline_page [example_kline] first latest KLINES_LIMIT =
      (if first \<le> 3600000 \<and> 3600000 \<le> latest then [example_kline] else [])" for first latest
    by (simp add: kline_page_def example_kline_def KLINES_LIMIT_def)
  have cells: "bn_cells example_binance (map (\<lambda>b. take 7 (kl_cells b)) bs) = Some (map (\<lambda>b. (kl_candle b, Some (kl_close b))) bs)"
    if "set bs \<subseteq> set [example_kline]" for bs
    using that by (auto simp: example_binance_def)
  have server: "kline_server example_binance ''BTCUSDT'' H1 [example_kline]"
    unfolding kline_server_def page using cells
    by (auto simp: example_binance_def example_page_net_def kline_params_def example_kline_def)
  show asked: "asked_klines [example_kline] 3600 7200 = [real_candle 3600 1 2 1 2 5]"
    by (simp add: asked_klines_def example_kline_def in_seconds_def to_seconds_def MICROSECONDS_def real_candle_def)
  have result: "klines_result example_binance (asked_klines [example_kline] 3600 7200)
      (bn_klines example_binance 1 ''BTCUSDT'' H1 3600 7200 (0, ()))"
    by (rule klines_complete[OF server]) (simp add: KLINES_LIMIT_def)
  have ok: "\<exists>ks. bn_klines example_binance 1 ''BTCUSDT'' H1 3600 7200 (0, ()) = (Inr ks, (0, ()))"
    by (simp add: bn_klines_def klines_from.simps[of _ _ _ _ "Suc 0"] bn_rest_def io_bind_def on_world_def spend_def bn_get_def
        http_get_def request_def request_with_retry_def request_from.simps watch_weight_def rest_answer_def json_body_def
        parse_klines_def kline_cells_def io_return_def int_of_zero RETRY_STATUSES_def IP_WEIGHT_CEILING_def KLINES_LIMIT_def
        kline_params_def example_binance_def example_page_net_def)
  then show "bn_klines example_binance 1 ''BTCUSDT'' H1 3600 7200 (0, ()) = (Inr [real_candle 3600 1 2 1 2 5], (0, ()))"
    using result asked by (auto simp: klines_result_def)
qed

end
