(* ===== verification/DataAlpacaRead.thy ===== *)
theory DataAlpacaRead
  imports DataSource
begin

text \<open>
  The parsers of \<open>data/sources/alpaca.py\<close>: assets, bars, snapshots, 1Day bars and the calendar, from
  JSON values. \<open>moment\<close> is \<open>datetime.fromisoformat\<close> (epoch seconds, and whether it has an offset),
  \<open>ny_date\<close> the date in New York of a moment, \<open>str\<close> Python's \<open>str\<close> of a JSON value.
\<close>

section \<open>Constants\<close>

definition AL_NAME :: string where "AL_NAME = ''alpaca''"
definition AL_TITLE :: string where "AL_TITLE = ''Alpaca''"
definition AL_RATE_KEY :: string where "AL_RATE_KEY = ''data:rl:alpaca''"
definition SIP_DELAY :: int where "SIP_DELAY = 900"
definition DAILY_FINAL_SECONDS :: int where "DAILY_FINAL_SECONDS = 3600 + SIP_DELAY"
definition CLOSED_TTL :: int where "CLOSED_TTL = DAY_SECONDS"
definition CURRENT_TTL :: int where "CURRENT_TTL = DAY_SECONDS"
definition CALENDAR_TTL :: int where "CALENDAR_TTL = 7 * DAY_SECONDS"
definition CALENDAR_MEMORY_SECONDS :: real where "CALENDAR_MEMORY_SECONDS = 3600"
definition HISTORY_START :: int where "HISTORY_START = 2016"
definition BARS_LIMIT :: int where "BARS_LIMIT = 10000"
definition SNAPSHOT_SYMBOLS :: nat where "SNAPSHOT_SYMBOLS = 500"
definition STATS_RATE_KEY :: string where "STATS_RATE_KEY = ''data:rl:alpaca-stats''"
definition STATS_SHARE_MAX :: int where "STATS_SHARE_MAX = 20"
definition STATS_SHARE_DIVISOR :: int where "STATS_SHARE_DIVISOR = 5"
definition AL_SPARK_RATE_KEY :: string where "AL_SPARK_RATE_KEY = ''data:rl:alpaca-spark''"
definition SPARK_SHARE_MAX :: int where "SPARK_SHARE_MAX = 5"
definition SPARK_SHARE_DIVISOR :: int where "SPARK_SHARE_DIVISOR = 20"
definition STALE_BAR_SECONDS :: int where "STALE_BAR_SECONDS = 5 * DAY_SECONDS"

definition al_unreadable :: "string \<Rightarrow> data_error" where
  "al_unreadable what = DataIntegrityError (''Alpaca '' @ what) (Some AL_NAME)"

section \<open>Assets\<close>

definition STOCK_EXCHANGES :: "string list" where
  "STOCK_EXCHANGES = [''AMEX'', ''ARCA'', ''BATS'', ''NASDAQ'', ''NYSE'']"

text \<open>An item of the list: \<open>None\<close> raises, \<open>Some None\<close> is left out.\<close>

definition asset_of :: "json \<Rightarrow> (json \<times> json \<times> json) option option" where
  "asset_of item = (case json_get item ''tradable'' of
      None \<Rightarrow> None
    | Some tradable \<Rightarrow>
        if \<not> truthy tradable then Some None
        else (case json_get item ''exchange'' of
            None \<Rightarrow> None
          | Some exchange \<Rightarrow>
              if exchange = JStr ''OTC'' then Some None
              else (case json_get item ''symbol'' of
                  None \<Rightarrow> None
                | Some symbol \<Rightarrow>
                    Some (Some (symbol, if truthy (json_field item ''name'') then json_field item ''name'' else symbol, exchange)))))"

definition asset_instrument :: "(json \<Rightarrow> string) \<Rightarrow> json \<times> json \<times> json \<Rightarrow> instrument option" where
  "asset_instrument str a = (case a of (symbol, name, exchange) \<Rightarrow>
     (case parse_id (''stock:'' @ str symbol) of
        Inl _ \<Rightarrow> None
      | Inr i \<Rightarrow> if JStr (i_symbol i) \<noteq> symbol then None
          else Some \<lparr>in_id = i, in_name = str name, in_source = AL_NAME, in_feed = ''sip'',
                     in_exchange = (if str exchange \<in> set STOCK_EXCHANGES then Some (str exchange) else None),
                     in_base = None, in_quote = None\<rparr>))"

definition parse_assets :: "(string \<Rightarrow> json option) \<Rightarrow> (json \<Rightarrow> string) \<Rightarrow> string \<Rightarrow> data_error + instrument list" where
  "parse_assets loads str body = (case Option.bind (loads body) json_items of
      None \<Rightarrow> Inl (al_unreadable ''assets cannot be read'')
    | Some items \<Rightarrow> (case map_opt asset_of items of
        None \<Rightarrow> Inl (al_unreadable ''assets cannot be read'')
      | Some assets \<Rightarrow> Inr (List.map_filter (asset_instrument str) (List.map_filter id assets))))"

section \<open>Bars\<close>

text \<open>\<open>parse_bars\<close>: \<open>read\<close> makes the frame of the bars with their open times in seconds.\<close>

definition parse_bars :: "(json list \<Rightarrow> candle list option) \<Rightarrow> json list \<Rightarrow> data_error + candle list" where
  "parse_bars read bars = (case read bars of
      None \<Rightarrow> Inl (al_unreadable ''bars cannot be read'') | Some ks \<Rightarrow> Inr ks)"

definition no_bars :: data_error where
  "no_bars = al_unreadable ''bars response has no list of bars.''"

text \<open>\<open>body.get("bars") or {}\<close>, and the bars of one symbol in it.\<close>

definition bars_by_symbol :: "json \<Rightarrow> json" where
  "bars_by_symbol body = (let v = json_field body ''bars'' in if truthy v then v else JObj [])"

definition symbol_bars :: "json \<Rightarrow> string \<Rightarrow> data_error + json list" where
  "symbol_bars body symbol = (case bars_by_symbol body of
      JObj ms \<Rightarrow> (let v = json_field (JObj ms) symbol
        in case (if truthy v then v else JList []) of JList bars \<Rightarrow> Inr bars | _ \<Rightarrow> Inl no_bars)
    | _ \<Rightarrow> Inl no_bars)"

section \<open>Snapshots\<close>

definition json_number :: "json \<Rightarrow> fl option" where
  "json_number v = (case v of JInt i \<Rightarrow> Some (Fin (real_of_int i)) | JNum x \<Rightarrow> Some x | _ \<Rightarrow> None)"

definition positive_number :: "json \<Rightarrow> real option" where
  "positive_number v = (case json_number v of Some (Fin x) \<Rightarrow> if x > 0 then Some x else None | _ \<Rightarrow> None)"

text \<open>\<open>_part\<close>; \<open>None\<close> is a \<open>TypeError\<close>.\<close>

definition snapshot_part :: "json \<Rightarrow> string \<Rightarrow> json option" where
  "snapshot_part snapshot key = (case snapshot of
      JObj _ \<Rightarrow> (case json_field snapshot key of
          JNull \<Rightarrow> Some (JObj []) | JObj ms \<Rightarrow> Some (JObj ms) | _ \<Rightarrow> None)
    | _ \<Rightarrow> None)"

text \<open>The shares of a daily bar: a finite number of 0 or more; \<open>True\<close> is 1 there.\<close>

definition bar_shares :: "json \<Rightarrow> real option" where
  "bar_shares v = (case v of
      JBool b \<Rightarrow> Some (if b then 1 else 0)
    | _ \<Rightarrow> (case json_number v of Some (Fin x) \<Rightarrow> if x \<ge> 0 then Some x else None | _ \<Rightarrow> None))"

definition or_else :: "'a option \<Rightarrow> 'a option \<Rightarrow> 'a option" where
  "or_else a b = (case a of None \<Rightarrow> b | Some x \<Rightarrow> Some x)"

definition whole_seconds :: "real \<Rightarrow> int" where
  "whole_seconds t = (if t \<ge> 0 then \<lfloor>t\<rfloor> else \<lceil>t\<rceil>)"

text \<open>\<open>snapshot_stats\<close>: \<open>None\<close> is a \<open>TypeError\<close>, \<open>Some None\<close> a snapshot without a price.\<close>

definition snapshot_stats :: "(string \<Rightarrow> (real \<times> bool) option) \<Rightarrow> json \<Rightarrow> int \<Rightarrow>
    (real \<times> real option \<times> real option) option option" where
  "snapshot_stats moment snapshot now =
     (if snapshot = JNull then Some None
      else (case (snapshot_part snapshot ''latestTrade'', snapshot_part snapshot ''dailyBar'', snapshot_part snapshot ''prevDailyBar'') of
          (Some trade, Some day_bar, Some previous) \<Rightarrow>
            (case or_else (positive_number (json_field trade ''p'')) (positive_number (json_field day_bar ''c'')) of
               None \<Rightarrow> Some None
             | Some price \<Rightarrow>
                 (case Option.bind (json_text (json_field day_bar ''t'')) moment of
                    None \<Rightarrow> Some (Some (price, None, None))
                  | Some (opened, _) \<Rightarrow>
                      if now - whole_seconds opened > STALE_BAR_SECONDS then Some (Some (price, None, Some 0))
                      else Some (Some (price,
                        map_option (\<lambda>close. (price / close - 1) * 100) (positive_number (json_field previous ''c'')),
                        map_option (\<lambda>shares. shares * (case positive_number (json_field day_bar ''vw'') of Some v \<Rightarrow> v | None \<Rightarrow> price))
                          (bar_shares (json_field day_bar ''v''))))))
        | _ \<Rightarrow> None))"

definition snapshot_row :: "string \<Rightarrow> real \<times> real option \<times> real option \<Rightarrow> string \<times> instrument_stats" where
  "snapshot_row symbol v = (case v of (price, change, volume) \<Rightarrow>
     (symbol, \<lparr>is_price = Some (Fin price), is_change = map_option Fin change, is_volume = map_option Fin volume\<rparr>))"

definition parse_snapshots :: "(string \<Rightarrow> json option) \<Rightarrow> (string \<Rightarrow> (real \<times> bool) option) \<Rightarrow> string \<Rightarrow> int \<Rightarrow>
    data_error + (string \<times> instrument_stats) list \<times> nat" where
  "parse_snapshots loads moment body now = (case loads body of
      None \<Rightarrow> Inl (al_unreadable ''snapshots are not valid JSON'')
    | Some (JObj ms) \<Rightarrow>
        (let read = map (\<lambda>(symbol, snapshot). (symbol, snapshot_stats moment snapshot now)) (json_members ms)
         in Inr (List.map_filter (\<lambda>(symbol, st). case st of Some (Some v) \<Rightarrow> Some (snapshot_row symbol v) | _ \<Rightarrow> None) read,
                 length (filter (\<lambda>(_, st). st = None) read)))
    | Some _ \<Rightarrow> Inl (al_unreadable ''snapshots response is not an object.''))"

section \<open>1Day bars\<close>

text \<open>\<open>relabel_daily\<close> of rows with an open time: the inner join with the sessions on the date in New
  York, sorted by the new time.\<close>

definition relabel_daily :: "(int \<Rightarrow> int) \<Rightarrow> session list \<Rightarrow> ('r \<Rightarrow> int option) \<Rightarrow> (int \<Rightarrow> 'r \<Rightarrow> 'r) \<Rightarrow> 'r list \<Rightarrow> 'r list" where
  "relabel_daily ny_date ss time_of retime bars = sort_key time_of (concat (map (\<lambda>r.
     (case time_of r of None \<Rightarrow> []
      | Some t \<Rightarrow> map (\<lambda>s. retime (s_open s) r) (filter (\<lambda>s. s_date s = ny_date t) ss))) bars))"

definition retime_candle :: "int \<Rightarrow> candle \<Rightarrow> candle" where
  "retime_candle t k = k\<lparr>k_ts := Some t\<rparr>"

definition retime_spark :: "int \<Rightarrow> spark_row \<Rightarrow> spark_row" where
  "retime_spark t r = (case r of (symbol, _, prices) \<Rightarrow> (symbol, Some t, prices))"

definition spark_time :: "spark_row \<Rightarrow> int option" where
  "spark_time r = fst (snd r)"

definition daily_bar :: "(string \<Rightarrow> (real \<times> bool) option) \<Rightarrow> json \<Rightarrow> (int \<times> real \<times> real \<times> real \<times> real) option" where
  "daily_bar moment bar = (case bar of
      JObj _ \<Rightarrow> (case map (\<lambda>k. json_number (json_field bar k)) [''o'', ''h'', ''l'', ''c''] of
          [Some (Fin p), Some (Fin h), Some (Fin l), Some (Fin c)] \<Rightarrow>
            (case Option.bind (json_text (json_field bar ''t'')) moment of
               Some (opened, True) \<Rightarrow> Some (whole_seconds opened, p, h, l, c)
             | _ \<Rightarrow> None)
        | _ \<Rightarrow> None)
    | _ \<Rightarrow> None)"

definition bar_lists :: "(string \<times> json) list \<Rightarrow> (string \<times> json list) list option" where
  "bar_lists ms = map_opt (\<lambda>(symbol, v). case v of JNull \<Rightarrow> Some (symbol, []) | JList bars \<Rightarrow> Some (symbol, bars) | _ \<Rightarrow> None)
     (json_members ms)"

definition parse_daily_bars :: "(string \<Rightarrow> (real \<times> bool) option) \<Rightarrow> (int \<Rightarrow> int) \<Rightarrow> json \<Rightarrow> session list \<Rightarrow>
    data_error + spark_row list \<times> nat" where
  "parse_daily_bars moment ny_date body days =
     (case (case bars_by_symbol body of JObj ms \<Rightarrow> bar_lists ms | _ \<Rightarrow> None) of
        None \<Rightarrow> Inl no_bars
      | Some groups \<Rightarrow>
          (let read = concat (map (\<lambda>(symbol, bars). map (\<lambda>bar. (symbol, daily_bar moment bar)) bars) groups);
               good = List.map_filter (\<lambda>(symbol, b). map_option (\<lambda>(t, p, h, l, c).
                 (symbol, Some t, Some (Fin p), Some (Fin h), Some (Fin l), Some (Fin c))) b) read
           in Inr (relabel_daily ny_date days spark_time retime_spark good, length (filter (\<lambda>(_, b). b = None) read))))"

section \<open>Candles of a period\<close>

definition regular_candles :: "horizontal \<Rightarrow> (candle_problem list \<Rightarrow> string) \<Rightarrow> (int \<Rightarrow> int) \<Rightarrow> candle list \<Rightarrow> timeframe \<Rightarrow> period \<Rightarrow>
    session list \<Rightarrow> data_error + candle list" where
  "regular_candles H detail ny_date bars tf p ss =
     (let frame = (if tf = D1 then relabel_daily ny_date ss k_ts retime_candle bars else bars);
          frame = resample_sessions (tidy frame) tf ss;
          frame = closed_only (slice_range frame (p_start p) (p_end p)) tf (p_end p) (Some ss)
      in (case validate H frame None of
           Inl problems \<Rightarrow> Inl (DataIntegrityError (detail problems) (Some AL_NAME))
         | Inr _ \<Rightarrow> Inr frame))"

section \<open>The calendar\<close>

text \<open>\<open>_fetch_calendar\<close> keeps three keys of each day; \<open>_parse_calendar\<close> reads them back.\<close>

definition calendar_days :: "json \<Rightarrow> json list option" where
  "calendar_days body = Option.bind (json_items body) (map_opt (\<lambda>day.
     (case (json_get day ''date'', json_get day ''open'', json_get day ''close'') of
        (Some d, Some a, Some b) \<Rightarrow> Some (JObj [(''date'', d), (''open'', a), (''close'', b)]) | _ \<Rightarrow> None)))"

definition calendar_item_of :: "json \<Rightarrow> calendar_item" where
  "calendar_item_of day = (let field = (\<lambda>k. Option.bind (json_get day k) json_text)
     in \<lparr>ci_date = field ''date'', ci_open = field ''open'', ci_close = field ''close''\<rparr>)"

definition calendar_detail :: "calendar_error \<Rightarrow> string" where
  "calendar_detail e = (case e of MalformedDay i \<Rightarrow> ''Malformed trading calendar day '' @ show_nat i
     | ClosesBeforeOpens i \<Rightarrow> ''Trading calendar day '' @ show_nat i @ '' closes before it opens'')"

definition al_parse_calendar :: "(string \<Rightarrow> json option) \<Rightarrow> (string \<Rightarrow> int option) \<Rightarrow> (int \<Rightarrow> string \<Rightarrow> int option) \<Rightarrow> string \<Rightarrow>
    raised + session list" where
  "al_parse_calendar loads day_of new_york blob = (case loads blob of
      None \<Rightarrow> Inl (Crash ''JSONDecodeError'')
    | Some v \<Rightarrow> (case json_items v of
        None \<Rightarrow> Inl (Crash ''TypeError'')
      | Some items \<Rightarrow> (case parse_calendar day_of new_york (map calendar_item_of items) of
          Inl e \<Rightarrow> Inl (DataFault (DataIntegrityError (calendar_detail e) (Some AL_NAME)))
        | Inr ss \<Rightarrow> Inr ss)))"

end
