(* ===== verification/DataBatches.thy ===== *)
theory DataBatches
  imports DataAlpacaRead "HOL-Library.Multiset"
begin

text \<open>
  The refresh in batches of \<open>data/sources/alpaca.py\<close> (\<open>_in_batches\<close>, \<open>_batches\<close>, \<open>_narrow\<close>): many
  symbols per request, a second try for what failed, and a batch that is refused split in halves down
  to the symbols that are refused. \<open>ask\<close> asks for a batch: its rows, the number of malformed items and
  the response. The theorems say that no symbol is lost or counted twice whatever fails, and that
  splitting finds exactly the refused symbols.
\<close>

section \<open>Asking\<close>

type_synonym batch = "string list"
type_synonym ('s, 'r) ask = "batch \<Rightarrow> ('s, 'r list \<times> nat \<times> response option) io"

record 'r batches =
  bt_total :: nat
  bt_frames :: "'r list list"
  bt_malformed :: nat
  bt_response :: "response option"
  bt_error :: "data_error option"
  bt_refused :: "string list"

definition got_answer :: "'r list \<Rightarrow> nat \<Rightarrow> response option \<Rightarrow> 'r batches \<Rightarrow> 'r batches" where
  "got_answer frame malformed resp got = got\<lparr>bt_frames := bt_frames got @ [frame],
     bt_malformed := bt_malformed got + malformed,
     bt_response := (case resp of None \<Rightarrow> bt_response got | Some r \<Rightarrow> Some r)\<rparr>"

text \<open>\<open>_batches\<close>: the batches that failed, each with its error.\<close>

fun ask_batches :: "('s, 'r) ask \<Rightarrow> batch list \<Rightarrow> 'r batches \<Rightarrow> ('s, (batch \<times> data_error) list \<times> 'r batches) io" where
  "ask_batches ask [] got s = (Inr ([], got), s)"
| "ask_batches ask (b # bs) got s = (case ask b s of
      (Inl (Crash c), s') \<Rightarrow> (Inl (Crash c), s')
    | (Inl (DataFault e), s') \<Rightarrow> (case ask_batches ask bs (got\<lparr>bt_error := Some e\<rparr>) s' of
          (Inl x, s'') \<Rightarrow> (Inl x, s'')
        | (Inr (failed, got'), s'') \<Rightarrow> (Inr ((b, e) # failed, got'), s''))
    | (Inr (frame, malformed, resp), s') \<Rightarrow> ask_batches ask bs (got_answer frame malformed resp got) s')"

declare ask_batches.simps(2) [simp del]

lemma ask_batches_Cons:
  "ask_batches ask (b # bs) got s = (Inr (failed, got'), s') \<longleftrightarrow>
   (\<exists>e s1 later. ask b s = (Inl (DataFault e), s1) \<and> ask_batches ask bs (got\<lparr>bt_error := Some e\<rparr>) s1 = (Inr (later, got'), s') \<and>
      failed = (b, e) # later) \<or>
   (\<exists>frame malformed resp s1. ask b s = (Inr (frame, malformed, resp), s1) \<and>
      ask_batches ask bs (got_answer frame malformed resp got) s1 = (Inr (failed, got'), s'))"
  by (auto simp: ask_batches.simps(2) split: prod.splits sum.splits raised.splits)

text \<open>The weight of a batch: splitting it makes it less.\<close>

definition batch_weight :: "batch \<times> data_error \<Rightarrow> nat" where
  "batch_weight f = 2 * max (length (fst f)) 1 - 1"

lemma ask_batches_failed:
  "ask_batches ask bs got s = (Inr (failed, got'), s') \<Longrightarrow>
   sum_list (map batch_weight failed) \<le> (\<Sum>b\<leftarrow>bs. 2 * max (length b) 1 - 1)"
proof (induction bs arbitrary: got s failed)
  case Nil
  then show ?case by simp
next
  case (Cons b bs)
  from Cons.prems consider e s1 later where "ask_batches ask bs (got\<lparr>bt_error := Some e\<rparr>) s1 = (Inr (later, got'), s')" "failed = (b, e) # later"
    | frame malformed resp s1 where "ask_batches ask bs (got_answer frame malformed resp got) s1 = (Inr (failed, got'), s')"
    unfolding ask_batches_Cons by blast
  then show ?case
  proof cases
    case 1
    then show ?thesis using Cons.IH[OF 1(1)] by (simp add: batch_weight_def)
  next
    case 2
    then show ?thesis using Cons.IH[OF 2] by (simp add: batch_weight_def)
  qed
qed

text \<open>\<open>_in_batches\<close> from the failed batches on: a refused one is split (\<open>_narrow\<close>: its halves are asked
  for, and what fails of them is taken the same way), the others stay unanswered. No batch is empty.\<close>

function narrow :: "('s, 'r) ask \<Rightarrow> (batch \<times> data_error) list \<Rightarrow> 'r batches \<Rightarrow> 's \<Rightarrow> (raised + batch list \<times> 'r batches) \<times> 's" where
  "narrow ask [] got s = (Inr ([], got), s)"
| "narrow ask ((b, e) # failed) got s =
     (if \<not> rejected e
      then (case narrow ask failed got s of
          (Inl x, s') \<Rightarrow> (Inl x, s') | (Inr (left, got'), s') \<Rightarrow> (Inr (b # left, got'), s'))
      else if length b \<le> 1 then narrow ask failed (got\<lparr>bt_refused := bt_refused got @ b\<rparr>) s
      else (case ask_batches ask [take (length b div 2) b, drop (length b div 2) b] got s of
          (Inl x, s') \<Rightarrow> (Inl x, s')
        | (Inr (halves, got'), s') \<Rightarrow> (case narrow ask halves got' s' of
            (Inl x, s'') \<Rightarrow> (Inl x, s'')
          | (Inr (left, got''), s'') \<Rightarrow> (case narrow ask failed got'' s'' of
              (Inl x, s3) \<Rightarrow> (Inl x, s3)
            | (Inr (later, got3), s3) \<Rightarrow> (Inr (left @ later, got3), s3)))))"
  by pat_completeness auto
termination
proof (relation "measure (\<lambda>(ask, failed, got, s). sum_list (map batch_weight failed))", simp, goal_cases)
  case (3 ask b e failed got s r s' p halves got')
  have "sum_list (map batch_weight halves) \<le> (\<Sum>b\<leftarrow>[take (length b div 2) b, drop (length b div 2) b]. 2 * max (length b) 1 - 1)"
    by (rule ask_batches_failed[of ask _ got s halves got' s']) (use 3 in simp)
  then show ?case using 3(2) by (simp add: batch_weight_def)
qed (simp_all add: batch_weight_def)

declare narrow.simps(2) [simp del]

lemma narrow_Cons:
  "narrow ask ((b, e) # failed) got s = (Inr (left, got'), s') \<longleftrightarrow>
   (\<not> rejected e \<and> (\<exists>l. narrow ask failed got s = (Inr (l, got'), s') \<and> left = b # l)) \<or>
   (rejected e \<and> length b \<le> 1 \<and> narrow ask failed (got\<lparr>bt_refused := bt_refused got @ b\<rparr>) s = (Inr (left, got'), s')) \<or>
   (rejected e \<and> \<not> length b \<le> 1 \<and> (\<exists>halves g1 s1 l1 g2 s2 l2.
      ask_batches ask [take (length b div 2) b, drop (length b div 2) b] got s = (Inr (halves, g1), s1) \<and>
      narrow ask halves g1 s1 = (Inr (l1, g2), s2) \<and> narrow ask failed g2 s2 = (Inr (l2, got'), s') \<and> left = l1 @ l2))"
  by (auto simp: narrow.simps(2) split: prod.splits sum.splits)

text \<open>\<open>_in_batches\<close>. \<open>wait\<close> pauses as the last error says, once. The batches that are left keep what they had.\<close>

definition in_batches :: "(data_error \<Rightarrow> 's \<Rightarrow> 's) \<Rightarrow> ('s, 'r) ask \<Rightarrow> string list \<Rightarrow> ('s, batch list \<times> 'r batches) io" where
  "in_batches wait ask symbols s =
     (let got = \<lparr>bt_total = length symbols, bt_frames = [], bt_malformed = 0, bt_response = None, bt_error = None, bt_refused = []\<rparr>
      in case ask_batches ask (batched SNAPSHOT_SYMBOLS symbols) got s of
        (Inl x, s1) \<Rightarrow> (Inl x, s1)
      | (Inr (failed, got1), s1) \<Rightarrow>
          (case (if failed = [] then (Inr (failed, got1), s1)
                 else ask_batches ask (map fst failed) got1 (case bt_error got1 of Some e \<Rightarrow> wait e s1 | None \<Rightarrow> s1)) of
             (Inl x, s2) \<Rightarrow> (Inl x, s2)
           | (Inr (again, got2), s2) \<Rightarrow> (case narrow ask again got2 s2 of
               (Inl x, s3) \<Rightarrow> (Inl x, s3)
             | (Inr (left, got3), s3) \<Rightarrow> (case bt_error got3 of
                   Some e \<Rightarrow> if bt_frames got3 = [] \<and> (left \<noteq> [] \<or> bt_refused got3 \<noteq> []) then (Inl (DataFault e), s3)
                             else (Inr (left, got3), s3)
                 | None \<Rightarrow> (Inr (left, got3), s3)))))"

text \<open>\<open>_Batches.result\<close>\<close>

definition batches_result :: "batch list \<times> 'r batches \<Rightarrow> 'r list \<times> string list" where
  "batches_result r = (concat (bt_frames (snd r)), concat (fst r))"

section \<open>No symbol is lost\<close>

text \<open>An answer has the rows of the symbols asked for, in any order.\<close>

definition answers :: "('s, 'r) ask \<Rightarrow> (string \<Rightarrow> 'r list) \<Rightarrow> bool" where
  "answers ask rows_of \<longleftrightarrow> (\<forall>b s frame malformed resp s'. ask b s = (Inr (frame, malformed, resp), s') \<longrightarrow>
     mset frame = (\<Sum>x\<in>#mset b. mset (rows_of x)))"

definition failed_with :: "('s, 'r) ask \<Rightarrow> batch \<times> data_error \<Rightarrow> bool" where
  "failed_with ask f \<longleftrightarrow> (\<exists>s s'. ask (fst f) s = (Inl (DataFault (snd f)), s'))"

definition was_answered :: "('s, 'r) ask \<Rightarrow> string \<Rightarrow> bool" where
  "was_answered ask x \<longleftrightarrow> (\<exists>b s r s'. x \<in> set b \<and> ask b s = (Inr r, s'))"

definition refused_alone :: "('s, 'r) ask \<Rightarrow> string \<Rightarrow> bool" where
  "refused_alone ask x \<longleftrightarrow> (\<exists>e. failed_with ask ([x], e) \<and> rejected e)"

text \<open>The symbols are those answered, with their rows, those refused and those in pending batches.\<close>

definition accounted :: "('s, 'r) ask \<Rightarrow> (string \<Rightarrow> 'r list) \<Rightarrow> string list \<Rightarrow> 'r batches \<Rightarrow> batch list \<Rightarrow> bool" where
  "accounted ask rows_of symbols got pending \<longleftrightarrow> (\<exists>answered.
     mset (concat (bt_frames got)) = (\<Sum>x\<in>#mset answered. mset (rows_of x)) \<and> (bt_frames got = [] \<longrightarrow> answered = []) \<and>
     mset answered + mset (bt_refused got) + mset (concat pending) = mset symbols \<and>
     (\<forall>x \<in> set answered. was_answered ask x) \<and> (\<forall>x \<in> set (bt_refused got). refused_alone ask x))"

lemma accounted_mono:
  "accounted ask rows_of symbols got pending \<Longrightarrow> mset (concat pending) = mset (concat pending') \<Longrightarrow>
   bt_frames got' = bt_frames got \<Longrightarrow> bt_refused got' = bt_refused got \<Longrightarrow> accounted ask rows_of symbols got' pending'"
  by (simp add: accounted_def)

lemma accounted_answer:
  assumes "accounted ask rows_of symbols got (b # pending)" "answers ask rows_of" "ask b s = (Inr (frame, malformed, resp), s')"
  shows "accounted ask rows_of symbols (got_answer frame malformed resp got) pending"
proof -
  obtain answered where a: "mset (concat (bt_frames got)) = (\<Sum>x\<in>#mset answered. mset (rows_of x))"
      "mset answered + mset (bt_refused got) + mset (concat (b # pending)) = mset symbols"
      "\<forall>x \<in> set answered. was_answered ask x" "\<forall>x \<in> set (bt_refused got). refused_alone ask x"
    using assms(1) unfolding accounted_def by blast
  have "mset frame = (\<Sum>x\<in>#mset b. mset (rows_of x))" using assms(2,3) unfolding answers_def by blast
  moreover have "\<forall>x \<in> set b. was_answered ask x" unfolding was_answered_def using assms(3) by blast
  ultimately show ?thesis
    unfolding accounted_def using a by (intro exI[of _ "answered @ b"]) (auto simp: got_answer_def ac_simps)
qed

lemma ask_batches_accounted:
  assumes "answers ask rows_of"
  shows "ask_batches ask bs got s = (Inr (failed, got'), s') \<Longrightarrow> accounted ask rows_of symbols got (bs @ pending) \<Longrightarrow>
    accounted ask rows_of symbols got' (map fst failed @ pending) \<and> (\<forall>f \<in> set failed. failed_with ask f \<and> fst f \<in> set bs)"
proof (induction bs arbitrary: got s failed pending)
  case Nil
  then show ?case by simp
next
  case (Cons b bs)
  from Cons.prems(1)[unfolded ask_batches_Cons] show ?case
  proof (elim disjE exE conjE)
    fix e s1 later
    assume b: "ask b s = (Inl (DataFault e), s1)" "ask_batches ask bs (got\<lparr>bt_error := Some e\<rparr>) s1 = (Inr (later, got'), s')"
      "failed = (b, e) # later"
    have "accounted ask rows_of symbols (got\<lparr>bt_error := Some e\<rparr>) (bs @ (b # pending))"
      using Cons.prems(2) by (rule accounted_mono) simp_all
    from Cons.IH[OF b(2) this] have IH: "accounted ask rows_of symbols got' (map fst later @ b # pending)"
      "\<forall>f \<in> set later. failed_with ask f \<and> fst f \<in> set bs" by blast+
    have "accounted ask rows_of symbols got' (map fst failed @ pending)"
      using IH(1) by (rule accounted_mono) (simp_all add: b(3))
    moreover have "failed_with ask (b, e)" unfolding failed_with_def using b(1) by auto
    ultimately show ?thesis using IH(2) by (simp add: b(3))
  next
    fix frame malformed resp s1
    assume b: "ask b s = (Inr (frame, malformed, resp), s1)"
      "ask_batches ask bs (got_answer frame malformed resp got) s1 = (Inr (failed, got'), s')"
    have "accounted ask rows_of symbols (got_answer frame malformed resp got) (bs @ pending)"
      by (rule accounted_answer[OF _ assms b(1)]) (use Cons.prems(2) in simp)
    from Cons.IH[OF b(2) this] show ?thesis by auto
  qed
qed

lemma narrow_accounted:
  "answers ask rows_of \<Longrightarrow> narrow ask failed got s = (Inr (left, got'), s') \<Longrightarrow> accounted ask rows_of symbols got (map fst failed @ pending) \<Longrightarrow>
    \<forall>f \<in> set failed. failed_with ask f \<and> fst f \<noteq> [] \<Longrightarrow>
    accounted ask rows_of symbols got' (left @ pending) \<and> (\<forall>b \<in> set left. \<exists>e. failed_with ask (b, e) \<and> \<not> rejected e)"
proof (induction ask failed got s arbitrary: left got' s' pending rule: narrow.induct)
  case (1 ask got s)
  then show ?case by simp
next
  case (2 ask b e failed got s)
  note ans = 2(5)
  have b: "b \<noteq> []" "failed_with ask (b, e)" and later: "\<forall>f \<in> set failed. failed_with ask f \<and> fst f \<noteq> []"
    using 2(8) by auto
  from 2(6)[unfolded narrow_Cons] show ?case
  proof (elim disjE exE conjE)
    fix l assume n: "\<not> rejected e" "narrow ask failed got s = (Inr (l, got'), s')" "left = b # l"
    have "accounted ask rows_of symbols got (map fst failed @ b # pending)"
      using 2(7) by (rule accounted_mono) simp_all
    from 2(1)[OF n(1) ans n(2) this later]
    have IH: "accounted ask rows_of symbols got' (l @ b # pending)" "\<forall>b \<in> set l. \<exists>e. failed_with ask (b, e) \<and> \<not> rejected e" by blast+
    have "accounted ask rows_of symbols got' (left @ pending)" using IH(1) by (rule accounted_mono) (simp_all add: n(3))
    then show ?thesis using IH(2) n(1,3) b(2) by auto
  next
    assume n: "rejected e" "length b \<le> 1" "narrow ask failed (got\<lparr>bt_refused := bt_refused got @ b\<rparr>) s = (Inr (left, got'), s')"
    then obtain x where x: "b = [x]" using b(1) by (cases b) auto
    have "refused_alone ask x" unfolding refused_alone_def using b(2) n(1) x by blast
    then have "accounted ask rows_of symbols (got\<lparr>bt_refused := bt_refused got @ b\<rparr>) (map fst failed @ pending)"
      using 2(7) by (auto simp: accounted_def x)
    from 2(2)[OF _ n(2) ans n(3) this later] n(1) show ?thesis by simp
  next
    fix halves g1 s1 l1 g2 s2 l2
    let ?halves = "[take (length b div 2) b, drop (length b div 2) b]"
    assume n: "rejected e" "\<not> length b \<le> 1" "ask_batches ask ?halves got s = (Inr (halves, g1), s1)"
      "narrow ask halves g1 s1 = (Inr (l1, g2), s2)" "narrow ask failed g2 s2 = (Inr (l2, got'), s')" "left = l1 @ l2"
    have "accounted ask rows_of symbols got (?halves @ (map fst failed @ pending))"
      using 2(7) by (rule accounted_mono) (simp_all add: append_assoc[symmetric] del: append_assoc)
    from ask_batches_accounted[OF ans n(3) this]
    have h: "accounted ask rows_of symbols g1 (map fst halves @ map fst failed @ pending)"
      "\<forall>f \<in> set halves. failed_with ask f \<and> fst f \<in> set ?halves" by blast+
    have "\<forall>f \<in> set halves. failed_with ask f \<and> fst f \<noteq> []" using h(2) n(2) by (auto dest!: bspec)
    from 2(3)[OF _ n(2) n(3)[symmetric] refl refl ans n(4) h(1) this] n(1)
    have l1: "accounted ask rows_of symbols g2 (l1 @ map fst failed @ pending)"
      "\<forall>b \<in> set l1. \<exists>e. failed_with ask (b, e) \<and> \<not> rejected e" by blast+
    have "accounted ask rows_of symbols g2 (map fst failed @ l1 @ pending)"
      using l1(1) by (rule accounted_mono) simp_all
    from 2(4)[OF _ n(2) n(3)[symmetric] refl refl n(4)[symmetric] refl refl ans n(5) this later] n(1)
    have l2: "accounted ask rows_of symbols got' (l2 @ l1 @ pending)"
      "\<forall>b \<in> set l2. \<exists>e. failed_with ask (b, e) \<and> \<not> rejected e" by blast+
    have "accounted ask rows_of symbols got' (left @ pending)" using l2(1) by (rule accounted_mono) (simp_all add: n(6))
    then show ?thesis using l1(2) l2(2) n(6) by auto
  qed
qed

text \<open>What \<open>_in_batches\<close> gets before it raises or returns.\<close>

definition batches_done :: "('s, 'r) ask \<Rightarrow> (string \<Rightarrow> 'r list) \<Rightarrow> string list \<Rightarrow> batch list \<Rightarrow> 'r batches \<Rightarrow> bool" where
  "batches_done ask rows_of symbols left got \<longleftrightarrow> accounted ask rows_of symbols got left \<and>
     (\<forall>b \<in> set left. \<exists>e. failed_with ask (b, e) \<and> \<not> rejected e)"

lemma in_batches_ends:
  assumes "answers ask rows_of" "in_batches wait ask symbols s = (r, s')"
  shows "(\<exists>left got. batches_done ask rows_of symbols left got \<and> r = (case bt_error got of
        Some e \<Rightarrow> if bt_frames got = [] \<and> (left \<noteq> [] \<or> bt_refused got \<noteq> []) then Inl (DataFault e) else Inr (left, got)
      | None \<Rightarrow> Inr (left, got))) \<or>
    (\<exists>bs got s x s'. ask_batches ask bs got s = (Inl x, s') \<and> r = Inl x) \<or>
    (\<exists>failed got s x s'. narrow ask failed got s = (Inl x, s') \<and> r = Inl x)"
proof -
  let ?start = "\<lparr>bt_total = length symbols, bt_frames = [], bt_malformed = 0, bt_response = None, bt_error = None, bt_refused = []\<rparr>"
  let ?bs = "batched SNAPSHOT_SYMBOLS symbols"
  have n: "0 < SNAPSHOT_SYMBOLS" by (simp add: SNAPSHOT_SYMBOLS_def)
  have start: "accounted ask rows_of symbols ?start (?bs @ [])" by (simp add: accounted_def batched_concat(1)[OF n])
  obtain r1 s1 where r1: "ask_batches ask ?bs ?start s = (r1, s1)" by (meson surj_pair)
  show ?thesis
  proof (cases r1)
    case (Inl x)
    then have "r = Inl x" using assms(2) r1 by (simp add: in_batches_def)
    then show ?thesis using r1 Inl by blast
  next
    case (Inr p)
    obtain failed got1 where p: "p = (failed, got1)" by fastforce
    have ok: "ask_batches ask ?bs ?start s = (Inr (failed, got1), s1)" using r1 Inr p by simp
    note a1 = ask_batches_accounted[OF assms(1) ok start]
    define s1' where "s1' = (case bt_error got1 of Some e \<Rightarrow> wait e s1 | None \<Rightarrow> s1)"
    obtain r2 s2 where r2: "(if failed = [] then (Inr (failed, got1), s1) else ask_batches ask (map fst failed) got1 s1') = (r2, s2)"
      by (meson surj_pair)
    note unfold = assms(2)[unfolded in_batches_def Let_def ok, simplified, folded s1'_def, unfolded r2]
    show ?thesis
    proof (cases r2)
      case (Inl x)
      then have "ask_batches ask (map fst failed) got1 s1' = (Inl x, s2)" "r = Inl x" using r2 unfold by (auto split: if_splits)
      then show ?thesis by blast
    next
      case (Inr q)
      obtain again got2 where q: "q = (again, got2)" by fastforce
      have a2: "accounted ask rows_of symbols got2 (map fst again @ []) \<and> (\<forall>f \<in> set again. failed_with ask f \<and> fst f \<in> set ?bs)"
      proof (cases "failed = []")
        case True
        then show ?thesis using r2 Inr q a1 by auto
      next
        case False
        then have "ask_batches ask (map fst failed) got1 s1' = (Inr (again, got2), s2)" using r2 Inr q by simp
        from ask_batches_accounted[OF assms(1) this, of symbols "[]"] a1[THEN conjunct1]
        have "accounted ask rows_of symbols got2 (map fst again @ [])" "\<forall>f \<in> set again. failed_with ask f \<and> fst f \<in> set (map fst failed)"
          by blast+
        moreover have "set (map fst failed) \<subseteq> set ?bs" using a1 by auto
        ultimately show ?thesis by blast
      qed
      then have again: "\<forall>f \<in> set again. failed_with ask f \<and> fst f \<noteq> []" using batched_concat(2) by blast
      obtain r3 s3 where r3: "narrow ask again got2 s2 = (r3, s3)" by (meson surj_pair)
      show ?thesis
      proof (cases r3)
        case (Inl x)
        then have "r = Inl x" using unfold Inr q r3 by auto
        then show ?thesis using r3 Inl by blast
      next
        case r3': (Inr t)
        obtain left got3 where t: "t = (left, got3)" by fastforce
        have "narrow ask again got2 s2 = (Inr (left, got3), s3)" using r3 r3' t by simp
        from narrow_accounted[OF assms(1) this a2[THEN conjunct1] again]
        have "batches_done ask rows_of symbols left got3" by (simp add: batches_done_def)
        moreover have "r = (case bt_error got3 of
            Some e \<Rightarrow> if bt_frames got3 = [] \<and> (left \<noteq> [] \<or> bt_refused got3 \<noteq> []) then Inl (DataFault e) else Inr (left, got3)
          | None \<Rightarrow> Inr (left, got3))"
          using unfold Inr q r3 r3' t by (auto split: option.splits if_splits)
        ultimately show ?thesis by blast
      qed
    qed
  qed
qed

text \<open>Whatever requests of a refresh fail, no symbol is lost or counted twice: the symbols are those
  answered, whose rows are exactly the rows got, those refused when asked alone, and those whose batch
  failed otherwise, and each is one of these once.\<close>

theorem batches_lose_no_symbol:
  assumes "answers ask rows_of" "in_batches wait ask symbols s = (Inr (left, got), s')"
  shows "accounted ask rows_of symbols got left \<and> (\<forall>b \<in> set left. \<exists>e. failed_with ask (b, e) \<and> \<not> rejected e)"
proof -
  have "(\<exists>left' got'. batches_done ask rows_of symbols left' got' \<and> Inr (left, got) = Inr (left', got'))"
    using in_batches_ends[OF assms] by (auto split: option.splits if_splits)
  then show ?thesis by (auto simp: batches_done_def)
qed

section \<open>Splitting finds the refused symbols\<close>

text \<open>Every request is answered, unless it has a symbol that is refused.\<close>

definition refuses_exactly :: "('s, 'r) ask \<Rightarrow> string set \<Rightarrow> bool" where
  "refuses_exactly ask bad \<longleftrightarrow> (\<forall>b s. if set b \<inter> bad = {} then \<exists>a s'. ask b s = (Inr a, s')
     else \<exists>e s'. ask b s = (Inl (DataFault e), s') \<and> rejected e)"

lemma refuses_answer: "refuses_exactly ask bad \<Longrightarrow> ask b s = (Inr a, s') \<Longrightarrow> set b \<inter> bad = {}"
  unfolding refuses_exactly_def by (metis Pair_inject sum.distinct(1))

lemma refuses_failed: "refuses_exactly ask bad \<Longrightarrow> ask b s = (Inl x, s') \<Longrightarrow> set b \<inter> bad \<noteq> {} \<and> (\<exists>e. x = DataFault e \<and> rejected e)"
  unfolding refuses_exactly_def by (metis Pair_inject sum.distinct(1) sum.inject(1))

lemma ask_batches_runs: "refuses_exactly ask bad \<Longrightarrow> \<exists>p s'. ask_batches ask bs got s = (Inr p, s')"
proof (induction bs arbitrary: got s)
  case (Cons b bs)
  obtain r s1 where r: "ask b s = (r, s1)" by (meson surj_pair)
  show ?case
  proof (cases r)
    case (Inl x)
    then obtain e where x: "x = DataFault e" using refuses_failed[OF Cons.prems] r by blast
    obtain p s' where "ask_batches ask bs (got\<lparr>bt_error := Some e\<rparr>) s1 = (Inr p, s')" using Cons.IH[OF Cons.prems] by blast
    then show ?thesis using r Inl x by (cases p) (simp add: ask_batches.simps(2))
  next
    case (Inr a)
    obtain frame malformed resp where "a = (frame, malformed, resp)" by (metis prod_cases3)
    then show ?thesis using r Inr Cons.IH[OF Cons.prems] by (simp add: ask_batches.simps(2))
  qed
qed simp

lemma narrow_runs: "refuses_exactly ask bad \<Longrightarrow> \<exists>p s'. narrow ask failed got s = (Inr p, s')"
proof (induction ask failed got s rule: narrow.induct)
  case (1 ask got s)
  then show ?case by simp
next
  case (2 ask b e failed got s)
  note IH = 2(1-4) and law = 2(5)
  consider "\<not> rejected e" | "rejected e" "length b \<le> 1" | "rejected e" "\<not> length b \<le> 1" by blast
  then show ?case
  proof cases
    case 1
    obtain p s' where "narrow ask failed got s = (Inr p, s')" using IH(1)[OF 1 law] by blast
    then show ?thesis using 1 by (cases p) (simp add: narrow.simps(2))
  next
    case 2
    obtain p s' where "narrow ask failed (got\<lparr>bt_refused := bt_refused got @ b\<rparr>) s = (Inr p, s')"
      using IH(2)[OF _ 2(2) law] 2(1) by blast
    then show ?thesis using 2 by (simp add: narrow.simps(2))
  next
    case 3
    obtain halves g1 s1 where h: "ask_batches ask [take (length b div 2) b, drop (length b div 2) b] got s = (Inr (halves, g1), s1)"
      using ask_batches_runs[OF law] by (metis surj_pair)
    obtain l1 g2 s2 where l1: "narrow ask halves g1 s1 = (Inr (l1, g2), s2)"
      using IH(3)[OF _ 3(2) h[symmetric] refl refl law] 3(1) by (metis surj_pair)
    obtain l2 g3 s3 where "narrow ask failed g2 s2 = (Inr (l2, g3), s3)"
      using IH(4)[OF _ 3(2) h[symmetric] refl refl l1[symmetric] refl refl law] 3(1) by (metis surj_pair)
    then show ?thesis using 3 h l1 by (simp add: narrow.simps(2))
  qed
qed

lemma ask_never_raises: "refuses_exactly ask bad \<Longrightarrow> ask_batches ask bs got s \<noteq> (Inl x, s')"
  using ask_batches_runs[of ask bad bs got s] by auto

lemma narrow_never_raises: "refuses_exactly ask bad \<Longrightarrow> narrow ask failed got s \<noteq> (Inl x, s')"
  using narrow_runs[of ask bad failed got s] by auto

lemma done_with_refusals:
  assumes "refuses_exactly ask bad" "batches_done ask rows_of symbols left got"
  shows "left = [] \<and> mset (bt_refused got) = filter_mset (\<lambda>x. x \<in> bad) (mset symbols) \<and>
     mset (concat (bt_frames got)) = (\<Sum>x\<in>#filter_mset (\<lambda>x. x \<notin> bad) (mset symbols). mset (rows_of x)) \<and>
     (bt_frames got = [] \<longrightarrow> set symbols \<subseteq> bad)"
proof -
  have "\<not> (\<exists>e. failed_with ask (b, e) \<and> \<not> rejected e)" for b
    using refuses_failed[OF assms(1)] unfolding failed_with_def by (metis fst_conv snd_conv raised.inject(1))
  then have left: "left = []" using assms(2) unfolding batches_done_def by (cases left) auto
  obtain answered where a: "mset (concat (bt_frames got)) = (\<Sum>x\<in>#mset answered. mset (rows_of x))"
      "bt_frames got = [] \<longrightarrow> answered = []" "mset answered + mset (bt_refused got) = mset symbols"
      "\<forall>x \<in> set answered. was_answered ask x" "\<forall>x \<in> set (bt_refused got). refused_alone ask x"
    using assms(2) left unfolding batches_done_def accounted_def by auto
  have good: "x \<notin> bad" if "x \<in> set answered" for x
    using a(4) that refuses_answer[OF assms(1)] unfolding was_answered_def by blast
  have refused: "x \<in> bad" if "x \<in> set (bt_refused got)" for x
  proof -
    have "refused_alone ask x" using a(5) that by blast
    then obtain e where "failed_with ask ([x], e)" unfolding refused_alone_def by blast
    then obtain s s' where "ask [x] s = (Inl (DataFault e), s')" unfolding failed_with_def by auto
    from refuses_failed[OF assms(1) this] show ?thesis by simp
  qed
  have "filter_mset (\<lambda>x. x \<in> bad) (mset answered) = {#}" "filter_mset (\<lambda>x. x \<notin> bad) (mset (bt_refused got)) = {#}"
    using good refused by (simp_all flip: mset_filter add: filter_empty_conv)
  moreover have "filter_mset (\<lambda>x. x \<in> bad) (mset (bt_refused got)) = mset (bt_refused got)"
      "filter_mset (\<lambda>x. x \<notin> bad) (mset answered) = mset answered"
    using good refused by (simp_all flip: mset_filter cong: filter_cong)
  ultimately have parts: "filter_mset (\<lambda>x. x \<in> bad) (mset symbols) = mset (bt_refused got)"
      "filter_mset (\<lambda>x. x \<notin> bad) (mset symbols) = mset answered"
    unfolding a(3)[symmetric] by simp_all
  have "set symbols \<subseteq> bad" if "bt_frames got = []"
  proof -
    have "mset symbols = mset (bt_refused got)" using a(2,3) that by simp
    then have "set symbols = set (bt_refused got)" by (metis set_mset_mset)
    then show ?thesis using refused by blast
  qed
  then show ?thesis using left parts a(1) by simp
qed

text \<open>When the source answers every request but refuses those with certain symbols in them, splitting
  finds exactly these: a refresh ends with no symbol left, the refused ones are exactly the bad ones,
  and the rows are those of all the others, each once; it raises only when every symbol is bad.\<close>

theorem narrow_finds_refused:
  assumes "refuses_exactly ask bad" "answers ask rows_of"
  shows "case fst (in_batches wait ask symbols s) of
      Inr (left, got) \<Rightarrow> left = [] \<and> mset (bt_refused got) = filter_mset (\<lambda>x. x \<in> bad) (mset symbols) \<and>
        mset (concat (bt_frames got)) = (\<Sum>x\<in>#filter_mset (\<lambda>x. x \<notin> bad) (mset symbols). mset (rows_of x))
    | Inl x \<Rightarrow> (\<exists>e. x = DataFault e) \<and> set symbols \<subseteq> bad"
proof -
  obtain r s' where r: "in_batches wait ask symbols s = (r, s')" by (meson surj_pair)
  have "\<exists>left got. batches_done ask rows_of symbols left got \<and> r = (case bt_error got of
        Some e \<Rightarrow> if bt_frames got = [] \<and> (left \<noteq> [] \<or> bt_refused got \<noteq> []) then Inl (DataFault e) else Inr (left, got)
      | None \<Rightarrow> Inr (left, got))"
    using in_batches_ends[OF assms(2) r] ask_never_raises[OF assms(1)] narrow_never_raises[OF assms(1)] by blast
  then obtain left got where d: "batches_done ask rows_of symbols left got" and eq: "r = (case bt_error got of
        Some e \<Rightarrow> if bt_frames got = [] \<and> (left \<noteq> [] \<or> bt_refused got \<noteq> []) then Inl (DataFault e) else Inr (left, got)
      | None \<Rightarrow> Inr (left, got))" by blast
  from done_with_refusals[OF assms(1) d] show ?thesis
    unfolding r fst_conv eq by (auto split: option.splits)
qed

text \<open>A source that counts its requests and refuses a symbol \<open>BAD\<close>.\<close>

definition example_ask :: "(nat, string) ask" where
  "example_ask b n = (if ''BAD'' \<in> set b then (Inl (DataFault (SourceUnavailable ''alpaca'' ''refused'' None True)), n + 1)
     else (Inr (b, 0, None), n + 1))"

lemma example_ask_laws: "refuses_exactly example_ask {''BAD''}" "answers example_ask (\<lambda>x. [x])"
  by (auto simp: refuses_exactly_def answers_def example_ask_def rejected_def)

lemma example_refresh: "in_batches (\<lambda>_ n. n) example_ask [''A'', ''BAD'', ''B''] 0 =
    (Inr ([], \<lparr>bt_total = 3, bt_frames = [[''A''], [''B'']], bt_malformed = 0, bt_response = None,
       bt_error = Some (SourceUnavailable ''alpaca'' ''refused'' None True), bt_refused = [''BAD'']\<rparr>), 6)"
  by (simp add: in_batches_def batched.simps[of 500] SNAPSHOT_SYMBOLS_def ask_batches.simps narrow.simps example_ask_def
      got_answer_def rejected_def Let_def)

theorem narrow_finds_refused_witness:
  "filter_mset (\<lambda>x. x \<in> {''BAD''}) (mset [''A'', ''BAD'', ''B'']) = {#''BAD''#} \<and>
   snd (in_batches (\<lambda>_ n. n) example_ask [''A'', ''BAD'', ''B''] 0) = 6"
  using narrow_finds_refused[OF example_ask_laws, where wait = "\<lambda>_ n. n" and symbols = "[''A'', ''BAD'', ''B'']" and s = 0]
  unfolding example_refresh by simp

theorem batches_lose_no_symbol_witness:
  "\<exists>got. in_batches (\<lambda>_ n. n) example_ask [''A'', ''BAD'', ''B''] 0 = (Inr ([], got), 6) \<and>
     accounted example_ask (\<lambda>x. [x]) [''A'', ''BAD'', ''B''] got [] \<and> bt_refused got = [''BAD'']"
  using batches_lose_no_symbol[OF example_ask_laws(2) example_refresh] example_refresh by force

end
