(* ===== verification/DataAlpaca.thy ===== *)
theory DataAlpaca
  imports DataBatches DataCatalog
begin

text \<open>
  \<open>AlpacaSource\<close> of \<open>data/sources/alpaca.py\<close>: its requests, the trading calendar it keeps, bars page
  after page, the chunk plan and the refreshes in batches. Its methods are effects on the calendar it
  has in memory and the world. The theorem is about the chunk plan: what is cached for long is final.
\<close>

section \<open>The source\<close>

text \<open>\<open>al_cached\<close> is \<open>get_or_fetch\<close>, \<open>al_bars\<close> the frame Polars makes of bars, \<open>al_dumps\<close> \<open>orjson.dumps\<close>,
  \<open>al_monotonic\<close> and \<open>al_counter\<close> the clocks of \<open>time\<close>. The headers are those of every request, which
  the net sends along.\<close>

record 'w alpaca =
  al_net :: "'w net"
  al_api :: string
  al_data :: string
  al_headers :: "(string \<times> string) option"
  al_limit :: int
  al_cached :: "'w caching"
  al_loads :: "string \<Rightarrow> json option"
  al_dumps :: "json \<Rightarrow> string"
  al_str :: "json \<Rightarrow> string"
  al_bars :: "json list \<Rightarrow> candle list option"
  al_moment :: "string \<Rightarrow> (real \<times> bool) option"
  al_ny_date :: "int \<Rightarrow> int"
  al_day_of :: "string \<Rightarrow> int option"
  al_new_york :: "int \<Rightarrow> string \<Rightarrow> int option"
  al_monotonic :: "'w \<Rightarrow> real"
  al_counter :: "'w \<Rightarrow> real"
  al_horizontal :: horizontal
  al_detail :: "candle_problem list \<Rightarrow> string"

record al_memory =
  am_sessions :: "session list"
  am_until :: real

type_synonym ('w, 'a) al_io = "(al_memory \<times> 'w, 'a) io"

text \<open>\<open>__init__\<close>\<close>

definition alpaca_init :: "'w alpaca \<Rightarrow> string \<Rightarrow> string \<Rightarrow> string \<Rightarrow> string \<Rightarrow> int \<Rightarrow> 'w \<Rightarrow> 'w alpaca \<times> (al_memory \<times> 'w)" where
  "alpaca_init A api_url data_url key_id secret rate_limit w =
     (A\<lparr>al_api := rstrip_slash api_url, al_data := rstrip_slash data_url,
        al_headers := (if key_id \<noteq> [] \<and> secret \<noteq> [] then Some (key_id, secret) else None), al_limit := rate_limit\<rparr>,
      (\<lparr>am_sessions = [], am_until = 0\<rparr>, w))"

definition al_stats_limit :: "'w alpaca \<Rightarrow> int" where
  "al_stats_limit A = max 1 (min STATS_SHARE_MAX (al_limit A div STATS_SHARE_DIVISOR))"

definition al_spark_limit :: "'w alpaca \<Rightarrow> int" where
  "al_spark_limit A = max 1 (min SPARK_SHARE_MAX (al_limit A div SPARK_SHARE_DIVISOR))"

section \<open>Requests\<close>

definition al_fault :: "string \<Rightarrow> data_error" where
  "al_fault detail = SourceUnavailable AL_NAME detail None False"

text \<open>What \<open>_request\<close> makes of a response.\<close>

definition al_answer :: "'w alpaca \<Rightarrow> response \<Rightarrow> ('w, response) io" where
  "al_answer A r w =
     (if 400 \<le> status_code r \<and> status_code r < 500 \<and> contains ''subscription'' (content r)
      then (Inl (DataFault (al_fault ''Alpaca refused this server's market data plan for the request.'')), w)
      else if status_code r \<in> {401, 403}
      then (Inl (DataFault (al_fault ''Alpaca rejected the API keys of this server. Try again later.'')), w)
      else if status_code r \<noteq> 200 then (Inl (unavailable (al_net A) AL_NAME AL_TITLE r w), w)
      else (Inr r, w))"

definition al_request :: "'w alpaca \<Rightarrow> string \<Rightarrow> params \<Rightarrow> ('w, response) io" where
  "al_request A url ps = (case al_headers A of
      None \<Rightarrow> io_fault (al_fault ''Stock data is not available: the Alpaca keys (ALPACA_KEY_ID, ALPACA_SECRET_KEY) are not configured on this server.'')
    | Some _ \<Rightarrow>
        io_bind (spend (al_net A) AL_NAME (''Alpaca request budget ('' @ show_int (al_limit A) @ '' per minute)'') AL_RATE_KEY (al_limit A) 1)
          (\<lambda>_. io_bind (http_get (al_net A) AL_NAME AL_TITLE url ps) (al_answer A)))"

definition rfc3339 :: "int \<Rightarrow> string" where
  "rfc3339 ts = (let s = nat (ts mod DAY_SECONDS)
     in day_text ts @ ''T'' @ two_digits (s div 3600) @ '':'' @ two_digits (s mod 3600 div 60) @ '':'' @ two_digits (s mod 60) @ ''Z'')"

text \<open>\<open>_span\<close> at the world in which it is called.\<close>

definition request_span :: "'w alpaca \<Rightarrow> int \<Rightarrow> int \<Rightarrow> 'w \<Rightarrow> params" where
  "request_span A start finish w =
     [(''start'', rfc3339 start), (''end'', rfc3339 (min finish (clock (al_net A) w - SIP_DELAY) - 1))]"

definition bars_page :: "'w alpaca \<Rightarrow> string \<Rightarrow> string \<Rightarrow> params \<Rightarrow> ('w, json) io" where
  "bars_page A symbol tf ps = io_bind (al_request A (al_data A @ ''/v2/stocks/bars'')
       (ps @ [(''symbols'', symbol), (''timeframe'', tf), (''feed'', ''sip''), (''adjustment'', ''all''), (''sort'', ''asc'')]))
     (\<lambda>r. io_bind (io_lift (json_body (al_loads A) AL_NAME AL_TITLE r)) (\<lambda>body.
        case body of JObj _ \<Rightarrow> io_return body | _ \<Rightarrow> io_fault (al_unreadable ''bars response is not an object.'')))"

definition page_params :: "params \<Rightarrow> string option \<Rightarrow> params" where
  "page_params ps token = (case token of None \<Rightarrow> ps | Some t \<Rightarrow> ps @ [(''page_token'', t)])"

text \<open>The pages of \<open>_bars\<close>, following \<open>next_page_token\<close>, with fuel for the pages.\<close>

fun bar_pages :: "'w alpaca \<Rightarrow> string \<Rightarrow> string \<Rightarrow> params \<Rightarrow> nat \<Rightarrow> string option \<Rightarrow> ('w, candle list) io" where
  "bar_pages A symbol tf ps fuel token = (case fuel of
      0 \<Rightarrow> io_raise (Crash ''out of fuel'')
    | Suc n \<Rightarrow> io_bind (bars_page A symbol tf (page_params ps token)) (\<lambda>body.
        io_bind (io_lift (symbol_bars body symbol)) (\<lambda>bars.
        io_bind (io_lift (parse_bars (al_bars A) bars)) (\<lambda>ks.
          if \<not> truthy (json_field body ''next_page_token'') then io_return ks
          else io_bind (bar_pages A symbol tf ps n (Some (al_str A (json_field body ''next_page_token'')))) (\<lambda>later.
            io_return (ks @ later))))))"

declare bar_pages.simps [simp del]

definition al_bar_name :: "timeframe \<Rightarrow> string" where
  "al_bar_name tf = (if tf = D1 then ''1Day'' else ''1Min'')"

definition al_get_bars :: "'w alpaca \<Rightarrow> nat \<Rightarrow> string \<Rightarrow> timeframe \<Rightarrow> int \<Rightarrow> int \<Rightarrow> ('w, candle list) io" where
  "al_get_bars A fuel symbol tf start finish =
     (if start \<ge> finish then io_lift (parse_bars (al_bars A) [])
      else (\<lambda>w. bar_pages A symbol (al_bar_name tf) (request_span A start finish w @ [(''limit'', show_int BARS_LIMIT)]) fuel None w))"

section \<open>The trading calendar\<close>

definition al_parse :: "'w alpaca \<Rightarrow> string \<Rightarrow> raised + session list" where
  "al_parse A = al_parse_calendar (al_loads A) (al_day_of A) (al_new_york A)"

definition io_of :: "raised + 'a \<Rightarrow> ('w, 'a) io" where
  "io_of r = (case r of Inl e \<Rightarrow> io_raise e | Inr x \<Rightarrow> io_return x)"

definition fetch_calendar :: "'w alpaca \<Rightarrow> ('w, string \<times> int) io" where
  "fetch_calendar A = (\<lambda>w.
     let year = clock (al_net A) w div DAY_SECONDS
     in io_bind (al_request A (al_api A @ ''/v2/calendar'')
            [(''start'', show_int HISTORY_START @ ''-01-01''), (''end'', show_int (year_of year + 1) @ ''-12-31'')])
          (\<lambda>r. io_bind (io_lift (json_body (al_loads A) AL_NAME AL_TITLE r)) (\<lambda>body.
            case calendar_days body of
              None \<Rightarrow> io_fault (al_unreadable ''calendar cannot be read'')
            | Some days \<Rightarrow> (let blob = al_dumps A (JList days)
                in io_bind (io_of (al_parse A blob)) (\<lambda>_. io_return (blob, CALENDAR_TTL))))) w)"

definition al_sessions :: "'w alpaca \<Rightarrow> ('w, session list) al_io" where
  "al_sessions A = (\<lambda>(m, w).
     if al_monotonic A w < am_until m then (Inr (am_sessions m), (m, w))
     else (case al_cached A ''calendar'' (fetch_calendar A) w of
        (Inl e, w') \<Rightarrow> (Inl e, (m, w'))
      | (Inr blob, w') \<Rightarrow> (case al_parse A blob of
          Inl e \<Rightarrow> (Inl e, (m, w'))
        | Inr ss \<Rightarrow> (Inr ss, (\<lparr>am_sessions = ss, am_until = al_monotonic A w' + CALENDAR_MEMORY_SECONDS\<rparr>, w')))))"

section \<open>The methods\<close>

definition al_list_instruments :: "'w alpaca \<Rightarrow> ('w, instrument list) al_io" where
  "al_list_instruments A = on_world (io_bind (al_request A (al_api A @ ''/v2/assets'')
       [(''status'', ''active''), (''asset_class'', ''us_equity'')])
     (\<lambda>r. io_lift (parse_assets (al_loads A) (al_str A) (content r))))"

definition HISTORY_START_SECONDS :: int where "HISTORY_START_SECONDS = DAY_SECONDS * year_day HISTORY_START"

definition al_first_timestamp :: "'w alpaca \<Rightarrow> string \<Rightarrow> ('w, int option) al_io" where
  "al_first_timestamp A symbol = io_bind (on_world (\<lambda>w.
       io_bind (bars_page A symbol ''1Day'' (request_span A HISTORY_START_SECONDS (clock (al_net A) w) w @ [(''limit'', ''1'')]))
         (\<lambda>body. io_bind (io_lift (symbol_bars body symbol)) (\<lambda>bars. io_lift (parse_bars (al_bars A) bars))) w))
     (\<lambda>ks. case ks of
        [] \<Rightarrow> io_return None
      | k # _ \<Rightarrow> io_bind (al_sessions A) (\<lambda>ss. case k_ts k of
            None \<Rightarrow> if ss = [] then io_return None else io_raise (Crash ''TypeError'')
          | Some t \<Rightarrow> (let i = bisect (\<lambda>i. t \<le> s_open (ss ! i)) 0 (length ss)
              in io_return (if i < length ss then Some (s_open (ss ! i)) else None))))"

definition al_base_timeframe :: "timeframe \<Rightarrow> timeframe" where
  "al_base_timeframe tf = (if tf = D1 then D1 else M1)"

text \<open>A chunk of 1Day bars that is not final yet is kept until it is.\<close>

definition until_final :: "int \<Rightarrow> period \<Rightarrow> period" where
  "until_final now p =
     (if p_kind p \<noteq> Live \<and> p_end p + DAILY_FINAL_SECONDS > now
      then p\<lparr>p_ttl := max LIVE_TTL (p_end p + DAILY_FINAL_SECONDS - now)\<rparr> else p)"

definition al_periods :: "timeframe \<Rightarrow> int \<Rightarrow> int \<Rightarrow> int \<Rightarrow> period list" where
  "al_periods tf start finish now =
     (let periods = plan_periods start finish (now - SIP_DELAY) (tf = D1) False CLOSED_TTL CURRENT_TTL
      in if tf \<noteq> D1 then periods else map (until_final now) periods)"

definition al_fetch_period :: "'w alpaca \<Rightarrow> nat \<Rightarrow> string \<Rightarrow> timeframe \<Rightarrow> period \<Rightarrow> ('w, candle list) al_io" where
  "al_fetch_period A fuel symbol tf p = io_bind (on_world (al_get_bars A fuel symbol tf (p_start p) (p_end p))) (\<lambda>bars.
     io_bind (al_sessions A) (\<lambda>ss.
       io_lift (regular_candles (al_horizontal A) (al_detail A) (al_ny_date A) bars tf p ss)))"

definition al_health :: "'w alpaca \<Rightarrow> ('w, source_health) al_io" where
  "al_health A = on_world (\<lambda>w. io_catch (io_bind (al_request A (al_api A @ ''/v2/clock'') []) (\<lambda>_. \<lambda>w'.
         (Inr \<lparr>sh_ok = True, sh_latency_ms = Some (round_half_even ((al_counter A w' - al_counter A w) * 1000)),
            sh_detail = None\<rparr>, w')))
       (\<lambda>e. io_return \<lparr>sh_ok = False, sh_latency_ms = None, sh_detail = Some (fault_detail e)\<rparr>) w)"

section \<open>Refreshes in batches\<close>

definition snapshot_batch :: "'w alpaca \<Rightarrow> nat \<Rightarrow> ('w, string \<times> instrument_stats) ask" where
  "snapshot_batch A fuel symbols = io_bind (take_turn (al_net A) fuel STATS_RATE_KEY (al_stats_limit A) 1) (\<lambda>_.
     io_bind (al_request A (al_data A @ ''/v2/stocks/snapshots'') [(''symbols'', join '','' symbols), (''feed'', ''delayed_sip'')])
       (\<lambda>r w. io_bind (io_lift (parse_snapshots (al_loads A) (al_moment A) (content r) (clock (al_net A) w)))
         (\<lambda>(frame, malformed). io_return (frame, malformed, Some r)) w))"

fun daily_pages :: "'w alpaca \<Rightarrow> nat \<Rightarrow> session list \<Rightarrow> batch \<Rightarrow> params \<Rightarrow> nat \<Rightarrow> string option \<Rightarrow> ('w, spark_row list \<times> nat) io" where
  "daily_pages A turns days symbols ps fuel token = (case fuel of
      0 \<Rightarrow> io_raise (Crash ''out of fuel'')
    | Suc n \<Rightarrow> io_bind (take_turn (al_net A) turns AL_SPARK_RATE_KEY (al_spark_limit A) 1) (\<lambda>_.
        io_bind (bars_page A (join '','' symbols) ''1Day'' (page_params ps token)) (\<lambda>body.
        io_bind (io_lift (parse_daily_bars (al_moment A) (al_ny_date A) body days)) (\<lambda>(frame, skipped).
          if \<not> truthy (json_field body ''next_page_token'') then io_return (frame, skipped)
          else io_bind (daily_pages A turns days symbols ps n (Some (al_str A (json_field body ''next_page_token''))))
            (\<lambda>(later, more_skipped). io_return (frame @ later, skipped + more_skipped))))))"

declare daily_pages.simps [simp del]

definition daily_batch :: "'w alpaca \<Rightarrow> nat \<Rightarrow> int \<Rightarrow> int \<Rightarrow> session list \<Rightarrow> ('w, spark_row) ask" where
  "daily_batch A fuel start finish days symbols = (\<lambda>w.
     io_bind (daily_pages A fuel days symbols (request_span A start finish w @ [(''limit'', show_int BARS_LIMIT)]) fuel None)
       (\<lambda>(frame, malformed). io_return (frame, malformed, None)) w)"

definition al_refresh :: "'w alpaca \<Rightarrow> ('w, 'r) ask \<Rightarrow> instrument list \<Rightarrow> ('w, 'r source_stats) io" where
  "al_refresh A ask instruments =
     io_bind (in_batches (pause_after (al_net A)) ask (map in_symbol instruments)) (\<lambda>r. io_return (batches_result r))"

definition al_stats :: "'w alpaca \<Rightarrow> nat \<Rightarrow> instrument list \<Rightarrow> ('w, (string \<times> instrument_stats) source_stats) al_io" where
  "al_stats A fuel instruments = on_world (al_refresh A (snapshot_batch A fuel) instruments)"

definition spark_days :: "session list \<Rightarrow> int \<Rightarrow> session list" where
  "spark_days ss closed_at =
     (let n = bisect (\<lambda>i. closed_at < s_close (ss ! i)) 0 (length ss) in drop (n - SPARK_DAYS) (take n ss))"

definition al_daily_candles :: "'w alpaca \<Rightarrow> nat \<Rightarrow> instrument list \<Rightarrow> int \<Rightarrow> ('w, spark_row source_stats) al_io" where
  "al_daily_candles A fuel instruments closed_at = io_bind (al_sessions A) (\<lambda>ss.
     case spark_days ss closed_at of
       [] \<Rightarrow> io_return ([], [])
     | d # ds \<Rightarrow> on_world (al_refresh A (daily_batch A fuel (day_start (s_open d)) closed_at (d # ds)) instruments))"

section \<open>The source of the service\<close>

definition alpaca_source :: "'w alpaca \<Rightarrow> nat \<Rightarrow> (al_memory \<times> 'w) data_source" where
  "alpaca_source A fuel = \<lparr>src_name = AL_NAME, src_feed = ''sip'', src_market = Stock,
     src_list_instruments = al_list_instruments A, src_sessions = io_bind (al_sessions A) (\<lambda>ss. io_return (Some ss)),
     src_first_timestamp = al_first_timestamp A, src_base_timeframe = al_base_timeframe,
     src_periods = al_periods, src_fetch_period = al_fetch_period A fuel, src_health = al_health A,
     src_stats = al_stats A fuel, src_daily_candles = al_daily_candles A fuel\<rparr>"

lemma until_final_span [simp]: "chunk_span (until_final now p) = chunk_span p"
  by (simp add: until_final_def chunk_span_def)

interpretation al_chunks: chunk_source al_periods SIP_DELAY
  by (rule chunk_source_plan[of _ SIP_DELAY "\<lambda>tf. tf = D1" False CLOSED_TTL CURRENT_TTL])
     (simp add: al_periods_def Let_def comp_def)

end
