(* ===== verification/DataAssemble.thy ===== *)
theory DataAssemble
  imports DataSource DataCache
begin

text \<open>
  The pure part of \<open>data/service.py\<close>: the bounds of candles in time and \<open>assemble\<close>, which makes the
  candle set of a request from the cached chunks. The theorem is a refinement: decoding and resampling
  twelve chunks at a time gives what resampling all candles at once gives.
\<close>

section \<open>Moments\<close>

text \<open>\<open>bisect_right(sessions, t, key)\<close> is the first session whose key is later than \<open>t\<close>.\<close>

definition sessions_after :: "(session \<Rightarrow> int) \<Rightarrow> session list \<Rightarrow> int \<Rightarrow> nat" where
  "sessions_after key ss t = bisect (\<lambda>i. t < key (ss ! i)) 0 (length ss)"

definition daily_close :: "int \<Rightarrow> session list option \<Rightarrow> int option" where
  "daily_close now sessions = (case sessions of
      None \<Rightarrow> Some (now div DAY_SECONDS * DAY_SECONDS)
    | Some ss \<Rightarrow> (case sessions_after s_close ss now of 0 \<Rightarrow> None | Suc latest \<Rightarrow> Some (s_close (ss ! latest))))"

definition NEXT_CLOSE_FALLBACK :: int where "NEXT_CLOSE_FALLBACK = 4 * DAY_SECONDS"

definition next_close :: "int \<Rightarrow> session list option \<Rightarrow> int" where
  "next_close closed_at sessions = (case sessions of
      None \<Rightarrow> closed_at + DAY_SECONDS
    | Some ss \<Rightarrow> (let following = sessions_after s_close ss closed_at
        in if following < length ss then s_close (ss ! following) else closed_at + NEXT_CLOSE_FALLBACK))"

definition newest_minute :: "int \<Rightarrow> session list option \<Rightarrow> int" where
  "newest_minute now sessions =
     (let minute = now div 60 * 60
      in (case sessions of
           None \<Rightarrow> minute
         | Some ss \<Rightarrow> if ss = [] then minute
             else (case sessions_after s_open ss (now - 60) of
                 0 \<Rightarrow> minute | Suc latest \<Rightarrow> min minute (s_close (ss ! latest)))) - 60)"

definition bin_open :: "int \<Rightarrow> timeframe \<Rightarrow> session list option \<Rightarrow> int" where
  "bin_open ts tf sessions = (case sessions of
      None \<Rightarrow> ts div seconds tf * seconds tf
    | Some ss \<Rightarrow> (case sessions_after s_open ss ts of
        0 \<Rightarrow> ts
      | Suc i \<Rightarrow> if ts \<ge> s_close (ss ! i) then ts
          else s_open (ss ! i) + (ts - s_open (ss ! i)) div seconds tf * seconds tf))"

section \<open>Candle sets\<close>

record candle_request =
  rq_instrument :: instrument_id
  rq_timeframe :: timeframe
  rq_start :: int
  rq_end :: int

record candle_set =
  cs_instrument :: instrument_id
  cs_timeframe :: timeframe
  cs_start :: int
  cs_end :: int
  cs_source :: string
  cs_feed :: string
  cs_frame :: "candle list"
  cs_gaps :: "(int \<times> int) list"
  cs_gaps_total :: nat
  cs_fingerprint :: string

definition RESAMPLE_CHUNKS :: nat where "RESAMPLE_CHUNKS = 12"

text \<open>What \<open>assemble\<close> calls: Arrow IPC, SHA-256 and the IEEE bytes of a float.\<close>

record codec =
  co_write :: "candle list \<Rightarrow> string"
  co_read :: "string \<Rightarrow> candle list option"
  co_sha :: "string \<Rightarrow> string"
  co_ieee :: "fl \<Rightarrow> string"

text \<open>A decoded chunk: its period, its candles and until when it is complete.\<close>

type_synonym decoded = "period \<times> candle list \<times> int"

definition decode_part :: "codec \<Rightarrow> period \<times> string \<Rightarrow> decoded option" where
  "decode_part C pb = (case pb of (p, blob) \<Rightarrow> map_option (\<lambda>(ks, t). (p, ks, t)) (decode_chunk (co_read C) blob))"

definition known_until :: "int \<Rightarrow> decoded list \<Rightarrow> int" where
  "known_until as_of parts = foldl (\<lambda>a (p, _, t). if p_kind p = Live then min a t else a) as_of parts"

definition group_frame :: "timeframe \<Rightarrow> timeframe \<Rightarrow> session list option \<Rightarrow> int \<Rightarrow> int \<Rightarrow> decoded list \<Rightarrow> candle list" where
  "group_frame tf base sessions start finish parts =
     (let frame = concat (map (\<lambda>(_, ks, _). ks) parts)
      in slice_range (case sessions of
          None \<Rightarrow> frame
        | Some ss \<Rightarrow> if tf \<noteq> base
            then resample_sessions frame tf (sessions_between ss (p_start (fst (hd parts))) (p_end (fst (last parts))))
            else frame) start finish)"

text \<open>The loop over the groups: the frames and the earliest fetch time of a live chunk.\<close>

fun assemble_groups :: "codec \<Rightarrow> timeframe \<Rightarrow> timeframe \<Rightarrow> session list option \<Rightarrow> int \<Rightarrow> int \<Rightarrow> (period \<times> string) list list \<Rightarrow> int \<Rightarrow>
    (candle list \<times> int) option" where
  "assemble_groups C tf base sessions start finish [] as_of = Some ([], as_of)"
| "assemble_groups C tf base sessions start finish (g # gs) as_of = (case map_opt (decode_part C) g of
      None \<Rightarrow> None
    | Some parts \<Rightarrow> (case assemble_groups C tf base sessions start finish gs (known_until as_of parts) of
        None \<Rightarrow> None
      | Some (ks, until) \<Rightarrow> Some (group_frame tf base sessions start finish parts @ ks, until)))"

text \<open>From the joined frame on: the closed candles, the gaps and the fingerprint.\<close>

definition candle_set_of :: "codec \<Rightarrow> string \<Rightarrow> string \<Rightarrow> candle_request \<Rightarrow> session list option \<Rightarrow> candle list \<Rightarrow> int \<Rightarrow>
    string + candle_set" where
  "candle_set_of C source feed rq sessions frame as_of =
     (let tf = rq_timeframe rq; start = rq_start rq; finish = rq_end rq;
          frame = closed_only frame tf as_of sessions;
          expected = (case sessions of
              None \<Rightarrow> expected_bins_fixed start finish tf (Some as_of)
            | Some ss \<Rightarrow> expected_bins_sessions start finish tf ss (Some as_of));
          (gaps, total) = find_gaps (List.map_filter k_ts frame) expected tf sessions
      in case fingerprint (co_sha C) (co_ieee C) source feed (rq_instrument rq) tf start finish frame of
          None \<Rightarrow> Inl ''error''
        | Some print \<Rightarrow> Inr \<lparr>cs_instrument = rq_instrument rq, cs_timeframe = tf, cs_start = start, cs_end = finish,
            cs_source = source, cs_feed = feed, cs_frame = frame, cs_gaps = gaps, cs_gaps_total = total,
            cs_fingerprint = print\<rparr>)"

definition assemble :: "codec \<Rightarrow> string \<Rightarrow> string \<Rightarrow> candle_request \<Rightarrow> (period \<times> string) list \<Rightarrow> timeframe \<Rightarrow> int \<Rightarrow>
    session list option \<Rightarrow> string + candle_set" where
  "assemble C source feed rq chunks base now sessions =
     (case assemble_groups C (rq_timeframe rq) base sessions (rq_start rq) (rq_end rq) (batched RESAMPLE_CHUNKS chunks) now of
        None \<Rightarrow> Inl ''unreadable chunk''
      | Some (frame, as_of) \<Rightarrow> candle_set_of C source feed rq sessions frame as_of)"

text \<open>The specification: every chunk at once, resampled with all sessions.\<close>

definition assemble_at_once :: "codec \<Rightarrow> string \<Rightarrow> string \<Rightarrow> candle_request \<Rightarrow> decoded list \<Rightarrow> timeframe \<Rightarrow> int \<Rightarrow>
    session list option \<Rightarrow> string + candle_set" where
  "assemble_at_once C source feed rq parts base now sessions =
     (let frame = concat (map (\<lambda>(_, ks, _). ks) parts)
      in candle_set_of C source feed rq sessions
        (slice_range (case sessions of
            None \<Rightarrow> frame
          | Some ss \<Rightarrow> if rq_timeframe rq \<noteq> base then resample_sessions frame (rq_timeframe rq) ss else frame)
          (rq_start rq) (rq_end rq)) (known_until now parts))"

section \<open>Groups of chunks\<close>

text \<open>What is in a chunk: candles in order, within its period.\<close>

definition chunk_ok :: "period \<Rightarrow> candle list \<Rightarrow> bool" where
  "chunk_ok p ks \<longleftrightarrow> sorted (map k_ts ks) \<and> (\<forall>k \<in> set ks. \<exists>t. k_ts k = Some t \<and> p_start p \<le> t \<and> t < p_end p)"

text \<open>No session spans a UTC midnight: New York's trade from 13:30 or 14:30 to 20:00 or 21:00 UTC.\<close>

definition no_midnight :: "session list \<Rightarrow> bool" where
  "no_midnight ss \<longleftrightarrow> (\<forall>s \<in> set ss. \<forall>b. DAY_SECONDS dvd b \<longrightarrow> s_open s < b \<longrightarrow> s_close s \<le> b)"

text \<open>The session that holds a moment.\<close>

definition session_of :: "session list \<Rightarrow> int \<Rightarrow> session option" where
  "session_of ss t = (case session_at ss t of None \<Rightarrow> None | Some s \<Rightarrow> if t < s_close s then Some s else None)"

lemma session_of_iff: "wf_sessions ss \<Longrightarrow> session_of ss t = Some s \<longleftrightarrow> s \<in> set ss \<and> s_open s \<le> t \<and> t < s_close s"
  using session_at_in[of ss s t] session_at_Some[of ss t s]
  by (auto simp: session_of_def split: option.splits if_splits dest: session_at_Some)

lemma session_bin_of: "session_bin tf ss k = (case k_ts k of None \<Rightarrow> None
    | Some t \<Rightarrow> map_option (\<lambda>s. k\<lparr>k_ts := Some (bin_start tf s t)\<rparr>) (session_of ss t))"
  by (auto simp: session_bin_def session_of_def bin_start_def split: option.splits)

lemma session_of_between:
  assumes "wf_sessions ss" "a \<le> t" "t < b"
  shows "session_of (sessions_between ss a b) t = session_of ss t"
proof -
  have "session_of (sessions_between ss a b) t = Some s \<longleftrightarrow> session_of ss t = Some s" for s
    unfolding session_of_iff[OF assms(1)] session_of_iff[OF wf_sessions_between[OF assms(1)]]
    using assms(2,3) by (auto simp: sessions_between_overlap[OF assms(1)])
  then show ?thesis by (metis not_None_eq)
qed

text \<open>Aggregation of two lists that share no time.\<close>

lemma remdups_append_disjoint: "set xs \<inter> set ys = {} \<Longrightarrow> remdups (xs @ ys) = remdups xs @ remdups ys"
  by (induction xs) auto

lemma first_seen_append: "set xs \<inter> set ys = {} \<Longrightarrow> first_seen (xs @ ys) = first_seen xs @ first_seen ys"
  unfolding first_seen_def rev_append by (subst remdups_append_disjoint) auto

lemma aggregate_append:
  assumes "k_ts ` set xs \<inter> k_ts ` set ys = {}"
  shows "aggregate (xs @ ys) = aggregate xs @ aggregate ys"
proof -
  have seen: "first_seen (map k_ts (xs @ ys)) = first_seen (map k_ts xs) @ first_seen (map k_ts ys)"
    unfolding map_append by (rule first_seen_append) (use assms in simp)
  have "filter (\<lambda>k. k_ts k = t) ys = []" if "t \<in> k_ts ` set xs" for t using assms that by (auto simp: filter_empty_conv)
  moreover have "filter (\<lambda>k. k_ts k = t) xs = []" if "t \<in> k_ts ` set ys" for t using assms that by (auto simp: filter_empty_conv)
  ultimately show ?thesis unfolding aggregate_def seen filter_append by (simp cong: map_cong)
qed

lemma map_filter_append: "List.map_filter f (xs @ ys) = List.map_filter f xs @ List.map_filter f ys"
  by (simp add: List.map_filter_def)

text \<open>Resampling on both sides of a midnight.\<close>

lemma resample_append:
  assumes wf: "wf_sessions ss" and nm: "no_midnight ss" and b: "DAY_SECONDS dvd b"
    and sorted: "sorted (map k_ts (xs @ ys))"
    and before: "\<forall>k \<in> set xs. \<exists>t. k_ts k = Some t \<and> t < b" and after: "\<forall>k \<in> set ys. \<exists>t. k_ts k = Some t \<and> b \<le> t"
  shows "resample_sessions (xs @ ys) tf ss = resample_sessions xs tf ss @ resample_sessions ys tf ss"
proof -
  let ?bin = "session_bin tf ss"
  have low: "\<exists>n. k_ts k' = Some n \<and> n < b" if "k' \<in> set (List.map_filter ?bin xs)" for k'
  proof -
    obtain k t s where k: "k \<in> set xs" "k_ts k = Some t" "session_of ss t = Some s" "k' = k\<lparr>k_ts := Some (bin_start tf s t)\<rparr>"
      using \<open>k' \<in> _\<close> by (auto simp: in_map_filter session_bin_of split: option.splits)
    then have "bin_start tf s t \<le> t" "t < b" using bin_start_bounds(2) before session_of_iff[OF wf] by auto
    then show ?thesis using k(4) by simp
  qed
  have high: "\<exists>n. k_ts k' = Some n \<and> b \<le> n" if "k' \<in> set (List.map_filter ?bin ys)" for k'
  proof -
    obtain k t s where k: "k \<in> set ys" "k_ts k = Some t" "session_of ss t = Some s" "k' = k\<lparr>k_ts := Some (bin_start tf s t)\<rparr>"
      using \<open>k' \<in> _\<close> by (auto simp: in_map_filter session_bin_of split: option.splits)
    have t: "b \<le> t" using after k(1,2) by auto
    have s: "s \<in> set ss" "s_open s \<le> t" "t < s_close s" using k(3) session_of_iff[OF wf] by blast+
    have "\<not> s_open s < b" using nm b s(1,3) t unfolding no_midnight_def by fastforce
    then have "b \<le> bin_start tf s t" using bin_start_bounds(1)[OF s(2), of tf] by linarith
    then show ?thesis using k(4) by simp
  qed
  have disjoint: "k_ts ` set (List.map_filter ?bin xs) \<inter> k_ts ` set (List.map_filter ?bin ys) = {}"
    using low high by fastforce
  have "sort_key k_ts (xs @ ys) = xs @ ys" "sort_key k_ts xs = xs" "sort_key k_ts ys = ys"
    using sorted by (auto intro!: sort_key_id_if_sorted simp: sorted_append)
  then show ?thesis
    unfolding resample_sessions_def by (simp add: map_filter_append aggregate_append[OF disjoint])
qed

lemma resample_cong:
  assumes "\<And>k t. k \<in> set ks \<Longrightarrow> k_ts k = Some t \<Longrightarrow> session_of ss t = session_of ss' t"
  shows "resample_sessions ks tf ss = resample_sessions ks tf ss'"
proof -
  have "session_bin tf ss k = session_bin tf ss' k" if "k \<in> set ks" for k
    using assms that by (auto simp: session_bin_of split: option.split)
  then have "List.map_filter (session_bin tf ss) (sort_key k_ts ks) = List.map_filter (session_bin tf ss') (sort_key k_ts ks)"
    unfolding List.map_filter_def by (auto intro!: map_cong filter_cong)
  then show ?thesis by (simp add: resample_sessions_def)
qed

section \<open>Chunks in a row\<close>

lemma tiles_append_iff: "tiles a c (ps @ qs) \<longleftrightarrow> (\<exists>b. tiles a b ps \<and> tiles b c qs)"
  by (induction ps arbitrary: a) auto

lemma tiles_bounds: "tiles a b ps \<Longrightarrow> a \<le> b \<and> (\<forall>p \<in> set ps. a \<le> p_start p \<and> p_start p \<le> p_end p \<and> p_end p \<le> b)"
proof (induction ps arbitrary: a)
  case (Cons p ps)
  then have "tiles (p_end p) b ps" "p_start p = a" "a \<le> p_end p" by auto
  with Cons.IH[of "p_end p"] show ?case by (auto intro: order_trans)
qed simp

lemma tiles_ends: "tiles a b ps \<Longrightarrow> ps \<noteq> [] \<Longrightarrow> p_start (hd ps) = a \<and> p_end (last ps) = b"
  by (induction ps arbitrary: a) auto

definition frames_of :: "decoded list \<Rightarrow> candle list" where
  "frames_of parts = concat (map (\<lambda>(_, ks, _). ks) parts)"

definition parts_ok :: "int \<Rightarrow> int \<Rightarrow> decoded list \<Rightarrow> bool" where
  "parts_ok a b parts \<longleftrightarrow> tiles a b (map fst parts) \<and> (\<forall>(p, ks, _) \<in> set parts. chunk_ok p ks)"

lemma parts_append: "parts_ok a c (xs @ ys) \<longleftrightarrow> (\<exists>b. parts_ok a b xs \<and> parts_ok b c ys)"
  by (auto simp: parts_ok_def tiles_append_iff)

lemma frames_append [simp]: "frames_of (xs @ ys) = frames_of xs @ frames_of ys"
  by (simp add: frames_of_def)

lemma parts_times:
  assumes "parts_ok a b parts" "k \<in> set (frames_of parts)"
  shows "\<exists>t. k_ts k = Some t \<and> a \<le> t \<and> t < b"
proof -
  obtain p ks u where p: "(p, ks, u) \<in> set parts" "k \<in> set ks" using assms(2) by (auto simp: frames_of_def)
  then have "chunk_ok p ks" "a \<le> p_start p \<and> p_end p \<le> b" using assms(1) tiles_bounds[of a b "map fst parts"]
    by (force simp: parts_ok_def)+
  then show ?thesis using p(2) unfolding chunk_ok_def by fastforce
qed

lemma parts_sorted: "parts_ok a b parts \<Longrightarrow> sorted (map k_ts (frames_of parts))"
proof (induction parts arbitrary: a)
  case Nil
  then show ?case by (simp add: frames_of_def)
next
  case (Cons part parts)
  obtain p ks u where part: "part = (p, ks, u)" by (metis prod_cases3)
  have rest: "parts_ok (p_end p) b parts" and ok: "chunk_ok p ks" using Cons.prems part by (auto simp: parts_ok_def)
  have "k_ts x \<le> k_ts y" if "x \<in> set ks" "y \<in> set (frames_of parts)" for x y
    using parts_times[OF rest that(2)] ok that(1) unfolding chunk_ok_def by fastforce
  moreover have "sorted (map k_ts ks)" using ok by (simp add: chunk_ok_def)
  moreover have "frames_of (part # parts) = ks @ frames_of parts" by (simp add: frames_of_def part)
  ultimately show ?case using Cons.IH[OF rest] by (auto simp: sorted_append)
qed

section \<open>Group by group\<close>

definition midnights :: "period list \<Rightarrow> bool" where
  "midnights ps \<longleftrightarrow> (\<forall>xs p q ys. ps = xs @ p # q # ys \<longrightarrow> DAY_SECONDS dvd p_end p)"

lemma midnights_append: "midnights (ps @ qs) \<Longrightarrow> midnights qs"
proof -
  assume m: "midnights (ps @ qs)"
  show ?thesis unfolding midnights_def
  proof (intro allI impI)
    fix xs p q ys assume "qs = xs @ p # q # ys"
    then have "ps @ qs = (ps @ xs) @ p # q # ys" by simp
    then show "DAY_SECONDS dvd p_end p" using m unfolding midnights_def by blast
  qed
qed

lemma resample_empty [simp]: "resample_sessions [] tf ss = []"
  by (simp add: resample_sessions_def aggregate_def map_filter_simps first_seen_def)

lemma groups_resample:
  assumes wf: "wf_sessions ss" and nm: "no_midnight ss"
  shows "parts_ok a b (concat groups) \<Longrightarrow> [] \<notin> set groups \<Longrightarrow> midnights (map fst (concat groups)) \<Longrightarrow>
    concat (map (\<lambda>g. resample_sessions (frames_of g) tf
      (sessions_between ss (p_start (fst (hd g))) (p_end (fst (last g))))) groups) =
    resample_sessions (frames_of (concat groups)) tf ss"
proof (induction groups arbitrary: a)
  case Nil
  then show ?case by (simp add: frames_of_def)
next
  case (Cons g gs)
  obtain m where g: "parts_ok a m g" and gs: "parts_ok m b (concat gs)" using Cons.prems(1) by (auto simp: parts_append)
  have ne: "g \<noteq> []" using Cons.prems(2) by auto
  have ends: "p_start (fst (hd g)) = a" "p_end (fst (last g)) = m"
    using tiles_ends[of a m "map fst g"] g ne by (auto simp: parts_ok_def hd_map last_map)
  have "session_of (sessions_between ss a m) t = session_of ss t" if "k \<in> set (frames_of g)" "k_ts k = Some t" for k t
    using parts_times[OF g that(1)] that(2) by (intro session_of_between[OF wf]) auto
  then have group: "resample_sessions (frames_of g) tf (sessions_between ss a m) = resample_sessions (frames_of g) tf ss"
    by (rule resample_cong)
  have "midnights (map fst (concat gs))" using Cons.prems(3) midnights_append by simp
  then have IH: "concat (map (\<lambda>g. resample_sessions (frames_of g) tf
      (sessions_between ss (p_start (fst (hd g))) (p_end (fst (last g))))) gs) = resample_sessions (frames_of (concat gs)) tf ss"
    using Cons.IH[OF gs] Cons.prems(2) by simp
  have joined: "resample_sessions (frames_of g) tf ss @ resample_sessions (frames_of (concat gs)) tf ss =
      resample_sessions (frames_of (g @ concat gs)) tf ss"
  proof (cases "concat gs = []")
    case True
    have "frames_of [] = []" by (simp add: frames_of_def)
    then show ?thesis unfolding True by simp
  next
    case False
    then obtain q qs where q: "concat gs = q # qs" by (cases "concat gs") auto
    have "map fst (concat (g # gs)) = map fst (butlast g) @ fst (last g) # fst q # map fst qs"
    proof -
      have "map fst (butlast g @ [last g]) = map fst (butlast g) @ [fst (last g)]" by simp
      then have "map fst g = map fst (butlast g) @ [fst (last g)]" using ne by simp
      then show ?thesis using q by simp
    qed
    then have day: "DAY_SECONDS dvd m" using Cons.prems(3) ends(2) unfolding midnights_def by metis
    have "sorted (map k_ts (frames_of g @ frames_of (concat gs)))" using parts_sorted[OF Cons.prems(1)] by simp
    from resample_append[OF wf nm day this] show ?thesis using parts_times[OF g] parts_times[OF gs] by fastforce
  qed
  show ?case using IH group joined ends by simp
qed

text \<open>Decoding all chunks, and decoding them group by group.\<close>

lemma map_opt_append: "map_opt f (xs @ ys) = Some zs \<longleftrightarrow> (\<exists>as bs. map_opt f xs = Some as \<and> map_opt f ys = Some bs \<and> zs = as @ bs)"
proof (induction xs arbitrary: zs)
  case Nil
  then show ?case by auto
next
  case (Cons x xs)
  then show ?case by (auto split: option.split)
qed

lemma known_until_append: "known_until t (xs @ ys) = known_until (known_until t xs) ys"
  by (simp add: known_until_def)

lemma map_opt_fst: "map_opt (decode_part C) chunks = Some parts \<Longrightarrow> map fst parts = map fst chunks"
  by (induction chunks arbitrary: parts) (auto simp: decode_part_def split: option.splits prod.splits)

lemma assemble_groups_decoded:
  "map_opt (decode_part C) (concat gs) = Some parts \<Longrightarrow> [] \<notin> set gs \<Longrightarrow>
   \<exists>groups. concat groups = parts \<and> [] \<notin> set groups \<and>
     assemble_groups C tf base sessions start finish gs as_of =
       Some (concat (map (group_frame tf base sessions start finish) groups), known_until as_of parts)"
proof (induction gs arbitrary: parts as_of)
  case Nil
  then show ?case by (intro exI[of _ "[]"]) (simp add: known_until_def)
next
  case (Cons g gs)
  from Cons.prems(1) obtain xs ys where parts: "map_opt (decode_part C) g = Some xs" "map_opt (decode_part C) (concat gs) = Some ys"
      "parts = xs @ ys" by (auto simp: map_opt_append)
  from Cons.IH[OF parts(2), of "known_until as_of xs"] Cons.prems(2) obtain groups where groups: "concat groups = ys" "[] \<notin> set groups"
      "assemble_groups C tf base sessions start finish gs (known_until as_of xs) =
         Some (concat (map (group_frame tf base sessions start finish) groups), known_until (known_until as_of xs) ys)" by auto
  have "xs \<noteq> []" using map_opt_fst[OF parts(1)] Cons.prems(2) by auto
  then show ?case using parts groups by (intro exI[of _ "xs # groups"]) (simp add: known_until_append)
qed

lemma slice_concat: "slice_range (concat kss) start finish = concat (map (\<lambda>ks. slice_range ks start finish) kss)"
  by (simp add: slice_range_def filter_concat)

text \<open>A source whose chunks are assembled: grouped or at once, the same candle set.\<close>

locale assembled_source = chunk_source
begin

lemma assemble_refines:
  assumes "map fst chunks = periods base (rq_start rq) (rq_end rq) now" "rq_start rq < rq_end rq"
    "map_opt (decode_part C) chunks = Some parts" "\<forall>(p, ks, t) \<in> set parts. chunk_ok p ks"
    "\<forall>ss. sessions = Some ss \<longrightarrow> wf_sessions ss \<and> no_midnight ss"
  shows "assemble C source feed rq chunks base now sessions = assemble_at_once C source feed rq parts base now sessions"
proof -
  let ?tf = "rq_timeframe rq" and ?start = "rq_start rq" and ?finish = "rq_end rq"
  have n: "0 < RESAMPLE_CHUNKS" by (simp add: RESAMPLE_CHUNKS_def)
  have "[] \<notin> set (batched RESAMPLE_CHUNKS chunks)" using batched_concat(2) by blast
  then obtain groups where groups: "concat groups = parts" "[] \<notin> set groups"
      "assemble_groups C ?tf base sessions ?start ?finish (batched RESAMPLE_CHUNKS chunks) now =
         Some (concat (map (group_frame ?tf base sessions ?start ?finish) groups), known_until now parts)"
    using assemble_groups_decoded[of C "batched RESAMPLE_CHUNKS chunks" parts] assms(3) batched_concat(1)[OF n] by metis
  have fst: "map fst parts = periods base ?start ?finish now" using map_opt_fst[OF assms(3)] assms(1) by simp
  obtain a b where "tiles a b (map fst parts)" using covers[OF assms(2)] fst by metis
  then have ok: "parts_ok a b (concat groups)" using assms(4) groups(1) by (simp add: parts_ok_def)
  have mid: "midnights (map fst (concat groups))" unfolding midnights_def groups(1) fst using inner_end by blast
  have "concat (map (group_frame ?tf base sessions ?start ?finish) groups) =
      slice_range (case sessions of
            None \<Rightarrow> frames_of parts
          | Some ss \<Rightarrow> if ?tf \<noteq> base then resample_sessions (frames_of parts) ?tf ss else frames_of parts) ?start ?finish"
  proof -
    have plain: "concat (map (\<lambda>g. slice_range (frames_of g) ?start ?finish) groups) = slice_range (frames_of parts) ?start ?finish"
      unfolding groups(1)[symmetric] by (induction groups) (simp_all add: frames_of_def slice_range_def)
    show ?thesis
    proof (cases sessions)
      case None
      then show ?thesis using plain by (simp add: group_frame_def frames_of_def cong: map_cong)
    next
      case (Some ss)
      show ?thesis
      proof (cases "?tf = base")
        case True
        then show ?thesis using plain Some by (simp add: group_frame_def frames_of_def cong: map_cong)
      next
        case False
        have wf: "wf_sessions ss" "no_midnight ss" using assms(5) Some by blast+
        have "slice_range (resample_sessions (frames_of (concat groups)) ?tf ss) ?start ?finish =
            concat (map (\<lambda>ks. slice_range ks ?start ?finish) (map (\<lambda>g. resample_sessions (frames_of g) ?tf
              (sessions_between ss (p_start (fst (hd g))) (p_end (fst (last g))))) groups))"
          unfolding groups_resample[OF wf ok groups(2) mid, symmetric] slice_concat ..
        also have "\<dots> = concat (map (group_frame ?tf base sessions ?start ?finish) groups)"
          using Some False by (simp add: group_frame_def[abs_def] frames_of_def comp_def Let_def)
        finally show ?thesis using Some False groups(1) by simp
      qed
    qed
  qed
  then show ?thesis
    unfolding assemble_def groups(3) assemble_at_once_def Let_def frames_of_def[symmetric] by simp
qed

end

end
