(* ===== verification/DataService.thy ===== *)
theory DataService
  imports DataAssemble DataAlpaca DataBinance
begin

text \<open>
  \<open>DataService\<close> of \<open>data/service.py\<close>: checks of a candles request, its chunks from the cache or the
  source, the last candles before a moment, the search and the instrument. The service is a record of
  its collaborators; its methods are effects on their world. The theorems: a window of the last
  candles always holds as many as it should, and the candle set of a stock request is what the chunks'
  candles resampled at once give.
\<close>

section \<open>The service\<close>

record 'w service =
  sv_source :: "market \<Rightarrow> 'w data_source"
  sv_cached :: "'w caching"
  sv_catalog :: "market option \<Rightarrow> ('w, catalog) io"
  sv_missing :: "market option \<Rightarrow> 'w \<Rightarrow> market list"
  sv_table :: "('w, stats_row list) io"
  sv_sparks :: "instrument list \<Rightarrow> ('w, spark option list) io"
  sv_first :: "instrument \<Rightarrow> ('w, int option) io"
  sv_known :: "instrument list \<Rightarrow> ('w, int option list) io"
  sv_refresh_stats :: "market \<Rightarrow> ('w, (string \<times> instrument_stats) source_stats) io \<Rightarrow> ('w, unit) io"
  sv_refresh_sparks :: "market \<Rightarrow> (string list option \<Rightarrow> ('w, spark_row source_stats) io) \<Rightarrow> int \<Rightarrow> int \<Rightarrow> ('w, unit) io"
  sv_time :: "'w \<Rightarrow> real"
  sv_candles_max :: int
  sv_codec :: codec
  sv_health_dumps :: "source_health \<Rightarrow> string"
  sv_health_loads :: "string \<Rightarrow> source_health option"

text \<open>The sources in the order of the mapping.\<close>

definition MARKETS :: "market list" where "MARKETS = [Crypto, Stock]"

definition HEALTH_TTL :: int where "HEALTH_TTL = 60"

definition sv_clock :: "'w service \<Rightarrow> 'w \<Rightarrow> int" where
  "sv_clock S w = \<lfloor>sv_time S w\<rfloor>"

section \<open>Checks\<close>

text \<open>\<open>_Lookup\<close>: what a request needs to know before it is checked.\<close>

record 'w lookup_info =
  lk_instrument :: instrument
  lk_source :: "'w data_source"
  lk_timeframe :: timeframe
  lk_now :: int
  lk_sessions :: "session list option"
  lk_from :: "int option"

definition lookup_out_of_range :: "'w lookup_info \<Rightarrow> int option \<Rightarrow> int \<Rightarrow> data_error" where
  "lookup_out_of_range l start finish = period_out_of_range (show_id (in_id (lk_instrument l))) (lk_timeframe l) (lk_from l) (lk_now l)
     start (Some finish)"

definition find_instrument :: "'w service \<Rightarrow> instrument_id \<Rightarrow> ('w, instrument) io" where
  "find_instrument S i = io_bind (sv_catalog S (Some (i_market i))) (\<lambda>c. case catalog_get c i of
      None \<Rightarrow> io_fault (InstrumentNotFound (show_id i)) | Some x \<Rightarrow> io_return x)"

definition lookup_request :: "'w service \<Rightarrow> instrument_id \<Rightarrow> timeframe \<Rightarrow> ('w, 'w lookup_info) io" where
  "lookup_request S i tf = io_bind (find_instrument S i) (\<lambda>x w.
     let src = sv_source S (i_market i); now = sv_clock S w
     in io_bind (src_sessions src) (\<lambda>ss. io_bind (sv_first S x) (\<lambda>first.
          io_return \<lparr>lk_instrument = x, lk_source = src, lk_timeframe = tf, lk_now = now, lk_sessions = ss,
            lk_from = map_option (\<lambda>t. bin_open t tf ss) first\<rparr>)) w)"

section \<open>Chunks\<close>

definition fetch_chunk :: "'w service \<Rightarrow> 'w data_source \<Rightarrow> string \<Rightarrow> timeframe \<Rightarrow> period \<Rightarrow> ('w, string \<times> int) io" where
  "fetch_chunk S src symbol tf p = io_bind (src_fetch_period src symbol tf p) (\<lambda>ks.
     case encode_chunk (co_write (sv_codec S)) ks (p_end p) of
       None \<Rightarrow> io_raise (Crash ''struct.error'') | Some blob \<Rightarrow> io_return (blob, p_ttl p))"

definition chunk_name :: "instrument \<Rightarrow> timeframe \<Rightarrow> period \<Rightarrow> string" where
  "chunk_name x tf p = ''candles:'' @ show_id (in_id x) @ '':'' @ timeframe_name tf @ '':'' @ p_label p"

definition get_chunks :: "'w service \<Rightarrow> 'w data_source \<Rightarrow> instrument \<Rightarrow> timeframe \<Rightarrow> period list \<Rightarrow> (string \<Rightarrow> string option) \<Rightarrow>
    ('w, string list) io" where
  "get_chunks S src x tf periods known = io_each (\<lambda>p. case known (p_label p) of
      Some blob \<Rightarrow> io_return blob
    | None \<Rightarrow> sv_cached S (chunk_name x tf p) (fetch_chunk S src (in_symbol x) tf p)) periods"

definition load_candles :: "'w service \<Rightarrow> 'w lookup_info \<Rightarrow> int \<Rightarrow> int \<Rightarrow> (string \<Rightarrow> string option) \<Rightarrow> ('w, candle_set) io" where
  "load_candles S l start finish known =
     (let src = lk_source l; base = src_base_timeframe src (lk_timeframe l);
          periods = (case lk_from l of None \<Rightarrow> [] | Some _ \<Rightarrow> src_periods src base start finish (lk_now l))
      in io_bind (get_chunks S src (lk_instrument l) base periods known) (\<lambda>blobs.
         case assemble (sv_codec S) (src_name src) (src_feed src)
             \<lparr>rq_instrument = in_id (lk_instrument l), rq_timeframe = lk_timeframe l, rq_start = start, rq_end = finish\<rparr>
             (zip periods blobs) base (lk_now l) (lk_sessions l) of
           Inl e \<Rightarrow> io_raise (Crash e) | Inr cs \<Rightarrow> io_return cs))"

section \<open>Candles\<close>

text \<open>\<open>candles\<close>. The hint of \<open>TooManyCandles\<close> is \<open>suggest\<close> of DataCandles.\<close>

definition service_candles :: "'w service \<Rightarrow> instrument_id \<Rightarrow> timeframe \<Rightarrow> int \<Rightarrow> int \<Rightarrow> ('w, candle_set) io" where
  "service_candles S i tf start finish =
     (if start \<ge> finish
      then io_fault (InvalidRequest (''start ('' @ show_int start @ '') must be before end ('' @ show_int finish @ '').''))
      else io_bind (lookup_request S i tf) (\<lambda>l.
        if finish > lk_now l \<or> (case lk_from l of None \<Rightarrow> False | Some f \<Rightarrow> start < f)
        then io_fault (lookup_out_of_range l (Some start) finish)
        else (let requested = candle_count start finish tf (lk_sessions l)
              in if requested > sv_candles_max S then io_fault (TooManyCandles requested (sv_candles_max S))
                 else load_candles S l start finish Map.empty)))"

text \<open>\<open>_live_chunk\<close>: the live chunk by its label.\<close>

definition live_chunk :: "'w service \<Rightarrow> 'w lookup_info \<Rightarrow> int \<Rightarrow> ('w, (string \<times> string) list) io" where
  "live_chunk S l finish =
     (let src = lk_source l; base = src_base_timeframe src (lk_timeframe l);
          live = filter (\<lambda>p. p_kind p = Live) (src_periods src base (finish - 1) finish (lk_now l))
      in io_bind (get_chunks S src (lk_instrument l) base live Map.empty) (\<lambda>blobs. io_return (zip (map p_label live) blobs)))"

text \<open>\<open>_window\<close>: \<open>Inl\<close> is the \<open>RuntimeError\<close> of a window of the wrong size.\<close>

definition window_start :: "'w lookup_info \<Rightarrow> int \<Rightarrow> nat \<Rightarrow> int \<Rightarrow> raised + int" where
  "window_start l finish n as_of =
     (case first_of_last finish as_of (lk_timeframe l) n (lk_sessions l) (lk_from l) of
        None \<Rightarrow> Inr finish
      | Some start \<Rightarrow>
          if candle_count start (min finish as_of) (lk_timeframe l) (lk_sessions l) > int n + 1
          then Inl (Crash ''RuntimeError'') else Inr start)"

definition service_last_candles :: "'w service \<Rightarrow> instrument_id \<Rightarrow> timeframe \<Rightarrow> int \<Rightarrow> nat \<Rightarrow> ('w, candle_set) io" where
  "service_last_candles S i tf finish limit = io_bind (lookup_request S i tf) (\<lambda>l.
     if finish > lk_now l \<or> (case lk_from l of None \<Rightarrow> False | Some f \<Rightarrow> finish \<le> f)
     then io_fault (lookup_out_of_range l None finish)
     else if int limit > sv_candles_max S then io_fault (TooManyCandles (int limit) (sv_candles_max S))
     else (case lk_from l of
         None \<Rightarrow> load_candles S l finish finish Map.empty
       | Some _ \<Rightarrow> io_bind (live_chunk S l finish) (\<lambda>known.
           case map_opt (\<lambda>(_, blob). decode_fetched_at blob) known of
             None \<Rightarrow> io_raise (Crash ''struct.error'')
           | Some fetched \<Rightarrow> (case window_start l finish limit (foldl min (lk_now l) fetched) of
               Inl e \<Rightarrow> io_raise e
             | Inr start \<Rightarrow> load_candles S l start finish (map_of (rev known))))))"

section \<open>Search, instrument, health\<close>

definition empty_search :: search_result where
  "empty_search = \<lparr>se_items = [], se_unavailable = [], se_total = 0, se_stats = [], se_sparks = [], se_firsts = []\<rparr>"

definition service_search :: "'w service \<Rightarrow> string option \<Rightarrow> market option \<Rightarrow> int \<Rightarrow> nat \<Rightarrow> exchange option \<Rightarrow> instrument_sort \<Rightarrow>
    ('w, search_result) io" where
  "service_search S q m limit offset e order =
     (if (case q of None \<Rightarrow> False | Some t \<Rightarrow> normalise_query t = []) then io_return empty_search
      else if (case (e, m) of (Some x, Some y) \<Rightarrow> y \<noteq> exchange_market x | _ \<Rightarrow> False) then io_return empty_search
      else (let m = (case e of None \<Rightarrow> m | Some x \<Rightarrow> Some (exchange_market x))
            in io_bind (sv_catalog S m) (\<lambda>c w.
                 let unavailable = sv_missing S m w
                 in io_bind (sv_table S) (\<lambda>stats.
                    let found = catalog_page_of c q m limit offset e order (Some stats)
                    in io_bind (sv_sparks S (cp_items found)) (\<lambda>sparks.
                       io_bind (sv_known S (cp_items found)) (\<lambda>firsts.
                         io_return \<lparr>se_items = cp_items found, se_unavailable = unavailable, se_total = cp_total found,
                           se_stats = cp_stats found, se_sparks = sparks, se_firsts = firsts\<rparr>))) w)))"

definition service_instrument :: "'w service \<Rightarrow> instrument_id \<Rightarrow> ('w, instrument_info) io" where
  "service_instrument S i = io_bind (find_instrument S i) (\<lambda>x. io_bind (src_sessions (sv_source S (i_market i))) (\<lambda>ss.
     io_bind (\<lambda>w. case sv_first S x w of
         (Inl (DataFault (SourceUnavailable s d a r)), w') \<Rightarrow> (Inr None, w')
       | r \<Rightarrow> r)
       (\<lambda>first w. (Inr \<lparr>ii_instrument = x, ii_timeframes = timeframes, ii_available_from = first,
          ii_available_to = newest_minute (sv_clock S w) ss, ii_max_candles = sv_candles_max S\<rparr>, w))))"

definition source_health_of :: "'w service \<Rightarrow> 'w data_source \<Rightarrow> ('w, source_health) io" where
  "source_health_of S src = io_bind (sv_cached S (''health:'' @ src_name src)
       (io_bind (src_health src) (\<lambda>h. io_return (sv_health_dumps S h, HEALTH_TTL))))
     (\<lambda>blob. case sv_health_loads S blob of None \<Rightarrow> io_raise (Crash ''JSONDecodeError'') | Some h \<Rightarrow> io_return h)"

definition sources_health :: "'w service \<Rightarrow> ('w, (string \<times> source_health) list) io" where
  "sources_health S = io_each (\<lambda>m. io_bind (source_health_of S (sv_source S m)) (\<lambda>h.
     io_return (src_name (sv_source S m), h))) MARKETS"

section \<open>The background\<close>

text \<open>\<open>except Exception\<close>: logged.\<close>

definition io_logged :: "('w, unit) io \<Rightarrow> ('w, unit) io" where
  "io_logged f w = (Inr (), snd (f w))"

definition fetch_stats :: "'w service \<Rightarrow> market \<Rightarrow> ('w, (string \<times> instrument_stats) source_stats) io" where
  "fetch_stats S m = io_bind (sv_catalog S (Some m)) (\<lambda>c. src_stats (sv_source S m) (catalog_instruments c m))"

definition refresh_market :: "'w service \<Rightarrow> market \<Rightarrow> ('w, unit) io" where
  "refresh_market S m = io_logged (sv_refresh_stats S m (fetch_stats S m))"

definition refresh_stats :: "'w service \<Rightarrow> ('w, unit list) io" where
  "refresh_stats S = io_each (refresh_market S) MARKETS"

definition fetch_daily :: "'w service \<Rightarrow> market \<Rightarrow> int \<Rightarrow> string list option \<Rightarrow> ('w, spark_row source_stats) io" where
  "fetch_daily S m closed_at only = io_bind (sv_catalog S (Some m)) (\<lambda>c.
     src_daily_candles (sv_source S m) (case only of None \<Rightarrow> catalog_instruments c m
       | Some symbols \<Rightarrow> filter (\<lambda>x. in_symbol x \<in> set symbols) (catalog_instruments c m)) closed_at)"

definition refresh_daily :: "'w service \<Rightarrow> market \<Rightarrow> ('w, unit) io" where
  "refresh_daily S m = io_logged (io_bind (src_sessions (sv_source S m)) (\<lambda>ss w.
     case daily_close (sv_clock S w - SETTLE_SECONDS) ss of
       None \<Rightarrow> (Inr (), w)
     | Some closed_at \<Rightarrow> sv_refresh_sparks S m (fetch_daily S m closed_at) closed_at (next_close closed_at ss) w))"

definition refresh_daily_candles :: "'w service \<Rightarrow> ('w, unit list) io" where
  "refresh_daily_candles S = io_each (refresh_daily S) MARKETS"

section \<open>Windows\<close>

lemma bins_disjoint:
  assumes "sessions_ok sessions" "is_bin sessions tf x cx" "is_bin sessions tf y cy" "x < y"
  shows "cx \<le> y"
proof (cases sessions)
  case None
  then have "seconds tf dvd y - x" "cx = x + seconds tf" using assms(2,3) by (auto simp: is_bin_def)
  then show ?thesis using assms(4) zdvd_imp_le[of "seconds tf" "y - x"] by simp
next
  case (Some ss)
  then have wf: "wf_sessions ss" using assms(1) by simp
  obtain s where s: "s \<in> set ss" "s_open s \<le> x" "x < s_close s" "seconds tf dvd x - s_open s" "cx = min (x + seconds tf) (s_close s)"
    using assms(2) Some by (auto simp: is_bin_def)
  obtain t where t: "t \<in> set ss" "s_open t \<le> y" "y < s_close t" "seconds tf dvd y - s_open t"
    using assms(3) Some by (auto simp: is_bin_def)
  show ?thesis
  proof (cases "s = t")
    case True
    then have "seconds tf dvd (y - s_open t) - (x - s_open t)" using dvd_diff[OF t(4)] s(4) by blast
    then have "seconds tf dvd y - x" by simp
    then show ?thesis using assms(4) s(5) zdvd_imp_le[of "seconds tf" "y - x"] by simp
  next
    case False
    have "s_close s \<le> s_open t \<or> s_close t \<le> s_open s"
    proof -
      obtain i j where ij: "i < length ss" "ss ! i = s" "j < length ss" "ss ! j = t" using s(1) t(1) by (auto simp: in_set_conv_nth)
      have "i < j \<or> j < i" using False ij by (metis nat_neq_iff)
      then show ?thesis using wf_sessions_nth(1)[OF wf, of i j] wf_sessions_nth(1)[OF wf, of j i] ij by auto
    qed
    then show ?thesis using s t assms(4) by auto
  qed
qed

text \<open>The bins from a bin on.\<close>

lemma bins_from:
  assumes "sorted_wrt (<) (xs :: int list)" "i < length xs"
  shows "filter (\<lambda>x. xs ! i \<le> x) xs = drop i xs"
proof -
  have "filter (\<lambda>x. xs ! i \<le> x) (take i xs) = []"
    using assms by (auto simp: filter_empty_conv in_set_conv_nth sorted_wrt_iff_nth_less not_le)
  moreover have "filter (\<lambda>x. xs ! i \<le> x) (drop i xs) = drop i xs"
  proof -
    have "xs ! i \<le> xs ! (i + j)" if "j < length xs - i" for j using sorted_wrt_nth_mono[OF assms(1), of i "i + j"] that by simp
    then show ?thesis by (auto simp: filter_id_conv in_set_conv_nth)
  qed
  ultimately have "filter (\<lambda>x. xs ! i \<le> x) (take i xs @ drop i xs) = drop i xs" by (simp only: filter_append append_Nil)
  then show ?thesis by simp
qed

lemma expected_bins_later:
  assumes "sessions_ok sessions" "low \<le> start"
  shows "expected_bins sessions start finish tf now = filter (\<lambda>x. start \<le> x) (expected_bins sessions low finish tf now)"
proof -
  have "sorted_wrt (<) (expected_bins sessions start finish tf now)" by (rule expected_bins_sorted[OF assms(1)])
  moreover have "sorted_wrt (<) (filter (\<lambda>x. start \<le> x) (expected_bins sessions low finish tf now))"
    by (rule sorted_wrt_filter[OF expected_bins_sorted[OF assms(1)]])
  moreover have "set (expected_bins sessions start finish tf now) = set (filter (\<lambda>x. start \<le> x) (expected_bins sessions low finish tf now))"
    using assms(2) by (auto simp: expected_bins_set[OF assms(1)])
  ultimately show ?thesis by (metis strict_sorted_equal)
qed

text \<open>Besides the bins closed by a moment, at most one has opened before it.\<close>

lemma candle_count_open_bin:
  assumes ok: "sessions_ok sessions"
  shows "candle_count start (min finish as_of) tf sessions \<le> int (length (expected_bins sessions start finish tf (Some as_of))) + 1"
proof -
  let ?all = "set (expected_bins sessions start (min finish as_of) tf None)"
  let ?closed = "set (expected_bins sessions start finish tf (Some as_of))"
  let ?open = "{x \<in> ?all. \<exists>c. is_bin sessions tf x c \<and> as_of < c}"
  have "x = y" if "x \<in> ?open" "y \<in> ?open" for x y
  proof (rule ccontr)
    assume "x \<noteq> y"
    moreover have "x < as_of" "y < as_of" using that by (auto simp: expected_bins_set[OF ok])
    ultimately show False using that bins_disjoint[OF ok, of tf x _ y _] bins_disjoint[OF ok, of tf y _ x _]
      by (auto simp: neq_iff) (meson leD order_trans less_imp_le not_less_iff_gr_or_eq)+
  qed
  then have "card ?open \<le> 1" by (auto simp: card_le_Suc0_iff_eq)
  moreover have "?all \<subseteq> ?closed \<union> ?open"
  proof
    fix x assume x: "x \<in> ?all"
    then obtain c where "is_bin sessions tf x c" "start \<le> x" "x < finish" by (auto simp: expected_bins_set[OF ok])
    then show "x \<in> ?closed \<union> ?open" using x by (cases "c \<le> as_of") (auto simp: expected_bins_set[OF ok] not_le)
  qed
  ultimately have "card ?all \<le> card ?closed + 1"
    using card_mono[of "?closed \<union> ?open" ?all] card_Un_le[of ?closed ?open] by simp
  moreover have "distinct (expected_bins sessions a b tf n)" for a b n
    using expected_bins_sorted[OF ok] by (simp add: strict_sorted_iff)
  ultimately show ?thesis using length_expected_bins[OF ok, of start "min finish as_of" tf] by (simp add: distinct_card)
qed

definition aligned_from :: "'w lookup_info \<Rightarrow> bool" where
  "aligned_from l \<longleftrightarrow> (\<exists>f. lk_from l = Some f \<and> (lk_sessions l = None \<longrightarrow> seconds (lk_timeframe l) dvd f))"

text \<open>A window of the last candles never ends in the \<open>RuntimeError\<close> of a wrong size: it starts at the
  end when no candle closed, else at a bin from which on exactly as many candles opened before the end
  and closed by then as were asked for (all there are, when they are fewer), and at most one is open.\<close>

theorem window_holds_last:
  assumes "sessions_ok (lk_sessions l)" "aligned_from l" "0 < n"
  shows "\<exists>start. window_start l finish n as_of = Inr start \<and>
    (let closed = (\<lambda>a. expected_bins (lk_sessions l) a finish (lk_timeframe l) (Some as_of)); known = closed (the (lk_from l))
     in if known = [] then start = finish
        else start \<in> set known \<and> length (closed start) = min n (length known) \<and>
          candle_count start (min finish as_of) (lk_timeframe l) (lk_sessions l) \<le> int n + 1)"
proof -
  let ?ss = "lk_sessions l" and ?tf = "lk_timeframe l"
  obtain f where f: "lk_from l = Some f" "?ss = None \<longrightarrow> seconds ?tf dvd f" using assms(2) by (auto simp: aligned_from_def)
  let ?known = "expected_bins ?ss f finish ?tf (Some as_of)"
  have first: "first_of_last finish as_of ?tf n ?ss (lk_from l) = last_of n ?known"
    using first_of_last_last_of[OF assms(1,3), where lower = "Some f" and tf = ?tf and finish = finish and now = as_of] f
    by (auto split: option.splits)
  show ?thesis
  proof (cases "?known = []")
    case True
    then have "window_start l finish n as_of = Inr finish" using first by (simp add: window_start_def last_of_def)
    then show ?thesis using True f(1) by simp
  next
    case False
    define i where "i = length ?known - min n (length ?known)"
    have i: "i < length ?known" using False assms(3) by (auto simp: i_def)
    let ?start = "?known ! i"
    have start: "?start \<in> set ?known" using i by simp
    then have "f \<le> ?start" by (simp add: expected_bins_set[OF assms(1)])
    then have "expected_bins ?ss ?start finish ?tf (Some as_of) = drop i ?known"
      using expected_bins_later[OF assms(1)] bins_from[OF expected_bins_sorted[OF assms(1)] i] by simp
    then have len: "length (expected_bins ?ss ?start finish ?tf (Some as_of)) = min n (length ?known)" by (simp add: i_def)
    then have few: "candle_count ?start (min finish as_of) ?tf ?ss \<le> int n + 1"
      using candle_count_open_bin[OF assms(1), of ?start finish as_of ?tf] by linarith
    have "window_start l finish n as_of = Inr ?start" using first False few by (simp add: window_start_def last_of_def i_def)
    then show ?thesis using False start len few f(1) by simp
  qed
qed

section \<open>The chunks of a stock request\<close>

text \<open>What a source returns for a period is in order and within it.\<close>

lemma slice_within: "k \<in> set (slice_range ks a b) \<Longrightarrow> \<exists>t. k_ts k = Some t \<and> a \<le> t \<and> t < b"
  by (auto simp: slice_range_def split: option.splits)

lemma regular_chunk_ok:
  assumes "regular_candles H detail ny_date bars tf p ss = Inr ks"
  shows "chunk_ok p ks"
proof -
  obtain frame where ks: "ks = closed_only (slice_range frame (p_start p) (p_end p)) tf (p_end p) (Some ss)"
    using assms by (auto simp: regular_candles_def Let_def split: sum.splits)
  have "sorted (map k_ts ks)" unfolding ks closed_only_def option.case by (rule sorted_filter) (rule sorted_sort_key)
  moreover have "set ks \<subseteq> set (slice_range frame (p_start p) (p_end p))" unfolding ks by (auto simp: closed_only_def)
  ultimately show ?thesis unfolding chunk_ok_def using slice_within by blast
qed

lemma clean_chunk_ok:
  assumes "clean_candles H detail raw tf p = Inr ks"
  shows "chunk_ok p ks"
proof -
  have ks: "ks = slice_range (tidy raw) (p_start p) (p_end p)"
    using assms by (auto simp: clean_candles_def Let_def split: sum.splits)
  have "sorted (map k_ts ks)"
    unfolding ks slice_range_def tidy_def by (rule sorted_filter) (rule sorted_sort_key)
  then show ?thesis unfolding chunk_ok_def using slice_within ks by blast
qed

text \<open>A chunk from the cache: the bytes of what the source returned for the period, or for one that began
  with it and ended earlier (the live chunk of a minute ago), which Arrow reads back.\<close>

definition cached_from :: "codec \<Rightarrow> (period \<Rightarrow> candle list \<Rightarrow> bool) \<Rightarrow> period \<times> string \<Rightarrow> bool" where
  "cached_from C fetched pb \<longleftrightarrow> (\<exists>q ks. p_start q = p_start (fst pb) \<and> p_end q \<le> p_end (fst pb) \<and> fetched q ks \<and>
     co_read C (co_write C ks) = Some ks \<and> encode_chunk (co_write C) ks (p_end q) = Some (snd pb))"

lemma cached_decodes:
  assumes "\<forall>pb \<in> set chunks. cached_from C fetched pb" "\<And>q ks. fetched q ks \<Longrightarrow> chunk_ok q ks"
  shows "\<exists>parts. map_opt (decode_part C) chunks = Some parts \<and> (\<forall>(p, ks, t) \<in> set parts. chunk_ok p ks)"
  using assms(1)
proof (induction chunks)
  case (Cons pb chunks)
  obtain parts where parts: "map_opt (decode_part C) chunks = Some parts" "\<forall>(p, ks, t) \<in> set parts. chunk_ok p ks"
    using Cons by auto
  obtain p blob where pb: "pb = (p, blob)" by fastforce
  obtain q ks where q: "p_start q = p_start p" "p_end q \<le> p_end p" "fetched q ks" "co_read C (co_write C ks) = Some ks"
      "encode_chunk (co_write C) ks (p_end q) = Some blob"
    using Cons.prems pb by (auto simp: cached_from_def)
  have "decode_chunk (co_read C) blob = Some (ks, p_end q)" using decode_encode[of "co_read C" "co_write C", OF q(4,5)] by blast
  then have "decode_part C pb = Some (p, ks, p_end q)" by (simp add: decode_part_def pb)
  moreover have "chunk_ok p ks" using assms(2)[OF q(3)] q(1,2) unfolding chunk_ok_def by fastforce
  ultimately show ?case using parts by auto
qed simp

interpretation al_sets: assembled_source al_periods SIP_DELAY
  by unfold_locales

interpretation bn_sets: assembled_source bn_periods 0
  by unfold_locales

lemma crypto_sets_refine:
  assumes "rq_start rq < rq_end rq"
    and "map fst chunks = bn_periods (rq_timeframe rq) (rq_start rq) (rq_end rq) now"
    and "\<forall>pb \<in> set chunks. cached_from C (\<lambda>q ks. \<exists>raw. clean_candles H detail raw (rq_timeframe rq) q = Inr ks) pb"
  shows "\<exists>parts. map_opt (decode_part C) chunks = Some parts \<and>
    assemble C BN_NAME ''spot'' rq chunks (rq_timeframe rq) now None = assemble_at_once C BN_NAME ''spot'' rq parts (rq_timeframe rq) now None"
proof -
  obtain parts where "map_opt (decode_part C) chunks = Some parts" "\<forall>(p, ks, t) \<in> set parts. chunk_ok p ks"
    using cached_decodes[OF assms(3)] clean_chunk_ok by blast
  then show ?thesis using bn_sets.assemble_refines[OF assms(2,1), of C parts None BN_NAME "''spot''"] by blast
qed

text \<open>C25: the candle set of a stock request refines its specification: the chunks Alpaca's plan names, read
  from the cache and resampled twelve at a time with the sessions of each group, give the candles, gaps
  and fingerprint that all their candles resampled at once with the whole calendar give.\<close>

theorem stock_sets_refine:
  assumes "wf_sessions ss" "no_midnight ss" "rq_start rq < rq_end rq"
    and "map fst chunks = al_periods base (rq_start rq) (rq_end rq) now"
    and "\<forall>pb \<in> set chunks. cached_from C (\<lambda>q ks. \<exists>bars. regular_candles H detail ny_date bars base q ss = Inr ks) pb"
  shows "\<exists>parts. map_opt (decode_part C) chunks = Some parts \<and>
    assemble C AL_NAME ''sip'' rq chunks base now (Some ss) = assemble_at_once C AL_NAME ''sip'' rq parts base now (Some ss)"
proof -
  obtain parts where "map_opt (decode_part C) chunks = Some parts" "\<forall>(p, ks, t) \<in> set parts. chunk_ok p ks"
    using cached_decodes[OF assms(5)] regular_chunk_ok by blast
  moreover from al_sets.assemble_refines[OF assms(4,3) this] assms(1,2)
  have "assemble C AL_NAME ''sip'' rq chunks base now (Some ss) = assemble_at_once C AL_NAME ''sip'' rq parts base now (Some ss)"
    by blast
  ultimately show ?thesis by blast
qed

text \<open>Two minutes of a session in the live chunk, asked for as an hour.\<close>

definition example_session :: session where
  "example_session = \<lparr>s_date = 20000, s_open = 1728048600, s_close = 1728072000\<rparr>"

definition example_minutes :: "candle list" where
  "example_minutes = [real_candle 1728048600 1 2 1 2 5, real_candle 1728048660 2 3 1 1 6]"

definition example_live :: period where
  "example_live = \<lparr>p_kind = Live, p_start = 1728000000, p_end = 1728060000, p_label = ''2024-10-04-live'', p_ttl = 60\<rparr>"

definition example_codec :: codec where
  "example_codec = \<lparr>co_write = (\<lambda>_. []), co_read = (\<lambda>_. Some example_minutes), co_sha = id, co_ieee = (\<lambda>_. [])\<rparr>"

lemma example_plan: "al_periods M1 1728048600 1728055800 1728060900 = [example_live]"
  by code_simp

lemma example_regular: "regular_candles example_horizontal (\<lambda>_. []) id example_minutes M1 example_live [example_session] = Inr example_minutes"
proof -
  let ?a = "real_candle 1728048600 1 2 1 2 5" and ?b = "real_candle 1728048660 2 3 1 1 6"
  have valid: "valid_candles example_minutes None"
    by (simp add: valid_candles_def candle_time_def good_candle_def real_candle_def example_minutes_def)
  have order: "sort_key k_ts example_minutes = example_minutes" by (rule valid_sorted[OF valid])
  have tidy: "tidy example_minutes = example_minutes" unfolding tidy_def using order by (simp add: example_minutes_def)
  have at: "session_at [example_session] t = (if 1728048600 \<le> t then Some example_session else None)" for t
    by (simp add: session_at_def example_session_def)
  have bins: "List.map_filter (session_bin M1 [example_session]) example_minutes = example_minutes"
    by (simp add: example_minutes_def map_filter_simps session_bin_def at) (simp add: example_session_def real_candle_def seconds_def)
  have seen: "first_seen (map k_ts example_minutes) = map k_ts example_minutes"
    by (simp add: example_minutes_def first_seen_def)
  have bars: "bar_of (Some t) [real_candle t p h l c v] = real_candle t p h l c v" for t p h l c v
    by (simp add: bar_of_def agg_extreme_def agg_sum_def present_def fl_add_def real_candle_def)
  have resampled: "resample_sessions (tidy example_minutes) M1 [example_session] = example_minutes"
    unfolding resample_sessions_def tidy order bins aggregate_def seen by (simp add: example_minutes_def bars)
  have slice: "slice_range example_minutes 1728000000 1728060000 = example_minutes"
    by (simp add: slice_range_def example_minutes_def)
  have closed: "closed_only example_minutes M1 1728060000 (Some [example_session]) = example_minutes"
    unfolding closed_only_def option.case order by (simp add: example_minutes_def at seconds_def) (simp add: example_session_def)
  have "validate example_horizontal example_minutes None = Inr ()" 
    using valid by (subst valid_candles_iff[OF example_horizontal_ok])
      (simp_all add: in_span_def candle_time_def example_minutes_def)
  then show ?thesis unfolding regular_candles_def Let_def using resampled slice closed by (simp add: example_live_def)
qed

theorem stock_sets_refine_witness:
  "al_periods M1 1728048600 1728055800 1728060900 = [example_live] \<and>
   (\<exists>parts. map_opt (decode_part example_codec) [(example_live, int64_bytes 1728060000)] = Some parts \<and>
     assemble example_codec AL_NAME ''sip'' \<lparr>rq_instrument = \<lparr>i_market = Stock, i_symbol = ''A''\<rparr>, rq_timeframe = H1,
         rq_start = 1728048600, rq_end = 1728055800\<rparr> [(example_live, int64_bytes 1728060000)] M1 1728060900 (Some [example_session]) =
     assemble_at_once example_codec AL_NAME ''sip'' \<lparr>rq_instrument = \<lparr>i_market = Stock, i_symbol = ''A''\<rparr>, rq_timeframe = H1,
         rq_start = 1728048600, rq_end = 1728055800\<rparr> parts M1 1728060900 (Some [example_session]))"
proof
  have wf: "wf_sessions [example_session]" by (simp add: wf_sessions_def example_session_def)
  have nm: "no_midnight [example_session]"
  proof -
    have "1728072000 \<le> b" if "DAY_SECONDS dvd b" "1728048600 < b" for b
    proof -
      obtain k where "b = 86400 * k" using \<open>DAY_SECONDS dvd b\<close> by (auto simp: DAY_SECONDS_def)
      moreover from this have "20000 < k" using that(2) by linarith
      ultimately show ?thesis by linarith
    qed
    then show ?thesis by (simp add: no_midnight_def example_session_def)
  qed
  let ?rq = "\<lparr>rq_instrument = \<lparr>i_market = Stock, i_symbol = ''A''\<rparr>, rq_timeframe = H1, rq_start = 1728048600, rq_end = 1728055800\<rparr>"
  have cached: "cached_from example_codec (\<lambda>q ks. \<exists>bars. regular_candles example_horizontal (\<lambda>_. []) id bars M1 q [example_session] = Inr ks)
      (example_live, int64_bytes 1728060000)"
    unfolding cached_from_def
    by (intro exI[of _ example_live] exI[of _ example_minutes])
      (use example_regular in \<open>auto simp: example_codec_def encode_chunk_def example_live_def\<close>)
  show "\<exists>parts. map_opt (decode_part example_codec) [(example_live, int64_bytes 1728060000)] = Some parts \<and>
     assemble example_codec AL_NAME ''sip'' ?rq [(example_live, int64_bytes 1728060000)] M1 1728060900 (Some [example_session]) =
     assemble_at_once example_codec AL_NAME ''sip'' ?rq parts M1 1728060900 (Some [example_session])"
    by (rule stock_sets_refine[OF wf nm, where H = example_horizontal and detail = "\<lambda>_. []" and ny_date = id]) (use cached example_plan in simp_all)
qed (rule example_plan)

theorem window_holds_last_witness:
  "\<forall>x src. \<exists>start. window_start \<lparr>lk_instrument = x, lk_source = src, lk_timeframe = H1, lk_now = 90000, lk_sessions = None, lk_from = Some 0\<rparr>
     86400 3 90000 = Inr start \<and> candle_count start 86400 H1 None \<le> 4 \<and> length (expected_bins None start 86400 H1 (Some 90000)) = 3"
proof (intro allI)
  fix x :: instrument and src :: "'a data_source"
  let ?l = "\<lparr>lk_instrument = x, lk_source = src, lk_timeframe = H1, lk_now = 90000, lk_sessions = None, lk_from = Some 0\<rparr>"
  have "length (expected_bins None 0 86400 H1 (Some 90000)) = 24" by code_simp
  moreover from this have "expected_bins None 0 86400 H1 (Some 90000) \<noteq> []" by auto
  moreover have "aligned_from ?l" by (simp add: aligned_from_def)
  ultimately show "\<exists>start. window_start ?l 86400 3 90000 = Inr start \<and> candle_count start 86400 H1 None \<le> 4 \<and>
      length (expected_bins None start 86400 H1 (Some 90000)) = 3"
    using window_holds_last[of ?l 3 86400 90000] by (auto simp: Let_def)
qed

end
