(* ===== verification/DataStats.thy ===== *)
theory DataStats
  imports DataCache DataSource DataCatalog "HOL-Library.AList"
begin

text \<open>
  \<open>data/stats_store.py\<close>: a frame per market that a background refresh replaces and searches only read
  (\<open>MarketFrames\<close>), and the 24 h stats kept that way (\<open>StatsStore\<close>). The state of a store is a record that
  a subclass extends; \<open>_changed\<close> and the order of \<open>_merged\<close>, which subclasses override, are fields of
  \<open>keeping\<close>. An effect works on the store's state and the world. The theorems: a table of the stats is
  the table of the frames the store has, with no row older than two hours, as long as no frame
  changes while one is built; and one that is adopted just then is missed.
\<close>

section \<open>The cache as the stores use it\<close>

record 's cache_use =
  cu_get :: "string \<Rightarrow> 's \<Rightarrow> string option \<times> 's"
  cu_get_many :: "string list \<Rightarrow> 's \<Rightarrow> string option list \<times> 's"
  cu_head :: "string \<Rightarrow> int \<Rightarrow> 's \<Rightarrow> string option \<times> 's"
  cu_set :: "string \<Rightarrow> string \<Rightarrow> int \<Rightarrow> 's \<Rightarrow> 's"
  cu_delete :: "string \<Rightarrow> 's \<Rightarrow> 's"
  cu_lock :: "string \<Rightarrow> int \<Rightarrow> 's \<Rightarrow> string option \<times> 's"
  cu_extend :: "string \<Rightarrow> string \<Rightarrow> int \<Rightarrow> 's \<Rightarrow> bool \<times> 's"
  cu_unlock :: "string \<Rightarrow> string \<Rightarrow> 's \<Rightarrow> 's"
  cu_available :: "'s \<Rightarrow> bool"
  cu_fetch :: "'s caching"

text \<open>The methods of DataCache, with the token a lock gets and \<open>get_or_fetch\<close>.\<close>

definition cache_of :: "'w redis \<Rightarrow> (real \<times> 'w \<Rightarrow> string) \<Rightarrow> (real \<times> 'w) caching \<Rightarrow> (real \<times> 'w) cache_use" where
  "cache_of R token fetch = \<lparr>cu_get = cache_get R, cu_get_many = cache_get_many R, cu_head = cache_head R,
     cu_set = cache_set R, cu_delete = cache_delete R, cu_lock = (\<lambda>name ms s. cache_lock R (token s) name ms s),
     cu_extend = cache_extend R, cu_unlock = cache_unlock R, cu_available = cache_available R, cu_fetch = fetch\<rparr>"

section \<open>MarketFrames\<close>

definition REFRESH_SECONDS :: "market \<Rightarrow> int" where
  "REFRESH_SECONDS m = (case m of Crypto \<Rightarrow> 300 | Stock \<Rightarrow> 600)"

definition STATS_KEEP_SECONDS :: int where "STATS_KEEP_SECONDS = 2 * 3600"
definition RELOAD_SECONDS :: real where "RELOAD_SECONDS = 60"
definition LOCK_MS :: int where "LOCK_MS = 120000"
definition RENEW_SECONDS :: real where "RENEW_SECONDS = 40"

text \<open>\<open>Entry\<close>: when the frame was fetched, and its rows, each with when it was fetched. The dictionary of
  the entries is a list in its order.\<close>

type_synonym 'r stored = "'r \<times> int"

record 'r frame_entry =
  en_at :: int
  en_rows :: "'r stored list"

record 'r frames =
  fr_entries :: "(market \<times> 'r frame_entry) list"
  fr_reload_at :: "market \<Rightarrow> real"

record ('s, 'r, 'm) keeping =
  kp_cache :: "'s cache_use"
  kp_kind :: string
  kp_markets :: "market list"
  kp_keep :: int
  kp_time :: "'s \<Rightarrow> real"
  kp_monotonic :: "'s \<Rightarrow> real"
  kp_read :: "string \<Rightarrow> 'r stored list option"
  kp_write :: "'r stored list \<Rightarrow> string"
  kp_symbol :: "'r \<Rightarrow> string"
  kp_order :: "'r stored list \<Rightarrow> 'r stored list"
  kp_changed :: "market \<Rightarrow> ('r, 'm) frames_scheme \<Rightarrow> ('r, 'm) frames_scheme"

definition stored_name :: "('s, 'r, 'm) keeping \<Rightarrow> market \<Rightarrow> string" where
  "stored_name K m = kp_kind K @ '':'' @ market_name m"

definition adopt :: "('s, 'r, 'm) keeping \<Rightarrow> market \<Rightarrow> 'r frame_entry \<Rightarrow> ('r, 'm) frames_scheme \<Rightarrow> ('r, 'm) frames_scheme" where
  "adopt K m e st = kp_changed K m (st\<lparr>fr_entries := AList.update m e (fr_entries st)\<rparr>)"

text \<open>\<open>_reload\<close>: what \<open>kp_read\<close> cannot read (no Arrow, other columns) is dropped.\<close>

definition reload :: "('s, 'r, 'm) keeping \<Rightarrow> market \<Rightarrow> ('r, 'm) frames_scheme \<times> 's \<Rightarrow> ('r, 'm) frames_scheme \<times> 's" where
  "reload K m = (\<lambda>(st, s).
     let C = kp_cache K; name = stored_name K m
     in (case cu_head C name (int HEADER_SIZE) s of
          (None, s) \<Rightarrow> (st, s)
        | (Some head, s) \<Rightarrow> (case decode_fetched_at head of
            None \<Rightarrow> (st, cu_delete C name s)
          | Some fetched_at \<Rightarrow>
              if (case map_of (fr_entries st) m of None \<Rightarrow> False | Some e \<Rightarrow> fetched_at \<le> en_at e) then (st, s)
              else if kp_time K s - of_int fetched_at \<ge> of_int (kp_keep K) then (st, s)
              else (case cu_get C name s of
                  (None, s) \<Rightarrow> (st, s)
                | (Some blob, s) \<Rightarrow> (case decode_chunk (kp_read K) blob of
                    None \<Rightarrow> (st, cu_delete C name s)
                  | Some (rows, t) \<Rightarrow> (adopt K m \<lparr>en_at = t, en_rows = rows\<rparr> st, s))))))"

definition due :: "('s, 'r, 'm) keeping \<Rightarrow> market \<Rightarrow> (int \<Rightarrow> bool) \<Rightarrow> ('r, 'm) frames_scheme \<times> 's \<Rightarrow> bool \<times> ('r, 'm) frames_scheme \<times> 's" where
  "due K m stale x = (case reload K m x of (st, s) \<Rightarrow>
     ((case map_of (fr_entries st) m of None \<Rightarrow> True | Some e \<Rightarrow> stale (en_at e)), st, s))"

definition forget_old :: "('s, 'r, 'm) keeping \<Rightarrow> real \<Rightarrow> ('r, 'm) frames_scheme \<Rightarrow> ('r, 'm) frames_scheme" where
  "forget_old K now st = foldl (\<lambda>st (m, e). if now - of_int (en_at e) \<ge> of_int (kp_keep K)
       then kp_changed K m (st\<lparr>fr_entries := AList.delete m (fr_entries st)\<rparr>) else st) st (fr_entries st)"

text \<open>\<open>_current\<close>: the entries are those of the state it leaves.\<close>

fun reload_due :: "('s, 'r, 'm) keeping \<Rightarrow> market list \<Rightarrow> ('r, 'm) frames_scheme \<times> 's \<Rightarrow> ('r, 'm) frames_scheme \<times> 's" where
  "reload_due K [] x = x"
| "reload_due K (m # ms) (st, s) = reload_due K ms
     (if kp_monotonic K s \<ge> fr_reload_at st m
      then reload K m (st\<lparr>fr_reload_at := (fr_reload_at st)(m := kp_monotonic K s + RELOAD_SECONDS)\<rparr>, s)
      else (st, s))"

definition current :: "('s, 'r, 'm) keeping \<Rightarrow> ('r, 'm) frames_scheme \<times> 's \<Rightarrow> ('r, 'm) frames_scheme \<times> 's" where
  "current K x = (case reload_due K (kp_markets K) x of (st, s) \<Rightarrow> (forget_old K (kp_time K s) st, s))"

text \<open>\<open>_merged\<close>: \<open>found\<close> is the rows a source reports and the symbols it could not ask for.\<close>

definition carries :: "string list \<Rightarrow> string list option \<Rightarrow> string \<Rightarrow> bool" where
  "carries failed only symbol = (case only of None \<Rightarrow> symbol \<in> set failed
     | Some asked \<Rightarrow> symbol \<notin> set asked - set failed)"

definition merged :: "('s, 'r, 'm) keeping \<Rightarrow> 'r source_stats \<Rightarrow> 'r frame_entry option \<Rightarrow> int \<Rightarrow> int \<Rightarrow> string list option \<Rightarrow> 'r stored list" where
  "merged K found old started now only =
     (let frame = map (\<lambda>r. (r, started)) (fst found)
      in kp_order K (case old of
           None \<Rightarrow> frame
         | Some e \<Rightarrow> if only = None \<and> snd found = [] then frame
             else frame @ filter (\<lambda>(r, t). carries (snd found) only (kp_symbol K r) \<and> t > now - kp_keep K) (en_rows e)))"

text \<open>\<open>_refresh\<close>: whether it went well, and what the fetch gave (the closure of a subclass keeps it). The
  fetch works on the state as well: it includes what other tasks do while it runs.\<close>

definition fetched_frame :: "('s, 'r, 'm) keeping \<Rightarrow> market \<Rightarrow> string \<Rightarrow> int \<Rightarrow> string list option \<Rightarrow> 'r source_stats \<Rightarrow>
    (('r, 'm) frames_scheme \<times> 's, bool \<times> 'r source_stats option) io" where
  "fetched_frame K m token started only found = (\<lambda>(st, s).
     let C = kp_cache K; name = stored_name K m;
         rows = merged K found (map_of (fr_entries st) m) started \<lfloor>kp_time K s\<rfloor> only
     in (case encode_chunk (kp_write K) rows started of
          None \<Rightarrow> (Inl (Crash ''struct.error''), (st, cu_unlock C name token s))
        | Some blob \<Rightarrow>
            (let s = cu_unlock C name token (cu_set C name blob (max 1 (kp_keep K - (\<lfloor>kp_time K s\<rfloor> - started))) s)
             in (Inr (True, Some found), (adopt K m \<lparr>en_at = started, en_rows = rows\<rparr> st, s)))))"

definition refresh_frame :: "('s, 'r, 'm) keeping \<Rightarrow> market \<Rightarrow> (('r, 'm) frames_scheme \<times> 's, 'r source_stats) io \<Rightarrow> (int \<Rightarrow> bool) \<Rightarrow>
    string list option \<Rightarrow> (('r, 'm) frames_scheme \<times> 's, bool \<times> 'r source_stats option) io" where
  "refresh_frame K m fetch stale only = (\<lambda>(st, s).
     let C = kp_cache K; name = stored_name K m; started = \<lfloor>kp_time K s\<rfloor>
     in (case due K m stale (st, s) of
          (False, x) \<Rightarrow> (Inr (True, None), x)
        | (True, st, s) \<Rightarrow> (case cu_lock C name LOCK_MS s of
            (None, s) \<Rightarrow> (Inr (True, None), (st, s))
          | (Some token, s) \<Rightarrow> (case due K m stale (st, s) of
              (False, st, s) \<Rightarrow> (Inr (True, None), (st, cu_unlock C name token s))
            | (True, x) \<Rightarrow> (case fetch x of
                (Inl (DataFault _), st, s) \<Rightarrow> (Inr (False, None), (st, cu_unlock C name token s))
              | (Inl (Crash c), st, s) \<Rightarrow> (Inl (Crash c), (st, cu_unlock C name token s))
              | (Inr found, x) \<Rightarrow> fetched_frame K m token started only found x)))))"

text \<open>\<open>_renewing\<close>: the task that renews the lock while the fetch runs. \<open>wait\<close> waits for the end of the
  fetch at most so long, and says whether it ended.\<close>

fun renew :: "'s cache_use \<Rightarrow> (real \<Rightarrow> 's \<Rightarrow> bool \<times> 's) \<Rightarrow> string \<Rightarrow> string \<Rightarrow> nat \<Rightarrow> 's \<Rightarrow> 's" where
  "renew C wait name token 0 s = s"
| "renew C wait name token (Suc n) s = (case wait RENEW_SECONDS s of
      (True, s) \<Rightarrow> s
    | (False, s) \<Rightarrow> (case cu_extend C name token LOCK_MS s of
        (True, s) \<Rightarrow> renew C wait name token n s | (False, s) \<Rightarrow> s))"

section \<open>StatsStore\<close>

text \<open>The table is kept until its oldest row expires (\<open>None\<close>: it has no rows).\<close>

record 'r stats_state = "'r frames" +
  ss_table :: "(market \<times> 'r) list option"
  ss_until :: "real option"

definition stats_changed :: "market \<Rightarrow> 'r stats_state \<Rightarrow> 'r stats_state" where
  "stats_changed m st = st\<lparr>ss_table := None\<rparr>"

definition stats_init :: "'r stats_state" where
  "stats_init = \<lparr>fr_entries = [], fr_reload_at = (\<lambda>_. 0), ss_table = None, ss_until = Some 0\<rparr>"

definition table_rows :: "(market \<times> 'r frame_entry) list \<Rightarrow> real \<Rightarrow> (market \<times> 'r stored) list" where
  "table_rows entries now = concat (map (\<lambda>(m, e).
     map (Pair m) (filter (\<lambda>(_, t). of_int t > now - of_int STATS_KEEP_SECONDS) (en_rows e))) entries)"

definition stats_table_of :: "(market \<times> 'r frame_entry) list \<Rightarrow> real \<Rightarrow> (market \<times> 'r) list \<times> real option" where
  "stats_table_of entries now =
     (let found = table_rows entries now; times = map (\<lambda>(_, _, t). t) found
      in (map (\<lambda>(m, r, _). (m, r)) found,
          if times = [] then None else Some (of_int (Min (set times) + STATS_KEEP_SECONDS))))"

type_synonym ('s, 'r) stats_keeping = "('s, 'r, ('r, unit) stats_state_ext) keeping"

text \<open>\<open>table\<close> up to its thread, which builds a table of the entries it is given, and from there on.\<close>

definition table_kept :: "'r stats_state \<Rightarrow> real \<Rightarrow> (market \<times> 'r) list option" where
  "table_kept st now = (case ss_table st of None \<Rightarrow> None
     | Some rows \<Rightarrow> if (case ss_until st of None \<Rightarrow> False | Some t \<Rightarrow> now \<ge> t) then None else Some rows)"

definition table_built :: "(market \<times> 'r) list \<times> real option \<Rightarrow> 'r stats_state \<Rightarrow> 'r stats_state" where
  "table_built t st = st\<lparr>ss_table := Some (fst t), ss_until := snd t\<rparr>"

definition stats_table :: "('s, 'r) stats_keeping \<Rightarrow> 'r stats_state \<times> 's \<Rightarrow> (market \<times> 'r) list \<times> 'r stats_state \<times> 's" where
  "stats_table K x = (case current K x of (st, s) \<Rightarrow> (case table_kept st (kp_time K s) of
      Some rows \<Rightarrow> (rows, st, s)
    | None \<Rightarrow> (let t = stats_table_of (fr_entries st) (kp_time K s) in (fst t, table_built t st, s))))"

definition stats_refresh :: "('s, 'r) stats_keeping \<Rightarrow> market \<Rightarrow> ('r stats_state \<times> 's, 'r source_stats) io \<Rightarrow> ('r stats_state \<times> 's, unit) io" where
  "stats_refresh K m fetch = (\<lambda>(st, s). let started = \<lfloor>kp_time K s\<rfloor>
     in io_bind (refresh_frame K m fetch (\<lambda>t. started - t \<ge> REFRESH_SECONDS m) None) (\<lambda>_. io_return ()) (st, s))"

section \<open>What every operation keeps\<close>

text \<open>The wall clock does not go back while the cache works.\<close>

definition time_passes :: "'s cache_use \<Rightarrow> ('s \<Rightarrow> real) \<Rightarrow> bool" where
  "time_passes C time =
     ((\<forall>name s. time s \<le> time (snd (cu_get C name s))) \<and> (\<forall>name n s. time s \<le> time (snd (cu_head C name n s))) \<and>
      (\<forall>name v ttl s. time s \<le> time (cu_set C name v ttl s)) \<and> (\<forall>name s. time s \<le> time (cu_delete C name s)) \<and>
      (\<forall>name ms s. time s \<le> time (snd (cu_lock C name ms s))) \<and> (\<forall>name token s. time s \<le> time (cu_unlock C name token s)))"

lemma time_passesD:
  assumes "time_passes C time"
  shows "cu_get C name s = (v, s') \<Longrightarrow> time s \<le> time s'" "cu_head C name n s = (v, s') \<Longrightarrow> time s \<le> time s'"
    "time s \<le> time (cu_set C name b ttl s)" "time s \<le> time (cu_delete C name s)"
    "cu_lock C name ms s = (tok, s') \<Longrightarrow> time s \<le> time s'" "time s \<le> time (cu_unlock C name token s)"
  using assms unfolding time_passes_def by (metis snd_conv)+

definition store_holds :: "(('r, 'm) frames_scheme \<Rightarrow> real \<Rightarrow> bool) \<Rightarrow> ('s, 'r, 'm) keeping \<Rightarrow> ('r, 'm) frames_scheme \<times> 's \<Rightarrow> bool" where
  "store_holds kept K x = kept (fst x) (kp_time K (snd x))"

definition store_uses :: "(market \<Rightarrow> ('r, 'm) frames_scheme \<Rightarrow> ('r, 'm) frames_scheme) \<Rightarrow> ('s, 'r, 'm) keeping \<Rightarrow> bool" where
  "store_uses changed K = (kp_changed K = changed \<and> time_passes (kp_cache K) (kp_time K))"

text \<open>A property of a store's state that \<open>_changed\<close> restores after any change of the entries, and that
  does not end with time, is kept by every operation of the store, whatever the cache answers.\<close>

locale frames_store =
  fixes changed :: "market \<Rightarrow> ('r, 'm) frames_scheme \<Rightarrow> ('r, 'm) frames_scheme"
    and kept :: "('r, 'm) frames_scheme \<Rightarrow> real \<Rightarrow> bool"
  assumes later: "kept st t \<Longrightarrow> t \<le> t' \<Longrightarrow> kept st t'"
    and updated: "kept st t \<Longrightarrow> kept (changed m (st\<lparr>fr_entries := AList.update m e (fr_entries st)\<rparr>)) t"
    and dropped: "kept st t \<Longrightarrow> kept (changed m (st\<lparr>fr_entries := AList.delete m (fr_entries st)\<rparr>)) t"
    and reloading: "kept st t \<Longrightarrow> kept (st\<lparr>fr_reload_at := f\<rparr>) t"
begin

lemma adopt_kept: "store_uses changed K \<Longrightarrow> kept st t \<Longrightarrow> kept (adopt K m e st) t"
  by (simp add: adopt_def store_uses_def updated)

lemma holds_pair [simp]: "store_holds kept K (st, s) = kept st (kp_time K s)"
  by (simp add: store_holds_def)

lemma passes:
  assumes "store_uses changed K" "kept st (kp_time K s)"
  shows "cu_get (kp_cache K) name s = (v, s') \<Longrightarrow> kept st (kp_time K s')" "cu_head (kp_cache K) name n s = (v, s') \<Longrightarrow> kept st (kp_time K s')"
    "kept st (kp_time K (cu_set (kp_cache K) name b ttl s))" "kept st (kp_time K (cu_delete (kp_cache K) name s))"
    "cu_lock (kp_cache K) name ms s = (tok, s') \<Longrightarrow> kept st (kp_time K s')" "kept st (kp_time K (cu_unlock (kp_cache K) name token s))"
proof -
  have tp: "time_passes (kp_cache K) (kp_time K)" using assms(1) by (simp add: store_uses_def)
  note l = later[OF assms(2)]
  show "cu_get (kp_cache K) name s = (v, s') \<Longrightarrow> kept st (kp_time K s')" using l time_passesD(1)[OF tp] by blast
  show "cu_head (kp_cache K) name n s = (v, s') \<Longrightarrow> kept st (kp_time K s')" using l time_passesD(2)[OF tp] by blast
  show "kept st (kp_time K (cu_set (kp_cache K) name b ttl s))" by (rule l[OF time_passesD(3)[OF tp]])
  show "kept st (kp_time K (cu_delete (kp_cache K) name s))" by (rule l[OF time_passesD(4)[OF tp]])
  show "cu_lock (kp_cache K) name ms s = (tok, s') \<Longrightarrow> kept st (kp_time K s')" using l time_passesD(5)[OF tp] by blast
  show "kept st (kp_time K (cu_unlock (kp_cache K) name token s))" by (rule l[OF time_passesD(6)[OF tp]])
qed

lemma reload_holds:
  assumes "store_uses changed K" "store_holds kept K x"
  shows "store_holds kept K (reload K m x)"
proof (cases x)
  case (Pair st s)
  then have now: "kept st (kp_time K s)" using assms(2) by simp
  obtain head s1 where h: "cu_head (kp_cache K) (stored_name K m) (int HEADER_SIZE) s = (head, s1)" by (meson surj_pair)
  have k1: "kept st (kp_time K s1)" using passes(2)[OF assms(1) now h] .
  obtain blob s2 where g: "cu_get (kp_cache K) (stored_name K m) s1 = (blob, s2)" by (meson surj_pair)
  have k2: "kept st (kp_time K s2)" using passes(1)[OF assms(1) k1 g] .
  show ?thesis unfolding Pair
    using k1 k2 passes(4)[OF assms(1) k1] passes(4)[OF assms(1) k2] adopt_kept[OF assms(1) k2]
    by (auto simp: reload_def Let_def h g split: option.splits)
qed

lemma due_holds: "store_uses changed K \<Longrightarrow> store_holds kept K x \<Longrightarrow> due K m stale x = (d, x') \<Longrightarrow> store_holds kept K x'"
  by (cases "reload K m x") (use reload_holds[of K x m] in \<open>simp add: due_def\<close>)

lemma forget_old_kept: "store_uses changed K \<Longrightarrow> kept st t \<Longrightarrow> kept (forget_old K now st) t"
proof -
  assume u: "store_uses changed K"
  have "kept st t \<Longrightarrow> kept (foldl (\<lambda>st (m, e). if now - of_int (en_at e) \<ge> of_int (kp_keep K)
       then kp_changed K m (st\<lparr>fr_entries := AList.delete m (fr_entries st)\<rparr>) else st) st es) t" for es :: "(market \<times> 'r frame_entry) list" and st
    by (induction es arbitrary: st) (use u dropped in \<open>auto simp: store_uses_def\<close>)
  then show "kept st t \<Longrightarrow> kept (forget_old K now st) t" by (simp add: forget_old_def)
qed

lemma reload_due_holds: "store_uses changed K \<Longrightarrow> store_holds kept K x \<Longrightarrow> store_holds kept K (reload_due K ms x)"
proof (induction ms arbitrary: x)
  case (Cons m ms)
  then show ?case
    by (cases x) (auto intro!: Cons.IH reload_holds reloading)
qed simp

lemma current_holds: "store_uses changed K \<Longrightarrow> store_holds kept K x \<Longrightarrow> store_holds kept K (current K x)"
  by (cases "reload_due K (kp_markets K) x") (use reload_due_holds[of K x "kp_markets K"] in \<open>simp add: current_def forget_old_kept\<close>)

lemma fetched_holds:
  assumes "store_uses changed K" "store_holds kept K x" "fetched_frame K m token started only found x = (r, x')"
  shows "store_holds kept K x'"
proof (cases x)
  case (Pair st s)
  then have now: "kept st (kp_time K s)" using assms(2) by simp
  show ?thesis using assms(3) unfolding Pair
    by (auto simp: fetched_frame_def Let_def split: option.splits
        intro!: adopt_kept[OF assms(1)] passes(3,6)[OF assms(1)] now)
qed

text \<open>A refresh keeps it when the fetch does, with what other tasks do meanwhile.\<close>

lemma refresh_holds:
  assumes "store_uses changed K" "store_holds kept K x" "\<And>y. store_holds kept K y \<Longrightarrow> store_holds kept K (snd (fetch y))" "refresh_frame K m fetch stale only x = (r, x')"
  shows "store_holds kept K x'"
proof -
  obtain st s where x: "x = (st, s)" by (cases x)
  obtain d1 y1 where d1: "due K m stale x = (d1, y1)" by (meson surj_pair)
  note h1 = due_holds[OF assms(1,2) d1]
  obtain tok s2 where l: "cu_lock (kp_cache K) (stored_name K m) LOCK_MS (snd y1) = (tok, s2)" by (meson surj_pair)
  have h2: "store_holds kept K (fst y1, s2)" using passes(5)[OF assms(1) _ l] h1 by (simp add: store_holds_def)
  obtain d2 y2 where d2: "due K m stale (fst y1, s2) = (d2, y2)" by (meson surj_pair)
  note h3 = due_holds[OF assms(1) h2 d2]
  obtain f y3 where f: "fetch y2 = (f, y3)" by (meson surj_pair)
  have h4: "store_holds kept K y3" using assms(3)[OF h3] f by simp
  have u: "store_holds kept K (fst y, cu_unlock (kp_cache K) (stored_name K m) t (snd y))" if "store_holds kept K y" for y t
    using passes(6)[OF assms(1)] that by (simp add: store_holds_def)
  show ?thesis
    using assms(4) d1 l d2 f h1 h2 u[OF h3] u[OF h4] fetched_holds[OF assms(1) h4]
    unfolding x refresh_frame_def Let_def
    by (cases y1; cases y2; cases y3) (auto split: option.splits bool.splits sum.splits raised.splits)
qed

end

section \<open>The table is the table of the frames\<close>

text \<open>A kept table is the one of the entries at some time before.\<close>

definition table_ok :: "'r stats_state \<Rightarrow> real \<Rightarrow> bool" where
  "table_ok st now = (\<forall>rows. ss_table st = Some rows \<longrightarrow>
     (\<exists>t \<le> now. (rows, ss_until st) = stats_table_of (fr_entries st) t))"

text \<open>The tables being built in threads, each of the frames and the time its call of \<open>table\<close> read.\<close>

type_synonym 'r builds = "((market \<times> 'r frame_entry) list \<times> real) list"

definition builds_ok :: "'r builds \<Rightarrow> 'r stats_state \<Rightarrow> real \<Rightarrow> bool" where
  "builds_ok builds st now = (table_ok st now \<and> (\<forall>(entries, t) \<in> set builds. t \<le> now))"

lemma table_ok_later: "table_ok st t \<Longrightarrow> t \<le> t' \<Longrightarrow> table_ok st t'"
  unfolding table_ok_def by (meson order_trans)

interpretation stats_kept: frames_store stats_changed "builds_ok builds" for builds :: "'r builds"
proof
  show "builds_ok builds st t \<Longrightarrow> t \<le> t' \<Longrightarrow> builds_ok builds st t'" for st :: "'r stats_state" and t t'
    unfolding builds_ok_def using table_ok_later[of st t t'] by (auto split: prod.splits)
qed (simp_all add: builds_ok_def table_ok_def stats_changed_def)

lemma stats_table_until:
  assumes "stats_table_of entries t = (rows, until)" "t \<le> now" "case until of None \<Rightarrow> True | Some x \<Rightarrow> now < x"
  shows "table_rows entries now = table_rows entries t"
proof -
  have later: "of_int (x :: int) > now - of_int STATS_KEEP_SECONDS" if "(m, r, x) \<in> set (table_rows entries t)" for m r x
  proof -
    let ?times = "map (\<lambda>(_, _, t). t) (table_rows entries t)"
    have x: "x \<in> set ?times" using that by (force simp: image_iff)
    then have "until = Some (of_int (Min (set ?times) + STATS_KEEP_SECONDS))"
      using assms(1) unfolding stats_table_of_def Let_def by auto
    moreover have "Min (set ?times) \<le> x" using x by (intro Min_le) auto
    ultimately show ?thesis using assms(3) by simp
  qed
  have "filter (\<lambda>(_, x). of_int x > now - of_int STATS_KEEP_SECONDS) (en_rows e) =
      filter (\<lambda>(_, x). of_int x > t - of_int STATS_KEEP_SECONDS) (en_rows e)" if "(m, e) \<in> set entries" for m e
  proof (rule filter_cong[OF refl])
    fix row assume row: "row \<in> set (en_rows e)"
    obtain r x where rx: "row = (r, x)" by (cases row)
    have "(m, r, x) \<in> set (table_rows entries t)" if "of_int x > t - of_int STATS_KEEP_SECONDS"
      using that row rx \<open>(m, e) \<in> set entries\<close> by (force simp: table_rows_def)
    then show "(case row of (_, x) \<Rightarrow> of_int x > now - of_int STATS_KEEP_SECONDS) =
        (case row of (_, x) \<Rightarrow> of_int x > t - of_int STATS_KEEP_SECONDS)"
      using later assms(2) rx by fastforce
  qed
  then have "map (\<lambda>(m, e). map (Pair m) (filter (\<lambda>(_, x). of_int x > now - of_int STATS_KEEP_SECONDS) (en_rows e))) entries =
      map (\<lambda>(m, e). map (Pair m) (filter (\<lambda>(_, x). of_int x > t - of_int STATS_KEEP_SECONDS) (en_rows e))) entries"
    by (intro map_cong[OF refl] prod.case_cong[OF refl]) (metis prod.collapse)
  then show ?thesis unfolding table_rows_def by (rule arg_cong)
qed

text \<open>The states of a store that calls of \<open>table\<close> and \<open>refresh\<close> lead to, overlapping at their awaits,
  while time passes. A call of \<open>table\<close> looks at the frames and, without a table to give, starts a build;
  the build ends later and stores its table. In between, others adopt and drop frames. The one thing
  left out is a build that ends after the frames it was of have changed.\<close>

inductive stats_run :: "('s, 'r) stats_keeping \<Rightarrow> 'r builds \<Rightarrow> 'r stats_state \<times> 's \<Rightarrow> bool" for K where
  run_start: "stats_run K [] (stats_init, s)"
| run_wait: "stats_run K builds (st, s) \<Longrightarrow> kp_time K s \<le> kp_time K s' \<Longrightarrow> stats_run K builds (st, s')"
| run_look: "stats_run K builds x \<Longrightarrow> current K x = (st, s) \<Longrightarrow>
    stats_run K (if table_kept st (kp_time K s) = None then (fr_entries st, kp_time K s) # builds else builds) (st, s)"
| run_built: "stats_run K builds (st, s) \<Longrightarrow> (fr_entries st, t) \<in> set builds \<Longrightarrow>
    stats_run K (remove1 (fr_entries st, t) builds) (table_built (stats_table_of (fr_entries st) t) st, s)"
| run_adopt: "stats_run K builds (st, s) \<Longrightarrow> stats_run K builds (adopt K m e st, s)"
| run_forget: "stats_run K builds (st, s) \<Longrightarrow> stats_run K builds (forget_old K (kp_time K s) st, s)"
| run_refresh: "stats_run K builds x \<Longrightarrow> (\<And>s. kp_time K s \<le> kp_time K (snd (fetch s))) \<Longrightarrow>
    stats_run K builds (snd (stats_refresh K m (on_world fetch) x))"

lemma stats_refresh_keeps:
  assumes "store_uses stats_changed K" "store_holds (builds_ok builds) K x" "\<And>s. kp_time K s \<le> kp_time K (snd (fetch s))"
  shows "store_holds (builds_ok builds) K (snd (stats_refresh K m (on_world fetch) x))"
proof -
  obtain st s where x: "x = (st, s)" by (cases x)
  have f: "store_holds (builds_ok builds) K (snd (on_world fetch y))" if "store_holds (builds_ok builds) K y" for y :: "'a stats_state \<times> 'b"
    using that assms(3) stats_kept.later by (cases y) (fastforce simp: on_world_def split: prod.splits)
  obtain r x' where r: "refresh_frame K m (on_world fetch) (\<lambda>t. \<lfloor>kp_time K s\<rfloor> - t \<ge> REFRESH_SECONDS m) None x = (r, x')"
    by (meson surj_pair)
  have "store_holds (builds_ok builds) K x'" by (rule stats_kept.refresh_holds[OF assms(1,2) f r])
  then show ?thesis using r by (cases r) (simp_all add: x stats_refresh_def Let_def io_bind_def io_return_def)
qed

lemma table_built_ok:
  assumes "builds_ok builds st now" "(fr_entries st, t) \<in> set builds"
  shows "builds_ok (remove1 (fr_entries st, t) builds) (table_built (stats_table_of (fr_entries st) t) st) now"
  using assms set_remove1_subset[of "(fr_entries st, t)" builds]
  by (fastforce simp: builds_ok_def table_ok_def table_built_def)

lemma stats_run_ok: "stats_run K builds x \<Longrightarrow> store_uses stats_changed K \<Longrightarrow> store_holds (builds_ok builds) K x"
proof (induction rule: stats_run.induct)
  case (run_start s)
  then show ?case by (simp add: store_holds_def builds_ok_def table_ok_def stats_init_def)
next
  case (run_wait builds st s s')
  then show ?case using stats_kept.later by (simp add: store_holds_def)
next
  case (run_look builds x st s)
  have "builds_ok builds st (kp_time K s)"
    using stats_kept.current_holds[OF run_look(4) run_look(3)[OF run_look(4)]] by (simp add: run_look(2))
  then show ?case by (simp add: builds_ok_def store_holds_def)
next
  case (run_built builds st s t)
  then show ?case using table_built_ok by simp
next
  case (run_adopt builds st s m e)
  then show ?case using stats_kept.adopt_kept by simp
next
  case (run_forget builds st s)
  then show ?case using stats_kept.forget_old_kept by simp
qed (simp add: stats_refresh_keeps)

text \<open>A call of \<open>table\<close> with nobody in between is a look and the end of its build.\<close>

lemma run_table:
  assumes "stats_run K builds x"
  shows "stats_run K builds (snd (stats_table K x))"
proof -
  obtain st s where c: "current K x = (st, s)" by (meson surj_pair)
  show ?thesis
  proof (cases "table_kept st (kp_time K s)")
    case None
    then have "stats_run K ((fr_entries st, kp_time K s) # builds) (st, s)" using run_look[OF assms c] by simp
    from run_built[OF this, of "kp_time K s"] show ?thesis by (simp add: stats_table_def c None Let_def)
  next
    case (Some rows)
    then show ?thesis using run_look[OF assms c] by (simp add: stats_table_def c)
  qed
qed

text \<open>C27: Whatever calls of \<open>table\<close> and \<open>refresh\<close> came before, overlapping at their awaits, and whatever
  Redis and the sources answered: as long as no table was stored that was built of frames changed
  meanwhile (\<open>adopted_frame_missed\<close> is what happens then) and the clock did not go back, a call of \<open>table\<close> during which no
  other task changes the frames gives exactly the rows of
  the store's frames that were fetched less than two hours ago: keeping the table until its oldest row
  expires shows neither a stale nor an old row.\<close>

theorem stats_table_fresh:
  fixes K :: "('s, 'r) stats_keeping"
  assumes "kp_changed K = stats_changed" "time_passes (kp_cache K) (kp_time K)"
    and "stats_run K builds x" "stats_table K x = (rows, st, s)"
  shows "rows = fst (stats_table_of (fr_entries st) (kp_time K s)) \<and>
    (\<forall>m r. (m, r) \<in> set rows \<longleftrightarrow> (\<exists>e t. (m, e) \<in> set (fr_entries st) \<and> (r, t) \<in> set (en_rows e) \<and>
       kp_time K s - of_int t < of_int STATS_KEEP_SECONDS))"
proof -
  have uses: "store_uses stats_changed K" using assms(1,2) by (simp add: store_uses_def)
  obtain st0 s0 where c: "current K x = (st0, s0)" by (meson surj_pair)
  have ok: "table_ok st0 (kp_time K s0)"
    using stats_kept.current_holds[OF uses stats_run_ok[OF assms(3) uses]] by (simp add: c builds_ok_def)
  have rows: "rows = fst (stats_table_of (fr_entries st) (kp_time K s))"
  proof (cases "table_kept st0 (kp_time K s0)")
    case None
    then show ?thesis using assms(4) by (auto simp: stats_table_def c Let_def table_built_def)
  next
    case (Some kept)
    then have st: "rows = kept" "st = st0" "s = s0" using assms(4) by (simp_all add: stats_table_def c)
    have kept: "ss_table st0 = Some kept" and fresh: "case ss_until st0 of None \<Rightarrow> True | Some t \<Rightarrow> kp_time K s0 < t"
      using Some by (auto simp: table_kept_def split: option.splits if_splits)
    obtain t where t: "t \<le> kp_time K s0" "stats_table_of (fr_entries st0) t = (kept, ss_until st0)"
      using ok kept unfolding table_ok_def by metis
    show ?thesis using stats_table_until[OF t(2,1) fresh] t(2) unfolding st by (simp add: stats_table_of_def Let_def)
  qed
  moreover have "(m, r) \<in> set (fst (stats_table_of entries now)) \<longleftrightarrow> (\<exists>e t. (m, e) \<in> set entries \<and> (r, t) \<in> set (en_rows e) \<and>
      now - of_int t < of_int STATS_KEEP_SECONDS)" for m and r :: 'r and now entries
    by (force simp: stats_table_of_def Let_def table_rows_def image_iff)
  ultimately show ?thesis by simp
qed

text \<open>Within a minute of the last look into Redis, with no frame too old, \<open>_current\<close> changes nothing.\<close>

lemma current_recent:
  assumes "\<forall>m \<in> set (kp_markets K). kp_monotonic K s < fr_reload_at st m"
    and "\<forall>(m, e) \<in> set (fr_entries st). kp_time K s - of_int (en_at e) < of_int (kp_keep K)"
  shows "current K (st, s) = (st, s)"
proof -
  have "\<forall>m \<in> set ms. kp_monotonic K s < fr_reload_at st m \<Longrightarrow> reload_due K ms (st, s) = (st, s)" for ms
    by (induction ms) simp_all
  moreover have "\<forall>(m, e) \<in> set es. kp_time K s - of_int (en_at e) < of_int (kp_keep K) \<Longrightarrow>
      foldl (\<lambda>st (m, e). if kp_time K s - of_int (en_at e) \<ge> of_int (kp_keep K)
       then kp_changed K m (st\<lparr>fr_entries := AList.delete m (fr_entries st)\<rparr>) else st) st es = st" for es :: "(market \<times> 'b frame_entry) list"
    by (induction es) auto
  ultimately show ?thesis using assms by (simp add: current_def forget_old_def)
qed

text \<open>C28: A frame adopted while the thread of \<open>table\<close> builds one of the frames before is missed: the table
  is stored over the reset of \<open>_changed\<close>, and later calls give the old rows, although the store has the
  new frame, until the next change or the oldest row expires.\<close>

theorem adopted_frame_missed:
  fixes K :: "('s, 'r) stats_keeping"
  assumes "kp_changed K = stats_changed"
    and "st' = table_built (stats_table_of (fr_entries st) now) (adopt K m e st)"
    and "\<forall>m \<in> set (kp_markets K). kp_monotonic K s < fr_reload_at st m"
    and "\<forall>(m, e) \<in> set (fr_entries st'). kp_time K s - of_int (en_at e) < of_int (kp_keep K)"
    and "case snd (stats_table_of (fr_entries st) now) of None \<Rightarrow> True | Some t \<Rightarrow> kp_time K s < t"
  shows "stats_table K (st', s) = (fst (stats_table_of (fr_entries st) now), st', s) \<and> map_of (fr_entries st') m = Some e"
proof -
  have st': "fr_entries st' = AList.update m e (fr_entries st)" "fr_reload_at st' = fr_reload_at st"
    "ss_table st' = Some (fst (stats_table_of (fr_entries st) now))" "ss_until st' = snd (stats_table_of (fr_entries st) now)"
    by (simp_all add: assms(1,2) table_built_def adopt_def stats_changed_def)
  have "current K (st', s) = (st', s)" using current_recent[of K s st'] assms(3,4) st'(2) by simp
  moreover have "table_kept st' (kp_time K s) = Some (fst (stats_table_of (fr_entries st) now))"
    using assms(5) st'(3,4) by (auto simp: table_kept_def split: option.splits)
  ultimately show ?thesis by (simp add: stats_table_def st'(1) update_conv)
qed

section \<open>Examples\<close>

text \<open>A process without Redis; the world is the clock.\<close>

definition example_cache :: "real cache_use" where
  "example_cache = \<lparr>cu_get = (\<lambda>_ s. (None, s)), cu_get_many = (\<lambda>names s. (map (\<lambda>_. None) names, s)), cu_head = (\<lambda>_ _ s. (None, s)),
     cu_set = (\<lambda>_ _ _ s. s), cu_delete = (\<lambda>_ s. s), cu_lock = (\<lambda>_ _ s. (Some [], s)), cu_extend = (\<lambda>_ _ _ s. (True, s)),
     cu_unlock = (\<lambda>_ _ s. s), cu_available = (\<lambda>_. False), cu_fetch = (\<lambda>_ fetch s. (case fetch s of (r, s') \<Rightarrow> (map_sum id fst r, s')))\<rparr>"

lemma example_passes: "time_passes example_cache id"
  by (simp add: time_passes_def example_cache_def)

definition example_stats :: "(real, string) stats_keeping" where
  "example_stats = \<lparr>kp_cache = example_cache, kp_kind = ''stats'', kp_markets = [Crypto, Stock], kp_keep = STATS_KEEP_SECONDS,
     kp_time = id, kp_monotonic = id, kp_read = (\<lambda>_. None), kp_write = concat \<circ> map fst, kp_symbol = id, kp_order = id,
     kp_changed = stats_changed\<rparr>"

text \<open>Stats of two stocks fetched at 1000, which takes 5 seconds.\<close>

definition example_refreshed :: "string stats_state \<times> real" where
  "example_refreshed = snd (stats_refresh example_stats Stock (on_world (\<lambda>t. (Inr ([''A'', ''B''], []), t + 5))) (stats_init, 1000))"

lemma example_refreshed_state: "example_refreshed = (\<lparr>fr_entries = [(Stock, \<lparr>en_at = 1000, en_rows = [(''A'', 1000), (''B'', 1000)]\<rparr>)],
     fr_reload_at = (\<lambda>_. 0), ss_table = None, ss_until = Some 0\<rparr>, 1005)"
  by (simp add: example_refreshed_def stats_refresh_def io_bind_def io_return_def refresh_frame_def Let_def due_def reload_def
      example_stats_def example_cache_def stats_init_def on_world_def fetched_frame_def encode_chunk_def merged_def adopt_def stats_changed_def)

theorem stats_table_fresh_witness:
  "fst (stats_table example_stats (fst example_refreshed, 1299)) = [(Stock, ''A''), (Stock, ''B'')] \<and>
   fst (stats_table_of (fr_entries (fst example_refreshed)) 1299) = [(Stock, ''A''), (Stock, ''B'')]"
proof -
  obtain rows st s where t: "stats_table example_stats (fst example_refreshed, 1299) = (rows, st, s)" by (metis prod_cases3)
  have run: "stats_run example_stats [] (fst example_refreshed, 1299)"
  proof (rule run_wait)
    have "stats_run example_stats [] example_refreshed"
      unfolding example_refreshed_def by (rule run_refresh[OF run_start]) (simp add: example_stats_def)
    then show "stats_run example_stats [] (fst example_refreshed, 1005)" by (simp add: example_refreshed_state)
  qed (simp add: example_stats_def)
  have st: "fr_entries st = fr_entries (fst example_refreshed)" "s = 1299"
    using t by (auto simp: stats_table_def current_def example_refreshed_state example_stats_def example_cache_def reload_def Let_def
        forget_old_def STATS_KEEP_SECONDS_def table_kept_def table_built_def)
  have "rows = fst (stats_table_of (fr_entries st) (kp_time example_stats s))"
    using stats_table_fresh[OF _ _ run t] by (simp add: example_stats_def example_passes)
  then have "rows = fst (stats_table_of (fr_entries (fst example_refreshed)) 1299)" using st by (simp add: example_stats_def)
  then show ?thesis using t by (simp add: example_refreshed_state stats_table_of_def table_rows_def STATS_KEEP_SECONDS_def)
qed

text \<open>A refresh of the stocks ends at 2000, while a table is built of the frame of 1000: at 2010 and at any
  call before 8200 without a new frame the rows of 1000 are given.\<close>

theorem adopted_frame_missed_witness:
  "let old = \<lparr>fr_entries = [(Stock, \<lparr>en_at = 1000, en_rows = [(''old'', 1000)]\<rparr>)], fr_reload_at = (\<lambda>_. 2050),
       ss_table = None, ss_until = Some 0\<rparr>;
     new = table_built (stats_table_of (fr_entries old) 2000) (adopt example_stats Stock \<lparr>en_at = 1900, en_rows = [(''new'', 1900)]\<rparr> old)
   in fst (stats_table example_stats (new, 2010)) = [(Stock, ''old'')] \<and>
      map_of (fr_entries new) Stock = Some \<lparr>en_at = 1900, en_rows = [(''new'', 1900)]\<rparr>"
proof -
  let ?old = "\<lparr>fr_entries = [(Stock, \<lparr>en_at = 1000, en_rows = [(''old'', 1000)]\<rparr>)], fr_reload_at = (\<lambda>_. 2050),
       ss_table = None, ss_until = Some 0\<rparr> :: string stats_state"
  let ?new = "table_built (stats_table_of (fr_entries ?old) 2000) (adopt example_stats Stock \<lparr>en_at = 1900, en_rows = [(''new'', 1900)]\<rparr> ?old)"
  have t: "stats_table_of (fr_entries ?old) 2000 = ([(Stock, ''old'')], Some 8200)"
    by (simp add: stats_table_of_def table_rows_def STATS_KEEP_SECONDS_def)
  have "stats_table example_stats (?new, 2010) = (fst (stats_table_of (fr_entries ?old) 2000), ?new, 2010) \<and>
      map_of (fr_entries ?new) Stock = Some \<lparr>en_at = 1900, en_rows = [(''new'', 1900)]\<rparr>"
    by (rule adopted_frame_missed[OF _ refl])
      (simp_all only: t, simp_all add: example_stats_def adopt_def stats_changed_def table_built_def STATS_KEEP_SECONDS_def)
  then show ?thesis unfolding Let_def t by simp
qed

end
