(* ===== verification/DataSpark.thy ===== *)
theory DataSpark
  imports DataStats
begin

text \<open>
  \<open>data/spark_store.py\<close>: the daily candles of the mini charts, kept like the stats (DataStats), with an
  index per market that finds the candles of a page: the days of the market as slots, and where the
  rows of a symbol are in the frame sorted by symbol. The theorem: the charts of a page are those read
  off the store's frames row by row, whatever refreshes came before. Python sorts of Polars that leave
  the order of equal rows open keep it here.
\<close>

section \<open>Rows\<close>

definition GRACE_SECONDS :: int where "GRACE_SECONDS = 12 * 3600"
definition SPARK_KEEP_SECONDS :: int where "SPARK_KEEP_SECONDS = 7 * 86400"
definition RETRY_SECONDS :: int where "RETRY_SECONDS = 1800"

text \<open>A row of \<open>SPARK_STORED_SCHEMA\<close>: the candle and until when it is shown.\<close>

type_synonym shown_row = "spark_row \<times> int"
type_synonym spark_cell = "int option \<times> fl option \<times> fl option \<times> fl option \<times> fl option"

definition row_symbol :: "shown_row stored \<Rightarrow> string" where "row_symbol r = fst (fst (fst r))"
definition row_cell :: "shown_row stored \<Rightarrow> spark_cell" where "row_cell r = snd (fst (fst r))"
definition row_day :: "shown_row stored \<Rightarrow> int option" where "row_day r = fst (row_cell r)"
definition row_shown :: "shown_row stored \<Rightarrow> int" where "row_shown r = snd (fst r)"

definition spark_order :: "shown_row stored list \<Rightarrow> shown_row stored list" where
  "spark_order = sort_key (\<lambda>r. (row_symbol r, row_day r))"

section \<open>The index\<close>

record spark_index =
  ix_slots :: "(int option \<times> nat) list"
  ix_frame :: "(string \<times> spark_cell) list"
  ix_rows :: "(string \<times> nat \<times> nat \<times> int) list"

text \<open>The last days with a candle.\<close>

definition spark_days_of :: "shown_row stored list \<Rightarrow> int option list" where
  "spark_days_of rows = (let days = sorted_list_of_set (set (map row_day rows)) in drop (length days - SPARK_DAYS) days)"

text \<open>\<open>group_by\<close>: the first row of a symbol, the number of its rows, and until when they are shown.\<close>

definition index_row :: "shown_row stored list \<Rightarrow> string \<Rightarrow> nat \<times> nat \<times> int" where
  "index_row frame symbol =
     (length (takeWhile (\<lambda>r. row_symbol r \<noteq> symbol) frame), length (filter (\<lambda>r. row_symbol r = symbol) frame),
      Min (set (map row_shown (filter (\<lambda>r. row_symbol r = symbol) frame))))"

definition indexed :: "shown_row frame_entry \<Rightarrow> spark_index" where
  "indexed e =
     (let frame = (if sorted (map row_symbol (en_rows e)) then en_rows e else spark_order (en_rows e)); days = spark_days_of frame
      in \<lparr>ix_slots = zip days [0..<length days], ix_frame = map (\<lambda>r. (row_symbol r, row_cell r)) frame,
          ix_rows = map (\<lambda>s. (s, index_row frame s)) (first_seen (map row_symbol frame))\<rparr>)"

text \<open>\<open>_lookup\<close>: the rows of the symbols still shown, and the charts they fill.\<close>

definition rows_shown :: "spark_index \<Rightarrow> string list \<Rightarrow> real \<Rightarrow> nat list" where
  "rows_shown ix symbols now = concat (map (\<lambda>s. case map_of (ix_rows ix) s of
      None \<Rightarrow> [] | Some (row, n, until) \<Rightarrow> if of_int until > now then [row..<row + n] else []) symbols)"

definition put_cell :: "(int option \<times> nat) list \<Rightarrow> (string \<times> spark) list \<Rightarrow> string \<times> spark_cell \<Rightarrow> (string \<times> spark) list" where
  "put_cell slots charts row = (case row of (symbol, cell) \<Rightarrow> (case map_of slots (fst cell) of
      None \<Rightarrow> charts
    | Some i \<Rightarrow> AList.update symbol
        ((case map_of charts symbol of None \<Rightarrow> replicate (length slots) None | Some chart \<Rightarrow> chart)[i := Some cell]) charts))"

definition spark_lookup :: "spark_index \<Rightarrow> string list \<Rightarrow> real \<Rightarrow> (string \<times> spark) list" where
  "spark_lookup ix symbols now = foldl (put_cell (ix_slots ix)) [] (map (\<lambda>i. ix_frame ix ! i) (rows_shown ix symbols now))"

section \<open>SparkStore\<close>

record pending =
  pd_settled :: int
  pd_symbols :: "string list"
  pd_retry_at :: real

record spark_state = "shown_row frames" +
  sp_retry_at :: "market \<Rightarrow> real"
  sp_pending :: "market \<rightharpoonup> pending"
  sp_index :: "(market \<times> spark_index) list"

type_synonym 's spark_keeping = "('s, shown_row, unit spark_state_ext) keeping"

definition spark_init :: spark_state where
  "spark_init = \<lparr>fr_entries = [], fr_reload_at = (\<lambda>_. 0), sp_retry_at = (\<lambda>_. 0), sp_pending = Map.empty, sp_index = []\<rparr>"

definition spark_changed :: "market \<Rightarrow> spark_state \<Rightarrow> spark_state" where
  "spark_changed m st = (case map_of (fr_entries st) m of
      None \<Rightarrow> st\<lparr>sp_index := AList.delete m (sp_index st)\<rparr>
    | Some e \<Rightarrow> st\<lparr>sp_index := AList.update m (indexed e) (sp_index st)\<rparr>)"

definition spark_charts :: "'s spark_keeping \<Rightarrow> instrument list \<Rightarrow> spark_state \<times> 's \<Rightarrow> spark option list \<times> spark_state \<times> 's" where
  "spark_charts K items x = (case current K x of (st, s) \<Rightarrow>
     (let now = kp_time K s;
          found = concat (map (\<lambda>(m, ix). map (\<lambda>(symbol, chart). ((m, symbol), chart))
            (spark_lookup ix (map in_symbol (filter (\<lambda>i. in_market i = m) items)) now)) (sp_index st))
      in (map (\<lambda>i. map_of found (in_market i, in_symbol i)) items, st, s)))"

text \<open>\<open>refresh\<close>: \<open>answered\<close> is what the closure of its fetch keeps, the symbols that failed.\<close>

type_synonym 's daily_fetch = "string list option \<Rightarrow> (spark_state \<times> 's, spark_row source_stats) io"

definition marked :: "'s daily_fetch \<Rightarrow> int \<Rightarrow> string list option \<Rightarrow> (spark_state \<times> 's, shown_row source_stats) io" where
  "marked fetch shown_until only = io_bind (fetch only) (\<lambda>found. io_return (map (\<lambda>r. (r, shown_until)) (fst found), snd found))"

definition next_pending :: "int \<Rightarrow> real \<Rightarrow> string list option \<Rightarrow> pending option \<Rightarrow> pending option" where
  "next_pending settled now answered p = (case answered of
      None \<Rightarrow> p
    | Some failed \<Rightarrow> if failed = [] then None
        else Some \<lparr>pd_settled = settled, pd_symbols = failed, pd_retry_at = now + of_int RETRY_SECONDS\<rparr>)"

definition spark_done :: "market \<Rightarrow> int \<Rightarrow> real \<Rightarrow> bool \<Rightarrow> string list option \<Rightarrow> spark_state \<Rightarrow> spark_state" where
  "spark_done m settled now ok answered st =
     (if \<not> ok then st
      else st\<lparr>sp_retry_at := (sp_retry_at st)(m := 0),
        sp_pending := (sp_pending st)(m := next_pending settled now answered (sp_pending st m))\<rparr>)"

text \<open>What follows the refresh for the daily close: the instruments it could not ask for are asked again.\<close>

definition ask_pending :: "'s spark_keeping \<Rightarrow> market \<Rightarrow> (string list option \<Rightarrow> (spark_state \<times> 's, shown_row source_stats) io) \<Rightarrow> int \<Rightarrow> real \<Rightarrow>
    bool \<times> shown_row source_stats option \<Rightarrow> (spark_state \<times> 's, bool \<times> shown_row source_stats option) io" where
  "ask_pending K m fetch settled now answer = (\<lambda>(st, s).
     let p = (case sp_pending st m of None \<Rightarrow> None | Some p \<Rightarrow> if pd_settled p = settled then Some p else None);
         st = st\<lparr>sp_pending := (sp_pending st)(m := p)\<rparr>
     in (case p of
           None \<Rightarrow> (Inr answer, (st, s))
         | Some p \<Rightarrow> if fst answer \<and> snd answer = None \<and> now \<ge> pd_retry_at p
             then refresh_frame K m (fetch (Some (pd_symbols p))) (\<lambda>_. True) (Some (pd_symbols p)) (st, s)
             else (Inr answer, (st, s))))"

definition spark_refresh :: "'s spark_keeping \<Rightarrow> market \<Rightarrow> 's daily_fetch \<Rightarrow> int \<Rightarrow> int \<Rightarrow> (spark_state \<times> 's, unit) io" where
  "spark_refresh K m fetch closed_at next_close = (\<lambda>(st, s).
     let now = kp_time K s; settled = closed_at + SETTLE_SECONDS;
         fetched = marked fetch (next_close + SETTLE_SECONDS + GRACE_SECONDS)
     in if now < sp_retry_at st m then (Inr (), (st, s))
        else io_bind (refresh_frame K m (fetched None) (\<lambda>t. t < settled) None)
          (\<lambda>answer. io_bind (ask_pending K m fetched settled now answer)
            (\<lambda>(ok, found) (st, s). (Inr (), (spark_done m settled now ok (map_option snd found) st, s))))
          (st\<lparr>sp_retry_at := (sp_retry_at st)(m := now + of_int RETRY_SECONDS)\<rparr>, s))"

section \<open>The index finds the candles of a symbol\<close>

text \<open>The chart of a symbol read off the rows: a cell per day, the last candle of it. There is none when a
  candle of the symbol is not shown any more, or none is of the last days.\<close>

definition last_of :: "'a list \<Rightarrow> 'a option" where
  "last_of xs = (if xs = [] then None else Some (last xs))"

definition chart_of :: "shown_row stored list \<Rightarrow> real \<Rightarrow> string \<Rightarrow> spark option" where
  "chart_of rows now symbol =
     (let mine = filter (\<lambda>r. row_symbol r = symbol) rows;
          cells = map (\<lambda>d. map_option row_cell (last_of (filter (\<lambda>r. row_day r = d) mine))) (spark_days_of rows)
      in if list_all (\<lambda>r. of_int (row_shown r) > now) mine \<and> list_ex (\<lambda>c. c \<noteq> None) cells then Some cells else None)"

lemma filter_takeWhile_min:
  fixes f :: "'a \<Rightarrow> 'b :: linorder"
  shows "sorted (map f xs) \<Longrightarrow> \<forall>x \<in> set xs. v \<le> f x \<Longrightarrow> filter (\<lambda>x. f x = v) xs = take (length (filter (\<lambda>x. f x = v) xs)) xs"
proof (induction xs)
  case (Cons x xs)
  show ?case
  proof (cases "f x = v")
    case False
    then have "\<forall>y \<in> set xs. f y \<noteq> v" using Cons.prems by fastforce
    then have "filter (\<lambda>x. f x = v) xs = []" by simp
    then show ?thesis using False by simp
  qed (use Cons in simp)
qed simp

text \<open>In a sorted list the elements of one key are next to each other.\<close>

lemma filter_contiguous:
  fixes f :: "'a \<Rightarrow> 'b :: linorder"
  shows "sorted (map f xs) \<Longrightarrow>
    take (length (filter (\<lambda>x. f x = v) xs)) (drop (length (takeWhile (\<lambda>x. f x \<noteq> v) xs)) xs) = filter (\<lambda>x. f x = v) xs"
proof (induction xs)
  case (Cons x xs)
  then show ?case using filter_takeWhile_min[of f "x # xs" v] by (cases "f x = v") auto
qed simp

lemma nth_range: "i + n \<le> length xs \<Longrightarrow> map (\<lambda>j. xs ! j) [i..<i + n] = take n (drop i xs)"
  by (intro nth_equalityI) auto

definition last_cell :: "(int option \<times> nat) list \<Rightarrow> nat \<Rightarrow> spark_cell list \<Rightarrow> spark_cell option" where
  "last_cell slots j cells = last_of (filter (\<lambda>c. map_of slots (fst c) = Some j) cells)"

definition filled :: "(int option \<times> nat) list \<Rightarrow> spark_cell list \<Rightarrow> spark option" where
  "filled slots cells = (if \<exists>c \<in> set cells. map_of slots (fst c) \<noteq> None
     then Some (map (\<lambda>j. last_cell slots j cells) [0..<length slots]) else None)"

lemma last_cell_snoc: "last_cell slots j (cells @ [c]) = (if map_of slots (fst c) = Some j then Some c else last_cell slots j cells)"
  by (simp add: last_cell_def last_of_def)

lemma filled_snoc: "map_of slots (fst c) = None \<Longrightarrow> filled slots (cells @ [c]) = filled slots cells"
  by (simp add: filled_def last_cell_snoc del: not_None_eq split_paired_Ex split_paired_All)

lemma filled_else: "(case filled slots cells of None \<Rightarrow> replicate (length slots) None | Some chart \<Rightarrow> chart) =
  map (\<lambda>j. last_cell slots j cells) [0..<length slots]"
proof (cases "\<exists>c \<in> set cells. map_of slots (fst c) \<noteq> None")
  case False
  then have "filter (\<lambda>c. map_of slots (fst c) = Some j) cells = []" for j by (auto simp: filter_empty_conv)
  then have "last_cell slots j cells = None" for j by (simp add: last_cell_def last_of_def)
  then show ?thesis unfolding filled_def if_not_P[OF False] by (simp add: map_replicate_const)
next
  case True
  then show ?thesis unfolding filled_def by (simp only: if_P option.case)
qed

lemma foldl_put_cell:
  assumes "\<forall>(d, i) \<in> set slots. i < length slots"
  shows "map_of (foldl (put_cell slots) [] rows) s = filled slots (map snd (filter (\<lambda>r. fst r = s) rows))"
proof (induction rows rule: rev_induct)
  case Nil
  then show ?case by (simp add: filled_def)
next
  case (snoc r rows)
  obtain t c where r: "r = (t, c)" by (cases r)
  let ?mine = "map snd (filter (\<lambda>r. fst r = s) rows)"
  show ?case
  proof (cases "map_of slots (fst c)")
    case None
    have "filled slots (map snd (filter (\<lambda>r. fst r = s) (rows @ [r]))) = filled slots ?mine"
      using filled_snoc[of slots c ?mine] None by (simp add: r)
    then show ?thesis using snoc.IH None by (simp add: r put_cell_def)
  next
    case (Some i)
    then have i: "i < length slots" using assms map_of_SomeD by fastforce
    show ?thesis
    proof (cases "t = s")
      case False
      then show ?thesis using snoc.IH Some by (simp add: r put_cell_def update_conv)
    next
      case True
      have "(case filled slots ?mine of None \<Rightarrow> replicate (length slots) None | Some chart \<Rightarrow> chart) =
          map (\<lambda>j. last_cell slots j ?mine) [0..<length slots]"
        by (rule filled_else)
      moreover have "(map (\<lambda>j. last_cell slots j ?mine) [0..<length slots])[i := Some c] =
          map (\<lambda>j. last_cell slots j (?mine @ [c])) [0..<length slots]"
        using Some i by (intro nth_equalityI) (auto simp: last_cell_snoc nth_list_update)
      ultimately show ?thesis using snoc.IH Some True by (simp add: r put_cell_def update_conv filled_def)
    qed
  qed
qed

text \<open>What is looked up of a symbol: its rows, as often as the symbol is asked for.\<close>

lemma rows_of_symbol:
  assumes "s \<in> set symbols" "\<And>s' r. s' \<in> set symbols \<Longrightarrow> r \<in> set (rows s') \<Longrightarrow> fst r = s'"
  shows "\<exists>before. filter (\<lambda>r. fst r = s) (concat (map rows symbols)) = before @ rows s \<and> set before \<subseteq> set (rows s)"
  using assms
proof (induction symbols)
  case (Cons a symbols)
  have a: "filter (\<lambda>r. fst r = s) (rows a) = (if a = s then rows s else [])"
    using Cons.prems(2)[of a] by (auto simp: filter_empty_conv intro: filter_True)
  show ?case
  proof (cases "s \<in> set symbols")
    case True
    then obtain before where "filter (\<lambda>r. fst r = s) (concat (map rows symbols)) = before @ rows s" "set before \<subseteq> set (rows s)"
      using Cons by auto
    then show ?thesis using a by (auto intro: exI[of _ "rows s @ before"])
  next
    case False
    then have "filter (\<lambda>r. fst r = s) (concat (map rows symbols)) = []"
      using Cons.prems(2) by (fastforce simp: filter_empty_conv)
    then show ?thesis using a False Cons.prems(1) by auto
  qed
qed simp

lemma filled_repeat:
  assumes "set before \<subseteq> set cells"
  shows "filled slots (before @ cells) = filled slots cells"
proof -
  have "last_cell slots j (before @ cells) = last_cell slots j cells" for j
  proof (cases "filter (\<lambda>c. map_of slots (fst c) = Some j) cells = []")
    case True
    then have "filter (\<lambda>c. map_of slots (fst c) = Some j) before = []" using assms by (auto simp: filter_empty_conv)
    then show ?thesis by (simp add: last_cell_def)
  qed (simp add: last_cell_def last_of_def)
  then show ?thesis using assms by (auto simp: filled_def)
qed

text \<open>The slots of the days.\<close>

lemma slots_of_days:
  assumes "distinct days"
  shows "j < length days \<Longrightarrow> map_of (zip days [0..<length days]) t = Some j \<longleftrightarrow> t = days ! j"
    "map_of (zip days [0..<length days]) t \<noteq> None \<longleftrightarrow> t \<in> set days"
proof -
  have "(t, j) \<in> set (zip days [0..<length days]) \<longleftrightarrow> j < length days \<and> t = days ! j" for j
    by (auto simp: set_zip)
  moreover have d: "distinct (map fst (zip days [0..<length days]))" using assms by simp
  ultimately show "j < length days \<Longrightarrow> map_of (zip days [0..<length days]) t = Some j \<longleftrightarrow> t = days ! j"
    using map_of_eq_Some_iff[OF d] by simp
  show "map_of (zip days [0..<length days]) t \<noteq> None \<longleftrightarrow> t \<in> set days"
    by (simp add: map_of_eq_None_iff flip: list.set_map)
qed

lemma filled_days:
  assumes "distinct days"
  shows "filled (zip days [0..<length days]) cells =
    (let found = map (\<lambda>d. last_of (filter (\<lambda>c. fst c = d) cells)) days
     in if list_ex (\<lambda>c. c \<noteq> None) found then Some found else None)"
proof -
  let ?found = "map (\<lambda>d. last_of (filter (\<lambda>c. fst c = d) cells)) days"
  have "map (\<lambda>j. last_cell (zip days [0..<length days]) j cells) [0..<length days] = ?found"
    by (intro nth_equalityI) (simp_all add: last_cell_def slots_of_days(1)[OF assms])
  moreover have "(\<exists>c \<in> set cells. map_of (zip days [0..<length days]) (fst c) \<noteq> None) \<longleftrightarrow> list_ex (\<lambda>c. c \<noteq> None) ?found"
  proof -
    have "(last_of (filter (\<lambda>c. fst c = d) cells)) \<noteq> None \<longleftrightarrow> (\<exists>c \<in> set cells. fst c = d)" for d
      by (simp add: last_of_def filter_empty_conv del: not_None_eq split_paired_Ex split_paired_All)
    then show ?thesis unfolding slots_of_days(2)[OF assms] by (auto simp: list_ex_iff)
  qed
  ultimately show ?thesis by (simp add: filled_def Let_def)
qed

text \<open>The frame of an index has the rows of its entry; those of a symbol and a day are in their order.\<close>

definition index_frame :: "shown_row frame_entry \<Rightarrow> shown_row stored list" where
  "index_frame e = (if sorted (map row_symbol (en_rows e)) then en_rows e else spark_order (en_rows e))"

lemma index_frame_set [simp]: "set (index_frame e) = set (en_rows e)"
  by (simp add: index_frame_def spark_order_def)

lemma index_frame_sorted: "sorted (map row_symbol (index_frame e))"
proof (cases "sorted (map row_symbol (en_rows e))")
  case False
  have "sorted (map (\<lambda>r. (row_symbol r, row_day r)) (spark_order (en_rows e)))" by (simp add: spark_order_def)
  then have "sorted (map fst (map (\<lambda>r. (row_symbol r, row_day r)) (spark_order (en_rows e))))"
    by (rule sorted_map_mono) (auto simp: mono_on_def less_eq_prod_def)
  then show ?thesis using False by (simp add: index_frame_def comp_def)
qed (simp add: index_frame_def)

lemma index_frame_day: "filter (\<lambda>r. row_symbol r = s \<and> row_day r = d) (index_frame e) = filter (\<lambda>r. row_symbol r = s \<and> row_day r = d) (en_rows e)"
proof (cases "sorted (map row_symbol (en_rows e))")
  case False
  then show ?thesis
    using sort_key_stable[of "\<lambda>r. (row_symbol r, row_day r)" "(s, d)" "en_rows e"] by (simp add: index_frame_def spark_order_def)
qed (simp add: index_frame_def)

lemma index_frame_days: "spark_days_of (index_frame e) = spark_days_of (en_rows e)"
  by (simp add: spark_days_of_def)

lemma spark_days_distinct: "distinct (spark_days_of rows)"
  by (simp add: spark_days_of_def Let_def)

text \<open>The rows of a symbol, through the index.\<close>

lemma index_rows:
  assumes "s \<in> set (map row_symbol (index_frame e))"
  shows "map_of (ix_rows (indexed e)) s = Some (index_row (index_frame e) s)"
    "map (\<lambda>i. ix_frame (indexed e) ! i) [fst (index_row (index_frame e) s)..<fst (index_row (index_frame e) s) + fst (snd (index_row (index_frame e) s))] =
     map (\<lambda>r. (row_symbol r, row_cell r)) (filter (\<lambda>r. row_symbol r = s) (index_frame e))"
proof -
  let ?F = "index_frame e"
  let ?i = "length (takeWhile (\<lambda>r. row_symbol r \<noteq> s) ?F)" and ?n = "length (filter (\<lambda>r. row_symbol r = s) ?F)"
  have rows: "ix_rows (indexed e) = map (\<lambda>s. (s, index_row ?F s)) (first_seen (map row_symbol ?F))"
    and frame: "ix_frame (indexed e) = map (\<lambda>r. (row_symbol r, row_cell r)) ?F"
    by (simp_all add: indexed_def Let_def index_frame_def)
  show "map_of (ix_rows (indexed e)) s = Some (index_row ?F s)"
    unfolding rows using assms by (simp add: map_of_map_restrict first_seen_def)
  have contiguous: "take ?n (drop ?i ?F) = filter (\<lambda>r. row_symbol r = s) ?F"
    by (rule filter_contiguous[OF index_frame_sorted])
  have "?i + ?n \<le> length ?F"
    using arg_cong[OF contiguous, of length] length_takeWhile_le[of "\<lambda>r. row_symbol r \<noteq> s" ?F] by simp
  then show "map (\<lambda>i. ix_frame (indexed e) ! i) [fst (index_row ?F s)..<fst (index_row ?F s) + fst (snd (index_row ?F s))] =
     map (\<lambda>r. (row_symbol r, row_cell r)) (filter (\<lambda>r. row_symbol r = s) ?F)"
    using nth_range[of ?i ?n "ix_frame (indexed e)"] contiguous unfolding frame by (simp add: index_row_def take_map drop_map)
qed

lemma chart_of_filled:
  "chart_of (en_rows e) now s =
    (if list_all (\<lambda>r. of_int (row_shown r) > now) (filter (\<lambda>r. row_symbol r = s) (en_rows e))
     then filled (ix_slots (indexed e)) (map row_cell (filter (\<lambda>r. row_symbol r = s) (index_frame e))) else None)"
proof -
  let ?days = "spark_days_of (en_rows e)"
  have slots: "ix_slots (indexed e) = zip ?days [0..<length ?days]"
    unfolding indexed_def Let_def index_frame_def[symmetric] index_frame_days by simp
  have "last_of (filter (\<lambda>c. fst c = d) (map row_cell (filter (\<lambda>r. row_symbol r = s) (index_frame e)))) =
      map_option row_cell (last_of (filter (\<lambda>r. row_day r = d) (filter (\<lambda>r. row_symbol r = s) (en_rows e))))" for d
  proof -
    have f: "filter (\<lambda>c. fst c = d) (map row_cell (filter (\<lambda>r. row_symbol r = s) (index_frame e))) =
        map row_cell (filter (\<lambda>r. row_symbol r = s \<and> row_day r = d) (index_frame e))"
      by (simp add: filter_map comp_def row_day_def conj_commute)
    have g: "filter (\<lambda>r. row_day r = d) (filter (\<lambda>r. row_symbol r = s) (en_rows e)) =
        filter (\<lambda>r. row_symbol r = s \<and> row_day r = d) (en_rows e)" by (simp add: conj_commute)
    show ?thesis unfolding f g index_frame_day by (simp add: last_of_def last_map)
  qed
  then show ?thesis unfolding slots filled_days[OF spark_days_distinct] chart_of_def Let_def by simp
qed

text \<open>A symbol's rows are read while all of them are shown.\<close>

definition picked :: "shown_row frame_entry \<Rightarrow> real \<Rightarrow> string \<Rightarrow> (string \<times> spark_cell) list" where
  "picked e now s = (if list_all (\<lambda>r. of_int (row_shown r) > now) (filter (\<lambda>r. row_symbol r = s) (en_rows e))
     then map (\<lambda>r. (row_symbol r, row_cell r)) (filter (\<lambda>r. row_symbol r = s) (index_frame e)) else [])"

lemma Min_above: "finite A \<Longrightarrow> A \<noteq> {} \<Longrightarrow> (now :: real) < of_int (Min A) \<longleftrightarrow> (\<forall>a \<in> A. now < of_int a)"
  by (simp flip: floor_less_iff)

lemma rows_shown_picked:
  "map (\<lambda>i. ix_frame (indexed e) ! i) (rows_shown (indexed e) symbols now) = concat (map (picked e now) symbols)"
proof -
  have "map (\<lambda>i. ix_frame (indexed e) ! i) (case map_of (ix_rows (indexed e)) s of None \<Rightarrow> []
      | Some (row, n, until) \<Rightarrow> if of_int until > now then [row..<row + n] else []) = picked e now s" for s
  proof (cases "s \<in> set (map row_symbol (index_frame e))")
    case True
    let ?mine = "filter (\<lambda>r. row_symbol r = s) (index_frame e)"
    have ne: "set (map row_shown ?mine) \<noteq> {}" using True by (auto simp: filter_empty_conv simp del: split_paired_Ex split_paired_All)
    have m: "set ?mine = set (filter (\<lambda>r. row_symbol r = s) (en_rows e))" by simp
    have "of_int (Min (set (map row_shown ?mine))) > now \<longleftrightarrow> (\<forall>r \<in> set ?mine. of_int (row_shown r) > now)"
      by (simp only: Min_above[OF finite_set ne]) (simp only: set_map ball_simps)
    also have "\<dots> \<longleftrightarrow> list_all (\<lambda>r. of_int (row_shown r) > now) (filter (\<lambda>r. row_symbol r = s) (en_rows e))"
      unfolding m list_all_iff ..
    finally show ?thesis using index_rows[OF True] by (simp add: index_row_def picked_def)
  next
    case False
    then have "map_of (ix_rows (indexed e)) s = None"
      unfolding indexed_def Let_def index_frame_def[symmetric] by (auto simp: map_of_eq_None_iff first_seen_def image_iff)
    moreover have "filter (\<lambda>r. row_symbol r = s) (index_frame e) = []" using False by (auto simp: filter_empty_conv)
    ultimately show ?thesis by (simp add: picked_def)
  qed
  then show ?thesis by (simp add: rows_shown_def map_concat comp_def)
qed

lemma lookup_chart:
  "map_of (spark_lookup (indexed e) symbols now) s = (if s \<in> set symbols then chart_of (en_rows e) now s else None)"
proof -
  let ?slots = "ix_slots (indexed e)"
  have slots: "\<forall>(d, i) \<in> set ?slots. i < length ?slots"
    by (auto simp: indexed_def Let_def dest: set_zip_rightD)
  have own: "r \<in> set (picked e now s') \<Longrightarrow> fst r = s'" for s' r by (auto simp: picked_def split: if_splits)
  have filled: "map_of (spark_lookup (indexed e) symbols now) s =
      filled ?slots (map snd (filter (\<lambda>r. fst r = s) (concat (map (picked e now) symbols))))"
    unfolding spark_lookup_def rows_shown_picked by (rule foldl_put_cell[OF slots])
  show ?thesis
  proof (cases "s \<in> set symbols")
    case True
    obtain before where b: "filter (\<lambda>r. fst r = s) (concat (map (picked e now) symbols)) = before @ picked e now s"
      "set before \<subseteq> set (picked e now s)" using rows_of_symbol[OF True own] by blast
    have "set (map snd before) \<subseteq> set (map snd (picked e now s))" using b(2) by auto
    from filled_repeat[OF this] have "map_of (spark_lookup (indexed e) symbols now) s = filled ?slots (map snd (picked e now s))"
      unfolding filled b(1) by simp
    moreover have "filled ?slots [] = None" by (simp add: filled_def)
    ultimately show ?thesis using True by (simp add: chart_of_filled picked_def comp_def)
  next
    case False
    then have "filter (\<lambda>r. fst r = s) (concat (map (picked e now) symbols)) = []"
      using own by (fastforce simp: filter_empty_conv)
    then show ?thesis using False unfolding filled by (simp add: filled_def)
  qed
qed

section \<open>The charts are those of the frames\<close>

text \<open>The index of a store is that of its entries.\<close>

definition index_ok :: "spark_state \<Rightarrow> real \<Rightarrow> bool" where
  "index_ok st now = (sp_index st = map (\<lambda>(m, e). (m, indexed e)) (fr_entries st) \<and> distinct (map fst (fr_entries st)))"

lemma update_map: "AList.update k (f v) (map (\<lambda>(k, v). (k, f v)) kvs) = map (\<lambda>(k, v). (k, f v)) (AList.update k v kvs)"
  by (induction kvs) auto

lemma delete_map: "AList.delete k (map (\<lambda>(k, v). (k, f v)) kvs) = map (\<lambda>(k, v). (k, f v)) (AList.delete k kvs)"
  by (induction kvs) (auto simp: AList.delete_eq)

interpretation spark_kept: frames_store spark_changed index_ok
proof
  fix st :: spark_state and t m and e :: "shown_row frame_entry"
  assume "index_ok st t"
  then show "index_ok (spark_changed m (st\<lparr>fr_entries := AList.update m e (fr_entries st)\<rparr>)) t"
    by (auto simp: index_ok_def spark_changed_def update_map update_conv distinct_update)
next
  fix st :: spark_state and t m
  assume "index_ok st t"
  then show "index_ok (spark_changed m (st\<lparr>fr_entries := AList.delete m (fr_entries st)\<rparr>)) t"
    by (auto simp: index_ok_def spark_changed_def delete_map delete_conv distinct_delete)
qed (simp_all add: index_ok_def)

text \<open>The states of a store, and what its operations keep.\<close>

inductive spark_run :: "'s spark_keeping \<Rightarrow> spark_state \<times> 's \<Rightarrow> bool" for K where
  spark_start: "spark_run K (spark_init, s)"
| spark_wait: "spark_run K (st, s) \<Longrightarrow> spark_run K (st, s')"
| spark_page: "spark_run K x \<Longrightarrow> spark_run K (snd (spark_charts K items x))"
| spark_refreshed: "spark_run K x \<Longrightarrow> spark_run K (snd (spark_refresh K m (\<lambda>only. on_world (fetch only)) closed_at next_close x))"

lemma spark_charts_keeps:
  assumes "store_uses spark_changed K" "store_holds index_ok K x"
  shows "store_holds index_ok K (snd (spark_charts K items x))"
proof -
  obtain st s where c: "current K x = (st, s)" by (meson surj_pair)
  show ?thesis using spark_kept.current_holds[OF assms] by (simp add: spark_charts_def c Let_def)
qed

lemma index_ok_fields:
  "index_ok (st\<lparr>sp_retry_at := r\<rparr>) t = index_ok st t" "index_ok (st\<lparr>sp_pending := p\<rparr>) t = index_ok st t"
  "index_ok (spark_done m settled now ok answered st) t = index_ok st t"
  by (simp_all add: index_ok_def spark_done_def)

lemma marked_keeps:
  assumes "store_holds index_ok K x"
  shows "store_holds index_ok K (snd (marked (\<lambda>only. on_world (fetch only)) until only x))"
  using assms by (cases x) (auto simp: marked_def io_bind_def io_return_def on_world_def store_holds_def index_ok_def split: prod.splits sum.splits)

lemma io_bind_keeps:
  assumes "\<And>y. P y \<Longrightarrow> P (snd (f y))" "\<And>a y. P y \<Longrightarrow> P (snd (g a y))" "P x"
  shows "P (snd (io_bind f g x))"
proof (cases "f x")
  case (Pair r x')
  then have "P x'" using assms(1)[OF assms(3)] by simp
  then show ?thesis using assms(2) Pair by (cases r) (simp_all add: io_bind_def)
qed

lemma spark_refresh_keeps:
  assumes "store_uses spark_changed K" "store_holds index_ok K x"
  shows "store_holds index_ok K (snd (spark_refresh K m (\<lambda>only. on_world (fetch only)) closed_at next_close x))"
proof -
  obtain st s where x: "x = (st, s)" by (cases x)
  let ?marked = "marked (\<lambda>only. on_world (fetch only)) (next_close + SETTLE_SECONDS + GRACE_SECONDS)"
  have refreshed: "store_holds index_ok K (snd (refresh_frame K m (?marked only) stale only y))" if "store_holds index_ok K y" for only stale y
  proof -
    obtain r y' where r: "refresh_frame K m (?marked only) stale only y = (r, y')" by (meson surj_pair)
    have "store_holds index_ok K y'" by (rule spark_kept.refresh_holds[OF assms(1) that marked_keeps r])
    then show ?thesis by (simp only: r snd_conv)
  qed
  have again: "store_holds index_ok K (snd (ask_pending K m ?marked settled now answer y))" if "store_holds index_ok K y" for settled now answer y
  proof (cases y)
    case (Pair st s)
    then have "store_holds index_ok K (st\<lparr>sp_pending := p\<rparr>, s)" for p using that by (simp add: store_holds_def index_ok_fields)
    then show ?thesis using refreshed unfolding Pair ask_pending_def by (simp add: Let_def split: option.split)
  qed
  have finish: "store_holds index_ok K (snd ((case a of (ok, found) \<Rightarrow> \<lambda>(st, s). (Inr (), (spark_done m settled now ok (map_option snd found) st, s))) y))"
    if "store_holds index_ok K y" for settled now y and a :: "bool \<times> shown_row source_stats option"
    using that by (cases a; cases y) (simp add: store_holds_def index_ok_fields)
  have start: "store_holds index_ok K (st\<lparr>sp_retry_at := f\<rparr>, s)" for f
    using assms(2) by (simp add: x store_holds_def index_ok_fields)
  show ?thesis
  proof (cases "kp_time K s < sp_retry_at st m")
    case True
    then show ?thesis using assms(2) by (simp add: x spark_refresh_def Let_def)
  next
    case False
    show ?thesis unfolding x spark_refresh_def Let_def prod.case if_not_P[OF False]
      by (rule io_bind_keeps[where P = "store_holds index_ok K"], erule refreshed,
          rule io_bind_keeps[where P = "store_holds index_ok K"], erule again, erule finish, assumption, rule start)
  qed
qed

lemma spark_run_ok: "spark_run K x \<Longrightarrow> store_uses spark_changed K \<Longrightarrow> store_holds index_ok K x"
proof (induction rule: spark_run.induct)
  case (spark_start s)
  then show ?case by (simp add: store_holds_def index_ok_def spark_init_def)
next
  case (spark_wait st s s')
  then show ?case by (simp add: store_holds_def index_ok_def)
qed (simp_all add: spark_charts_keeps spark_refresh_keeps)

lemma map_of_markets:
  assumes "distinct (map fst es)"
  shows "map_of (concat (map (\<lambda>(m, e). map (\<lambda>(y, c). ((m, y), c)) (found m e)) es)) (m, s) =
    (case map_of es m of None \<Rightarrow> None | Some e \<Rightarrow> map_of (found m e) s)"
  using assms
proof (induction es)
  case (Cons me es)
  obtain m' e where me: "me = (m', e)" by (cases me)
  have one: "map_of (map (\<lambda>(y, c). ((m', y), c)) xs) (m, s) = (if m = m' then map_of xs s else None)" for xs :: "('d \<times> 'c) list"
    by (induction xs) auto
  have "map_of es m' = None" using Cons.prems by (simp add: me map_of_eq_None_iff)
  then show ?case using Cons by (auto simp: me one map_add_def split: option.splits)
qed simp

text \<open>C29: The mini charts of a page are, for every instrument, those read off the rows of its market's frame
  one by one: a cell for each of the market's last ten days with the symbol's candle of that day, and
  none while a candle of it is outdated; the index finds exactly the symbol's rows, whatever refreshes,
  pages and reloads came before and whatever Redis and the sources answered.\<close>

theorem spark_charts_exact:
  assumes "kp_changed K = spark_changed" "time_passes (kp_cache K) (kp_time K)"
    and "spark_run K x" "spark_charts K items x = (charts, st, s)"
  shows "charts = map (\<lambda>i. case map_of (fr_entries st) (in_market i) of None \<Rightarrow> None
     | Some e \<Rightarrow> chart_of (en_rows e) (kp_time K s) (in_symbol i)) items"
proof -
  have uses: "store_uses spark_changed K" using assms(1,2) by (simp add: store_uses_def)
  obtain st0 s0 where c: "current K x = (st0, s0)" by (meson surj_pair)
  have ok: "index_ok st0 (kp_time K s0)"
    using spark_kept.current_holds[OF uses spark_run_ok[OF assms(3) uses]] by (simp add: c)
  have st: "st = st0" "s = s0" using assms(4) by (simp_all add: spark_charts_def c Let_def)
  let ?found = "\<lambda>m e. spark_lookup (indexed e) (map in_symbol (filter (\<lambda>i. in_market i = m) items)) (kp_time K s)"
  have "charts = map (\<lambda>i. map_of (concat (map (\<lambda>(m, e). map (\<lambda>(y, c). ((m, y), c)) (?found m e)) (fr_entries st))) (in_market i, in_symbol i)) items"
    using assms(4) ok by (simp add: spark_charts_def c Let_def st index_ok_def comp_def case_prod_unfold)
  also have "\<dots> = map (\<lambda>i. case map_of (fr_entries st) (in_market i) of None \<Rightarrow> None
     | Some e \<Rightarrow> chart_of (en_rows e) (kp_time K s) (in_symbol i)) items"
    using ok by (intro map_cong[OF refl]) (auto simp: map_of_markets index_ok_def st lookup_chart split: option.splits)
  finally show ?thesis .
qed

section \<open>Examples\<close>

definition example_sparks :: "real spark_keeping" where
  "example_sparks = \<lparr>kp_cache = example_cache, kp_kind = ''spark'', kp_markets = [Crypto, Stock], kp_keep = SPARK_KEEP_SECONDS,
     kp_time = id, kp_monotonic = id, kp_read = (\<lambda>_. None), kp_write = (\<lambda>_. []), kp_symbol = fst \<circ> fst, kp_order = spark_order,
     kp_changed = spark_changed\<rparr>"

text \<open>The candle of a day, with one price; the daily candles of two stocks, one of them listed a day later.\<close>

definition example_cell :: "int \<Rightarrow> real \<Rightarrow> spark_cell" where
  "example_cell day x = (Some day, Some (Fin x), Some (Fin x), Some (Fin x), Some (Fin x))"

definition example_candles :: "spark_row list" where
  "example_candles = [(''B'', example_cell 86400 7), (''A'', example_cell 86400 2), (''A'', example_cell 0 1)]"

definition example_share :: "string \<Rightarrow> instrument" where
  "example_share symbol = \<lparr>in_id = \<lparr>i_market = Stock, i_symbol = symbol\<rparr>, in_name = symbol, in_source = [], in_feed = [],
     in_exchange = None, in_base = None, in_quote = None\<rparr>"

definition example_sparked :: "spark_state \<times> real" where
  "example_sparked = snd (spark_refresh example_sparks Stock (\<lambda>_. on_world (\<lambda>t. (Inr (example_candles, [''C'']), t))) 172800 259200 (spark_init, 180000))"

lemma example_sparked_entries:
  "fr_entries (fst example_sparked) = [(Stock, \<lparr>en_at = 180000, en_rows =
     [(((''A'', example_cell 0 1), 303300), 180000), (((''A'', example_cell 86400 2), 303300), 180000), (((''B'', example_cell 86400 7), 303300), 180000)]\<rparr>)]"
  by (simp add: example_sparked_def spark_refresh_def Let_def io_bind_def io_return_def refresh_frame_def due_def reload_def
      example_sparks_def example_cache_def spark_init_def on_world_def marked_def fetched_frame_def encode_chunk_def merged_def adopt_def
      ask_pending_def spark_done_def spark_changed_def next_pending_def spark_order_def example_candles_def row_symbol_def row_day_def
      row_cell_def example_cell_def SETTLE_SECONDS_def GRACE_SECONDS_def RETRY_SECONDS_def SPARK_KEEP_SECONDS_def)

theorem spark_charts_exact_witness:
  "fst (spark_charts example_sparks (map example_share [''A'', ''B'', ''C'']) (fst example_sparked, 200000)) =
   [Some [Some (example_cell 0 1), Some (example_cell 86400 2)], Some [None, Some (example_cell 86400 7)], None]"
proof -
  let ?items = "map example_share [''A'', ''B'', ''C'']"
  obtain charts st s where t: "spark_charts example_sparks ?items (fst example_sparked, 200000) = (charts, st, s)" by (metis prod_cases3)
  have "spark_run example_sparks example_sparked"
    unfolding example_sparked_def by (rule spark_refreshed[OF spark_start])
  then have run: "spark_run example_sparks (fst example_sparked, 200000)"
    using spark_wait by (metis prod.collapse)
  have c: "fr_entries (fst (current example_sparks (st0, 200000))) = fr_entries st0 \<and> snd (current example_sparks (st0, 200000)) = 200000"
    if "fr_entries st0 = [(Stock, e)]" "en_at e = 180000" for st0 e
    using that by (simp add: current_def reload_def Let_def forget_old_def example_sparks_def example_cache_def SPARK_KEEP_SECONDS_def)
  have st: "fr_entries st = fr_entries (fst example_sparked)" "s = 200000"
    using t c[OF example_sparked_entries] by (auto simp: spark_charts_def Let_def split: prod.splits)
  have "charts = map (\<lambda>i. case map_of (fr_entries st) (in_market i) of None \<Rightarrow> None
     | Some e \<Rightarrow> chart_of (en_rows e) (kp_time example_sparks s) (in_symbol i)) ?items"
    by (rule spark_charts_exact[OF _ _ run t]) (simp_all add: example_sparks_def example_passes)
  then have "charts = map (\<lambda>i. chart_of (en_rows (snd (hd (fr_entries (fst example_sparked))))) 200000 (in_symbol i)) ?items"
    by (simp add: st example_sparked_entries example_sparks_def example_share_def in_market_def)
  then show ?thesis unfolding t fst_conv
    by (simp add: example_sparked_entries chart_of_def Let_def row_symbol_def row_shown_def row_day_def row_cell_def example_cell_def
        example_share_def in_symbol_def spark_days_of_def SPARK_DAYS_def sorted_list_of_set_sort_remdups last_of_def del: sorted_list_of_set_insert_remove)
qed

end
