(* ===== verification/DataFirsts.thy ===== *)
theory DataFirsts
  imports DataStats "HOL-Library.Sublist"
begin

text \<open>
  \<open>data/firsts.py\<close>: the first candle of each instrument, from Redis or its source, and the lookups in the
  background for the instruments of a page that Redis lacks. A task is the instrument it looks up: it
  is running from its start until \<open>lookup_task\<close> ran. The theorems: at most five lookups are started for
  a page and at most ten run at once, none of them for an instrument that is paused, and nothing a
  task does holds up more than the instrument or market it failed for.
\<close>

section \<open>Constants and state\<close>

definition FIRST_TTL :: int where "FIRST_TTL = 90 * DAY_SECONDS"
definition FIRST_NONE_TTL :: int where "FIRST_NONE_TTL = 3600"
definition WARM_PER_PAGE :: nat where "WARM_PER_PAGE = 5"
definition WARM_RUNNING_MAX :: nat where "WARM_RUNNING_MAX = 10"
definition WARM_RATE_KEY :: string where "WARM_RATE_KEY = ''data:rl:first-warm''"

definition WARM_PER_MINUTE :: "market \<Rightarrow> int" where
  "WARM_PER_MINUTE m = (case m of Crypto \<Rightarrow> 60 | Stock \<Rightarrow> 6)"

definition WARM_PAUSE_SECONDS :: int where "WARM_PAUSE_SECONDS = 60"
definition INSTRUMENT_PAUSE_SECONDS :: int where "INSTRUMENT_PAUSE_SECONDS = 3600"

definition first_name :: "instrument_id \<Rightarrow> string" where
  "first_name i = ''first:'' @ show_id i"

record firsts =
  fs_running :: "instrument list"
  fs_paused_until :: "market \<Rightarrow> real"
  fs_instrument_paused :: "(instrument_id \<times> real) list"

record 's firsts_env =
  fe_cache :: "'s cache_use"
  fe_source :: "market \<Rightarrow> 's data_source"
  fe_hit :: "string \<Rightarrow> int \<Rightarrow> 's \<Rightarrow> real \<times> 's"
  fe_monotonic :: "'s \<Rightarrow> real"

definition firsts_init :: firsts where
  "firsts_init = \<lparr>fs_running = [], fs_paused_until = (\<lambda>_. 0), fs_instrument_paused = []\<rparr>"

section \<open>The first candle\<close>

text \<open>\<open>first\<close>: the fetch, and the stored value read back; bytes that are no number are a \<open>ValueError\<close>.\<close>

definition fetch_first :: "'s firsts_env \<Rightarrow> instrument \<Rightarrow> ('s, string \<times> int) io" where
  "fetch_first E i = io_bind (src_first_timestamp (fe_source E (in_market i)) (in_symbol i))
     (\<lambda>t. io_return (case t of None \<Rightarrow> ([], FIRST_NONE_TTL) | Some t \<Rightarrow> (show_int t, FIRST_TTL)))"

definition read_first :: "string \<Rightarrow> raised + int option" where
  "read_first blob = (if blob = [] then Inr None
     else (case int_of_text blob of None \<Rightarrow> Inl (Crash ''ValueError'') | Some t \<Rightarrow> Inr (Some t)))"

definition first_candle :: "'s firsts_env \<Rightarrow> instrument \<Rightarrow> ('s, int option) io" where
  "first_candle E i = io_bind (cu_fetch (fe_cache E) (first_name (in_id i)) (fetch_first E i))
     (\<lambda>blob s. (read_first blob, s))"

section \<open>Lookups in the background\<close>

text \<open>\<open>_warm\<close>: the instruments whose lookup is started; \<open>started\<close> of this page before them.\<close>

definition may_start :: "firsts \<Rightarrow> real \<Rightarrow> instrument \<Rightarrow> bool" where
  "may_start st now i =
     (\<not> (in_id i \<in> set (map in_id (fs_running st)) \<or> now < fs_paused_until st (in_market i) \<or>
         now < (case map_of (fs_instrument_paused st) (in_id i) of None \<Rightarrow> 0 | Some t \<Rightarrow> t)))"

fun warm_from :: "real \<Rightarrow> nat \<Rightarrow> instrument list \<Rightarrow> firsts \<Rightarrow> firsts" where
  "warm_from now started [] st = st"
| "warm_from now started (i # missing) st =
     (if started = WARM_PER_PAGE \<or> length (fs_running st) \<ge> WARM_RUNNING_MAX then st
      else if may_start st now i then warm_from now (started + 1) missing (st\<lparr>fs_running := fs_running st @ [i]\<rparr>)
      else warm_from now started missing st)"

definition warm :: "real \<Rightarrow> instrument list \<Rightarrow> firsts \<Rightarrow> firsts" where
  "warm now missing st = warm_from now 0 missing st"

definition known_firsts :: "'s firsts_env \<Rightarrow> instrument list \<Rightarrow> (firsts \<times> 's, int option list) io" where
  "known_firsts E items = (\<lambda>(st, s). case cu_get_many (fe_cache E) (map (\<lambda>i. first_name (in_id i)) items) s of
     (blobs, s) \<Rightarrow>
       (let st = (if cu_available (fe_cache E) s
            then warm (fe_monotonic E s) (map fst (filter (\<lambda>(_, blob). blob = None) (zip items blobs))) st else st)
        in (case map_opt (\<lambda>blob. case blob of None \<Rightarrow> Some None
                | Some b \<Rightarrow> (case read_first b of Inl _ \<Rightarrow> None | Inr t \<Rightarrow> Some t)) blobs of
              None \<Rightarrow> (Inl (Crash ''ValueError''), (st, s))
            | Some firsts \<Rightarrow> (Inr firsts, (st, s)))))"

definition pause_instrument :: "real \<Rightarrow> instrument_id \<Rightarrow> firsts \<Rightarrow> firsts" where
  "pause_instrument now i st = st\<lparr>fs_instrument_paused :=
     AList.update i (now + of_int INSTRUMENT_PAUSE_SECONDS) (filter (\<lambda>(_, until). until > now) (fs_instrument_paused st))\<rparr>"

definition pause_market :: "real \<Rightarrow> market \<Rightarrow> int option \<Rightarrow> firsts \<Rightarrow> firsts" where
  "pause_market now m after st = st\<lparr>fs_paused_until := (fs_paused_until st)(m := now +
     of_int (max WARM_PAUSE_SECONDS (case after of None \<Rightarrow> 0 | Some secs \<Rightarrow> secs)))\<rparr>"

text \<open>\<open>_lookup\<close>: what a failure leads to; other errors are logged.\<close>

definition lookup_failed :: "real \<Rightarrow> instrument \<Rightarrow> raised \<Rightarrow> firsts \<Rightarrow> firsts" where
  "lookup_failed now i e st = (case e of
      DataFault (SourceUnavailable _ _ after refused) \<Rightarrow>
        if refused then pause_instrument now (in_id i) st else pause_market now (in_market i) after st
    | DataFault (DataIntegrityError _ _) \<Rightarrow> pause_instrument now (in_id i) st
    | _ \<Rightarrow> st)"

text \<open>The task of a running lookup, to its end, when it is taken off the running ones.\<close>

definition lookup_end :: "instrument \<Rightarrow> firsts \<Rightarrow> firsts" where
  "lookup_end i st = st\<lparr>fs_running := filter (\<lambda>x. in_id x \<noteq> in_id i) (fs_running st)\<rparr>"

definition lookup_task :: "'s firsts_env \<Rightarrow> instrument \<Rightarrow> firsts \<times> 's \<Rightarrow> firsts \<times> 's" where
  "lookup_task E i = (\<lambda>(st, s).
     case fe_hit E (WARM_RATE_KEY @ '':'' @ market_name (in_market i)) (WARM_PER_MINUTE (in_market i)) s of
       (wait, s) \<Rightarrow> if wait > 0 then (lookup_end i st, s)
         else (case first_candle E i s of
             (Inr _, s) \<Rightarrow> (lookup_end i st, s)
           | (Inl e, s) \<Rightarrow> (lookup_end i (lookup_failed (fe_monotonic E s) i e st), s)))"

section \<open>What runs\<close>

lemma warm_from_spec:
  assumes "warm_from now started missing st = st'" "started \<le> WARM_PER_PAGE"
  shows "\<exists>new. st' = st\<lparr>fs_running := fs_running st @ new\<rparr> \<and> subseq new missing \<and> started + length new \<le> WARM_PER_PAGE \<and>
    length (fs_running st') \<le> max (length (fs_running st)) WARM_RUNNING_MAX \<and> (\<forall>i \<in> set new. may_start st now i) \<and>
    distinct (map in_id new)"
  using assms
proof (induction now started missing st rule: warm_from.induct)
  case (1 now started st)
  then show ?case by (intro exI[of _ "[]"]) simp
next
  case (2 now started i missing st)
  show ?case
  proof (cases "started = WARM_PER_PAGE \<or> length (fs_running st) \<ge> WARM_RUNNING_MAX")
    case True
    then show ?thesis using 2(3,4) by (intro exI[of _ "[]"]) auto
  next
    case False
    show ?thesis
    proof (cases "may_start st now i")
      case True
      let ?st = "st\<lparr>fs_running := fs_running st @ [i]\<rparr>"
      obtain new where new: "st' = ?st\<lparr>fs_running := fs_running ?st @ new\<rparr>" "subseq new missing" "started + 1 + length new \<le> WARM_PER_PAGE"
        "length (fs_running st') \<le> max (length (fs_running ?st)) WARM_RUNNING_MAX" "\<forall>x \<in> set new. may_start ?st now x" "distinct (map in_id new)"
        using 2(1)[OF False True] 2(3,4) False True by auto
      have "may_start st now x \<and> in_id x \<noteq> in_id i" if "x \<in> set new" for x
        using new(5) that by (auto simp: may_start_def)
      then have "in_id i \<notin> in_id ` set new" "\<forall>x \<in> set new. may_start st now x" by fastforce+
      then show ?thesis using new True False by (intro exI[of _ "i # new"]) auto
    next
      case may: False
      obtain new where new: "st' = st\<lparr>fs_running := fs_running st @ new\<rparr>" "subseq new missing" "started + length new \<le> WARM_PER_PAGE"
        "length (fs_running st') \<le> max (length (fs_running st)) WARM_RUNNING_MAX" "\<forall>i \<in> set new. may_start st now i" "distinct (map in_id new)"
        using 2(2)[OF False may] 2(3,4) False may by auto
      then show ?thesis by (intro exI[of _ new]) (auto intro: subseq_Cons')
    qed
  qed
qed

text \<open>The states of the lookups: pages and tasks that end, in any order, while time passes.\<close>

inductive firsts_run :: "'s firsts_env \<Rightarrow> firsts \<times> 's \<Rightarrow> bool" for E where
  firsts_start: "firsts_run E (firsts_init, s)"
| firsts_wait: "firsts_run E (st, s) \<Longrightarrow> firsts_run E (st, s')"
| firsts_page: "firsts_run E x \<Longrightarrow> firsts_run E (snd (known_firsts E items x))"
| firsts_task: "firsts_run E (st, s) \<Longrightarrow> i \<in> set (fs_running st) \<Longrightarrow> firsts_run E (lookup_task E i (st, s))"

definition lookups_ok :: "firsts \<Rightarrow> bool" where
  "lookups_ok st = (length (fs_running st) \<le> WARM_RUNNING_MAX \<and> distinct (map in_id (fs_running st)))"

text \<open>What a page starts.\<close>

lemma warm_spec:
  assumes "warm now missing st = st'" "lookups_ok st"
  shows "lookups_ok st' \<and> (\<exists>new. st' = st\<lparr>fs_running := fs_running st @ new\<rparr> \<and> subseq new missing \<and> length new \<le> WARM_PER_PAGE \<and>
    (\<forall>i \<in> set new. may_start st now i))"
proof -
  obtain new where new: "st' = st\<lparr>fs_running := fs_running st @ new\<rparr>" "subseq new missing" "length new \<le> WARM_PER_PAGE"
    "length (fs_running st') \<le> max (length (fs_running st)) WARM_RUNNING_MAX" "\<forall>i \<in> set new. may_start st now i" "distinct (map in_id new)"
    using warm_from_spec[of now 0 missing st st'] assms(1) by (auto simp: warm_def)
  have "\<forall>x \<in> set new. in_id x \<notin> in_id ` set (fs_running st)" using new(5) by (simp add: may_start_def)
  then have "\<forall>y \<in> in_id ` set new. y \<notin> in_id ` set (fs_running st)" by (simp only: ball_simps)
  then have "in_id ` set (fs_running st) \<inter> in_id ` set new = {}" by (simp only: disjoint_iff) blast
  then have ok: "lookups_ok st'" using assms(2) new by (auto simp: lookups_ok_def)
  show ?thesis using ok new by blast
qed

lemma known_firsts_state:
  "known_firsts E items (st, s) = (r, st', s') \<Longrightarrow> s' = snd (cu_get_many (fe_cache E) (map (\<lambda>i. first_name (in_id i)) items) s) \<and>
     (st' = st \<or> (\<exists>missing. subseq missing items \<and> st' = warm (fe_monotonic E s') missing st))"
proof -
  assume k: "known_firsts E items (st, s) = (r, st', s')"
  obtain blobs s1 where g: "cu_get_many (fe_cache E) (map (\<lambda>i. first_name (in_id i)) items) s = (blobs, s1)" by (meson surj_pair)
  have sub: "subseq (map fst (filter P (zip xs ys))) xs" for P and xs :: "instrument list" and ys :: "string option list"
    by (induction xs ys rule: list_induct2') auto
  have "s' = s1 \<and> st' = (if cu_available (fe_cache E) s1
      then warm (fe_monotonic E s1) (map fst (filter (\<lambda>(_, blob). blob = None) (zip items blobs))) st else st)"
    using k by (auto simp only: known_firsts_def g Let_def prod.case option.case_distrib split: option.splits)
  then show ?thesis using sub[of "\<lambda>(_, blob). blob = None" items blobs] by (cases "cu_available (fe_cache E) s1") (auto simp: g)
qed

lemma lookup_task_running: "fs_running (fst (lookup_task E i (st, s))) = filter (\<lambda>x. in_id x \<noteq> in_id i) (fs_running st)"
  by (auto simp: lookup_task_def lookup_end_def lookup_failed_def pause_instrument_def pause_market_def
      split: prod.splits sum.splits raised.splits data_error.splits)

lemma lookups_ok_run: "firsts_run E x \<Longrightarrow> lookups_ok (fst x)"
proof (induction rule: firsts_run.induct)
  case (firsts_page x items)
  obtain st s where x: "x = (st, s)" by (cases x)
  obtain r st' s' where k: "known_firsts E items (st, s) = (r, st', s')" by (metis prod_cases3)
  show ?case using known_firsts_state[OF k] firsts_page.IH warm_spec[OF refl] by (auto simp: x k)
next
  case (firsts_task st s i)
  show ?case using firsts_task.IH
    by (simp add: lookups_ok_def lookup_task_running distinct_map_filter le_trans[OF length_filter_le])
qed (simp_all add: lookups_ok_def firsts_init_def)

text \<open>Whatever pages and lookups came before, the list asks no source for a page: it reads Redis and starts
  at most five lookups, for instruments of the page that are neither being looked up nor paused, alone
  or with their market; never more than ten run, each for another instrument.\<close>

theorem page_starts_few:
  assumes "firsts_run E (st, s)" "known_firsts E items (st, s) = (r, st', s')"
  shows "s' = snd (cu_get_many (fe_cache E) (map (\<lambda>i. first_name (in_id i)) items) s) \<and>
    (\<exists>new. st' = st\<lparr>fs_running := fs_running st @ new\<rparr> \<and> length new \<le> WARM_PER_PAGE \<and> subseq new items \<and>
       length (fs_running st') \<le> WARM_RUNNING_MAX \<and> distinct (map in_id (fs_running st')) \<and>
       (\<forall>i \<in> set new. fs_paused_until st (in_market i) \<le> fe_monotonic E s' \<and>
          (\<forall>t. map_of (fs_instrument_paused st) (in_id i) = Some t \<longrightarrow> t \<le> fe_monotonic E s')))"
proof -
  have ok: "lookups_ok st" using lookups_ok_run[OF assms(1)] by simp
  have state: "s' = snd (cu_get_many (fe_cache E) (map (\<lambda>i. first_name (in_id i)) items) s)"
    "st' = st \<or> (\<exists>missing. subseq missing items \<and> st' = warm (fe_monotonic E s') missing st)"
    using known_firsts_state[OF assms(2)] by blast+
  have may: "fs_paused_until st (in_market i) \<le> now \<and> (\<forall>t. map_of (fs_instrument_paused st) (in_id i) = Some t \<longrightarrow> t \<le> now)"
    if "may_start st now i" for now i using that by (auto simp: may_start_def)
  from state(2) have "lookups_ok st' \<and> (\<exists>new. st' = st\<lparr>fs_running := fs_running st @ new\<rparr> \<and> subseq new items \<and> length new \<le> WARM_PER_PAGE \<and>
    (\<forall>i \<in> set new. may_start st (fe_monotonic E s') i))"
  proof
    assume "st' = st"
    then show ?thesis using ok by (intro conjI exI[of _ "[]"]) auto
  next
    assume "\<exists>missing. subseq missing items \<and> st' = warm (fe_monotonic E s') missing st"
    then obtain missing where m: "subseq missing items" "warm (fe_monotonic E s') missing st = st'" by blast
    show ?thesis using warm_spec[OF m(2) ok] subseq_order.trans[OF _ m(1)] by blast
  qed
  then show ?thesis using state(1) may unfolding lookups_ok_def by blast
qed

text \<open>A page of seven stocks Redis knows nothing of, with one that is being looked up.\<close>

definition example_firsts :: "real firsts_env" where
  "example_firsts = \<lparr>fe_cache = example_cache\<lparr>cu_available := \<lambda>_. True\<rparr>, fe_source = (\<lambda>_. undefined), fe_hit = (\<lambda>_ _ s. (0, s)),
     fe_monotonic = id\<rparr>"

definition example_stock :: "string \<Rightarrow> instrument" where
  "example_stock symbol = \<lparr>in_id = \<lparr>i_market = Stock, i_symbol = symbol\<rparr>, in_name = symbol, in_source = [], in_feed = [],
     in_exchange = None, in_base = None, in_quote = None\<rparr>"

lemma example_page: "known_firsts example_firsts (map example_stock names) (st, s) =
    (Inr (map (\<lambda>_. None) names), warm s (map example_stock names) st, s)"
proof -
  have "map fst (filter (\<lambda>(_, blob). blob = (None :: string option)) (zip (map example_stock xs) (map (\<lambda>_. None) xs))) = map example_stock xs" for xs
    by (induction xs) auto
  moreover have "map_opt f (map (\<lambda>_. None) xs) = Some (map (\<lambda>_. None) xs)" if "f None = Some None" for f :: "string option \<Rightarrow> int option option" and xs :: "string list"
    using that by (induction xs) auto
  ultimately show ?thesis by (simp add: known_firsts_def example_firsts_def example_cache_def Let_def comp_def)
qed

theorem page_starts_few_witness:
  "let st = fst (snd (known_firsts example_firsts [example_stock ''A''] (firsts_init, 10)));
     page = map example_stock [''A'', ''B'', ''C'', ''D'', ''E'', ''F'', ''G'']
   in fs_running (fst (snd (known_firsts example_firsts page (st, 20)))) = map example_stock [''A'', ''B'', ''C'', ''D'', ''E'', ''F''] \<and>
      (\<exists>new. length new \<le> WARM_PER_PAGE \<and> subseq new page \<and> map example_stock [''A'', ''B'', ''C'', ''D'', ''E'', ''F''] = fs_running st @ new)"
proof -
  let ?page = "map example_stock [''A'', ''B'', ''C'', ''D'', ''E'', ''F'', ''G'']"
  let ?st = "fst (snd (known_firsts example_firsts [example_stock ''A''] (firsts_init, 10)))"
  have "firsts_run example_firsts (snd (known_firsts example_firsts [example_stock ''A''] (firsts_init, 10)))"
    by (rule firsts_page[OF firsts_start])
  then have run: "firsts_run example_firsts (?st, 20)" using firsts_wait by (metis prod.collapse)
  have st: "?st = firsts_init\<lparr>fs_running := [example_stock ''A'']\<rparr>"
    using example_page[of "[''A'']"] by (simp add: warm_def WARM_PER_PAGE_def WARM_RUNNING_MAX_def may_start_def firsts_init_def)
  have running: "fs_running (warm 20 ?page ?st) = map example_stock [''A'', ''B'', ''C'', ''D'', ''E'', ''F'']"
    unfolding st by (simp add: warm_def WARM_PER_PAGE_def WARM_RUNNING_MAX_def may_start_def firsts_init_def example_stock_def)
  obtain new where new: "warm 20 ?page ?st = ?st\<lparr>fs_running := fs_running ?st @ new\<rparr>" "length new \<le> WARM_PER_PAGE" "subseq new ?page"
    using page_starts_few[OF run example_page[of "[''A'', ''B'', ''C'', ''D'', ''E'', ''F'', ''G'']"]] by blast
  have "map example_stock [''A'', ''B'', ''C'', ''D'', ''E'', ''F''] = fs_running ?st @ new"
    using arg_cong[OF new(1), of fs_running] running by simp
  then have "\<exists>new. length new \<le> WARM_PER_PAGE \<and> subseq new ?page \<and> map example_stock [''A'', ''B'', ''C'', ''D'', ''E'', ''F''] = fs_running ?st @ new"
    using new(2,3) by blast
  then show ?thesis unfolding Let_def example_page snd_conv fst_conv running by blast
qed

end
