(* ===== verification/DataCatalogStore.thy ===== *)
theory DataCatalogStore
  imports DataStats
begin

text \<open>
  \<open>data/catalog_store.py\<close>: the catalogs of both markets in Redis and process memory, refreshed by tasks in
  the background. A task is a value; a step runs a task from its start to its end, and the entries of a
  call (\<open>asyncio.gather\<close>) are got in their order. While a thread builds the catalog, the tasks
  \<open>ct_others\<close> run. The theorems: the catalog of a call is always the one of the lists loaded when it
  returns, whatever tasks ran meanwhile, and a list is only replaced by one fetched later; and when the
  source of one market failed before and that of the other fails at its first try, the call gives an
  empty catalog instead of the error its documentation promises.
\<close>

section \<open>State\<close>

definition REFRESH_AFTER :: int where "REFRESH_AFTER = DAY_SECONDS"
definition KEEP_TTL :: int where "KEEP_TTL = 7 * DAY_SECONDS"
definition CATALOG_RETRY_SECONDS :: real where "CATALOG_RETRY_SECONDS = 300"
definition LOAD_RETRY_SECONDS :: real where "LOAD_RETRY_SECONDS = 30"

record catalog_entry =
  ce_at :: int
  ce_items :: "instrument list"

datatype catalog_task = LoadTask market | RefreshTask market

record catalogs =
  cs_entries :: "market \<rightharpoonup> catalog_entry"
  cs_catalog :: "catalog option"
  cs_version :: nat
  cs_next_refresh :: "market \<Rightarrow> real"
  cs_failed :: "market \<rightharpoonup> real \<times> data_error"
  cs_loading :: "market list"
  cs_tasks :: "catalog_task list"

record 's catalog_env =
  ct_cache :: "'s cache_use"
  ct_source :: "market \<Rightarrow> 's data_source"
  ct_time :: "'s \<Rightarrow> real"
  ct_monotonic :: "'s \<Rightarrow> real"
  ct_loads :: "string \<Rightarrow> json option"
  ct_dumps :: "json \<Rightarrow> string"
  ct_str :: "json \<Rightarrow> string"
  ct_others :: "'s \<Rightarrow> catalog_task list"

text \<open>The markets, in the order of the enumeration and of the sources.\<close>

definition CATALOG_MARKETS :: "market list" where "CATALOG_MARKETS = [Crypto, Stock]"

definition catalogs_init :: catalogs where
  "catalogs_init = \<lparr>cs_entries = Map.empty, cs_catalog = None, cs_version = 0, cs_next_refresh = (\<lambda>_. 0), cs_failed = Map.empty,
     cs_loading = [], cs_tasks = []\<rparr>"

definition catalog_name :: "market \<Rightarrow> string" where "catalog_name m = ''catalog:'' @ market_name m"

section \<open>The stored list\<close>

definition json_of_text :: "string option \<Rightarrow> json" where
  "json_of_text t = (case t of None \<Rightarrow> JNull | Some s \<Rightarrow> JStr s)"

definition stored_item :: "instrument \<Rightarrow> json" where
  "stored_item i = JList [JStr (in_symbol i), JStr (in_name i), json_of_text (in_exchange i), json_of_text (in_base i), json_of_text (in_quote i)]"

definition fetch_catalog :: "'s catalog_env \<Rightarrow> market \<Rightarrow> ('s, string \<times> int) io" where
  "fetch_catalog E m = io_bind (src_list_instruments (ct_source E m)) (\<lambda>items s.
     (Inr (ct_dumps E (JObj [(''fetched_at'', JInt \<lfloor>ct_time E s\<rfloor>), (''items'', JList (map stored_item items))]), KEEP_TTL), s))"

text \<open>\<open>int(value)\<close>; the text of a field (a value that is no text, which the store never writes, by its
  \<open>str\<close>), with null as no text where the instrument has an optional field.\<close>

definition json_int :: "json \<Rightarrow> int option" where
  "json_int v = (case v of JInt i \<Rightarrow> Some i | JNum x \<Rightarrow> fl_trunc x | JBool b \<Rightarrow> Some (if b then 1 else 0) | JStr t \<Rightarrow> int_of_text t | _ \<Rightarrow> None)"

definition field_text :: "(json \<Rightarrow> string) \<Rightarrow> json \<Rightarrow> string" where
  "field_text str v = (case v of JStr s \<Rightarrow> s | _ \<Rightarrow> str v)"

definition field_option :: "(json \<Rightarrow> string) \<Rightarrow> json \<Rightarrow> string option" where
  "field_option str v = (if v = JNull then None else Some (field_text str v))"

definition item_of :: "'s catalog_env \<Rightarrow> market \<Rightarrow> json \<Rightarrow> instrument option" where
  "item_of E m v = (case json_items v of
      Some [symbol, name, exchange, base, quote] \<Rightarrow>
        Some \<lparr>in_id = \<lparr>i_market = m, i_symbol = field_text (ct_str E) symbol\<rparr>, in_name = field_text (ct_str E) name,
          in_source = src_name (ct_source E m), in_feed = src_feed (ct_source E m), in_exchange = field_option (ct_str E) exchange,
          in_base = field_option (ct_str E) base, in_quote = field_option (ct_str E) quote\<rparr>
    | _ \<Rightarrow> None)"

definition unreadable_catalog :: "market \<Rightarrow> data_error" where
  "unreadable_catalog m = DataIntegrityError (''The cached '' @ market_name m @ '' catalog cannot be read'') None"

definition decode_catalog :: "'s catalog_env \<Rightarrow> market \<Rightarrow> string \<Rightarrow> catalog_entry option" where
  "decode_catalog E m blob = (case ct_loads E blob of
      None \<Rightarrow> None
    | Some v \<Rightarrow> (case Option.bind (json_get v ''items'') json_items of
        None \<Rightarrow> None
      | Some rows \<Rightarrow> (case (map_opt (item_of E m) rows, Option.bind (json_get v ''fetched_at'') json_int) of
          (Some items, Some t) \<Rightarrow> Some \<lparr>ce_at = t, ce_items = items\<rparr>
        | _ \<Rightarrow> None)))"

section \<open>Loading\<close>

definition adopt_catalog :: "market \<Rightarrow> catalog_entry \<Rightarrow> catalogs \<Rightarrow> catalogs" where
  "adopt_catalog m e st =
     (if (case cs_entries st m of None \<Rightarrow> True | Some old \<Rightarrow> ce_at e > ce_at old)
      then st\<lparr>cs_entries := (cs_entries st)(m \<mapsto> e), cs_catalog := None, cs_version := cs_version st + 1\<rparr> else st)"

text \<open>The list from Redis or the source; one in Redis that cannot be read is fetched again.\<close>

definition stored_catalog :: "'s catalog_env \<Rightarrow> market \<Rightarrow> ('s, catalog_entry) io" where
  "stored_catalog E m = (let get = cu_fetch (ct_cache E) (catalog_name m) (fetch_catalog E m)
     in io_bind get (\<lambda>blob. case decode_catalog E m blob of
          Some e \<Rightarrow> io_return e
        | None \<Rightarrow> io_bind (\<lambda>s. get (cu_delete (ct_cache E) (catalog_name m) s))
            (\<lambda>blob. case decode_catalog E m blob of Some e \<Rightarrow> io_return e | None \<Rightarrow> io_fault (unreadable_catalog m))))"

definition load_catalog :: "'s catalog_env \<Rightarrow> market \<Rightarrow> (catalogs \<times> 's, catalog_entry) io" where
  "load_catalog E m = (\<lambda>(st, s).
     case (case cs_failed st m of Some (t, e) \<Rightarrow> if ct_monotonic E s < t then Some e else None | None \<Rightarrow> None) of
       Some e \<Rightarrow> (Inl (DataFault e), (st, s))
     | None \<Rightarrow> (case stored_catalog E m s of
         (Inr e, s) \<Rightarrow> (Inr e, (adopt_catalog m e st, s))
       | (Inl (DataFault e), s) \<Rightarrow>
           (Inl (DataFault e), (st\<lparr>cs_failed := (cs_failed st)(m \<mapsto> (ct_monotonic E s + LOAD_RETRY_SECONDS, e))\<rparr>, s))
       | (Inl (Crash c), s) \<Rightarrow> (Inl (Crash c), (st, s))))"

definition load_in_background :: "'s catalog_env \<Rightarrow> market \<Rightarrow> catalogs \<times> 's \<Rightarrow> catalogs \<times> 's" where
  "load_in_background E m = (\<lambda>(st, s).
     if m \<in> set (cs_loading st) \<or> (case cs_failed st m of None \<Rightarrow> ct_monotonic E s < 0 | Some (t, _) \<Rightarrow> ct_monotonic E s < t)
     then (st, s) else (st\<lparr>cs_loading := cs_loading st @ [m], cs_tasks := cs_tasks st @ [LoadTask m]\<rparr>, s))"

definition refresh_in_background :: "'s catalog_env \<Rightarrow> market \<Rightarrow> catalogs \<times> 's \<Rightarrow> catalogs \<times> 's" where
  "refresh_in_background E m = (\<lambda>(st, s).
     if ct_monotonic E s < cs_next_refresh st m then (st, s)
     else (st\<lparr>cs_next_refresh := (cs_next_refresh st)(m := ct_monotonic E s + CATALOG_RETRY_SECONDS),
             cs_tasks := cs_tasks st @ [RefreshTask m]\<rparr>, s))"

definition get_entry :: "'s catalog_env \<Rightarrow> market \<Rightarrow> (catalogs \<times> 's, catalog_entry) io" where
  "get_entry E m = io_bind (\<lambda>(st, s). case cs_entries st m of Some e \<Rightarrow> (Inr e, (st, s)) | None \<Rightarrow> load_catalog E m (st, s))
     (\<lambda>e (st, s). (Inr e, if ct_time E s - of_int (ce_at e) \<ge> of_int REFRESH_AFTER then refresh_in_background E m (st, s) else (st, s)))"

section \<open>The tasks\<close>

text \<open>\<open>_refresh\<close>, whose errors are logged: its part with the lock, and the check before it.\<close>

definition replace_catalog :: "'s catalog_env \<Rightarrow> market \<Rightarrow> catalogs \<times> 's \<Rightarrow> catalogs \<times> 's" where
  "replace_catalog E m = (\<lambda>(st, s).
     let C = ct_cache E; name = catalog_name m
     in (case cu_lock C name LOCK_TTL_MS s of
          (None, s) \<Rightarrow> (st, s)
        | (Some token, s) \<Rightarrow> (case fetch_catalog E m s of
            (Inl _, s) \<Rightarrow> (st, cu_unlock C name token s)
          | (Inr (blob, ttl), s) \<Rightarrow>
              (let s = cu_unlock C name token (cu_set C name blob ttl s)
               in (case decode_catalog E m blob of None \<Rightarrow> (st, s) | Some e \<Rightarrow> (adopt_catalog m e st, s))))))"

definition refresh_catalog :: "'s catalog_env \<Rightarrow> market \<Rightarrow> catalogs \<times> 's \<Rightarrow> catalogs \<times> 's" where
  "refresh_catalog E m = (\<lambda>(st, s).
     let C = ct_cache E; name = catalog_name m
     in (case cu_get C name s of (stored, s) \<Rightarrow>
          (case Option.bind stored (decode_catalog E m) of
             Some e \<Rightarrow> if ct_time E s - of_int (ce_at e) < of_int REFRESH_AFTER then (adopt_catalog m e st, s)
               else replace_catalog E m (st, s)
           | None \<Rightarrow> replace_catalog E m (st, s))))"

text \<open>\<open>_load_quietly\<close>\<close>

definition load_quietly :: "'s catalog_env \<Rightarrow> market \<Rightarrow> catalogs \<times> 's \<Rightarrow> catalogs \<times> 's" where
  "load_quietly E m x = (case snd (load_catalog E m x) of (st, s) \<Rightarrow> (st\<lparr>cs_loading := filter (\<lambda>x. x \<noteq> m) (cs_loading st)\<rparr>, s))"

definition run_task :: "'s catalog_env \<Rightarrow> catalog_task \<Rightarrow> catalogs \<times> 's \<Rightarrow> catalogs \<times> 's" where
  "run_task E t x = (case (case t of LoadTask m \<Rightarrow> load_quietly E m x | RefreshTask m \<Rightarrow> refresh_catalog E m x) of
      (st, s) \<Rightarrow> (st\<lparr>cs_tasks := remove1 t (cs_tasks st)\<rparr>, s))"

text \<open>Some tasks, as far as they were started.\<close>

fun run_tasks :: "'s catalog_env \<Rightarrow> catalog_task list \<Rightarrow> catalogs \<times> 's \<Rightarrow> catalogs \<times> 's" where
  "run_tasks E [] x = x"
| "run_tasks E (t # ts) x = run_tasks E ts (if t \<in> set (cs_tasks (fst x)) then run_task E t x else x)"

section \<open>The catalog\<close>

text \<open>\<open>gather\<close> with the errors as results.\<close>

fun get_entries :: "'s catalog_env \<Rightarrow> market list \<Rightarrow> catalogs \<times> 's \<Rightarrow> raised list \<times> catalogs \<times> 's" where
  "get_entries E [] x = ([], x)"
| "get_entries E (m # ms) x = (case get_entry E m x of
      (Inl e, x) \<Rightarrow> (case get_entries E ms x of (es, x) \<Rightarrow> (e # es, x))
    | (Inr _, x) \<Rightarrow> get_entries E ms x)"

definition loaded_items :: "catalogs \<Rightarrow> instrument list" where
  "loaded_items st = concat (map (\<lambda>m. case cs_entries st m of None \<Rightarrow> [] | Some e \<Rightarrow> ce_items e) CATALOG_MARKETS)"

text \<open>The loop that builds the catalog, with fuel for its rounds.\<close>

fun build_catalog :: "nat \<Rightarrow> 's catalog_env \<Rightarrow> (catalogs \<times> 's, catalog) io" where
  "build_catalog fuel E (st, s) = (case cs_catalog st of
      Some c \<Rightarrow> (Inr c, (st, s))
    | None \<Rightarrow> (case fuel of 0 \<Rightarrow> (Inl (Crash ''out of fuel''), (st, s))
      | Suc n \<Rightarrow>
          (let version = cs_version st; c = make_catalog (loaded_items st)
           in (case run_tasks E (ct_others E s) (st, s) of (st, s) \<Rightarrow>
                build_catalog n E (if version = cs_version st then st\<lparr>cs_catalog := Some c\<rparr> else st, s)))))"

declare build_catalog.simps [simp del]

fun first_crash :: "raised list \<Rightarrow> string option" where
  "first_crash [] = None"
| "first_crash (Crash c # es) = Some c"
| "first_crash (DataFault e # es) = first_crash es"

definition wanted_markets :: "market option \<Rightarrow> market list" where
  "wanted_markets m = (case m of None \<Rightarrow> CATALOG_MARKETS | Some x \<Rightarrow> [x])"

definition catalog_of :: "nat \<Rightarrow> 's catalog_env \<Rightarrow> market option \<Rightarrow> (catalogs \<times> 's, catalog) io" where
  "catalog_of fuel E m = (\<lambda>(st, s).
     let markets = wanted_markets m;
         tried = filter (\<lambda>x. cs_entries st x \<noteq> None \<or> cs_failed st x = None) markets;
         waited = (if tried = [] then markets else tried)
     in (case get_entries E waited (foldl (\<lambda>x m. load_in_background E m x) (st, s) (filter (\<lambda>x. x \<notin> set waited) markets)) of
          (errors, x) \<Rightarrow> (case first_crash errors of
              Some c \<Rightarrow> (Inl (Crash c), x)
            | None \<Rightarrow> if length errors = length markets then (Inl (hd errors), x) else build_catalog fuel E x)))"

definition missing_markets :: "market option \<Rightarrow> catalogs \<Rightarrow> market list" where
  "missing_markets m st = filter (\<lambda>x. cs_entries st x = None) (wanted_markets m)"

section \<open>What every step keeps\<close>

definition catalog_ok :: "catalogs \<Rightarrow> bool" where
  "catalog_ok st = (\<forall>c. cs_catalog st = Some c \<longrightarrow> c = make_catalog (loaded_items st))"

text \<open>A step from one state to another: a list is only replaced by a newer one, which changes the version,
  and the catalog kept is that of the lists.\<close>

definition catalogs_step :: "catalogs \<Rightarrow> catalogs \<Rightarrow> bool" where
  "catalogs_step st st' =
     (cs_version st \<le> cs_version st' \<and> (cs_version st' = cs_version st \<longrightarrow> cs_entries st' = cs_entries st) \<and>
      (\<forall>m e. cs_entries st m = Some e \<longrightarrow> (\<exists>e'. cs_entries st' m = Some e' \<and> ce_at e \<le> ce_at e')) \<and>
      (catalog_ok st \<longrightarrow> catalog_ok st'))"

lemma step_same: "cs_version st' = cs_version st \<Longrightarrow> cs_entries st' = cs_entries st \<Longrightarrow> cs_catalog st' = cs_catalog st \<Longrightarrow> catalogs_step st st'"
  by (auto simp: catalogs_step_def catalog_ok_def loaded_items_def)

lemma step_refl [simp]: "catalogs_step st st"
  by (simp add: step_same)

lemma step_trans [trans]:
  assumes "catalogs_step a b" "catalogs_step b c"
  shows "catalogs_step a c"
  unfolding catalogs_step_def
proof (intro conjI impI allI)
  show "cs_version a \<le> cs_version c" using assms by (simp add: catalogs_step_def)
  show "cs_entries c = cs_entries a" if "cs_version c = cs_version a"
  proof -
    have "cs_version b = cs_version a" "cs_version c = cs_version b" using assms that by (auto simp: catalogs_step_def)
    then show ?thesis using assms by (simp add: catalogs_step_def)
  qed
  show "\<exists>e'. cs_entries c m = Some e' \<and> ce_at e \<le> ce_at e'" if "cs_entries a m = Some e" for m e
    using assms that unfolding catalogs_step_def by (meson order_trans)
  show "catalog_ok c" if "catalog_ok a" using assms that by (simp add: catalogs_step_def)
qed

lemma step_adopt [simp]: "catalogs_step st (adopt_catalog m e st)"
  by (auto simp: catalogs_step_def adopt_catalog_def catalog_ok_def split: option.splits)

lemma step_updates [simp]:
  "catalogs_step st (st\<lparr>cs_failed := f\<rparr>)" "catalogs_step st (st\<lparr>cs_loading := l, cs_tasks := t\<rparr>)"
  "catalogs_step st (st\<lparr>cs_loading := l\<rparr>)" "catalogs_step st (st\<lparr>cs_tasks := t\<rparr>)"
  "catalogs_step st (st\<lparr>cs_next_refresh := n, cs_tasks := t\<rparr>)"
  by (simp_all add: step_same)

lemma load_step: "catalogs_step st (fst (snd (load_catalog E m (st, s))))"
  by (auto simp: load_catalog_def split: option.splits prod.splits sum.splits raised.splits)

lemma background_step:
  "catalogs_step st (fst (load_in_background E m (st, s)))" "catalogs_step st (fst (refresh_in_background E m (st, s)))"
  by (auto simp: load_in_background_def refresh_in_background_def)

lemma get_entry_step: "catalogs_step st (fst (snd (get_entry E m (st, s))))"
proof (cases "cs_entries st m")
  case (Some e)
  then show ?thesis by (simp add: get_entry_def io_bind_def background_step)
next
  case None
  obtain r st1 s1 where l: "load_catalog E m (st, s) = (r, st1, s1)" by (metis prod_cases3)
  have "catalogs_step st st1" using load_step[of st E m s] by (simp add: l)
  then show ?thesis using None step_trans[OF _ background_step(2)]
    by (cases r) (auto simp: get_entry_def io_bind_def l)
qed

lemma replace_step: "catalogs_step st (fst (replace_catalog E m (st, s)))"
  by (auto simp: replace_catalog_def Let_def split: prod.splits option.splits sum.splits)

lemma refresh_catalog_step: "catalogs_step st (fst (refresh_catalog E m (st, s)))"
  by (auto simp: refresh_catalog_def Let_def replace_step split: prod.splits option.splits)

lemma run_task_step: "catalogs_step st (fst (run_task E t (st, s)))"
proof -
  have "catalogs_step st (fst (load_quietly E m (st, s)))" for m
    using step_trans[OF load_step[of st E m s] step_updates(3)] by (auto simp: load_quietly_def split: prod.splits)
  then have "catalogs_step st (fst (case t of LoadTask m \<Rightarrow> load_quietly E m (st, s) | RefreshTask m \<Rightarrow> refresh_catalog E m (st, s)))"
    using refresh_catalog_step by (cases t) auto
  then show ?thesis using step_trans[OF _ step_updates(4)] by (simp add: run_task_def case_prod_unfold)
qed

lemma run_tasks_step: "catalogs_step (fst x) (fst (run_tasks E ts x))"
proof (induction ts arbitrary: x)
  case (Cons t ts)
  show ?case using step_trans[OF run_task_step Cons.IH] Cons.IH by (cases x) auto
qed simp

lemma get_entries_step: "catalogs_step (fst x) (fst (snd (get_entries E ms x)))"
proof (induction ms arbitrary: x)
  case (Cons m ms)
  obtain r y where e: "get_entry E m x = (r, y)" by (meson surj_pair)
  have "catalogs_step (fst x) (fst y)" using get_entry_step[of "fst x" E m "snd x"] by (simp add: e)
  from step_trans[OF this Cons.IH] show ?case by (cases r; cases "get_entries E ms y") (simp_all add: e)
qed simp

lemma build_step:
  "build_catalog fuel E x = (r, x') \<Longrightarrow> catalogs_step (fst x) (fst x') \<and> (\<forall>c. r = Inr c \<longrightarrow> cs_catalog (fst x') = Some c)"
proof (induction fuel arbitrary: x)
  case 0
  then have "build_catalog 0 E (fst x, snd x) = (r, x')" by simp
  then show ?case by (subst (asm) build_catalog.simps) (auto split: option.splits)
next
  case (Suc n)
  obtain st s where x: "x = (st, s)" by (cases x)
  show ?case
  proof (cases "cs_catalog st")
    case (Some c)
    then show ?thesis using Suc.prems unfolding x by (subst (asm) build_catalog.simps) auto
  next
    case None
    obtain st1 s1 where ran: "run_tasks E (ct_others E s) (st, s) = (st1, s1)" by (meson surj_pair)
    have s1: "catalogs_step st st1" using run_tasks_step[of "(st, s)" E "ct_others E s"] by (simp add: ran)
    let ?st2 = "if cs_version st = cs_version st1 then st1\<lparr>cs_catalog := Some (make_catalog (loaded_items st))\<rparr> else st1"
    have s2: "catalogs_step st ?st2"
      using s1 by (auto simp: catalogs_step_def catalog_ok_def loaded_items_def)
    have "build_catalog n E (?st2, s1) = (r, x')"
      using Suc.prems None unfolding x by (subst (asm) build_catalog.simps) (simp add: Let_def ran)
    from Suc.IH[OF this] show ?thesis using step_trans[OF s2] by (simp add: x)
  qed
qed

text \<open>Calls and tasks in any order while time passes.\<close>

inductive catalogs_run :: "'s catalog_env \<Rightarrow> catalogs \<times> 's \<Rightarrow> bool" for E where
  catalogs_start: "catalogs_run E (catalogs_init, s)"
| catalogs_wait: "catalogs_run E (st, s) \<Longrightarrow> catalogs_run E (st, s')"
| catalogs_call: "catalogs_run E x \<Longrightarrow> catalogs_run E (snd (catalog_of fuel E m x))"
| catalogs_task: "catalogs_run E x \<Longrightarrow> catalogs_run E (run_tasks E ts x)"

lemma catalog_of_step:
  assumes "catalog_of fuel E m x = (r, x')"
  shows "catalogs_step (fst x) (fst x') \<and> (\<forall>c. r = Inr c \<longrightarrow> cs_catalog (fst x') = Some c)"
proof -
  obtain st s where x: "x = (st, s)" by (cases x)
  have folded: "catalogs_step (fst y) (fst (foldl (\<lambda>x m. load_in_background E m x) y ms))" for y ms
  proof (induction ms arbitrary: y)
    case (Cons m ms)
    show ?case using step_trans[OF background_step(1)[of "fst y" E m "snd y"]] Cons.IH[of "load_in_background E m y"] by simp
  qed simp
  define tried where "tried = filter (\<lambda>x. cs_entries st x \<noteq> None \<or> cs_failed st x = None) (wanted_markets m)"
  define waited where "waited = (if tried = [] then wanted_markets m else tried)"
  define y where "y = foldl (\<lambda>x m. load_in_background E m x) (st, s) (filter (\<lambda>x. x \<notin> set waited) (wanted_markets m))"
  obtain errors z where g: "get_entries E waited y = (errors, z)" by (meson surj_pair)
  have z: "catalogs_step st (fst z)"
  proof -
    have "catalogs_step st (fst y)" using folded[of "(st, s)"] by (simp add: y_def)
    from step_trans[OF this get_entries_step[of y E waited]] show ?thesis by (simp add: g)
  qed
  have r: "(case first_crash errors of Some c \<Rightarrow> (Inl (Crash c), z)
      | None \<Rightarrow> if length errors = length (wanted_markets m) then (Inl (hd errors), z) else build_catalog fuel E z) = (r, x')"
    using assms unfolding x catalog_of_def Let_def prod.case tried_def[symmetric] waited_def[symmetric] y_def[symmetric] g .
  show ?thesis using r z build_step[of fuel E z r x'] step_trans by (auto simp: x split: option.splits if_splits)
qed

lemma catalogs_run_ok: "catalogs_run E x \<Longrightarrow> catalog_ok (fst x)"
proof (induction rule: catalogs_run.induct)
  case (catalogs_start s)
  then show ?case by (simp add: catalog_ok_def catalogs_init_def)
next
  case (catalogs_call x fuel m)
  obtain r x' where c: "catalog_of fuel E m x = (r, x')" by (meson surj_pair)
  show ?case using catalog_of_step[OF c] catalogs_call.IH by (simp add: c catalogs_step_def)
next
  case (catalogs_task x ts)
  then show ?case using run_tasks_step[of x E ts] by (simp add: catalogs_step_def)
qed simp

text \<open>The catalog a call gives is made of the lists loaded when it returns, whatever calls and tasks came
  before, whatever tasks ran while it was built, and whatever Redis and the sources answered; and no
  list is dropped or replaced by one fetched earlier.\<close>

theorem catalog_current:
  assumes "catalogs_run E (st, s)" "catalog_of fuel E m (st, s) = (Inr c, st', s')"
  shows "c = make_catalog (loaded_items st') \<and>
    (\<forall>m' e. cs_entries st m' = Some e \<longrightarrow> (\<exists>e'. cs_entries st' m' = Some e' \<and> ce_at e \<le> ce_at e'))"
proof -
  have step: "catalogs_step st st'" "cs_catalog st' = Some c" using catalog_of_step[OF assms(2)] by auto
  moreover have "catalog_ok st" using catalogs_run_ok[OF assms(1)] by simp
  ultimately show ?thesis by (simp add: catalogs_step_def catalog_ok_def)
qed

section \<open>When every source fails\<close>

text \<open>C30: A call for one market raises the error of its source; but when no list is loaded, the stocks failed
  before and the pairs fail at their first try, a call for both markets raises nothing: it gives the
  empty catalog, since it compares its one error with the two markets asked for instead of the one it
  waited for.\<close>

theorem failed_sources_empty_catalog:
  assumes "cs_entries st = Map.empty" "cs_failed st Stock = Some f" "cs_failed st Crypto = None" "cs_catalog st = None"
    and "stored_catalog E Crypto s = (Inl (DataFault e), s')" "ct_others E s' = []" "0 < fuel"
  shows "fst (catalog_of fuel E (Some Crypto) (st, s)) = Inl (DataFault e) \<and>
    fst (catalog_of fuel E None (st, s)) = Inr (make_catalog []) \<and>
    missing_markets None (fst (snd (catalog_of fuel E None (st, s)))) = [Crypto, Stock]"
proof -
  obtain n where fuel: "fuel = Suc n" using assms(7) by (cases fuel) auto
  have entry: "get_entry E Crypto (st0, s) = (Inl (DataFault e), st0\<lparr>cs_failed := (cs_failed st0)(Crypto \<mapsto> (ct_monotonic E s' + LOAD_RETRY_SECONDS, e))\<rparr>, s')"
    if "cs_entries st0 = Map.empty" "cs_failed st0 Crypto = None" for st0
    using that assms(5) by (simp add: get_entry_def io_bind_def load_catalog_def)
  have one: "fst (catalog_of fuel E (Some Crypto) (st, s)) = Inl (DataFault e)"
    using assms(1,3) by (simp add: catalog_of_def wanted_markets_def Let_def entry)
  define st1 where "st1 = fst (load_in_background E Stock (st, s))"
  have started: "load_in_background E Stock (st, s) = (st1, s)" by (simp add: st1_def load_in_background_def)
  have st1: "cs_entries st1 = Map.empty" "cs_failed st1 Crypto = None" "cs_catalog st1 = None"
    using assms(1,3,4) by (simp_all add: st1_def load_in_background_def)
  have "catalog_of fuel E None (st, s) = build_catalog fuel E (st1\<lparr>cs_failed := (cs_failed st1)(Crypto \<mapsto> (ct_monotonic E s' + LOAD_RETRY_SECONDS, e))\<rparr>, s')"
    using assms(1-3) st1 by (simp add: catalog_of_def wanted_markets_def Let_def CATALOG_MARKETS_def started entry)
  also have "\<dots> = (Inr (make_catalog []), st1\<lparr>cs_failed := (cs_failed st1)(Crypto \<mapsto> (ct_monotonic E s' + LOAD_RETRY_SECONDS, e)),
      cs_catalog := Some (make_catalog [])\<rparr>, s')"
    using st1 assms(6) unfolding fuel
    by (subst build_catalog.simps) (simp add: Let_def loaded_items_def CATALOG_MARKETS_def, subst build_catalog.simps, simp)
  finally show ?thesis using one st1 by (simp add: missing_markets_def wanted_markets_def CATALOG_MARKETS_def)
qed

section \<open>Examples\<close>

text \<open>Two sources that are down; the world is the clock.\<close>

definition example_down :: "market \<Rightarrow> data_error" where
  "example_down m = SourceUnavailable (market_name m) ''no answer'' None False"

definition example_source :: "(market \<Rightarrow> (real, instrument list) io) \<Rightarrow> market \<Rightarrow> real data_source" where
  "example_source listed m = \<lparr>src_name = market_name m, src_feed = ''feed'', src_market = m, src_list_instruments = listed m,
     src_sessions = io_return None, src_first_timestamp = (\<lambda>_. io_return None), src_base_timeframe = id, src_periods = (\<lambda>_ _ _ _. []),
     src_fetch_period = (\<lambda>_ _ _. io_return []), src_health = io_return \<lparr>sh_ok = True, sh_latency_ms = None, sh_detail = None\<rparr>,
     src_stats = (\<lambda>_. io_return ([], [])), src_daily_candles = (\<lambda>_ _. io_return ([], []))\<rparr>"

text \<open>JSON of one document: the bytes \<open>''1''\<close> stand for the list of one pair.\<close>

definition example_pair :: instrument where
  "example_pair = \<lparr>in_id = \<lparr>i_market = Crypto, i_symbol = ''BTCUSDT''\<rparr>, in_name = ''Bitcoin'', in_source = ''crypto'', in_feed = ''feed'',
     in_exchange = Some ''BINANCE'', in_base = Some ''BTC'', in_quote = Some ''USDT''\<rparr>"

definition example_document :: json where
  "example_document = JObj [(''fetched_at'', JInt 100), (''items'', JList [stored_item example_pair])]"

definition example_catalogs :: "(market \<Rightarrow> (real, instrument list) io) \<Rightarrow> real catalog_env" where
  "example_catalogs listed = \<lparr>ct_cache = example_cache, ct_source = example_source listed, ct_time = id, ct_monotonic = id,
     ct_loads = (\<lambda>t. if t = ''1'' then Some example_document else None),
     ct_dumps = (\<lambda>v. if v = example_document then ''1'' else []), ct_str = (\<lambda>_. []), ct_others = (\<lambda>_. [])\<rparr>"

text \<open>Both sources down: the stocks are asked for first, and then all markets.\<close>

theorem failed_sources_empty_catalog_witness:
  "let E = example_catalogs (\<lambda>m. io_fault (example_down m)); (r, st, s) = catalog_of 1 E (Some Stock) (catalogs_init, 100)
   in r = Inl (DataFault (example_down Stock)) \<and> fst (catalog_of 1 E (Some Crypto) (st, s)) = Inl (DataFault (example_down Crypto)) \<and>
      fst (catalog_of 1 E None (st, s)) = Inr (make_catalog [])"
proof -
  let ?E = "example_catalogs (\<lambda>m. io_fault (example_down m))"
  have stored: "stored_catalog ?E m s = (Inl (DataFault (example_down m)), s)" for m s
    by (simp add: stored_catalog_def Let_def io_bind_def io_fault_def io_raise_def fetch_catalog_def example_catalogs_def example_source_def example_cache_def)
  let ?st = "catalogs_init\<lparr>cs_failed := [Stock \<mapsto> (100 + LOAD_RETRY_SECONDS, example_down Stock)]\<rparr>"
  have first: "catalog_of 1 ?E (Some Stock) (catalogs_init, 100) = (Inl (DataFault (example_down Stock)), ?st, 100)"
    using stored[of Stock 100]
    by (simp add: catalog_of_def wanted_markets_def Let_def get_entry_def io_bind_def load_catalog_def catalogs_init_def) (simp add: example_catalogs_def)
  have "fst (catalog_of 1 ?E (Some Crypto) (?st, 100)) = Inl (DataFault (example_down Crypto)) \<and>
      fst (catalog_of 1 ?E None (?st, 100)) = Inr (make_catalog []) \<and>
      missing_markets None (fst (snd (catalog_of 1 ?E None (?st, 100)))) = [Crypto, Stock]"
    by (rule failed_sources_empty_catalog[OF _ _ _ _ stored]) (simp_all add: catalogs_init_def example_catalogs_def)
  then show ?thesis unfolding Let_def first prod.case by simp
qed

text \<open>The source of the stocks down.\<close>

definition example_half :: "real catalog_env" where
  "example_half = example_catalogs (\<lambda>m. case m of Crypto \<Rightarrow> io_return [example_pair] | Stock \<Rightarrow> io_fault (example_down m))"

theorem catalog_current_witness:
  "let (r, st, s) = catalog_of 1 example_half None (catalogs_init, 100)
   in r = Inr (make_catalog [example_pair]) \<and> make_catalog (loaded_items st) = make_catalog [example_pair] \<and> missing_markets None st = [Stock]"
proof -
  let ?entry = "\<lparr>ce_at = 100, ce_items = [example_pair]\<rparr>"
  have pair: "item_of example_half Crypto (stored_item example_pair) = Some example_pair"
    by (simp add: item_of_def stored_item_def json_items_def example_pair_def json_of_text_def field_text_def field_option_def
        in_symbol_def example_half_def example_catalogs_def example_source_def market_name_def)
  have decoded: "decode_catalog example_half Crypto ''1'' = Some ?entry"
    using pair by (simp add: decode_catalog_def example_half_def example_catalogs_def example_document_def json_get_def json_items_def json_int_def)
  have get: "cu_fetch (ct_cache example_half) name f t = (case f t of (r, t') \<Rightarrow> (map_sum id fst r, t'))" for name f t
    by (simp add: example_half_def example_catalogs_def example_cache_def)
  have fetched: "fetch_catalog example_half Crypto 100 = (Inr (''1'', KEEP_TTL), 100)"
    "fetch_catalog example_half Stock 100 = (Inl (DataFault (example_down Stock)), 100)"
    by (simp_all add: fetch_catalog_def io_bind_def io_return_def io_fault_def io_raise_def example_half_def example_catalogs_def example_source_def example_document_def)
  have stored: "stored_catalog example_half Crypto 100 = (Inr ?entry, 100)" "stored_catalog example_half Stock 100 = (Inl (DataFault (example_down Stock)), 100)"
    by (simp_all add: stored_catalog_def Let_def io_bind_def io_return_def get fetched decoded)
  obtain r st s where call: "catalog_of 1 example_half None (catalogs_init, 100) = (r, st, s)" by (metis prod_cases3)
  have pairs: "get_entry example_half Crypto (catalogs_init, 100) = (Inr ?entry, adopt_catalog Crypto ?entry catalogs_init, 100)"
    unfolding get_entry_def io_bind_def load_catalog_def prod.case stored
    by (simp add: catalogs_init_def example_half_def example_catalogs_def REFRESH_AFTER_def DAY_SECONDS_def)
  let ?st = "adopt_catalog Crypto ?entry catalogs_init"
  have stocks: "get_entry example_half Stock (?st, 100) =
      (Inl (DataFault (example_down Stock)), ?st\<lparr>cs_failed := [Stock \<mapsto> (100 + LOAD_RETRY_SECONDS, example_down Stock)]\<rparr>, 100)"
    unfolding get_entry_def io_bind_def load_catalog_def prod.case stored by (simp add: catalogs_init_def example_half_def example_catalogs_def adopt_catalog_def)
  have "catalog_of 1 example_half None (catalogs_init, 100) =
      build_catalog 1 example_half (?st\<lparr>cs_failed := [Stock \<mapsto> (100 + LOAD_RETRY_SECONDS, example_down Stock)]\<rparr>, 100)"
    using pairs stocks by (simp add: catalog_of_def wanted_markets_def CATALOG_MARKETS_def Let_def) (simp add: catalogs_init_def)
  also have "\<dots> = (Inr (make_catalog [example_pair]), ?st\<lparr>cs_failed := [Stock \<mapsto> (100 + LOAD_RETRY_SECONDS, example_down Stock)],
      cs_catalog := Some (make_catalog [example_pair])\<rparr>, 100)"
    by (subst build_catalog.simps)
      (simp add: adopt_catalog_def catalogs_init_def Let_def loaded_items_def CATALOG_MARKETS_def example_half_def example_catalogs_def, subst build_catalog.simps, simp)
  finally have "r = Inr (make_catalog [example_pair]) \<and> missing_markets None st = [Stock]"
    using call by (auto simp: missing_markets_def wanted_markets_def CATALOG_MARKETS_def adopt_catalog_def catalogs_init_def)
  then have r: "r = Inr (make_catalog [example_pair])" "missing_markets None st = [Stock]" by simp_all
  moreover have "make_catalog [example_pair] = make_catalog (loaded_items st)"
    using catalog_current[OF catalogs_start, of 1 example_half None 100] call unfolding r(1) by simp
  ultimately show ?thesis unfolding Let_def call prod.case by simp
qed

end
