(* ===== verification/MlAllowlist.thy ===== *)
theory MlAllowlist
  imports Text
begin

text \<open>
  \<open>ml/allowlist.py\<close>: the built-in classes and functions an uploaded model may name, in the order of the
  file and with the module written once before its names.
\<close>

text \<open>Policies, constraints and initializers.\<close>

definition KERAS_TRAINING :: "string list" where
  "KERAS_TRAINING =
   map (\<lambda>n. ''keras.'' @ n)
     [''DTypePolicy'', ''FloatDTypePolicy'', ''Sequential''] @
   map (\<lambda>n. ''keras.constraints.'' @ n)
     [''MaxNorm'', ''MinMaxNorm'', ''NonNeg'', ''UnitNorm''] @
   map (\<lambda>n. ''keras.dtype_policies.'' @ n)
     [''AWQDTypePolicy'', ''DTypePolicyMap'', ''GPTQDTypePolicy'', ''Int4DTypePolicy'', ''QuantizedDTypePolicy'',
      ''QuantizedFloat8DTypePolicy''] @
   map (\<lambda>n. ''keras.initializers.'' @ n)
     [''Constant'', ''GlorotNormal'', ''GlorotUniform'', ''HeNormal'', ''HeUniform'', ''Identity'', ''LecunNormal'',
      ''LecunUniform'', ''Ones'', ''Orthogonal'', ''RandomNormal'', ''RandomUniform'', ''STFT'', ''TruncatedNormal'',
      ''VarianceScaling'', ''Zeros'']"

text \<open>The layers.\<close>

definition KERAS_LAYERS :: "string list" where
  "KERAS_LAYERS =
   map (\<lambda>n. ''keras.layers.'' @ n)
     [''Activation'', ''ActivityRegularization'', ''AdaptiveAveragePooling1D'', ''AdaptiveAveragePooling2D'',
      ''AdaptiveAveragePooling3D'', ''AdaptiveMaxPooling1D'', ''AdaptiveMaxPooling2D'', ''AdaptiveMaxPooling3D'',
      ''Add'', ''AdditiveAttention'', ''AlphaDropout'', ''Attention'', ''AugMix'', ''AutoContrast'', ''Average'',
      ''AveragePooling1D'', ''AveragePooling2D'', ''AveragePooling3D'', ''BatchNormalization'', ''Bidirectional'',
      ''CategoryEncoding'', ''CenterCrop'', ''Concatenate'', ''ContrastLimitedAdaptiveHistogramEqualization'',
      ''Conv1D'', ''Conv1DTranspose'', ''Conv2D'', ''Conv2DTranspose'', ''Conv3D'', ''Conv3DTranspose'',
      ''ConvLSTM1D'', ''ConvLSTM2D'', ''ConvLSTM3D'', ''Cropping1D'', ''Cropping2D'', ''Cropping3D'', ''CutMix'',
      ''Dense'', ''DepthwiseConv1D'', ''DepthwiseConv2D'', ''Discretization'', ''Dot'', ''Dropout'', ''ELU'',
      ''EinsumDense'', ''Embedding'', ''Equalization'', ''Flatten'', ''GRU'', ''GRUCell'', ''GaussianDropout'',
      ''GaussianNoise'', ''GlobalAveragePooling1D'', ''GlobalAveragePooling2D'', ''GlobalAveragePooling3D'',
      ''GlobalMaxPooling1D'', ''GlobalMaxPooling2D'', ''GlobalMaxPooling3D'', ''GroupNormalization'',
      ''GroupQueryAttention'', ''HashedCrossing'', ''Hashing'', ''Identity'', ''InputLayer'', ''LSTM'', ''LSTMCell'',
      ''LayerNormalization'', ''LeakyReLU'', ''Masking'', ''MaxNumBoundingBoxes'', ''MaxPooling1D'',
      ''MaxPooling2D'', ''MaxPooling3D'', ''Maximum'', ''MelSpectrogram'', ''Minimum'', ''MixUp'',
      ''MultiHeadAttention'', ''Multiply'', ''Normalization'', ''PReLU'', ''Permute'', ''Pipeline'',
      ''RMSNormalization'', ''RNN'', ''RandAugment'', ''RandomBrightness'', ''RandomColorDegeneration'',
      ''RandomColorJitter'', ''RandomContrast'', ''RandomCrop'', ''RandomElasticTransform'', ''RandomErasing'',
      ''RandomFlip'', ''RandomGaussianBlur'', ''RandomGrayscale'', ''RandomHue'', ''RandomInvert'',
      ''RandomPerspective'', ''RandomPosterization'', ''RandomRotation'', ''RandomSaturation'', ''RandomSharpness'',
      ''RandomShear'', ''RandomTranslation'', ''RandomZoom'', ''ReLU'', ''RepeatVector'', ''Rescaling'', ''Reshape'',
      ''Resizing'', ''ReversibleEmbedding'', ''STFTSpectrogram'', ''SeparableConv1D'', ''SeparableConv2D'',
      ''SimpleRNN'', ''SimpleRNNCell'', ''Softmax'', ''Solarization'', ''SpatialDropout1D'', ''SpatialDropout2D'',
      ''SpatialDropout3D'', ''SpectralNormalization'', ''StackedRNNCells'', ''Subtract'', ''TimeDistributed'',
      ''UnitNormalization'', ''UpSampling1D'', ''UpSampling2D'', ''UpSampling3D'', ''ZeroPadding1D'',
      ''ZeroPadding2D'', ''ZeroPadding3D'']"

text \<open>Losses.\<close>

definition KERAS_LOSSES :: "string list" where
  "KERAS_LOSSES =
   map (\<lambda>n. ''keras.losses.'' @ n)
     [''BinaryCrossentropy'', ''BinaryFocalCrossentropy'', ''CTC'', ''CategoricalCrossentropy'',
      ''CategoricalFocalCrossentropy'', ''CategoricalGeneralizedCrossEntropy'', ''CategoricalHinge'', ''Circle'',
      ''CosineSimilarity'', ''Dice'', ''Hinge'', ''Huber'', ''KLDivergence'', ''LogCosh'', ''MeanAbsoluteError'',
      ''MeanAbsolutePercentageError'', ''MeanSquaredError'', ''MeanSquaredLogarithmicError'', ''Poisson'',
      ''SparseCategoricalCrossentropy'', ''SquaredHinge'', ''Tversky'']"

text \<open>Metrics.\<close>

definition KERAS_METRICS :: "string list" where
  "KERAS_METRICS =
   map (\<lambda>n. ''keras.metrics.'' @ n)
     [''AUC'', ''Accuracy'', ''BinaryAccuracy'', ''BinaryCrossentropy'', ''BinaryIoU'', ''CategoricalAccuracy'',
      ''CategoricalCrossentropy'', ''CategoricalHinge'', ''ConcordanceCorrelation'', ''CosineSimilarity'',
      ''F1Score'', ''FBetaScore'', ''FalseNegatives'', ''FalsePositives'', ''Hinge'', ''IoU'', ''KLDivergence'',
      ''LogCoshError'', ''Mean'', ''MeanAbsoluteError'', ''MeanAbsolutePercentageError'', ''MeanIoU'',
      ''MeanMetricWrapper'', ''MeanSquaredError'', ''MeanSquaredLogarithmicError'', ''OneHotIoU'', ''OneHotMeanIoU'',
      ''PearsonCorrelation'', ''Poisson'', ''Precision'', ''PrecisionAtRecall'', ''R2Score'', ''Recall'',
      ''RecallAtPrecision'', ''RootMeanSquaredError'', ''SensitivityAtSpecificity'', ''SparseCategoricalAccuracy'',
      ''SparseCategoricalCrossentropy'', ''SparseTopKCategoricalAccuracy'', ''SpecificityAtSensitivity'',
      ''SquaredHinge'', ''Sum'', ''TopKCategoricalAccuracy'', ''TrueNegatives'', ''TruePositives'']"

text \<open>Optimizers, their schedules, quantizers and regularizers.\<close>

definition KERAS_OPTIMIZERS :: "string list" where
  "KERAS_OPTIMIZERS =
   map (\<lambda>n. ''keras.optimizers.'' @ n)
     [''Adadelta'', ''Adafactor'', ''Adagrad'', ''Adam'', ''AdamW'', ''Adamax'', ''Ftrl'', ''Lamb'', ''Lion'',
      ''LossScaleOptimizer'', ''MultiOptimizer'', ''Muon'', ''Nadam'', ''RMSprop'', ''SGD'', ''ScheduleFreeAdamW''] @
   map (\<lambda>n. ''keras.optimizers.schedules.'' @ n)
     [''CosineDecay'', ''CosineDecayRestarts'', ''ExponentialDecay'', ''InverseTimeDecay'',
      ''PiecewiseConstantDecay'', ''PolynomialDecay''] @
   map (\<lambda>n. ''keras.quantizers.'' @ n)
     [''AbsMaxQuantizer''] @
   map (\<lambda>n. ''keras.regularizers.'' @ n)
     [''L1'', ''L1L2'', ''L2'', ''OrthogonalRegularizer'']"

text \<open>The functional model and the operations of the functional API.\<close>

definition KERAS_OPS :: "string list" where
  "KERAS_OPS =
   map (\<lambda>n. ''keras.src.models.functional.'' @ n)
     [''Functional''] @
   map (\<lambda>n. ''keras.src.ops.core.'' @ n)
     [''Cast'', ''ConvertToTensor'', ''SaturateCast'', ''Scatter'', ''ScatterUpdate'', ''Slice'', ''SliceUpdate'',
      ''StopGradient'', ''Unstack''] @
   map (\<lambda>n. ''keras.src.ops.einops.'' @ n)
     [''Rearrange''] @
   map (\<lambda>n. ''keras.src.ops.image.'' @ n)
     [''AffineTransform'', ''CropImages'', ''ElasticTransform'', ''ExtractPatches'', ''GaussianBlur'', ''HSVToRGB'',
      ''MapCoordinates'', ''PadImages'', ''PerspectiveTransform'', ''RGBToGrayscale'', ''RGBToHSV'', ''Resize'',
      ''SSIM'', ''ScaleAndTranslate'', ''SobelEdges''] @
   map (\<lambda>n. ''keras.src.ops.linalg.'' @ n)
     [''Cholesky'', ''CholeskyInverse'', ''Det'', ''Eig'', ''Eigh'', ''Inv'', ''Lstsq'', ''LuFactor'',
      ''MatrixRank'', ''Norm'', ''Pinv'', ''Qr'', ''SVD'', ''Solve'', ''SolveTriangular''] @
   map (\<lambda>n. ''keras.src.ops.math.'' @ n)
     [''CDist'', ''Erf'', ''Erfc'', ''Erfinv'', ''ExtractSequences'', ''FFT'', ''FFT2'', ''IFFT2'', ''IRFFT'',
      ''ISTFT'', ''InTopK'', ''Logdet'', ''Logsumexp'', ''RFFT'', ''Rsqrt'', ''STFT'', ''SegmentMax'',
      ''SegmentMin'', ''SegmentProd'', ''SegmentReduction'', ''SegmentSum'', ''TopK'', ''ViewAsComplex'',
      ''ViewAsReal'']"

text \<open>Operations of neural networks.\<close>

definition KERAS_NN_OPS :: "string list" where
  "KERAS_NN_OPS =
   map (\<lambda>n. ''keras.src.ops.nn.'' @ n)
     [''AdaptiveAveragePool'', ''AdaptiveMaxPool'', ''AveragePool'', ''BatchNorm'', ''BinaryCrossentropy'',
      ''CTCDecode'', ''CTCLoss'', ''CategoricalCrossentropy'', ''Celu'', ''Conv'', ''ConvTranspose'',
      ''DepthToSpace'', ''DepthwiseConv'', ''DotProductAttention'', ''Elu'', ''Fold'', ''Gelu'', ''Glu'',
      ''HardShrink'', ''HardSigmoid'', ''HardSilu'', ''HardTanh'', ''LayerNorm'', ''LeakyRelu'', ''LogSigmoid'',
      ''LogSoftmax'', ''MaxPool'', ''Moments'', ''MultiHot'', ''Normalize'', ''OneHot'', ''PSNR'', ''Polar'',
      ''RMSNorm'', ''Relu'', ''Relu6'', ''Selu'', ''SeparableConv'', ''Sigmoid'', ''Silu'', ''SoftShrink'',
      ''Softmax'', ''Softplus'', ''Softsign'', ''SpaceToDepth'', ''SparseCategoricalCrossentropy'', ''SparsePlus'',
      ''SparseSigmoid'', ''Sparsemax'', ''Squareplus'', ''TanhShrink'', ''Threshold'', ''Unfold'']"

text \<open>Operations of arrays.\<close>

definition KERAS_NUMPY_OPS :: "string list" where
  "KERAS_NUMPY_OPS =
   map (\<lambda>n. ''keras.src.ops.numpy.'' @ n)
     [''Abs'', ''Absolute'', ''Add'', ''All'', ''AllClose'', ''Amax'', ''Amin'', ''Angle'', ''Any'', ''Append'',
      ''Arrange'', ''Arccos'', ''Arccosh'', ''Arcsin'', ''Arcsinh'', ''Arctan'', ''Arctan2'', ''Arctanh'',
      ''Argmax'', ''Argmin'', ''Argpartition'', ''Argsort'', ''Array'', ''ArraySplit'', ''Average'', ''Bincount'',
      ''BitwiseAnd'', ''BitwiseInvert'', ''BitwiseLeftShift'', ''BitwiseNot'', ''BitwiseOr'', ''BitwiseRightShift'',
      ''BitwiseXor'', ''BroadcastTo'', ''Cbrt'', ''Ceil'', ''Clip'', ''Concatenate'', ''Conj'', ''Conjugate'',
      ''Copy'', ''Corrcoef'', ''Correlate'', ''Cos'', ''Cosh'', ''CountNonzero'', ''Cross'', ''Cumprod'', ''Cumsum'',
      ''Deg2rad'', ''Diag'', ''Diagflat'', ''Diagonal'', ''Diff'', ''Digitize'', ''Divide'', ''DivideNoNan'',
      ''Dot'', ''Dsplit'', ''Dstack'', ''Einsum'', ''EmptyLike'', ''Equal'', ''Exp'', ''Exp2'', ''ExpandDims'',
      ''Expm1'', ''Fabs'', ''Flip'', ''Fliplr'', ''Flipud'', ''Floor'', ''FloorDivide'', ''Fmax'', ''Fmin'',
      ''Fmod'', ''Full'', ''FullLike'', ''Gcd'', ''Geomspace'', ''GetItem'', ''Greater'', ''GreaterEqual'',
      ''Heaviside'', ''Histogram'', ''Hsplit'', ''Hstack'', ''Hypot'', ''I0'', ''Imag'', ''Inner'', ''IsIn'',
      ''Isclose'', ''Isfinite'', ''Isinf'', ''Isnan'', ''Isneginf'', ''Isposinf'', ''Isreal'', ''Kron'', ''Lcm'',
      ''Ldexp'', ''LeftShift'', ''Less'', ''LessEqual'', ''Linspace'', ''Log'', ''Log10'', ''Log1p'', ''Log2'',
      ''Logaddexp'', ''Logaddexp2'', ''LogicalAnd'', ''LogicalNot'', ''LogicalOr'', ''LogicalXor'', ''Logspace'',
      ''Matmul'', ''Max'', ''Maximum'', ''Mean'', ''Median'', ''Meshgrid'', ''Min'', ''Minimum'', ''Mod'',
      ''Moveaxis'', ''Multiply'', ''NanToNum'', ''Nanargmax'', ''Nanargmin'', ''Nancumprod'', ''Nancumsum'',
      ''Nanmax'', ''Nanmean'', ''Nanmedian'', ''Nanmin'', ''Nanpercentile'', ''Nanprod'', ''Nanquantile'',
      ''Nanstd'', ''Nansum'', ''Nanvar'', ''Ndim'', ''Negative'', ''Nextafter'', ''Nonzero'', ''NotEqual'',
      ''OnesLike'', ''Outer'', ''Pad'', ''Percentile'', ''Power'', ''Prod'', ''Ptp'', ''Quantile'', ''Rad2deg'',
      ''Ravel'', ''Real'', ''Reciprocal'', ''Repeat'', ''Reshape'', ''RightShift'', ''Roll'', ''Rot90'', ''Round'',
      ''SearchSorted'', ''Select'', ''Sign'', ''Signbit'', ''Sin'', ''Sinc'', ''Sinh'', ''Size'', ''Slogdet'',
      ''Sort'', ''Split'', ''Sqrt'', ''Square'', ''Squeeze'', ''Stack'', ''Std'', ''Subtract'', ''Sum'',
      ''Swapaxes'', ''Take'', ''TakeAlongAxis'', ''Tan'', ''Tanh'', ''Tensordot'', ''Tile'', ''Trace'',
      ''Transpose'', ''Trapezoid'', ''Tril'', ''Triu'', ''TrueDivide'', ''Trunc'', ''Unique'', ''UnravelIndex'',
      ''Vander'', ''Var'', ''Vdot'', ''View'', ''Vsplit'', ''Vstack'', ''Where'', ''ZerosLike'']"

definition CLASSES :: "string list" where
  "CLASSES = KERAS_TRAINING @ KERAS_LAYERS @ KERAS_LOSSES @ KERAS_METRICS @ KERAS_OPTIMIZERS @ KERAS_OPS @ KERAS_NN_OPS @ KERAS_NUMPY_OPS"

text \<open>Activations, losses and metrics by name.\<close>

definition FUNCTIONS :: "string list" where
  "FUNCTIONS =
   map (\<lambda>n. ''keras.activations.'' @ n)
     [''celu'', ''elu'', ''exponential'', ''gelu'', ''glu'', ''hard_shrink'', ''hard_sigmoid'', ''hard_silu'',
      ''hard_swish'', ''hard_tanh'', ''leaky_relu'', ''linear'', ''log_sigmoid'', ''log_softmax'', ''mish'',
      ''relu'', ''relu6'', ''selu'', ''sigmoid'', ''silu'', ''soft_shrink'', ''softmax'', ''softplus'', ''softsign'',
      ''sparse_plus'', ''sparse_sigmoid'', ''sparsemax'', ''squareplus'', ''swish'', ''tanh'', ''tanh_shrink'',
      ''threshold''] @
   map (\<lambda>n. ''keras.losses.'' @ n)
     [''binary_crossentropy'', ''binary_focal_crossentropy'', ''categorical_crossentropy'',
      ''categorical_focal_crossentropy'', ''categorical_generalized_cross_entropy'', ''categorical_hinge'',
      ''circle'', ''cosine_similarity'', ''ctc'', ''dice'', ''hinge'', ''huber'', ''kl_divergence'', ''log_cosh'',
      ''mean_absolute_error'', ''mean_absolute_percentage_error'', ''mean_squared_error'',
      ''mean_squared_logarithmic_error'', ''poisson'', ''sparse_categorical_crossentropy'', ''squared_hinge'',
      ''tversky''] @
   map (\<lambda>n. ''keras.metrics.'' @ n)
     [''binary_accuracy'', ''binary_crossentropy'', ''binary_focal_crossentropy'', ''categorical_accuracy'',
      ''categorical_crossentropy'', ''categorical_focal_crossentropy'', ''categorical_hinge'',
      ''concordance_correlation'', ''hinge'', ''huber'', ''kl_divergence'', ''log_cosh'', ''mean_absolute_error'',
      ''mean_absolute_percentage_error'', ''mean_squared_error'', ''mean_squared_logarithmic_error'',
      ''pearson_correlation'', ''poisson'', ''sparse_categorical_accuracy'', ''sparse_categorical_crossentropy'',
      ''sparse_top_k_categorical_accuracy'', ''squared_hinge'', ''top_k_categorical_accuracy'']"

text \<open>Membership looks at the names of a matching module only.\<close>

lemma in_module: "x \<in> set (map (\<lambda>n. p @ n) ns) \<longleftrightarrow> (if take (length p) x = p then drop (length p) x \<in> set ns else False)"
  by (auto simp: image_iff) (metis append_take_drop_id)

lemmas in_classes = CLASSES_def KERAS_TRAINING_def KERAS_LAYERS_def KERAS_LOSSES_def KERAS_METRICS_def KERAS_OPTIMIZERS_def KERAS_OPS_def
  KERAS_NN_OPS_def KERAS_NUMPY_OPS_def set_append Un_iff in_module

text \<open>The layer that holds Python code is not allowed; plain layers are.\<close>

lemma no_lambda: "''keras.layers.Lambda'' \<notin> set CLASSES"
  by (simp only: in_classes) simp

lemma plain_layers: "''keras.layers.InputLayer'' \<in> set CLASSES" "''keras.layers.Dense'' \<in> set CLASSES" "''keras.Sequential'' \<in> set CLASSES"
  by (simp only: in_classes, simp)+

end
