(* ===== verification/MlInspect.thy ===== *)
theory MlInspect
  imports MlAllowlist DataSource
begin

text \<open>
  \<open>ml/inspect.py\<close>: the static check of an uploaded Keras file. The bytes of the file are a string; what
  \<open>zipfile\<close>, \<open>json\<close> and \<open>h5py\<close> make of bytes, and the \<open>str\<close> of a JSON value that is no text, are the fields
  of \<open>inspect_env\<close>. A failed check is a value, and so is an exception the check does not catch. The
  theorems: a file is accepted exactly when every serialized object of its architecture is an allowed
  built-in one (or the user's own where only training uses it), with the walk over a stack that the
  code does; the numbers it reports are in their ranges; and a class name that is a list or an object
  ends in an uncaught \<open>TypeError\<close>.
\<close>

section \<open>Constants and errors\<close>

definition MIB :: int where "MIB = 1024 * 1024"
definition CONFIG :: string where "CONFIG = ''config.json''"
definition METADATA :: string where "METADATA = ''metadata.json''"
definition WEIGHTS :: string where "WEIGHTS = ''model.weights.h5''"
definition MEMBERS :: "string list" where "MEMBERS = [CONFIG, METADATA, WEIGHTS]"
definition ASSETS :: string where "ASSETS = ''assets/''"
definition ENTRIES_MAX :: int where "ENTRIES_MAX = 1000"
definition CENTRAL_DIRECTORY_MAX :: int where "CENTRAL_DIRECTORY_MAX = MIB"
definition JSON_MAX :: int where "JSON_MAX = MIB"
definition HDF5_OBJECTS_MAX :: nat where "HDF5_OBJECTS_MAX = 100000"
definition PARAMETERS_MAX :: int where "PARAMETERS_MAX = 2 ^ 63 - 1"
definition KERAS_VERSION_MAX :: nat where "KERAS_VERSION_MAX = 32"
definition SHOWN_MAX :: nat where "SHOWN_MAX = 60"

definition MODEL_CLASSES :: "string list" where
  "MODEL_CLASSES = [''keras.src.models.functional.Functional'', ''keras.Sequential'']"

definition COMPILE_CONFIG :: string where "COMPILE_CONFIG = ''compile_config''"
definition TRAINING_ONLY_SUFFIXES :: "string list" where "TRAINING_ONLY_SUFFIXES = [''_regularizer'', ''_constraint'']"

definition INTERNAL :: "string list" where
  "INTERNAL = [''__keras_tensor__'', ''__tensor__'', ''__numpy__'', ''__bytes__'', ''__ellipsis__'', ''__slice__'']"

text \<open>The last part of a dotted name.\<close>

definition last_part :: "string \<Rightarrow> string" where
  "last_part s = last (split_on CHR ''.'' s)"

definition BUILTIN_FUNCTIONS :: "string list" where
  "BUILTIN_FUNCTIONS = map last_part FUNCTIONS"

definition SHAPE_KEEPING :: "string list" where
  "SHAPE_KEEPING = [''Activation'', ''ActivityRegularization'', ''AlphaDropout'', ''BatchNormalization'', ''Dropout'', ''ELU'',
     ''GaussianDropout'', ''GaussianNoise'', ''GroupNormalization'', ''Identity'', ''LayerNormalization'', ''LeakyReLU'',
     ''Masking'', ''PReLU'', ''ReLU'', ''Softmax'', ''UnitNormalization'']"

definition EOCD :: string where "EOCD = [CHR ''P'', CHR ''K'', CHR 0x05, CHR 0x06]"
definition EOCD_SIZE :: nat where "EOCD_SIZE = 22"
definition ZIP64_LOCATOR :: string where "ZIP64_LOCATOR = [CHR ''P'', CHR ''K'', CHR 0x06, CHR 0x07]"
definition ZIP64_LOCATOR_SIZE :: nat where "ZIP64_LOCATOR_SIZE = 20"
definition TAIL :: nat where "TAIL = 64 * 1024 + EOCD_SIZE"

definition INSPECT_AGAIN :: string where
  "INSPECT_AGAIN = ''Save the model again with model.save('' @ [CHR 0x22] @ ''model.keras'' @ [CHR 0x22] @ '') and upload that file.''"

definition BROKEN :: string where
  "BROKEN = ''The file is not a readable Keras model. It may be damaged or not a .keras file at all. '' @ INSPECT_AGAIN"

definition TOO_MANY_FILES :: string where
  "TOO_MANY_FILES = ''The file holds far more files than a Keras model has. '' @ INSPECT_AGAIN"

definition UNREADABLE_WEIGHTS :: string where
  "UNREADABLE_WEIGHTS = ''The weights of the model ('' @ WEIGHTS @ '') cannot be read. '' @ INSPECT_AGAIN"

definition NO_WEIGHTS :: string where
  "NO_WEIGHTS = ''The file holds the layers only. Save the model after training and upload that file.''"

text \<open>\<open>CheckFailed\<close> with its check and detail, and an exception that leaves the check.\<close>

datatype inspect_error = CheckFailed string string | Uncaught string

definition fail_opens :: "string \<Rightarrow> inspect_error + 'a" where "fail_opens detail = Inl (CheckFailed ''opens'' detail)"
definition fail_weights :: "string \<Rightarrow> inspect_error + 'a" where "fail_weights detail = Inl (CheckFailed ''weights'' detail)"

text \<open>One check after another.\<close>

definition and_then :: "'e + 'a \<Rightarrow> ('a \<Rightarrow> 'e + 'b) \<Rightarrow> 'e + 'b" where
  "and_then r f = (case r of Inl e \<Rightarrow> Inl e | Inr x \<Rightarrow> f x)"

lemma and_then_Inr: "and_then r f = Inr y \<longleftrightarrow> (\<exists>x. r = Inr x \<and> f x = Inr y)"
  by (cases r) (simp_all add: and_then_def)

section \<open>The archive\<close>

text \<open>An open zip: its entries with the sizes they declare, and what reading one gives; a read may fail
  with one of \<open>_ZIP_ERRORS\<close> or with a \<open>ValueError\<close>.\<close>

datatype zip_fault = ZipFault | ValueFault

record zip_archive =
  za_infos :: "(string \<times> int) list"
  za_read :: "string \<Rightarrow> zip_fault + string"

datatype h5_link = HardLink nat | OtherLink bool \<comment> \<open>soft or external: whether it leads to an object\<close>

datatype h5_object = H5Group "(string \<times> h5_link) list" | H5Dataset "nat option" | H5Other

text \<open>An HDF5 file: the links of its root, and the object at an address (\<open>None\<close> when it cannot be read).\<close>

record h5_file =
  hf_root :: "(string \<times> h5_link) list"
  hf_object :: "nat \<Rightarrow> h5_object option"

record inspect_env =
  ie_open :: "string \<Rightarrow> zip_archive option"
  ie_loads :: "string \<Rightarrow> json option"
  ie_str :: "json \<Rightarrow> string"
  ie_h5 :: "string \<Rightarrow> h5_file option"

text \<open>\<open>bytes.rfind\<close>, and an unsigned little endian number.\<close>

definition rfind :: "string \<Rightarrow> string \<Rightarrow> nat option" where
  "rfind part s = (case filter (\<lambda>i. take (length part) (drop i s) = part) [0..<Suc (length s)] of [] \<Rightarrow> None | is \<Rightarrow> Some (last is))"

definition le_number :: "string \<Rightarrow> int" where
  "le_number s = foldr (\<lambda>c n. int (code_of c) + 256 * n) s 0"

definition check_index :: "string \<Rightarrow> inspect_error + unit" where
  "check_index file =
     (let tail = drop (length file - TAIL) file
      in (case rfind EOCD tail of
           None \<Rightarrow> fail_opens BROKEN
         | Some at_end \<Rightarrow>
             if length tail - at_end < EOCD_SIZE then fail_opens BROKEN
             else (let field = (\<lambda>offset size. le_number (take size (drop (at_end + 4 + offset) tail)));
                       on_disk = field 4 2; entries = field 6 2; directory_size = field 8 4; directory_at = field 12 4;
                       zip64 = (on_disk = 0xFFFF \<or> entries = 0xFFFF \<or> directory_size = 0xFFFFFFFF \<or> directory_at = 0xFFFFFFFF \<or>
                         take 4 (drop (at_end - ZIP64_LOCATOR_SIZE) (take at_end tail)) = ZIP64_LOCATOR)
                   in if zip64 \<or> entries > ENTRIES_MAX \<or> directory_size > CENTRAL_DIRECTORY_MAX then fail_opens TOO_MANY_FILES
                      else Inr ())))"

text \<open>\<open>startswith(("/", "\\"))\<close>, a drive, or \<open>..\<close> among the parts of the path.\<close>

definition points_outside :: "string \<Rightarrow> bool" where
  "points_outside name =
     ((case name of c # _ \<Rightarrow> c = CHR ''/'' \<or> c = CHR 0x5C | [] \<Rightarrow> False) \<or>
      (case name of c # d # _ \<Rightarrow> (is_upper c \<or> is_lower c) \<and> d = CHR '':'' | _ \<Rightarrow> False) \<or>
      ''..'' \<in> set (split_on CHR ''/'' (map (\<lambda>c. if c = CHR 0x5C then CHR ''/'' else c) name)))"

definition known_member :: "string \<Rightarrow> bool" where
  "known_member name = (name \<in> set MEMBERS \<or> take (length ASSETS) name = ASSETS)"

definition member_problem :: "string \<Rightarrow> string option" where
  "member_problem name =
     (if points_outside name then Some (''The file holds a path that points outside the model. '' @ INSPECT_AGAIN)
      else if \<not> known_member name then Some (''The file holds files a Keras model does not have. '' @ INSPECT_AGAIN)
      else None)"

text \<open>\<open>getinfo\<close>: the last entry of a name.\<close>

definition entry_size :: "zip_archive \<Rightarrow> string \<Rightarrow> int option" where
  "entry_size A name = map_of (rev (za_infos A)) name"

definition too_large :: "int \<Rightarrow> string" where
  "too_large file_max = ''The file unpacks to more than '' @ show_int (4 * file_max div MIB) @
     '' MB, more than any model CandleStack takes. Upload a smaller model.''"

definition check_members :: "zip_archive \<Rightarrow> int \<Rightarrow> inspect_error + unit" where
  "check_members A file_max =
     (if int (length (za_infos A)) > ENTRIES_MAX then fail_opens TOO_MANY_FILES
      else (case List.map_filter (member_problem \<circ> fst) (za_infos A) of
          problem # _ \<Rightarrow> fail_opens problem
        | [] \<Rightarrow> (case filter (\<lambda>m. m \<notin> fst ` set (za_infos A)) MEMBERS of
            missing # _ \<Rightarrow> fail_opens (''The file has no '' @ missing @ '', so it is not a whole Keras model. '' @ INSPECT_AGAIN)
          | [] \<Rightarrow> if sum_list (map snd (za_infos A)) > 4 * file_max \<or> the (entry_size A WEIGHTS) > 2 * file_max
                  then fail_opens (too_large file_max) else Inr ())))"

definition read_json :: "inspect_env \<Rightarrow> zip_archive \<Rightarrow> string \<Rightarrow> inspect_error + (string \<times> json) list" where
  "read_json E A name =
     (if the (entry_size A name) > JSON_MAX
      then fail_opens (''The '' @ name @ '' of the file is larger than '' @ show_int (JSON_MAX div MIB) @
        '' MB, more than any model CandleStack takes. Upload a smaller model.'')
      else (case za_read A name of
          Inl ZipFault \<Rightarrow> fail_opens BROKEN
        | r \<Rightarrow> (case (case r of Inr blob \<Rightarrow> ie_loads E blob | Inl _ \<Rightarrow> None) of
            Some (JObj ms) \<Rightarrow> Inr ms
          | _ \<Rightarrow> fail_opens (''The '' @ name @ '' of the file is not valid JSON. '' @ INSPECT_AGAIN))))"

definition keras_version_of :: "(string \<times> json) list \<Rightarrow> inspect_error + string" where
  "keras_version_of metadata = (case json_field (JObj metadata) ''keras_version'' of
      JStr v \<Rightarrow> if v = [] \<or> length v > KERAS_VERSION_MAX then
          fail_opens (''The file does not say which Keras version saved it.'') else Inr v
    | _ \<Rightarrow> fail_opens (''The file does not say which Keras version saved it.''))"

section \<open>The objects of the architecture\<close>

text \<open>A JSON value in an f-string.\<close>

definition in_text :: "inspect_env \<Rightarrow> json \<Rightarrow> string" where
  "in_text E v = (case v of JStr s \<Rightarrow> s | JNull \<Rightarrow> ''None'' | _ \<Rightarrow> ie_str E v)"

definition dotted :: "inspect_env \<Rightarrow> json \<Rightarrow> json \<Rightarrow> string" where
  "dotted E origin name = in_text E origin @ ''.'' @ in_text E name"

definition is_keras_module :: "json \<Rightarrow> bool" where
  "is_keras_module v = (case v of JStr s \<Rightarrow> s = ''keras'' \<or> take 6 s = ''keras.'' | _ \<Rightarrow> False)"

text \<open>\<open>_shown\<close>: without the control characters of ASCII, cut short.\<close>

definition is_control :: "char \<Rightarrow> bool" where
  "is_control c = (code_of c < 32 \<or> code_of c = 127)"

definition shown_text :: "json \<Rightarrow> string option" where
  "shown_text v = (case v of
      JStr s \<Rightarrow> (let kept = take SHOWN_MAX (strip (filter (\<lambda>c. \<not> is_control c) s)) in if kept = [] then None else Some kept)
    | _ \<Rightarrow> None)"

definition shown_or :: "json \<Rightarrow> string \<Rightarrow> string" where
  "shown_or v other = (case shown_text v of None \<Rightarrow> other | Some s \<Rightarrow> s)"

definition layer_name :: "json \<Rightarrow> json" where
  "layer_name v = (case v of
      JObj ms \<Rightarrow> (case json_get v ''name'' of
          Some n \<Rightarrow> n
        | None \<Rightarrow> (case json_field v ''config'' of JObj c \<Rightarrow> json_field (JObj c) ''name'' | _ \<Rightarrow> JNull))
    | _ \<Rightarrow> JNull)"

text \<open>\<open>_verdict\<close>. A list or an object is not hashable: \<open>in\<close> a set is a \<open>TypeError\<close>.\<close>

datatype verdict = Fine | Stub | Refused string | Unhashable

definition allowed_function :: "inspect_env \<Rightarrow> json \<Rightarrow> bool" where
  "allowed_function E v = (case json_field v ''config'' of
      JStr name \<Rightarrow> json_field v ''registered_name'' \<in> {JNull, JStr ''function''} \<and>
        (json_field v ''module'' = JStr ''builtins'' \<and> name \<in> set BUILTIN_FUNCTIONS \<or>
         dotted E (json_field v ''module'') (JStr name) \<in> set FUNCTIONS)
    | _ \<Rightarrow> False)"

definition allowed_class :: "inspect_env \<Rightarrow> json \<Rightarrow> bool" where
  "allowed_class E v =
     (is_keras_module (json_field v ''module'') \<and> dotted E (json_field v ''module'') (json_field v ''class_name'') \<in> set CLASSES \<and>
      json_field v ''registered_name'' \<in> {JNull, json_field v ''class_name''})"

definition own_object :: "json \<Rightarrow> bool" where
  "own_object v = (case json_field v ''registered_name'' of JStr r \<Rightarrow> CHR ''>'' \<in> set r | _ \<Rightarrow> False)"

definition is_container :: "json \<Rightarrow> bool" where
  "is_container v = (case v of JList _ \<Rightarrow> True | JObj _ \<Rightarrow> True | _ \<Rightarrow> False)"

definition verdict_of :: "inspect_env \<Rightarrow> json \<Rightarrow> bool \<Rightarrow> verdict" where
  "verdict_of E v training_only =
     (let class_name = json_field v ''class_name''; origin = json_field v ''module''; registered = json_field v ''registered_name'';
          shown = shown_or class_name ''an object without a name''
      in if class_name = JNull then Fine
         else if class_name = JStr ''function''
           then (if allowed_function E v then Fine else Refused (shown_or (json_field v ''config'') ''a function''))
         else if origin = JNull \<and> registered = JNull \<and> is_container class_name then Unhashable
         else if origin = JNull \<and> registered = JNull \<and> class_name \<in> JStr ` set INTERNAL then Fine
         else if is_keras_module origin then (if allowed_class E v then Fine else Refused shown)
         else if training_only \<and> own_object v then Stub
         else Refused shown)"

text \<open>The entries that walking an object adds, in the order they are taken.\<close>

type_synonym walk_entry = "json \<times> string option \<times> bool"

definition ends_with :: "string \<Rightarrow> string \<Rightarrow> bool" where
  "ends_with s part = (length part \<le> length s \<and> drop (length s - length part) s = part)"

definition training_key :: "string \<Rightarrow> bool" where
  "training_key key = list_ex (ends_with key) TRAINING_ONLY_SUFFIXES"

definition member_entries :: "string option \<Rightarrow> bool \<Rightarrow> string \<times> json \<Rightarrow> walk_entry list" where
  "member_entries layer training_only member = (case member of (key, v) \<Rightarrow>
     (let skipped = (training_only \<or> training_key key)
      in (case v of
           JList items \<Rightarrow> if key = ''layers''
             then map (\<lambda>item. (item, (case shown_text (layer_name item) of None \<Rightarrow> layer | Some s \<Rightarrow> Some s), skipped)) items
             else [(v, layer, skipped)]
         | _ \<Rightarrow> [(v, layer, skipped)])))"

definition custom_detail :: "string option \<Rightarrow> string \<Rightarrow> string" where
  "custom_detail layer what = (case layer of None \<Rightarrow> ''The model'' | Some l \<Rightarrow> ''The layer '' @ [CHR 0x22] @ l @ [CHR 0x22]) @
     '' uses custom code ('' @ what @
     ''), which CandleStack does not run. Rebuild the model with the built-in Keras layers only and upload it again.''"

text \<open>The size of a value bounds the walk: the entries of an object are parts of it.\<close>

fun json_weight :: "json \<Rightarrow> nat" where
  "json_weight (JList xs) = Suc (sum_list (map json_weight xs))"
| "json_weight (JObj ms) = Suc (sum_list (map (\<lambda>(k, v). json_weight v) ms))"
| "json_weight _ = 1"

lemma sum_list_distinct_le:
  fixes f :: "'a \<Rightarrow> nat"
  assumes "distinct xs" "set xs \<subseteq> set ys"
  shows "sum_list (map f xs) \<le> sum_list (map f ys)"
proof -
  have "sum f (set ys) \<le> sum_list (map f ys)"
  proof (induction ys)
    case (Cons y ys)
    then show ?case by (cases "y \<in> set ys") (simp_all add: insert_absorb)
  qed simp
  then show ?thesis
    using assms sum_list_distinct_conv_sum_set[OF assms(1), of f] sum_mono2[OF finite_set assms(2), of f] by simp
qed

lemma members_weight: "sum_list (map (\<lambda>(k, v). json_weight v) (json_members ms)) \<le> sum_list (map (\<lambda>(k, v). json_weight v) ms)"
proof (rule sum_list_distinct_le)
  have "distinct (map fst (json_members ms))" by (simp add: json_members_def first_seen_def comp_def)
  then show "distinct (json_members ms)" by (simp add: distinct_map)
  show "set (json_members ms) \<subseteq> set ms"
  proof
    fix m assume "m \<in> set (json_members ms)"
    then obtain k where k: "k \<in> fst ` set ms" "m = (k, the (map_of (rev ms) k))" by (auto simp: json_members_def first_seen_def)
    then have "map_of (rev ms) k \<noteq> None" by (simp add: map_of_eq_None_iff)
    then obtain v where "map_of (rev ms) k = Some v" by blast
    then show "m \<in> set ms" using k map_of_SomeD[of "rev ms" k v] by simp
  qed
qed

definition entries_weight :: "walk_entry list \<Rightarrow> nat" where
  "entries_weight stack = sum_list (map (\<lambda>(v, _). json_weight v) stack)"

lemma entries_weight_simps [simp]:
  "entries_weight [] = 0" "entries_weight (e # es) = json_weight (fst e) + entries_weight es"
  "entries_weight (xs @ ys) = entries_weight xs + entries_weight ys"
  by (simp_all add: entries_weight_def case_prod_unfold)

lemma member_entries_weight: "entries_weight (member_entries layer t (k, v)) \<le> json_weight v"
  by (auto simp: member_entries_def entries_weight_def Let_def comp_def split: json.splits)

lemma object_entries_weight:
  "entries_weight (concat (map (member_entries layer t) (json_members ms))) < json_weight (JObj ms)"
proof -
  have "entries_weight (concat (map (member_entries layer t) kvs)) \<le> sum_list (map (\<lambda>(k, v). json_weight v) kvs)" for kvs
    by (induction kvs) (auto intro: add_mono member_entries_weight)
  from this[of "json_members ms"] show ?thesis using members_weight[of ms] by simp
qed

text \<open>\<open>_custom_code\<close>: the detail for the first object that is not allowed.\<close>

function custom_code :: "inspect_env \<Rightarrow> walk_entry list \<Rightarrow> inspect_error + string option" where
  "custom_code E [] = Inr None"
| "custom_code E ((v, layer, t) # stack) = (case v of
      JList items \<Rightarrow> custom_code E (map (\<lambda>item. (item, layer, t)) items @ stack)
    | JObj ms \<Rightarrow> (case verdict_of E v t of
        Stub \<Rightarrow> custom_code E stack
      | Refused what \<Rightarrow> Inr (Some (custom_detail layer what))
      | Unhashable \<Rightarrow> Inl (Uncaught ''TypeError'')
      | Fine \<Rightarrow> custom_code E (concat (map (member_entries layer t) (json_members ms)) @ stack))
    | _ \<Rightarrow> custom_code E stack)"
  by pat_completeness auto
termination
proof (relation "measure (\<lambda>(E, stack). entries_weight stack)")
  show "((E, map (\<lambda>item. (item, layer, t)) items @ stack), E, (v, layer, t) # stack) \<in> measure (\<lambda>(E, stack). entries_weight stack)"
    if "v = JList items" for E :: inspect_env and v layer t stack items
    using that by (simp add: entries_weight_def comp_def)
  show "((E, concat (map (member_entries layer t) (json_members ms)) @ stack), E, (v, layer, t) # stack) \<in> measure (\<lambda>(E, stack). entries_weight stack)"
    if "v = JObj ms" for E :: inspect_env and v layer t stack ms
    using object_entries_weight[of layer t ms] that by simp
qed (simp_all add: entries_weight_def)

declare custom_code.simps(2) [simp del]

definition NO_MODEL :: string where
  "NO_MODEL = ''The file holds no Functional or Sequential Keras model. A model of your own class cannot be checked without running its code. '' @
     ''Build the model with keras.Model (inputs, outputs) or keras.Sequential and upload it again.''"

text \<open>\<open>_check_architecture\<close>: the compile settings are left out.\<close>

definition check_architecture :: "inspect_env \<Rightarrow> (string \<times> json) list \<Rightarrow> inspect_error + unit" where
  "check_architecture E config =
     (if dotted E (json_field (JObj config) ''module'') (json_field (JObj config) ''class_name'') \<notin> set MODEL_CLASSES \<or>
         (case json_field (JObj config) ''config'' of JObj _ \<Rightarrow> False | _ \<Rightarrow> True)
      then fail_opens NO_MODEL
      else and_then (custom_code E [(JObj (filter (\<lambda>(k, _). k \<noteq> COMPILE_CONFIG) (json_members config)), None, False)])
        (\<lambda>found. case found of None \<Rightarrow> Inr () | Some detail \<Rightarrow> fail_opens detail))"

section \<open>The weights\<close>

text \<open>The links of a group one by one: what was visited, the sizes so far, and the groups to visit.\<close>

fun visit_links :: "h5_file \<Rightarrow> (string \<times> h5_link) list \<Rightarrow> nat \<Rightarrow> nat \<Rightarrow> nat list \<Rightarrow> inspect_error + nat \<times> nat \<times> nat list" where
  "visit_links F [] visited summed groups = Inr (visited, summed, groups)"
| "visit_links F ((key, link) # links) visited summed groups =
     (if visited + 1 > HDF5_OBJECTS_MAX then fail_weights UNREADABLE_WEIGHTS
      else (case link of
          OtherLink _ \<Rightarrow> fail_weights UNREADABLE_WEIGHTS
        | HardLink a \<Rightarrow> (case hf_object F a of
            Some (H5Group _) \<Rightarrow> visit_links F links (visited + 1) summed (a # groups)
          | Some (H5Dataset (Some n)) \<Rightarrow> visit_links F links (visited + 1) (summed + n) groups
          | Some H5Other \<Rightarrow> visit_links F links (visited + 1) summed groups
          | _ \<Rightarrow> fail_weights UNREADABLE_WEIGHTS)))"

lemma visit_links_visited:
  "visit_links F links visited summed groups = Inr (visited', summed', groups') \<Longrightarrow>
   visited' = visited + length links \<and> (visited \<le> HDF5_OBJECTS_MAX \<longrightarrow> visited' \<le> HDF5_OBJECTS_MAX)"
proof (induction links arbitrary: visited summed groups)
  case (Cons l links)
  obtain key link where l: "l = (key, link)" by (cases l)
  have "visited + 1 \<le> HDF5_OBJECTS_MAX" using Cons.prems by (auto simp: l fail_weights_def split: if_splits)
  moreover obtain summed2 groups2 where "visit_links F links (visited + 1) summed2 groups2 = Inr (visited', summed', groups')"
    using Cons.prems by (auto simp: l fail_weights_def split: if_splits h5_link.splits option.splits h5_object.splits)
  ultimately show ?case using Cons.IH by fastforce
qed simp

lemma visit_links_measure:
  assumes "visit_links F links visited summed groups = Inr (visited', summed', groups')"
  shows "Suc HDF5_OBJECTS_MAX - visited' < Suc HDF5_OBJECTS_MAX - visited \<or> visited' = visited \<and> groups' = groups"
proof (cases links)
  case (Cons l ls)
  then have "visited < HDF5_OBJECTS_MAX" using assms by (cases l) (auto simp: fail_weights_def split: if_splits)
  moreover have "visited < visited'" using visit_links_visited[OF assms] Cons by simp
  ultimately have "Suc HDF5_OBJECTS_MAX - visited' < Suc HDF5_OBJECTS_MAX - visited" by (intro diff_less_mono2) simp_all
  then show ?thesis ..
qed (use assms in simp)

definition group_links :: "h5_file \<Rightarrow> nat \<Rightarrow> (string \<times> h5_link) list" where
  "group_links F a = (case hf_object F a of Some (H5Group links) \<Rightarrow> links | _ \<Rightarrow> [])"

text \<open>The loop over the groups, the last one found first. Links may form cycles: it ends because an object
  is counted at every visit.\<close>

function visit_groups :: "h5_file \<Rightarrow> nat list \<Rightarrow> nat \<Rightarrow> nat \<Rightarrow> inspect_error + nat" where
  "visit_groups F [] visited summed = Inr summed"
| "visit_groups F (a # groups) visited summed = (case visit_links F (group_links F a) visited summed groups of
      Inl e \<Rightarrow> Inl e
    | Inr (visited', summed', groups') \<Rightarrow> visit_groups F groups' visited' summed')"
  by pat_completeness auto
termination by (relation "measures [\<lambda>(F, groups, visited, summed). Suc HDF5_OBJECTS_MAX - visited, \<lambda>(F, groups, visited, summed). length groups]")
    (auto dest!: visit_links_measure)

definition sizes_under :: "h5_file \<Rightarrow> string \<Rightarrow> inspect_error + nat" where
  "sizes_under F name = (case map_of (hf_root F) name of
      None \<Rightarrow> Inr 0
    | Some (OtherLink leads) \<Rightarrow> if leads then fail_weights UNREADABLE_WEIGHTS else Inr 0
    | Some (HardLink a) \<Rightarrow> (case hf_object F a of
        None \<Rightarrow> fail_weights UNREADABLE_WEIGHTS
      | Some (H5Group _) \<Rightarrow> visit_groups F [a] 0 0
      | _ \<Rightarrow> Inr 0))"

definition count_parameters :: "inspect_env \<Rightarrow> string \<Rightarrow> inspect_error + int" where
  "count_parameters E blob = (case ie_h5 E blob of
      None \<Rightarrow> fail_weights UNREADABLE_WEIGHTS
    | Some F \<Rightarrow> and_then (sizes_under F ''layers'') (\<lambda>n.
        if n = 0 then fail_weights NO_WEIGHTS else if int n > PARAMETERS_MAX then fail_weights UNREADABLE_WEIGHTS else Inr (int n)))"

section \<open>Shapes\<close>

definition is_object :: "json \<Rightarrow> bool" where
  "is_object v = (case v of JObj _ \<Rightarrow> True | _ \<Rightarrow> False)"

definition model_layers :: "(string \<times> json) list \<Rightarrow> json list" where
  "model_layers config = (case json_field (json_field (JObj config) ''config'') ''layers'' of
      JList xs \<Rightarrow> filter is_object xs | _ \<Rightarrow> [])"

definition positive_int :: "json \<Rightarrow> int option" where
  "positive_int v = (case v of JInt n \<Rightarrow> if n > 0 then Some n else None | _ \<Rightarrow> None)"

definition sample_shape :: "json \<Rightarrow> int list option" where
  "sample_shape v = (case v of JList (_ # d # ds) \<Rightarrow> map_opt positive_int (d # ds) | _ \<Rightarrow> None)"

definition input_shape :: "json list \<Rightarrow> int list option" where
  "input_shape layers = (case filter (\<lambda>l. json_field l ''class_name'' = JStr ''InputLayer'') layers of
      [l] \<Rightarrow> (case json_field l ''config'' of
          JObj c \<Rightarrow> sample_shape (case json_get (JObj c) ''batch_shape'' of Some v \<Rightarrow> v | None \<Rightarrow> json_field (JObj c) ''batch_input_shape'')
        | _ \<Rightarrow> None)
    | _ \<Rightarrow> None)"

definition output_layer :: "(string \<times> json) list \<Rightarrow> json list \<Rightarrow> json option" where
  "output_layer config layers =
     (if json_field (JObj config) ''class_name'' = JStr ''Sequential''
      then (if layers = [] \<or> json_field (last layers) ''class_name'' = JStr ''InputLayer'' then None else Some (last layers))
      else (let outputs = json_field (json_field (JObj config) ''config'') ''output_layers'';
                outputs = (case outputs of JList [x] \<Rightarrow> x | _ \<Rightarrow> outputs)
            in (case outputs of
                JList [JStr name, _, _] \<Rightarrow> (case filter (\<lambda>l. layer_name l = JStr name) layers of [l] \<Rightarrow> Some l | _ \<Rightarrow> None)
              | _ \<Rightarrow> None)))"

definition output_shape :: "(string \<times> json) list \<Rightarrow> json list \<Rightarrow> int list option" where
  "output_shape config layers = (case output_layer config layers of
      None \<Rightarrow> None
    | Some l \<Rightarrow> (case (case json_field l ''build_config'' of JObj b \<Rightarrow> sample_shape (json_field (JObj b) ''input_shape'') | _ \<Rightarrow> None) of
        None \<Rightarrow> None
      | Some shape \<Rightarrow>
          if json_field l ''class_name'' = JStr ''Dense''
          then (case json_field l ''config'' of
              JObj c \<Rightarrow> map_option (\<lambda>units. butlast shape @ [units]) (positive_int (json_field (JObj c) ''units''))
            | _ \<Rightarrow> None)
          else if json_field l ''class_name'' = JStr ''Flatten'' then Some [prod_list shape]
          else if json_field l ''class_name'' \<in> JStr ` set SHAPE_KEEPING then Some shape
          else None))"

section \<open>The whole check\<close>

record model_facts =
  mf_version :: string
  mf_parameters :: int
  mf_input :: "int list option"
  mf_output :: "int list option"

definition inspect_keras :: "inspect_env \<Rightarrow> string \<Rightarrow> int \<Rightarrow> inspect_error + model_facts" where
  "inspect_keras E file file_max =
     and_then (check_index file) (\<lambda>_.
     (case ie_open E file of
        None \<Rightarrow> fail_opens BROKEN
      | Some A \<Rightarrow>
          and_then (check_members A file_max) (\<lambda>_.
          and_then (read_json E A METADATA) (\<lambda>metadata.
          and_then (keras_version_of metadata) (\<lambda>version.
          and_then (read_json E A CONFIG) (\<lambda>config.
          and_then (check_architecture E config) (\<lambda>_.
          (case za_read A WEIGHTS of
             Inl _ \<Rightarrow> fail_opens BROKEN
           | Inr weights \<Rightarrow> and_then (count_parameters E weights) (\<lambda>parameters.
               Inr \<lparr>mf_version = version, mf_parameters = parameters, mf_input = input_shape (model_layers config),
                    mf_output = output_shape config (model_layers config)\<rparr>)))))))))"

section \<open>What is accepted\<close>

text \<open>The specification: an object that serializes nothing, a built-in one of the allowlist, and the user's
  own where only training uses it.\<close>

definition plain_object :: "json \<Rightarrow> bool" where
  "plain_object v = (json_field v ''class_name'' = JNull)"

definition builtin_object :: "inspect_env \<Rightarrow> json \<Rightarrow> bool" where
  "builtin_object E v =
     (if json_field v ''class_name'' = JStr ''function'' then allowed_function E v
      else allowed_class E v \<or> json_field v ''module'' = JNull \<and> json_field v ''registered_name'' = JNull \<and>
        json_field v ''class_name'' \<in> JStr ` set INTERNAL)"

definition users_object :: "json \<Rightarrow> bool" where
  "users_object v = (own_object v \<and> \<not> is_keras_module (json_field v ''module'') \<and>
     json_field v ''class_name'' \<noteq> JNull \<and> json_field v ''class_name'' \<noteq> JStr ''function'')"

text \<open>The values inside an architecture, each with whether only training uses it; the inside of the user's
  own objects, which the worker replaces, does not count.\<close>

inductive inside :: "json \<Rightarrow> bool \<Rightarrow> json \<Rightarrow> bool \<Rightarrow> bool" where
  inside_self: "inside v t v t"
| inside_item: "x \<in> set xs \<Longrightarrow> inside x t w u \<Longrightarrow> inside (JList xs) t w u"
| inside_member: "(k, v) \<in> set (json_members ms) \<Longrightarrow> \<not> (t \<and> users_object (JObj ms)) \<Longrightarrow> inside v (t \<or> training_key k) w u \<Longrightarrow>
    inside (JObj ms) t w u"

inductive_cases inside_list: "inside (JList xs) t w u"
inductive_cases inside_object: "inside (JObj ms) t w u"
inductive_cases inside_atom: "inside JNull t w u" "inside (JBool b) t w u" "inside (JInt i) t w u" "inside (JNum x) t w u" "inside (JStr s) t w u"

definition object_ok :: "inspect_env \<Rightarrow> json \<Rightarrow> bool \<Rightarrow> bool" where
  "object_ok E w u = (is_object w \<longrightarrow> plain_object w \<or> builtin_object E w \<or> u \<and> users_object w)"

lemma verdict_stub: "verdict_of E v t = Stub \<longleftrightarrow> t \<and> users_object v"
  by (auto simp: verdict_of_def users_object_def Let_def own_object_def split: json.splits)

lemma verdict_fine: "verdict_of E v t = Fine \<longleftrightarrow> plain_object v \<or> builtin_object E v"
  by (auto simp: verdict_of_def plain_object_def builtin_object_def Let_def allowed_class_def is_keras_module_def is_container_def)

definition all_ok :: "inspect_env \<Rightarrow> json \<Rightarrow> bool \<Rightarrow> bool" where
  "all_ok E v t = (\<forall>w u. inside v t w u \<longrightarrow> object_ok E w u)"

lemma all_ok_list: "all_ok E (JList xs) t \<longleftrightarrow> (\<forall>x \<in> set xs. all_ok E x t)"
  by (auto simp: all_ok_def object_ok_def is_object_def elim!: inside_list intro: inside_item)

lemma all_ok_atom: "\<not> is_object v \<Longrightarrow> (\<And>xs. v \<noteq> JList xs) \<Longrightarrow> all_ok E v t"
  by (cases v) (auto simp: all_ok_def object_ok_def is_object_def elim: inside_atom)

lemma all_ok_object: "all_ok E (JObj ms) t \<longleftrightarrow> (case verdict_of E (JObj ms) t of
    Stub \<Rightarrow> True | Fine \<Rightarrow> (\<forall>(k, v) \<in> set (json_members ms). all_ok E v (t \<or> training_key k)) | _ \<Rightarrow> False)"
proof -
  have self: "object_ok E (JObj ms) t \<longleftrightarrow> verdict_of E (JObj ms) t \<in> {Fine, Stub}"
    using verdict_stub[of E "JObj ms" t] verdict_fine[of E "JObj ms" t] by (auto simp: object_ok_def is_object_def)
  show ?thesis
  proof (cases "verdict_of E (JObj ms) t")
    case Stub
    then have "\<And>w u. inside (JObj ms) t w u \<Longrightarrow> w = JObj ms \<and> u = t" using verdict_stub[of E "JObj ms" t] by (auto elim: inside_object)
    then show ?thesis using Stub self by (auto simp: all_ok_def)
  next
    case Fine
    then have s: "\<not> (t \<and> users_object (JObj ms))" using verdict_stub[of E "JObj ms" t] by simp
    show ?thesis using Fine self s unfolding all_ok_def by (auto elim!: inside_object intro: inside_member)
  qed (use self inside_self in \<open>auto simp: all_ok_def\<close>)
qed

lemma member_entries_ok: "(\<forall>(w, l, u) \<in> set (member_entries layer t (k, v)). all_ok E w u) \<longleftrightarrow> all_ok E v (t \<or> training_key k)"
  by (auto simp: member_entries_def Let_def all_ok_list split: json.splits)

text \<open>The walk over a stack finds nothing exactly when all is well in each of its entries.\<close>

lemma custom_code_ok: "custom_code E stack = Inr None \<longleftrightarrow> (\<forall>(v, l, t) \<in> set stack. all_ok E v t)"
proof (induction stack rule: measure_induct_rule[where f = entries_weight])
  case (less stack)
  show ?case
  proof (cases stack)
    case Nil
    then show ?thesis by simp
  next
    case (Cons entry rest)
    obtain v layer t where entry: "entry = (v, layer, t)" by (cases entry)
    have rest: "custom_code E rest = Inr None \<longleftrightarrow> (\<forall>(v, l, t) \<in> set rest. all_ok E v t)"
      by (rule less) (cases v; simp add: Cons entry)
    show ?thesis
    proof (cases v)
      case (JList items)
      have "entries_weight (map (\<lambda>item. (item, layer, t)) items @ rest) < entries_weight stack"
        by (simp add: Cons entry JList entries_weight_def comp_def)
      from less[OF this] show ?thesis
        by (simp add: Cons entry JList custom_code.simps(2) all_ok_list ball_Un)
    next
      case (JObj ms)
      let ?entries = "concat (map (member_entries layer t) (json_members ms))"
      have "entries_weight (?entries @ rest) < entries_weight stack"
        using object_entries_weight[of layer t ms] by (simp add: Cons entry JObj)
      note walked = less[OF this]
      have split: "(\<forall>(w, l, u) \<in> set ?entries. all_ok E w u) \<longleftrightarrow> (\<forall>(k, v) \<in> set (json_members ms). all_ok E v (t \<or> training_key k))"
        using member_entries_ok by fastforce
      have "custom_code E stack = (case verdict_of E (JObj ms) t of Stub \<Rightarrow> custom_code E rest
          | Refused what \<Rightarrow> Inr (Some (custom_detail layer what)) | Unhashable \<Rightarrow> Inl (Uncaught ''TypeError'')
          | Fine \<Rightarrow> custom_code E (?entries @ rest))"
        by (simp add: Cons entry JObj custom_code.simps(2))
      then show ?thesis using walked rest split unfolding Cons entry JObj
        by (cases "verdict_of E (JObj ms) t") (simp_all add: all_ok_object ball_Un)
    qed (use rest all_ok_atom in \<open>simp_all add: Cons entry custom_code.simps(2) is_object_def\<close>)
  qed
qed

text \<open>C31: The walk over a stack accepts an architecture exactly when every object inside it is an allowed
  built-in one or serializes nothing, or is the user's own where only training uses it: nothing inside
  is missed, whatever the nesting, and nothing allowed is refused.\<close>

theorem walk_accepts_allowed:
  "custom_code E [(v, None, False)] = Inr None \<longleftrightarrow> (\<forall>w u. inside v False w u \<longrightarrow> object_ok E w u)"
  using custom_code_ok[of E "[(v, None, False)]"] by (simp add: all_ok_def)

text \<open>What an accepted file went through.\<close>

lemma check_members_ok:
  assumes "check_members A file_max = Inr ()"
  shows "\<forall>(name, size) \<in> set (za_infos A). \<not> points_outside name \<and> known_member name"
    "sum_list (map snd (za_infos A)) \<le> 4 * file_max" "set MEMBERS \<subseteq> fst ` set (za_infos A)" "int (length (za_infos A)) \<le> ENTRIES_MAX"
proof -
  have *: "int (length (za_infos A)) \<le> ENTRIES_MAX" "List.map_filter (member_problem \<circ> fst) (za_infos A) = []"
    "filter (\<lambda>m. m \<notin> fst ` set (za_infos A)) MEMBERS = []" "sum_list (map snd (za_infos A)) \<le> 4 * file_max"
    using assms by (auto simp: check_members_def fail_opens_def split: if_splits list.splits)
  have "member_problem name = None" if "(name, size) \<in> set (za_infos A)" for name size
    using *(2) that by (auto simp: List.map_filter_def filter_empty_conv)
  then show "\<forall>(name, size) \<in> set (za_infos A). \<not> points_outside name \<and> known_member name"
    by (fastforce simp: member_problem_def split: if_splits)
  show "sum_list (map snd (za_infos A)) \<le> 4 * file_max" "int (length (za_infos A)) \<le> ENTRIES_MAX" by (fact *)+
  show "set MEMBERS \<subseteq> fst ` set (za_infos A)" using *(3) by (auto simp: filter_empty_conv)
qed

lemma check_architecture_ok:
  assumes "check_architecture E config = Inr ()"
  shows "dotted E (json_field (JObj config) ''module'') (json_field (JObj config) ''class_name'') \<in> set MODEL_CLASSES"
    "custom_code E [(JObj (filter (\<lambda>(k, _). k \<noteq> COMPILE_CONFIG) (json_members config)), None, False)] = Inr None"
  using assms by (auto simp: check_architecture_def fail_opens_def and_then_Inr split: if_splits option.splits)

lemma inspect_cases:
  assumes "inspect_keras E file file_max = Inr facts"
  obtains A metadata config weights where "ie_open E file = Some A" "check_members A file_max = Inr ()"
    "read_json E A METADATA = Inr metadata" "keras_version_of metadata = Inr (mf_version facts)" "read_json E A CONFIG = Inr config"
    "check_architecture E config = Inr ()" "za_read A WEIGHTS = Inr weights" "count_parameters E weights = Inr (mf_parameters facts)"
    "mf_input facts = input_shape (model_layers config)" "mf_output facts = output_shape config (model_layers config)"
proof (cases "ie_open E file")
  case None
  then show ?thesis using assms by (auto simp: inspect_keras_def and_then_Inr fail_opens_def)
next
  case (Some A)
  show ?thesis
  proof (cases "za_read A WEIGHTS")
    case (Inl f)
    then show ?thesis using assms Some by (auto simp: inspect_keras_def and_then_Inr fail_opens_def)
  next
    case (Inr weights)
    then show ?thesis using assms Some that[OF Some] by (auto simp: inspect_keras_def and_then_Inr)
  qed
qed

text \<open>C32: A file that is accepted is a small zip of the files of a Keras model only, none of them outside it
  and all of them not larger than four uploads; its architecture is a Functional or Sequential model
  with nothing inside but allowed objects (besides the compile settings, which the worker drops).\<close>

theorem accepted_file_is_safe:
  assumes "inspect_keras E file file_max = Inr facts"
  shows "\<exists>A config. ie_open E file = Some A \<and> read_json E A CONFIG = Inr config \<and>
    int (length (za_infos A)) \<le> ENTRIES_MAX \<and> set MEMBERS \<subseteq> fst ` set (za_infos A) \<and>
    (\<forall>(name, size) \<in> set (za_infos A). \<not> points_outside name \<and> known_member name) \<and>
    sum_list (map snd (za_infos A)) \<le> 4 * file_max \<and>
    dotted E (json_field (JObj config) ''module'') (json_field (JObj config) ''class_name'') \<in> set MODEL_CLASSES \<and>
    (\<forall>w u. inside (JObj (filter (\<lambda>(k, _). k \<noteq> COMPILE_CONFIG) (json_members config))) False w u \<longrightarrow> object_ok E w u)"
proof (rule inspect_cases[OF assms])
  fix A metadata config weights
  assume a: "ie_open E file = Some A" "check_members A file_max = Inr ()" "read_json E A CONFIG = Inr config" "check_architecture E config = Inr ()"
  have "\<forall>w u. inside (JObj (filter (\<lambda>(k, _). k \<noteq> COMPILE_CONFIG) (json_members config))) False w u \<longrightarrow> object_ok E w u"
    using check_architecture_ok(2)[OF a(4)] custom_code_ok by (simp add: all_ok_def)
  then show ?thesis using a(1,3) check_members_ok[OF a(2)] check_architecture_ok(1)[OF a(4)] by blast
qed

lemma map_opt_positive: "map_opt positive_int vs = Some ds \<Longrightarrow> length ds = length vs \<and> (\<forall>d \<in> set ds. 0 < d)"
  by (induction vs arbitrary: ds) (auto simp: positive_int_def split: option.splits json.splits if_splits)

lemma sample_shape_positive: "sample_shape v = Some ds \<Longrightarrow> ds \<noteq> [] \<and> (\<forall>d \<in> set ds. 0 < d)"
  by (auto simp: sample_shape_def simp del: map_opt.simps split: json.splits list.splits dest!: map_opt_positive)

lemma prod_list_positive: "\<forall>d \<in> set ds. 0 < d \<Longrightarrow> 0 < prod_list (ds :: int list)"
  by (induction ds) auto

lemma output_shape_positive: "output_shape config layers = Some ds \<Longrightarrow> ds \<noteq> [] \<and> (\<forall>d \<in> set ds. 0 < d)"
  using in_set_butlastD[where 'a = int]
  by (fastforce simp: output_shape_def positive_int_def prod_list_positive split: option.splits json.splits if_splits
      dest!: sample_shape_positive)

text \<open>What the check reports of an accepted file is in range: a version of 1 to 32 characters, a number of
  weights that fits a bigint and is not 0, and shapes of positive dimensions, at least one.\<close>

theorem facts_in_range:
  assumes "inspect_keras E file file_max = Inr facts"
  shows "0 < length (mf_version facts) \<and> length (mf_version facts) \<le> KERAS_VERSION_MAX \<and>
    0 < mf_parameters facts \<and> mf_parameters facts \<le> PARAMETERS_MAX \<and>
    (\<forall>ds \<in> set_option (mf_input facts) \<union> set_option (mf_output facts). ds \<noteq> [] \<and> (\<forall>d \<in> set ds. 0 < d))"
proof (rule inspect_cases[OF assms])
  fix A metadata config weights
  assume a: "keras_version_of metadata = Inr (mf_version facts)" "count_parameters E weights = Inr (mf_parameters facts)"
    "mf_input facts = input_shape (model_layers config)" "mf_output facts = output_shape config (model_layers config)"
  have "0 < length (mf_version facts) \<and> length (mf_version facts) \<le> KERAS_VERSION_MAX"
    using a(1) by (auto simp: keras_version_of_def fail_opens_def split: json.splits if_splits)
  moreover have "0 < mf_parameters facts \<and> mf_parameters facts \<le> PARAMETERS_MAX"
    using a(2) by (auto simp: count_parameters_def fail_weights_def and_then_Inr split: option.splits if_splits)
  moreover have "ds \<noteq> [] \<and> (\<forall>d \<in> set ds. 0 < d)" if "input_shape layers = Some ds" for ds layers
    using that by (auto simp: input_shape_def split: list.splits json.splits dest!: sample_shape_positive)
  moreover note output_shape_positive
  ultimately show ?thesis unfolding a(3,4) by (metis UnE elem_set)
qed

text \<open>C33: An object whose class name is a list, with no module, is refused with no \<open>CheckFailed\<close>: asking
  whether the name is one of a set raises a \<open>TypeError\<close>, which the check does not catch.\<close>

theorem list_class_name_crashes:
  "check_architecture E [(''module'', JStr ''keras''), (''class_name'', JStr ''Sequential''),
     (''config'', JObj [(''layers'', JList (JObj [(''class_name'', JList xs)] # layers))])] = Inl (Uncaught ''TypeError'')"
proof -
  have model: "verdict_of E (JObj [(''module'', JStr ''keras''), (''class_name'', JStr ''Sequential''), (''config'', c)]) False = Fine" for c
    using plain_layers(3) by (simp add: verdict_of_def json_field_def json_get_def is_keras_module_def allowed_class_def dotted_def in_text_def)
  have settings: "verdict_of E (JObj [(''layers'', v)]) False = Fine" for v
    by (simp add: verdict_of_def json_field_def json_get_def)
  have layer: "verdict_of E (JObj [(''class_name'', JList xs)]) False = Unhashable"
    by (simp add: verdict_of_def json_field_def json_get_def is_container_def)
  show ?thesis
    by (simp add: check_architecture_def dotted_def in_text_def json_field_def json_get_def MODEL_CLASSES_def and_then_def
        custom_code.simps(2) model settings layer json_members_def first_seen_def member_entries_def Let_def training_key_def
        TRAINING_ONLY_SUFFIXES_def ends_with_def COMPILE_CONFIG_def)
qed

section \<open>Examples\<close>

text \<open>A Sequential model of an input and a Dense layer, whose regularizer is the user's own object.\<close>

definition example_regularizer :: json where
  "example_regularizer = JObj [(''class_name'', JStr ''Mine''), (''registered_name'', JStr ''my>Mine'')]"

definition example_input :: json where
  "example_input = JObj [(''module'', JStr ''keras.layers''), (''class_name'', JStr ''InputLayer''),
     (''config'', JObj [(''batch_shape'', JList [JNull, JInt 25, JInt 23])])]"

definition example_dense :: json where
  "example_dense = JObj [(''module'', JStr ''keras.layers''), (''class_name'', JStr ''Dense''),
     (''config'', JObj [(''units'', JInt 3), (''kernel_regularizer'', example_regularizer)]),
     (''build_config'', JObj [(''input_shape'', JList [JNull, JInt 25])])]"

definition example_config :: "(string \<times> json) list" where
  "example_config = [(''module'', JStr ''keras''), (''class_name'', JStr ''Sequential''),
     (''config'', JObj [(''layers'', JList [example_input, example_dense])]), (''compile_config'', JObj [(''class_name'', JStr ''Evil'')])]"

definition example_archive :: zip_archive where
  "example_archive = \<lparr>za_infos = [(METADATA, 10), (CONFIG, 20), (WEIGHTS, 30)], za_read = Inr\<rparr>"

definition example_inspect :: inspect_env where
  "example_inspect = \<lparr>ie_open = (\<lambda>_. Some example_archive),
     ie_loads = (\<lambda>t. if t = METADATA then Some (JObj [(''keras_version'', JStr ''3.15.1'')]) else if t = CONFIG then Some (JObj example_config) else None),
     ie_str = (\<lambda>_. []),
     ie_h5 = (\<lambda>_. Some \<lparr>hf_root = [(''layers'', HardLink 0)], hf_object = (\<lambda>a. if a = 0 then Some (H5Group [(''kernel'', HardLink 1)])
       else if a = 1 then Some (H5Dataset (Some 6)) else None)\<rparr>)\<rparr>"

definition example_zip :: string where
  "example_zip = EOCD @ replicate 18 (CHR 0x00)"

lemmas json_eval = json_field_def json_get_def json_members_def first_seen_def json_items_def

lemma example_verdicts:
  "verdict_of E (JObj (filter (\<lambda>(k, _). k \<noteq> COMPILE_CONFIG) (json_members example_config))) False = Fine"
  "verdict_of E example_input False = Fine" "verdict_of E example_dense False = Fine"
  "verdict_of E example_regularizer True = Stub"
  using plain_layers
  by (simp_all add: verdict_of_def json_eval example_config_def example_input_def example_dense_def example_regularizer_def COMPILE_CONFIG_def
      is_keras_module_def allowed_class_def dotted_def in_text_def own_object_def is_container_def INTERNAL_def)

lemma example_walk: "custom_code E [(JObj (filter (\<lambda>(k, _). k \<noteq> COMPILE_CONFIG) (json_members example_config)), None, False)] = Inr None"
proof -
  have config: "filter (\<lambda>(k, _). k \<noteq> COMPILE_CONFIG) (json_members example_config) =
      [(''module'', JStr ''keras''), (''class_name'', JStr ''Sequential''), (''config'', JObj [(''layers'', JList [example_input, example_dense])])]"
    by (simp add: example_config_def json_eval COMPILE_CONFIG_def)
  have fine: "verdict_of E (JObj [(''batch_shape'', v)]) t = Fine" "verdict_of E (JObj [(''layers'', v)]) t = Fine"
    "verdict_of E (JObj [(''units'', v), (''kernel_regularizer'', r)]) t = Fine" "verdict_of E (JObj [(''input_shape'', v)]) t = Fine" for v r t
    by (simp_all add: verdict_of_def json_eval)
  show ?thesis
    using example_verdicts[of E] unfolding config
    by (simp add: custom_code.simps(2) fine example_input_def example_dense_def example_regularizer_def json_eval member_entries_def Let_def
        training_key_def TRAINING_ONLY_SUFFIXES_def ends_with_def)
qed

lemma example_accepted_within:
  assumes "100 \<le> file_max"
  shows "inspect_keras example_inspect example_zip file_max = Inr \<lparr>mf_version = ''3.15.1'', mf_parameters = 6, mf_input = Some [25, 23], mf_output = Some [3]\<rparr>"
proof -
  have index: "check_index example_zip = Inr ()"
  proof -
    have z: "example_zip = [CHR ''P'', CHR ''K'', CHR 0x05, CHR 0x06, CHR 0x00, CHR 0x00, CHR 0x00, CHR 0x00, CHR 0x00, CHR 0x00, CHR 0x00,
        CHR 0x00, CHR 0x00, CHR 0x00, CHR 0x00, CHR 0x00, CHR 0x00, CHR 0x00, CHR 0x00, CHR 0x00, CHR 0x00, CHR 0x00]"
      by (simp add: example_zip_def EOCD_def numeral_eq_Suc)
    have len: "length example_zip = 22" by (simp add: example_zip_def EOCD_def)
    have tail: "drop (22 - TAIL) example_zip = example_zip" by (simp add: TAIL_def)
    have r: "rfind EOCD example_zip = Some 0" unfolding z rfind_def EOCD_def by (simp add: upt_rec)
    show ?thesis unfolding check_index_def Let_def tail r option.case len EOCD_SIZE_def
      by simp (simp add: z le_number_def code_of_def ENTRIES_MAX_def
        CENTRAL_DIRECTORY_MAX_def MIB_def ZIP64_LOCATOR_def)
  qed
  have members: "check_members example_archive file_max = Inr ()"
    using assms by (simp add: check_members_def example_archive_def member_problem_def points_outside_def known_member_def MEMBERS_def METADATA_def
        CONFIG_def WEIGHTS_def ENTRIES_MAX_def entry_size_def List.map_filter_def is_upper_def is_lower_def code_of_def)
  have read: "read_json example_inspect example_archive METADATA = Inr [(''keras_version'', JStr ''3.15.1'')]"
    "read_json example_inspect example_archive CONFIG = Inr example_config"
    by (simp_all add: read_json_def example_inspect_def example_archive_def entry_size_def METADATA_def CONFIG_def WEIGHTS_def JSON_MAX_def MIB_def)
  have version: "keras_version_of [(''keras_version'', JStr ''3.15.1'')] = Inr ''3.15.1''"
    by (simp add: keras_version_of_def json_eval KERAS_VERSION_MAX_def)
  have arch: "check_architecture example_inspect example_config = Inr ()"
    unfolding check_architecture_def example_walk
    by (simp add: and_then_def example_config_def json_eval dotted_def in_text_def MODEL_CLASSES_def)
  have weights: "count_parameters example_inspect WEIGHTS = Inr 6"
    by (simp add: count_parameters_def example_inspect_def sizes_under_def group_links_def HDF5_OBJECTS_MAX_def PARAMETERS_MAX_def and_then_def)
  have layers: "model_layers example_config = [example_input, example_dense]"
    by (simp add: model_layers_def example_config_def json_eval is_object_def example_input_def example_dense_def)
  have shapes: "input_shape [example_input, example_dense] = Some [25, 23]" "output_shape example_config [example_input, example_dense] = Some [3]"
    by (simp_all add: input_shape_def output_shape_def output_layer_def example_input_def example_dense_def example_config_def json_eval
        sample_shape_def positive_int_def)
  have opened: "ie_open example_inspect example_zip = Some example_archive" "za_read example_archive WEIGHTS = Inr WEIGHTS"
    by (simp_all add: example_inspect_def example_archive_def)
  show ?thesis
    by (simp add: inspect_keras_def index and_then_def members read version arch weights layers shapes opened)
qed

lemmas example_accepted = example_accepted_within[of 100, simplified]

text \<open>The regularizer of the user is inside the layer, and allowed there only.\<close>

theorem walk_accepts_allowed_witness:
  "inside example_dense False example_regularizer True \<and> object_ok example_inspect example_regularizer True \<and>
   \<not> object_ok example_inspect example_regularizer False"
proof -
  let ?loaded = "JObj (filter (\<lambda>(k, _). k \<noteq> COMPILE_CONFIG) (json_members example_config))"
  have d: "inside example_dense False example_regularizer True"
    unfolding example_dense_def
  proof (rule inside_member)
    show "(''config'', JObj [(''units'', JInt 3), (''kernel_regularizer'', example_regularizer)]) \<in> set (json_members
        [(''module'', JStr ''keras.layers''), (''class_name'', JStr ''Dense''),
         (''config'', JObj [(''units'', JInt 3), (''kernel_regularizer'', example_regularizer)]),
         (''build_config'', JObj [(''input_shape'', JList [JNull, JInt 25])])])" by (simp add: json_eval)
    show "inside (JObj [(''units'', JInt 3), (''kernel_regularizer'', example_regularizer)]) (False \<or> training_key ''config'') example_regularizer True"
    proof (rule inside_member)
      show "(''kernel_regularizer'', example_regularizer) \<in> set (json_members [(''units'', JInt 3), (''kernel_regularizer'', example_regularizer)])"
        by (simp add: json_eval)
      show "inside example_regularizer ((False \<or> training_key ''config'') \<or> training_key ''kernel_regularizer'') example_regularizer True"
        using inside_self[of example_regularizer True] by (simp add: training_key_def TRAINING_ONLY_SUFFIXES_def ends_with_def)
    qed (simp add: training_key_def TRAINING_ONLY_SUFFIXES_def ends_with_def)
  qed simp
  have l: "inside ?loaded False w u" if "inside example_dense False w u" for w u
  proof -
    have keys: "\<not> training_key ''config''" "\<not> training_key ''layers''" by (simp_all add: training_key_def TRAINING_ONLY_SUFFIXES_def ends_with_def)
    have items: "inside (JList [example_input, example_dense]) False w u"
      by (rule inside_item[of example_dense]) (use that in simp_all)
    have layers: "inside (JObj [(''layers'', JList [example_input, example_dense])]) False w u"
      by (rule inside_member[of "''layers''" "JList [example_input, example_dense]"]) (use items keys in \<open>simp_all add: json_eval\<close>)
    show ?thesis
      by (rule inside_member[of "''config''" "JObj [(''layers'', JList [example_input, example_dense])]"])
        (use layers keys in \<open>simp_all add: example_config_def json_eval COMPILE_CONFIG_def\<close>)
  qed
  have "object_ok example_inspect example_regularizer True"
    by (rule iffD1[OF walk_accepts_allowed example_walk, rule_format, OF l[OF d]])
  moreover have "\<not> object_ok example_inspect example_regularizer False"
    by (simp add: object_ok_def is_object_def example_regularizer_def plain_object_def builtin_object_def json_eval allowed_class_def is_keras_module_def INTERNAL_def)
  ultimately show ?thesis using d by simp
qed

theorem accepted_file_is_safe_witness:
  "\<exists>A config. ie_open example_inspect example_zip = Some A \<and> read_json example_inspect A CONFIG = Inr config \<and>
    int (length (za_infos A)) \<le> ENTRIES_MAX \<and> sum_list (map snd (za_infos A)) \<le> 4 * 100"
  using accepted_file_is_safe[OF example_accepted] by blast

theorem facts_in_range_witness:
  "inspect_keras example_inspect example_zip 100 = Inr \<lparr>mf_version = ''3.15.1'', mf_parameters = 6, mf_input = Some [25, 23], mf_output = Some [3]\<rparr> \<and>
   (0 :: int) < 6 \<and> 6 \<le> PARAMETERS_MAX"
  using facts_in_range[OF example_accepted] example_accepted by simp

end
