(* ===== verification/MlModels.thy ===== *)
theory MlModels
  imports MlInspect "HOL-Library.Product_Lexorder"
begin

text \<open>
  The models of a user: \<open>ml/service.py\<close> with the table (\<open>store.py\<close>), the files (\<open>storage.py\<close>) and the upload
  lock (\<open>uploads.py\<close>). A transaction under the lock of a user's models is one step on the state; what
  may fail in it (a write of the file, the commit) is given by \<open>keep_luck\<close>. Postgres' \<open>lower\<close> is that
  of ASCII. The theorems: the quota, the names in any case and the files of all users are kept by every
  operation; the search of a free name ends within as many tries as the user has names, two more, and
  the name it finds is free and no longer than Rename allows, so an upload never fails for its name.
\<close>

section \<open>Names\<close>

definition KERAS_SUFFIX :: string where "KERAS_SUFFIX = ''.keras''"
definition DEFAULT_STEM :: string where "DEFAULT_STEM = ''model''"
definition NAME_MAX :: nat where "NAME_MAX = 60"
definition FILE_MAX_BYTES :: int where "FILE_MAX_BYTES = 50 * MIB"
definition QUOTA_BYTES :: int where "QUOTA_BYTES = 100 * MIB"
definition MODELS_MAX :: nat where "MODELS_MAX = 100"

definition number_label :: "nat \<Rightarrow> string" where
  "number_label n = '' ('' @ show_nat n @ '')''"

definition LABEL_MAX :: nat where "LABEL_MAX = length (number_label (MODELS_MAX + 1))"

definition rstrip :: "string \<Rightarrow> string" where
  "rstrip s = rev (dropWhile is_space (rev s))"

definition without_invisible :: "string \<Rightarrow> string" where
  "without_invisible s = filter (\<lambda>c. \<not> is_control c) s"

text \<open>\<open>name[:-6]\<close> and \<open>name[-6:]\<close>\<close>

definition split_name :: "string \<Rightarrow> string \<times> string" where
  "split_name name = (let n = length name - length KERAS_SUFFIX in (take n name, drop n name))"

datatype models_error =
    UnsupportedModelFormat | ModelTooLarge | StorageFull int | TooManyModels | UploadInProgress | UploadTimeout
  | AccountGone | ModelCheckFailed string string | ModelNotFound | ModelNameTaken string | OtherFailure

definition upload_name :: "string \<Rightarrow> models_error + string" where
  "upload_name file_name =
     (let base = last (split_on CHR ''/'' (map (\<lambda>c. if c = CHR 0x5C then CHR ''/'' else c) file_name))
      in if \<not> ends_with (lower base) KERAS_SUFFIX then Inl UnsupportedModelFormat
         else (let (stem, part) = split_name base; stem = rstrip (take NAME_MAX (strip (without_invisible stem)))
               in Inr ((if stem = [] then DEFAULT_STEM else stem) @ part)))"

definition numbered :: "string \<Rightarrow> nat \<Rightarrow> string" where
  "numbered name n =
     (if n = 1 then name
      else (let (stem, part) = split_name name; label = number_label n
            in rstrip (take (NAME_MAX - length label) stem) @ label @ part))"

text \<open>The loop of \<open>free_name\<close>, with fuel for its rounds.\<close>

fun free_number :: "nat \<Rightarrow> string \<Rightarrow> string list \<Rightarrow> nat \<Rightarrow> nat option" where
  "free_number 0 lowered taken n = None"
| "free_number (Suc fuel) lowered taken n = (if numbered lowered n \<in> set taken then free_number fuel lowered taken (n + 1) else Some n)"

definition free_name :: "nat \<Rightarrow> string \<Rightarrow> string \<Rightarrow> string list \<Rightarrow> string option" where
  "free_name fuel name lowered taken = map_option (numbered name) (free_number fuel lowered taken 1)"

section \<open>The table and the files\<close>

record model =
  md_id :: string
  md_user :: string
  md_name :: string
  md_size :: int
  md_sha256 :: string
  md_facts :: model_facts
  md_starred :: bool
  md_created :: int

record ml_state =
  ml_users :: "string list"
  ml_models :: "model list"
  ml_files :: "string \<times> string \<rightharpoonup> string"
  ml_incoming :: "string \<rightharpoonup> string"

definition models_of :: "string \<Rightarrow> ml_state \<Rightarrow> model list" where
  "models_of u st = filter (\<lambda>m. md_user m = u) (ml_models st)"

definition usage_of :: "string \<Rightarrow> ml_state \<Rightarrow> int \<times> nat" where
  "usage_of u st = (sum_list (map md_size (models_of u st)), length (models_of u st))"

definition find_model :: "string \<Rightarrow> string \<Rightarrow> ml_state \<Rightarrow> model option" where
  "find_model u i st = find (\<lambda>m. md_id m = i) (models_of u st)"

definition names_starting :: "string \<Rightarrow> string \<Rightarrow> ml_state \<Rightarrow> string list" where
  "names_starting u start st =
     filter (\<lambda>n. take (length start) n = lower start) (map (\<lambda>m. lower (md_name m)) (models_of u st))"

definition name_taken :: "string \<Rightarrow> string \<Rightarrow> string option \<Rightarrow> ml_state \<Rightarrow> bool" where
  "name_taken u name other_than st = list_ex (\<lambda>m. lower (md_name m) = lower name \<and> other_than \<noteq> Some (md_id m)) (models_of u st)"

text \<open>The user's models, oldest first, and the bytes they take.\<close>

definition list_models :: "string \<Rightarrow> ml_state \<Rightarrow> model list \<times> int" where
  "list_models u st = (let found = sort_key (\<lambda>m. (md_created m, md_id m)) (models_of u st) in (found, sum_list (map md_size found)))"

section \<open>Keeping a checked file\<close>

definition check_room :: "int \<Rightarrow> nat \<Rightarrow> int \<Rightarrow> models_error option" where
  "check_room taken n bytes =
     (if n \<ge> MODELS_MAX then Some TooManyModels else if taken + bytes > QUOTA_BYTES then Some (StorageFull taken) else None)"

text \<open>The name an upload gets; a user has as many names as models at most.\<close>

definition free_name_of :: "string \<Rightarrow> string \<Rightarrow> ml_state \<Rightarrow> string option" where
  "free_name_of u name st =
     (let taken = names_starting u (rstrip (take (NAME_MAX - LABEL_MAX) (fst (split_name name)))) st
      in free_name (length taken + 2) name (lower name) taken)"

record keep_luck =
  kl_saved :: bool
  kl_committed :: bool

text \<open>\<open>_keep\<close>: the indexes refuse a user who is gone, a name in use, and an id in use. A commit that raises is taken
  as one that was not applied. A commit that Postgres applied but whose answer was lost (the connection
  cut off, the request cancelled) is not modelled: \<open>_keep\<close> removes the file of its row then.\<close>

definition keep_model :: "keep_luck \<Rightarrow> string \<Rightarrow> string \<Rightarrow> string \<Rightarrow> int \<Rightarrow> string \<Rightarrow> model_facts \<Rightarrow> string \<Rightarrow> int \<Rightarrow> ml_state \<Rightarrow>
    (models_error + model) \<times> ml_state" where
  "keep_model L u incoming name bytes sha facts new_id now st =
     (case check_room (fst (usage_of u st)) (snd (usage_of u st)) bytes of
        Some e \<Rightarrow> (Inl e, st)
      | None \<Rightarrow> (case free_name_of u name st of
          None \<Rightarrow> (Inl OtherFailure, st)
        | Some free \<Rightarrow>
            (let m = \<lparr>md_id = new_id, md_user = u, md_name = free, md_size = bytes, md_sha256 = sha, md_facts = facts, md_starred = False,
                      md_created = now\<rparr>
             in if u \<notin> set (ml_users st) then (Inl AccountGone, st)
                else if name_taken u free None st then (Inl (ModelNameTaken free), st)
                else if new_id \<in> md_id ` set (ml_models st) then (Inl OtherFailure, st)
                else if \<not> kl_saved L then (Inl OtherFailure, st)
                else (let moved = st\<lparr>ml_files := (ml_files st)((u, new_id) := ml_incoming st incoming), ml_incoming := (ml_incoming st)(incoming := None)\<rparr>
                      in if \<not> kl_committed L then (Inl OtherFailure, moved\<lparr>ml_files := (ml_files moved)((u, new_id) := None)\<rparr>)
                         else (Inr m, moved\<lparr>ml_models := ml_models moved @ [m]\<rparr>)))))"

section \<open>Receiving and checking\<close>

text \<open>\<open>_receive\<close>: the chunks as they come, \<open>None\<close> when the time is up before the next; the bytes written so
  far stay in the file.\<close>

fun receive_chunks :: "string option list \<Rightarrow> string \<Rightarrow> (models_error + unit) \<times> string" where
  "receive_chunks [] written = (Inr (), written)"
| "receive_chunks (None # chunks) written = (Inl UploadTimeout, written)"
| "receive_chunks (Some c # chunks) written =
     (if int (length written + length c) > FILE_MAX_BYTES then (Inl ModelTooLarge, written) else receive_chunks chunks (written @ c))"

definition EMPTY_FILE :: string where
  "EMPTY_FILE = ''The file is empty. Choose the model's .keras file and upload it again.''"

definition receive_file :: "string option list \<Rightarrow> string \<Rightarrow> ml_state \<Rightarrow> (models_error + int) \<times> ml_state" where
  "receive_file chunks path st = (case receive_chunks chunks [] of (r, written) \<Rightarrow>
     (case r of Inl e \<Rightarrow> Inl e
        | Inr () \<Rightarrow> if written = [] then Inl (ModelCheckFailed ''opens'' EMPTY_FILE) else Inr (int (length written)),
      st\<lparr>ml_incoming := (ml_incoming st)(path \<mapsto> written)\<rparr>))"

text \<open>An upload: its lock, the file as it comes, the check of the file's bytes, what other requests do
  meanwhile, and the paths, digest, id and time it gets.\<close>

record upload_env =
  ue_locked :: bool
  ue_chunks :: "string option list"
  ue_check :: "string \<Rightarrow> models_error + model_facts"
  ue_others :: "ml_state \<Rightarrow> ml_state"
  ue_incoming :: string
  ue_scratch :: string
  ue_sha256 :: "string \<Rightarrow> string"
  ue_id :: string
  ue_now :: int
  ue_luck :: keep_luck

definition discard :: "string \<Rightarrow> ml_state \<Rightarrow> ml_state" where
  "discard path st = st\<lparr>ml_incoming := (ml_incoming st)(path := None)\<rparr>"

definition receive_and_keep :: "upload_env \<Rightarrow> string \<Rightarrow> string \<Rightarrow> ml_state \<Rightarrow> (models_error + model) \<times> ml_state" where
  "receive_and_keep U u name st =
     (case (case receive_file (ue_chunks U) (ue_incoming U) st of
         (Inl e, st) \<Rightarrow> (Inl e, st)
       | (Inr bytes, st) \<Rightarrow>
           (let bytes_in = the (ml_incoming st (ue_incoming U)) in
            (case ue_check U bytes_in of
               Inl e \<Rightarrow> (Inl e, st)
             | Inr facts \<Rightarrow> keep_model (ue_luck U) u (ue_incoming U) name bytes (ue_sha256 U bytes_in) facts (ue_id U) (ue_now U) (ue_others U st)))) of
       (r, st) \<Rightarrow> (r, discard (ue_scratch U) (discard (ue_incoming U) st)))"

definition upload_model :: "upload_env \<Rightarrow> string \<Rightarrow> string \<Rightarrow> int option \<Rightarrow> ml_state \<Rightarrow> (models_error + model) \<times> ml_state" where
  "upload_model U u file_name declared st = (case upload_name file_name of
      Inl e \<Rightarrow> (Inl e, st)
    | Inr name \<Rightarrow>
        if (case declared of None \<Rightarrow> False | Some n \<Rightarrow> n > FILE_MAX_BYTES) then (Inl ModelTooLarge, st)
        else if \<not> ue_locked U then (Inl UploadInProgress, st)
        else (case check_room (fst (usage_of u st)) (snd (usage_of u st)) (case declared of None \<Rightarrow> 1 | Some n \<Rightarrow> if n = 0 then 1 else n) of
            Some e \<Rightarrow> (Inl e, st)
          | None \<Rightarrow> receive_and_keep U u name st))"

section \<open>Rename, star and delete\<close>

definition renamed :: "string option \<Rightarrow> model \<Rightarrow> string option" where
  "renamed name m = map_option (\<lambda>n. n @ snd (split_name (md_name m))) name"

definition update_model :: "string \<Rightarrow> string \<Rightarrow> string option \<Rightarrow> bool option \<Rightarrow> ml_state \<Rightarrow> (models_error + model) \<times> ml_state" where
  "update_model u i name starred st = (case find_model u i st of
      None \<Rightarrow> (Inl ModelNotFound, st)
    | Some m \<Rightarrow>
        if (case renamed name m of None \<Rightarrow> False | Some n \<Rightarrow> name_taken u n (Some (md_id m)) st)
        then (Inl (ModelNameTaken (the (renamed name m))), st)
        else (let m' = m\<lparr>md_name := (case renamed name m of None \<Rightarrow> md_name m | Some n \<Rightarrow> n),
                         md_starred := (case starred of None \<Rightarrow> md_starred m | Some s \<Rightarrow> s)\<rparr>
              in (Inr m', st\<lparr>ml_models := map (\<lambda>x. if md_id x = i \<and> md_user x = u then m' else x) (ml_models st)\<rparr>)))"

text \<open>\<open>removed\<close>: whether the storage could remove the file; it stays as an orphan otherwise.\<close>

definition delete_model :: "bool \<Rightarrow> string \<Rightarrow> string \<Rightarrow> ml_state \<Rightarrow> (models_error + unit) \<times> ml_state" where
  "delete_model removed u i st =
     (if find_model u i st = None then (Inl ModelNotFound, st)
      else (Inr (), st\<lparr>ml_models := filter (\<lambda>m. \<not> (md_id m = i \<and> md_user m = u)) (ml_models st),
                       ml_files := (if removed then (ml_files st)((u, i) := None) else ml_files st)\<rparr>))"

text \<open>\<open>ModelsAccountDeletion\<close>, with the user's row; \<open>removed\<close> says of each model's id whether the storage could
  remove its file, as a removal may fail at one file after others.\<close>

definition delete_account_models :: "(string \<Rightarrow> bool) \<Rightarrow> string \<Rightarrow> ml_state \<Rightarrow> ml_state" where
  "delete_account_models removed u st =
     st\<lparr>ml_users := filter (\<lambda>x. x \<noteq> u) (ml_users st), ml_models := filter (\<lambda>m. md_user m \<noteq> u) (ml_models st),
       ml_files := (\<lambda>(v, i). if v = u \<and> removed i then None else ml_files st (v, i))\<rparr>"

section \<open>The search of a free name\<close>

lemma is_space_lower [simp]: "is_space (to_lower c) = is_space c"
  by (auto simp: is_space_def to_lower_def is_upper_def code_of_def)

lemma dropWhile_lower: "dropWhile is_space (map to_lower s) = map to_lower (dropWhile is_space s)"
  by (induction s) simp_all

lemma lower_parts [simp]: "lower (xs @ ys) = lower xs @ lower ys" "length (lower s) = length s"
  "lower (take n s) = take n (lower s)" "lower (drop n s) = drop n (lower s)" "lower (rstrip s) = rstrip (lower s)"
  by (simp_all add: lower_def take_map drop_map rstrip_def rev_map dropWhile_lower)

lemma lower_digits: "\<forall>c \<in> set s. is_digit c \<Longrightarrow> lower s = s"
  by (induction s) (auto simp: lower_def to_lower_def is_upper_def is_digit_def)

lemma lower_label [simp]: "lower (number_label n) = number_label n"
  using lower_digits[of "show_nat n"] show_nat_digits[of _ n]
  by (simp add: number_label_def lower_def to_lower_def is_upper_def code_of_def)

lemma lower_numbered: "lower (numbered name n) = numbered (lower name) n"
  by (simp add: numbered_def split_name_def Let_def)

lemma label_inj:
  assumes "a @ number_label i @ part = b @ number_label j @ part"
  shows "i = j"
proof -
  have end_of: "takeWhile is_digit (tl (rev (a @ number_label n))) = rev (show_nat n)" for a n
  proof -
    have "\<not> is_digit (CHR ''('')" by (simp add: is_digit_def code_of_def)
    then have "takeWhile is_digit (rev (show_nat n) @ CHR ''('' # CHR '' '' # rev a) = rev (show_nat n)"
      using show_nat_digits by (subst takeWhile_append2) auto
    then show ?thesis by (simp add: number_label_def)
  qed
  have "a @ number_label i = b @ number_label j" using assms by simp
  then have "rev (show_nat i) = rev (show_nat j)" using end_of by metis
  then show ?thesis using read_show_nat by (metis rev_rev_ident)
qed

lemma numbered_parts: "2 \<le> n \<Longrightarrow> \<exists>a. numbered name n = a @ number_label n @ snd (split_name name)"
  by (auto simp: numbered_def Let_def split_beta)

lemma numbered_inj: "2 \<le> i \<Longrightarrow> 2 \<le> j \<Longrightarrow> numbered name i = numbered name j \<Longrightarrow> i = j"
  using label_inj numbered_parts by metis

lemma free_number_Some: "free_number fuel lowered taken n = Some m \<Longrightarrow> n \<le> m \<and> m < n + fuel \<and> numbered lowered m \<notin> set taken"
  by (induction fuel arbitrary: n) (fastforce split: if_splits)+

lemma free_number_None: "free_number fuel lowered taken n = None \<Longrightarrow> n \<le> i \<Longrightarrow> i < n + fuel \<Longrightarrow> numbered lowered i \<in> set taken"
proof (induction fuel arbitrary: n)
  case (Suc fuel)
  then show ?case by (cases "i = n") (auto split: if_splits)
qed simp

text \<open>The user's names cannot take all of the numbered ones.\<close>

lemma free_number_found: "free_number (length taken + 2) lowered taken 1 \<noteq> None"
proof
  assume none: "free_number (length taken + 2) lowered taken 1 = None"
  let ?numbers = "{2..length taken + 2}"
  have "numbered lowered ` ?numbers \<subseteq> set taken" using free_number_None[OF none] by auto
  then have "card (numbered lowered ` ?numbers) \<le> card (set taken)" by (rule card_mono[OF finite_set])
  moreover have "card (numbered lowered ` ?numbers) = card ?numbers"
    by (rule card_image) (auto simp: inj_on_def dest: numbered_inj)
  ultimately show False using card_length[of taken] by simp
qed

lemma rstrip_prefix:
  assumes "a \<le> b"
  shows "\<exists>zs. rstrip (take b s) = rstrip (take a s) @ zs"
proof -
  obtain sp where sp: "take a s = rstrip (take a s) @ sp"
    by (metis rstrip_def rev_append rev_rev_ident takeWhile_dropWhile_id)
  have "take b s = take a s @ take (b - a) (drop a s)" using assms by (metis le_add_diff_inverse take_add)
  then obtain t where t: "take b s = rstrip (take a s) @ t" using sp by (metis append.assoc)
  have keep: "\<exists>zs. rstrip (x @ y) = x @ zs" if "x = [] \<or> \<not> is_space (last x)" for x y
  proof (cases "\<exists>c \<in> set (rev y). \<not> is_space c")
    case True
    then obtain c where "c \<in> set (rev y)" "\<not> is_space c" by blast
    then have "rstrip (x @ y) = x @ rev (dropWhile is_space (rev y))" by (simp add: rstrip_def dropWhile_append1)
    then show ?thesis by blast
  next
    case False
    then have "rstrip (x @ y) = rev (dropWhile is_space (rev x))" unfolding rstrip_def rev_append by (subst dropWhile_append2) auto
    moreover have "dropWhile is_space (rev x) = rev x" using that by (cases x rule: rev_cases) auto
    ultimately show ?thesis by simp
  qed
  have "rstrip (take a s) = [] \<or> \<not> is_space (last (rstrip (take a s)))"
    unfolding rstrip_def by (metis hd_dropWhile last_rev rev_is_Nil_conv)
  from keep[OF this, of t] show ?thesis unfolding t .
qed

lemma show_nat_short: "n < 1000 \<Longrightarrow> length (show_nat n) \<le> 3"
  by (subst show_nat.simps, subst show_nat.simps, subst show_nat.simps) auto

lemma label_length: "n \<le> MODELS_MAX + 1 \<Longrightarrow> length (number_label n) \<le> LABEL_MAX" "LABEL_MAX = 6"
proof -
  have "show_nat 101 = ''101''" by (subst show_nat.simps, subst show_nat.simps, subst show_nat.simps) (simp add: digit_def char_of_def bit_0)
  then show l: "LABEL_MAX = 6" by (simp add: LABEL_MAX_def MODELS_MAX_def number_label_def)
  show "n \<le> MODELS_MAX + 1 \<Longrightarrow> length (number_label n) \<le> LABEL_MAX"
    using show_nat_short[of n] by (simp add: number_label_def l MODELS_MAX_def)
qed

text \<open>C34: A user with room for a model always gets a name for it: the loop over the numbers ends, the name is
  none of the user's in any case, although only the names with its beginning were looked up, and its
  part before the extension is no longer than Rename saves.\<close>

theorem free_name_found:
  assumes "snd (usage_of u st) < MODELS_MAX"
  shows "\<exists>free. free_name_of u name st = Some free \<and> \<not> name_taken u free None st \<and>
    (length name \<le> NAME_MAX + length KERAS_SUFFIX \<longrightarrow> length free \<le> NAME_MAX + length KERAS_SUFFIX)"
proof -
  obtain stem part where split: "split_name name = (stem, part)" by (meson surj_pair)
  have whole: "name = stem @ part" "length stem = length name - 6"
    using split by (auto simp: split_name_def Let_def KERAS_SUFFIX_def)
  define start where "start = rstrip (take (NAME_MAX - LABEL_MAX) stem)"
  define taken where "taken = names_starting u start st"
  have few: "length taken < MODELS_MAX"
  proof -
    have "length taken \<le> length (map (\<lambda>m. lower (md_name m)) (models_of u st))"
      unfolding taken_def names_starting_def by (rule length_filter_le)
    then show ?thesis using assms by (simp add: usage_of_def)
  qed
  obtain n where n: "free_number (length taken + 2) (lower name) taken 1 = Some n" using free_number_found by blast
  then have bound: "1 \<le> n" "n \<le> MODELS_MAX + 1" and free: "numbered (lower name) n \<notin> set taken"
    using free_number_Some[OF n] few by auto
  let ?free = "numbered name n"
  have "free_name_of u name st = Some ?free"
    using n unfolding free_name_of_def free_name_def split Let_def fst_conv start_def[symmetric] taken_def[symmetric] by (simp only: option.map)
  moreover have starts: "\<exists>zs. ?free = start @ zs"
  proof (cases "n = 1")
    case True
    obtain sp where "take (NAME_MAX - LABEL_MAX) stem = start @ sp"
      unfolding start_def by (metis rstrip_def rev_append rev_rev_ident takeWhile_dropWhile_id)
    then have "stem = start @ sp @ drop (NAME_MAX - LABEL_MAX) stem" by (metis append.assoc append_take_drop_id)
    then show ?thesis using True whole(1) by (simp add: numbered_def) (metis append.assoc)
  next
    case False
    have "NAME_MAX - LABEL_MAX \<le> NAME_MAX - length (number_label n)" using label_length(1)[OF bound(2)] by (rule diff_le_mono2)
    from rstrip_prefix[OF this, of stem] show ?thesis
      using False by (auto simp: numbered_def split Let_def start_def)
  qed
  moreover have "\<not> name_taken u ?free None st"
  proof
    assume "name_taken u ?free None st"
    then obtain m where m: "m \<in> set (models_of u st)" "lower (md_name m) = lower ?free" by (auto simp: name_taken_def list_ex_iff)
    have "take (length start) (lower ?free) = lower start" using starts by (auto simp flip: lower_parts(3))
    then have "lower ?free \<in> set taken" using m by (auto simp: taken_def names_starting_def image_iff intro!: bexI[of _ m])
    then show False using free by (simp add: lower_numbered)
  qed
  moreover have "length ?free \<le> NAME_MAX + length KERAS_SUFFIX" if "length name \<le> NAME_MAX + length KERAS_SUFFIX"
  proof (cases "n = 1")
    case False
    have "length (rstrip t) \<le> length t" for t by (metis rstrip_def length_rev length_dropWhile_le)
    from this[of "take (NAME_MAX - length (number_label n)) stem"] have "length (rstrip (take (NAME_MAX - length (number_label n)) stem)) \<le> NAME_MAX - length (number_label n)"
      by simp
    moreover have "length (number_label n) \<le> NAME_MAX" using label_length(1)[OF bound(2)] by (simp add: label_length(2) NAME_MAX_def)
    moreover have "length part \<le> 6" using split by (auto simp: split_name_def Let_def KERAS_SUFFIX_def)
    ultimately show ?thesis using False by (simp add: numbered_def split Let_def KERAS_SUFFIX_def)
  qed (use that in \<open>simp add: numbered_def\<close>)
  ultimately show ?thesis by blast
qed

text \<open>The search, on a user with two models: the third file of the name gets the number 3.\<close>

definition example_model :: "string \<Rightarrow> string \<Rightarrow> model" where
  "example_model i name = \<lparr>md_id = i, md_user = ''ann'', md_name = name, md_size = 4, md_sha256 = ''h'', md_facts = \<lparr>mf_version = ''3.0.0'', mf_parameters = 3,
     mf_input = Some [2], mf_output = Some [1]\<rparr>, md_starred = False, md_created = 0\<rparr>"

definition example_models :: ml_state where
  "example_models = \<lparr>ml_users = [''ann''], ml_models = [example_model ''1'' ''lstm.keras'', example_model ''2'' ''LSTM (2).keras''],
     ml_files = [(''ann'', ''1'') \<mapsto> ''PK 1'', (''ann'', ''2'') \<mapsto> ''PK 2''], ml_incoming = Map.empty\<rparr>"

theorem free_name_found_witness:
  "\<exists>free. free_name_of ''ann'' ''lstm.keras'' example_models = Some free \<and> \<not> name_taken ''ann'' free None example_models \<and>
    length free \<le> NAME_MAX + length KERAS_SUFFIX"
proof -
  have "snd (usage_of ''ann'' example_models) < MODELS_MAX"
    by (simp add: usage_of_def models_of_def example_models_def example_model_def MODELS_MAX_def)
  from free_name_found[OF this, of "''lstm.keras''"] show ?thesis by (simp add: NAME_MAX_def KERAS_SUFFIX_def)
qed

section \<open>The models of every user stay in order\<close>

definition user_models_ok :: "ml_state \<Rightarrow> string \<Rightarrow> bool" where
  "user_models_ok st u \<longleftrightarrow> length (models_of u st) \<le> MODELS_MAX \<and> sum_list (map md_size (models_of u st)) \<le> QUOTA_BYTES \<and>
     distinct (map (\<lambda>m. lower (md_name m)) (models_of u st))"

definition has_file :: "ml_state \<Rightarrow> model \<Rightarrow> bool" where
  "has_file st m \<longleftrightarrow> md_user m \<in> set (ml_users st) \<and> md_size m \<ge> 0 \<and>
     (case ml_files st (md_user m, md_id m) of None \<Rightarrow> False | Some bytes \<Rightarrow> int (length bytes) = md_size m)"

definition ml_ok :: "ml_state \<Rightarrow> bool" where
  "ml_ok st \<longleftrightarrow> (\<forall>u. user_models_ok st u) \<and> distinct (map md_id (ml_models st)) \<and> (\<forall>m \<in> set (ml_models st). has_file st m)"

lemma ml_okI [intro?]:
  "(\<And>u. user_models_ok st u) \<Longrightarrow> distinct (map md_id (ml_models st)) \<Longrightarrow> (\<And>m. m \<in> set (ml_models st) \<Longrightarrow> has_file st m) \<Longrightarrow> ml_ok st"
  by (simp add: ml_ok_def)

lemma ml_okD:
  assumes "ml_ok st"
  shows "user_models_ok st u" "distinct (map md_id (ml_models st))" "m \<in> set (ml_models st) \<Longrightarrow> has_file st m"
  using assms by (simp_all add: ml_ok_def)

lemma models_of_cong: "ml_models st' = ml_models st \<Longrightarrow> models_of u st' = models_of u st"
  by (simp add: models_of_def)

lemma user_models_ok_cong: "ml_models st' = ml_models st \<Longrightarrow> user_models_ok st' u = user_models_ok st u"
  unfolding user_models_ok_def using models_of_cong[of st' st u] by simp

lemma ml_ok_same:
  assumes "ml_ok st" "ml_models st' = ml_models st" "ml_users st' = ml_users st" "ml_files st' = ml_files st"
  shows "ml_ok st'"
proof
  show "user_models_ok st' u" for u using ml_okD(1)[OF assms(1)] user_models_ok_cong[OF assms(2)] by simp
  show "distinct (map md_id (ml_models st'))" unfolding assms(2) by (rule ml_okD(2)[OF assms(1)])
  show "has_file st' m" if "m \<in> set (ml_models st')" for m
    using ml_okD(3)[OF assms(1), of m] that unfolding has_file_def assms(2-4) by blast
qed

lemma ml_ok_discard: "ml_ok st \<Longrightarrow> ml_ok (discard path st)"
  by (erule ml_ok_same) (simp_all add: discard_def)

text \<open>Some of the models, of the same files.\<close>

lemma sum_list_filter_le: "(\<And>m. m \<in> set ms \<Longrightarrow> 0 \<le> f m) \<Longrightarrow> sum_list (map f (filter P ms)) \<le> (sum_list (map f ms) :: int)"
  by (induction ms) (auto simp: add_increasing)

lemma ml_ok_fewer:
  assumes ok: "ml_ok st" and models: "ml_models st' = filter P (ml_models st)"
    and files: "\<And>m. m \<in> set (ml_models st) \<Longrightarrow> P m \<Longrightarrow> has_file st' m"
  shows "ml_ok st'"
proof
  fix u
  have of: "models_of u st' = filter P (models_of u st)" by (auto simp: models_of_def models intro: filter_cong)
  have sizes: "sum_list (map md_size (filter P (models_of u st))) \<le> sum_list (map md_size (models_of u st))"
    using ml_okD(3)[OF ok] by (intro sum_list_filter_le) (simp add: models_of_def has_file_def)
  from ml_okD(1)[OF ok, of u] sizes show "user_models_ok st' u"
    unfolding user_models_ok_def of using le_trans[OF length_filter_le[of P "models_of u st"]] by (simp add: distinct_map_filter)
  show "distinct (map md_id (ml_models st'))" using ml_okD(2)[OF ok] by (simp add: models distinct_map_filter)
  show "has_file st' m" if "m \<in> set (ml_models st')" for m using that files by (simp add: models)
qed

lemma models_of_delete:
  assumes ok: "ml_ok st"
  shows "ml_ok (snd (delete_model removed u i st))"
proof (cases "find_model u i st = None")
  case False
  let ?st = "snd (delete_model removed u i st)"
  have "ml_models ?st = filter (\<lambda>m. \<not> (md_id m = i \<and> md_user m = u)) (ml_models st)"
    unfolding delete_model_def if_not_P[OF False] by simp
  then show ?thesis
  proof (rule ml_ok_fewer[OF ok])
    fix m assume "m \<in> set (ml_models st)" "\<not> (md_id m = i \<and> md_user m = u)"
    with ml_okD(3)[OF ok this(1)] False show "has_file ?st m" by (auto simp: has_file_def delete_model_def)
  qed
qed (simp add: delete_model_def ok)

lemma models_of_deleted_account:
  assumes ok: "ml_ok st"
  shows "ml_ok (delete_account_models removed u st)"
proof (rule ml_ok_fewer[OF ok])
  show "ml_models (delete_account_models removed u st) = filter (\<lambda>m. md_user m \<noteq> u) (ml_models st)"
    by (simp add: delete_account_models_def)
  fix m assume "m \<in> set (ml_models st)" "md_user m \<noteq> u"
  with ml_okD(3)[OF ok this(1)] show "has_file (delete_account_models removed u st) m"
    by (auto simp: has_file_def delete_account_models_def)
qed

text \<open>A rename keeps the names apart.\<close>

lemma distinct_map_changed:
  assumes "distinct (map f xs)" "distinct (map key xs)" "\<And>x. x \<in> set xs \<Longrightarrow> key x \<noteq> i \<Longrightarrow> f x \<noteq> f new"
  shows "distinct (map (\<lambda>x. f (if key x = i then new else x)) xs)"
proof -
  have "inj_on (\<lambda>x. f (if key x = i then new else x)) (set xs)"
  proof (rule inj_onI)
    fix x y assume xy: "x \<in> set xs" "y \<in> set xs" "f (if key x = i then new else x) = f (if key y = i then new else y)"
    have "key x = key y \<or> f x = f y" using xy(3) assms(3)[OF xy(1)] assms(3)[OF xy(2)] by (auto split: if_splits)
    then show "x = y" using assms(1,2) xy(1,2) by (auto simp: distinct_map dest: inj_onD)
  qed
  then show ?thesis using assms(2) by (simp add: distinct_map)
qed

lemma models_of_update:
  assumes ok: "ml_ok st"
  shows "ml_ok (snd (update_model u i name starred st))"
proof (cases "\<exists>m. find_model u i st = Some m \<and> \<not> (case renamed name m of None \<Rightarrow> False | Some n \<Rightarrow> name_taken u n (Some (md_id m)) st)")
  case False
  then show ?thesis using ok by (auto simp: update_model_def split: option.splits)
next
  case True
  then obtain m where found: "find_model u i st = Some m"
    and free: "\<not> (case renamed name m of None \<Rightarrow> False | Some n \<Rightarrow> name_taken u n (Some (md_id m)) st)" by blast
  from found have "m \<in> set (models_of u st) \<and> md_id m = i" unfolding find_model_def find_Some_iff using nth_mem by blast
  then have m: "m \<in> set (models_of u st)" "md_id m = i" "md_user m = u" by (simp_all add: models_of_def)
  define new where "new = m\<lparr>md_name := (case renamed name m of None \<Rightarrow> md_name m | Some n \<Rightarrow> n),
    md_starred := (case starred of None \<Rightarrow> md_starred m | Some s \<Rightarrow> s)\<rparr>"
  let ?change = "\<lambda>x. if md_id x = i \<and> md_user x = u then new else x"
  let ?st = "snd (update_model u i name starred st)"
  have models: "ml_models ?st = map ?change (ml_models st)" and rest: "ml_users ?st = ml_users st" "ml_files ?st = ml_files st"
    using found free by (simp_all add: update_model_def new_def Let_def split: option.splits)
  have same: "md_id (?change x) = md_id x" "md_user (?change x) = md_user x" for x using m by (auto simp: new_def)
  have sizes: "md_size (?change x) = md_size x" if "x \<in> set (ml_models st)" for x
  proof (cases "md_id x = i \<and> md_user x = u")
    case True
    have "m \<in> set (ml_models st)" using m by (simp add: models_of_def)
    then have "x = m" using ml_okD(2)[OF ok] that True m by (auto simp: distinct_map dest: inj_onD)
    then show ?thesis using True by (simp add: new_def)
  qed auto
  show ?thesis
  proof
    fix v
    have of: "models_of v ?st = map ?change (models_of v st)"
      unfolding models_of_def models filter_map comp_def same(2) ..
    have names: "distinct (map (\<lambda>m. lower (md_name m)) (models_of v ?st))"
    proof (cases "v = u")
      case True
      have change: "map (\<lambda>x. lower (md_name (?change x))) (models_of u st) = map (\<lambda>x. lower (md_name (if md_id x = i then new else x))) (models_of u st)"
        by (rule map_cong[OF refl]) (auto simp: models_of_def)
      have ids: "distinct (map md_id (models_of u st))" using ml_okD(2)[OF ok] by (simp add: models_of_def distinct_map_filter)
      have names: "distinct (map (\<lambda>m. lower (md_name m)) (models_of u st))" using ml_okD(1)[OF ok, of u] by (simp add: user_models_ok_def)
      have "lower (md_name x) \<noteq> lower (md_name new)" if "x \<in> set (models_of u st)" "md_id x \<noteq> i" for x
      proof (cases "renamed name m")
        case None
        have "x \<noteq> m" using that m by auto
        then show ?thesis using names that m None by (auto simp: new_def distinct_map dest: inj_onD)
      next
        case (Some n)
        then show ?thesis using free that m by (auto simp: name_taken_def list_ex_iff new_def)
      qed
      from distinct_map_changed[OF names ids this] show ?thesis unfolding True of[unfolded True] map_map comp_def change .
    next
      case False
      then have "map ?change (models_of v st) = models_of v st" by (intro map_idI) (auto simp: models_of_def)
      then show ?thesis using ml_okD(1)[OF ok, of v] of by (simp add: user_models_ok_def)
    qed
    have sizes: "map md_size (models_of v ?st) = map md_size (models_of v st)"
      unfolding of map_map comp_def by (rule map_cong[OF refl], rule sizes) (simp add: models_of_def)
    have "length (models_of v ?st) = length (models_of v st)" by (simp add: of)
    with sizes names ml_okD(1)[OF ok, of v] show "user_models_ok ?st v" unfolding user_models_ok_def by simp
  next
    show "distinct (map md_id (ml_models ?st))" using ml_okD(2)[OF ok] unfolding models map_map comp_def same(1) .
    fix x assume "x \<in> set (ml_models ?st)"
    then obtain y where y: "y \<in> set (ml_models st)" "x = ?change y" unfolding models by auto
    show "has_file ?st x" using ml_okD(3)[OF ok y(1)] unfolding y(2) has_file_def same rest sizes[OF y(1)] .
  qed
qed

text \<open>An upload: what it keeps has room, a free name, an id of its own and its file.\<close>

lemma models_of_keep:
  assumes ok: "ml_ok st" and incoming: "ml_incoming st path = Some written" "int (length written) = bytes"
  shows "ml_ok (snd (keep_model L u path name bytes sha facts new_id now st))" (is "ml_ok (snd ?kept)")
proof (cases "fst ?kept")
  case (Inl e)
  have same: "ml_models (snd ?kept) = ml_models st" "ml_users (snd ?kept) = ml_users st"
    using Inl by (auto simp: keep_model_def Let_def split: option.splits if_splits)
  have files: "ml_files (snd ?kept) (md_user m, md_id m) = ml_files st (md_user m, md_id m)" if "m \<in> set (ml_models st)" for m
    using Inl that by (auto simp: keep_model_def Let_def split: option.splits if_splits)
  show ?thesis
  proof
    show "user_models_ok (snd ?kept) v" for v using ml_okD(1)[OF ok] user_models_ok_cong[OF same(1)] by simp
    show "distinct (map md_id (ml_models (snd ?kept)))" unfolding same by (rule ml_okD(2)[OF ok])
    show "has_file (snd ?kept) m" if "m \<in> set (ml_models (snd ?kept))" for m
      using ml_okD(3)[OF ok, of m] that files[of m] unfolding has_file_def same by simp
  qed
next
  case (Inr m)
  have room: "check_room (fst (usage_of u st)) (snd (usage_of u st)) bytes = None"
    and name: "\<not> name_taken u (md_name m) None st" and new: "new_id \<notin> md_id ` set (ml_models st)" and user: "u \<in> set (ml_users st)"
    and m: "md_id m = new_id" "md_user m = u" "md_size m = bytes"
    and kept: "ml_models (snd ?kept) = ml_models st @ [m]" "ml_users (snd ?kept) = ml_users st"
      "ml_files (snd ?kept) = (ml_files st)((u, new_id) := Some written)"
    using Inr incoming(1) by (auto simp: keep_model_def Let_def split: option.splits if_splits)
  have of: "models_of v (snd ?kept) = models_of v st @ (if v = u then [m] else [])" for v using m by (simp add: models_of_def kept)
  show ?thesis
  proof
    fix v
    show "user_models_ok (snd ?kept) v"
    proof (cases "v = u")
      case True
      have "lower (md_name m) \<notin> (\<lambda>m. lower (md_name m)) ` set (models_of u st)"
        using name by (auto simp: name_taken_def list_ex_iff)
      then show ?thesis using ml_okD(1)[OF ok, of u] room
        by (auto simp: True of user_models_ok_def check_room_def usage_of_def m(3) split: if_splits)
    next
      case False
      then show ?thesis using ml_okD(1)[OF ok, of v] by (simp add: of user_models_ok_def)
    qed
    show "distinct (map md_id (ml_models (snd ?kept)))" using ml_okD(2)[OF ok] new by (simp add: kept m)
    fix x assume x: "x \<in> set (ml_models (snd ?kept))"
    show "has_file (snd ?kept) x"
    proof (cases "x = m")
      case True
      then show ?thesis unfolding True has_file_def m kept using incoming(2) user by auto
    next
      case False
      then have old: "x \<in> set (ml_models st)" using x by (simp add: kept)
      then have "md_id x \<noteq> new_id" using new by blast
      then show ?thesis using ml_okD(3)[OF ok old] unfolding has_file_def kept by simp
    qed
  qed
qed

lemma received:
  assumes got: "receive_file chunks path st = (r, st')" and ok: "ml_ok st"
  shows "ml_ok st'" "r = Inr bytes \<Longrightarrow> \<exists>written. ml_incoming st' path = Some written \<and> int (length written) = bytes"
proof -
  obtain q written where q: "receive_chunks chunks [] = (q, written)" by (meson surj_pair)
  have st': "st' = st\<lparr>ml_incoming := (ml_incoming st)(path \<mapsto> written)\<rparr>" using got by (simp add: receive_file_def q)
  show "ml_ok st'" by (rule ml_ok_same[OF ok]) (simp_all add: st')
  show "r = Inr bytes \<Longrightarrow> \<exists>written. ml_incoming st' path = Some written \<and> int (length written) = bytes"
    using got by (cases q) (auto simp: receive_file_def q st' split: if_splits unit.splits)
qed

lemma models_of_upload:
  assumes ok: "ml_ok st"
    and others: "\<And>s. ml_ok s \<Longrightarrow> ml_ok (ue_others U s) \<and> ml_incoming (ue_others U s) (ue_incoming U) = ml_incoming s (ue_incoming U)"
  shows "ml_ok (snd (upload_model U u file_name declared st))"
proof -
  have kept: "ml_ok (snd (receive_and_keep U u name st))" for name
  proof -
    obtain r st' where got: "receive_file (ue_chunks U) (ue_incoming U) st = (r, st')" by (meson surj_pair)
    note ok' = received(1)[OF got ok]
    show ?thesis
    proof (cases r)
      case (Inl e)
      then show ?thesis using ok' by (simp add: receive_and_keep_def got ml_ok_discard)
    next
      case (Inr bytes)
      from received(2)[OF got ok this] obtain written where written: "ml_incoming st' (ue_incoming U) = Some written" "int (length written) = bytes" by blast
      show ?thesis
      proof (cases "ue_check U written")
        case (Inl e)
        then show ?thesis using ok' Inr by (simp add: receive_and_keep_def got written ml_ok_discard)
      next
        case checked: (Inr facts)
        have "ml_ok (snd (keep_model (ue_luck U) u (ue_incoming U) name bytes (ue_sha256 U written) facts (ue_id U) (ue_now U) (ue_others U st')))"
          by (rule models_of_keep[where written = written]) (use others[OF ok'] written in auto)
        then show ?thesis using Inr checked by (simp add: receive_and_keep_def got written split_beta ml_ok_discard)
      qed
    qed
  qed
  then show ?thesis using ok by (auto simp: upload_model_def split: sum.splits option.splits)
qed

text \<open>C35: Uploading, renaming, starring and deleting models and deleting an account keep, for every user: at most
  the most models, the quota, names that differ in any case, and for every model of the table its file
  with the size in the table; whatever is refused, also when the file cannot be saved or the commit
  fails, and whatever other requests do while an upload is received and checked, as long as they keep
  the same and do not touch the incoming file.\<close>

theorem models_kept:
  assumes "ml_ok st"
    and "\<And>s. ml_ok s \<Longrightarrow> ml_ok (ue_others U s) \<and> ml_incoming (ue_others U s) (ue_incoming U) = ml_incoming s (ue_incoming U)"
  shows "ml_ok (snd (upload_model U u file_name declared st)) \<and> ml_ok (snd (update_model v i name starred st)) \<and>
    ml_ok (snd (delete_model removed w j st)) \<and> ml_ok (delete_account_models gone x st)"
  using models_of_upload[OF assms] models_of_update[OF assms(1)] models_of_delete[OF assms(1)] models_of_deleted_account[OF assms(1)]
  by blast

definition example_upload :: upload_env where
  "example_upload = \<lparr>ue_locked = True, ue_chunks = [Some ''PK'', Some '' 3''],
     ue_check = (\<lambda>_. Inr (md_facts (example_model ''1'' ''lstm.keras''))), ue_others = delete_account_models (\<lambda>_. True) ''bob'', ue_incoming = ''a.part'',
     ue_scratch = ''b.part'', ue_sha256 = (\<lambda>_. ''h''), ue_id = ''3'', ue_now = 5, ue_luck = \<lparr>kl_saved = True, kl_committed = True\<rparr>\<rparr>"

theorem models_kept_witness:
  "ml_ok (snd (upload_model example_upload ''ann'' ''lstm.keras'' (Some 4) example_models)) \<and>
    ml_ok (snd (update_model ''ann'' ''1'' (Some ''lstm (2)'') None example_models)) \<and>
    ml_ok (snd (delete_model False ''ann'' ''2'' example_models)) \<and> ml_ok (delete_account_models (\<lambda>_. False) ''ann'' example_models)"
proof (rule models_kept)
  show "ml_ok example_models"
  proof
    have "lower ''lstm.keras'' \<noteq> lower ''LSTM (2).keras''" by (simp add: lower_def)
    moreover have "models_of v example_models = (if v = ''ann'' then [example_model ''1'' ''lstm.keras'', example_model ''2'' ''LSTM (2).keras''] else [])" for v
      by (simp add: models_of_def example_models_def example_model_def)
    ultimately show "user_models_ok example_models v" for v
      by (simp add: user_models_ok_def example_model_def MODELS_MAX_def QUOTA_BYTES_def MIB_def)
    show "distinct (map md_id (ml_models example_models))" by (simp add: example_models_def example_model_def)
    show "has_file example_models m" if "m \<in> set (ml_models example_models)" for m
      using that by (auto simp: example_models_def example_model_def has_file_def)
  qed
  show "ml_ok (ue_others example_upload s) \<and> ml_incoming (ue_others example_upload s) (ue_incoming example_upload) = ml_incoming s (ue_incoming example_upload)"
    if "ml_ok s" for s
    using models_of_deleted_account[OF that, of "\<lambda>_. True" "''bob''"] by (simp add: example_upload_def) (simp add: delete_account_models_def)
qed

end
