(* ===== verification/MlSandbox.thy ===== *)
theory MlSandbox
  imports MlModels
begin

text \<open>
  The child process that checks an upload: \<open>main\<close> of \<open>ml/inspect.py\<close>, which writes what the check found as
  JSON, and \<open>ml/sandbox.py\<close>, which reads it and trusts nothing of it. Whether the check gets its turn and
  ends in time, and the child itself, are the fields of \<open>check_env\<close>. The theorems: what is read is what
  the check found, when it fits the table; and a model is kept only with a file that the check accepted,
  with what it found in it.
\<close>

section \<open>What the child writes\<close>

definition shape_json :: "int list option \<Rightarrow> json" where
  "shape_json ds = (case ds of None \<Rightarrow> JNull | Some xs \<Rightarrow> JList (map JInt xs))"

definition facts_json :: "model_facts \<Rightarrow> json" where
  "facts_json f = JObj [(''keras_version'', JStr (mf_version f)), (''parameters'', JInt (mf_parameters f)),
     (''input_shape'', shape_json (mf_input f)), (''output_shape'', shape_json (mf_output f))]"

text \<open>The object it writes; what the check does not catch ends it with no output.\<close>

definition written :: "inspect_error + model_facts \<Rightarrow> json option" where
  "written r = (case r of
      Inr f \<Rightarrow> Some (JObj [(''facts'', facts_json f)])
    | Inl (CheckFailed name detail) \<Rightarrow> Some (JObj [(''failed'', JObj [(''check'', JStr name), (''detail'', JStr detail)])])
    | Inl (Uncaught _) \<Rightarrow> None)"

definition check_main :: "(json \<Rightarrow> string) \<Rightarrow> inspect_error + model_facts \<Rightarrow> int \<times> string" where
  "check_main dumps r = (case written r of None \<Rightarrow> (1, []) | Some v \<Rightarrow> (0, dumps v))"

section \<open>What is read of it\<close>

definition SAVE_AGAIN_TEXT :: string where
  "SAVE_AGAIN_TEXT = ''Save the model again with model.save(\"model.keras\") and upload that file.''"
definition TOO_LONG :: string where "TOO_LONG = ''The check took too long. The file may be damaged. '' @ SAVE_AGAIN_TEXT"
definition BUSY :: string where "BUSY = ''Many models are being checked right now. Upload the file again in a few minutes.''"
definition STOPPED :: string where
  "STOPPED = ''The check of the file stopped before it finished. The file may be damaged. '' @ SAVE_AGAIN_TEXT"

definition FACT_NAMES :: "string list" where
  "FACT_NAMES = [''keras_version'', ''parameters'', ''input_shape'', ''output_shape'']"

definition BIGINT_MAX :: int where "BIGINT_MAX = 2 ^ 63 - 1"
definition DIMENSIONS_MAX :: nat where "DIMENSIONS_MAX = 32"

text \<open>\<open>_is_count\<close> and \<open>_is_shape\<close>, with the value they are asked of.\<close>

definition count_of :: "json \<Rightarrow> int option" where
  "count_of v = (case v of JInt n \<Rightarrow> if 0 < n \<and> n \<le> BIGINT_MAX then Some n else None | _ \<Rightarrow> None)"

definition shape_of :: "json \<Rightarrow> int list option option" where
  "shape_of v = (case v of
      JNull \<Rightarrow> Some None
    | JList xs \<Rightarrow> if 0 < length xs \<and> length xs \<le> DIMENSIONS_MAX then map_option Some (map_opt count_of xs) else None
    | _ \<Rightarrow> None)"

definition facts_of :: "json \<Rightarrow> model_facts option" where
  "facts_of raw = (case raw of
      JObj ms \<Rightarrow> if set (map fst ms) \<noteq> set FACT_NAMES then None
        else (case (json_field raw ''keras_version'', count_of (json_field raw ''parameters''), shape_of (json_field raw ''input_shape''),
            shape_of (json_field raw ''output_shape'')) of
            (JStr v, Some n, Some i, Some out) \<Rightarrow>
              if 0 < length v \<and> length v \<le> KERAS_VERSION_MAX then Some \<lparr>mf_version = v, mf_parameters = n, mf_input = i, mf_output = out\<rparr> else None
          | _ \<Rightarrow> None)
    | _ \<Rightarrow> None)"

definition STOPPED_CHECK :: models_error where "STOPPED_CHECK = ModelCheckFailed ''opens'' STOPPED"

text \<open>\<open>_result\<close>: whatever is off its form is a check that stopped. \<open>str\<close> is Python's \<open>str\<close> of a JSON value.\<close>

definition result_of :: "(string \<Rightarrow> json option) \<Rightarrow> (json \<Rightarrow> string) \<Rightarrow> int \<Rightarrow> string \<Rightarrow> models_error + model_facts" where
  "result_of loads str code out =
     (case (if code = 0 then loads out else None) of
        Some (JObj ms) \<Rightarrow>
          (case json_get (JObj ms) ''failed'' of
             Some failed \<Rightarrow> (case (json_get failed ''check'', json_get failed ''detail'') of
                 (Some (JStr name), Some detail) \<Rightarrow> if name \<in> {''opens'', ''weights''} then Inl (ModelCheckFailed name (str detail)) else Inl STOPPED_CHECK
               | _ \<Rightarrow> Inl STOPPED_CHECK)
           | None \<Rightarrow> (case json_get (JObj ms) ''facts'' of
                 Some raw \<Rightarrow> (case facts_of raw of Some f \<Rightarrow> Inr f | None \<Rightarrow> Inl STOPPED_CHECK)
               | None \<Rightarrow> Inl STOPPED_CHECK))
      | _ \<Rightarrow> Inl STOPPED_CHECK)"

record check_env =
  ck_turn :: bool
  ck_ends :: bool
  ck_child :: "string \<Rightarrow> int \<times> string"
  ck_loads :: "string \<Rightarrow> json option"
  ck_str :: "json \<Rightarrow> string"

definition check_upload :: "check_env \<Rightarrow> string \<Rightarrow> models_error + model_facts" where
  "check_upload C file =
     (if \<not> ck_turn C then Inl (ModelCheckFailed ''opens'' BUSY)
      else if \<not> ck_ends C then Inl (ModelCheckFailed ''opens'' TOO_LONG)
      else (case ck_child C file of (code, out) \<Rightarrow> result_of (ck_loads C) (ck_str C) code out))"

section \<open>Facts that fit the table\<close>

definition shape_fits :: "int list option \<Rightarrow> bool" where
  "shape_fits ds = (case ds of None \<Rightarrow> True | Some xs \<Rightarrow> 0 < length xs \<and> length xs \<le> DIMENSIONS_MAX \<and> (\<forall>d \<in> set xs. 0 < d \<and> d \<le> BIGINT_MAX))"

definition facts_fit :: "model_facts \<Rightarrow> bool" where
  "facts_fit f \<longleftrightarrow> 0 < length (mf_version f) \<and> length (mf_version f) \<le> KERAS_VERSION_MAX \<and> 0 < mf_parameters f \<and> mf_parameters f \<le> BIGINT_MAX \<and>
     shape_fits (mf_input f) \<and> shape_fits (mf_output f)"

lemma counts_of: "map_opt count_of (map JInt xs) = (if \<forall>d \<in> set xs. 0 < d \<and> d \<le> BIGINT_MAX then Some xs else None)"
  by (induction xs) (auto simp: count_of_def split: option.splits)

lemma shape_of_json: "shape_of (shape_json ds) = (if shape_fits ds then Some ds else None)"
  by (cases ds) (auto simp: shape_of_def shape_json_def shape_fits_def counts_of)

lemma facts_of_json: "facts_of (facts_json f) = (if facts_fit f then Some f else None)"
  by (auto simp: facts_of_def facts_json_def FACT_NAMES_def json_field_def json_get_def count_of_def shape_of_json facts_fit_def)

text \<open>What fits is all that is read, whatever the child writes.\<close>

lemma count_of_Some: "count_of v = Some n \<Longrightarrow> 0 < n \<and> n \<le> BIGINT_MAX"
  by (auto simp: count_of_def split: json.splits if_splits)

lemma map_opt_counts: "map_opt count_of vs = Some xs \<Longrightarrow> length xs = length vs \<and> (\<forall>d \<in> set xs. 0 < d \<and> d \<le> BIGINT_MAX)"
  by (induction vs arbitrary: xs) (auto split: option.splits dest!: count_of_Some)

lemma shape_of_Some: "shape_of v = Some ds \<Longrightarrow> shape_fits ds"
  by (auto simp: shape_of_def shape_fits_def split: json.splits if_splits dest!: map_opt_counts)

lemma facts_of_Some: "facts_of v = Some f \<Longrightarrow> facts_fit f"
  by (auto simp: facts_of_def facts_fit_def split: json.splits if_splits option.splits dest!: count_of_Some shape_of_Some)

section \<open>What the check found is what is read\<close>

text \<open>The check fails with one of the two names of \<open>ModelCheck\<close>.\<close>

definition named :: "inspect_error + 'a \<Rightarrow> bool" where
  "named r \<longleftrightarrow> (\<forall>name detail. r = Inl (CheckFailed name detail) \<longrightarrow> name \<in> {''opens'', ''weights''})"

lemma named_simps [simp]: "named (Inr x)" "named (fail_opens d)" "named (fail_weights d)" "named (Inl (Uncaught c))"
  by (simp_all add: named_def fail_opens_def fail_weights_def)

lemma named_and_then: "named r \<Longrightarrow> (\<And>x. named (f x)) \<Longrightarrow> named (and_then r f)"
  by (cases r) (simp_all add: named_def and_then_def)

lemma named_visit_links: "named (visit_links F links visited summed groups)"
  by (induction F links visited summed groups rule: visit_links.induct) (simp_all split: h5_link.splits option.splits h5_object.splits)

lemma named_visit_groups: "named (visit_groups F groups visited summed)"
proof (induction F groups visited summed rule: visit_groups.induct)
  case (2 F a groups visited summed)
  then show ?case using named_visit_links[of F "group_links F a" visited summed groups]
    by (auto simp: named_def split: sum.splits prod.splits)
qed simp

lemma named_custom_code: "named (custom_code E entries)"
proof (induction E entries rule: custom_code.induct)
  case (2 E v layer t stack)
  then show ?case by (subst custom_code.simps(2)) (auto split: json.splits verdict.splits)
qed simp

lemma named_inspect: "named (inspect_keras E file file_max)"
proof -
  have "named (sizes_under F n)" for F n
    by (auto simp: sizes_under_def named_visit_groups simp del: visit_groups.simps split: option.splits h5_link.splits h5_object.splits)
  then have "named (count_parameters E blob)" for blob
    by (auto simp: count_parameters_def intro!: named_and_then split: option.splits)
  moreover have "named (check_architecture E config)" for config
    by (auto simp: check_architecture_def intro!: named_and_then named_custom_code split: option.splits)
  moreover have "named (keras_version_of m)" for m by (auto simp: keras_version_of_def split: json.splits)
  moreover have "named (read_json E A n)" for A n by (auto simp: read_json_def split: sum.splits zip_fault.splits option.splits json.splits)
  moreover have "named (check_members A n)" for A n by (auto simp: check_members_def split: list.splits)
  moreover have "named (check_index f)" for f by (auto simp: check_index_def Let_def split: option.splits)
  ultimately show ?thesis unfolding inspect_keras_def by (auto intro!: named_and_then split: option.splits sum.splits)
qed

text \<open>What the child writes can be read back: what the documentation of \<open>json\<close> says of \<open>loads\<close> and \<open>dumps\<close>, for
  the object it writes; and \<open>str\<close> of a string is the string.\<close>

definition reads_back :: "check_env \<Rightarrow> (json \<Rightarrow> string) \<Rightarrow> inspect_error + model_facts \<Rightarrow> bool" where
  "reads_back C dumps r \<longleftrightarrow> (\<forall>v. written r = Some v \<longrightarrow> ck_loads C (dumps v) = Some v) \<and> (\<forall>s. ck_str C (JStr s) = s)"

lemma check_upload_exact:
  assumes "ck_turn C" "ck_ends C" "ck_child C file = check_main dumps r" "reads_back C dumps r" "named r"
  shows "check_upload C file = (case r of
      Inr f \<Rightarrow> if facts_fit f then Inr f else Inl STOPPED_CHECK
    | Inl (CheckFailed name detail) \<Rightarrow> Inl (ModelCheckFailed name detail)
    | Inl (Uncaught _) \<Rightarrow> Inl STOPPED_CHECK)"
proof (cases r)
  case (Inl e)
  show ?thesis
  proof (cases e)
    case (CheckFailed name detail)
    then have "name \<in> {''opens'', ''weights''}" using assms(5) Inl by (simp add: named_def)
    then show ?thesis using assms CheckFailed Inl
      by (auto simp: check_upload_def check_main_def written_def result_of_def json_get_def reads_back_def)
  qed (use assms Inl in \<open>simp add: check_upload_def check_main_def written_def result_of_def\<close>)
next
  case (Inr f)
  then show ?thesis using assms
    by (auto simp: check_upload_def check_main_def written_def result_of_def json_get_def reads_back_def facts_of_json)
qed

text \<open>Whatever a child writes, facts off the form of the table are not read.\<close>

lemma check_upload_fits:
  assumes "check_upload C file = Inr f"
  shows "facts_fit f"
  using assms facts_of_Some
  by (auto simp: check_upload_def result_of_def STOPPED_CHECK_def split: if_splits prod.splits option.splits json.splits)

section \<open>A model that is kept was checked\<close>

lemma kept_model:
  assumes "keep_model L u path name bytes sha facts new_id now st = (Inr m, st')"
  shows "md_facts m = facts" "md_size m = bytes" "ml_files st' (u, md_id m) = ml_incoming st path" "md_user m = u" "m \<in> set (ml_models st')"
  using assms by (auto simp: keep_model_def Let_def split: option.splits if_splits)

text \<open>The bytes of an upload, all that came.\<close>

definition received :: "upload_env \<Rightarrow> string" where
  "received U = concat (List.map_filter id (ue_chunks U))"

lemma receive_chunks_all: "receive_chunks chunks w = (Inr (), w') \<Longrightarrow> w' = w @ concat (List.map_filter id chunks)"
proof (induction chunks arbitrary: w)
  case (Cons c chunks)
  then obtain a where a: "c = Some a" by (cases c) auto
  then have "receive_chunks chunks (w @ a) = (Inr (), w')" using Cons.prems by (simp split: if_splits)
  from Cons.IH[OF this] show ?case by (simp add: a List.map_filter_simps)
qed (simp add: List.map_filter_simps)

lemma received_file:
  assumes "receive_file (ue_chunks U) path st = (Inr bytes, st')"
  shows "ml_incoming st' path = Some (received U) \<and> bytes = int (length (received U))"
proof -
  obtain q w where q: "receive_chunks (ue_chunks U) [] = (q, w)" by (meson surj_pair)
  then have "q = Inr ()" using assms by (cases q) (auto simp: receive_file_def)
  then have "w = received U" using receive_chunks_all[of "ue_chunks U" "[]" w] q by (simp add: received_def)
  have result: "receive_file (ue_chunks U) path st = (if w = [] then Inl (ModelCheckFailed ''opens'' EMPTY_FILE) else Inr (int (length w)),
      st\<lparr>ml_incoming := (ml_incoming st)(path \<mapsto> w)\<rparr>)" unfolding receive_file_def q by (simp add: \<open>q = Inr ()\<close> split: unit.splits)
  from assms have "bytes = int (length w)" "st' = st\<lparr>ml_incoming := (ml_incoming st)(path \<mapsto> w)\<rparr>" unfolding result by (simp_all split: if_splits)
  then show ?thesis using \<open>w = received U\<close> by simp
qed

text \<open>C40: A model is kept only with a file the check accepted: the file in its place is all that was received,
  what the table says of it is what the static check, run in the child process and read back as JSON,
  found in exactly these bytes, and it fits the table. Other requests run while the file is received
  and checked; they do not touch the incoming file.\<close>

theorem kept_models_checked:
  assumes "upload_model U u file_name declared st = (Inr m, st')"
    and "ue_check U = check_upload C" "ck_child C (received U) = check_main dumps (inspect_keras E (received U) FILE_MAX_BYTES)"
    and "reads_back C dumps (inspect_keras E (received U) FILE_MAX_BYTES)"
    and "\<And>s. ml_incoming (ue_others U s) (ue_incoming U) = ml_incoming s (ue_incoming U)"
  shows "ml_files st' (u, md_id m) = Some (received U) \<and> md_size m = int (length (received U)) \<and> md_user m = u \<and> m \<in> set (ml_models st') \<and>
    inspect_keras E (received U) FILE_MAX_BYTES = Inr (md_facts m) \<and> facts_fit (md_facts m)"
proof -
  obtain name where run: "receive_and_keep U u name st = (Inr m, st')"
    using assms(1) by (auto simp: upload_model_def split: sum.splits if_splits option.splits)
  obtain q st1 where got: "receive_file (ue_chunks U) (ue_incoming U) st = (q, st1)" by (meson surj_pair)
  obtain bytes where q: "q = Inr bytes" using run got by (cases q) (auto simp: receive_and_keep_def)
  note whole = received_file[OF got[unfolded q]]
  obtain facts where checked: "check_upload C (received U) = Inr facts"
    using run got q whole assms(2) by (cases "check_upload C (received U)") (auto simp: receive_and_keep_def)
  obtain st2 where kept: "keep_model (ue_luck U) u (ue_incoming U) name bytes (ue_sha256 U (received U)) facts (ue_id U) (ue_now U) (ue_others U st1) = (Inr m, st2)"
    and st': "st' = discard (ue_scratch U) (discard (ue_incoming U) st2)"
    using run got q whole assms(2) checked by (auto simp: receive_and_keep_def Let_def split: prod.splits)
  have "ck_turn C" "ck_ends C" using checked by (auto simp: check_upload_def split: if_splits)
  from check_upload_exact[OF this assms(3,4) named_inspect] checked
  have "inspect_keras E (received U) FILE_MAX_BYTES = Inr facts" "facts_fit facts"
    by (auto simp: STOPPED_CHECK_def split: sum.splits if_splits inspect_error.splits)
  then show ?thesis using kept_model[OF kept] whole assms(5) by (simp add: st' discard_def)
qed

text \<open>A child that accepts the example file.\<close>

definition example_facts :: model_facts where
  "example_facts = \<lparr>mf_version = ''3.15.1'', mf_parameters = 6, mf_input = Some [25, 23], mf_output = Some [3]\<rparr>"

definition example_check :: check_env where
  "example_check = \<lparr>ck_turn = True, ck_ends = True, ck_child = (\<lambda>_. (0, ''facts'')), ck_loads = (\<lambda>_. written (Inr example_facts)),
     ck_str = (\<lambda>v. case v of JStr s \<Rightarrow> s | _ \<Rightarrow> [])\<rparr>"

definition example_checked_upload :: upload_env where
  "example_checked_upload = example_upload\<lparr>ue_chunks := [Some example_zip], ue_check := check_upload example_check\<rparr>"

definition example_no_models :: ml_state where
  "example_no_models = \<lparr>ml_users = [''ann''], ml_models = [], ml_files = Map.empty, ml_incoming = Map.empty\<rparr>"

lemma example_received: "received example_checked_upload = example_zip"
  by (simp add: received_def example_checked_upload_def example_upload_def List.map_filter_simps)

lemma example_check_accepts: "check_upload example_check f = Inr example_facts"
  by (simp add: check_upload_def example_check_def result_of_def written_def json_get_def facts_of_json facts_fit_def example_facts_def shape_fits_def
    KERAS_VERSION_MAX_def BIGINT_MAX_def DIMENSIONS_MAX_def)

lemma example_kept: "\<exists>m st'. upload_model example_checked_upload ''ann'' ''lstm.keras'' None example_no_models = (Inr m, st')"
proof -
  have name: "upload_name ''lstm.keras'' = Inr ''lstm.keras''" by code_simp
  have free: "free_name_of ''ann'' n st = Some n" if "ml_models st = []" for n st
    using that by (simp add: free_name_of_def free_name_def names_starting_def models_of_def numbered_def Let_def)
  have whole: "receive_chunks [Some example_zip] [] = (Inr (), example_zip)" "example_zip \<noteq> []"
    by (simp_all add: example_zip_def EOCD_def FILE_MAX_BYTES_def MIB_def)
  have comes: "receive_file [Some example_zip] p st = (Inr (int (length example_zip)), st\<lparr>ml_incoming := (ml_incoming st)(p \<mapsto> example_zip)\<rparr>)" for p st
    unfolding receive_file_def whole(1) prod.case sum.case old.unit.case using whole(2) by simp
  have short: "int (length example_zip) \<le> QUOTA_BYTES" by (simp add: example_zip_def EOCD_def QUOTA_BYTES_def MIB_def)
  show ?thesis
    using short unfolding example_checked_upload_def example_upload_def example_no_models_def
    by (simp add: upload_model_def name receive_and_keep_def comes example_check_accepts keep_model_def free Let_def
      check_room_def usage_of_def models_of_def MODELS_MAX_def QUOTA_BYTES_def MIB_def name_taken_def delete_account_models_def)
qed

theorem kept_models_checked_witness:
  "\<exists>m st'. upload_model example_checked_upload ''ann'' ''lstm.keras'' None example_no_models = (Inr m, st') \<and>
    ml_files st' (''ann'', md_id m) = Some example_zip \<and> inspect_keras example_inspect example_zip FILE_MAX_BYTES = Inr (md_facts m)"
proof -
  obtain m st' where run: "upload_model example_checked_upload ''ann'' ''lstm.keras'' None example_no_models = (Inr m, st')"
    using example_kept by blast
  have accepted: "inspect_keras example_inspect example_zip FILE_MAX_BYTES = Inr example_facts"
    using example_accepted_within[of FILE_MAX_BYTES] by (simp add: FILE_MAX_BYTES_def MIB_def example_facts_def)
  have child: "ck_child example_check (received example_checked_upload) =
      check_main (\<lambda>_. ''facts'') (inspect_keras example_inspect (received example_checked_upload) FILE_MAX_BYTES)"
    unfolding example_received accepted by (simp add: example_check_def check_main_def written_def)
  have reads: "reads_back example_check (\<lambda>_. ''facts'') (inspect_keras example_inspect (received example_checked_upload) FILE_MAX_BYTES)"
    unfolding example_received accepted by (simp add: reads_back_def example_check_def)
  have "ue_check example_checked_upload = check_upload example_check" by (simp add: example_checked_upload_def)
  from kept_models_checked[OF run this child reads] show ?thesis
    unfolding example_received using run by (simp add: example_checked_upload_def example_upload_def delete_account_models_def)
qed

end
