(* ===== verification/AccountsOAuth.thy ===== *)
theory AccountsOAuth
  imports DataHttp
begin

text \<open>
  \<open>accounts/oauth.py\<close>: the account a provider signed in. The messages Authlib builds, the checks of the
  bodies by Pydantic (\<open>None\<close> is a \<open>ValidationError\<close>) and the HTTP client are the fields of \<open>oauth\<close>; a
  request works on the state, so it includes what other requests do meanwhile. The lemma at the end:
  an account that is fetched has an email its provider verified, in lower case.
\<close>

section \<open>Errors\<close>

text \<open>\<open>accounts/errors.py\<close>; anything else that is raised, by its name.\<close>

datatype sign_error =
    SignInFailed string | SignInMethodTaken | SignInDenied string | NoSuchSignInMethod | LastSignInMethod | AccountCrash string

type_synonym ('s, 'a) sign_io = "'s \<Rightarrow> (sign_error + 'a) \<times> 's"

definition sign_bind :: "('s, 'a) sign_io \<Rightarrow> ('a \<Rightarrow> ('s, 'b) sign_io) \<Rightarrow> ('s, 'b) sign_io" where
  "sign_bind f g s = (case f s of (Inl e, s) \<Rightarrow> (Inl e, s) | (Inr x, s) \<Rightarrow> g x s)"

definition sign_lift :: "sign_error + 'a \<Rightarrow> ('s, 'a) sign_io" where
  "sign_lift r s = (r, s)"

lemma sign_bind_Inr: "sign_bind f g s = (Inr y, s'') \<longleftrightarrow> (\<exists>x s'. f s = (Inr x, s') \<and> g x s' = (Inr y, s''))"
  by (auto simp: sign_bind_def split: prod.splits sum.splits)

lemma sign_lift_Inr: "sign_lift r s = (Inr x, s') \<longleftrightarrow> r = Inr x \<and> s' = s"
  by (auto simp: sign_lift_def)

section \<open>Providers\<close>

datatype provider = Github | Google

definition provider_name :: "provider \<Rightarrow> string" where
  "provider_name p = (case p of Github \<Rightarrow> ''github'' | Google \<Rightarrow> ''google'')"

definition GITHUB_API_URL :: string where "GITHUB_API_URL = ''https://api.github.com''"
definition GOOGLE_USERINFO_URL :: string where "GOOGLE_USERINFO_URL = ''https://openidconnect.googleapis.com/v1/userinfo''"

definition GITHUB_HEADERS :: params where
  "GITHUB_HEADERS = [(''Accept'', ''application/vnd.github+json''), (''X-GitHub-Api-Version'', ''2022-11-28'')]"

record endpoints =
  ep_authorize :: string
  ep_exchange :: string
  ep_scope :: string

definition ENDPOINTS :: "provider \<Rightarrow> endpoints" where
  "ENDPOINTS p = (case p of
      Github \<Rightarrow> \<lparr>ep_authorize = ''https://github.com/login/oauth/authorize'', ep_exchange = ''https://github.com/login/oauth/access_token'',
        ep_scope = ''read:user user:email''\<rparr>
    | Google \<Rightarrow> \<lparr>ep_authorize = ''https://accounts.google.com/o/oauth2/v2/auth'', ep_exchange = ''https://oauth2.googleapis.com/token'',
        ep_scope = ''openid email profile''\<rparr>)"

record account =
  ac_provider :: provider
  ac_subject :: string
  ac_email :: string
  ac_name :: "string option"
  ac_login :: "string option"

record token_answer =
  tk_access :: "string option"
  tk_error :: "string option"

record github_user =
  gh_id :: int
  gh_login :: string
  gh_name :: "string option"

record github_email =
  ge_email :: string
  ge_primary :: bool
  ge_verified :: bool

record google_user =
  go_sub :: string
  go_email :: "string option"
  go_verified :: bool
  go_name :: "string option"

text \<open>\<open>og_grant\<close> is \<open>prepare_grant_uri\<close> of the endpoint, the client, the return address, the scope, the state
  and the challenge; \<open>og_body\<close> is \<open>prepare_token_request\<close> of the code, the return address, the verifier,
  the client and its secret. \<open>og_net\<close> is the client with the headers it sends.\<close>

record 's oauth =
  og_client :: "provider \<Rightarrow> string \<times> string"
  og_public_url :: string
  og_grant :: "string \<Rightarrow> string \<Rightarrow> string \<Rightarrow> string \<Rightarrow> string \<Rightarrow> string \<Rightarrow> string"
  og_challenge :: "string \<Rightarrow> string"
  og_body :: "string \<Rightarrow> string \<Rightarrow> string \<Rightarrow> string \<Rightarrow> string \<Rightarrow> string"
  og_post :: "string \<Rightarrow> string \<Rightarrow> 's \<Rightarrow> (http_failure + response) \<times> 's"
  og_net :: "params \<Rightarrow> 's net"
  og_token :: "string \<Rightarrow> token_answer option"
  og_github_user :: "string \<Rightarrow> github_user option"
  og_github_emails :: "string \<Rightarrow> github_email list option"
  og_google_user :: "string \<Rightarrow> google_user option"

section \<open>The client\<close>

definition credentials :: "'s oauth \<Rightarrow> provider \<Rightarrow> sign_error + string \<times> string" where
  "credentials G p = (case og_client G p of (client, secret) \<Rightarrow>
     if client = [] \<or> secret = [] then Inl (SignInFailed (provider_name p @ '' sign-in is not configured'')) else Inr (client, secret))"

definition redirect_uri :: "'s oauth \<Rightarrow> provider \<Rightarrow> string" where
  "redirect_uri G p = og_public_url G @ ''/api/v1/auth/'' @ provider_name p @ ''/callback''"

definition authorization_url :: "'s oauth \<Rightarrow> provider \<Rightarrow> string \<Rightarrow> string \<Rightarrow> sign_error + string" where
  "authorization_url G p state verifier = bind_res (credentials G p) (\<lambda>(client, _).
     Inr (og_grant G (ep_authorize (ENDPOINTS p)) client (redirect_uri G p) (ep_scope (ENDPOINTS p)) state (og_challenge G verifier)))"

definition failure_name :: "http_failure \<Rightarrow> string" where
  "failure_name f = (case f of ConnectError \<Rightarrow> ''ConnectError'' | ConnectTimeout \<Rightarrow> ''ConnectTimeout''
     | RemoteProtocolError \<Rightarrow> ''RemoteProtocolError'' | OtherTimeout n \<Rightarrow> n | OtherHttpError n \<Rightarrow> n)"

definition unreachable :: "provider \<Rightarrow> http_failure \<Rightarrow> sign_error" where
  "unreachable p f = SignInFailed (provider_name p @ '' is unreachable ('' @ failure_name f @ '')'')"

definition unexpected :: "provider \<Rightarrow> 'a option \<Rightarrow> sign_error + 'a" where
  "unexpected p r = (case r of None \<Rightarrow> Inl (SignInFailed (provider_name p @ '' sent an unexpected response'')) | Some x \<Rightarrow> Inr x)"

definition or_text :: "string option \<Rightarrow> string \<Rightarrow> string" where
  "or_text v other = (case v of None \<Rightarrow> other | Some s \<Rightarrow> if s = [] then other else s)"

definition access_token :: "'s oauth \<Rightarrow> provider \<Rightarrow> string \<Rightarrow> string \<Rightarrow> ('s, string) sign_io" where
  "access_token G p code verifier = sign_bind (sign_lift (credentials G p)) (\<lambda>(client, secret) s.
     (case og_post G (ep_exchange (ENDPOINTS p)) (og_body G code (redirect_uri G p) verifier client secret) s of
        (Inl f, s) \<Rightarrow> (Inl (unreachable p f), s)
      | (Inr r, s) \<Rightarrow>
          (if status_code r \<ge> 500
           then Inl (SignInFailed (provider_name p @ '' token endpoint answered HTTP '' @ show_int (status_code r)))
           else bind_res (unexpected p (og_token G (content r))) (\<lambda>t. case tk_access t of
               None \<Rightarrow> Inl (SignInFailed (provider_name p @ '' refused the code ('' @ or_text (tk_error t) ''no token'' @ '')''))
             | Some a \<Rightarrow> Inr a), s)))"

definition get_content :: "'s oauth \<Rightarrow> provider \<Rightarrow> string \<Rightarrow> string \<Rightarrow> params \<Rightarrow> ('s, string) sign_io" where
  "get_content G p url token headers s =
     (case request (og_net G (headers @ [(''Authorization'', ''Bearer '' @ token)])) url [] s of
        (Inl f, s) \<Rightarrow> (Inl (unreachable p f), s)
      | (Inr r, s) \<Rightarrow> (if status_code r \<noteq> 200 then Inl (SignInFailed (''GET '' @ url @ '' answered HTTP '' @ show_int (status_code r)))
           else Inr (content r), s))"

text \<open>\<open>value or None\<close>\<close>

definition some_text :: "string option \<Rightarrow> string option" where
  "some_text v = (if v = Some [] then None else v)"

definition github_account_of :: "github_user \<Rightarrow> github_email list \<Rightarrow> sign_error + account" where
  "github_account_of u emails = (case filter (\<lambda>e. ge_primary e \<and> ge_verified e) emails of
      [] \<Rightarrow> Inl (SignInFailed ''the GitHub account has no verified primary email'')
    | e # _ \<Rightarrow> Inr \<lparr>ac_provider = Github, ac_subject = show_int (gh_id u), ac_email = lower (ge_email e), ac_name = some_text (gh_name u),
        ac_login = Some (gh_login u)\<rparr>)"

definition github_account :: "'s oauth \<Rightarrow> string \<Rightarrow> ('s, account) sign_io" where
  "github_account G token =
     sign_bind (get_content G Github (GITHUB_API_URL @ ''/user'') token GITHUB_HEADERS) (\<lambda>body.
     sign_bind (sign_lift (unexpected Github (og_github_user G body))) (\<lambda>u.
     sign_bind (get_content G Github (GITHUB_API_URL @ ''/user/emails'') token GITHUB_HEADERS) (\<lambda>body.
     sign_bind (sign_lift (unexpected Github (og_github_emails G body))) (\<lambda>emails.
     sign_lift (github_account_of u emails)))))"

definition google_account_of :: "google_user \<Rightarrow> sign_error + account" where
  "google_account_of u = (case go_email u of
      Some email \<Rightarrow> if go_verified u
        then Inr \<lparr>ac_provider = Google, ac_subject = go_sub u, ac_email = lower email, ac_name = some_text (go_name u), ac_login = None\<rparr>
        else Inl (SignInFailed ''the Google account has no verified email'')
    | None \<Rightarrow> Inl (SignInFailed ''the Google account has no verified email''))"

definition google_account :: "'s oauth \<Rightarrow> string \<Rightarrow> ('s, account) sign_io" where
  "google_account G token =
     sign_bind (get_content G Google GOOGLE_USERINFO_URL token []) (\<lambda>body.
     sign_bind (sign_lift (unexpected Google (og_google_user G body))) (\<lambda>u. sign_lift (google_account_of u)))"

definition fetch_account :: "'s oauth \<Rightarrow> provider \<Rightarrow> string \<Rightarrow> string \<Rightarrow> ('s, account) sign_io" where
  "fetch_account G p code verifier = sign_bind (access_token G p code verifier)
     (case p of Github \<Rightarrow> github_account G | Google \<Rightarrow> google_account G)"

section \<open>What is fetched\<close>

lemma lower_lower [simp]: "lower (lower s) = lower s"
  by (simp add: lower_def)

lemma account_of_provider:
  "github_account_of u emails = Inr a \<Longrightarrow> ac_provider a = Github \<and> (\<exists>e \<in> set emails. ge_primary e \<and> ge_verified e \<and> ac_email a = lower (ge_email e))"
  "google_account_of w = Inr a \<Longrightarrow> ac_provider a = Google \<and> go_verified w \<and> (\<exists>email. ac_email a = lower email)"
  by (cases "filter (\<lambda>e. ge_primary e \<and> ge_verified e) emails")
    (auto simp: github_account_of_def google_account_of_def filter_eq_Cons_iff split: option.splits if_splits)

text \<open>The account is of the provider that was asked, with an email in lower case.\<close>

lemma fetched_account:
  assumes "fetch_account G p code verifier s = (Inr a, s')"
  shows "ac_provider a = p" "lower (ac_email a) = ac_email a"
  using assms
  by (cases p; auto simp: fetch_account_def sign_bind_Inr sign_lift_Inr github_account_def google_account_def dest!: account_of_provider)+

end
