(* ===== verification/Accounts.thy ===== *)
theory Accounts
  imports AccountsOAuth MlModels "HOL-Library.AList"
begin

text \<open>
  \<open>accounts/service.py\<close> with its tables (\<open>store.py\<close>) and what a sign-in keeps in Redis (\<open>pending.py\<close>). The
  state is the committed tables, Redis, the clock and what other modules keep (\<open>at_rest\<close>); a
  transaction is one step, the requests to a provider are steps in which other requests run. Random
  values are arguments (\<open>randoms\<close>), SHA-256 is \<open>ae_hash\<close>. Postgres' constraints are \<open>db_ok\<close>; the widths of
  its columns are left out. The theorems: what a finished sign-in or connect implies; the tables and
  the rules the tables do not check are kept by every operation; a session that was signed out is out;
  and \<open>safe_next\<close> stays on the site.
\<close>

section \<open>The page to return to\<close>

definition DEFAULT_NEXT :: string where "DEFAULT_NEXT = ''/dashboard''"
definition CONNECT_NEXT :: string where "CONNECT_NEXT = ''/settings/sign-in''"
definition CONNECT_STATE_PREFIX :: string where "CONNECT_STATE_PREFIX = ''connect.''"
definition SESSION_LIFETIME :: int where "SESSION_LIFETIME = 30 * 86400 * 1000000"
definition SESSION_REFRESH :: int where "SESSION_REFRESH = 86400 * 1000000"
definition DEV_EMAIL :: string where "DEV_EMAIL = ''dev@candlestack.tech''"
definition DEV_NAME :: string where "DEV_NAME = ''Dev user''"
definition MAX_STATE :: nat where "MAX_STATE = 64"
definition MAX_NEXT :: nat where "MAX_NEXT = 2048"
definition DISPLAY_NAME_MAX :: nat where "DISPLAY_NAME_MAX = 80"
definition PENDING_TTL :: int where "PENDING_TTL = 600 * 1000000"

definition starts_with :: "string \<Rightarrow> string \<Rightarrow> bool" where
  "starts_with s part = (take (length part) s = part)"

definition safe_next :: "string option \<Rightarrow> string \<Rightarrow> string" where
  "safe_next path otherwise = (case path of None \<Rightarrow> otherwise | Some p \<Rightarrow>
     if p = [] \<or> length p > MAX_NEXT \<or> \<not> starts_with p ''/'' \<or> list_ex (starts_with p) [''//'', ''/api/'', ''/api?'', ''/api#'']
       \<or> p = ''/api'' \<or> CHR 0x5C \<in> set p \<or> list_ex is_control p
     then otherwise else p)"

definition is_connect_state :: "string option \<Rightarrow> bool" where
  "is_connect_state state = (case state of None \<Rightarrow> False | Some s \<Rightarrow> starts_with s CONNECT_STATE_PREFIX)"

definition provider_display_name :: "account \<Rightarrow> string" where
  "provider_display_name a = rstrip (take DISPLAY_NAME_MAX
     (let name = strip (case ac_name a of None \<Rightarrow> [] | Some n \<Rightarrow> n)
      in if name \<noteq> [] then name else or_text (ac_login a) (fst (partition_on CHR ''@'' (ac_email a)))))"

section \<open>The tables, Redis and the environment\<close>

record user_row =
  ur_id :: string
  ur_name :: string
  ur_email :: string
  ur_created :: int
  ur_last :: int

record identity_row =
  ir_provider :: provider
  ir_subject :: string
  ir_user :: string
  ir_email :: string
  ir_login :: "string option"
  ir_created :: int

record session_row =
  sr_hash :: string
  sr_user :: string
  sr_created :: int
  sr_seen :: int
  sr_expires :: int

record preferences_row =
  pr_defaults :: "string \<rightharpoonup> json"
  pr_appearance :: "string \<rightharpoonup> json"
  pr_updated :: int

record pending_sign_in =
  pe_provider :: provider
  pe_verifier :: string
  pe_next :: string
  pe_connect :: "string option"

datatype waiting = WaitingSignIn pending_sign_in | WaitingDenial string provider

record 'd accounts =
  at_users :: "user_row list"
  at_identities :: "identity_row list"
  at_sessions :: "session_row list"
  at_preferences :: "(string \<times> preferences_row) list"
  at_pending :: "string \<rightharpoonup> waiting \<times> int"
  at_redis_up :: bool
  at_now :: int
  at_rest :: 'd

text \<open>A hook deletes rows of its module and gives what deletes the rest, or raises.\<close>

type_synonym 'd hook = "string \<Rightarrow> 'd \<Rightarrow> string + ('d \<Rightarrow> 'd) option \<times> 'd"

record 'd accounts_env =
  ae_oauth :: "'d accounts oauth"
  ae_hash :: "string \<Rightarrow> string"
  ae_allow :: "string list"
  ae_hooks :: "'d hook list"

record randoms =
  rn_state :: string
  rn_verifier :: string
  rn_token :: string
  rn_user :: string
  rn_denial :: string

type_synonym ('d, 'a) account_io = "('d accounts, 'a) sign_io"

section \<open>The queries\<close>

definition identity_of :: "provider \<Rightarrow> string \<Rightarrow> 'd accounts \<Rightarrow> identity_row option" where
  "identity_of p subject s = find (\<lambda>i. ir_provider i = p \<and> ir_subject i = subject) (at_identities s)"

definition user_of :: "string \<Rightarrow> 'd accounts \<Rightarrow> user_row option" where
  "user_of u s = find (\<lambda>x. ur_id x = u) (at_users s)"

definition user_by_email :: "string \<Rightarrow> 'd accounts \<Rightarrow> user_row option" where
  "user_by_email email s = find (\<lambda>x. ur_email x = email) (at_users s)"

definition identities_of :: "string \<Rightarrow> 'd accounts \<Rightarrow> identity_row list" where
  "identities_of u s = filter (\<lambda>i. ir_user i = u) (at_identities s)"

definition providers_of :: "string \<Rightarrow> 'd accounts \<Rightarrow> provider list" where
  "providers_of u s = map ir_provider (identities_of u s)"

definition session_row_of :: "string \<Rightarrow> 'd accounts \<Rightarrow> (session_row \<times> user_row) option" where
  "session_row_of h s = (case find (\<lambda>x. sr_hash x = h) (at_sessions s) of
      None \<Rightarrow> None | Some x \<Rightarrow> map_option (Pair x) (user_of (sr_user x) s))"

definition delete_session :: "string \<Rightarrow> 'd accounts \<Rightarrow> 'd accounts" where
  "delete_session h s = s\<lparr>at_sessions := filter (\<lambda>x. sr_hash x \<noteq> h) (at_sessions s)\<rparr>"

text \<open>The constraints: primary keys, unique emails and foreign keys. A commit that breaks one changes nothing.\<close>

definition db_ok :: "'d accounts \<Rightarrow> bool" where
  "db_ok s \<longleftrightarrow> distinct (map ur_id (at_users s)) \<and> distinct (map ur_email (at_users s)) \<and>
     distinct (map (\<lambda>i. (ir_provider i, ir_subject i)) (at_identities s)) \<and> distinct (map sr_hash (at_sessions s)) \<and>
     distinct (map fst (at_preferences s)) \<and>
     ir_user ` set (at_identities s) \<union> sr_user ` set (at_sessions s) \<union> fst ` set (at_preferences s) \<subseteq> ur_id ` set (at_users s)"

definition commit :: "'d accounts \<Rightarrow> 'a \<Rightarrow> ('d, 'a) account_io" where
  "commit new x old = (if db_ok new then (Inr x, new) else (Inl (AccountCrash ''IntegrityError''), old))"

section \<open>Redis\<close>

definition pending_key :: "'d accounts_env \<Rightarrow> string \<Rightarrow> string \<Rightarrow> string" where
  "pending_key E kind v = ''auth:'' @ kind @ '':'' @ ae_hash E v"

definition REDIS_FAILED :: sign_error where "REDIS_FAILED = SignInFailed ''Redis failed''"

definition put_waiting :: "string \<Rightarrow> waiting \<Rightarrow> ('d, unit) account_io" where
  "put_waiting key v s = (if \<not> at_redis_up s then (Inl REDIS_FAILED, s)
     else (Inr (), s\<lparr>at_pending := (at_pending s)(key \<mapsto> (v, at_now s + PENDING_TTL))\<rparr>))"

definition waiting_at :: "string \<Rightarrow> 'd accounts \<Rightarrow> waiting option" where
  "waiting_at key s = (case at_pending s key of None \<Rightarrow> None | Some (v, expires) \<Rightarrow> if expires \<le> at_now s then None else Some v)"

text \<open>\<open>take_sign_in\<close>; what is under a key of another kind is no \<open>PendingSignIn\<close>.\<close>

definition take_sign_in :: "'d accounts_env \<Rightarrow> string \<Rightarrow> ('d, pending_sign_in option) account_io" where
  "take_sign_in E state s =
     (if \<not> at_redis_up s then (Inl REDIS_FAILED, s)
      else (case waiting_at (pending_key E ''state'' state) s of
          None \<Rightarrow> Inr None | Some (WaitingSignIn p) \<Rightarrow> Inr (Some p) | Some (WaitingDenial _ _) \<Rightarrow> Inl (AccountCrash ''ValidationError''),
        s\<lparr>at_pending := (at_pending s)(pending_key E ''state'' state := None)\<rparr>))"

definition put_denial :: "'d accounts_env \<Rightarrow> randoms \<Rightarrow> string \<Rightarrow> provider \<Rightarrow> ('d, string) account_io" where
  "put_denial E R email p = sign_bind (put_waiting (pending_key E ''denied'' (rn_denial R)) (WaitingDenial email p)) (\<lambda>_. sign_lift (Inr (rn_denial R)))"

definition denial :: "'d accounts_env \<Rightarrow> string \<Rightarrow> 'd accounts \<Rightarrow> (string \<times> provider) option" where
  "denial E i s = (if \<not> at_redis_up s then None
     else (case waiting_at (pending_key E ''denied'' i) s of Some (WaitingDenial email p) \<Rightarrow> Some (email, p) | _ \<Rightarrow> None))"

section \<open>Sessions\<close>

definition signed_in :: "'d accounts_env \<Rightarrow> string \<Rightarrow> 'd accounts \<Rightarrow> (user_row \<times> bool) option \<times> 'd accounts" where
  "signed_in E token s = (case session_row_of (ae_hash E token) s of
      None \<Rightarrow> (None, s)
    | Some (x, u) \<Rightarrow>
        if sr_expires x \<le> at_now s then (None, delete_session (sr_hash x) s)
        else if at_now s - sr_seen x \<ge> SESSION_REFRESH
        then (Some (u, True), s\<lparr>at_sessions := map (\<lambda>y. if sr_hash y = sr_hash x
               then y\<lparr>sr_seen := at_now s, sr_expires := at_now s + SESSION_LIFETIME\<rparr> else y) (at_sessions s)\<rparr>)
        else (Some (u, False), s))"

definition sign_out :: "'d accounts_env \<Rightarrow> string \<Rightarrow> 'd accounts \<Rightarrow> 'd accounts" where
  "sign_out E token s = delete_session (ae_hash E token) s"

definition sign_out_everywhere :: "string \<Rightarrow> 'd accounts \<Rightarrow> 'd accounts" where
  "sign_out_everywhere u s = s\<lparr>at_sessions := filter (\<lambda>x. sr_user x \<noteq> u) (at_sessions s)\<rparr>"

text \<open>\<open>_new_session\<close> commits \<open>s\<close> with it, which the sign-in changed; else \<open>old\<close> stays.\<close>

definition new_session :: "'d accounts_env \<Rightarrow> randoms \<Rightarrow> string \<Rightarrow> 'd accounts \<Rightarrow> ('d, string) account_io" where
  "new_session E R u s = commit
     (s\<lparr>at_sessions := filter (\<lambda>x. \<not> (sr_user x = u \<and> sr_expires x \<le> at_now s)) (at_sessions s) @
        [\<lparr>sr_hash = ae_hash E (rn_token R), sr_user = u, sr_created = at_now s, sr_seen = at_now s, sr_expires = at_now s + SESSION_LIFETIME\<rparr>]\<rparr>)
     (rn_token R)"

section \<open>Signing in\<close>

definition start :: "'d accounts_env \<Rightarrow> randoms \<Rightarrow> provider \<Rightarrow> string \<Rightarrow> string \<Rightarrow> string option \<Rightarrow> ('d, string \<times> string) account_io" where
  "start E R p state next_path connect = sign_bind (sign_lift (authorization_url (ae_oauth E) p state (rn_verifier R))) (\<lambda>url.
     sign_bind (put_waiting (pending_key E ''state'' state)
       (WaitingSignIn \<lparr>pe_provider = p, pe_verifier = rn_verifier R, pe_next = next_path, pe_connect = connect\<rparr>)) (\<lambda>_.
     sign_lift (Inr (url, state))))"

definition start_sign_in :: "'d accounts_env \<Rightarrow> randoms \<Rightarrow> provider \<Rightarrow> string option \<Rightarrow> ('d, string \<times> string) account_io" where
  "start_sign_in E R p next_path = start E R p (rn_state R) (safe_next next_path DEFAULT_NEXT) None"

definition start_connect :: "'d accounts_env \<Rightarrow> randoms \<Rightarrow> provider \<Rightarrow> string \<Rightarrow> string option \<Rightarrow> ('d, string \<times> string) account_io" where
  "start_connect E R p token next_path =
     start E R p (CONNECT_STATE_PREFIX @ rn_state R) (safe_next next_path CONNECT_NEXT) (Some (ae_hash E token))"

definition add_identity :: "string \<Rightarrow> account \<Rightarrow> 'd accounts \<Rightarrow> 'd accounts" where
  "add_identity u a s = s\<lparr>at_identities := at_identities s @ [\<lparr>ir_provider = ac_provider a, ir_subject = ac_subject a, ir_user = u,
     ir_email = ac_email a, ir_login = ac_login a, ir_created = at_now s\<rparr>]\<rparr>"

definition new_user :: "string \<Rightarrow> string \<Rightarrow> string \<Rightarrow> 'd accounts \<Rightarrow> 'd accounts" where
  "new_user u email name s = s\<lparr>at_users := at_users s @ [\<lparr>ur_id = u, ur_name = name, ur_email = email, ur_created = at_now s, ur_last = at_now s\<rparr>]\<rparr>"

definition touch_user :: "string \<Rightarrow> 'd accounts \<Rightarrow> 'd accounts" where
  "touch_user u s = s\<lparr>at_users := map (\<lambda>x. if ur_id x = u then x\<lparr>ur_last := at_now s\<rparr> else x) (at_users s)\<rparr>"

definition another_account :: "account \<Rightarrow> sign_error" where
  "another_account a = SignInFailed (''the user signs in with another '' @ provider_name (ac_provider a) @ '' account'')"

text \<open>\<open>_account_of\<close>: the user's id, and the tables to commit.\<close>

definition account_of :: "randoms \<Rightarrow> account \<Rightarrow> identity_row option \<Rightarrow> user_row option \<Rightarrow> 'd accounts \<Rightarrow> sign_error + string \<times> 'd accounts" where
  "account_of R a identity known s = (case identity of
      Some i \<Rightarrow> (case known of
          None \<Rightarrow> Inl (AccountCrash ''AssertionError'')
        | Some u \<Rightarrow> Inr (ur_id u, touch_user (ur_id u) (s\<lparr>at_identities := map (\<lambda>j. if ir_provider j = ir_provider i \<and> ir_subject j = ir_subject i
              then j\<lparr>ir_email := ac_email a, ir_login := ac_login a\<rparr> else j) (at_identities s)\<rparr>)))
    | None \<Rightarrow> (case user_by_email (ac_email a) s of
          None \<Rightarrow> Inr (rn_user R, add_identity (rn_user R) a (new_user (rn_user R) (ac_email a) (provider_display_name a) s))
        | Some u \<Rightarrow> if ac_provider a \<in> set (providers_of (ur_id u) s) then Inl (another_account a)
            else Inr (ur_id u, touch_user (ur_id u) (add_identity (ur_id u) a s))))"

text \<open>A sign-in from the account on. \<open>_connect\<close> and \<open>_connecting\<close> likewise for a connect.\<close>

definition sign_in_account :: "'d accounts_env \<Rightarrow> randoms \<Rightarrow> provider \<Rightarrow> account \<Rightarrow> ('d, string) account_io" where
  "sign_in_account E R p a s =
     (let identity = identity_of (ac_provider a) (ac_subject a) s;
          known = (case identity of None \<Rightarrow> None | Some i \<Rightarrow> user_of (ir_user i) s)
      in if (case known of Some u \<Rightarrow> ur_email u | None \<Rightarrow> ac_email a) \<notin> set (ae_allow E)
         then (case put_denial E R (ac_email a) p s of (Inl e, s) \<Rightarrow> (Inl e, s) | (Inr i, s) \<Rightarrow> (Inl (SignInDenied i), s))
         else (case account_of R a identity known s of
             Inl e \<Rightarrow> (Inl e, s)
           | Inr (u, changed) \<Rightarrow> new_session E R u changed s))"

definition connecting :: "'d accounts_env \<Rightarrow> string \<Rightarrow> string option \<Rightarrow> ('d, user_row \<times> bool) account_io" where
  "connecting E connect token s =
     (case (case token of None \<Rightarrow> (None, s) | Some t \<Rightarrow> if ae_hash E t = connect then signed_in E t s else (None, s)) of
        (None, s) \<Rightarrow> (Inl (SignInFailed ''the session that started the connect ended''), s)
      | (Some x, s) \<Rightarrow> (Inr x, s))"

definition connect_account :: "string \<Rightarrow> account \<Rightarrow> ('d, unit) account_io" where
  "connect_account u a s = (case identity_of (ac_provider a) (ac_subject a) s of
      Some i \<Rightarrow> (if ir_user i \<noteq> u then Inl SignInMethodTaken else Inr (), s)
    | None \<Rightarrow> if ac_provider a \<in> set (providers_of u s) then (Inl (another_account a), s)
        else commit (add_identity u a s) () s)"

text \<open>The callback from the taken sign-in on.\<close>

definition finish_pending :: "'d accounts_env \<Rightarrow> randoms \<Rightarrow> provider \<Rightarrow> string option \<Rightarrow> string \<Rightarrow> string option \<Rightarrow> pending_sign_in \<Rightarrow>
    ('d, string \<times> string option) account_io" where
  "finish_pending E R p token code err w =
     (if pe_provider w \<noteq> p then sign_lift (Inl (SignInFailed ''the state is unknown or expired''))
      else if err \<noteq> None \<or> code = [] then sign_lift (Inl (SignInFailed (provider_name p @ '' returned no code (cancelled or refused)'')))
      else (case pe_connect w of
          Some connect \<Rightarrow>
            sign_bind (connecting E connect token) (\<lambda>(u, extended).
            sign_bind (fetch_account (ae_oauth E) p code (pe_verifier w)) (\<lambda>a.
            sign_bind (connect_account (ur_id u) a) (\<lambda>_.
            sign_lift (Inr (pe_next w, if extended then token else None)))))
        | None \<Rightarrow>
            sign_bind (fetch_account (ae_oauth E) p code (pe_verifier w)) (\<lambda>a.
            sign_bind (sign_in_account E R p a) (\<lambda>t.
            sign_lift (Inr (pe_next w, Some t))))))"

definition finish_sign_in :: "'d accounts_env \<Rightarrow> randoms \<Rightarrow> provider \<Rightarrow> string option \<Rightarrow> string option \<Rightarrow> string option \<Rightarrow> string option \<Rightarrow> string option \<Rightarrow>
    ('d, string \<times> string option) account_io" where
  "finish_sign_in E R p state browser_state token code err =
     (let given = or_text state []; browser = or_text browser_state []
      in if given = [] \<or> browser = [] \<or> length given > MAX_STATE then sign_lift (Inl (SignInFailed ''the state is missing or too long''))
         else if given \<noteq> browser then sign_lift (Inl (SignInFailed ''the state does not match this browser's''))
         else sign_bind (take_sign_in E given) (\<lambda>pending. case pending of
             None \<Rightarrow> sign_lift (Inl (SignInFailed ''the state is unknown or expired''))
           | Some w \<Rightarrow> finish_pending E R p token (or_text code []) err w))"

definition dev_sign_in :: "'d accounts_env \<Rightarrow> randoms \<Rightarrow> ('d, string) account_io" where
  "dev_sign_in E R s = (case user_by_email DEV_EMAIL s of
      None \<Rightarrow> new_session E R (rn_user R) (new_user (rn_user R) DEV_EMAIL DEV_NAME s) s
    | Some u \<Rightarrow> new_session E R (ur_id u) (touch_user (ur_id u) s) s)"

section \<open>Settings\<close>

text \<open>\<open>me\<close>: the user with the sign-in methods, by provider.\<close>

definition me :: "user_row \<Rightarrow> 'd accounts \<Rightarrow> user_row \<times> (provider \<times> string \<times> string option) list" where
  "me u s = (u, map (\<lambda>i. (ir_provider i, ir_email i, ir_login i))
     (sort_key (\<lambda>i. (provider_name (ir_provider i), ir_created i)) (identities_of (ur_id u) s)))"

text \<open>\<open>rename\<close> of the user the request loaded: nothing is written when the name is the same, and a change of a
  row that is gone is a \<open>StaleDataError\<close>.\<close>

definition rename_user :: "user_row \<Rightarrow> string \<Rightarrow> ('d, unit) account_io" where
  "rename_user u name s = (if ur_name u = name then (Inr (), s)
     else if user_of (ur_id u) s = None then (Inl (AccountCrash ''StaleDataError''), s)
     else (Inr (), s\<lparr>at_users := map (\<lambda>x. if ur_id x = ur_id u then x\<lparr>ur_name := name\<rparr> else x) (at_users s)\<rparr>))"

definition disconnect :: "string \<Rightarrow> provider \<Rightarrow> ('d, unit) account_io" where
  "disconnect u p s =
     (if p \<notin> set (providers_of u s) then (Inl NoSuchSignInMethod, s)
      else if set (providers_of u s) = {p} then (Inl LastSignInMethod, s)
      else commit (s\<lparr>at_identities := filter (\<lambda>i. \<not> (ir_user i = u \<and> ir_provider i = p)) (at_identities s)\<rparr>) () s)"

text \<open>The hooks one after another: what runs after the commit, and the rest with their rows gone.\<close>

fun run_hooks :: "'d hook list \<Rightarrow> string \<Rightarrow> 'd \<Rightarrow> string + ('d \<Rightarrow> 'd) list \<times> 'd" where
  "run_hooks [] u d = Inr ([], d)"
| "run_hooks (h # hs) u d = bind_res (h u d) (\<lambda>(after, d). bind_res (run_hooks hs u d) (\<lambda>(afters, d).
     Inr ((case after of None \<Rightarrow> afters | Some f \<Rightarrow> f # afters), d)))"

definition delete_user :: "string \<Rightarrow> 'd accounts \<Rightarrow> 'd accounts" where
  "delete_user u s = s\<lparr>at_users := filter (\<lambda>x. ur_id x \<noteq> u) (at_users s), at_identities := filter (\<lambda>i. ir_user i \<noteq> u) (at_identities s),
     at_sessions := filter (\<lambda>x. sr_user x \<noteq> u) (at_sessions s), at_preferences := filter (\<lambda>x. fst x \<noteq> u) (at_preferences s)\<rparr>"

definition delete_account :: "'d accounts_env \<Rightarrow> string \<Rightarrow> ('d, unit) account_io" where
  "delete_account E u s = (case run_hooks (ae_hooks E) u (at_rest s) of
      Inl e \<Rightarrow> (Inl (AccountCrash e), s)
    | Inr (afters, d) \<Rightarrow> sign_bind (commit (delete_user u (s\<lparr>at_rest := d\<rparr>)) ()) (\<lambda>_ s. (Inr (), s\<lparr>at_rest := foldl (\<lambda>d f. f d) (at_rest s) afters\<rparr>)) s)"

definition preferences_of :: "string \<Rightarrow> 'd accounts \<Rightarrow> (string \<rightharpoonup> json) \<times> (string \<rightharpoonup> json)" where
  "preferences_of u s = (case map_of (at_preferences s) u of None \<Rightarrow> (Map.empty, Map.empty) | Some r \<Rightarrow> (pr_defaults r, pr_appearance r))"

definition put_preferences :: "string \<Rightarrow> (preferences_row \<Rightarrow> preferences_row) \<Rightarrow> ('d, unit) account_io" where
  "put_preferences u change s = commit (s\<lparr>at_preferences := AList.update u
     (change (case map_of (at_preferences s) u of Some r \<Rightarrow> r\<lparr>pr_updated := at_now s\<rparr>
       | None \<Rightarrow> \<lparr>pr_defaults = Map.empty, pr_appearance = Map.empty, pr_updated = at_now s\<rparr>)) (at_preferences s)\<rparr>) () s"

definition save_backtest_defaults :: "string \<Rightarrow> (string \<rightharpoonup> json) \<Rightarrow> ('d, unit) account_io" where
  "save_backtest_defaults u doc = put_preferences u (\<lambda>r. r\<lparr>pr_defaults := doc\<rparr>)"

definition update_appearance :: "string \<Rightarrow> (string \<rightharpoonup> json) \<Rightarrow> ('d, unit) account_io" where
  "update_appearance u changes = put_preferences u (\<lambda>r. r\<lparr>pr_appearance := pr_appearance r ++ changes\<rparr>)"

section \<open>What every operation keeps\<close>

text \<open>What the constraints do not check: one account of a provider per user, emails in lower case, and
  sessions that end 30 days after they were extended.\<close>

definition rules_ok :: "'d accounts \<Rightarrow> bool" where
  "rules_ok s \<longleftrightarrow> distinct (map (\<lambda>i. (ir_user i, ir_provider i)) (at_identities s)) \<and> (\<forall>u \<in> set (at_users s). lower (ur_email u) = ur_email u) \<and>
     (\<forall>x \<in> set (at_sessions s). sr_expires x = sr_seen x + SESSION_LIFETIME)"

definition accounts_ok :: "'d accounts \<Rightarrow> bool" where
  "accounts_ok s \<longleftrightarrow> db_ok s \<and> rules_ok s"

text \<open>Redis, the clock and the rest are not part of it.\<close>

definition tables :: "'d accounts \<Rightarrow> user_row list \<times> identity_row list \<times> session_row list \<times> string list" where
  "tables s = (at_users s, at_identities s, at_sessions s, map fst (at_preferences s))"

lemma accounts_ok_same:
  assumes "tables s' = tables s"
  shows "accounts_ok s' = accounts_ok s"
proof -
  have "fst ` set (at_preferences s') = fst ` set (at_preferences s)" using assms by (simp add: tables_def flip: set_map)
  then show ?thesis using assms by (simp add: accounts_ok_def db_ok_def rules_ok_def tables_def)
qed

lemma commit_keeps: "accounts_ok old \<Longrightarrow> (db_ok new \<Longrightarrow> rules_ok new) \<Longrightarrow> accounts_ok (snd (commit new x old))"
  by (simp add: commit_def accounts_ok_def)

text \<open>Fewer identities and sessions, and changes of a row that leave its keys.\<close>

lemma fewer_sessions:
  assumes "accounts_ok s"
  shows "accounts_ok (s\<lparr>at_sessions := filter P (at_sessions s)\<rparr>)"
  using assms by (auto simp: accounts_ok_def db_ok_def rules_ok_def distinct_map_filter)

lemma changed_users:
  assumes ok: "accounts_ok s" and f: "\<And>x. ur_id (f x) = ur_id x" "\<And>x. ur_email (f x) = ur_email x"
  shows "accounts_ok (s\<lparr>at_users := map f (at_users s)\<rparr>)"
  using ok f by (auto simp: accounts_ok_def db_ok_def rules_ok_def comp_def image_image)

lemma changed_identities:
  assumes "rules_ok s" "\<And>x. ir_user (f x) = ir_user x" "\<And>x. ir_provider (f x) = ir_provider x"
  shows "rules_ok (s\<lparr>at_identities := map f (at_identities s)\<rparr>)"
  using assms by (simp add: rules_ok_def comp_def)

lemma changed_sessions:
  assumes ok: "accounts_ok s" and f: "\<And>x. sr_hash (f x) = sr_hash x" "\<And>x. sr_user (f x) = sr_user x"
    "\<And>x. sr_expires x = sr_seen x + SESSION_LIFETIME \<Longrightarrow> sr_expires (f x) = sr_seen (f x) + SESSION_LIFETIME"
  shows "accounts_ok (s\<lparr>at_sessions := map f (at_sessions s)\<rparr>)"
  using ok f by (auto simp: accounts_ok_def db_ok_def rules_ok_def comp_def image_image)

lemma signed_in_keeps:
  assumes ok: "accounts_ok s"
  shows "accounts_ok (snd (signed_in E t s))"
proof (cases "session_row_of (ae_hash E t) s")
  case (Some y)
  obtain x u where y: "y = (x, u)" by (cases y)
  have extended: "accounts_ok (s\<lparr>at_sessions := map (\<lambda>y. if sr_hash y = sr_hash x
      then y\<lparr>sr_seen := at_now s, sr_expires := at_now s + SESSION_LIFETIME\<rparr> else y) (at_sessions s)\<rparr>)"
    by (rule changed_sessions[OF ok]) auto
  have ended: "accounts_ok (delete_session (sr_hash x) s)" unfolding delete_session_def by (rule fewer_sessions[OF ok])
  have "snd (signed_in E t s) \<in> {delete_session (sr_hash x) s, s, s\<lparr>at_sessions := map (\<lambda>y. if sr_hash y = sr_hash x
      then y\<lparr>sr_seen := at_now s, sr_expires := at_now s + SESSION_LIFETIME\<rparr> else y) (at_sessions s)\<rparr>}"
    unfolding signed_in_def Some y option.case prod.case by (auto split: if_splits)
  with extended ended ok show ?thesis by (metis (no_types, lifting) insert_iff singletonD)
qed (use ok in \<open>simp add: signed_in_def\<close>)

lemma put_waiting_keeps: "accounts_ok s \<Longrightarrow> accounts_ok (snd (put_waiting k v s))"
  using accounts_ok_same[of "snd (put_waiting k v s)" s] by (simp add: put_waiting_def tables_def)

text \<open>An effect that keeps \<open>P\<close>, and those composed of such.\<close>

definition keeps :: "('s \<Rightarrow> bool) \<Rightarrow> ('s, 'a) sign_io \<Rightarrow> bool" where
  "keeps P f \<longleftrightarrow> (\<forall>s. P s \<longrightarrow> P (snd (f s)))"

named_theorems keep_intros "effects that keep a property of the state"

lemma keepsI: "(\<And>s. P s \<Longrightarrow> P (snd (f s))) \<Longrightarrow> keeps P f"
  by (simp add: keeps_def)

lemma keepsD: "keeps P f \<Longrightarrow> P s \<Longrightarrow> P (snd (f s))"
  by (simp add: keeps_def)

lemma keeps_bind [keep_intros]: "keeps P f \<Longrightarrow> (\<And>x. keeps P (g x)) \<Longrightarrow> keeps P (sign_bind f g)"
  by (fastforce simp: keeps_def sign_bind_def split: prod.splits sum.splits)

lemma keeps_bind_result:
  assumes "keeps P f" "\<And>x s s'. f s = (Inr x, s') \<Longrightarrow> P s' \<Longrightarrow> P (snd (g x s'))"
  shows "keeps P (sign_bind f g)"
proof (rule keepsI)
  fix s assume "P s"
  then have "P (snd (f s))" by (rule keepsD[OF assms(1)])
  then show "P (snd (sign_bind f g s))"
    using assms(2)[of s] by (cases "f s"; cases "fst (f s)") (auto simp: sign_bind_def)
qed

lemma keeps_lift [keep_intros]: "keeps P (sign_lift r)"
  by (simp add: keeps_def sign_lift_def)

lemma keeps_put_waiting [keep_intros]: "keeps accounts_ok (put_waiting k v)"
  by (rule keepsI) (rule put_waiting_keeps)

lemma new_session_keeps:
  assumes "accounts_ok s" "distinct (map ur_id (at_users changed)) \<Longrightarrow> rules_ok changed"
  shows "accounts_ok (snd (new_session E R u changed s))"
  unfolding new_session_def using assms by (intro commit_keeps) (auto simp: rules_ok_def db_ok_def)

text \<open>A new identity, after the check that the user has none of the provider.\<close>

lemma add_identity_rules:
  assumes "rules_ok s" "ac_provider a \<notin> set (providers_of u s)"
  shows "rules_ok (add_identity u a s)"
  using assms by (auto simp: rules_ok_def add_identity_def providers_of_def identities_of_def)

lemma user_of_Some: "user_of u s = Some x \<Longrightarrow> x \<in> set (at_users s) \<and> ur_id x = u"
  by (auto simp: user_of_def find_Some_iff)

lemma touch_user_rules: "rules_ok s \<Longrightarrow> rules_ok (touch_user u s)"
  by (auto simp: rules_ok_def touch_user_def)

lemma account_of_rules:
  assumes ok: "accounts_ok s" and a: "lower (ac_email a) = ac_email a"
    and changed: "account_of R a identity known s = Inr (u, changed)" and ids: "distinct (map ur_id (at_users changed))"
  shows "rules_ok changed"
proof -
  have rules: "rules_ok s" and db: "db_ok s" using ok by (simp_all add: accounts_ok_def)
  show ?thesis
  proof (cases identity)
    case (Some i)
    have "rules_ok (s\<lparr>at_identities := map (\<lambda>j. if ir_provider j = ir_provider i \<and> ir_subject j = ir_subject i
        then j\<lparr>ir_email := ac_email a, ir_login := ac_login a\<rparr> else j) (at_identities s)\<rparr>)"
      by (rule changed_identities[OF rules]) simp_all
    then show ?thesis using changed Some by (auto simp: account_of_def touch_user_rules split: option.splits)
  next
    case None
    show ?thesis
    proof (cases "user_by_email (ac_email a) s")
      case new: None
      then have c: "u = rn_user R" "changed = add_identity u a (new_user u (ac_email a) (provider_display_name a) s)"
        using changed None by (auto simp: account_of_def)
      have "rn_user R \<notin> ur_id ` set (at_users s)" using ids unfolding c by (auto simp: add_identity_def new_user_def)
      then have "rn_user R \<notin> ir_user ` set (at_identities s)" using db unfolding db_ok_def by blast
      then have "providers_of (rn_user R) (new_user u (ac_email a) (provider_display_name a) s) = []"
        by (auto simp: providers_of_def identities_of_def new_user_def filter_empty_conv image_iff)
      moreover have "rules_ok (new_user u (ac_email a) (provider_display_name a) s)"
        using rules a by (auto simp: rules_ok_def new_user_def)
      ultimately show ?thesis unfolding c by (intro add_identity_rules) (simp_all add: c(1))
    next
      case (Some v)
      then have "ac_provider a \<notin> set (providers_of (ur_id v) s)" "changed = touch_user (ur_id v) (add_identity (ur_id v) a s)"
        using changed None by (auto simp: account_of_def split: if_splits)
      then show ?thesis using add_identity_rules[OF rules] touch_user_rules by blast
    qed
  qed
qed

text \<open>The requests to a provider, in which other requests run.\<close>

definition others_keep :: "('s \<Rightarrow> bool) \<Rightarrow> 's oauth \<Rightarrow> bool" where
  "others_keep P G \<longleftrightarrow> (\<forall>s. P s \<longrightarrow> (\<forall>url body. P (snd (og_post G url body s))) \<and>
     (\<forall>headers url ps t. P (snd (nt_send (og_net G headers) url ps s)) \<and> P (nt_sleep (og_net G headers) t s)))"

lemma request_keeps:
  assumes "\<And>s. P s \<Longrightarrow> P (snd (nt_send N url ps s))" "\<And>t s. P s \<Longrightarrow> P (nt_sleep N t s)"
  shows "P s \<Longrightarrow> P (snd (request_from N url ps b m attempt left s))"
proof (induction left arbitrary: attempt s)
  case 0
  then show ?case using assms(1)[of s] by (subst request_from.simps) (auto simp: Let_def split: prod.splits sum.splits nat.splits)
next
  case (Suc left)
  then show ?case using assms(1)[of s] assms(2)
    by (subst request_from.simps) (auto simp: Let_def split: prod.splits sum.splits)
qed

lemma keeps_answer: "P (snd x) \<Longrightarrow> P (snd (case x of (Inl e, s) \<Rightarrow> (g e, s) | (Inr r, s) \<Rightarrow> (h r, s)))"
  by (cases x; cases "fst x") auto

lemma others_keepD:
  assumes "others_keep P G" "P s"
  shows "P (snd (og_post G url body s))" "P (snd (nt_send (og_net G headers) url ps s))" "P (nt_sleep (og_net G headers) t s)"
  using assms unfolding others_keep_def by blast+

lemma keeps_token: 
  assumes "others_keep P G"
  shows "keeps P (access_token G p code verifier)"
  unfolding access_token_def
proof (intro keep_intros)
  show "keeps P (case x of (client, secret) \<Rightarrow> \<lambda>s. (case og_post G (ep_exchange (ENDPOINTS p)) (og_body G code (redirect_uri G p) verifier client secret) s of
        (Inl f, s) \<Rightarrow> (Inl (unreachable p f), s)
      | (Inr r, s) \<Rightarrow>
          (if status_code r \<ge> 500
           then Inl (SignInFailed (provider_name p @ '' token endpoint answered HTTP '' @ show_int (status_code r)))
           else bind_res (unexpected p (og_token G (content r))) (\<lambda>t. case tk_access t of
               None \<Rightarrow> Inl (SignInFailed (provider_name p @ '' refused the code ('' @ or_text (tk_error t) ''no token'' @ '')''))
             | Some a \<Rightarrow> Inr a), s)))" for x
    by (cases x) (simp only: prod.case, rule keepsI, rule keeps_answer, rule others_keepD(1)[OF assms])
qed

lemma keeps_content:
  assumes "others_keep P G"
  shows "keeps P (get_content G p url token headers)"
proof (rule keepsI)
  fix s assume P: "P s"
  show "P (snd (get_content G p url token headers s))"
    unfolding get_content_def request_def request_with_retry_def
    by (rule keeps_answer, rule request_keeps[where P = P, OF _ _ P]) (rule others_keepD[OF assms], assumption)+
qed

lemma keeps_fetch:
  assumes "others_keep P G"
  shows "keeps P (fetch_account G p code verifier)"
proof -
  have "keeps P (github_account G token)" "keeps P (google_account G token)" for token
    unfolding github_account_def google_account_def by (intro keep_intros keeps_content[OF assms])+
  then show ?thesis unfolding fetch_account_def by (cases p) (auto intro!: keep_intros keeps_token[OF assms])
qed

section \<open>Every operation keeps the tables and the rules\<close>

lemma keeps_sign_in_account:
  fixes E :: "'d accounts_env"
  assumes "lower (ac_email a) = ac_email a"
  shows "keeps accounts_ok (sign_in_account E R p a)"
proof (rule keepsI)
  fix s :: "'d accounts" assume ok: "accounts_ok s"
  have denied: "accounts_ok (snd (put_denial E R (ac_email a) p s))"
    unfolding put_denial_def by (rule keepsD[where P = accounts_ok, OF _ ok]) (intro keep_intros)
  have session: "accounts_ok (snd (new_session E R u changed s))"
    if "account_of R a identity known s = Inr (u, changed)" for identity known u changed
    by (rule new_session_keeps[OF ok]) (rule account_of_rules[OF ok assms that])
  show "accounts_ok (snd (sign_in_account E R p a s))"
    using denied session ok unfolding sign_in_account_def Let_def by (auto split: prod.splits sum.splits)
qed

lemma keeps_connecting: "keeps accounts_ok (connecting (E :: 'd accounts_env) connect token)"
proof (rule keepsI)
  fix s :: "'d accounts" assume ok: "accounts_ok s"
  obtain r s' where r: "(case token of None \<Rightarrow> (None, s) | Some t \<Rightarrow> if ae_hash E t = connect then signed_in E t s else (None, s)) = (r, s')"
    by (meson surj_pair)
  then have "accounts_ok s'" using ok signed_in_keeps[OF ok, of E] by (auto split: option.splits if_splits) (metis snd_conv)
  then show "accounts_ok (snd (connecting E connect token s))" unfolding connecting_def r by (auto split: option.splits)
qed

lemma keeps_connect_account: "keeps (accounts_ok :: 'd accounts \<Rightarrow> bool) (connect_account u a)"
proof (rule keepsI)
  fix s :: "'d accounts" assume ok: "accounts_ok s"
  then have "accounts_ok (snd (commit (add_identity u a s) () s))" if "ac_provider a \<notin> set (providers_of u s)"
    using that by (intro commit_keeps add_identity_rules) (auto simp: accounts_ok_def)
  then show "accounts_ok (snd (connect_account u a s))" using ok by (auto simp: connect_account_def split: option.splits)
qed

lemma keeps_take: "keeps accounts_ok (take_sign_in E state)"
  by (rule keepsI) (auto simp: take_sign_in_def accounts_ok_same[where s' = "s\<lparr>at_pending := m\<rparr>" and s = s for s m] tables_def)

lemma keeps_start: "keeps accounts_ok (start E R p state next_path connect)"
  unfolding start_def by (intro keep_intros)

lemma keeps_finish:
  fixes E :: "'d accounts_env"
  assumes "others_keep accounts_ok (ae_oauth E)"
  shows "keeps accounts_ok (finish_sign_in E R p state browser token code err)"
proof -
  have connect: "keeps accounts_ok (sign_bind (connecting E connect token) (\<lambda>(u, extended).
      sign_bind (fetch_account (ae_oauth E) q c v) (\<lambda>a. sign_bind (connect_account (ur_id u) a) (\<lambda>_. sign_lift (Inr (n, if extended then token else None))))))"
    for connect q c v n
  proof (rule keeps_bind[OF keeps_connecting])
    fix x :: "user_row \<times> bool"
    show "keeps accounts_ok (case x of (u, extended) \<Rightarrow> sign_bind (fetch_account (ae_oauth E) q c v)
        (\<lambda>a. sign_bind (connect_account (ur_id u) a) (\<lambda>_. sign_lift (Inr (n, if extended then token else None)))))"
      by (cases x) (simp only: prod.case, intro keep_intros keeps_fetch[OF assms] keeps_connect_account)
  qed
  have signing: "keeps accounts_ok (sign_bind (fetch_account (ae_oauth E) q c v) (\<lambda>a. sign_bind (sign_in_account E R q a) (\<lambda>t. sign_lift (Inr (n, Some t)))))"
    for q c v n
  proof (rule keeps_bind_result[OF keeps_fetch[OF assms]])
    fix a and s s' :: "'d accounts" assume a: "fetch_account (ae_oauth E) q c v s = (Inr a, s')" and ok: "accounts_ok s'"
    show "accounts_ok (snd (sign_bind (sign_in_account E R q a) (\<lambda>t. sign_lift (Inr (n, Some t))) s'))"
      by (rule keepsD[where P = accounts_ok, OF _ ok]) (intro keep_intros keeps_sign_in_account fetched_account(2)[OF a])
  qed
  have "keeps accounts_ok (finish_pending E R p token c err w)" for c w
    unfolding finish_pending_def by (auto intro!: keeps_lift connect signing split: option.splits)
  then show ?thesis unfolding finish_sign_in_def Let_def
    by (auto intro!: keeps_bind[OF keeps_take] keeps_lift split: option.splits)
qed

lemma keeps_dev_sign_in: "keeps (accounts_ok :: 'd accounts \<Rightarrow> bool) (dev_sign_in E R)"
proof (rule keepsI)
  fix s :: "'d accounts" assume ok: "accounts_ok s"
  have rules: "rules_ok s" using ok by (simp add: accounts_ok_def)
  have "lower DEV_EMAIL = DEV_EMAIL" by (simp add: DEV_EMAIL_def lower_def to_lower_def is_upper_def code_of_def)
  then have new: "rules_ok (new_user u DEV_EMAIL DEV_NAME s)" for u using rules by (auto simp: rules_ok_def new_user_def)
  show "accounts_ok (snd (dev_sign_in E R s))"
    using new_session_keeps[OF ok new] new_session_keeps[OF ok touch_user_rules[OF rules]] by (auto simp: dev_sign_in_def split: option.splits)
qed

lemma keeps_disconnect: "keeps (accounts_ok :: 'd accounts \<Rightarrow> bool) (disconnect u p)"
proof (rule keepsI)
  fix s :: "'d accounts" assume ok: "accounts_ok s"
  then have "rules_ok (s\<lparr>at_identities := filter P (at_identities s)\<rparr>)" for P
    by (auto simp: accounts_ok_def rules_ok_def distinct_map_filter)
  then have "accounts_ok (snd (commit (s\<lparr>at_identities := filter P (at_identities s)\<rparr>) () s))" for P by (rule commit_keeps[OF ok])
  then show "accounts_ok (snd (disconnect u p s))" by (simp add: disconnect_def ok)
qed

lemma keeps_delete_account: "keeps (accounts_ok :: 'd accounts \<Rightarrow> bool) (delete_account E u)"
proof (rule keepsI)
  fix s :: "'d accounts" assume ok: "accounts_ok s"
  have rest: "accounts_ok (x\<lparr>at_rest := d\<rparr>) = accounts_ok x" for x :: "'d accounts" and d
    by (rule accounts_ok_same) (simp add: tables_def)
  have commits: "keeps accounts_ok (commit (delete_user u (s\<lparr>at_rest := d\<rparr>)) ())" for d
  proof (rule keepsI)
    have "rules_ok (delete_user u (s\<lparr>at_rest := d\<rparr>))"
      using ok unfolding accounts_ok_def rules_ok_def delete_user_def by (simp add: distinct_map_filter)
    then show "accounts_ok (snd (commit (delete_user u (s\<lparr>at_rest := d\<rparr>)) () old))" if "accounts_ok old" for old
      using that by (intro commit_keeps)
  qed
  have "keeps accounts_ok (sign_bind (commit (delete_user u (s\<lparr>at_rest := d\<rparr>)) ()) (\<lambda>_ s. (Inr (), s\<lparr>at_rest := foldl (\<lambda>d f. f d) (at_rest s) afters\<rparr>)))"
    for d afters
    by (rule keeps_bind[OF commits]) (simp add: keeps_def rest)
  from keepsD[OF this ok] show "accounts_ok (snd (delete_account E u s))"
    by (auto simp: delete_account_def ok split: sum.splits prod.splits)
qed

lemma keeps_preferences: "keeps (accounts_ok :: 'd accounts \<Rightarrow> bool) (put_preferences u change)"
proof (rule keepsI)
  fix s :: "'d accounts" assume ok: "accounts_ok s"
  then have "rules_ok (s\<lparr>at_preferences := x\<rparr>)" for x by (simp add: accounts_ok_def rules_ok_def)
  then show "accounts_ok (snd (put_preferences u change s))" unfolding put_preferences_def by (rule commit_keeps[OF ok])
qed

lemma keeps_rename: "keeps (accounts_ok :: 'd accounts \<Rightarrow> bool) (rename_user u name)"
  by (rule keepsI) (auto simp: rename_user_def intro!: changed_users)

lemma keeps_sign_out: "accounts_ok s \<Longrightarrow> accounts_ok (sign_out E t s)" "accounts_ok s \<Longrightarrow> accounts_ok (sign_out_everywhere u s)"
  by (simp_all add: sign_out_def delete_session_def sign_out_everywhere_def fewer_sessions)

text \<open>The requests of the accounts API, one after another, with the other requests that run while a provider is asked.\<close>

inductive accounts_run :: "'d accounts_env \<Rightarrow> 'd accounts \<Rightarrow> bool" for E where
  no_accounts: "at_users s = [] \<Longrightarrow> at_identities s = [] \<Longrightarrow> at_sessions s = [] \<Longrightarrow> at_preferences s = [] \<Longrightarrow> accounts_run E s"
| elsewhere: "accounts_run E s \<Longrightarrow> accounts_run E (s\<lparr>at_pending := w, at_redis_up := up, at_now := t, at_rest := d\<rparr>)"
| starts: "accounts_run E s \<Longrightarrow> accounts_run E (snd (start_sign_in E R p path s))"
| connects: "accounts_run E s \<Longrightarrow> accounts_run E (snd (start_connect E R p token path s))"
| finishes: "accounts_run E s \<Longrightarrow> accounts_run E (snd (finish_sign_in E R p state browser token' code err s))"
| dev: "accounts_run E s \<Longrightarrow> accounts_run E (snd (dev_sign_in E R s))"
| looks: "accounts_run E s \<Longrightarrow> accounts_run E (snd (signed_in E token s))"
| leaves: "accounts_run E s \<Longrightarrow> accounts_run E (sign_out E token s)"
| leaves_everywhere: "accounts_run E s \<Longrightarrow> accounts_run E (sign_out_everywhere u s)"
| renames: "accounts_run E s \<Longrightarrow> accounts_run E (snd (rename_user x name s))"
| disconnects: "accounts_run E s \<Longrightarrow> accounts_run E (snd (disconnect u p s))"
| deletes: "accounts_run E s \<Longrightarrow> accounts_run E (snd (delete_account E u s))"
| saves: "accounts_run E s \<Longrightarrow> accounts_run E (snd (save_backtest_defaults u doc s))"
| updates: "accounts_run E s \<Longrightarrow> accounts_run E (snd (update_appearance u doc s))"

lemma accounts_run_ok:
  assumes "accounts_run E s" "others_keep accounts_ok (ae_oauth E)"
  shows "accounts_ok s"
  using assms(1)
proof induction
  case (no_accounts s)
  then show ?case by (simp add: accounts_ok_def db_ok_def rules_ok_def)
next
  case elsewhere
  then show ?case by (subst accounts_ok_same) (simp_all add: tables_def)
qed (simp_all add: start_sign_in_def start_connect_def save_backtest_defaults_def update_appearance_def keeps_sign_out signed_in_keeps
  keepsD[OF keeps_start] keepsD[OF keeps_finish[OF assms(2)]] keepsD[OF keeps_dev_sign_in] keepsD[OF keeps_rename] keepsD[OF keeps_disconnect]
  keepsD[OF keeps_delete_account] keepsD[OF keeps_preferences])

text \<open>C37: Whatever requests came before, and whatever other requests did while a provider was asked as long as
  they keep the same: no two users have one email, no account of a provider signs in to two users, no
  user has two accounts of one provider, which no constraint of the tables checks, every sign-in method
  and session is of a user there is, emails are in lower case as the beta list is, and a session ends 30
  days after it was last extended.\<close>

theorem accounts_kept:
  assumes "accounts_run E s" "others_keep accounts_ok (ae_oauth E)"
  shows "accounts_ok s"
  by (rule accounts_run_ok[OF assms])

section \<open>What a finished sign-in implies\<close>

definition signs_in :: "account \<Rightarrow> string \<Rightarrow> 'd accounts \<Rightarrow> bool" where
  "signs_in a u s \<longleftrightarrow> (\<exists>i \<in> set (at_identities s). ir_provider i = ac_provider a \<and> ir_subject i = ac_subject a \<and> ir_user i = u)"

text \<open>A sign-in of \<open>a\<close> at \<open>s2\<close> gave a user of the beta list a new session; a connect gave \<open>a\<close> to the user whose
  session at \<open>s\<close> started it, and no session.\<close>

definition admitted :: "'d accounts_env \<Rightarrow> randoms \<Rightarrow> account \<Rightarrow> string option \<Rightarrow> 'd accounts \<Rightarrow> 'd accounts \<Rightarrow> bool" where
  "admitted E R a t s2 s' \<longleftrightarrow> t = Some (rn_token R) \<and> (\<exists>u \<in> set (at_users s'). ur_email u \<in> set (ae_allow E) \<and> signs_in a (ur_id u) s' \<and>
     (\<exists>x \<in> set (at_sessions s'). sr_hash x = ae_hash E (rn_token R) \<and> sr_user x = ur_id u \<and> sr_expires x = at_now s2 + SESSION_LIFETIME))"

definition connected :: "'d accounts_env \<Rightarrow> string \<Rightarrow> string option \<Rightarrow> account \<Rightarrow> 'd accounts \<Rightarrow> 'd accounts \<Rightarrow> 'd accounts \<Rightarrow> bool" where
  "connected E h token a s s2 s' \<longleftrightarrow> (\<exists>t x u. token = Some t \<and> ae_hash E t = h \<and> session_row_of h s = Some (x, u) \<and> at_now s < sr_expires x \<and>
     signs_in a (ur_id u) s' \<and> at_sessions s' = at_sessions s2)"

lemma commit_Inr: "commit new x old = (Inr y, s') \<Longrightarrow> y = x \<and> s' = new"
  by (simp add: commit_def split: if_splits)

lemma identity_of_Some: "identity_of p subject s = Some i \<Longrightarrow> i \<in> set (at_identities s) \<and> ir_provider i = p \<and> ir_subject i = subject"
  by (auto simp: identity_of_def find_Some_iff)

lemma user_by_email_Some: "user_by_email email s = Some u \<Longrightarrow> u \<in> set (at_users s) \<and> ur_email u = email"
  by (auto simp: user_by_email_def find_Some_iff)

lemma touched: "x \<in> set (at_users s) \<Longrightarrow> \<exists>y \<in> set (at_users (touch_user u s)). ur_id y = ur_id x \<and> ur_email y = ur_email x"
  by (rule bexI[of _ "if ur_id x = u then x\<lparr>ur_last := at_now s\<rparr> else x"]) (auto simp: touch_user_def)

lemma same_identities:
  "signs_in a u (touch_user v s) = signs_in a u s" "at_now (touch_user v s) = at_now s" "signs_in a u (add_identity u a s)"
  by (auto simp: touch_user_def signs_in_def add_identity_def)

lemma account_of_user:
  assumes acc: "account_of R a identity known s = Inr (u, changed)"
    and identity: "identity = identity_of (ac_provider a) (ac_subject a) s" and known: "known = (case identity of None \<Rightarrow> None | Some i \<Rightarrow> user_of (ir_user i) s)"
    and allowed: "(case known of Some u \<Rightarrow> ur_email u | None \<Rightarrow> ac_email a) \<in> A"
  shows "at_now changed = at_now s" "\<exists>x \<in> set (at_users changed). ur_id x = u \<and> ur_email x \<in> A" "signs_in a u changed"
proof -
  have "at_now changed = at_now s \<and> (\<exists>x \<in> set (at_users changed). ur_id x = u \<and> ur_email x \<in> A) \<and> signs_in a u changed"
  proof (cases identity)
    case (Some i)
    note i = identity_of_Some[OF Some[unfolded identity]]
    obtain v where v: "known = Some v" using acc Some by (auto simp: account_of_def split: option.splits)
    then have v': "v \<in> set (at_users s)" "ur_id v = ir_user i" using known Some user_of_Some by auto
    let ?s = "s\<lparr>at_identities := map (\<lambda>j. if ir_provider j = ir_provider i \<and> ir_subject j = ir_subject i
      then j\<lparr>ir_email := ac_email a, ir_login := ac_login a\<rparr> else j) (at_identities s)\<rparr>"
    have c: "u = ur_id v" "changed = touch_user (ur_id v) ?s" using acc Some v by (auto simp: account_of_def)
    have "signs_in a (ur_id v) ?s" unfolding signs_in_def using i v'(2)
      by (intro bexI[of _ "i\<lparr>ir_email := ac_email a, ir_login := ac_login a\<rparr>"]) (auto intro!: image_eqI[of _ _ i])
    moreover obtain y where "y \<in> set (at_users (touch_user (ur_id v) ?s))" "ur_id y = ur_id v" "ur_email y = ur_email v"
      using touched[of v ?s "ur_id v"] v'(1) by auto
    ultimately show ?thesis using allowed v unfolding c same_identities by auto
  next
    case None
    then have A: "ac_email a \<in> A" using allowed known by simp
    show ?thesis
    proof (cases "user_by_email (ac_email a) s")
      case new: None
      then have "u = rn_user R" "changed = add_identity u a (new_user u (ac_email a) (provider_display_name a) s)"
        using acc None by (auto simp: account_of_def)
      then show ?thesis using A same_identities(3) by (auto simp: add_identity_def new_user_def signs_in_def)
    next
      case (Some v)
      then have c: "u = ur_id v" "changed = touch_user u (add_identity u a s)"
        using acc None by (auto simp: account_of_def split: if_splits)
      obtain y where "y \<in> set (at_users changed)" "ur_id y = u" "ur_email y = ac_email a"
        using touched[of v "add_identity u a s" u] user_by_email_Some[OF Some] unfolding c by (auto simp: add_identity_def)
      then show ?thesis using A unfolding c same_identities by (auto simp: add_identity_def signs_in_def)
    qed
  qed
  then show "at_now changed = at_now s" "\<exists>x \<in> set (at_users changed). ur_id x = u \<and> ur_email x \<in> A" "signs_in a u changed" by blast+
qed

lemma sign_in_account_admits:
  assumes "sign_in_account E R p a s = (Inr t, s')"
  shows "admitted E R a (Some t) s s'"
proof -
  define identity where "identity = identity_of (ac_provider a) (ac_subject a) s"
  define known where "known = (case identity of None \<Rightarrow> None | Some i \<Rightarrow> user_of (ir_user i) s)"
  have allowed: "(case known of Some u \<Rightarrow> ur_email u | None \<Rightarrow> ac_email a) \<in> set (ae_allow E)"
    using assms unfolding sign_in_account_def Let_def identity_def[symmetric] known_def[symmetric] by (auto split: if_splits prod.splits sum.splits)
  then obtain u changed where acc: "account_of R a identity known s = Inr (u, changed)" and new: "new_session E R u changed s = (Inr t, s')"
    using assms unfolding sign_in_account_def Let_def identity_def[symmetric] known_def[symmetric] by (auto split: if_splits prod.splits sum.splits)
  note user = account_of_user[OF acc identity_def known_def allowed]
  from commit_Inr[OF new[unfolded new_session_def]] user show ?thesis
    by (auto simp: admitted_def signs_in_def)
qed

lemma connect_account_connects:
  assumes "connect_account u a s = (Inr (), s')"
  shows "signs_in a u s' \<and> at_sessions s' = at_sessions s"
proof (cases "identity_of (ac_provider a) (ac_subject a) s")
  case None
  then have "s' = add_identity u a s" using assms by (auto simp: connect_account_def split: if_splits dest: commit_Inr)
  then show ?thesis by (simp add: same_identities) (simp add: add_identity_def)
next
  case (Some i)
  then show ?thesis using assms identity_of_Some[OF Some] by (auto simp: connect_account_def signs_in_def split: if_splits)
qed

lemma connecting_session:
  assumes "connecting E h token s = (Inr (u, extended), s1)"
  shows "\<exists>t x. token = Some t \<and> ae_hash E t = h \<and> session_row_of h s = Some (x, u) \<and> at_now s < sr_expires x"
  using assms by (auto simp: connecting_def signed_in_def split: option.splits if_splits prod.splits)

lemma or_text_given: "or_text v [] = g \<Longrightarrow> g \<noteq> [] \<Longrightarrow> v = Some g"
  by (auto simp: or_text_def split: option.splits if_splits)

lemma take_Some:
  "take_sign_in E given s = (Inr (Some w), s0) \<Longrightarrow> waiting_at (pending_key E ''state'' given) s = Some (WaitingSignIn w) \<and>
     s0 = s\<lparr>at_pending := (at_pending s)(pending_key E ''state'' given := None)\<rparr>"
  by (auto simp: take_sign_in_def split: if_splits option.splits waiting.splits)

lemma finish_taken:
  assumes "finish_sign_in E R p state browser token code err s = (Inr r, s')"
  shows "\<exists>given w s0. state = Some given \<and> browser = Some given \<and> take_sign_in E given s = (Inr (Some w), s0) \<and>
    finish_pending E R p token (or_text code []) err w s0 = (Inr r, s')"
proof -
  have eq: "or_text state [] \<noteq> []" "or_text state [] = or_text browser []"
    using assms unfolding finish_sign_in_def Let_def by (auto simp: sign_lift_def split: if_splits)
  have "sign_bind (take_sign_in E (or_text state [])) (\<lambda>pending. case pending of
      None \<Rightarrow> sign_lift (Inl (SignInFailed ''the state is unknown or expired''))
    | Some w \<Rightarrow> finish_pending E R p token (or_text code []) err w) s = (Inr r, s')"
    using assms eq unfolding finish_sign_in_def Let_def by (auto simp: sign_lift_def split: if_splits)
  then obtain w s0 where "take_sign_in E (or_text state []) s = (Inr (Some w), s0)" "finish_pending E R p token (or_text code []) err w s0 = (Inr r, s')"
    unfolding sign_bind_Inr by (auto simp: sign_lift_def split: option.splits)
  then show ?thesis using or_text_given[OF refl eq(1)] or_text_given[OF eq(2)[symmetric] eq(1)] by blast
qed

text \<open>C36: A callback that ends well brought the state its own browser started with, which was waiting for this
  provider and is taken, so a second callback with it finds nothing. Then the account the provider gave
  for its code signs in: a user of the beta list has a new session of 30 days; or, for a connect, the
  account is one of the user whose session started it, the browser still had that session and it had
  not ended, and no session is new.\<close>

theorem sign_in_safe:
  assumes "finish_sign_in E R p state browser token code err s = (Inr (next_path, t), s')"
  shows "\<exists>given w s1 s2 c a. state = Some given \<and> browser = Some given \<and> waiting_at (pending_key E ''state'' given) s = Some (WaitingSignIn w) \<and>
    pe_provider w = p \<and> next_path = pe_next w \<and> fetch_account (ae_oauth E) p c (pe_verifier w) s1 = (Inr a, s2) \<and>
    at_pending s1 (pending_key E ''state'' given) = None \<and>
    (case pe_connect w of None \<Rightarrow> admitted E R a t s2 s' | Some h \<Rightarrow> connected E h token a s s2 s')"
proof -
  obtain given w s0 where given: "state = Some given" "browser = Some given" and take: "take_sign_in E given s = (Inr (Some w), s0)"
    and rest: "finish_pending E R p token (or_text code []) err w s0 = (Inr (next_path, t), s')" using finish_taken[OF assms] by blast
  let ?key = "pending_key E ''state'' given" and ?c = "or_text code []"
  have waits: "waiting_at ?key s = Some (WaitingSignIn w)" and s0: "s0 = s\<lparr>at_pending := (at_pending s)(?key := None)\<rparr>"
    using take_Some[OF take] by simp_all
  have gone: "at_pending s0 ?key = None" by (simp add: s0)
  have p: "pe_provider w = p" using rest by (auto simp: finish_pending_def sign_lift_def split: if_splits)
  show ?thesis
  proof (cases "pe_connect w")
    case None
    then obtain a s2 t' where a: "fetch_account (ae_oauth E) p ?c (pe_verifier w) s0 = (Inr a, s2)" "sign_in_account E R p a s2 = (Inr t', s')"
      "t = Some t'" "next_path = pe_next w"
      using rest by (auto simp: finish_pending_def sign_bind_Inr sign_lift_Inr split: if_splits)
    from sign_in_account_admits[OF a(2)] show ?thesis using given waits p a gone None by (intro exI[of _ given] exI) auto
  next
    case (Some h)
    then obtain u extended s1 a s2 where c: "connecting E h token s0 = (Inr (u, extended), s1)"
      "fetch_account (ae_oauth E) p ?c (pe_verifier w) s1 = (Inr a, s2)" "connect_account (ur_id u) a s2 = (Inr (), s')" "next_path = pe_next w"
      using rest by (auto simp: finish_pending_def sign_bind_Inr sign_lift_Inr split: if_splits)
    have "session_row_of h s0 = session_row_of h s" "at_now s0 = at_now s" by (simp_all add: s0 session_row_of_def user_of_def[abs_def] cong: option.case_cong)
    then have "connected E h token a s s2 s'"
      using connecting_session[OF c(1)] connect_account_connects[OF c(3)] by (auto simp: connected_def)
    moreover have "at_pending s1 ?key = None"
      using c(1) gone by (auto simp: connecting_def signed_in_def delete_session_def split: option.splits if_splits prod.splits)
    ultimately show ?thesis using given waits p c Some by (intro exI[of _ given] exI) auto
  qed
qed

section \<open>An account is deleted\<close>

text \<open>\<open>ModelsAccountDeletion\<close> as the hook it is: the rows in the transaction, the files after the commit.
  \<open>removed\<close> says of each model's id whether the storage could remove its file.\<close>

definition models_hook :: "(string \<Rightarrow> bool) \<Rightarrow> ml_state hook" where
  "models_hook removed u d = Inr (Some (\<lambda>d. d\<lparr>ml_files := (\<lambda>(v, i). if v = u \<and> removed i then None else ml_files d (v, i))\<rparr>),
     d\<lparr>ml_models := filter (\<lambda>m. md_user m \<noteq> u) (ml_models d)\<rparr>)"

lemma rest_simps: "at_rest (delete_user u s) = at_rest s" "at_rest (s\<lparr>at_rest := d\<rparr>) = d"
  by (simp_all add: delete_user_def)

lemma db_ok_delete_user: "db_ok s \<Longrightarrow> db_ok (delete_user u s)"
  unfolding db_ok_def delete_user_def by (auto simp: distinct_map_filter)

lemma other_user: "v \<noteq> u \<Longrightarrow> user_of v (delete_user u s) = user_of v s"
proof -
  assume "v \<noteq> u"
  then have "find (\<lambda>x. ur_id x = v) (filter (\<lambda>x. ur_id x \<noteq> u) xs) = find (\<lambda>x. ur_id x = v) xs" for xs by (induction xs) auto
  then show ?thesis by (simp add: user_of_def delete_user_def)
qed

lemma signed_in_user: "fst (signed_in E t s) = Some (v, b) \<Longrightarrow> v \<in> set (at_users s)"
  by (auto simp: signed_in_def session_row_of_def dest: user_of_Some split: option.splits if_splits)

lemma map_of_other: "v \<noteq> u \<Longrightarrow> map_of (filter (\<lambda>x. fst x \<noteq> u) xs) v = map_of xs v"
  by (induction xs) auto

text \<open>C38: The deletion of an account, with the hook of the models, on a database that answers: it leaves no row of the
  user in any table, nobody signs in as the user, the user's models are gone, and of their files just those
  that the storage could not remove are left; every other user's row, sign-in methods, sessions,
  preferences, models and files stay.\<close>

theorem account_deleted:
  assumes "accounts_ok s" "ae_hooks E = [models_hook removed]"
  shows "fst (delete_account E u s) = Inr () \<and> (let s' = snd (delete_account E u s) in
    user_of u s' = None \<and> identities_of u s' = [] \<and> (\<forall>x \<in> set (at_sessions s'). sr_user x \<noteq> u) \<and>
    map_of (at_preferences s') u = None \<and> models_of u (at_rest s') = [] \<and>
    (\<forall>i. ml_files (at_rest s') (u, i) = (if removed i then None else ml_files (at_rest s) (u, i))) \<and>
    (\<forall>t v b. fst (signed_in E t s') = Some (v, b) \<longrightarrow> ur_id v \<noteq> u) \<and>
    (\<forall>v i. v \<noteq> u \<longrightarrow> user_of v s' = user_of v s \<and> identities_of v s' = identities_of v s \<and>
      filter (\<lambda>x. sr_user x = v) (at_sessions s') = filter (\<lambda>x. sr_user x = v) (at_sessions s) \<and>
      map_of (at_preferences s') v = map_of (at_preferences s) v \<and>
      models_of v (at_rest s') = models_of v (at_rest s) \<and> ml_files (at_rest s') (v, i) = ml_files (at_rest s) (v, i)))"
proof -
  define d where "d = (at_rest s)\<lparr>ml_models := filter (\<lambda>m. md_user m \<noteq> u) (ml_models (at_rest s))\<rparr>"
  define d' where "d' = d\<lparr>ml_files := (\<lambda>(v, i). if v = u \<and> removed i then None else ml_files d (v, i))\<rparr>"
  have "db_ok (delete_user u (s\<lparr>at_rest := d\<rparr>))"
    by (rule db_ok_delete_user) (use assms(1) in \<open>simp add: accounts_ok_def db_ok_def\<close>)
  then have run: "delete_account E u s = (Inr (), (delete_user u (s\<lparr>at_rest := d\<rparr>))\<lparr>at_rest := d'\<rparr>)"
    unfolding delete_account_def assms(2)
    by (simp add: models_hook_def sign_bind_def commit_def flip: d_def, unfold rest_simps) (auto simp: delete_user_def d'_def)
  let ?s = "(delete_user u (s\<lparr>at_rest := d\<rparr>))\<lparr>at_rest := d'\<rparr>"
  have gone: "x \<in> set (at_users ?s) \<Longrightarrow> ur_id x \<noteq> u" for x by (simp add: delete_user_def)
  have "user_of u ?s = None" using gone by (auto simp: user_of_def find_None_iff)
  moreover have "identities_of u ?s = []" by (simp add: identities_of_def delete_user_def)
  moreover have "\<forall>x \<in> set (at_sessions ?s). sr_user x \<noteq> u" by (simp add: delete_user_def)
  moreover have "map_of (at_preferences ?s) u = None" by (auto simp: delete_user_def map_of_eq_None_iff)
  moreover have "models_of u d' = []" "\<forall>i. ml_files d' (u, i) = (if removed i then None else ml_files (at_rest s) (u, i))"
    by (simp_all add: models_of_def d'_def d_def)
  moreover have "fst (signed_in E t ?s) = Some (v, b) \<longrightarrow> ur_id v \<noteq> u" for t v b using signed_in_user[of E t ?s v b] gone by auto
  moreover have "user_of v ?s = user_of v s \<and> identities_of v ?s = identities_of v s \<and>
      filter (\<lambda>x. sr_user x = v) (at_sessions ?s) = filter (\<lambda>x. sr_user x = v) (at_sessions s) \<and>
      map_of (at_preferences ?s) v = map_of (at_preferences s) v \<and> models_of v d' = models_of v (at_rest s) \<and>
      ml_files d' (v, i) = ml_files (at_rest s) (v, i)" if "v \<noteq> u" for v i
  proof -
    have "user_of v ?s = user_of v (delete_user u (s\<lparr>at_rest := d\<rparr>))" by (simp add: user_of_def)
    then have "user_of v ?s = user_of v s" using other_user[OF that, of "s\<lparr>at_rest := d\<rparr>"] by (simp add: user_of_def)
    moreover have "identities_of v ?s = identities_of v s" using that by (auto simp: identities_of_def delete_user_def intro!: filter_cong)
    moreover have "filter (\<lambda>x. sr_user x = v) (at_sessions ?s) = filter (\<lambda>x. sr_user x = v) (at_sessions s)"
      using that by (auto simp: delete_user_def intro!: filter_cong)
    moreover have "map_of (at_preferences ?s) v = map_of (at_preferences s) v" by (simp add: delete_user_def map_of_other[OF that])
    moreover have "models_of v d' = models_of v (at_rest s)" using that by (auto simp: models_of_def d'_def d_def intro!: filter_cong)
    ultimately show ?thesis using that by (simp add: d'_def d_def)
  qed
  ultimately show ?thesis unfolding run Let_def by (intro conjI) simp_all
qed

section \<open>The page to return to stays on the site\<close>

text \<open>What a browser makes of the address of a redirect: it leaves out tabs and line ends, trims spaces and control
  characters and reads a backslash as a slash. An address with a scheme or a host leaves the site.\<close>

definition browser_address :: "string \<Rightarrow> string" where
  "browser_address p = (let cut = dropWhile (\<lambda>c. code_of c \<le> 32); q = rev (cut (rev (cut p)))
     in map (\<lambda>c. if c = CHR 0x5C then CHR ''/'' else c) (filter (\<lambda>c. code_of c \<notin> {9, 10, 13}) q))"

definition has_scheme :: "string \<Rightarrow> bool" where
  "has_scheme a \<longleftrightarrow> CHR '':'' \<in> set a \<and> a \<noteq> [] \<and> (is_upper (hd a) \<or> is_lower (hd a))"

definition leaves_site :: "string \<Rightarrow> bool" where
  "leaves_site p \<longleftrightarrow> has_scheme (browser_address p) \<or> starts_with (browser_address p) ''//''"

lemma safe_next_accepts:
  "safe_next (Some p) d = d \<or> (safe_next (Some p) d = p \<and> starts_with p ''/'' \<and> \<not> starts_with p ''//'' \<and> CHR 0x5C \<notin> set p \<and> (\<forall>c \<in> set p. \<not> is_control c))"
  by (auto simp: safe_next_def list_ex_iff)

text \<open>A sign-in never returns to another site: if the default page does not leave the site, neither does
  what \<open>safe_next\<close> gives, whatever the link asked for and however a browser reads it.\<close>

theorem safe_next_stays:
  assumes "\<not> leaves_site d"
  shows "\<not> leaves_site (safe_next path d)"
proof (cases "\<exists>p. path = Some p \<and> safe_next path d \<noteq> d")
  case True
  then obtain p where p: "safe_next path d = p" "starts_with p ''/''" "\<not> starts_with p ''//''" "CHR 0x5C \<notin> set p" "\<forall>c \<in> set p. \<not> is_control c"
    using safe_next_accepts by blast
  then obtain q where q: "p = CHR ''/'' # q" by (cases p) (auto simp: starts_with_def)
  define rest where "rest = rev (dropWhile (\<lambda>c. code_of c \<le> 32) (rev q))"
  obtain more where more: "q = rest @ more"
    unfolding rest_def by (metis rev_append rev_rev_ident takeWhile_dropWhile_id)
  have slash: "\<not> code_of (CHR ''/'') \<le> 32" by (simp add: code_of_def)
  have "dropWhile (\<lambda>c. code_of c \<le> 32) (rev q @ [CHR ''/'']) = rev rest @ [CHR ''/'']"
  proof (cases "\<exists>c \<in> set (rev q). \<not> code_of c \<le> 32")
    case True
    then obtain c where "c \<in> set (rev q)" "\<not> code_of c \<le> 32" by blast
    then show ?thesis by (simp add: rest_def dropWhile_append1)
  next
    case False
    then have "dropWhile (\<lambda>c. code_of c \<le> 32) (rev q) = []" by simp
    then show ?thesis using False slash by (subst dropWhile_append2) (auto simp: rest_def)
  qed
  then have "rev (dropWhile (\<lambda>c. code_of c \<le> 32) (rev (dropWhile (\<lambda>c. code_of c \<le> 32) p))) = CHR ''/'' # rest"
    using slash by (simp add: q)
  moreover have "filter (\<lambda>c. code_of c \<notin> {9, 10, 13}) (CHR ''/'' # rest) = CHR ''/'' # rest"
  proof (rule filter_True)
    have "code_of c \<ge> 32" if "c \<in> set p" for c using bspec[OF p(5) that] by (simp add: is_control_def not_less)
    then have "32 \<le> code_of c" if "c \<in> set (CHR ''/'' # rest)" for c using that unfolding q more by auto
    then show "\<forall>c \<in> set (CHR ''/'' # rest). code_of c \<notin> {9, 10, 13}" by fastforce
  qed
  moreover have "map (\<lambda>c. if c = CHR 0x5C then CHR ''/'' else c) (CHR ''/'' # rest) = CHR ''/'' # rest"
    using p(4) unfolding q more by (intro map_idI) auto
  ultimately have "browser_address p = CHR ''/'' # rest" unfolding browser_address_def Let_def by simp
  moreover have "\<not> starts_with (CHR ''/'' # rest) ''//''" using p(3) unfolding q more by (auto simp: starts_with_def)
  ultimately show ?thesis unfolding leaves_site_def has_scheme_def p(1) by (simp add: is_upper_def is_lower_def code_of_def)
qed (use assms in \<open>auto simp: safe_next_def\<close>)

section \<open>The theorems at work\<close>

text \<open>A first sign-in with Google, of a browser that started it.\<close>

definition example_net :: "ml_state accounts net" where
  "example_net = \<lparr>nt_send = (\<lambda>_ _ s. (Inr \<lparr>status_code = 200, header = (\<lambda>_. None), content = ''{}''\<rparr>, s)), nt_sleep = (\<lambda>_ s. s),
     nt_now = (\<lambda>_. 0), nt_date = (\<lambda>_. None), nt_hit = (\<lambda>_ _ _ s. (0, s))\<rparr>"

definition example_oauth :: "ml_state accounts oauth" where
  "example_oauth = \<lparr>og_client = (\<lambda>_. (''id'', ''secret'')), og_public_url = ''https://app'', og_grant = (\<lambda>u _ _ _ st _. u @ st),
     og_challenge = (\<lambda>v. v), og_body = (\<lambda>c _ _ _ _. c), og_post = (\<lambda>_ _ s. (Inr \<lparr>status_code = 200, header = (\<lambda>_. None), content = ''{}''\<rparr>, s)),
     og_net = (\<lambda>_. example_net), og_token = (\<lambda>_. Some \<lparr>tk_access = Some ''a'', tk_error = None\<rparr>), og_github_user = (\<lambda>_. None),
     og_github_emails = (\<lambda>_. None), og_google_user = (\<lambda>_. Some \<lparr>go_sub = ''7'', go_email = Some ''Ann@x.sk'', go_verified = True, go_name = Some ''Ann''\<rparr>)\<rparr>"

definition example_accounts_env :: "ml_state accounts_env" where
  "example_accounts_env = \<lparr>ae_oauth = example_oauth, ae_hash = (\<lambda>t. t), ae_allow = [''ann@x.sk''], ae_hooks = [models_hook (\<lambda>_. True)]\<rparr>"

definition example_randoms :: randoms where
  "example_randoms = \<lparr>rn_state = ''st'', rn_verifier = ''v'', rn_token = ''t'', rn_user = ''ann'', rn_denial = ''d''\<rparr>"

definition example_nobody :: "ml_state accounts" where
  "example_nobody = \<lparr>at_users = [], at_identities = [], at_sessions = [], at_preferences = [], at_pending = Map.empty, at_redis_up = True, at_now = 0,
     at_rest = example_models\<rparr>"

definition example_started :: "ml_state accounts" where
  "example_started = snd (start_sign_in example_accounts_env example_randoms Google (Some ''/models'') example_nobody)"

definition example_finished :: "ml_state accounts" where
  "example_finished = snd (finish_sign_in example_accounts_env example_randoms Google (Some ''st'') (Some ''st'') None (Some ''c'') None example_started)"

lemma example_others: "others_keep accounts_ok (ae_oauth example_accounts_env)"
  by (simp add: others_keep_def example_accounts_env_def example_oauth_def example_net_def)

lemma example_accounts_run: "accounts_run example_accounts_env example_finished"
  unfolding example_finished_def example_started_def
  by (intro accounts_run.intros) (simp_all add: example_nobody_def)

theorem accounts_kept_witness: "accounts_ok example_finished"
  by (rule accounts_kept[OF example_accounts_run example_others])

lemma example_started_eval:
  "example_started = example_nobody\<lparr>at_pending := [''auth:state:st'' \<mapsto> (WaitingSignIn \<lparr>pe_provider = Google, pe_verifier = ''v'', pe_next = ''/models'', pe_connect = None\<rparr>, PENDING_TTL)]\<rparr>"
  by (simp add: example_started_def start_sign_in_def start_def authorization_url_def credentials_def sign_bind_def sign_lift_def put_waiting_def
    example_accounts_env_def example_oauth_def example_randoms_def example_nobody_def pending_key_def safe_next_def starts_with_def is_control_def
    code_of_def MAX_NEXT_def)

lemma example_fetch:
  "fetch_account example_oauth Google c v s = (Inr \<lparr>ac_provider = Google, ac_subject = ''7'', ac_email = ''ann@x.sk'', ac_name = Some ''Ann'', ac_login = None\<rparr>, s)"
proof -
  have "lower ''Ann@x.sk'' = ''ann@x.sk''" by code_simp
  then show ?thesis
    by (simp add: fetch_account_def access_token_def google_account_def get_content_def request_def request_with_retry_def request_from.simps
      sign_bind_def sign_lift_def credentials_def example_oauth_def example_net_def unexpected_def google_account_of_def some_text_def RETRY_STATUSES_def)
qed

lemma example_finish:
  "finish_sign_in example_accounts_env example_randoms Google (Some ''st'') (Some ''st'') None (Some ''c'') None example_started = (Inr (''/models'', Some ''t''), example_finished)"
  unfolding example_finished_def example_started_eval
  by (simp add: finish_sign_in_def finish_pending_def take_sign_in_def waiting_at_def PENDING_TTL_def or_text_def MAX_STATE_def sign_bind_def sign_lift_def
    example_accounts_env_def example_randoms_def example_nobody_def pending_key_def example_fetch sign_in_account_def identity_of_def
    account_of_def user_by_email_def new_session_def commit_def db_ok_def add_identity_def new_user_def Let_def)

theorem sign_in_safe_witness:
  "\<exists>a s2. admitted example_accounts_env example_randoms a (Some ''t'') s2 example_finished"
  using sign_in_safe[OF example_finish] by (auto simp: example_started_eval pending_key_def example_accounts_env_def waiting_at_def PENDING_TTL_def example_nobody_def)

theorem account_deleted_witness:
  "models_of ''ann'' (at_rest example_finished) \<noteq> [] \<and>
   models_of ''ann'' (at_rest (snd (delete_account example_accounts_env ''ann'' example_finished))) = []"
proof
  have "at_rest example_finished = example_models"
    unfolding example_finished_def example_started_eval
    by (simp add: finish_sign_in_def finish_pending_def take_sign_in_def waiting_at_def PENDING_TTL_def or_text_def MAX_STATE_def sign_bind_def
      sign_lift_def example_accounts_env_def example_randoms_def example_nobody_def pending_key_def example_fetch sign_in_account_def identity_of_def
      account_of_def user_by_email_def new_session_def commit_def db_ok_def add_identity_def new_user_def Let_def)
  then show "models_of ''ann'' (at_rest example_finished) \<noteq> []" by (simp add: models_of_def example_models_def example_model_def)
  have "ae_hooks example_accounts_env = [models_hook (\<lambda>_. True)]" by (simp add: example_accounts_env_def)
  from account_deleted[OF accounts_run_ok[OF example_accounts_run example_others] this, of "''ann''"]
  show "models_of ''ann'' (at_rest (snd (delete_account example_accounts_env ''ann'' example_finished))) = []" by (simp add: Let_def)
qed

theorem safe_next_stays_witness: "\<not> leaves_site (safe_next (Some ''//evil.example'') DEFAULT_NEXT)"
proof (rule safe_next_stays)
  show "\<not> leaves_site DEFAULT_NEXT"
    by (simp add: leaves_site_def browser_address_def has_scheme_def starts_with_def DEFAULT_NEXT_def code_of_def)
qed

end
